(* ===== verification/Sha256.thy ===== *)
theory Sha256
  imports Main "HOL-Library.Word"
begin

text \<open>
  The hash of the standard library package crypto/sha256 (FIPS 180-4), which every
  component of the engine uses. Byte slices and Go strings are both byte sequences and
  are modelled by lists of characters, since a character of HOL is an 8-bit value.
\<close>

unbundle bit_operations_syntax

type_synonym bytes = "char list"
type_synonym u32 = "32 word"

section \<open>Bytes and words\<close>

definition byte :: "int \<Rightarrow> char" where
  "byte n = char_of (n mod 256)"

definition be32 :: "u32 \<Rightarrow> bytes" where
  "be32 w = (let n = uint w in
     [byte (n div 16777216), byte (n div 65536), byte (n div 256), byte n])"

text \<open>The eight bytes of \<^verbatim>\<open>binary.BigEndian.PutUint64\<close>.\<close>

definition be64 :: "int \<Rightarrow> bytes" where
  "be64 n = map (\<lambda>i. byte (n div 256 ^ i)) [7, 6, 5, 4, 3, 2, 1, 0]"

fun words_of :: "bytes \<Rightarrow> u32 list" where
  "words_of (a # b # c # d # bs) =
     word_of_int (((of_char a * 256 + of_char b) * 256 + of_char c) * 256 + of_char d) # words_of bs"
| "words_of _ = []"

section \<open>The compression function\<close>

definition rotr :: "nat \<Rightarrow> u32 \<Rightarrow> u32" where
  "rotr n w = drop_bit n w OR push_bit (32 - n) w"

text \<open>
  The 64 round constants: the first 32 bits of the fractional parts of the cube roots of the
  first 64 primes, in decimal.
\<close>

definition k_table :: "u32 list" where
  "k_table = [
   1116352408, 1899447441, 3049323471, 3921009573, 961987163, 1508970993, 2453635748, 2870763221,
   3624381080, 310598401, 607225278, 1426881987, 1925078388, 2162078206, 2614888103, 3248222580,
   3835390401, 4022224774, 264347078, 604807628, 770255983, 1249150122, 1555081692, 1996064986,
   2554220882, 2821834349, 2952996808, 3210313671, 3336571891, 3584528711, 113926993, 338241895,
   666307205, 773529912, 1294757372, 1396182291, 1695183700, 1986661051, 2177026350, 2456956037,
   2730485921, 2820302411, 3259730800, 3345764771, 3516065817, 3600352804, 4094571909, 275423344,
   430227734, 506948616, 659060556, 883997877, 958139571, 1322822218, 1537002063, 1747873779,
   1955562222, 2024104815, 2227730452, 2361852424, 2428436474, 2756734187, 3204031479, 3329325298]"

type_synonym sha_state = "u32 \<times> u32 \<times> u32 \<times> u32 \<times> u32 \<times> u32 \<times> u32 \<times> u32"

definition init_state :: sha_state where
  "init_state = (1779033703, 3144134277, 1013904242, 2773480762,
                 1359893119, 2600822924, 528734635, 1541459225)"

text \<open>The message schedule, newest word first.\<close>

fun extend :: "nat \<Rightarrow> u32 list \<Rightarrow> u32 list" where
  "extend 0 ws = ws"
| "extend (Suc n) ws =
     (let a = ws ! 1; b = ws ! 14;
          s0 = rotr 7 b XOR rotr 18 b XOR drop_bit 3 b;
          s1 = rotr 17 a XOR rotr 19 a XOR drop_bit 10 a
      in extend n ((ws ! 15 + s0 + ws ! 6 + s1) # ws))"

fun sha_round :: "u32 \<times> u32 \<Rightarrow> sha_state \<Rightarrow> sha_state" where
  "sha_round (k, w) (a, b, c, d, e, f, g, h) =
     (let s1 = rotr 6 e XOR rotr 11 e XOR rotr 25 e;
          ch = (e AND f) XOR (NOT e AND g);
          t1 = h + s1 + ch + k + w;
          s0 = rotr 2 a XOR rotr 13 a XOR rotr 22 a;
          maj = (a AND b) XOR (a AND c) XOR (b AND c);
          t2 = s0 + maj
      in (t1 + t2, a, b, c, d + t1, e, f, g))"

fun add_state :: "sha_state \<Rightarrow> sha_state \<Rightarrow> sha_state" where
  "add_state (a, b, c, d, e, f, g, h) (a', b', c', d', e', f', g', h') =
     (a + a', b + b', c + c', d + d', e + e', f + f', g + g', h + h')"

definition compress :: "bytes \<Rightarrow> sha_state \<Rightarrow> sha_state" where
  "compress block s =
     (let ws = rev (extend 48 (rev (words_of block)))
      in add_state s (fold sha_round (zip k_table ws) s))"

section \<open>Padding and the digest\<close>

definition sha_pad :: "bytes \<Rightarrow> bytes" where
  "sha_pad m = m @ [byte 128] @ replicate ((119 - length m mod 64) mod 64) (byte 0)
     @ be64 (int (8 * length m))"

function sha_blocks :: "bytes \<Rightarrow> sha_state \<Rightarrow> sha_state" where
  "sha_blocks bs s = (if bs = [] then s else sha_blocks (drop 64 bs) (compress (take 64 bs) s))"
  by pat_completeness auto
termination
  by (relation "measure (\<lambda>(bs, s). length bs)") (auto simp: neq_Nil_conv)

declare sha_blocks.simps [simp del]

fun digest_bytes :: "sha_state \<Rightarrow> bytes" where
  "digest_bytes (a, b, c, d, e, f, g, h) =
     be32 a @ be32 b @ be32 c @ be32 d @ be32 e @ be32 f @ be32 g @ be32 h"

definition sha256 :: "bytes \<Rightarrow> bytes" where
  "sha256 m = digest_bytes (sha_blocks (sha_pad m) init_state)"

lemma length_be32 [simp]: "length (be32 w) = 4"
  by (simp add: be32_def Let_def)

lemma length_be64 [simp]: "length (be64 n) = 8"
  by (simp add: be64_def)

lemma length_digest_bytes [simp]: "length (digest_bytes s) = 32"
  by (cases s rule: digest_bytes.cases) simp

lemma length_sha256 [simp]: "length (sha256 m) = 32"
  by (simp add: sha256_def)

end
