(* ===== verification/Go_Prelude.thy ===== *)
theory Go_Prelude
  imports
    Complex_Main
    Sha256
    "HOL-Library.Signed_Division"
    "HOL-Library.List_Lexorder"
    "HOL-Library.Char_ord"
    "HOL-Library.Multiset"
begin

text \<open>
  What the components share: the Go types of the model, hexadecimal text
  (\<^verbatim>\<open>encoding/hex\<close>), decimal text (the \<^verbatim>\<open>%d\<close> and \<^verbatim>\<open>%.Nf\<close> verbs of
  \<^verbatim>\<open>fmt.Sprintf\<close>), the pairing of adjacent list elements that every Merkle level is
  made of, and sorting.

  Conventions. A Go \<^verbatim>\<open>string\<close> and a \<^verbatim>\<open>[]byte\<close> are byte sequences
  (\<open>bytes\<close>). A pointer that may be nil is an \<open>option\<close>. An error return is the left
  of a sum. A Go map is a partial function; a \<^verbatim>\<open>range\<close> over a map takes the keys in
  the order of an extra list argument, because Go leaves that order open. A
  \<^verbatim>\<open>time.Now()\<close> is an extra argument. A \<^verbatim>\<open>float64\<close> is a rational, and where
  the code computes with floats the rounding is an argument of the definition.
\<close>

section \<open>Types and collections\<close>

type_synonym gostring = bytes
type_synonym float64 = rat

abbreviation (input) nil_string :: gostring where
  "nil_string \<equiv> []"

named_theorems go_defs \<open>definitions of the helpers shared by the components\<close>
named_theorems level_simps \<open>equations for one Merkle level\<close>
named_theorems inv_intros \<open>preservation of component invariants\<close>

section \<open>Hexadecimal text\<close>

definition hex_digits :: string where
  "hex_digits = ''0123456789abcdef''"

definition hex_digit :: "nat \<Rightarrow> char" where
  "hex_digit n = hex_digits ! n"

text \<open>\<^verbatim>\<open>hex.EncodeToString\<close>: two lower-case digits per byte.\<close>

fun hex_encode :: "bytes \<Rightarrow> gostring" where
  "hex_encode [] = []"
| "hex_encode (b # bs) =
     hex_digit (of_char b div 16) # hex_digit (of_char b mod 16) # hex_encode bs"

text \<open>One hexadecimal digit, either case, as \<^verbatim>\<open>hex.DecodeString\<close> reads it.\<close>

definition unhex :: "char \<Rightarrow> nat option" where
  "unhex c = (let n = of_char c in
     if 48 \<le> n \<and> n \<le> 57 then Some (n - 48)
     else if 97 \<le> n \<and> n \<le> 102 then Some (n - 87)
     else if 65 \<le> n \<and> n \<le> 70 then Some (n - 55)
     else None)"

text \<open>\<^verbatim>\<open>hex.DecodeString\<close>: an odd length or a character that is no digit is an error.\<close>

fun hex_decode :: "gostring \<Rightarrow> bytes option" where
  "hex_decode [] = Some []"
| "hex_decode [c] = None"
| "hex_decode (c # d # cs) =
     (case unhex c of None \<Rightarrow> None
      | Some hi \<Rightarrow> (case unhex d of None \<Rightarrow> None
        | Some lo \<Rightarrow> map_option (\<lambda>bs. char_of (16 * hi + lo) # bs) (hex_decode cs)))"

lemma unhex_hex_digit: "n < 16 \<Longrightarrow> unhex (hex_digit n) = Some n"
proof -
  assume "n < 16"
  then have "n \<in> set [0..<16]" by simp
  moreover have "\<forall>n \<in> set [0..<16]. unhex (hex_digit n) = Some n" by code_simp
  ultimately show ?thesis by blast
qed

lemma of_char_less_256 [simp]: "(of_char c :: nat) < 256"
  by (cases c) (simp add: of_char_def horner_sum_simps split: bool.splits)

lemma hex_decode_encode [simp]: "hex_decode (hex_encode bs) = Some bs"
proof (induction bs)
  case (Cons b bs)
  have "of_char b div 16 < (16 :: nat)"
    using of_char_less_256 [of b] by linarith
  with Cons show ?case
    by (simp add: unhex_hex_digit)
qed simp

lemma hex_encode_inject [simp]: "hex_encode a = hex_encode b \<longleftrightarrow> a = b"
  by (metis hex_decode_encode option.inject)

lemma hex_encode_Nil_iff [simp]: "hex_encode a = [] \<longleftrightarrow> a = []"
  by (cases a) simp_all

lemma length_hex_encode [simp]: "length (hex_encode bs) = 2 * length bs"
  by (induction bs) simp_all

lemma sha256_not_Nil [simp]: "sha256 m \<noteq> []"
  by (metis length_sha256 list.size(3) zero_neq_numeral)

section \<open>Decimal text\<close>

definition dec_digit :: "nat \<Rightarrow> char" where
  "dec_digit n = ''0123456789'' ! n"

fun show_nat :: "nat \<Rightarrow> gostring" where
  "show_nat n = (if n < 10 then [dec_digit n] else show_nat (n div 10) @ [dec_digit (n mod 10)])"

declare show_nat.simps [simp del]

text \<open>The verb \<^verbatim>\<open>%d\<close>.\<close>

definition show_int :: "int \<Rightarrow> gostring" where
  "show_int i = (if i < 0 then CHR ''-'' # show_nat (nat (- i)) else show_nat (nat i))"

text \<open>The verb \<^verbatim>\<open>%.Nf\<close>: the decimal with \<open>n\<close> places nearest to the value, ties to even.\<close>

definition round_half_even :: "rat \<Rightarrow> int" where
  "round_half_even x = (let k = \<lfloor>x\<rfloor>; d = x - of_int k in
     if d < 1 / 2 then k else if d > 1 / 2 then k + 1 else if even k then k else k + 1)"

definition pad_zero :: "nat \<Rightarrow> gostring \<Rightarrow> gostring" where
  "pad_zero n s = replicate (n - length s) CHR ''0'' @ s"

definition show_fixed :: "nat \<Rightarrow> float64 \<Rightarrow> gostring" where
  "show_fixed n x = (let k = round_half_even (\<bar>x\<bar> * 10 ^ n); p = nat (10 ^ n) in
     (if x < 0 then ''-'' else '''') @ show_nat (nat k div p)
       @ (if n = 0 then '''' else ''.'' @ pad_zero n (show_nat (nat k mod p))))"

text \<open>The verb \<^verbatim>\<open>%q\<close> on ASCII text (the texts quoted by the engine are ASCII).\<close>

definition quote_char :: "char \<Rightarrow> gostring" where
  "quote_char c = (let n = of_char c :: nat in
     if n = 34 then [char_of (92 :: nat), c] else if n = 92 then [c, c]
     else if n = 7 then char_of (92 :: nat) # ''a'' else if n = 8 then char_of (92 :: nat) # ''b''
     else if n = 12 then char_of (92 :: nat) # ''f'' else if n = 10 then char_of (92 :: nat) # ''n''
     else if n = 13 then char_of (92 :: nat) # ''r'' else if n = 9 then char_of (92 :: nat) # ''t''
     else if n = 11 then char_of (92 :: nat) # ''v''
     else if n < 32 \<or> n = 127 then char_of (92 :: nat) # ''x'' @ hex_encode [c]
     else [c])"

definition quote_string :: "gostring \<Rightarrow> gostring" where
  "quote_string s = [char_of (34 :: nat)] @ concat (map quote_char s) @ [char_of (34 :: nat)]"

lemma dec_digit_inj: "a < 10 \<Longrightarrow> b < 10 \<Longrightarrow> dec_digit a = dec_digit b \<Longrightarrow> a = b"
proof -
  assume "a < 10" "b < 10" "dec_digit a = dec_digit b"
  moreover from this have "a \<in> set [0..<10]" "b \<in> set [0..<10]" by simp_all
  moreover have "\<forall>a \<in> set [0..<10]. \<forall>b \<in> set [0..<10]. dec_digit a = dec_digit b \<longrightarrow> a = b"
    by code_simp
  ultimately show "a = b" by blast
qed

lemma show_nat_not_Nil [simp]: "show_nat n \<noteq> []"
  by (subst show_nat.simps) simp

lemma show_nat_inj: "show_nat m = show_nat n \<Longrightarrow> m = n"
proof (induction m arbitrary: n rule: show_nat.induct)
  case (1 m)
  show ?case
  proof (cases "m < 10 \<or> n < 10")
    case True
    with "1.prems" show ?thesis
      by (auto simp: show_nat.simps [of m] show_nat.simps [of n] append_eq_Cons_conv
          Cons_eq_append_conv dest: dec_digit_inj split: if_splits)
  next
    case False
    with "1.prems" have "show_nat (m div 10) = show_nat (n div 10)"
      and "dec_digit (m mod 10) = dec_digit (n mod 10)"
      by (simp_all add: show_nat.simps [of m] show_nat.simps [of n])
    with False have "m div 10 = n div 10" and "m mod 10 = n mod 10"
      using "1.IH" by (auto intro: dec_digit_inj)
    then show ?thesis by (metis div_mult_mod_eq)
  qed
qed

lemma dec_digit_in: "n < 10 \<Longrightarrow> dec_digit n \<in> set ''0123456789''"
  unfolding dec_digit_def by (rule nth_mem) simp

lemma set_show_nat: "set (show_nat n) \<subseteq> set ''0123456789''"
proof (induction n rule: show_nat.induct)
  case (1 n)
  then show ?case using dec_digit_in [of n] dec_digit_in [of "n mod 10"] by (subst show_nat.simps) auto
qed

lemma set_hex_encode: "set (hex_encode b) \<subseteq> set hex_digits"
proof (induction b)
  case (Cons c b)
  have "hex_digit n \<in> set hex_digits" if "n < 16" for n
    unfolding hex_digit_def by (rule nth_mem) (use that in \<open>simp add: hex_digits_def\<close>)
  with Cons show ?case by (simp add: div_less_iff_less_mult)
qed simp

text \<open>The bytes of the dash that stands in some error texts.\<close>

definition em_dash :: gostring where
  "em_dash = [byte 226, byte 128, byte 148]"

text \<open>The lower-case form of an ASCII letter.\<close>

definition to_lower :: "char \<Rightarrow> char" where
  "to_lower c = (let n = of_char c :: nat in if 65 \<le> n \<and> n \<le> 90 then char_of (n + 32) else c)"

section \<open>Pairing adjacent elements\<close>

text \<open>
  One level of a Merkle tree: the nodes at positions \<open>2 i\<close> and \<open>2 i + 1\<close> make the node
  at position \<open>i\<close>. \<open>pair_up\<close> ignores an unpaired last element; the callers pad first.
\<close>

fun pair_up :: "('a \<Rightarrow> 'a \<Rightarrow> 'b) \<Rightarrow> 'a list \<Rightarrow> 'b list" where
  "pair_up f (a # b # xs) = f a b # pair_up f xs"
| "pair_up f _ = []"

text \<open>The duplicate-last padding rule.\<close>

definition dup_last :: "'a list \<Rightarrow> 'a list" where
  "dup_last xs = (if odd (length xs) then xs @ [last xs] else xs)"

lemma length_pair_up [simp, level_simps]: "length (pair_up f xs) = length xs div 2"
  by (induction f xs rule: pair_up.induct) simp_all

lemma map_pair_up: "map g (pair_up f xs) = pair_up (\<lambda>a b. g (f a b)) xs"
  by (induction f xs rule: pair_up.induct) simp_all

lemma pair_up_map: "pair_up f (map g xs) = pair_up (\<lambda>a b. f (g a) (g b)) xs"
  by (induction f "map g xs" arbitrary: xs rule: pair_up.induct) (auto simp: map_eq_Cons_conv)

lemma pair_up_append:
  "even (length xs) \<Longrightarrow> pair_up f (xs @ ys) = pair_up f xs @ pair_up f ys"
  by (induction f xs rule: pair_up.induct) simp_all

lemma nth_pair_up:
  "Suc (2 * i) < length xs \<Longrightarrow> pair_up f xs ! i = f (xs ! (2 * i)) (xs ! Suc (2 * i))"
proof (induction f xs arbitrary: i rule: pair_up.induct)
  case (1 f a b xs)
  then show ?case by (cases i) simp_all
qed simp_all

lemma dup_last_even [level_simps]: "even (length xs) \<Longrightarrow> dup_last xs = xs"
  by (simp add: dup_last_def)

lemma dup_last_odd [level_simps]: "odd (length xs) \<Longrightarrow> dup_last xs = xs @ [last xs]"
  by (simp add: dup_last_def)

lemma length_dup_last [level_simps]: "length (dup_last xs) = 2 * ((length xs + 1) div 2)"
  by (auto simp: dup_last_def elim!: oddE evenE)

lemma even_dup_last [simp]: "even (length (dup_last xs))"
  by (simp add: length_dup_last)

lemma nth_dup_last: "i < length xs \<Longrightarrow> dup_last xs ! i = xs ! i"
  by (simp add: dup_last_def nth_append)

lemma map_dup_last: "map f (dup_last xs) = dup_last (map f xs)"
  by (cases xs rule: rev_cases) (simp_all add: dup_last_def)

lemma dup_last_Nil_iff [simp]: "dup_last xs = [] \<longleftrightarrow> xs = []"
  by (auto simp: dup_last_def)

section \<open>64-bit integers\<close>

text \<open>The result of an operation on a Go \<^verbatim>\<open>int\<close> or \<^verbatim>\<open>int64\<close>: two's complement on 64 bits.\<close>

definition wrap64 :: "int \<Rightarrow> int" where
  "wrap64 i = (i + 2 ^ 63) mod 2 ^ 64 - 2 ^ 63"

lemma wrap64_word: "wrap64 i = sint (word_of_int i :: 64 word)"
  by (simp add: wrap64_def sint_uint uint_word_of_int signed_take_bit_eq_take_bit_shift take_bit_eq_mod
      mod_add_left_eq)

lemma wrap64_id: "- (2 ^ 63) \<le> i \<Longrightarrow> i < 2 ^ 63 \<Longrightarrow> wrap64 i = i"
  by (simp add: wrap64_def)

lemma wrap64_small: "0 \<le> i \<Longrightarrow> i < 2 ^ 63 \<Longrightarrow> wrap64 i = i"
  by (simp add: wrap64_def)

lemma wrap64_range: "- (2 ^ 63) \<le> wrap64 i" "wrap64 i < 2 ^ 63"
  by (simp_all add: wrap64_def)

section \<open>Big-endian lengths\<close>

lemma of_char_byte: "of_char (byte n) = n mod 256"
  by (simp add: byte_def of_char_of)

fun read_be :: "int \<Rightarrow> bytes \<Rightarrow> int" where
  "read_be acc [] = acc"
| "read_be acc (c # cs) = read_be (256 * acc + of_char c) cs"

lemma read_be_digits:
  "read_be acc (map (\<lambda>i. byte (n div 256 ^ i)) (rev [0..<k])) = acc * 256 ^ k + n mod 256 ^ k"
proof (induction k arbitrary: acc)
  case (Suc k)
  have "n mod 256 ^ Suc k = 256 ^ k * (n div 256 ^ k mod 256) + n mod 256 ^ k"
    using zmod_zmult2_eq [of 256 n "256 ^ k"] by (simp add: mult.commute)
  with Suc show ?case by (simp add: of_char_byte algebra_simps)
qed simp

lemma read_be64: "read_be 0 (be64 n) = n mod 2 ^ 64"
proof -
  have "rev [0..<8] = [7, 6, 5, 4, 3, 2, 1, 0 :: nat]" by code_simp
  then have "be64 n = map (\<lambda>i. byte (n div 256 ^ i)) (rev [0..<8])" by (simp only: be64_def)
  with read_be_digits [of 0 n 8] show ?thesis by simp
qed

lemma be64_inject: "be64 a = be64 b \<Longrightarrow> a mod 2 ^ 64 = b mod 2 ^ 64"
  by (metis read_be64)

lemma be64_length_inject:
  "be64 (int m) = be64 (int n) \<Longrightarrow> m < 2 ^ 64 \<Longrightarrow> n < 2 ^ 64 \<Longrightarrow> m = n"
  using be64_inject [of "int m" "int n"] by simp

lemma hd_be64: "0 \<le> n \<Longrightarrow> n < 2 ^ 56 \<Longrightarrow> be64 n = byte 0 # tl (be64 n)"
  by (simp add: be64_def)

section \<open>Ranging over a map\<close>

text \<open>
  A \<^verbatim>\<open>range\<close> loop over a map visits every key once. \<open>ranges ks m\<close> says that \<open>ks\<close> is
  one of the orders the loop may take.
\<close>

definition ranges :: "'k list \<Rightarrow> ('k \<rightharpoonup> 'v) \<Rightarrow> bool" where
  "ranges ks m \<longleftrightarrow> distinct ks \<and> set ks = dom m"

definition range_values :: "'k list \<Rightarrow> ('k \<rightharpoonup> 'v) \<Rightarrow> 'v list" where
  "range_values ks m = map (\<lambda>k. the (m k)) ks"

lemma ranges_length: "ranges ks m \<Longrightarrow> length ks = card (dom m)"
  unfolding ranges_def by (metis distinct_card)

lemma ranges_finite: "ranges ks m \<Longrightarrow> finite (dom m)"
  by (auto simp: ranges_def dest: sym)

lemma set_range_values: "ranges ks m \<Longrightarrow> set (range_values ks m) = ran m"
  by (force simp: ranges_def range_values_def ran_def image_iff dom_def)

lemma ranges_mset_unique:
  "ranges ks m \<Longrightarrow> ranges ks' m \<Longrightarrow> mset (range_values ks m) = mset (range_values ks' m)"
  unfolding range_values_def mset_map ranges_def
  by (metis set_eq_iff_mset_eq_distinct)

section \<open>Sorting\<close>

text \<open>
  \<^verbatim>\<open>sort.SliceStable\<close> by a key is the library's stable \<open>sort_key\<close>. \<^verbatim>\<open>sort.Slice\<close>
  leaves the order of equal keys open; it is modelled by the same function, since the
  order it is applied to is open as well (a map range) or the keys are distinct.
  Sorting from the largest key on is stable sorting by the reversed order.
\<close>

fun insert_desc :: "('a \<Rightarrow> 'k::linorder) \<Rightarrow> 'a \<Rightarrow> 'a list \<Rightarrow> 'a list" where
  "insert_desc f x [] = [x]"
| "insert_desc f x (y # ys) = (if f x \<ge> f y then x # y # ys else y # insert_desc f x ys)"

definition sort_desc :: "('a \<Rightarrow> 'k::linorder) \<Rightarrow> 'a list \<Rightarrow> 'a list" where
  "sort_desc f xs = foldr (insert_desc f) xs []"

lemma mset_insert_desc [simp]: "mset (insert_desc f x ys) = add_mset x (mset ys)"
  by (induction ys) auto

lemma mset_sort_desc [simp]: "mset (sort_desc f xs) = mset xs"
  unfolding sort_desc_def by (induction xs) auto

lemma set_insert_desc [simp]: "set (insert_desc f x ys) = insert x (set ys)"
  by (metis mset_insert_desc set_mset_add_mset_insert set_mset_mset)

lemma set_sort_desc [simp]: "set (sort_desc f xs) = set xs"
  by (metis mset_sort_desc set_mset_mset)

lemma length_sort_desc [simp]: "length (sort_desc f xs) = length xs"
  by (metis mset_sort_desc size_mset)

lemma sorted_insert_desc:
  "sorted_wrt (\<lambda>a b. f a \<ge> f b) ys \<Longrightarrow> sorted_wrt (\<lambda>a b. f a \<ge> f b) (insert_desc f x ys)"
  by (induction ys) auto

lemma sorted_sort_desc: "sorted_wrt (\<lambda>a b. f a \<ge> f b) (sort_desc f xs)"
  unfolding sort_desc_def by (induction xs) (simp_all add: sorted_insert_desc)

section \<open>Ring buffers\<close>

text \<open>A ring buffer of capacity \<open>c\<close> holds the last \<open>c\<close> elements of what was appended.\<close>

definition last_n :: "nat \<Rightarrow> 'a list \<Rightarrow> 'a list" where
  "last_n c xs = drop (length xs - c) xs"

lemma last_n_append: "last_n c (last_n c xs @ ys) = last_n c (xs @ ys)"
proof (cases "length xs \<le> c")
  case False
  then have "length (last_n c xs) = c" by (simp add: last_n_def)
  with False show ?thesis by (simp add: last_n_def add.commute)
qed (simp add: last_n_def)

lemma last_n_short: "length xs \<le> c \<Longrightarrow> last_n c xs = xs"
  by (simp add: last_n_def)

lemma length_last_n: "length (last_n c xs) \<le> c"
  by (simp add: last_n_def)

lemma set_last_n: "set (last_n c xs) \<subseteq> set xs"
  by (simp add: last_n_def set_drop_subset)

section \<open>Text functions of the standard library\<close>

text \<open>
  \<^verbatim>\<open>strings.TrimSpace\<close> strips white space as Unicode defines it. The encodings of the
  white-space characters in UTF-8: six ASCII characters, U+0085, U+00A0, U+1680, U+2000 to
  U+200A, U+2028, U+2029, U+202F, U+205F and U+3000.
\<close>

definition white_space :: "bytes list" where
  "white_space = map (map byte)
     ([[9], [10], [11], [12], [13], [32], [194, 133], [194, 160], [225, 154, 128]] @
      map (\<lambda>i. [226, 128, i]) [128, 129, 130, 131, 132, 133, 134, 135, 136, 137, 138, 168, 169, 175] @
      [[226, 129, 159], [227, 128, 128]])"

lemma white_space_nonempty: "w \<in> set white_space \<Longrightarrow> w \<noteq> []"
  by (auto simp: white_space_def)

lemma find_SomeD: "find P xs = Some x \<Longrightarrow> x \<in> set xs \<and> P x"
  by (auto simp: find_Some_iff)

definition trim_one :: "bytes \<Rightarrow> bytes option" where
  "trim_one s = map_option (\<lambda>w. drop (length w) s) (find (\<lambda>w. take (length w) s = w) white_space)"

lemma trim_one_shorter: "trim_one s = Some r \<Longrightarrow> length r < length s"
proof -
  assume "trim_one s = Some r"
  then obtain w where w: "w \<in> set white_space" "take (length w) s = w" "r = drop (length w) s"
    by (auto simp: trim_one_def dest!: find_SomeD)
  moreover have "w \<noteq> []" using w(1) by (rule white_space_nonempty)
  ultimately show ?thesis by (metis diff_less length_drop length_greater_0_conv take_Nil)
qed

function trim_left :: "bytes \<Rightarrow> bytes" where
  "trim_left s = (case trim_one s of None \<Rightarrow> s | Some r \<Rightarrow> trim_left r)"
  by auto
termination by (relation "measure length") (simp_all add: trim_one_shorter)

declare trim_left.simps [simp del]

definition trim_last :: "bytes \<Rightarrow> bytes option" where
  "trim_last s = map_option (\<lambda>w. take (length s - length w) s)
     (find (\<lambda>w. length w \<le> length s \<and> drop (length s - length w) s = w) white_space)"

lemma trim_last_shorter: "trim_last s = Some r \<Longrightarrow> length r < length s"
proof -
  assume "trim_last s = Some r"
  then obtain w where w: "w \<in> set white_space" "length w \<le> length s" "r = take (length s - length w) s"
    by (auto simp: trim_last_def dest!: find_SomeD)
  moreover have "0 < length w" using white_space_nonempty [OF w(1)] by blast
  ultimately show ?thesis by (metis diff_less length_take less_le_trans min.absorb2 diff_le_self)
qed

function trim_right :: "bytes \<Rightarrow> bytes" where
  "trim_right s = (case trim_last s of None \<Rightarrow> s | Some r \<Rightarrow> trim_right r)"
  by auto
termination by (relation "measure length") (simp_all add: trim_last_shorter)

declare trim_right.simps [simp del]

definition TrimSpace :: "gostring \<Rightarrow> gostring" where
  "TrimSpace s = trim_right (trim_left s)"

definition TrimPrefix :: "gostring \<Rightarrow> gostring \<Rightarrow> gostring" where
  "TrimPrefix s p = (if take (length p) s = p then drop (length p) s else s)"

section \<open>Numbers read from text\<close>

text \<open>\<^verbatim>\<open>strconv.Atoi\<close>: an optional sign and decimal digits, within 64 bits.\<close>

definition digit_value :: "char \<Rightarrow> int option" where
  "digit_value c = (let n = of_char c :: int in if 48 \<le> n \<and> n \<le> 57 then Some (n - 48) else None)"

fun digits_value :: "int \<Rightarrow> gostring \<Rightarrow> int option" where
  "digits_value acc [] = Some acc"
| "digits_value acc (c # cs) = (case digit_value c of None \<Rightarrow> None | Some n \<Rightarrow> digits_value (10 * acc + n) cs)"

definition Atoi :: "gostring \<Rightarrow> int option" where
  "Atoi s =
     (let neg = (take 1 s = ''-''); ds = (if take 1 s = ''-'' \<or> take 1 s = ''+'' then drop 1 s else s) in
      if ds = [] then None
      else case digits_value 0 ds of
          None \<Rightarrow> None
        | Some n \<Rightarrow> let v = (if neg then - n else n) in
            if - (2 ^ 63) \<le> v \<and> v < 2 ^ 63 then Some v else None)"

end
