(* ===== verification/Merkle_Core.thy ===== *)
theory Merkle_Core
  imports Go_Prelude
begin

text \<open>
  The reference Merkle tree, over any way \<open>node\<close> of hashing two children into their
  parent: duplicate-last padding at every level, the root, the authentication path of a
  position and the climb from a leaf along a path. The locale \<open>merkle_scheme\<close> is the
  interface a concrete tree has to offer (a hash of 32 bytes and an unambiguous encoding
  of two children), and holds the lemmas the trees of the engine share: completeness of
  paths and binding up to a hash collision. It is interpreted for the tree of
  \<^verbatim>\<open>prover/merkle.go\<close> and for the tagged tree of
  \<^verbatim>\<open>aggregator/merkle_recursion.go\<close>.
\<close>

section \<open>Levels, root, path and climb\<close>

definition level_up :: "('a \<Rightarrow> 'a \<Rightarrow> 'a) \<Rightarrow> 'a list \<Rightarrow> 'a list" where
  "level_up node xs = pair_up node (dup_last xs)"

definition sibling :: "nat \<Rightarrow> nat" where
  "sibling i = (if even i then i + 1 else i - 1)"

lemma length_level_up [level_simps]: "length (level_up node xs) = (length xs + 1) div 2"
  by (simp add: level_up_def length_dup_last)

function merkle_root :: "('a \<Rightarrow> 'a \<Rightarrow> 'a) \<Rightarrow> 'a list \<Rightarrow> 'a" where
  "merkle_root node xs = (if length xs \<le> 1 then hd xs else merkle_root node (level_up node xs))"
  by pat_completeness auto
termination
  by (relation "measure (\<lambda>(node, xs). length xs)") (auto simp: length_level_up)

declare merkle_root.simps [simp del]

function merkle_path :: "('a \<Rightarrow> 'a \<Rightarrow> 'a) \<Rightarrow> 'a list \<Rightarrow> nat \<Rightarrow> 'a list" where
  "merkle_path node xs i =
     (if length xs \<le> 1 then []
      else dup_last xs ! sibling i # merkle_path node (level_up node xs) (i div 2))"
  by pat_completeness auto
termination
  by (relation "measure (\<lambda>(node, xs, i). length xs)") (auto simp: length_level_up)

declare merkle_path.simps [simp del]

fun climb :: "('a \<Rightarrow> 'a \<Rightarrow> 'a) \<Rightarrow> 'a \<Rightarrow> 'a list \<Rightarrow> nat \<Rightarrow> 'a" where
  "climb node h [] i = h"
| "climb node h (s # ss) i = climb node (if even i then node h s else node s h) ss (i div 2)"

lemma level_up_not_Nil [simp]: "level_up node xs = [] \<longleftrightarrow> xs = []"
proof -
  have "length (level_up node xs) = 0 \<longleftrightarrow> length xs = 0"
    unfolding length_level_up by presburger
  then show ?thesis by (simp only: length_0_conv)
qed

lemma sibling_bound: "i < length xs \<Longrightarrow> sibling i < length (dup_last xs)"
  unfolding sibling_def length_dup_last by presburger

text \<open>The node over position \<open>i\<close> is made of the entry at \<open>i\<close> and its sibling.\<close>

lemma nth_level_up:
  assumes "i < length xs"
  shows "level_up node xs ! (i div 2) =
    (if even i then node (xs ! i) (dup_last xs ! sibling i) else node (dup_last xs ! sibling i) (xs ! i))"
proof -
  have "Suc (2 * (i div 2)) < length (dup_last xs)"
    using assms unfolding length_dup_last by presburger
  then have "level_up node xs ! (i div 2)
      = node (dup_last xs ! (2 * (i div 2))) (dup_last xs ! Suc (2 * (i div 2)))"
    unfolding level_up_def by (rule nth_pair_up)
  with assms show ?thesis
    by (auto simp: sibling_def nth_dup_last elim!: evenE oddE)
qed

lemma climb_merkle_path:
  "i < length xs \<Longrightarrow> climb node (xs ! i) (merkle_path node xs i) i = merkle_root node xs"
proof (induction node xs i rule: merkle_path.induct)
  case (1 node xs i)
  show ?case
  proof (cases "length xs \<le> 1")
    case True
    with "1.prems" have "xs ! i = hd xs"
      by (cases xs) simp_all
    with True show ?thesis
      by (simp add: merkle_path.simps [of node xs] merkle_root.simps [of node xs])
  next
    case False
    have "i div 2 < length (level_up node xs)"
      using "1.prems" by (auto simp: length_level_up)
    from "1.IH" [OF False this] False "1.prems" show ?thesis
      by (simp add: merkle_path.simps [of node xs] merkle_root.simps [of node xs] nth_level_up)
  qed
qed

text \<open>The path of a position has one entry per level.\<close>

lemma length_merkle_path:
  "length (merkle_path node xs i) = length (merkle_path node ys j)" if "length xs = length ys"
  using that
proof (induction node xs i arbitrary: ys j rule: merkle_path.induct)
  case (1 node xs i)
  show ?case
  proof (cases "length xs \<le> 1")
    case True
    with "1.prems" show ?thesis by (simp add: merkle_path.simps [of node])
  next
    case False
    have "length (level_up node xs) = length (level_up node ys)"
      using "1.prems" by (simp add: length_level_up)
    from "1.IH" [OF False this] False "1.prems" show ?thesis
      by (simp add: merkle_path.simps [of node xs] merkle_path.simps [of node ys])
  qed
qed

section \<open>The height of a tree\<close>

text \<open>The number of levels above \<open>n\<close> leaves, as the least \<open>k\<close> with \<open>n \<le> 2 ^ k\<close>.\<close>

function clog :: "nat \<Rightarrow> nat" where
  "clog n = (if n \<le> 1 then 0 else Suc (clog ((n + 1) div 2)))"
  by pat_completeness auto
termination
  by (relation "measure id") auto

declare clog.simps [simp del]

lemma clog_1 [simp]: "clog (Suc 0) = 0" "clog 0 = 0"
  by (simp_all add: clog.simps)

lemma clog_step: "1 < n \<Longrightarrow> clog n = Suc (clog ((n + 1) div 2))"
  by (subst clog.simps) simp

lemma clog_le_iff: "clog n \<le> k \<longleftrightarrow> n \<le> 2 ^ k"
proof (induction k arbitrary: n)
  case 0
  show ?case by (subst clog.simps) simp
next
  case (Suc k)
  show ?case
  proof (cases "n \<le> 1")
    case True
    then have "n \<le> 2 ^ Suc k" by (meson le_trans one_le_numeral one_le_power)
    with True show ?thesis by (simp add: clog.simps [of n])
  next
    case False
    have "(n + 1) div 2 \<le> 2 ^ k \<longleftrightarrow> n \<le> 2 ^ Suc k" by auto
    with False Suc show ?thesis by (simp add: clog_step)
  qed
qed

lemma length_merkle_path_clog: "length (merkle_path node xs i) = clog (length xs)"
proof (induction node xs i rule: merkle_path.induct)
  case (1 node xs i)
  then show ?case
    by (cases "length xs \<le> 1")
      (simp_all add: merkle_path.simps [of node xs] clog.simps [of "length xs"] length_level_up)
qed

section \<open>Hash collisions\<close>

text \<open>
  \<open>collision hash xs ys\<close> says that at some position the two lists hold different inputs
  with the same hash. The lists are the inputs two computations have hashed, so this is a
  collision somebody has produced, not one that merely exists.
\<close>

definition collision :: "('a \<Rightarrow> 'b) \<Rightarrow> 'a list \<Rightarrow> 'a list \<Rightarrow> bool" where
  "collision hash xs ys \<longleftrightarrow> list_ex (\<lambda>(x, y). x \<noteq> y \<and> hash x = hash y) (zip xs ys)"

lemma collision_Cons [simp]:
  "collision hash (x # xs) (y # ys) \<longleftrightarrow> x \<noteq> y \<and> hash x = hash y \<or> collision hash xs ys"
  by (simp add: collision_def)

text \<open>For lists of different shapes: some input of the one collides with some input of the other.\<close>

definition collides :: "('a \<Rightarrow> 'b) \<Rightarrow> 'a list \<Rightarrow> 'a list \<Rightarrow> bool" where
  "collides hash xs ys \<longleftrightarrow> list_ex (\<lambda>x. list_ex (\<lambda>y. x \<noteq> y \<and> hash x = hash y) ys) xs"

lemma collides_iff: "collides hash xs ys \<longleftrightarrow> (\<exists>x \<in> set xs. \<exists>y \<in> set ys. x \<noteq> y \<and> hash x = hash y)"
  by (simp add: collides_def list_ex_iff)

text \<open>The inputs hashed on the climb from \<open>h\<close> along a path.\<close>

fun climb_inputs ::
  "(bytes \<Rightarrow> bytes) \<Rightarrow> (bytes \<Rightarrow> bytes \<Rightarrow> bytes) \<Rightarrow> bytes \<Rightarrow> bytes list \<Rightarrow> nat \<Rightarrow> bytes list" where
  "climb_inputs hash pre h [] i = []"
| "climb_inputs hash pre h (s # ss) i =
     (let inp = if even i then pre h s else pre s h
      in inp # climb_inputs hash pre (hash inp) ss (i div 2))"

locale merkle_scheme =
  fixes hash :: "bytes \<Rightarrow> bytes" and pre :: "bytes \<Rightarrow> bytes \<Rightarrow> bytes"
  assumes hash_length: "length (hash x) = 32"
    and pre_inject: "length a = 32 \<Longrightarrow> length a' = 32 \<Longrightarrow> pre a b = pre a' b' \<Longrightarrow> a = a' \<and> b = b'"
begin

text \<open>
  Two climbs of the same length from the same position that meet in one root started from
  the same hash and used the same siblings, or a collision is among the inputs they hashed.
\<close>

lemma climb_binding:
  assumes "climb (\<lambda>a b. hash (pre a b)) h p i = climb (\<lambda>a b. hash (pre a b)) h' p' i"
    and "length p = length p'" "length h = 32" "length h' = 32"
    and "\<forall>s \<in> set p. length s = 32" "\<forall>s \<in> set p'. length s = 32"
  shows "h = h' \<and> p = p' \<or>
    collision hash (climb_inputs hash pre h p i) (climb_inputs hash pre h' p' i)"
  using assms
proof (induction p arbitrary: h h' p' i)
  case (Cons s ss)
  then obtain t ts where p': "p' = t # ts" by (cases p') auto
  let ?inp = "\<lambda>h s. if even i then pre h s else pre s h"
  have climb: "climb (\<lambda>a b. hash (pre a b)) (hash (?inp h s)) ss (i div 2) =
      climb (\<lambda>a b. hash (pre a b)) (hash (?inp h' t)) ts (i div 2)"
    using Cons.prems(1) unfolding p' by (simp split: if_splits)
  have IH: "hash (?inp h s) = hash (?inp h' t) \<and> ss = ts \<or>
      collision hash (climb_inputs hash pre (hash (?inp h s)) ss (i div 2))
        (climb_inputs hash pre (hash (?inp h' t)) ts (i div 2))"
    by (rule Cons.IH [OF climb]) (use Cons.prems p' in \<open>simp_all add: hash_length\<close>)
  have same: "h = h' \<and> s = t" if "?inp h s = ?inp h' t"
    using that pre_inject [of h h' s t] pre_inject [of s t h h'] Cons.prems p'
    by (auto split: if_splits)
  from IH same show ?case
    unfolding p' by (auto simp: Let_def split: if_splits)
qed simp

text \<open>Nobody opens a position of a tree to another hash without producing a collision.\<close>

lemma path_binding:
  assumes i: "i < length xs" and len: "\<forall>x \<in> set xs. length x = 32" and "length h = 32"
    and "\<forall>s \<in> set p. length s = 32" "length p = length (merkle_path (\<lambda>a b. hash (pre a b)) xs i)"
    and root: "climb (\<lambda>a b. hash (pre a b)) h p i = merkle_root (\<lambda>a b. hash (pre a b)) xs"
    and path: "\<forall>s \<in> set (merkle_path (\<lambda>a b. hash (pre a b)) xs i). length s = 32"
  shows "h = xs ! i \<or>
    collision hash (climb_inputs hash pre h p i)
      (climb_inputs hash pre (xs ! i) (merkle_path (\<lambda>a b. hash (pre a b)) xs i) i)"
proof -
  have "climb (\<lambda>a b. hash (pre a b)) h p i =
      climb (\<lambda>a b. hash (pre a b)) (xs ! i) (merkle_path (\<lambda>a b. hash (pre a b)) xs i) i"
    using root i by (simp add: climb_merkle_path)
  from climb_binding [OF this] assms show ?thesis by auto
qed

text \<open>Every level of a tree over 32-byte hashes holds 32-byte hashes, hence so does a path.\<close>

lemma level_up_lengths:
  "\<forall>x \<in> set (level_up (\<lambda>a b. hash (pre a b)) xs). length x = 32"
proof -
  have "\<forall>x \<in> set (pair_up (\<lambda>a b. hash (pre a b)) ys). length x = 32" for ys
    by (induction "\<lambda>a b. hash (pre a b)" ys rule: pair_up.induct) (simp_all add: hash_length)
  then show ?thesis by (simp add: level_up_def)
qed

lemma merkle_path_lengths:
  "\<forall>x \<in> set xs. length x = 32 \<Longrightarrow> i < length xs \<Longrightarrow>
   \<forall>s \<in> set (merkle_path (\<lambda>a b. hash (pre a b)) xs i). length s = 32"
proof (induction "length xs" arbitrary: xs i rule: less_induct)
  case less
  show ?case
  proof (cases "length xs \<le> 1")
    case True
    then show ?thesis by (simp add: merkle_path.simps [of _ xs])
  next
    case False
    let ?up = "level_up (\<lambda>a b. hash (pre a b)) xs"
    have path: "\<forall>s \<in> set (merkle_path (\<lambda>a b. hash (pre a b)) ?up (i div 2)). length s = 32"
      by (rule less.hyps)
        (use False less.prems in \<open>auto simp: length_level_up level_up_lengths\<close>)
    have "dup_last xs ! sibling i \<in> set (dup_last xs)"
      using sibling_bound [OF less.prems(2)] by simp
    moreover have "set (dup_last xs) \<subseteq> set xs"
      using less.prems(2) by (cases xs rule: rev_cases) (auto simp: dup_last_def)
    ultimately have "length (dup_last xs ! sibling i) = 32"
      using less.prems(1) by blast
    with path False show ?thesis
      by (simp add: merkle_path.simps [of _ xs])
  qed
qed

end

end
