(* ===== verification/Merkle.thy ===== *)
theory Merkle
  imports Merkle_Core
begin

text \<open>
  The Merkle tree of \<^verbatim>\<open>engine/internal/prover/merkle.go\<close> and the hashing helpers of
  \<^verbatim>\<open>engine/internal/hasher/hasher.go\<close>: \<open>BuildTree\<close>, \<open>Root\<close>, \<open>GetPath\<close> and
  \<open>VerifyPath\<close> with their level loops, and the proofs that a path taken from a tree
  verifies against its root and that a verified path binds the leaf up to a SHA-256
  collision.
\<close>

section \<open>Hashing helpers\<close>

definition Hash :: "bytes \<Rightarrow> bytes" where
  "Hash data = sha256 data"

definition HexHash :: "bytes \<Rightarrow> gostring" where
  "HexHash data = hex_encode (sha256 data)"

definition CommitHash :: "bytes \<Rightarrow> bytes \<Rightarrow> bytes \<Rightarrow> gostring" where
  "CommitHash input output model = HexHash (([] @ input) @ output @ model)"

definition VerifyCommit :: "gostring \<Rightarrow> bytes \<Rightarrow> bytes \<Rightarrow> bytes \<Rightarrow> bool" where
  "VerifyCommit commit input output model \<longleftrightarrow> CommitHash input output model = commit"

section \<open>The tree\<close>

datatype MerkleNode =
  MerkleNode (NodeHash: bytes) (Left: "MerkleNode option") (Right: "MerkleNode option")

definition leaf_node :: "bytes \<Rightarrow> MerkleNode" where
  "leaf_node lf = MerkleNode (sha256 lf) None None"

definition parent_node :: "MerkleNode \<Rightarrow> MerkleNode \<Rightarrow> MerkleNode" where
  "parent_node l r = MerkleNode (sha256 (NodeHash l @ NodeHash r)) (Some l) (Some r)"

text \<open>
  The loop \<^verbatim>\<open>for len(nodes) > 1\<close>. Its node lists have length 1 or an
  even length, so the access to \<^verbatim>\<open>nodes[i+1]\<close> stays in range.
\<close>

function build_loop :: "MerkleNode list \<Rightarrow> MerkleNode" where
  "build_loop nodes =
     (if length nodes > 1 then
        (let nxt = pair_up parent_node nodes
         in build_loop (if length nxt > 1 \<and> odd (length nxt) then nxt @ [last nxt] else nxt))
      else nodes ! 0)"
  by pat_completeness auto
termination
  by (relation "measure length") auto

declare build_loop.simps [simp del]

definition BuildTree :: "bytes list \<Rightarrow> MerkleNode option" where
  "BuildTree leaves =
     (if length leaves = 0 then None
      else let nodes = map leaf_node leaves
        in Some (build_loop (if odd (length nodes) then nodes @ [last nodes] else nodes)))"

definition Root :: "bytes list \<Rightarrow> gostring" where
  "Root leaves = (case BuildTree leaves of None \<Rightarrow> nil_string | Some t \<Rightarrow> hex_encode (NodeHash t))"

section \<open>Paths\<close>

definition node_hash :: "bytes \<Rightarrow> bytes \<Rightarrow> bytes" where
  "node_hash a b = sha256 (a @ b)"

text \<open>The inner loop of \<open>GetPath\<close>: an unpaired last hash is carried over.\<close>

fun next_hashes :: "bytes list \<Rightarrow> bytes list" where
  "next_hashes (a # b # hs) = node_hash a b # next_hashes hs"
| "next_hashes [a] = [a]"
| "next_hashes [] = []"

lemma length_next_hashes [simp]: "length (next_hashes hs) = (length hs + 1) div 2"
  by (induction hs rule: next_hashes.induct) simp_all

function path_loop :: "bytes list \<Rightarrow> int \<Rightarrow> gostring list \<Rightarrow> gostring list" where
  "path_loop hashes pos path =
     (if length hashes > 1 then
        (let sib = (if pos smod 2 = 0 then pos + 1 else pos - 1);
             path' = (if sib \<ge> 0 \<and> sib < int (length hashes)
                      then path @ [hex_encode (hashes ! nat sib)] else path);
             nxt = next_hashes hashes;
             nxt' = (if length nxt > 1 \<and> odd (length nxt) then nxt @ [last nxt] else nxt)
         in path_loop nxt' (pos sdiv 2) path')
      else path)"
  by pat_completeness auto
termination
proof (relation "measure (\<lambda>(hashes, pos, path). length hashes)")
  have halve: "Suc 0 < Suc n div 2 \<Longrightarrow> odd (Suc n div 2) \<Longrightarrow> Suc (Suc n div 2) < n" for n :: nat
    by presburger
  fix hashes :: "bytes list" and pos :: int and path :: "gostring list"
  fix x xa xb xc
  assume "1 < length hashes" and "xb = next_hashes hashes"
    and "xc = (if 1 < length xb \<and> odd (length xb) then xb @ [last xb] else xb)"
  then show "((xc, pos sdiv 2, xa), hashes, pos, path) \<in> measure (\<lambda>(hashes, pos, path). length hashes)"
    using halve by auto
qed simp

declare path_loop.simps [simp del]

definition GetPath :: "bytes list \<Rightarrow> int \<Rightarrow> gostring list" where
  "GetPath leaves idx =
     (if idx < 0 \<or> idx \<ge> int (length leaves) then []
      else let padded = (if odd (length leaves) then leaves @ [last leaves] else leaves)
        in path_loop (map sha256 padded) idx [])"

text \<open>The loop of \<open>VerifyPath\<close>; \<open>None\<close> is the early \<^verbatim>\<open>return false\<close>.\<close>

fun verify_loop :: "bytes \<Rightarrow> gostring list \<Rightarrow> int \<Rightarrow> bytes option" where
  "verify_loop h [] pos = Some h"
| "verify_loop h (sib # path) pos =
     (case hex_decode sib of
        None \<Rightarrow> None
      | Some sibBytes \<Rightarrow>
          if length sibBytes \<noteq> 32 then None
          else let combined = (if pos smod 2 = 0 then h @ sibBytes else sibBytes @ h)
            in verify_loop (sha256 combined) path (pos sdiv 2))"

definition VerifyPath :: "bytes \<Rightarrow> gostring list \<Rightarrow> gostring \<Rightarrow> int \<Rightarrow> bool" where
  "VerifyPath leaf path rootHex idx =
     (case verify_loop (sha256 leaf) path idx of
        None \<Rightarrow> False
      | Some h \<Rightarrow> hex_encode h = rootHex)"

section \<open>The loops compute the reference tree\<close>

interpretation plain: merkle_scheme sha256 "(@)"
  by unfold_locales simp_all

lemma node_hash_eq: "node_hash = (\<lambda>a b. sha256 (a @ b))"
  by (simp add: fun_eq_iff node_hash_def)

lemma NodeHash_pair_up:
  "map NodeHash (pair_up parent_node nodes) = pair_up node_hash (map NodeHash nodes)"
  by (simp add: map_pair_up pair_up_map parent_node_def node_hash_def)

lemma next_hashes_even: "even (length hs) \<Longrightarrow> next_hashes hs = pair_up node_hash hs"
  by (induction hs rule: next_hashes.induct) simp_all

text \<open>A level loop is entered with the padded list and leaves with the root of the level above.\<close>

lemma build_loop_dup_last:
  "nodes \<noteq> [] \<Longrightarrow> NodeHash (build_loop (dup_last nodes)) =
     merkle_root node_hash (level_up node_hash (map NodeHash nodes))"
proof (induction "length nodes" arbitrary: nodes rule: less_induct)
  case less
  let ?nxt = "pair_up parent_node (dup_last nodes)"
  have len: "length ?nxt = (length nodes + 1) div 2"
    by (simp add: length_dup_last)
  have up: "map NodeHash ?nxt = level_up node_hash (map NodeHash nodes)"
    by (simp add: NodeHash_pair_up level_up_def map_dup_last)
  have two: "length (dup_last nodes) > 1"
    using less.prems by (cases nodes) (auto simp: length_dup_last)
  show ?case
  proof (cases "length ?nxt > 1")
    case True
    then have "build_loop (dup_last nodes) = build_loop (dup_last ?nxt)"
      using two by (simp add: build_loop.simps [of "dup_last nodes"] dup_last_def [of ?nxt] Let_def)
    moreover from True have "?nxt \<noteq> []" by fastforce
    with True len have "NodeHash (build_loop (dup_last ?nxt)) =
        merkle_root node_hash (level_up node_hash (map NodeHash ?nxt))"
      by (intro less.hyps) simp_all
    moreover have "merkle_root node_hash (map NodeHash ?nxt) =
        merkle_root node_hash (level_up node_hash (map NodeHash ?nxt))"
      using True by (subst merkle_root.simps) simp
    ultimately show ?thesis by (simp only: up)
  next
    case False
    with len less.prems have one: "length ?nxt = 1" by (cases nodes) auto
    then have "build_loop (dup_last nodes) = ?nxt ! 0"
      using two by (simp add: build_loop.simps [of "dup_last nodes"] build_loop.simps [of ?nxt])
    moreover have "merkle_root node_hash (map NodeHash ?nxt) = NodeHash (?nxt ! 0)"
      using one by (subst merkle_root.simps) (cases ?nxt; simp)
    ultimately show ?thesis by (simp only: up)
  qed
qed

lemma Root_reference:
  "leaves \<noteq> [] \<Longrightarrow> Root leaves =
     hex_encode (merkle_root node_hash (level_up node_hash (map sha256 leaves)))"
  using build_loop_dup_last [of "map leaf_node leaves"]
  by (simp add: Root_def BuildTree_def dup_last_def [symmetric] leaf_node_def comp_def Let_def
      flip: dup_last_def)


lemma Go_parity [simp]: "int i smod 2 = 0 \<longleftrightarrow> even i" and Go_half [simp]: "int i sdiv 2 = int (i div 2)"
  by (auto simp: signed_modulo_int_def signed_divide_int_def zdiv_int sgn_if)

text \<open>The path of a position: the sibling among the padded leaves, then the reference path above.\<close>

definition full_path :: "bytes list \<Rightarrow> nat \<Rightarrow> bytes list" where
  "full_path hs i = dup_last hs ! sibling i # merkle_path node_hash (level_up node_hash hs) (i div 2)"

lemma path_loop_dup_last:
  "i < length hs \<Longrightarrow> path_loop (dup_last hs) (int i) path = path @ map hex_encode (full_path hs i)"
proof (induction "length hs" arbitrary: hs i path rule: less_induct)
  case less
  let ?nxt = "level_up node_hash hs" and ?path = "path @ [hex_encode (dup_last hs ! sibling i)]"
  have two: "length (dup_last hs) > 1"
    using less.prems by (cases hs) (auto simp: length_dup_last)
  have sib: "(if even i then int i + 1 else int i - 1) = int (sibling i)"
    by (auto simp: sibling_def of_nat_diff elim: oddE)
  have nxt: "next_hashes (dup_last hs) = ?nxt"
    by (simp add: level_up_def next_hashes_even)
  have step: "path_loop (dup_last hs) (int i) path =
      path_loop (if length ?nxt > 1 then dup_last ?nxt else ?nxt) (int (i div 2)) ?path"
    using two sib sibling_bound [OF less.prems]
    by (subst path_loop.simps) (simp add: nxt Let_def dup_last_def [of ?nxt])
  show ?case
  proof (cases "length ?nxt > 1")
    case True
    have "path_loop (dup_last ?nxt) (int (i div 2)) ?path = ?path @ map hex_encode (full_path ?nxt (i div 2))"
      by (rule less.hyps) (use True less.prems in \<open>auto simp: length_level_up\<close>)
    with True step show ?thesis
      by (simp add: full_path_def merkle_path.simps [of node_hash ?nxt])
  next
    case False
    with step show ?thesis
      by (simp add: full_path_def merkle_path.simps [of node_hash ?nxt] path_loop.simps [of ?nxt])
  qed
qed

lemma GetPath_reference:
  "i < length leaves \<Longrightarrow> GetPath leaves (int i) = map hex_encode (full_path (map sha256 leaves) i)"
  using path_loop_dup_last [of i "map sha256 leaves" "[]"]
  by (simp add: GetPath_def dup_last_def [symmetric] map_dup_last)

lemma full_path_lengths:
  "i < length leaves \<Longrightarrow> \<forall>s \<in> set (full_path (map sha256 leaves) i). length s = 32"
proof -
  assume i: "i < length leaves"
  let ?hs = "map sha256 leaves"
  have "dup_last ?hs ! sibling i \<in> set (dup_last ?hs)"
    using sibling_bound [of i ?hs] i by simp
  then have "length (dup_last ?hs ! sibling i) = 32"
    by (auto simp: map_dup_last [symmetric])
  moreover have "\<forall>s \<in> set (merkle_path node_hash (level_up node_hash ?hs) (i div 2)). length s = 32"
    unfolding node_hash_eq
    by (rule plain.merkle_path_lengths) (use i in \<open>auto simp: length_level_up plain.level_up_lengths\<close>)
  ultimately show ?thesis by (simp add: full_path_def)
qed

lemma climb_full_path:
  "i < length hs \<Longrightarrow>
   climb node_hash (hs ! i) (full_path hs i) i = merkle_root node_hash (level_up node_hash hs)"
  using climb_merkle_path [of "i div 2" "level_up node_hash hs" node_hash]
  by (simp add: full_path_def nth_level_up length_level_up less_mult_imp_div_less)

section \<open>Verification is the climb\<close>

lemma verify_loop_climb:
  "\<forall>s \<in> set p. length s = 32 \<Longrightarrow>
   verify_loop h (map hex_encode p) (int i) = Some (climb node_hash h p i)"
  by (induction p arbitrary: h i) (simp_all add: node_hash_def Let_def)

lemma verify_loop_SomeD:
  "verify_loop h path (int i) = Some r \<Longrightarrow>
   \<exists>p. map hex_decode path = map Some p \<and> (\<forall>s \<in> set p. length s = 32) \<and> r = climb node_hash h p i"
proof (induction path arbitrary: h i)
  case Nil
  then show ?case by (intro exI [of _ "[]"]) simp
next
  case (Cons sib path)
  from Cons.prems obtain s where s: "hex_decode sib = Some s" "length s = 32"
    and rest: "verify_loop (sha256 (if even i then h @ s else s @ h)) path (int (i div 2)) = Some r"
    by (auto simp: Let_def split: option.splits if_splits)
  from Cons.IH [OF rest] obtain p where "map hex_decode path = map Some p"
    "\<forall>s \<in> set p. length s = 32"
    "r = climb node_hash (sha256 (if even i then h @ s else s @ h)) p (i div 2)" by blast
  with s show ?case
    by (intro exI [of _ "s # p"]) (simp add: node_hash_eq)
qed

text \<open>The inputs \<open>VerifyPath\<close> hands to SHA-256: the leaf, then one pair of children per level.\<close>

fun verify_inputs :: "bytes \<Rightarrow> gostring list \<Rightarrow> int \<Rightarrow> bytes list" where
  "verify_inputs inp [] pos = [inp]"
| "verify_inputs inp (sib # path) pos =
     (let sibBytes = (case hex_decode sib of None \<Rightarrow> [] | Some b \<Rightarrow> b); h = sha256 inp
      in inp # verify_inputs (if pos smod 2 = 0 then h @ sibBytes else sibBytes @ h) path (pos sdiv 2))"

lemma verify_inputs_eq:
  "map hex_decode path = map Some p \<Longrightarrow>
   verify_inputs inp path (int i) = inp # climb_inputs sha256 (@) (sha256 inp) p i"
proof (induction path arbitrary: inp i p)
  case (Cons sib path)
  then obtain s p' where "p = s # p'" "hex_decode sib = Some s" "map hex_decode path = map Some p'"
    by (cases p) auto
  with Cons.IH show ?case by (simp add: Let_def)
qed simp

section \<open>Completeness and binding of paths\<close>

lemma GetPath_accepted:
  assumes "0 \<le> idx" "idx < int (length leaves)"
  shows "VerifyPath (leaves ! nat idx) (GetPath leaves idx) (Root leaves) idx"
proof -
  obtain i where idx: "idx = int i" "i < length leaves"
    using assms by (metis nonneg_int_cases of_nat_less_iff)
  then have "leaves \<noteq> []" by auto
  with idx climb_full_path [of i "map sha256 leaves"] show ?thesis
    by (simp add: VerifyPath_def GetPath_reference Root_reference full_path_lengths verify_loop_climb)
qed

text \<open>
  C2: every path \<open>GetPath\<close> returns for a position of the leaf list is accepted by
  \<open>VerifyPath\<close> for the leaf at that position against the root \<open>Root\<close> returns.
\<close>

theorem GetPath_VerifyPath:
  assumes "0 \<le> idx" "idx < int (length leaves)"
  shows "VerifyPath (leaves ! nat idx) (GetPath leaves idx) (Root leaves) idx"
  using assms by (rule GetPath_accepted)

theorem GetPath_VerifyPath_witness:
  "VerifyPath ''output'' (GetPath [''input'', ''output'', ''model''] 1)
     (Root [''input'', ''output'', ''model'']) 1"
  using GetPath_VerifyPath [of 1 "[''input'', ''output'', ''model'']"] by simp

text \<open>
  C3: a verified path binds the leaf. If \<open>VerifyPath\<close> accepts some leaf and some path of
  the tree's height at a position against the root of a leaf list, then the leaf is the one
  the list has there, or two different inputs among those hashed by this verification and
  by the verification of the genuine path have the same SHA-256 hash.
\<close>

theorem VerifyPath_binding:
  assumes "0 \<le> idx" "idx < int (length leaves)"
    and "VerifyPath leaf path (Root leaves) idx"
    and "length path = length (GetPath leaves idx)"
  shows "leaf = leaves ! nat idx \<or>
    collision sha256 (verify_inputs leaf path idx)
      (verify_inputs (leaves ! nat idx) (GetPath leaves idx) idx)"
proof -
  obtain i where idx: "idx = int i" and i: "i < length leaves"
    using assms by (metis nonneg_int_cases of_nat_less_iff)
  let ?hs = "map sha256 leaves"
  from i have root: "Root leaves = hex_encode (climb node_hash (?hs ! i) (full_path ?hs i) i)"
    using climb_full_path [of i ?hs] by (subst Root_reference) auto
  obtain p where p: "map hex_decode path = map Some p" "\<forall>s \<in> set p. length s = 32"
    and eq: "climb node_hash (sha256 leaf) p i = climb node_hash (?hs ! i) (full_path ?hs i) i"
    using assms(3) unfolding VerifyPath_def idx root
    by (auto dest!: verify_loop_SomeD split: option.splits)
  have "length p = length path" using p(1) by (metis length_map)
  then have "length p = length (full_path ?hs i)"
    using assms(4) i by (simp add: idx GetPath_reference)
  with plain.climb_binding [of "sha256 leaf" p i "?hs ! i" "full_path ?hs i"] eq i p(2) have
    "sha256 leaf = sha256 (leaves ! i) \<or>
     collision sha256 (climb_inputs sha256 (@) (sha256 leaf) p i)
       (climb_inputs sha256 (@) (?hs ! i) (full_path ?hs i) i)"
    by (auto simp: node_hash_eq full_path_lengths)
  moreover have "verify_inputs (leaves ! i) (GetPath leaves idx) idx =
      leaves ! i # climb_inputs sha256 (@) (?hs ! i) (full_path ?hs i) i"
    using i by (simp add: idx GetPath_reference verify_inputs_eq comp_def)
  ultimately show ?thesis
    using p(1) by (auto simp: idx verify_inputs_eq)
qed

theorem VerifyPath_binding_witness:
  "''input'' = ''input'' \<or>
    collision sha256 (verify_inputs ''input'' (GetPath [''input'', ''output''] 0) 0)
      (verify_inputs ''input'' (GetPath [''input'', ''output''] 0) 0)"
  using VerifyPath_binding [of 0 "[''input'', ''output'']" "''input''" "GetPath [''input'', ''output''] 0"]
    GetPath_accepted [of 0 "[''input'', ''output'']"] by simp

end
