(* ===== verification/Incremental.thy ===== *)
theory Incremental
  imports Merkle
begin

text \<open>
  The append-only accumulator of \<^verbatim>\<open>engine/internal/prover/incremental.go\<close>. The state is
  the record \<open>IncrementalMerkle\<close> with the two parallel slices of the source. The
  abstraction \<open>represents\<close> says which sequence of leaf hashes a frontier stands for; every
  operation refines the operation on that sequence, and the root of the accumulator is the
  root \<open>BuildTree\<close> computes for the leaves appended so far.
\<close>

section \<open>State and operations\<close>

record IncrementalMerkle =
  frontier :: "bytes list"
  occupied :: "bool list"
  acc_size :: nat

definition NewIncrementalMerkle :: IncrementalMerkle where
  "NewIncrementalMerkle = \<lparr>frontier = [], occupied = [], acc_size = 0\<rparr>"

definition Size :: "IncrementalMerkle \<Rightarrow> nat" where
  "Size m = acc_size m"

definition zero32 :: bytes where
  "zero32 = replicate 32 (char_of (0 :: nat))"

text \<open>The unbounded \<^verbatim>\<open>for\<close> of \<open>foldIn\<close>; the level grows up to the end of the frontier.\<close>

function fold_loop :: "IncrementalMerkle \<Rightarrow> nat \<Rightarrow> bytes \<Rightarrow> IncrementalMerkle" where
  "fold_loop m level cur =
     (if level \<ge> length (frontier m) then
        m\<lparr>frontier := frontier m @ [cur], occupied := occupied m @ [True]\<rparr>
      else if \<not> occupied m ! level then
        m\<lparr>frontier := (frontier m)[level := cur], occupied := (occupied m)[level := True]\<rparr>
      else
        let combined = frontier m ! level @ cur
        in fold_loop (m\<lparr>frontier := (frontier m)[level := zero32],
                        occupied := (occupied m)[level := False]\<rparr>)
             (level + 1) (sha256 combined))"
  by pat_completeness auto
termination
  by (relation "measure (\<lambda>(m, level, cur). length (frontier m) - level)") auto

declare fold_loop.simps [simp del]

definition foldIn :: "IncrementalMerkle \<Rightarrow> bytes \<Rightarrow> IncrementalMerkle" where
  "foldIn m h = fold_loop m 0 h"

definition Append :: "IncrementalMerkle \<Rightarrow> bytes \<Rightarrow> IncrementalMerkle \<times> bytes" where
  "Append m leaf =
     (let h = sha256 leaf; m' = foldIn m h
      in (m'\<lparr>acc_size := acc_size m' + 1\<rparr>, h))"

text \<open>\<^verbatim>\<open>ceilLog2\<close>, with the loop that halves \<open>v\<close>.\<close>

fun shift_loop :: "nat \<Rightarrow> nat \<Rightarrow> nat" where
  "shift_loop v l = (if v > 0 then shift_loop (v div 2) (l + 1) else l)"

declare shift_loop.simps [simp del]

definition ceilLog2 :: "nat \<Rightarrow> nat" where
  "ceilLog2 n = (if n \<le> 1 then 0 else shift_loop (n - 1) 0)"

text \<open>The carry of \<open>Root\<close>: the hash and its level; \<open>None\<close> while \<^verbatim>\<open>hasCarry\<close> is false.\<close>

type_synonym carry = "(bytes \<times> nat) option"

fun advance :: "nat \<Rightarrow> bytes \<Rightarrow> bytes" where
  "advance 0 c = c"
| "advance (Suc k) c = advance k (sha256 (c @ c))"

text \<open>\<^verbatim>\<open>for hasCarry && carryLvl < lvl\<close>: duplicate-padding up to a level.\<close>

definition advance_to :: "nat \<Rightarrow> carry \<Rightarrow> carry" where
  "advance_to lvl c =
     (case c of None \<Rightarrow> None
      | Some (h, l) \<Rightarrow> if l < lvl then Some (advance (lvl - l) h, lvl) else Some (h, l))"

text \<open>One level of the loop over the frontier.\<close>

definition root_step :: "nat \<Rightarrow> bool \<Rightarrow> bytes \<Rightarrow> carry \<Rightarrow> carry" where
  "root_step lvl occ h c =
     (let c' = advance_to lvl c
      in if \<not> occ then c'
         else case c' of
             Some (k, l) \<Rightarrow> Some (sha256 (h @ k), lvl + 1)
           | None \<Rightarrow> Some (h, lvl))"

fun root_loop :: "(bytes \<times> bool) list \<Rightarrow> nat \<Rightarrow> carry \<Rightarrow> carry" where
  "root_loop [] lvl c = c"
| "root_loop ((h, occ) # fr) lvl c = root_loop fr (lvl + 1) (root_step lvl occ h c)"

definition AccRoot :: "IncrementalMerkle \<Rightarrow> gostring" where
  "AccRoot m =
     (if acc_size m = 0 then nil_string
      else let t = ceilLog2 (acc_size m);
               targetLvl = (if t = 0 then 1 else t)
        in case advance_to targetLvl (root_loop (zip (frontier m) (occupied m)) 0 None) of
             None \<Rightarrow> nil_string
           | Some (h, l) \<Rightarrow> hex_encode h)"

record BatchReceipt =
  PrevRoot :: gostring
  NewRoot :: gostring
  StartIndex :: nat
  Leaves :: "gostring list"
  BatchSize :: int

datatype batch_error = EmptyBatch | RootFailed nat

text \<open>The loop over the leaves of a batch: the new state and the hexadecimal leaf hashes.\<close>

fun append_loop :: "IncrementalMerkle \<Rightarrow> bytes list \<Rightarrow> IncrementalMerkle \<times> gostring list" where
  "append_loop m [] = (m, [])"
| "append_loop m (lf # lfs) =
     (let (m1, hh) = Append m lf; (m2, hs) = append_loop m1 lfs
      in (m2, hex_encode hh # hs))"

text \<open>
  \<open>AppendBatch\<close> returns the state it leaves behind with its result: the error paths leave
  the accumulator as it was (the second one by restoring the snapshot).
\<close>

definition AppendBatch ::
  "IncrementalMerkle \<Rightarrow> bytes list \<Rightarrow> IncrementalMerkle \<times> (batch_error + BatchReceipt)" where
  "AppendBatch m leaves =
     (if length leaves = 0 then (m, Inl EmptyBatch)
      else let prevRoot = AccRoot m; startIdx = acc_size m;
               (m', leafHexes) = append_loop m leaves;
               newRoot = AccRoot m'
        in if newRoot = nil_string then (m, Inl (RootFailed (length leaves)))
           else (m', Inr \<lparr>PrevRoot = prevRoot, NewRoot = newRoot, StartIndex = startIdx,
                          Leaves = leafHexes, BatchSize = int (length leaves)\<rparr>))"

datatype transition_error =
    NilReceipt
  | BatchSizeMismatch int nat
  | PrevRootMismatch gostring gostring
  | InvalidLeafHash gostring

definition Clone :: "IncrementalMerkle \<Rightarrow> IncrementalMerkle" where
  "Clone m = \<lparr>frontier = frontier m, occupied = occupied m, acc_size = acc_size m\<rparr>"

text \<open>The replay of the receipt's leaf hashes on the clone.\<close>

fun replay_loop :: "IncrementalMerkle \<Rightarrow> gostring list \<Rightarrow> transition_error + IncrementalMerkle" where
  "replay_loop m [] = Inr m"
| "replay_loop m (lfHex # lfs) =
     (case hex_decode lfHex of
        None \<Rightarrow> Inl (InvalidLeafHash lfHex)
      | Some raw \<Rightarrow>
          if length raw \<noteq> 32 then Inl (InvalidLeafHash lfHex)
          else let m' = foldIn m raw
            in replay_loop (m'\<lparr>acc_size := acc_size m' + 1\<rparr>) lfs)"

definition VerifyReceiptTransition ::
  "IncrementalMerkle \<Rightarrow> BatchReceipt option \<Rightarrow> transition_error + bool" where
  "VerifyReceiptTransition prevAccum rc =
     (case rc of
        None \<Rightarrow> Inl NilReceipt
      | Some rc \<Rightarrow>
          if BatchSize rc \<noteq> int (length (Leaves rc))
          then Inl (BatchSizeMismatch (BatchSize rc) (length (Leaves rc)))
          else if AccRoot prevAccum \<noteq> PrevRoot rc
          then Inl (PrevRootMismatch (AccRoot prevAccum) (PrevRoot rc))
          else case replay_loop (Clone prevAccum) (Leaves rc) of
              Inl e \<Rightarrow> Inl e
            | Inr clone \<Rightarrow> Inr (AccRoot clone = NewRoot rc))"

section \<open>What a frontier represents\<close>

text \<open>
  At level 0 a frontier of a sequence of hashes holds its last element when the length is
  odd; the rest of the frontier stands for the sequence of the pairs.
\<close>

fun represents :: "(bytes \<times> bool) list \<Rightarrow> bytes list \<Rightarrow> bool" where
  "represents [] xs \<longleftrightarrow> xs = []"
| "represents ((h, occ) # fr) xs \<longleftrightarrow>
     xs \<noteq> [] \<and> (occ \<longleftrightarrow> odd (length xs)) \<and> (occ \<longrightarrow> h = last xs) \<and> represents fr (pair_up node_hash xs)"

definition acc_inv :: "IncrementalMerkle \<Rightarrow> bytes list \<Rightarrow> bool" where
  "acc_inv m hs \<longleftrightarrow> length (frontier m) = length (occupied m) \<and>
     represents (zip (frontier m) (occupied m)) hs \<and> acc_size m = length hs"

text \<open>\<open>foldIn\<close> as a recursion over the pairs of the two slices.\<close>

fun fold_pairs :: "(bytes \<times> bool) list \<Rightarrow> bytes \<Rightarrow> (bytes \<times> bool) list" where
  "fold_pairs [] cur = [(cur, True)]"
| "fold_pairs ((h, occ) # fr) cur =
     (if occ then (zero32, False) # fold_pairs fr (node_hash h cur) else (cur, True) # fr)"

lemma fold_loop_pairs:
  assumes "length (frontier m) = length (occupied m)" "level \<le> length (frontier m)"
  shows "zip (frontier (fold_loop m level cur)) (occupied (fold_loop m level cur)) =
      take level (zip (frontier m) (occupied m)) @ fold_pairs (drop level (zip (frontier m) (occupied m))) cur
    \<and> length (frontier (fold_loop m level cur)) = length (occupied (fold_loop m level cur))
    \<and> acc_size (fold_loop m level cur) = acc_size m"
  using assms
proof (induction m level cur rule: fold_loop.induct)
  case (1 m level cur)
  let ?z = "zip (frontier m) (occupied m)"
  consider (grow) "level = length (frontier m)"
    | (place) "level < length (frontier m)" "\<not> occupied m ! level"
    | (combine) "level < length (frontier m)" "occupied m ! level"
    using "1.prems"(2) by linarith
  then show ?case
  proof cases
    case grow
    with "1.prems"(1) show ?thesis by (simp add: fold_loop.simps [of m])
  next
    case place
    have "drop level ?z = (frontier m ! level, False) # drop (Suc level) ?z"
      using place "1.prems"(1) by (simp add: Cons_nth_drop_Suc [symmetric])
    with place "1.prems"(1) show ?thesis
      by (simp add: fold_loop.simps [of m] zip_update [symmetric] upd_conv_take_nth_drop
          take_zip drop_zip)
  next
    case combine
    let ?m = "m\<lparr>frontier := (frontier m)[level := zero32], occupied := (occupied m)[level := False]\<rparr>"
    have step: "fold_loop m level cur = fold_loop ?m (level + 1) (node_hash (frontier m ! level) cur)"
      using combine by (simp add: fold_loop.simps [of m] node_hash_def Let_def)
    have z: "drop level ?z = (frontier m ! level, True) # drop (Suc level) ?z"
      using combine "1.prems"(1) by (simp add: Cons_nth_drop_Suc [symmetric])
    have z': "zip (frontier ?m) (occupied ?m) = ?z[level := (zero32, False)]"
      by (simp add: zip_update)
    have split: "take (level + 1) (?z[level := (zero32, False)]) = take level ?z @ [(zero32, False)]"
      "drop (level + 1) (?z[level := (zero32, False)]) = drop (Suc level) ?z"
      using combine "1.prems"(1) by (simp_all add: take_Suc_conv_app_nth)
    show ?thesis
      using "1.IH" [OF _ _ refl] combine "1.prems"(1) z z' split unfolding step
      by (simp add: node_hash_def)
  qed
qed

lemma pair_up_snoc:
  "pair_up f (xs @ [x]) = (if odd (length xs) then pair_up f xs @ [f (last xs) x] else pair_up f xs)"
proof (induction f xs rule: pair_up.induct)
  case (1 f a b xs)
  then show ?case by (cases xs) simp_all
qed simp_all

lemma represents_fold_pairs:
  "represents fr xs \<Longrightarrow> represents (fold_pairs fr h) (xs @ [h])"
proof (induction fr h arbitrary: xs rule: fold_pairs.induct)
  case (2 a occ fr cur)
  then show ?case by (cases occ) (simp_all add: pair_up_snoc)
qed simp

lemma acc_inv_foldIn:
  assumes "acc_inv m hs"
  shows "acc_inv ((foldIn m h)\<lparr>acc_size := acc_size (foldIn m h) + 1\<rparr>) (hs @ [h])"
  using assms fold_loop_pairs [of m 0 h]
  by (simp add: acc_inv_def foldIn_def represents_fold_pairs)

lemma acc_inv_New [inv_intros]: "acc_inv NewIncrementalMerkle []"
  by (simp add: acc_inv_def NewIncrementalMerkle_def)

lemma acc_inv_Append [inv_intros]:
  "acc_inv m hs \<Longrightarrow> acc_inv (fst (Append m lf)) (hs @ [sha256 lf])"
  using acc_inv_foldIn [of m hs "sha256 lf"] by (simp add: Append_def Let_def)

lemma acc_inv_append_loop:
  "acc_inv m hs \<Longrightarrow> acc_inv (fst (append_loop m lfs)) (hs @ map sha256 lfs)"
proof (induction lfs arbitrary: m hs)
  case (Cons lf lfs)
  from Cons.IH [OF acc_inv_Append [OF Cons.prems, of lf]] show ?case
    by (simp add: case_prod_beta)
qed simp

section \<open>The root of an accumulator\<close>

lemma advance_add: "advance (m + n) c = advance n (advance m c)"
  by (induction m arbitrary: c) simp_all

lemma level_up_funpow_single: "(level_up node_hash ^^ k) [c] = [advance k c]"
  by (induction k arbitrary: c)
    (simp_all add: funpow_swap1 level_up_def dup_last_def node_hash_def del: funpow.simps(2)
      add: funpow_Suc_right)

text \<open>The sequence at a level: what the frontier stands for and the carry behind it.\<close>

definition carry_list :: "nat \<Rightarrow> carry \<Rightarrow> bytes list" where
  "carry_list lvl c = (case c of None \<Rightarrow> [] | Some (h, l) \<Rightarrow> [advance (lvl - l) h])"

definition carry_le :: "nat \<Rightarrow> carry \<Rightarrow> bool" where
  "carry_le lvl c \<longleftrightarrow> (case c of None \<Rightarrow> True | Some (h, l) \<Rightarrow> l \<le> lvl)"

lemma advance_to_le:
  "carry_le lvl c \<Longrightarrow> advance_to lvl c = map_option (\<lambda>h. (h, lvl)) (case carry_list lvl c of [] \<Rightarrow> None | h # _ \<Rightarrow> Some h)"
  by (auto simp: carry_le_def carry_list_def advance_to_def split: option.splits)

text \<open>One step of the loop over the frontier is one level of the reference tree.\<close>

lemma root_step_level_up:
  assumes "carry_le lvl c" "occ \<longleftrightarrow> odd (length xs)" "occ \<longrightarrow> h = last xs"
  shows "level_up node_hash (xs @ carry_list lvl c) =
      pair_up node_hash xs @ carry_list (lvl + 1) (root_step lvl occ h c)"
    and "carry_le (lvl + 1) (root_step lvl occ h c)"
proof -
  have "carry_list lvl c = [] \<or> (\<exists>k. carry_list lvl c = [k])"
    by (auto simp: carry_list_def split: option.splits)
  then have "level_up node_hash (xs @ carry_list lvl c) =
        pair_up node_hash xs @ carry_list (lvl + 1) (root_step lvl occ h c) \<and>
      carry_le (lvl + 1) (root_step lvl occ h c)"
  proof (elim disjE exE)
    assume "carry_list lvl c = []"
    with assms show ?thesis
      by (auto simp: root_step_def advance_to_le [OF assms(1)] level_up_def dup_last_def
          pair_up_snoc carry_list_def carry_le_def node_hash_def split: option.splits)
  next
    fix k assume k: "carry_list lvl c = [k]"
    have "pair_up node_hash (xs @ [k, k]) = pair_up node_hash xs @ [sha256 (k @ k)]"
      if "even (length xs)"
      using pair_up_snoc [of node_hash "xs @ [k]" k] that by (simp add: pair_up_snoc node_hash_def)
    with assms k show ?thesis
      unfolding root_step_def advance_to_le [OF assms(1)]
      by (auto simp: level_up_def dup_last_def pair_up_snoc carry_list_def [of "Suc lvl"]
          carry_le_def node_hash_def)
  qed
  then show "level_up node_hash (xs @ carry_list lvl c) =
      pair_up node_hash xs @ carry_list (lvl + 1) (root_step lvl occ h c)"
    and "carry_le (lvl + 1) (root_step lvl occ h c)" by blast+
qed

lemma root_loop_reference:
  assumes "represents fr xs" "carry_le lvl c" "xs @ carry_list lvl c \<noteq> []"
    and "lvl + clog (length (xs @ carry_list lvl c)) \<le> T"
  shows "\<exists>h. advance_to T (root_loop fr lvl c) = Some (h, T) \<and>
    (level_up node_hash ^^ (T - lvl)) (xs @ carry_list lvl c) = [h]"
  using assms
proof (induction fr arbitrary: xs lvl c)
  case Nil
  then obtain k l where c: "c = Some (k, l)" and le: "l \<le> lvl" "lvl \<le> T"
    by (auto simp: carry_list_def carry_le_def split: option.splits)
  then have "advance (T - l) k = advance (T - lvl) (advance (lvl - l) k)"
    by (simp add: advance_add [symmetric])
  with Nil c le show ?case
    by (auto simp: advance_to_def carry_list_def level_up_funpow_single)
next
  case (Cons p fr)
  obtain h occ where p: "p = (h, occ)" by (cases p)
  let ?zs = "xs @ carry_list lvl c" and ?c = "root_step lvl occ h c"
  from Cons.prems(1) p have xs: "xs \<noteq> []" "occ \<longleftrightarrow> odd (length xs)" "occ \<longrightarrow> h = last xs"
    and rep: "represents fr (pair_up node_hash xs)" by auto
  note step = root_step_level_up [OF Cons.prems(2) xs(2,3)]
  show ?case
  proof (cases "length ?zs \<le> 1")
    case True
    with xs obtain x where x: "xs = [x]" "carry_list lvl c = []" by (cases xs) auto
    with rep have "fr = []" by (cases fr) auto
    moreover from x xs Cons.prems(2) have "?c = Some (x, lvl)"
      by (simp add: root_step_def advance_to_le)
    ultimately show ?thesis
      using x p Cons.prems(4) by (auto simp: advance_to_def level_up_funpow_single)
  next
    case False
    then have T: "lvl + 1 + clog (length (level_up node_hash ?zs)) \<le> T"
      using Cons.prems(4) by (simp add: clog_step length_level_up)
    from False xs(1) have "level_up node_hash ?zs \<noteq> []" by simp
    with Cons.IH [OF rep step(2)] T obtain h' where
      "advance_to T (root_loop fr (lvl + 1) ?c) = Some (h', T)"
      "(level_up node_hash ^^ (T - (lvl + 1))) (level_up node_hash ?zs) = [h']"
      unfolding step(1) [symmetric] by auto
    moreover have "T - lvl = Suc (T - (lvl + 1))" using T by simp
    ultimately show ?thesis
      by (simp add: p funpow_Suc_right del: funpow.simps(2))
  qed
qed

lemma shift_loop_le_iff: "shift_loop v l \<le> l + k \<longleftrightarrow> v < 2 ^ k"
proof (induction k arbitrary: v l)
  case 0
  have "l \<le> shift_loop v l" for v l
    by (induction v l rule: shift_loop.induct) (subst shift_loop.simps, fastforce)
  from this [of "l + 1" "v div 2"] show ?case
    by (auto simp: shift_loop.simps [of v])
next
  case (Suc k)
  from Suc [of "v div 2" "l + 1"] show ?case
    by (auto simp: shift_loop.simps [of v])
qed

lemma ceilLog2_clog: "ceilLog2 n = clog n"
proof -
  have "ceilLog2 n \<le> k \<longleftrightarrow> clog n \<le> k" for k
    using shift_loop_le_iff [of "n - 1" 0 k]
    by (auto simp: ceilLog2_def clog_le_iff intro: le_trans [OF _ one_le_power])
  then show ?thesis by (meson le_antisym order_refl)
qed

lemma level_up_funpow_root:
  "xs \<noteq> [] \<Longrightarrow> (level_up node_hash ^^ clog (length xs)) xs = [merkle_root node_hash xs]"
proof (induction node_hash xs rule: merkle_root.induct)
  case (1 xs)
  show ?case
  proof (cases "length xs \<le> 1")
    case True
    with "1.prems" obtain x where "xs = [x]" by (cases xs) auto
    then show ?thesis by (simp add: merkle_root.simps)
  next
    case False
    with "1" show ?thesis
      by (simp add: clog_step length_level_up merkle_root.simps [of node_hash xs]
          funpow_Suc_right del: funpow.simps(2))
  qed
qed

text \<open>The root of an accumulator is the reference root of the hashes it stands for.\<close>

lemma AccRoot_reference:
  assumes "acc_inv m hs" "hs \<noteq> []"
  shows "AccRoot m = hex_encode (merkle_root node_hash (level_up node_hash hs))"
proof -
  let ?t = "if ceilLog2 (length hs) = 0 then 1 else ceilLog2 (length hs)"
  have t: "?t = Suc (clog (length (level_up node_hash hs)))"
    using assms(2) by (cases "length hs \<le> 1")
      (auto simp: ceilLog2_clog clog_step length_level_up clog.simps [of "length hs"] numeral_2_eq_2
        le_Suc_eq)
  have "(level_up node_hash ^^ ?t) hs = [merkle_root node_hash (level_up node_hash hs)]"
    using assms(2) level_up_funpow_root [of "level_up node_hash hs"]
    by (simp add: t funpow_Suc_right del: funpow.simps(2))
  moreover have "clog (length hs) \<le> ?t" by (simp add: ceilLog2_clog)
  ultimately have "advance_to ?t (root_loop (zip (frontier m) (occupied m)) 0 None) =
      Some (merkle_root node_hash (level_up node_hash hs), ?t)"
    using assms root_loop_reference [of "zip (frontier m) (occupied m)" hs 0 None ?t]
    by (auto simp: acc_inv_def carry_le_def carry_list_def)
  with assms show ?thesis
    by (simp add: AccRoot_def acc_inv_def Let_def del: One_nat_def)
qed

section \<open>Accumulators reached by appending\<close>

definition accumulate :: "bytes list \<Rightarrow> IncrementalMerkle" where
  "accumulate leaves = fst (append_loop NewIncrementalMerkle leaves)"

lemma acc_inv_accumulate [inv_intros]: "acc_inv (accumulate leaves) (map sha256 leaves)"
  using acc_inv_append_loop [OF acc_inv_New] by (simp add: accumulate_def)

lemma AccRoot_accumulate: "AccRoot (accumulate leaves) = Root leaves"
proof (cases "leaves = []")
  case True
  then show ?thesis
    by (simp add: accumulate_def AccRoot_def NewIncrementalMerkle_def Root_def BuildTree_def)
next
  case False
  then show ?thesis
    using AccRoot_reference [OF acc_inv_accumulate, of leaves] by (simp add: Root_reference)
qed

lemma append_loop_append:
  "fst (append_loop m (xs @ ys)) = fst (append_loop (fst (append_loop m xs)) ys)"
  by (induction xs arbitrary: m) (simp_all add: case_prod_beta)

lemma accumulate_append:
  "fst (append_loop (accumulate xs) ys) = accumulate (xs @ ys)"
  by (simp add: accumulate_def append_loop_append)

lemma snd_append_loop: "snd (append_loop m lfs) = map HexHash lfs"
  by (induction lfs arbitrary: m) (simp_all add: case_prod_beta Append_def HexHash_def Let_def)

lemma Root_Nil_iff: "Root leaves = nil_string \<longleftrightarrow> leaves = []"
proof (cases "leaves = []")
  case False
  let ?up = "level_up node_hash (map sha256 leaves)"
  have "merkle_root node_hash xs \<in> {x. length x = 32}"
    if "xs \<noteq> []" "\<forall>x \<in> set xs. length x = 32" for xs
    using that
  proof (induction "length xs" arbitrary: xs rule: less_induct)
    case less
    then show ?case
      using plain.level_up_lengths [of xs]
      by (cases "length xs \<le> 1") (simp_all add: merkle_root.simps [of _ xs] length_level_up node_hash_eq)
  qed
  from this [of ?up] False have "length (merkle_root node_hash ?up) = 32"
    using plain.level_up_lengths [of "map sha256 leaves"] by (simp add: node_hash_eq)
  with False show ?thesis by (auto simp: Root_reference)
qed (simp add: Root_def BuildTree_def)

text \<open>Replaying hashes appends them to the represented sequence.\<close>

lemma replay_loop_hashes:
  assumes "replay_loop m lfs = Inr m'" "acc_inv m hs"
  shows "\<exists>ks. map hex_decode lfs = map Some ks \<and> acc_inv m' (hs @ ks)"
  using assms
proof (induction lfs arbitrary: m hs)
  case (Cons lf lfs)
  from Cons.prems(1) obtain k where k: "hex_decode lf = Some k"
    and rest: "replay_loop ((foldIn m k)\<lparr>acc_size := acc_size (foldIn m k) + 1\<rparr>) lfs = Inr m'"
    by (auto simp: Let_def split: option.splits if_splits)
  from Cons.IH [OF rest acc_inv_foldIn [OF Cons.prems(2)]] obtain ks where
    "map hex_decode lfs = map Some ks" "acc_inv m' ((hs @ [k]) @ ks)" by blast
  with k show ?case by (intro exI [of _ "k # ks"]) simp
qed (auto intro: exI [of _ "[]"])

lemma replay_loop_leaves:
  "replay_loop m (map HexHash lfs) = Inr (fst (append_loop m lfs))"
  by (induction lfs arbitrary: m) (simp_all add: HexHash_def Append_def Let_def case_prod_beta)

lemma Clone_id [simp]: "Clone m = m"
  by (simp add: Clone_def)

section \<open>Properties of the accumulator\<close>

text \<open>
  C4: the incremental accumulator and the batch builder agree. After appending any
  sequence of leaves to a new accumulator its \<open>Root\<close> is the root \<open>BuildTree\<close> gives for
  that sequence, the empty sequence and every odd length included.
\<close>

theorem incremental_root_eq_batch_root:
  "AccRoot (fst (append_loop NewIncrementalMerkle leaves)) = Root leaves"
  using AccRoot_accumulate [of leaves] by (simp only: accumulate_def)

text \<open>
  A batch receipt verifies. Appending a non-empty batch to an accumulator that holds
  the leaves \<open>prev\<close> succeeds, the receipt names the roots before and after and the start
  index, the state is the one reached by appending leaf by leaf, and
  \<open>VerifyReceiptTransition\<close> accepts the receipt on the accumulator before the batch.
\<close>

theorem AppendBatch_receipt_verifies:
  assumes "batch \<noteq> []"
  shows "\<exists>rc. AppendBatch (fst (append_loop NewIncrementalMerkle prev)) batch =
      (fst (append_loop NewIncrementalMerkle (prev @ batch)), Inr rc)
    \<and> PrevRoot rc = Root prev \<and> NewRoot rc = Root (prev @ batch)
    \<and> StartIndex rc = length prev \<and> Leaves rc = map HexHash batch
    \<and> VerifyReceiptTransition (fst (append_loop NewIncrementalMerkle prev)) (Some rc) = Inr True"
proof -
  let ?m = "accumulate prev"
  have size: "acc_size ?m = length prev"
    using acc_inv_accumulate [of prev] by (simp add: acc_inv_def)
  have loop: "append_loop ?m batch = (accumulate (prev @ batch), map HexHash batch)"
    by (metis accumulate_append snd_append_loop prod.collapse)
  have "AccRoot (accumulate (prev @ batch)) \<noteq> nil_string"
    using assms by (simp add: AccRoot_accumulate Root_Nil_iff)
  with assms size loop show ?thesis
    unfolding accumulate_def [symmetric]
    by (simp add: AppendBatch_def VerifyReceiptTransition_def Let_def replay_loop_leaves
        AccRoot_accumulate accumulate_append)
qed

theorem AppendBatch_receipt_verifies_witness:
  "\<exists>rc. AppendBatch (fst (append_loop NewIncrementalMerkle [''a''])) [''b'', ''c''] =
      (fst (append_loop NewIncrementalMerkle [''a'', ''b'', ''c'']), Inr rc)
    \<and> NewRoot rc = Root [''a'', ''b'', ''c'']"
  using AppendBatch_receipt_verifies [of "[''b'', ''c'']" "[''a'']"] by auto

text \<open>
  C24: an accepted receipt fixes the new root. When \<open>VerifyReceiptTransition\<close> accepts a
  receipt on an accumulator that holds the leaves \<open>prev\<close>, the receipt starts from the root
  of \<open>prev\<close>, all its leaf entries are hexadecimal text, and its new root is the Merkle root
  over the hashes of \<open>prev\<close> followed by exactly the leaf hashes in the receipt.
\<close>

theorem VerifyReceiptTransition_sound:
  assumes "VerifyReceiptTransition (fst (append_loop NewIncrementalMerkle prev)) (Some rc) = Inr True"
    and "Leaves rc \<noteq> []"
  shows "PrevRoot rc = Root prev \<and> (\<exists>ks. map hex_decode (Leaves rc) = map Some ks \<and>
    NewRoot rc = hex_encode (merkle_root node_hash (level_up node_hash (map sha256 prev @ ks))))"
proof -
  from assms(1) obtain m' where m': "replay_loop (accumulate prev) (Leaves rc) = Inr m'"
    "AccRoot m' = NewRoot rc" and prev: "AccRoot (accumulate prev) = PrevRoot rc"
    by (auto simp: VerifyReceiptTransition_def accumulate_def split: if_splits sum.splits)
  from replay_loop_hashes [OF m'(1) acc_inv_accumulate] obtain ks where
    ks: "map hex_decode (Leaves rc) = map Some ks" "acc_inv m' (map sha256 prev @ ks)" by blast
  with assms(2) have "map sha256 prev @ ks \<noteq> []" by auto
  from AccRoot_reference [OF ks(2) this] ks(1) m'(2) prev show ?thesis
    by (auto simp: AccRoot_accumulate)
qed

theorem VerifyReceiptTransition_sound_witness:
  "\<exists>ks. map hex_decode [HexHash ''b''] = map Some ks \<and>
    Root [''a'', ''b''] = hex_encode (merkle_root node_hash (level_up node_hash (map sha256 [''a''] @ ks)))"
proof -
  let ?rc = "\<lparr>PrevRoot = Root [''a''], NewRoot = Root [''a'', ''b''], StartIndex = 1,
    Leaves = [HexHash ''b''], BatchSize = 1\<rparr>"
  have "VerifyReceiptTransition (fst (append_loop NewIncrementalMerkle [''a''])) (Some ?rc) = Inr True"
    using replay_loop_leaves [of "accumulate [''a'']" "[''b'']"] accumulate_append [of "[''a'']" "[''b'']"]
    unfolding accumulate_def [symmetric]
    by (simp add: VerifyReceiptTransition_def AccRoot_accumulate)
  from VerifyReceiptTransition_sound [OF this] show ?thesis by simp
qed

end
