(* ===== verification/Proof_Engine.thy ===== *)
theory Proof_Engine
  imports Merkle
begin

text \<open>
  The proof registry of \<^verbatim>\<open>engine/internal/prover/proof.go\<close> (\<open>ProofEngine\<close>) and
  the verifier of \<^verbatim>\<open>engine/internal/verifier/local.go\<close>.
  The state is the record \<open>ProofEngine\<close>. The clock is an argument: \<open>elapsed\<close> for
  \<^verbatim>\<open>time.Since(start).Milliseconds()\<close> and \<open>now\<close> for \<^verbatim>\<open>time.Now().Unix()\<close>.
\<close>

section \<open>Data\<close>

record Proof =
  p_ID :: gostring
  p_Agent :: gostring
  p_PH :: gostring
  p_IH :: gostring
  p_OH :: gostring
  p_MH :: gostring
  p_Root :: gostring
  p_Path :: "gostring list"
  p_Idx :: int
  p_TS :: int
  p_Valid :: bool
  p_Revoked :: bool
  p_UseCase :: gostring
  p_PubKey :: gostring
  p_Deploy :: gostring
  p_AnchorHash :: gostring
  p_AnchoringStatus :: gostring
  p_GenMs :: int
  p_Mode :: gostring

record ProofEngine =
  proofs :: "gostring \<rightharpoonup> Proof"
  seq :: int

record ListFilter =
  f_Agent :: gostring
  f_PubKey :: gostring
  f_Mode :: gostring
  f_Page :: int
  f_Limit :: int

record Stats =
  s_Total :: int
  s_Valid :: int
  s_Revoked :: int
  s_Agents :: int
  s_AvgGenMs :: float64
  s_MaxDepth :: int
  s_UseCases :: "gostring \<rightharpoonup> int"

datatype engine_error = ProofNotFound gostring | AlreadyRevoked gostring

definition Engine_New :: ProofEngine where
  "Engine_New = \<lparr>proofs = Map.empty, seq = 0\<rparr>"

definition MaxProofs :: nat where
  "MaxProofs = 100000"

section \<open>Operations\<close>

definition evictIfNeeded :: "ProofEngine \<Rightarrow> ProofEngine" where
  "evictIfNeeded e =
     (if card (dom (proofs e)) \<le> MaxProofs then e
      else e\<lparr>proofs := (\<lambda>pid. case proofs e pid of None \<Rightarrow> None
               | Some p \<Rightarrow> if p_Revoked p then None else Some p)\<rparr>)"

definition pid_of :: "int \<Rightarrow> gostring" where
  "pid_of n = ''P-'' @ show_int n"

text \<open>The proof literal of \<open>GenerateWithKey\<close>, with the values computed before it.\<close>

definition new_proof ::
  "gostring \<Rightarrow> int \<Rightarrow> int \<Rightarrow> gostring \<Rightarrow> gostring \<Rightarrow> bytes \<Rightarrow> bytes \<Rightarrow> bytes \<Rightarrow> gostring \<Rightarrow> gostring \<Rightarrow> Proof" where
  "new_proof pid elapsed now agent pubKey input output model uc mode =
     (let ph = CommitHash input output model;
          ih = HexHash input;
          oh = HexHash output;
          mh = HexHash model;
          leaves = [input, output, model];
          rt = Root leaves;
          path = GetPath leaves 0;
          elapsed' = (if elapsed < 1 then 1 else elapsed);
          mode' = (if mode = nil_string then ''local'' else mode)
      in \<lparr>p_ID = pid, p_Agent = agent, p_PH = ph, p_IH = ih, p_OH = oh, p_MH = mh,
          p_Root = rt, p_Path = path, p_Idx = 0, p_TS = now, p_Valid = True, p_Revoked = False,
          p_UseCase = uc, p_PubKey = pubKey, p_Deploy = nil_string, p_AnchorHash = nil_string,
          p_AnchoringStatus = nil_string, p_GenMs = elapsed', p_Mode = mode'\<rparr>)"

definition GenerateWithKey ::
  "ProofEngine \<Rightarrow> int \<Rightarrow> int \<Rightarrow> gostring \<Rightarrow> gostring \<Rightarrow> bytes \<Rightarrow> bytes \<Rightarrow> bytes \<Rightarrow> gostring \<Rightarrow> gostring
     \<Rightarrow> ProofEngine \<times> Proof" where
  "GenerateWithKey e elapsed now agent pubKey input output model uc mode =
     (let e1 = evictIfNeeded e;
          seq' = wrap64 (seq e1 + 1);
          pid = pid_of seq';
          p = new_proof pid elapsed now agent pubKey input output model uc mode
      in (e1\<lparr>proofs := (proofs e1)(pid \<mapsto> p), seq := seq'\<rparr>, p))"

definition Generate ::
  "ProofEngine \<Rightarrow> int \<Rightarrow> int \<Rightarrow> gostring \<Rightarrow> bytes \<Rightarrow> bytes \<Rightarrow> bytes \<Rightarrow> gostring \<Rightarrow> ProofEngine \<times> Proof" where
  "Generate e elapsed now agent input output model uc =
     GenerateWithKey e elapsed now agent nil_string input output model uc ''local''"

definition Engine_Get :: "ProofEngine \<Rightarrow> gostring \<Rightarrow> Proof option" where
  "Engine_Get e pid = proofs e pid"

definition Engine_Revoke :: "ProofEngine \<Rightarrow> gostring \<Rightarrow> gostring \<Rightarrow> ProofEngine \<times> engine_error option" where
  "Engine_Revoke e pid reason =
     (case proofs e pid of
        None \<Rightarrow> (e, Some (ProofNotFound pid))
      | Some p \<Rightarrow>
          if p_Revoked p then (e, Some (AlreadyRevoked pid))
          else (e\<lparr>proofs := (proofs e)(pid \<mapsto> p\<lparr>p_Valid := False, p_Revoked := True\<rparr>)\<rparr>, None))"

text \<open>The range loop of \<open>EvictRevoked\<close> over the keys \<open>ks\<close>, with its counter.\<close>

fun evict_loop ::
  "int \<Rightarrow> gostring list \<Rightarrow> (gostring \<rightharpoonup> Proof) \<Rightarrow> int \<Rightarrow> (gostring \<rightharpoonup> Proof) \<times> int" where
  "evict_loop cutoff [] m evicted = (m, evicted)"
| "evict_loop cutoff (pid # ks) m evicted =
     (case m pid of
        Some p \<Rightarrow> if p_Revoked p \<and> p_TS p < cutoff
                  then evict_loop cutoff ks (m(pid := None)) (evicted + 1)
                  else evict_loop cutoff ks m evicted
      | None \<Rightarrow> evict_loop cutoff ks m evicted)"

text \<open>\<^verbatim>\<open>time.Now().Add(-maxAge).Unix()\<close> from the clock in nanoseconds.\<close>

definition EvictRevoked :: "ProofEngine \<Rightarrow> gostring list \<Rightarrow> int \<Rightarrow> int \<Rightarrow> ProofEngine \<times> int" where
  "EvictRevoked e ks nowNs maxAge =
     (let cutoff = (nowNs - maxAge) div 1000000000;
          (m, evicted) = evict_loop cutoff ks (proofs e) 0
      in (e\<lparr>proofs := m\<rparr>, evicted))"

definition Engine_Verify :: "ProofEngine \<Rightarrow> gostring \<Rightarrow> engine_error + bool" where
  "Engine_Verify e pid =
     (case proofs e pid of
        None \<Rightarrow> Inl (ProofNotFound pid)
      | Some p \<Rightarrow> Inr (p_Valid p \<and> \<not> p_Revoked p))"

definition ListProofs :: "ProofEngine \<Rightarrow> gostring list \<Rightarrow> Proof list" where
  "ListProofs e ks = sort_desc p_TS (range_values ks (proofs e))"

definition filter_match :: "ListFilter \<Rightarrow> Proof \<Rightarrow> bool" where
  "filter_match f p \<longleftrightarrow>
     \<not> (f_Agent f \<noteq> nil_string \<and> p_Agent p \<noteq> f_Agent f) \<and>
     \<not> (f_PubKey f \<noteq> nil_string \<and> p_PubKey p \<noteq> f_PubKey f) \<and>
     \<not> (f_Mode f \<noteq> nil_string \<and> p_Mode p \<noteq> f_Mode f)"

definition ListFiltered :: "ProofEngine \<Rightarrow> gostring list \<Rightarrow> ListFilter \<Rightarrow> Proof list \<times> int" where
  "ListFiltered e ks f =
     (let filtered = sort_desc p_TS (filter (filter_match f) (range_values ks (proofs e)));
          total = int (length filtered);
          limit = (if f_Limit f \<le> 0 then 50 else f_Limit f);
          page = (if f_Page f \<le> 0 then 1 else f_Page f);
          start = (page - 1) * limit
      in if start \<ge> total then ([], total)
         else let end' = (if start + limit > total then total else start + limit)
           in (take (nat (end' - start)) (drop (nat start) filtered), total))"

text \<open>
  \<^verbatim>\<open>fmt.Sscanf(id, "P-%d", &n)\<close>: the literal, blanks, an optional sign and at least one
  digit; a value outside \<^verbatim>\<open>int\<close> is an error, what follows the digits is not read.
\<close>

definition is_digit :: "char \<Rightarrow> bool" where
  "is_digit c \<longleftrightarrow> 48 \<le> (of_char c :: nat) \<and> (of_char c :: nat) \<le> 57"

definition digit_val :: "char \<Rightarrow> int" where
  "digit_val c = of_char c - 48"

definition is_blank :: "char \<Rightarrow> bool" where
  "is_blank c \<longleftrightarrow> (of_char c :: nat) \<in> {9, 11, 12, 13, 32}"

definition digits_val :: "gostring \<Rightarrow> int" where
  "digits_val ds = foldl (\<lambda>n c. n * 10 + digit_val c) 0 ds"

definition scan_int :: "gostring \<Rightarrow> int option" where
  "scan_int s =
     (let s1 = dropWhile is_blank s;
          neg = (s1 \<noteq> [] \<and> hd s1 = CHR ''-'');
          s2 = (if s1 \<noteq> [] \<and> hd s1 \<in> {CHR ''+'', CHR ''-''} then tl s1 else s1);
          ds = takeWhile is_digit s2;
          n = (if neg then - digits_val ds else digits_val ds)
      in if ds = [] \<or> n < - (2 ^ 63) \<or> n \<ge> 2 ^ 63 then None else Some n)"

definition scan_id :: "gostring \<Rightarrow> int option" where
  "scan_id s = (if take 2 s = ''P-'' then scan_int (drop 2 s) else None)"

definition Restore :: "ProofEngine \<Rightarrow> Proof \<Rightarrow> ProofEngine" where
  "Restore e cp =
     (let e1 = e\<lparr>proofs := (proofs e)(p_ID cp \<mapsto> cp)\<rparr>
      in case scan_id (p_ID cp) of
           Some n \<Rightarrow> if n > seq e1 then e1\<lparr>seq := n\<rparr> else e1
         | None \<Rightarrow> e1)"

text \<open>One turn of the statistics loop; the agents seen and the time total go along.\<close>

definition stats_step ::
  "Proof \<Rightarrow> Stats \<times> gostring set \<times> int \<Rightarrow> Stats \<times> gostring set \<times> int" where
  "stats_step p acc =
     (case acc of (s, agents, totalMs) \<Rightarrow>
        let uc = (if p_UseCase p = nil_string then ''general'' else p_UseCase p);
            n = (case s_UseCases s uc of None \<Rightarrow> 0 | Some n \<Rightarrow> n)
        in (s\<lparr>s_Total := s_Total s + 1,
              s_Valid := (if p_Valid p \<and> \<not> p_Revoked p then s_Valid s + 1 else s_Valid s),
              s_Revoked := (if p_Revoked p then s_Revoked s + 1 else s_Revoked s),
              s_MaxDepth := (if int (length (p_Path p)) > s_MaxDepth s
                             then int (length (p_Path p)) else s_MaxDepth s),
              s_UseCases := (s_UseCases s)(uc \<mapsto> n + 1)\<rparr>,
            insert (p_Agent p) agents, totalMs + p_GenMs p))"

definition GetStats :: "(rat \<Rightarrow> float64) \<Rightarrow> ProofEngine \<Rightarrow> gostring list \<Rightarrow> Stats" where
  "GetStats rnd e ks =
     (let s0 = \<lparr>s_Total = 0, s_Valid = 0, s_Revoked = 0, s_Agents = 0, s_AvgGenMs = 0,
                s_MaxDepth = 0, s_UseCases = Map.empty\<rparr>;
          (s, agents, totalMs) = fold stats_step (range_values ks (proofs e)) (s0, {}, 0);
          s1 = s\<lparr>s_Agents := int (card agents)\<rparr>
      in if s_Total s1 > 0 then s1\<lparr>s_AvgGenMs := rnd (of_int totalMs / of_int (s_Total s1))\<rparr> else s1)"

section \<open>The local verifier\<close>

datatype verify_error =
    NilProof
  | ProofRevoked gostring
  | ProofInvalid gostring
  | InputMismatch gostring gostring
  | OutputMismatch
  | ModelMismatch
  | ProofHashMismatch
  | MerklePathInvalid

definition VerifyProof :: "Proof option \<Rightarrow> bytes \<Rightarrow> bytes \<Rightarrow> bytes \<Rightarrow> verify_error option" where
  "VerifyProof p input output model =
     (case p of
        None \<Rightarrow> Some NilProof
      | Some p \<Rightarrow>
          if p_Revoked p then Some (ProofRevoked (p_ID p))
          else if \<not> p_Valid p then Some (ProofInvalid (p_ID p))
          else if HexHash input \<noteq> p_IH p then Some (InputMismatch (HexHash input) (p_IH p))
          else if HexHash output \<noteq> p_OH p then Some OutputMismatch
          else if HexHash model \<noteq> p_MH p then Some ModelMismatch
          else if CommitHash input output model \<noteq> p_PH p then Some ProofHashMismatch
          else if p_Root p \<noteq> nil_string \<and> length (p_Path p) > 0 \<and>
                  \<not> VerifyPath input (p_Path p) (p_Root p) (p_Idx p)
          then Some MerklePathInvalid
          else None)"

definition QuickCheck :: "gostring \<Rightarrow> bytes \<Rightarrow> bytes \<Rightarrow> bytes \<Rightarrow> bool" where
  "QuickCheck ph input output model \<longleftrightarrow> CommitHash input output model = ph"

definition ValidateHash :: "gostring \<Rightarrow> bool" where
  "ValidateHash h = (case hex_decode h of None \<Rightarrow> False | Some b \<Rightarrow> length b = 32)"

section \<open>Reading back a generated identifier\<close>

lemma is_digit_dec_digit: "n < 10 \<Longrightarrow> is_digit (dec_digit n) \<and> digit_val (dec_digit n) = int n"
proof -
  assume "n < 10"
  then have "n \<in> set [0..<10]" by simp
  moreover have "\<forall>n \<in> set [0..<10]. is_digit (dec_digit n) \<and> digit_val (dec_digit n) = int n"
    by code_simp
  ultimately show ?thesis by blast
qed

lemma digits_show_nat: "(\<forall>c \<in> set (show_nat n). is_digit c) \<and> digits_val (show_nat n) = int n"
proof (induction n rule: show_nat.induct)
  case (1 n)
  show ?case
  proof (cases "n < 10")
    case True
    then show ?thesis
      using is_digit_dec_digit [OF True] by (simp add: show_nat.simps [of n] digits_val_def)
  next
    case False
    then have "int n = int (n div 10) * 10 + int (n mod 10)" by presburger
    with False "1.IH" is_digit_dec_digit [of "n mod 10"] show ?thesis
      by (simp add: show_nat.simps [of n] digits_val_def)
  qed
qed

lemma is_digit_facts: "is_digit c \<Longrightarrow> \<not> is_blank c \<and> c \<noteq> CHR ''-'' \<and> c \<noteq> CHR ''+''"
  by (auto simp: is_digit_def is_blank_def)

lemma scan_int_show_nat:
  assumes "int n < 2 ^ 63"
  shows "scan_int (show_nat n) = Some (int n)"
proof -
  obtain c cs where s: "show_nat n = c # cs" by (cases "show_nat n") simp_all
  have c: "is_digit c" using digits_show_nat [of n] s by simp
  have tw: "takeWhile is_digit cs = cs"
    using digits_show_nat [of n] s by simp
  show ?thesis
    using assms digits_show_nat [of n] is_digit_facts [OF c]
    unfolding scan_int_def Let_def by (simp add: s tw)
qed

lemma scan_id_pid: "0 \<le> n \<Longrightarrow> n < 2 ^ 63 \<Longrightarrow> scan_id (pid_of n) = Some n"
  using scan_int_show_nat [of "nat n"] by (simp add: scan_id_def show_int_def pid_of_def)

lemma pid_inject:
  "0 \<le> m \<Longrightarrow> 0 \<le> n \<Longrightarrow> pid_of m = pid_of n \<longleftrightarrow> m = n"
  by (auto simp: pid_of_def show_int_def dest: show_nat_inj)

section \<open>Reachable engines\<close>

text \<open>
  The operations that change the state, in any order. \<open>restore\<close> takes any proof, as the
  loader of the database may; its identifier is the label of the step. \<open>generate\<close> is a
  step while the counter can still be incremented.
\<close>

inductive engine_step :: "ProofEngine \<Rightarrow> gostring option \<Rightarrow> ProofEngine \<Rightarrow> bool" where
  generate: "seq e < 2 ^ 63 - 1 \<Longrightarrow>
     engine_step e None (fst (GenerateWithKey e elapsed now agent pubKey input output model uc mode))"
| revoke: "engine_step e None (fst (Engine_Revoke e pid reason))"
| evict: "engine_step e None (fst (EvictRevoked e ks now maxAge))"
| restore: "engine_step e (Some (p_ID p)) (Restore e p)"

inductive engine_reach :: "ProofEngine \<Rightarrow> bool" where
  start: "engine_reach Engine_New"
| step: "engine_reach e \<Longrightarrow> engine_step e l e' \<Longrightarrow> engine_reach e'"

text \<open>Any further run in which no proof is restored under the identifier \<open>pid\<close>.\<close>

inductive engine_run :: "gostring \<Rightarrow> ProofEngine \<Rightarrow> ProofEngine \<Rightarrow> bool" where
  refl: "engine_run pid e e"
| step: "engine_run pid e e1 \<Longrightarrow> engine_step e1 l e2 \<Longrightarrow> l \<noteq> Some pid \<Longrightarrow> engine_run pid e e2"

text \<open>Every numbered identifier in use is at most the counter.\<close>

definition engine_inv :: "ProofEngine \<Rightarrow> bool" where
  "engine_inv e \<longleftrightarrow> 0 \<le> seq e \<and> finite (dom (proofs e)) \<and>
     (\<forall>pid p. proofs e pid = Some p \<longrightarrow> p_ID p = pid) \<and>
     (\<forall>n. 0 \<le> n \<and> n < 2 ^ 63 \<and> pid_of n \<in> dom (proofs e) \<longrightarrow> n \<le> seq e)"

lemma engine_invD:
  "engine_inv e \<Longrightarrow> 0 \<le> n \<Longrightarrow> n < 2 ^ 63 \<Longrightarrow> pid_of n \<in> dom (proofs e) \<Longrightarrow> n \<le> seq e"
  by (simp only: engine_inv_def)

lemma evictIfNeeded_sub:
  "proofs (evictIfNeeded e) pid = Some p \<Longrightarrow> proofs e pid = Some p"
  "seq (evictIfNeeded e) = seq e"
  "proofs e pid = Some p \<Longrightarrow> \<not> p_Revoked p \<Longrightarrow> proofs (evictIfNeeded e) pid = Some p"
  by (auto simp: evictIfNeeded_def split: option.splits if_splits)

lemma evict_loop_sub:
  "fst (evict_loop cutoff ks m n) pid = Some p \<Longrightarrow> m pid = Some p"
  by (induction cutoff ks m n rule: evict_loop.induct) (auto split: option.splits if_splits)

lemma engine_inv_sub:
  assumes "engine_inv e" "seq e \<le> seq e'" "\<And>pid p. proofs e' pid = Some p \<Longrightarrow> proofs e pid = Some p"
  shows "engine_inv e'"
proof -
  have "dom (proofs e') \<subseteq> dom (proofs e)" using assms(3) by auto
  with assms show ?thesis
    unfolding engine_inv_def by (meson finite_subset order_trans subsetD)
qed

lemma engine_inv_insert:
  assumes "engine_inv e" "p_ID p = pid" "seq e \<le> s"
    and "\<And>n. 0 \<le> n \<Longrightarrow> n < 2 ^ 63 \<Longrightarrow> pid = pid_of n \<Longrightarrow> n \<le> s"
  shows "engine_inv (e\<lparr>proofs := (proofs e)(pid \<mapsto> p), seq := s\<rparr>)"
proof -
  have "n \<le> s" if "0 \<le> n" "n < 2 ^ 63" "pid_of n \<in> insert pid (dom (proofs e))" for n
    using that assms unfolding engine_inv_def by (metis insert_iff order_trans)
  with assms show ?thesis by (auto simp: engine_inv_def)
qed

lemma GenerateWithKey_simps:
  assumes "GenerateWithKey e elapsed now agent pubKey input output model uc mode = (e', p)"
    and "0 \<le> seq e" "seq e < 2 ^ 63 - 1"
  shows "p_ID p = pid_of (seq e + 1)"
    and "e' = (evictIfNeeded e)\<lparr>proofs := (proofs (evictIfNeeded e))(p_ID p \<mapsto> p), seq := seq e + 1\<rparr>"
    and "p_PH p = CommitHash input output model" "p_IH p = HexHash input" "p_OH p = HexHash output"
    and "p_MH p = HexHash model" "p_Root p = Root [input, output, model]"
    and "p_Path p = GetPath [input, output, model] 0" "p_Idx p = 0"
    and "p_Valid p" "\<not> p_Revoked p"
proof -
  have "wrap64 (seq e + 1) = seq e + 1" using assms(2,3) by (simp add: wrap64_small)
  with assms(1) have p: "p = new_proof (pid_of (seq e + 1)) elapsed now agent pubKey input output model uc mode"
    and e': "e' = (evictIfNeeded e)\<lparr>proofs := (proofs (evictIfNeeded e))(pid_of (seq e + 1) \<mapsto> p), seq := seq e + 1\<rparr>"
    by (auto simp: GenerateWithKey_def Let_def evictIfNeeded_sub(2))
  show "p_ID p = pid_of (seq e + 1)"
    and "e' = (evictIfNeeded e)\<lparr>proofs := (proofs (evictIfNeeded e))(p_ID p \<mapsto> p), seq := seq e + 1\<rparr>"
    and "p_PH p = CommitHash input output model" "p_IH p = HexHash input" "p_OH p = HexHash output"
    and "p_MH p = HexHash model" "p_Root p = Root [input, output, model]"
    and "p_Path p = GetPath [input, output, model] 0" "p_Idx p = 0"
    and "p_Valid p" "\<not> p_Revoked p"
    by (simp_all add: e') (simp_all add: p new_proof_def Let_def)
qed

lemma engine_inv_generate [inv_intros]:
  assumes "engine_inv e" "seq e < 2 ^ 63 - 1"
  shows "engine_inv (fst (GenerateWithKey e elapsed now agent pubKey input output model uc mode))"
proof -
  obtain e' p where g: "GenerateWithKey e elapsed now agent pubKey input output model uc mode = (e', p)"
    by fastforce
  have pos: "0 \<le> seq e" using assms(1) by (simp add: engine_inv_def)
  have "engine_inv (evictIfNeeded e)"
    by (rule engine_inv_sub [OF assms(1)]) (auto dest: evictIfNeeded_sub(1) simp: evictIfNeeded_sub(2))
  then have "engine_inv e'"
    unfolding GenerateWithKey_simps(2) [OF g pos assms(2)]
    using GenerateWithKey_simps(1) [OF g pos assms(2)] pos
    by (intro engine_inv_insert) (auto simp: evictIfNeeded_sub(2) pid_inject)
  with g show ?thesis by simp
qed

lemma engine_inv_revoke [inv_intros]:
  "engine_inv e \<Longrightarrow> engine_inv (fst (Engine_Revoke e pid reason))"
  by (auto simp: Engine_Revoke_def engine_inv_def split: option.splits)

lemma engine_inv_evict [inv_intros]:
  "engine_inv e \<Longrightarrow> engine_inv (fst (EvictRevoked e ks now maxAge))"
  by (rule engine_inv_sub) (auto simp: EvictRevoked_def Let_def case_prod_beta dest: evict_loop_sub)

lemma engine_inv_restore [inv_intros]:
  assumes "engine_inv e"
  shows "engine_inv (Restore e p)"
proof -
  define s where "s = (case scan_id (p_ID p) of Some n \<Rightarrow> max n (seq e) | None \<Rightarrow> seq e)"
  have "Restore e p = e\<lparr>proofs := (proofs e)(p_ID p \<mapsto> p), seq := s\<rparr>"
    by (auto simp: Restore_def s_def Let_def split: option.splits)
  moreover have "engine_inv (e\<lparr>proofs := (proofs e)(p_ID p \<mapsto> p), seq := s\<rparr>)"
    using assms by (intro engine_inv_insert) (auto simp: s_def scan_id_pid split: option.splits)
  ultimately show ?thesis by simp
qed

lemma engine_reach_inv: "engine_reach e \<Longrightarrow> engine_inv e"
proof (induction rule: engine_reach.induct)
  case start
  show ?case by (simp add: engine_inv_def Engine_New_def)
next
  case (step e l e')
  from step(2) step(3) show ?case
    by (cases rule: engine_step.cases) (auto intro: inv_intros)
qed

section \<open>Properties of the engine\<close>

lemma three_leaf_path: "GetPath [a, b, c] 0 \<noteq> []" "Root [a, b, c] \<noteq> nil_string"
proof -
  show "GetPath [a, b, c] 0 \<noteq> []"
    using GetPath_reference [of 0 "[a, b, c]"] by (simp add: full_path_def)
  show "Root [a, b, c] \<noteq> nil_string"
  proof
    assume empty: "Root [a, b, c] = nil_string"
    have "hex_encode (climb node_hash (sha256 a) (full_path (map sha256 [a, b, c]) 0) 0) = Root [a, b, c]"
      using climb_full_path [of 0 "map sha256 [a, b, c]"] by (simp add: Root_reference)
    with empty have "climb node_hash (sha256 a) (full_path (map sha256 [a, b, c]) 0) 0 = []" by simp
    moreover have "length h = 32 \<Longrightarrow> length (climb node_hash h p i) = 32" for h p i
      by (induction p arbitrary: h i) (simp_all add: node_hash_def)
    ultimately show False by (metis length_sha256 list.size(3) zero_neq_numeral)
  qed
qed

text \<open>What \<open>GenerateWithKey\<close> does in a reachable engine, for the theorems below.\<close>

lemma reach_GenerateWithKey:
  assumes "engine_reach e" "seq e < 2 ^ 63 - 1"
    and "GenerateWithKey e elapsed now agent pubKey input output model uc mode = (e', p)"
  shows "proofs e (p_ID p) = None" "proofs e' (p_ID p) = Some p"
    and "proofs e pid = Some q \<Longrightarrow> \<not> p_Revoked q \<Longrightarrow> proofs e' pid = Some q"
    and "p_PH p = CommitHash input output model" "p_IH p = HexHash input" "p_OH p = HexHash output"
    and "p_MH p = HexHash model" "p_Root p = Root [input, output, model]"
    and "p_Path p = GetPath [input, output, model] 0" "p_Idx p = 0"
    and "p_Valid p" "\<not> p_Revoked p"
proof -
  from assms(1) have inv: "engine_inv e" by (rule engine_reach_inv)
  then have pos: "0 \<le> seq e" by (simp add: engine_inv_def)
  note simps = GenerateWithKey_simps [OF assms(3) pos assms(2)]
  have "pid_of (seq e + 1) \<notin> dom (proofs e)"
  proof
    assume "pid_of (seq e + 1) \<in> dom (proofs e)"
    from engine_invD [OF inv _ _ this] pos assms(2) show False by simp
  qed
  then show fresh: "proofs e (p_ID p) = None" by (simp add: simps(1) domIff)
  show "proofs e' pid = Some q" if "proofs e pid = Some q" "\<not> p_Revoked q"
    using fresh that evictIfNeeded_sub(3) [OF that] by (subst simps(2)) auto
  show "proofs e' (p_ID p) = Some p" by (subst simps(2)) simp
qed (fact GenerateWithKey_simps(3-) [OF assms(3) engine_reach_inv [OF assms(1), unfolded engine_inv_def, THEN conjunct1] assms(2)])+



lemma generated_accepted:
  assumes "engine_reach e" "seq e < 2 ^ 63 - 1"
    and "GenerateWithKey e elapsed now agent pubKey input output model uc mode = (e', p)"
  shows "VerifyProof (Some p) input output model = None"
  using GetPath_accepted [of 0 "[input, output, model]"]
  by (simp add: VerifyProof_def reach_GenerateWithKey(4-) [OF assms])

text \<open>
  A generated proof verifies. The proof \<open>GenerateWithKey\<close> returns is accepted by
  \<open>VerifyProof\<close> for the inputs it was generated from, by \<open>QuickCheck\<close> and by the
  engine's own \<open>Verify\<close>, and its Merkle path is really checked (root and path are
  non-empty).
\<close>

theorem Generate_verifies:
  assumes "engine_reach e" "seq e < 2 ^ 63 - 1"
    and "GenerateWithKey e elapsed now agent pubKey input output model uc mode = (e', p)"
  shows "VerifyProof (Some p) input output model = None \<and> QuickCheck (p_PH p) input output model \<and>
    Engine_Verify e' (p_ID p) = Inr True \<and> p_Root p \<noteq> nil_string \<and> p_Path p \<noteq> []"
  using generated_accepted [OF assms] three_leaf_path
  by (simp add: QuickCheck_def Engine_Verify_def reach_GenerateWithKey(2,4-) [OF assms])

theorem Generate_verifies_witness:
  "\<exists>e' p. GenerateWithKey Engine_New 0 7 ''a'' [] ''in'' ''out'' ''m'' [] [] = (e', p) \<and>
    VerifyProof (Some p) ''in'' ''out'' ''m'' = None"
proof -
  obtain e' p where g: "GenerateWithKey Engine_New 0 7 ''a'' [] ''in'' ''out'' ''m'' [] [] = (e', p)"
    by fastforce
  from Generate_verifies [OF engine_reach.start _ g] g show ?thesis by (simp add: Engine_New_def)
qed

text \<open>
  C22: tampering is detected. If \<open>VerifyProof\<close> accepts some triple for a proof generated
  from another triple, the two triples are equal, component by component, or one component
  and its original are a SHA-256 collision.
\<close>

theorem VerifyProof_detects_tampering:
  assumes "engine_reach e" "seq e < 2 ^ 63 - 1"
    and "GenerateWithKey e elapsed now agent pubKey input output model uc mode = (e', p)"
    and "VerifyProof (Some p) input' output' model' = None"
  shows "(input', output', model') = (input, output, model) \<or>
    collision sha256 [input', output', model'] [input, output, model]"
proof -
  from assms(4) have "HexHash input' = p_IH p" "HexHash output' = p_OH p" "HexHash model' = p_MH p"
    by (auto simp: VerifyProof_def split: if_splits)
  then show ?thesis by (auto simp: reach_GenerateWithKey(4-) [OF assms(1-3)] HexHash_def)
qed

theorem VerifyProof_detects_tampering_witness:
  "\<exists>e' p. GenerateWithKey Engine_New 0 7 ''a'' [] ''in'' ''out'' ''m'' [] [] = (e', p) \<and>
    ((''in'', ''out'', ''m'') = (''in'', ''out'', ''m'') \<or>
      collision sha256 [''in'', ''out'', ''m''] [''in'', ''out'', ''m''])"
proof -
  obtain e' p where g: "GenerateWithKey Engine_New 0 7 ''a'' [] ''in'' ''out'' ''m'' [] [] = (e', p)"
    by fastforce
  have seq: "seq Engine_New < 2 ^ 63 - 1" by (simp add: Engine_New_def)
  from VerifyProof_detects_tampering
    [OF engine_reach.start seq g generated_accepted [OF engine_reach.start seq g]] g
  show ?thesis by blast
qed

section \<open>Revocation\<close>

text \<open>
  A revoked identifier stays dead: its number is at most the counter, and what is stored
  under it, if anything, is revoked.
\<close>

definition dead :: "gostring \<Rightarrow> ProofEngine \<Rightarrow> bool" where
  "dead pid e \<longleftrightarrow> (\<forall>n. 0 \<le> n \<and> n < 2 ^ 63 \<and> pid = pid_of n \<longrightarrow> n \<le> seq e) \<and>
     (\<forall>p. proofs e pid = Some p \<longrightarrow> p_Revoked p)"

lemma dead_step:
  assumes "engine_step e l e'" "engine_inv e" "dead pid e" "l \<noteq> Some pid"
  shows "dead pid e'"
  using assms(1)
proof cases
  case (generate elapsed now agent pubKey inp outp model uc mode)
  obtain e2 p where g: "GenerateWithKey e elapsed now agent pubKey inp outp model uc mode = (e2, p)"
    by fastforce
  have pos: "0 \<le> seq e" using assms(2) by (simp add: engine_inv_def)
  note simps = GenerateWithKey_simps(1,2) [OF g pos generate(3)]
  have "pid \<noteq> pid_of (seq e + 1)"
  proof
    assume "pid = pid_of (seq e + 1)"
    moreover have "0 \<le> seq e + 1" "seq e + 1 < 2 ^ 63" using pos generate(3) by simp_all
    ultimately have "seq e + 1 \<le> seq e" using assms(3) unfolding dead_def by blast
    then show False by simp
  qed
  moreover have "e' = e2" using generate(2) g by simp
  ultimately have "seq e' = seq e + 1" "proofs e' pid = proofs (evictIfNeeded e) pid"
    using simps by simp_all
  with assms(3) show ?thesis
    unfolding dead_def by (metis evictIfNeeded_sub(1) add_increasing2 zero_le_one)
next
  case (revoke pid' reason)
  with assms(3) show ?thesis
    by (auto simp: Engine_Revoke_def dead_def split: option.splits if_splits)
next
  case (evict ks now maxAge)
  with assms(3) show ?thesis
    by (auto simp: EvictRevoked_def dead_def Let_def case_prod_beta dest: evict_loop_sub)
next
  case (restore p)
  then have "proofs e' pid = proofs e pid" "seq e \<le> seq e'"
    using assms(4) by (auto simp: Restore_def Let_def split: option.splits)
  with assms(3) show ?thesis unfolding dead_def by (metis order_trans)
qed

lemma engine_run_dead:
  "engine_run pid e e' \<Longrightarrow> engine_reach e \<Longrightarrow> dead pid e \<Longrightarrow> engine_reach e' \<and> dead pid e'"
  by (induction rule: engine_run.induct)
    (auto intro: engine_reach.step dead_step engine_reach_inv)

text \<open>
  Revocation is final. After \<open>Revoke\<close> succeeds, \<open>Verify\<close> never reports the proof
  valid again, whatever is generated, revoked, evicted or restored afterwards, unless a
  proof is restored under that very identifier; and \<open>VerifyProof\<close> rejects what the engine
  returns for it.
\<close>

theorem Revoke_final:
  assumes "engine_reach e" "Engine_Revoke e pid reason = (e1, None)" "engine_run pid e1 e2"
  shows "Engine_Verify e2 pid \<noteq> Inr True \<and>
    (\<forall>input output model. VerifyProof (Engine_Get e2 pid) input output model \<noteq> None)"
proof -
  have reach: "engine_reach e1"
    using assms(1,2) engine_reach.step [OF _ engine_step.revoke [of e pid reason]] by simp
  from assms(2) obtain p where p: "proofs e pid = Some p" "proofs e1 = (proofs e)(pid \<mapsto> p\<lparr>p_Valid := False, p_Revoked := True\<rparr>)"
    and seq: "seq e1 = seq e"
    by (auto simp: Engine_Revoke_def split: option.splits if_splits)
  then have "dead pid e1"
    using engine_invD [OF engine_reach_inv [OF assms(1)]] by (auto simp: dead_def)
  with reach assms(3) have "dead pid e2" by (auto dest: engine_run_dead)
  then show ?thesis
    by (auto simp: dead_def Engine_Verify_def Engine_Get_def VerifyProof_def split: option.splits)
qed

theorem Revoke_final_witness:
  "\<exists>e1. Engine_Revoke (Restore Engine_New (new_proof ''x'' 1 1 [] [] [] [] [] [] [])) ''x'' [] = (e1, None) \<and>
    Engine_Verify e1 ''x'' \<noteq> Inr True"
proof -
  let ?e = "Restore Engine_New (new_proof ''x'' 1 1 [] [] [] [] [] [] [])"
  have reach: "engine_reach ?e" by (rule engine_reach.step [OF engine_reach.start engine_step.restore])
  have "proofs ?e ''x'' = Some (new_proof ''x'' 1 1 [] [] [] [] [] [] [])"
    by (simp add: Restore_def Engine_New_def new_proof_def Let_def scan_id_def)
  then obtain e1 where "Engine_Revoke ?e ''x'' [] = (e1, None)"
    by (simp add: Engine_Revoke_def new_proof_def Let_def)
  with Revoke_final [OF reach this engine_run.refl] show ?thesis by blast
qed

section \<open>Listing\<close>

text \<open>Cutting a list into pages of a positive length gives the list back.\<close>

lemma concat_pages:
  "0 < k \<Longrightarrow> concat (map (\<lambda>i. take k (drop (i * k) xs)) [0..<n]) = take (n * k) xs"
  by (induction n) (simp_all add: take_add [symmetric] add.commute)

lemma ListFiltered_page:
  assumes "0 < limit" "0 \<le> i"
  shows "fst (ListFiltered e ks (f\<lparr>f_Page := i + 1, f_Limit := limit\<rparr>)) =
    take (nat limit) (drop (nat i * nat limit)
      (sort_desc p_TS (filter (filter_match f) (range_values ks (proofs e)))))"
proof -
  let ?xs = "sort_desc p_TS (filter (filter_match f) (range_values ks (proofs e)))"
  have match: "filter_match (f\<lparr>f_Page := i + 1, f_Limit := limit\<rparr>) = filter_match f"
    by (simp add: fun_eq_iff filter_match_def)
  have start: "nat (i * limit) = nat i * nat limit" using assms by (simp add: nat_mult_distrib)
  have start': "i * limit = int (nat i * nat limit)" using assms by simp
  consider (past) "int (length ?xs) \<le> i * limit"
    | (last) "i * limit < int (length ?xs)" "int (length ?xs) < i * limit + limit"
    | (full) "i * limit + limit \<le> int (length ?xs)"
    by linarith
  then show ?thesis
  proof cases
    case past
    then have "length ?xs \<le> nat i * nat limit" using start by linarith
    with past assms show ?thesis by (simp add: ListFiltered_def Let_def match)
  next
    case last
    then have "length ?xs - nat i * nat limit \<le> nat limit"
      and "nat (int (length ?xs) - i * limit) = length ?xs - nat i * nat limit"
      using start' last by linarith+
    with last assms start show ?thesis by (simp add: ListFiltered_def Let_def match)
  next
    case full
    with assms start show ?thesis by (simp add: ListFiltered_def Let_def match)
  qed
qed

text \<open>
  Paging loses and repeats nothing. For a positive page size, the pages
  \<open>1, \<dots>, n\<close> of \<open>ListFiltered\<close>, put one after the other, are the first \<open>n * limit\<close> of
  the matching proofs from the newest on, and the reported total is the number of matching
  proofs.
\<close>

theorem ListFiltered_pages:
  assumes "0 < limit"
  shows "concat (map (\<lambda>i. fst (ListFiltered e ks (f\<lparr>f_Page := int i + 1, f_Limit := limit\<rparr>))) [0..<n]) =
      take (n * nat limit) (sort_desc p_TS (filter (filter_match f) (range_values ks (proofs e))))
    \<and> snd (ListFiltered e ks f) = int (length (filter (filter_match f) (range_values ks (proofs e))))"
  using assms concat_pages [of "nat limit"]
  by (simp add: ListFiltered_page) (simp add: ListFiltered_def Let_def)

theorem ListFiltered_pages_witness:
  "(0 :: int) < 2 \<and>
    concat (map (\<lambda>i. fst (ListFiltered Engine_New [] \<lparr>f_Agent = [], f_PubKey = [], f_Mode = [],
      f_Page = int i + 1, f_Limit = 2\<rparr>)) [0..<3]) = []"
  using ListFiltered_pages [of 2 Engine_New "[]" "\<lparr>f_Agent = [], f_PubKey = [], f_Mode = [], f_Page = 0, f_Limit = 0\<rparr>" 3]
  by (simp add: range_values_def sort_desc_def)

section \<open>Two limits of the engine\<close>

text \<open>
  \<open>MaxProofs\<close> does not bound the engine. While no stored proof is revoked, every
  \<open>GenerateWithKey\<close> adds one proof, however many there are already: the eviction only
  removes revoked proofs.
\<close>

theorem Generate_grows_past_MaxProofs:
  assumes "engine_reach e" "seq e < 2 ^ 63 - 1" "\<forall>p \<in> ran (proofs e). \<not> p_Revoked p"
  shows "card (dom (proofs (fst (GenerateWithKey e elapsed now agent pubKey input output model uc mode)))) =
    card (dom (proofs e)) + 1"
proof -
  obtain e' p where g: "GenerateWithKey e elapsed now agent pubKey input output model uc mode = (e', p)"
    by fastforce
  have inv: "engine_inv e" using assms(1) by (rule engine_reach_inv)
  then have pos: "0 \<le> seq e" and fin: "finite (dom (proofs e))" by (simp_all add: engine_inv_def)
  have "proofs (evictIfNeeded e) = proofs e"
    using assms(3) by (auto simp: evictIfNeeded_def ran_def fun_eq_iff split: option.splits)
  then have "dom (proofs e') = insert (p_ID p) (dom (proofs e))"
    by (subst GenerateWithKey_simps(2) [OF g pos assms(2)]) simp
  moreover have "p_ID p \<notin> dom (proofs e)"
    using reach_GenerateWithKey(1) [OF assms(1,2) g] by (simp add: domIff)
  ultimately show ?thesis using fin g by simp
qed

theorem Generate_grows_past_MaxProofs_witness:
  "card (dom (proofs (fst (GenerateWithKey Engine_New 0 7 [] [] [] [] [] [] [])))) = 1"
  using Generate_grows_past_MaxProofs [OF engine_reach.start] by (simp add: Engine_New_def)

text \<open>
  The commitment hash alone does not fix where the input ends. \<open>CommitHash\<close> hashes
  the plain concatenation, so \<open>QuickCheck\<close> and \<open>VerifyCommit\<close> accept every other split
  of the same bytes into input, output and model.
\<close>

theorem QuickCheck_split_ambiguous:
  "QuickCheck (CommitHash (a @ b) (c @ d) m) a (b @ c) (d @ m) \<and>
   VerifyCommit (CommitHash (a @ b) (c @ d) m) a (b @ c) (d @ m)"
  by (simp add: QuickCheck_def VerifyCommit_def CommitHash_def)

end
