(* ===== verification/Complexity.thy ===== *)
theory Complexity
  imports Proof_Engine
begin

text \<open>
  The cost classifier of \<^verbatim>\<open>engine/internal/prover/complexity.go\<close>. All its arithmetic is
  on 64-bit integers and is modelled with the wrap-around of \<open>wrap64\<close>; the theorems say in
  which range the estimates are exact and what happens outside it.
\<close>

section \<open>Data\<close>

datatype ComplexityClass = TRIVIAL | LOW | MEDIUM | HIGH | EXTREME

fun class_rank :: "ComplexityClass \<Rightarrow> int" where
  "class_rank TRIVIAL = 0"
| "class_rank LOW = 1"
| "class_rank MEDIUM = 2"
| "class_rank HIGH = 3"
| "class_rank EXTREME = 4"

text \<open>The constants are numbered by \<^verbatim>\<open>iota\<close>, so the classes are ordered.\<close>

instantiation ComplexityClass :: linorder
begin

definition less_eq_ComplexityClass :: "ComplexityClass \<Rightarrow> ComplexityClass \<Rightarrow> bool" where
  "less_eq_ComplexityClass a b \<longleftrightarrow> class_rank a \<le> class_rank b"

definition less_ComplexityClass :: "ComplexityClass \<Rightarrow> ComplexityClass \<Rightarrow> bool" where
  "less_ComplexityClass a b \<longleftrightarrow> class_rank a < class_rank b"

instance
proof
  fix a b :: ComplexityClass
  assume "a \<le> b" "b \<le> a"
  then show "a = b" by (cases a; cases b) (simp_all add: less_eq_ComplexityClass_def)
qed (auto simp: less_eq_ComplexityClass_def less_ComplexityClass_def)

end

record ComplexityMetrics =
  InputSize :: int
  OutputSize :: int
  ModelSize :: int
  LeafCount :: int
  TreeDepth :: int
  MerkleOps :: int
  EstGasCSPR :: int
  EstTimeMs :: int
  Class :: ComplexityClass

record ClassifierConfig =
  ThresholdTrivial :: int
  ThresholdLow :: int
  ThresholdMedium :: int
  ThresholdHigh :: int

definition baseGas :: int where "baseGas = 21000"

definition perByteGas :: int where "perByteGas = 68"

definition perMerkleOp :: int where "perMerkleOp = 2000"

definition baseTimeMs :: int where "baseTimeMs = 50"

definition perKBMs :: int where "perKBMs = 10"

definition maxBatchSize :: int where "maxBatchSize = 1024"

definition DefaultConfig :: ClassifierConfig where
  "DefaultConfig = \<lparr>ThresholdTrivial = 1024, ThresholdLow = 65536,
     ThresholdMedium = 1048576, ThresholdHigh = 16777216\<rparr>"

named_theorems cost_defs \<open>constants of the classifier\<close>

declare baseGas_def [cost_defs] perByteGas_def [cost_defs] perMerkleOp_def [cost_defs]
  baseTimeMs_def [cost_defs] perKBMs_def [cost_defs] maxBatchSize_def [cost_defs]
  DefaultConfig_def [cost_defs]

section \<open>Operations\<close>

definition class_of :: "int \<Rightarrow> ComplexityClass" where
  "class_of tot =
     (if tot \<le> ThresholdTrivial DefaultConfig then TRIVIAL
      else if tot \<le> ThresholdLow DefaultConfig then LOW
      else if tot \<le> ThresholdMedium DefaultConfig then MEDIUM
      else if tot \<le> ThresholdHigh DefaultConfig then HIGH
      else EXTREME)"

text \<open>The tree depth \<^verbatim>\<open>math.Ceil(math.Log2(3))\<close> of the three leaves is 2.\<close>

definition Classify :: "int \<Rightarrow> int \<Rightarrow> int \<Rightarrow> ComplexityMetrics" where
  "Classify inputSize outputSize modelSize =
     (let inputSize = (if inputSize < 0 then 0 else inputSize);
          outputSize = (if outputSize < 0 then 0 else outputSize);
          modelSize = (if modelSize < 0 then 0 else modelSize);
          total64 = wrap64 (wrap64 (inputSize + outputSize) + modelSize);
          leafCount = 3;
          treeDepth = 2;
          merkleOps = leafCount * 2 - 1;
          gas = wrap64 (wrap64 (baseGas + wrap64 (perByteGas * total64)) + wrap64 (perMerkleOp * merkleOps));
          gasEstimate = (if gas < 0 then 2 ^ 63 - 1 else gas);
          timeEstimate = wrap64 (baseTimeMs + wrap64 (perKBMs * (total64 sdiv 1024)))
      in \<lparr>InputSize = inputSize, OutputSize = outputSize, ModelSize = modelSize,
          LeafCount = leafCount, TreeDepth = treeDepth, MerkleOps = merkleOps,
          EstGasCSPR = gasEstimate, EstTimeMs = timeEstimate, Class = class_of total64\<rparr>)"

definition ClassifyProof :: "Proof option \<Rightarrow> ComplexityMetrics" where
  "ClassifyProof p =
     (case p of
        None \<Rightarrow> \<lparr>InputSize = 0, OutputSize = 0, ModelSize = 0, LeafCount = 0, TreeDepth = 0,
                MerkleOps = 0, EstGasCSPR = 0, EstTimeMs = 0, Class = TRIVIAL\<rparr>
      | Some p \<Rightarrow> Classify (int (length (p_IH p))) (int (length (p_OH p))) (int (length (p_MH p))))"

definition EstimateGas :: "ComplexityMetrics option \<Rightarrow> int" where
  "EstimateGas m = (case m of None \<Rightarrow> 0 | Some m \<Rightarrow> EstGasCSPR m)"

fun batch_gas_loop :: "Proof option list \<Rightarrow> int \<Rightarrow> int" where
  "batch_gas_loop [] tot = tot"
| "batch_gas_loop (p # ps) tot =
     (case p of None \<Rightarrow> batch_gas_loop ps tot
      | Some q \<Rightarrow> batch_gas_loop ps (wrap64 (tot + EstGasCSPR (ClassifyProof (Some q)))))"

definition EstimateBatchGas :: "Proof option list \<Rightarrow> int" where
  "EstimateBatchGas ps = batch_gas_loop ps 0"

fun suggest_loop :: "Proof option list \<Rightarrow> int \<Rightarrow> int \<Rightarrow> int \<Rightarrow> int" where
  "suggest_loop [] maxGas sm cnt = cnt"
| "suggest_loop (p # ps) maxGas sm cnt =
     (case p of None \<Rightarrow> suggest_loop ps maxGas sm cnt
      | Some q \<Rightarrow>
          let gas = EstGasCSPR (ClassifyProof (Some q))
          in if wrap64 (sm + gas) > maxGas then cnt
             else if cnt + 1 \<ge> maxBatchSize then cnt + 1
             else suggest_loop ps maxGas (wrap64 (sm + gas)) (cnt + 1))"

definition SuggestBatchSize :: "Proof option list \<Rightarrow> int \<Rightarrow> int" where
  "SuggestBatchSize ps maxGas = (if maxGas \<le> 0 then 0 else suggest_loop ps maxGas 0 0)"

fun dist_loop :: "Proof option list \<Rightarrow> (ComplexityClass \<rightharpoonup> int) \<Rightarrow> (ComplexityClass \<rightharpoonup> int)" where
  "dist_loop [] d = d"
| "dist_loop (p # ps) d =
     (case p of None \<Rightarrow> dist_loop ps d
      | Some q \<Rightarrow>
          let c = Class (ClassifyProof (Some q))
          in dist_loop ps (d(c \<mapsto> (case d c of None \<Rightarrow> 0 | Some n \<Rightarrow> n) + 1)))"

definition ComplexityDistribution :: "Proof option list \<Rightarrow> (ComplexityClass \<rightharpoonup> int)" where
  "ComplexityDistribution ps = dist_loop ps Map.empty"

text \<open>The default branch (a value outside the constants) has no counterpart in the datatype.\<close>

fun class_String :: "ComplexityClass \<Rightarrow> gostring" where
  "class_String TRIVIAL = ''TRIVIAL''"
| "class_String LOW = ''LOW''"
| "class_String MEDIUM = ''MEDIUM''"
| "class_String HIGH = ''HIGH''"
| "class_String EXTREME = ''EXTREME''"

section \<open>Exact range\<close>

text \<open>Up to this total the gas estimate does not overflow.\<close>

definition max_exact_total :: int where
  "max_exact_total = (2 ^ 63 - 1 - 31000) div 68"

lemma Classify_exact:
  assumes "0 \<le> i" "0 \<le> ou" "0 \<le> m" "i + ou + m \<le> max_exact_total"
  shows "EstGasCSPR (Classify i ou m) = 31000 + 68 * (i + ou + m)"
    and "EstTimeMs (Classify i ou m) = 50 + 10 * ((i + ou + m) div 1024)"
    and "Class (Classify i ou m) = class_of (i + ou + m)"
proof -
  have le: "i + ou + m \<le> 135637824071393305" using assms(4) by (simp add: max_exact_total_def)
  have t: "wrap64 (wrap64 (i + ou) + m) = i + ou + m"
    using assms(1-3) le by (simp add: wrap64_small)
  have "(i + ou + m) sdiv 1024 = (i + ou + m) div 1024"
    using assms(1-3) by (simp add: signed_divide_int_def sgn_if)
  moreover have "(i + ou + m) div 1024 \<le> 135637824071393305" "0 \<le> (i + ou + m) div 1024"
    using assms(1-3) le by linarith+
  ultimately show "EstGasCSPR (Classify i ou m) = 31000 + 68 * (i + ou + m)"
    and "EstTimeMs (Classify i ou m) = 50 + 10 * ((i + ou + m) div 1024)"
    and "Class (Classify i ou m) = class_of (i + ou + m)"
    using assms(1-3) le by (simp_all add: Classify_def Let_def t cost_defs wrap64_small)
qed

lemma class_of_mono: "a \<le> b \<Longrightarrow> class_of a \<le> class_of b"
  by (auto simp: class_of_def less_eq_ComplexityClass_def cost_defs)

section \<open>Batches\<close>

text \<open>A proof whose three hash strings are short enough for exact arithmetic in a batch.\<close>

definition small_proof :: "Proof \<Rightarrow> bool" where
  "small_proof p \<longleftrightarrow> int (length (p_IH p)) + int (length (p_OH p)) + int (length (p_MH p)) \<le> 2 ^ 32"

definition proof_gas :: "Proof \<Rightarrow> int" where
  "proof_gas p = EstGasCSPR (ClassifyProof (Some p))"

lemma proof_gas_bounds:
  assumes "small_proof p"
  shows "31000 \<le> proof_gas p" "proof_gas p \<le> 31000 + 68 * 2 ^ 32"
proof -
  have "int (length (p_IH p)) + int (length (p_OH p)) + int (length (p_MH p)) \<le> max_exact_total"
    using assms by (simp add: small_proof_def max_exact_total_def)
  then have "proof_gas p = 31000 + 68 * (int (length (p_IH p)) + int (length (p_OH p)) + int (length (p_MH p)))"
    by (simp add: proof_gas_def ClassifyProof_def Classify_exact)
  then show "31000 \<le> proof_gas p" "proof_gas p \<le> 31000 + 68 * 2 ^ 32"
    using assms by (simp_all add: small_proof_def)
qed

fun live_proofs :: "Proof option list \<Rightarrow> Proof list" where
  "live_proofs [] = []"
| "live_proofs (None # ps) = live_proofs ps"
| "live_proofs (Some p # ps) = p # live_proofs ps"

text \<open>What the loop returns, relative to the sum and the count it has reached.\<close>

lemma suggest_loop_spec:
  assumes "\<forall>p \<in> set (live_proofs ps). small_proof p" "0 \<le> sm" "sm \<le> maxGas" "0 \<le> c" "c < 1024"
    and "sm \<le> c * (31000 + 68 * 2 ^ 32)" "maxGas < 2 ^ 63"
  shows "\<exists>k. suggest_loop ps maxGas sm c = c + int k \<and> k \<le> length (live_proofs ps) \<and> c + int k \<le> 1024 \<and>
    sm + sum_list (map proof_gas (take k (live_proofs ps))) \<le> maxGas \<and>
    (k < length (live_proofs ps) \<and> c + int k < 1024 \<longrightarrow>
       sm + sum_list (map proof_gas (take (Suc k) (live_proofs ps))) > maxGas)"
  using assms
proof (induction ps arbitrary: sm c rule: live_proofs.induct)
  case (3 p ps)
  let ?g = "proof_gas p"
  have g: "31000 \<le> ?g" "?g \<le> 31000 + 68 * 2 ^ 32"
    using "3.prems"(1) proof_gas_bounds by auto
  have "c * (31000 + 68 * 2 ^ 32) \<le> 1023 * (31000 + 68 * 2 ^ 32)"
    using "3.prems"(5) by simp
  then have wrap: "wrap64 (sm + ?g) = sm + ?g"
    using "3.prems"(2,6) g by (intro wrap64_small) simp_all
  have step: "suggest_loop (Some p # ps) maxGas sm c =
      (if sm + ?g > maxGas then c else if c + 1 \<ge> 1024 then c + 1 else suggest_loop ps maxGas (sm + ?g) (c + 1))"
    using wrap by (simp add: proof_gas_def Let_def maxBatchSize_def)
  consider (over) "sm + ?g > maxGas" | (full) "sm + ?g \<le> maxGas" "c + 1 \<ge> 1024"
    | (more) "sm + ?g \<le> maxGas" "c + 1 < 1024" by linarith
  then show ?case
  proof cases
    case over
    with step "3.prems" show ?thesis by (intro exI [of _ 0]) simp
  next
    case full
    with step "3.prems" show ?thesis by (intro exI [of _ 1]) simp
  next
    case more
    have bound: "sm + ?g \<le> (c + 1) * (31000 + 68 * 2 ^ 32)"
      using "3.prems"(6) g(2) by (simp add: algebra_simps)
    have "\<forall>p \<in> set (live_proofs ps). small_proof p" "0 \<le> sm + ?g" "0 \<le> c + 1"
      using "3.prems"(1,2,4) g(1) by simp_all
    from "3.IH" [OF this(1,2) more(1) this(3) more(2) bound "3.prems"(7)] obtain k where
      k: "suggest_loop ps maxGas (sm + ?g) (c + 1) = c + 1 + int k" "k \<le> length (live_proofs ps)"
      "c + 1 + int k \<le> 1024" "sm + ?g + sum_list (map proof_gas (take k (live_proofs ps))) \<le> maxGas"
      "k < length (live_proofs ps) \<and> c + 1 + int k < 1024 \<longrightarrow>
         sm + ?g + sum_list (map proof_gas (take (Suc k) (live_proofs ps))) > maxGas" by blast
    have "suggest_loop (Some p # ps) maxGas sm c = c + int (Suc k)"
      using step more k(1) by simp
    with k(2-5) show ?thesis
      by (intro exI [of _ "Suc k"]) (simp add: add.assoc [symmetric])
  qed
qed (auto intro: exI [of _ 0])

section \<open>Properties of the classifier\<close>

text \<open>
  Exact and monotone estimates. As long as the total size is at most
  \<open>(2 ^ 63 - 31001) / 68\<close>, the gas estimate is \<open>31000 + 68 * total\<close> without overflow, and
  a component-wise larger workload has at least the gas and at least the class.
\<close>

theorem Classify_exact_monotone:
  assumes "0 \<le> i" "0 \<le> ou" "0 \<le> m" "i \<le> i'" "ou \<le> ou'" "m \<le> m'" "i' + ou' + m' \<le> max_exact_total"
  shows "EstGasCSPR (Classify i ou m) = 31000 + 68 * (i + ou + m) \<and>
    EstGasCSPR (Classify i ou m) \<le> EstGasCSPR (Classify i' ou' m') \<and>
    Class (Classify i ou m) \<le> Class (Classify i' ou' m')"
  using assms by (simp add: Classify_exact class_of_mono)

theorem Classify_exact_monotone_witness:
  "EstGasCSPR (Classify 100 20 3) = 39364 \<and> Class (Classify 100 20 3) \<le> Class (Classify 1000 2000 3)"
  using Classify_exact_monotone [of 100 20 3 1000 2000 3] by (simp add: max_exact_total_def)

text \<open>
  The overflow guard misses overflows. \<open>Classify\<close> only replaces a negative gas by
  the maximum; an input of \<open>2 ^ 62\<close> bytes wraps around to the positive estimate of an empty
  workload, and two inputs of that size wrap the total itself, which is then classed
  \<open>TRIVIAL\<close>.
\<close>

theorem Classify_overflow:
  "EstGasCSPR (Classify (2 ^ 62) 0 0) = EstGasCSPR (Classify 0 0 0) \<and>
   Class (Classify (2 ^ 62) (2 ^ 62) 0) = TRIVIAL"
  by code_simp

text \<open>
  The suggested batch fits and is maximal. For proofs whose hash strings have at most
  \<open>2 ^ 32\<close> bytes together, \<open>SuggestBatchSize\<close> returns a number \<open>k\<close> of at most 1024 non-nil
  proofs whose estimated gas stays within the limit, and unless \<open>k\<close> is 1024 or all of them
  the next proof would exceed it.
\<close>

theorem SuggestBatchSize_fits_maximal:
  assumes "\<forall>p \<in> set (live_proofs ps). small_proof p" "0 < maxGas" "maxGas < 2 ^ 63"
  shows "\<exists>k. SuggestBatchSize ps maxGas = int k \<and> k \<le> length (live_proofs ps) \<and> k \<le> 1024 \<and>
    sum_list (map proof_gas (take k (live_proofs ps))) \<le> maxGas \<and>
    (k < length (live_proofs ps) \<and> k < 1024 \<longrightarrow>
       sum_list (map proof_gas (take (Suc k) (live_proofs ps))) > maxGas)"
proof -
  obtain k where k: "suggest_loop ps maxGas 0 0 = 0 + int k" "k \<le> length (live_proofs ps)" "0 + int k \<le> 1024"
    "0 + sum_list (map proof_gas (take k (live_proofs ps))) \<le> maxGas"
    "k < length (live_proofs ps) \<and> 0 + int k < 1024 \<longrightarrow>
       0 + sum_list (map proof_gas (take (Suc k) (live_proofs ps))) > maxGas"
    using suggest_loop_spec [OF assms(1), of 0 maxGas 0] assms(2,3) by auto
  show ?thesis
  proof (intro exI [of _ k] conjI impI)
    show "SuggestBatchSize ps maxGas = int k" using k(1) assms(2) by (simp add: SuggestBatchSize_def)
    show "k \<le> length (live_proofs ps)" "k \<le> 1024" using k(2,3) by simp_all
    show "sum_list (map proof_gas (take k (live_proofs ps))) \<le> maxGas" using k(4) by simp
    assume "k < length (live_proofs ps) \<and> k < 1024"
    then show "maxGas < sum_list (map proof_gas (take (Suc k) (live_proofs ps)))" using k(5) by simp
  qed
qed

theorem SuggestBatchSize_fits_maximal_witness:
  "\<exists>k. SuggestBatchSize [None, Some (new_proof ''P-1'' 1 1 [] [] [] [] [] [] [])] 50000 = int k \<and> k \<le> 1"
proof -
  let ?p = "new_proof ''P-1'' 1 1 [] [] [] [] [] [] []"
  have "\<forall>p \<in> set (live_proofs [None, Some ?p]). small_proof p"
    by (simp add: small_proof_def new_proof_def HexHash_def Let_def)
  from SuggestBatchSize_fits_maximal [OF this, of 50000] show ?thesis by auto
qed

text \<open>
  Every generated proof is classed the same. \<open>ClassifyProof\<close> measures the
  hexadecimal hash strings of a proof, not the data it commits to, so a proof made by
  \<open>GenerateWithKey\<close> is \<open>TRIVIAL\<close> with a gas of 44056 whatever its inputs are.
\<close>

theorem ClassifyProof_constant:
  "Class (ClassifyProof (Some (new_proof pid elapsed now agent pubKey input output model uc mode))) = TRIVIAL \<and>
   EstGasCSPR (ClassifyProof (Some (new_proof pid elapsed now agent pubKey input output model uc mode))) = 44056"
  by (simp add: ClassifyProof_def new_proof_def HexHash_def Let_def Classify_exact max_exact_total_def
      class_of_def cost_defs)

end
