(* ===== verification/Merkle_Recursion.thy ===== *)
theory Merkle_Recursion
  imports Merkle_Core
begin

text \<open>
  The tagged Merkle aggregate of \<^verbatim>\<open>engine/internal/aggregator/merkle_recursion.go\<close>:
  leaves and inner nodes are hashed under different one-byte tags, a level is padded by
  duplicating its last node, and an inclusion proof carries the side of every step. The
  errors of the source are the constructors of \<open>merkle_error\<close>.
\<close>

section \<open>Data and operations\<close>

definition SchemeMerkleRecursionV1 :: gostring where
  "SchemeMerkleRecursionV1 = ''merkle-recursion-v1''"

definition merkleLeafTag :: bytes where
  "merkleLeafTag = [char_of (0 :: nat)]"

definition merkleNodeTag :: bytes where
  "merkleNodeTag = [char_of (1 :: nat)]"

record MerkleRecursionProof =
  mr_Scheme :: gostring
  mr_Count :: int
  mr_TreeHeight :: int
  mr_RootHex :: gostring

record MerkleInclusionProof =
  mi_LeafIndex :: int
  mi_LeafHex :: gostring
  mi_Path :: "gostring list"
  mi_Positions :: "bool list"

datatype merkle_error =
    EmptyLeafList
  | LeafIsEmpty nat
  | LeafIndexOutOfRange int int
  | UnsupportedScheme gostring
  | PathLengthMismatch nat int
  | PositionsLengthMismatch nat nat
  | BadLeafHex
  | BadPathHex nat
  | RootMismatch

definition leaf_hash :: "bytes \<Rightarrow> bytes" where
  "leaf_hash leaf = sha256 (merkleLeafTag @ leaf)"

definition tag_node :: "bytes \<Rightarrow> bytes \<Rightarrow> bytes" where
  "tag_node l r = sha256 (merkleNodeTag @ l @ r)"

text \<open>The loop that hashes the leaves and stops at the first empty one.\<close>

fun hash_leaves :: "nat \<Rightarrow> bytes list \<Rightarrow> merkle_error + bytes list" where
  "hash_leaves i [] = Inr []"
| "hash_leaves i (leaf # leaves) =
     (if length leaf = 0 then Inl (LeafIsEmpty i)
      else case hash_leaves (i + 1) leaves of Inl e \<Rightarrow> Inl e | Inr hs \<Rightarrow> Inr (leaf_hash leaf # hs))"

text \<open>
  One turn of the level loop: pad, then combine the nodes \<open>2 i\<close> and \<open>2 i + 1\<close>.
\<close>

definition next_level :: "bytes list \<Rightarrow> bytes list" where
  "next_level lev =
     (let lev' = (if odd (length lev) then lev @ [last lev] else lev)
      in map (\<lambda>i. tag_node (lev' ! (2 * i)) (lev' ! (2 * i + 1))) [0..<length lev' div 2])"

lemma length_next_level [simp]: "length (next_level lev) = (length lev + 1) div 2"
  by (simp add: next_level_def Let_def)

function agg_loop :: "bytes list \<Rightarrow> int \<Rightarrow> bytes list \<times> int" where
  "agg_loop lev height =
     (if length lev > 1 then agg_loop (next_level lev) (height + 1) else (lev, height))"
  by pat_completeness auto
termination
  by (relation "measure (\<lambda>(lev, height). length lev)") auto

declare agg_loop.simps [simp del]

definition AggregateMerkleRecursion :: "bytes list \<Rightarrow> merkle_error + MerkleRecursionProof" where
  "AggregateMerkleRecursion leaves =
     (if length leaves = 0 then Inl EmptyLeafList
      else case hash_leaves 0 leaves of
          Inl e \<Rightarrow> Inl e
        | Inr lev \<Rightarrow>
            let (lev', height) = agg_loop lev 0
            in Inr \<lparr>mr_Scheme = SchemeMerkleRecursionV1, mr_Count = int (length leaves),
                    mr_TreeHeight = height, mr_RootHex = hex_encode (lev' ! 0)\<rparr>)"

function incl_loop :: "bytes list \<Rightarrow> nat \<Rightarrow> gostring list \<Rightarrow> bool list \<Rightarrow> gostring list \<times> bool list" where
  "incl_loop lev cursor path positions =
     (if length lev > 1 then
        (let lev' = (if odd (length lev) then lev @ [last lev] else lev);
             isRight = (cursor mod 2 = 1);
             siblingIdx = (if isRight then cursor - 1 else cursor + 1)
         in incl_loop (next_level lev) (cursor div 2)
              (path @ [hex_encode (lev' ! siblingIdx)]) (positions @ [isRight]))
      else (path, positions))"
  by pat_completeness auto
termination
  by (relation "measure (\<lambda>(lev, cursor, path, positions). length lev)") auto

declare incl_loop.simps [simp del]

definition BuildInclusionProof :: "bytes list \<Rightarrow> int \<Rightarrow> merkle_error + MerkleInclusionProof" where
  "BuildInclusionProof leaves leafIndex =
     (if leafIndex < 0 \<or> leafIndex \<ge> int (length leaves)
      then Inl (LeafIndexOutOfRange leafIndex (int (length leaves)))
      else case hash_leaves 0 leaves of
          Inl e \<Rightarrow> Inl e
        | Inr lev \<Rightarrow>
            let leafHash = lev ! nat leafIndex;
                (path, positions) = incl_loop lev (nat leafIndex) [] []
            in Inr \<lparr>mi_LeafIndex = leafIndex, mi_LeafHex = hex_encode leafHash,
                    mi_Path = path, mi_Positions = positions\<rparr>)"

fun incl_verify_loop :: "nat \<Rightarrow> bytes \<Rightarrow> gostring list \<Rightarrow> bool list \<Rightarrow> merkle_error + bytes" where
  "incl_verify_loop i acc (sibHex # path) (right # positions) =
     (case hex_decode sibHex of
        None \<Rightarrow> Inl (BadPathHex i)
      | Some sib \<Rightarrow>
          if length sib \<noteq> 32 then Inl (BadPathHex i)
          else incl_verify_loop (i + 1) (if right then tag_node sib acc else tag_node acc sib) path positions)"
| "incl_verify_loop i acc _ _ = Inr acc"

definition VerifyMerkleInclusion ::
  "MerkleRecursionProof \<Rightarrow> MerkleInclusionProof \<Rightarrow> merkle_error + bool" where
  "VerifyMerkleInclusion agg pf =
     (if mr_Scheme agg \<noteq> SchemeMerkleRecursionV1 then Inl (UnsupportedScheme (mr_Scheme agg))
      else if mr_TreeHeight agg \<noteq> int (length (mi_Path pf))
      then Inl (PathLengthMismatch (length (mi_Path pf)) (mr_TreeHeight agg))
      else if length (mi_Path pf) \<noteq> length (mi_Positions pf)
      then Inl (PositionsLengthMismatch (length (mi_Path pf)) (length (mi_Positions pf)))
      else if mi_LeafIndex pf < 0 \<or> mi_LeafIndex pf \<ge> mr_Count agg
      then Inl (LeafIndexOutOfRange (mi_LeafIndex pf) (mr_Count agg))
      else case hex_decode (mi_LeafHex pf) of
          None \<Rightarrow> Inl BadLeafHex
        | Some leafBytes \<Rightarrow>
            if length leafBytes \<noteq> 32 then Inl BadLeafHex
            else case incl_verify_loop 0 leafBytes (mi_Path pf) (mi_Positions pf) of
                Inl e \<Rightarrow> Inl e
              | Inr acc \<Rightarrow> if hex_encode acc \<noteq> mr_RootHex agg then Inl RootMismatch else Inr True)"

section \<open>The loops compute the reference tree\<close>

interpretation tagged: merkle_scheme sha256 "\<lambda>l r. merkleNodeTag @ l @ r"
  by unfold_locales simp_all

lemma tag_node_eq: "tag_node = (\<lambda>l r. sha256 (merkleNodeTag @ l @ r))"
  by (simp add: fun_eq_iff tag_node_def)

lemma next_level_up: "next_level lev = level_up tag_node lev"
proof (rule nth_equalityI)
  show "length (next_level lev) = length (level_up tag_node lev)"
    by (simp add: length_level_up)
  fix i assume "i < length (next_level lev)"
  then have "Suc (2 * i) < length (dup_last lev)" "i < length (dup_last lev) div 2"
    by (simp_all add: length_dup_last)
  then show "next_level lev ! i = level_up tag_node lev ! i"
    by (simp add: next_level_def level_up_def dup_last_def [symmetric] nth_pair_up Let_def)
qed

lemma agg_loop_reference:
  "lev \<noteq> [] \<Longrightarrow> agg_loop lev h = ([merkle_root tag_node lev], h + int (clog (length lev)))"
proof (induction lev h rule: agg_loop.induct)
  case (1 lev h)
  show ?case
  proof (cases "length lev > 1")
    case True
    with "1" show ?thesis
      by (simp add: agg_loop.simps [of lev] next_level_up merkle_root.simps [of _ lev] clog_step length_level_up)
  next
    case False
    with "1.prems" obtain x where "lev = [x]" by (cases lev) auto
    then show ?thesis by (simp add: agg_loop.simps merkle_root.simps)
  qed
qed

text \<open>The sides of the steps from a position are the binary digits of the position.\<close>

fun sides :: "nat \<Rightarrow> nat \<Rightarrow> bool list" where
  "sides 0 i = []"
| "sides (Suc k) i = odd i # sides k (i div 2)"

fun index_of :: "bool list \<Rightarrow> nat" where
  "index_of [] = 0"
| "index_of (b # bs) = (if b then 1 else 0) + 2 * index_of bs"

lemma incl_loop_step:
  "length lev > 1 \<Longrightarrow> incl_loop lev i path positions =
    incl_loop (level_up tag_node lev) (i div 2)
      (path @ [hex_encode (dup_last lev ! sibling i)]) (positions @ [odd i])"
  by (subst incl_loop.simps)
    (simp add: next_level_up sibling_def dup_last_def even_iff_mod_2_eq_zero Let_def)

lemma incl_loop_reference:
  "incl_loop lev i path positions =
    (path @ map hex_encode (merkle_path tag_node lev i), positions @ sides (clog (length lev)) i)"
proof (induction "length lev" arbitrary: lev i path positions rule: less_induct)
  case less
  show ?case
  proof (cases "length lev > 1")
    case True
    then have "length (level_up tag_node lev) < length lev" by (simp add: length_level_up)
    from less [OF this] True show ?thesis
      by (simp add: incl_loop_step merkle_path.simps [of _ lev] clog_step length_level_up)
  next
    case False
    then show ?thesis
      by (simp add: incl_loop.simps [of lev] merkle_path.simps [of _ lev] clog.simps [of "length lev"])
  qed
qed

lemma hash_leaves_Inr: "hash_leaves i leaves = Inr hs \<Longrightarrow> hs = map leaf_hash leaves"
  by (induction i leaves arbitrary: hs rule: hash_leaves.induct) (auto split: sum.splits if_splits)

lemma hash_leaves_ok: "[] \<notin> set leaves \<Longrightarrow> hash_leaves i leaves = Inr (map leaf_hash leaves)"
  by (induction i leaves rule: hash_leaves.induct) auto

text \<open>Verification along explicit sides is the climb from the position they spell.\<close>

lemma incl_verify_climb:
  "\<forall>s \<in> set p. length s = 32 \<Longrightarrow> length bs = length p \<Longrightarrow>
   incl_verify_loop k h (map hex_encode p) bs = Inr (climb tag_node h p (index_of bs))"
proof (induction p arbitrary: k h bs)
  case (Cons s p)
  then obtain b bs' where "bs = b # bs'" by (cases bs) auto
  with Cons show ?case by (cases b) simp_all
qed simp

lemma incl_verify_InrD:
  "incl_verify_loop k h path bs = Inr r \<Longrightarrow> length bs = length path \<Longrightarrow>
   \<exists>p. map hex_decode path = map Some p \<and> (\<forall>s \<in> set p. length s = 32) \<and> r = climb tag_node h p (index_of bs)"
proof (induction path arbitrary: k h bs)
  case Nil
  then show ?case by (intro exI [of _ "[]"]) simp
next
  case (Cons sib path)
  from Cons.prems obtain b bs' s where bs: "bs = b # bs'" "length bs' = length path"
    and s: "hex_decode sib = Some s" "length s = 32"
    and rest: "incl_verify_loop (k + 1) (if b then tag_node s h else tag_node h s) path bs' = Inr r"
    by (cases bs) (auto split: option.splits if_splits)
  from Cons.IH [OF rest bs(2)] obtain p where "map hex_decode path = map Some p"
    "\<forall>s \<in> set p. length s = 32" "r = climb tag_node (if b then tag_node s h else tag_node h s) p (index_of bs')"
    by blast
  with bs s show ?case by (intro exI [of _ "s # p"]) simp
qed

lemma index_of_sides: "i < 2 ^ k \<Longrightarrow> index_of (sides k i) = i"
  by (induction k arbitrary: i) auto

lemma length_sides [simp]: "length (sides k i) = k"
  by (induction k arbitrary: i) simp_all

lemma aggregate_InrD:
  assumes "AggregateMerkleRecursion leaves = Inr agg"
  shows "leaves \<noteq> []" "hash_leaves 0 leaves = Inr (map leaf_hash leaves)"
    and "agg = \<lparr>mr_Scheme = SchemeMerkleRecursionV1, mr_Count = int (length leaves),
      mr_TreeHeight = int (clog (length leaves)),
      mr_RootHex = hex_encode (merkle_root tag_node (map leaf_hash leaves))\<rparr>"
  using assms by (auto simp: AggregateMerkleRecursion_def agg_loop_reference
      split: if_splits sum.splits dest!: hash_leaves_Inr)

lemma leaf_hash_lengths: "\<forall>x \<in> set (map leaf_hash leaves). length x = 32"
  by (simp add: leaf_hash_def)

lemma tagged_path_lengths:
  "i < length leaves \<Longrightarrow> \<forall>s \<in> set (merkle_path tag_node (map leaf_hash leaves) i). length s = 32"
  unfolding tag_node_eq by (rule tagged.merkle_path_lengths [OF leaf_hash_lengths]) simp

text \<open>Acceptance spelled out: every check of \<open>VerifyMerkleInclusion\<close> passed.\<close>

lemma VerifyMerkleInclusion_accepts_iff:
  "VerifyMerkleInclusion agg pf = Inr True \<longleftrightarrow>
    mr_Scheme agg = SchemeMerkleRecursionV1 \<and> mr_TreeHeight agg = int (length (mi_Path pf)) \<and>
    length (mi_Path pf) = length (mi_Positions pf) \<and> 0 \<le> mi_LeafIndex pf \<and> mi_LeafIndex pf < mr_Count agg \<and>
    (\<exists>h acc. hex_decode (mi_LeafHex pf) = Some h \<and> length h = 32 \<and>
      incl_verify_loop 0 h (mi_Path pf) (mi_Positions pf) = Inr acc \<and> hex_encode acc = mr_RootHex agg)"
  by (cases "hex_decode (mi_LeafHex pf)")
    (auto simp: VerifyMerkleInclusion_def split: sum.splits)

section \<open>Properties of the aggregate\<close>

lemma inclusion_complete:
  assumes "AggregateMerkleRecursion leaves = Inr agg" "0 \<le> i" "i < int (length leaves)"
  shows "\<exists>pf. BuildInclusionProof leaves i = Inr pf \<and> VerifyMerkleInclusion agg pf = Inr True \<and>
    length (mi_Path pf) = clog (length leaves)"
proof -
  obtain n where n: "i = int n" "n < length leaves"
    using assms by (metis nonneg_int_cases of_nat_less_iff)
  note agg = aggregate_InrD [OF assms(1)]
  let ?hs = "map leaf_hash leaves" and ?k = "clog (length leaves)"
  let ?pf = "\<lparr>mi_LeafIndex = i, mi_LeafHex = hex_encode (?hs ! n),
    mi_Path = map hex_encode (merkle_path tag_node ?hs n), mi_Positions = sides ?k n\<rparr>"
  have build: "BuildInclusionProof leaves i = Inr ?pf"
    using n agg(2) by (simp add: BuildInclusionProof_def incl_loop_reference Let_def)
  have "n < 2 ^ ?k" using n(2) clog_le_iff [of "length leaves" ?k] by simp
  then have "incl_verify_loop 0 (?hs ! n) (map hex_encode (merkle_path tag_node ?hs n)) (sides ?k n) =
      Inr (merkle_root tag_node ?hs)"
    using n tagged_path_lengths [OF n(2)] climb_merkle_path [of n ?hs tag_node]
    by (simp add: incl_verify_climb length_merkle_path_clog index_of_sides)
  with n have "VerifyMerkleInclusion agg ?pf = Inr True"
    by (simp add: VerifyMerkleInclusion_def agg(3) length_merkle_path_clog leaf_hash_def)
  with build show ?thesis by (intro exI [of _ ?pf]) (simp add: length_merkle_path_clog)
qed

text \<open>
  Inclusion proofs of an aggregate verify, and their length is logarithmic. When
  \<open>AggregateMerkleRecursion\<close> accepts a leaf list, \<open>BuildInclusionProof\<close> succeeds for every
  position of it, \<open>VerifyMerkleInclusion\<close> accepts the proof against the aggregate, and
  the path has exactly the least \<open>k\<close> entries with \<open>count \<le> 2 ^ k\<close>.
\<close>

theorem inclusion_proof_verifies:
  assumes "AggregateMerkleRecursion leaves = Inr agg" "0 \<le> i" "i < int (length leaves)"
  shows "\<exists>pf. BuildInclusionProof leaves i = Inr pf \<and> VerifyMerkleInclusion agg pf = Inr True \<and>
    (\<forall>k. length (mi_Path pf) \<le> k \<longleftrightarrow> length leaves \<le> 2 ^ k)"
  using inclusion_complete [OF assms] by (auto simp: clog_le_iff)

theorem inclusion_proof_verifies_witness:
  "\<exists>agg pf. AggregateMerkleRecursion [''a'', ''b'', ''c''] = Inr agg \<and>
    BuildInclusionProof [''a'', ''b'', ''c''] 2 = Inr pf \<and> VerifyMerkleInclusion agg pf = Inr True"
proof -
  obtain agg where "AggregateMerkleRecursion [''a'', ''b'', ''c''] = Inr agg"
    by (simp add: AggregateMerkleRecursion_def hash_leaves_ok case_prod_beta Let_def)
  with inclusion_proof_verifies [OF this, of 2] show ?thesis by auto
qed

text \<open>The inputs hashed by \<open>VerifyMerkleInclusion\<close>, from a leaf hash, siblings and sides.\<close>

definition incl_inputs :: "bytes \<Rightarrow> bytes list \<Rightarrow> nat \<Rightarrow> bytes list" where
  "incl_inputs h p i = climb_inputs sha256 (\<lambda>l r. merkleNodeTag @ l @ r) h p i"

text \<open>
  An accepted inclusion proof binds the leaf to the position its sides spell. If
  \<open>VerifyMerkleInclusion\<close> accepts a proof against the aggregate of a leaf list and the
  sides spell a position of the list, the proved leaf hash is the tagged hash of the leaf
  there, or two different inputs hashed along the given and the genuine path collide.
\<close>

theorem inclusion_binding:
  assumes "AggregateMerkleRecursion leaves = Inr agg" "VerifyMerkleInclusion agg pf = Inr True"
    and "index_of (mi_Positions pf) < length leaves"
  shows "\<exists>h p. hex_decode (mi_LeafHex pf) = Some h \<and> map hex_decode (mi_Path pf) = map Some p \<and>
    (h = leaf_hash (leaves ! index_of (mi_Positions pf)) \<or>
     collision sha256 (incl_inputs h p (index_of (mi_Positions pf)))
       (incl_inputs (leaf_hash (leaves ! index_of (mi_Positions pf)))
         (merkle_path tag_node (map leaf_hash leaves) (index_of (mi_Positions pf)))
         (index_of (mi_Positions pf))))"
proof -
  note agg = aggregate_InrD [OF assms(1)]
  let ?i = "index_of (mi_Positions pf)" and ?hs = "map leaf_hash leaves"
  have len: "length (mi_Positions pf) = length (mi_Path pf)" "length (mi_Path pf) = clog (length leaves)"
    using assms(2) unfolding VerifyMerkleInclusion_accepts_iff by (simp_all add: agg(3))
  obtain h acc where h: "hex_decode (mi_LeafHex pf) = Some h" "length h = 32"
    and loop: "incl_verify_loop 0 h (mi_Path pf) (mi_Positions pf) = Inr acc"
    and acc: "hex_encode acc = hex_encode (merkle_root tag_node ?hs)"
    using assms(2) unfolding VerifyMerkleInclusion_accepts_iff agg(3) by auto
  from incl_verify_InrD [OF loop len(1)] obtain p where p: "map hex_decode (mi_Path pf) = map Some p"
    "\<forall>s \<in> set p. length s = 32" "acc = climb tag_node h p ?i" by blast
  have climb: "climb tag_node h p ?i = merkle_root tag_node ?hs"
    using acc p(3) by (metis hex_decode_encode option.inject)
  have "length p = length (mi_Path pf)" using p(1) by (metis length_map)
  with len have lp: "length p = length (merkle_path tag_node ?hs ?i)" by (simp add: length_merkle_path_clog)
  have "h = ?hs ! ?i \<or> collision sha256 (incl_inputs h p ?i) (incl_inputs (?hs ! ?i) (merkle_path tag_node ?hs ?i) ?i)"
    using tagged.path_binding [of ?i ?hs h p] assms(3) leaf_hash_lengths [of leaves] h(2) p(2) lp climb
      tagged_path_lengths [OF assms(3)]
    unfolding tag_node_eq [symmetric] incl_inputs_def by (simp only: length_map)
  with h(1) p(1) assms(3) show ?thesis by (intro exI [of _ h] exI [of _ p]) simp
qed

theorem inclusion_binding_witness:
  "\<exists>h. hex_decode (hex_encode (leaf_hash ''b'')) = Some h"
proof -
  obtain agg where agg: "AggregateMerkleRecursion [''a'', ''b''] = Inr agg"
    by (simp add: AggregateMerkleRecursion_def hash_leaves_ok case_prod_beta Let_def)
  obtain pf where pf: "BuildInclusionProof [''a'', ''b''] 1 = Inr pf" "VerifyMerkleInclusion agg pf = Inr True"
    using inclusion_complete [OF agg, of 1] by auto
  have "mi_LeafHex pf = hex_encode (leaf_hash ''b'')" "mi_Positions pf = [True]"
    using pf(1) by (auto simp: BuildInclusionProof_def hash_leaves_ok incl_loop_reference clog_step Let_def)
  with inclusion_binding [OF agg pf(2)] show ?thesis by auto
qed

text \<open>
  The leaf index is not checked. \<open>VerifyMerkleInclusion\<close> compares \<open>LeafIndex\<close> with
  the count only: an accepted proof stays accepted when its index is replaced by any other
  position, so acceptance does not show that the leaf is at \<open>LeafIndex\<close>.
\<close>

theorem inclusion_ignores_leaf_index:
  assumes "VerifyMerkleInclusion agg pf = Inr True" "0 \<le> j" "j < mr_Count agg"
  shows "VerifyMerkleInclusion agg (pf\<lparr>mi_LeafIndex := j\<rparr>) = Inr True"
  using assms unfolding VerifyMerkleInclusion_accepts_iff by simp

theorem inclusion_ignores_leaf_index_witness:
  "\<exists>agg pf. BuildInclusionProof [''a'', ''b''] 0 = Inr pf \<and>
    AggregateMerkleRecursion [''a'', ''b''] = Inr agg \<and>
    VerifyMerkleInclusion agg (pf\<lparr>mi_LeafIndex := 1\<rparr>) = Inr True"
proof -
  obtain agg where agg: "AggregateMerkleRecursion [''a'', ''b''] = Inr agg" "mr_Count agg = 2"
    by (simp add: AggregateMerkleRecursion_def hash_leaves_ok case_prod_beta Let_def)
  obtain pf where pf: "BuildInclusionProof [''a'', ''b''] 0 = Inr pf" "VerifyMerkleInclusion agg pf = Inr True"
    using inclusion_complete [OF agg(1), of 0] by auto
  from inclusion_ignores_leaf_index [OF pf(2), of 1] agg pf show ?thesis by auto
qed

end
