(* ===== verification/Hash_Fold.thy ===== *)
theory Hash_Fold
  imports Merkle_Core
begin

text \<open>
  The hash-chain folder of \<open>aggregator/nova.go\<close>: the \<open>Folder\<close> interface (a locale), its
  implementation \<open>HashFolder\<close> and the stateless wrappers \<open>FoldAll\<close> and \<open>VerifyAll\<close>. The Go
  methods that mutate the receiver return it here. The lemmas show that a folded batch
  verifies, that the root of an accepted aggregate binds the bytes of every step up to a
  SHA-256 collision, and that the boundary between instance and witness digest is not bound.
\<close>

section \<open>The folder\<close>

record FoldStep =
  Instance :: bytes
  WitnessDigest :: bytes

record AggregateProof =
  ap_Scheme :: gostring
  ap_Steps :: int
  ap_Root :: gostring
  ap_StepHashes :: "gostring list"

record HashFolder =
  hf_acc :: bytes
  hf_stepHashes :: "gostring list"
  hf_initted :: bool

datatype fold_error =
    NotInitialised
  | EmptyInstance
  | NoStepsFolded
  | FoldUnsupportedScheme gostring
  | StepCountMismatch int int
  | StepHashesLength int int
  | StepEmptyInstance nat
  | StepHashMismatch nat
  | FoldRootMismatch
  | FoldStepError nat fold_error

definition SchemeHashFoldV1 :: gostring where
  "SchemeHashFoldV1 = ''hash-fold-v1''"

definition NewHashFolder :: HashFolder where
  "NewHashFolder = \<lparr>hf_acc = sha256 SchemeHashFoldV1, hf_stepHashes = [], hf_initted = True\<rparr>"

definition step_bytes :: "FoldStep \<Rightarrow> bytes" where
  "step_bytes step = Instance step @ WitnessDigest step"

definition Fold :: "HashFolder \<Rightarrow> FoldStep \<Rightarrow> fold_error + HashFolder" where
  "Fold f step =
     (if \<not> hf_initted f then Inl NotInitialised
      else if length (Instance step) = 0 then Inl EmptyInstance
      else let stepH = sha256 (step_bytes step)
           in Inr (f\<lparr>hf_acc := sha256 (hf_acc f @ stepH),
                     hf_stepHashes := hf_stepHashes f @ [hex_encode stepH]\<rparr>))"

definition Compress :: "HashFolder \<Rightarrow> fold_error + AggregateProof" where
  "Compress f =
     (if \<not> hf_initted f then Inl NotInitialised
      else if length (hf_stepHashes f) = 0 then Inl NoStepsFolded
      else Inr \<lparr>ap_Scheme = SchemeHashFoldV1, ap_Steps = int (length (hf_stepHashes f)),
                ap_Root = hex_encode (hf_acc f), ap_StepHashes = hf_stepHashes f\<rparr>)"

fun replay :: "nat \<Rightarrow> bytes \<Rightarrow> FoldStep list \<Rightarrow> gostring list \<Rightarrow> fold_error + bytes" where
  "replay i acc (step # steps) (h # hs) =
     (if length (Instance step) = 0 then Inl (StepEmptyInstance i)
      else let stepH = sha256 (step_bytes step)
           in if hex_encode stepH \<noteq> h then Inl (StepHashMismatch i)
              else replay (i + 1) (sha256 (acc @ stepH)) steps hs)"
| "replay i acc _ _ = Inr acc"

definition Folder_Verify :: "HashFolder \<Rightarrow> FoldStep list \<Rightarrow> AggregateProof \<Rightarrow> fold_error + bool" where
  "Folder_Verify f steps agg =
     (if ap_Scheme agg \<noteq> SchemeHashFoldV1 then Inl (FoldUnsupportedScheme (ap_Scheme agg))
      else if ap_Steps agg \<noteq> int (length steps)
      then Inl (StepCountMismatch (int (length steps)) (ap_Steps agg))
      else if length (ap_StepHashes agg) \<noteq> length steps
      then Inl (StepHashesLength (int (length (ap_StepHashes agg))) (int (length steps)))
      else case replay 0 (sha256 SchemeHashFoldV1) steps (ap_StepHashes agg) of
          Inl e \<Rightarrow> Inl e
        | Inr acc \<Rightarrow> if hex_encode acc \<noteq> ap_Root agg then Inl FoldRootMismatch else Inr True)"

text \<open>The loop of \<open>FoldAll\<close>, for any folder: the first error carries its index.\<close>

fun fold_steps :: "('st \<Rightarrow> 's \<Rightarrow> 'e + 'st) \<Rightarrow> nat \<Rightarrow> 'st \<Rightarrow> 's list \<Rightarrow> (nat \<times> 'e) + 'st" where
  "fold_steps fd i st [] = Inr st"
| "fold_steps fd i st (s # ss) =
     (case fd st s of Inl e \<Rightarrow> Inl (i, e) | Inr st' \<Rightarrow> fold_steps fd (i + 1) st' ss)"

definition FoldAll :: "FoldStep list \<Rightarrow> fold_error + AggregateProof" where
  "FoldAll steps =
     (case fold_steps Fold 0 NewHashFolder steps of
        Inl (i, e) \<Rightarrow> Inl (FoldStepError i e)
      | Inr f \<Rightarrow> Compress f)"

definition VerifyAll :: "FoldStep list \<Rightarrow> AggregateProof \<Rightarrow> fold_error + bool" where
  "VerifyAll steps agg = Folder_Verify NewHashFolder steps agg"

section \<open>The contract of the Folder interface\<close>

text \<open>
  A folder state stands for the sequence of steps folded into it; \<open>verify\<close> accepts what
  \<open>compress\<close> makes of a state against the steps the state stands for, and nothing else but
  what the steps' commitments (\<open>commit\<close>) determine.
\<close>

locale folder =
  fixes new :: 'st and fold_step :: "'st \<Rightarrow> 's \<Rightarrow> 'e + 'st"
    and compress :: "'st \<Rightarrow> 'e + 'agg" and verify :: "'st \<Rightarrow> 's list \<Rightarrow> 'agg \<Rightarrow> 'e + bool"
    and stands_for :: "'st \<Rightarrow> 's list \<Rightarrow> bool" and ok :: "'s \<Rightarrow> bool"
  assumes stands_new: "stands_for new []"
    and step_ok: "stands_for st ss \<Longrightarrow> ok s \<Longrightarrow> \<exists>st'. fold_step st s = Inr st'"
    and step_stands: "stands_for st ss \<Longrightarrow> fold_step st s = Inr st' \<Longrightarrow> ok s \<and> stands_for st' (ss @ [s])"
    and compress_ok: "stands_for st ss \<Longrightarrow> ss \<noteq> [] \<Longrightarrow> \<exists>agg. compress st = Inr agg"
    and compress_verifies: "stands_for st ss \<Longrightarrow> compress st = Inr agg \<Longrightarrow> verify new ss agg = Inr True"
begin

lemma fold_steps_stands:
  "stands_for st ss \<Longrightarrow> fold_steps fold_step i st ts = Inr st' \<Longrightarrow> stands_for st' (ss @ ts)"
proof (induction ts arbitrary: i st ss)
  case (Cons t ts)
  then obtain st1 where "fold_step st t = Inr st1" "fold_steps fold_step (i + 1) st1 ts = Inr st'"
    by (auto split: sum.splits)
  with Cons.IH [of st1 "ss @ [t]"] step_stands [OF Cons.prems(1)] show ?case by simp
qed simp

lemma fold_steps_ok:
  "stands_for st ss \<Longrightarrow> \<forall>t \<in> set ts. ok t \<Longrightarrow> \<exists>st'. fold_steps fold_step i st ts = Inr st'"
proof (induction ts arbitrary: i st ss)
  case (Cons t ts)
  then obtain st1 where "fold_step st t = Inr st1" using step_ok by (meson list.set_intros(1))
  with Cons.IH [of st1 "ss @ [t]"] step_stands [OF Cons.prems(1)] Cons.prems(2) show ?case by simp
qed simp

text \<open>The first step that is not acceptable stops the fold, and its index is reported.\<close>

lemma fold_steps_error:
  "stands_for st ss \<Longrightarrow> \<forall>t \<in> set ts. ok t \<Longrightarrow> \<not> ok u \<Longrightarrow>
   \<exists>e. fold_steps fold_step i st (ts @ u # us) = Inl (i + length ts, e)"
proof (induction ts arbitrary: i st ss)
  case Nil
  have "\<not> (\<exists>st'. fold_step st u = Inr st')" using step_stands Nil by blast
  then obtain e where "fold_step st u = Inl e" by (cases "fold_step st u") auto
  then show ?case by simp
next
  case (Cons t ts)
  then obtain st1 where "fold_step st t = Inr st1" using step_ok by (meson list.set_intros(1))
  with Cons.IH [of st1 "ss @ [t]" "i + 1"] step_stands [OF Cons.prems(1)] Cons.prems(2,3)
  show ?case by auto
qed

lemma fold_all_verifies:
  assumes "ts \<noteq> []" "\<forall>t \<in> set ts. ok t"
  shows "\<exists>st agg. fold_steps fold_step 0 new ts = Inr st \<and> compress st = Inr agg \<and>
    verify new ts agg = Inr True"
proof -
  from fold_steps_ok [OF stands_new assms(2)] obtain st where st: "fold_steps fold_step 0 new ts = Inr st" by blast
  with fold_steps_stands [OF stands_new] have "stands_for st ts" by fastforce
  with st assms(1) compress_ok compress_verifies show ?thesis by blast
qed

end

section \<open>HashFolder implements the contract\<close>

text \<open>The accumulator and the step hashes as functions of the folded sequence.\<close>

definition acc_of :: "bytes \<Rightarrow> FoldStep list \<Rightarrow> bytes" where
  "acc_of a steps = foldl (\<lambda>acc s. sha256 (acc @ sha256 (step_bytes s))) a steps"

lemma acc_of_simps [simp]:
  "acc_of a [] = a" "acc_of a (s # ss) = acc_of (sha256 (a @ sha256 (step_bytes s))) ss"
  "acc_of a (ss @ [s]) = sha256 (acc_of a ss @ sha256 (step_bytes s))"
  by (simp_all add: acc_of_def)

definition step_hashes :: "FoldStep list \<Rightarrow> gostring list" where
  "step_hashes steps = map (\<lambda>s. hex_encode (sha256 (step_bytes s))) steps"

definition hash_folder_of :: "HashFolder \<Rightarrow> FoldStep list \<Rightarrow> bool" where
  "hash_folder_of f steps \<longleftrightarrow>
     f = \<lparr>hf_acc = acc_of (sha256 SchemeHashFoldV1) steps, hf_stepHashes = step_hashes steps, hf_initted = True\<rparr> \<and>
     (\<forall>s \<in> set steps. Instance s \<noteq> [])"

lemma replay_iff:
  "length hs = length steps \<Longrightarrow>
   replay i a steps hs = Inr acc \<longleftrightarrow>
     (\<forall>s \<in> set steps. Instance s \<noteq> []) \<and> hs = step_hashes steps \<and> acc = acc_of a steps"
proof (induction steps arbitrary: i a hs)
  case (Cons s steps)
  then obtain h hs' where "hs = h # hs'" by (cases hs) auto
  with Cons show ?case by (auto simp: step_hashes_def Let_def)
qed (auto simp: step_hashes_def)

lemma VerifyAll_iff:
  "VerifyAll steps agg = Inr True \<longleftrightarrow>
     agg = \<lparr>ap_Scheme = SchemeHashFoldV1, ap_Steps = int (length steps),
       ap_Root = hex_encode (acc_of (sha256 SchemeHashFoldV1) steps), ap_StepHashes = step_hashes steps\<rparr> \<and>
     (\<forall>s \<in> set steps. Instance s \<noteq> [])" (is "?L \<longleftrightarrow> ?R")
proof (cases "length (ap_StepHashes agg) = length steps")
  case True
  then have "?L \<longleftrightarrow> ap_Scheme agg = SchemeHashFoldV1 \<and> ap_Steps agg = int (length steps) \<and>
      (\<exists>acc. replay 0 (sha256 SchemeHashFoldV1) steps (ap_StepHashes agg) = Inr acc \<and> hex_encode acc = ap_Root agg)"
    by (auto simp: VerifyAll_def Folder_Verify_def split: sum.splits)
  also have "\<dots> \<longleftrightarrow> ?R" unfolding replay_iff [OF True] by (cases agg) auto
  finally show ?thesis .
next
  case False
  then show ?thesis by (auto simp: VerifyAll_def Folder_Verify_def step_hashes_def)
qed

interpretation hash_folder: folder NewHashFolder Fold Compress Folder_Verify hash_folder_of
  "\<lambda>s. Instance s \<noteq> []"
proof unfold_locales
  show "hash_folder_of NewHashFolder []"
    by (simp add: hash_folder_of_def NewHashFolder_def step_hashes_def)
  fix st ss agg assume st: "hash_folder_of st ss"
  show "Instance s \<noteq> [] \<Longrightarrow> \<exists>st'. Fold st s = Inr st'" for s
    using st by (simp add: hash_folder_of_def Fold_def Let_def)
  show "Fold st s = Inr st' \<Longrightarrow> Instance s \<noteq> [] \<and> hash_folder_of st' (ss @ [s])" for s st'
    using st by (auto simp: hash_folder_of_def Fold_def Let_def step_hashes_def split: if_splits)
  show "ss \<noteq> [] \<Longrightarrow> \<exists>agg. Compress st = Inr agg"
    using st by (simp add: hash_folder_of_def Compress_def step_hashes_def)
  assume "Compress st = Inr agg"
  with st have "VerifyAll ss agg = Inr True"
    unfolding VerifyAll_iff by (auto simp: hash_folder_of_def Compress_def step_hashes_def split: if_splits)
  then show "Folder_Verify NewHashFolder ss agg = Inr True" by (simp add: VerifyAll_def)
qed

lemma VerifyAll_complete:
  assumes "steps \<noteq> []" "\<forall>s \<in> set steps. Instance s \<noteq> []"
  shows "\<exists>agg. FoldAll steps = Inr agg \<and> VerifyAll steps agg = Inr True"
  using hash_folder.fold_all_verifies [OF assms] by (auto simp: FoldAll_def VerifyAll_def)

section \<open>Properties of the folder\<close>

text \<open>
  \<open>FoldAll\<close> accepts exactly the non-empty batches of steps with non-empty instances,
  and what it emits is the one aggregate that \<open>VerifyAll\<close> accepts against these steps: a
  change of its scheme, count, root or of any step hash is rejected.
\<close>

theorem FoldAll_iff_VerifyAll:
  "FoldAll steps = Inr agg \<longleftrightarrow> steps \<noteq> [] \<and> VerifyAll steps agg = Inr True"
proof -
  have *: "(\<exists>agg. FoldAll steps = Inr agg) \<longleftrightarrow> steps \<noteq> [] \<and> (\<forall>s \<in> set steps. Instance s \<noteq> [])"
  proof
    assume "\<exists>agg. FoldAll steps = Inr agg"
    then obtain agg f where "fold_steps Fold 0 NewHashFolder steps = Inr f" "Compress f = Inr agg"
      by (auto simp: FoldAll_def split: sum.splits)
    with hash_folder.fold_steps_stands [OF hash_folder.stands_new, of 0 steps f]
    show "steps \<noteq> [] \<and> (\<forall>s \<in> set steps. Instance s \<noteq> [])"
      by (auto simp: hash_folder_of_def Compress_def step_hashes_def)
  qed (use VerifyAll_complete in blast)
  show ?thesis
    using * VerifyAll_complete [of steps] by (metis VerifyAll_iff sum.inject(2))
qed

text \<open>Everything that is hashed while a batch is folded.\<close>

fun chain_inputs :: "bytes \<Rightarrow> FoldStep list \<Rightarrow> bytes list" where
  "chain_inputs a [] = []"
| "chain_inputs a (s # ss) =
     step_bytes s # (a @ sha256 (step_bytes s)) # chain_inputs (sha256 (a @ sha256 (step_bytes s))) ss"

definition fold_inputs :: "FoldStep list \<Rightarrow> bytes list" where
  "fold_inputs steps = SchemeHashFoldV1 # chain_inputs (sha256 SchemeHashFoldV1) steps"

lemma set_chain_inputs_snoc [simp]:
  "set (chain_inputs a (ss @ [s])) =
   set (chain_inputs a ss) \<union> {step_bytes s, acc_of a ss @ sha256 (step_bytes s)}"
  by (induction ss arbitrary: a) auto

lemma length_acc_of [simp]: "length (acc_of (sha256 x) ss) = 32"
  by (induction ss arbitrary: x) simp_all

lemma acc_of_binding:
  "acc_of (sha256 SchemeHashFoldV1) ss = acc_of (sha256 SchemeHashFoldV1) ts \<Longrightarrow>
   map step_bytes ss = map step_bytes ts \<or> collides sha256 (fold_inputs ss) (fold_inputs ts)"
proof (induction ss arbitrary: ts rule: rev_induct)
  case Nil
  show ?case
  proof (cases ts rule: rev_cases)
    case (snoc us u)
    have "SchemeHashFoldV1 \<noteq> acc_of (sha256 SchemeHashFoldV1) us @ sha256 (step_bytes u)"
      by (rule notI, drule arg_cong [of _ _ length]) (simp add: SchemeHashFoldV1_def)
    with Nil snoc show ?thesis by (auto simp: collides_iff fold_inputs_def)
  qed simp
next
  case (snoc s ss)
  let ?a = "acc_of (sha256 SchemeHashFoldV1)"
  show ?case
  proof (cases ts rule: rev_cases)
    case Nil
    have "?a ss @ sha256 (step_bytes s) \<noteq> SchemeHashFoldV1"
      by (rule notI, drule arg_cong [of _ _ length]) (simp add: SchemeHashFoldV1_def)
    with Nil snoc.prems show ?thesis by (auto simp: collides_iff fold_inputs_def)
  next
    case (snoc us u)
    show ?thesis
    proof (cases "?a ss @ sha256 (step_bytes s) = ?a us @ sha256 (step_bytes u)")
      case True
      then have "?a ss = ?a us" "sha256 (step_bytes s) = sha256 (step_bytes u)" by simp_all
      with snoc.IH [of us] snoc show ?thesis by (auto simp: collides_iff fold_inputs_def)
    next
      case False
      with snoc snoc.prems show ?thesis by (auto simp: collides_iff fold_inputs_def)
    qed
  qed
qed

text \<open>
  The root alone binds the batch. If two aggregates with the same root are accepted,
  each against its own steps, then the two batches have the same length and the same step
  bytes in the same order, or two different inputs hashed while folding them collide.
\<close>

theorem fold_root_binding:
  assumes "VerifyAll steps agg = Inr True" "VerifyAll steps' agg' = Inr True"
    and "ap_Root agg = ap_Root agg'"
  shows "map step_bytes steps = map step_bytes steps' \<or>
    collides sha256 (fold_inputs steps) (fold_inputs steps')"
proof (rule acc_of_binding)
  show "acc_of (sha256 SchemeHashFoldV1) steps = acc_of (sha256 SchemeHashFoldV1) steps'"
    using assms unfolding VerifyAll_iff by (metis AggregateProof.select_convs(3) hex_decode_encode option.inject)
qed

theorem fold_root_binding_witness:
  "\<exists>agg. VerifyAll [\<lparr>Instance = ''a'', WitnessDigest = ''w''\<rparr>] agg = Inr True \<and>
    (map step_bytes [\<lparr>Instance = ''a'', WitnessDigest = ''w''\<rparr>] =
     map step_bytes [\<lparr>Instance = ''aw'', WitnessDigest = ''''\<rparr>] \<or>
     collides sha256 (fold_inputs [\<lparr>Instance = ''a'', WitnessDigest = ''w''\<rparr>])
       (fold_inputs [\<lparr>Instance = ''aw'', WitnessDigest = ''''\<rparr>]))"
proof -
  obtain agg where a: "VerifyAll [\<lparr>Instance = ''a'', WitnessDigest = ''w''\<rparr>] agg = Inr True"
    using VerifyAll_complete [of "[\<lparr>Instance = ''a'', WitnessDigest = ''w''\<rparr>]"] by auto
  then have "VerifyAll [\<lparr>Instance = ''aw'', WitnessDigest = ''''\<rparr>] agg = Inr True"
    unfolding VerifyAll_iff by (simp add: step_hashes_def step_bytes_def)
  with a fold_root_binding [OF a this] show ?thesis by blast
qed

text \<open>
  The boundary between instance and witness digest is not bound. Moving bytes from the
  front of a step's witness digest to the end of its instance changes neither the
  aggregate nor the verdict of \<open>VerifyAll\<close>; the file's comment promises separate hashes of
  the two parts, which would tell the batches apart.
\<close>

theorem fold_boundary_ambiguous:
  "VerifyAll (pre @ \<lparr>Instance = x # a, WitnessDigest = b @ c\<rparr> # post) agg = Inr True \<longleftrightarrow>
   VerifyAll (pre @ \<lparr>Instance = x # a @ b, WitnessDigest = c\<rparr> # post) agg = Inr True"
  unfolding VerifyAll_iff by (simp add: step_hashes_def acc_of_def step_bytes_def)

end
