(* ===== verification/Proof_Dag.thy ===== *)
theory Proof_Dag
  imports Go_Prelude
begin

text \<open>
  Validation of proof chains, \<open>pkg/phase2/proof_chain.go\<close> and \<open>pkg/phase2/proof_dag.go\<close>, and
  the software attestor of \<open>pkg/phase2/hw_attestation.go\<close>. The closure \<open>dfs\<close> of the source
  shares \<open>visited\<close>, \<open>inStack\<close> and \<open>hasCycle\<close> with its caller; they are a record passed
  through the calls. Its recursion is bounded by fuel, one unit per nested call; a chain of
  \<open>n\<close> steps gets \<open>n\<close> units, and it is shown below that they never run out. The two slice
  expressions \<open>[:8]\<close> of the mismatch message panic on a shorter string and are a branch of
  their own.
\<close>

section \<open>Chains and their validation\<close>

datatype ChainStatus = ChainPending | ChainPartiallyVerified | ChainFullyVerified | ChainFailed | ChainBroken

record ChainStep =
  cs_ProofID :: gostring
  cs_ParentIDs :: "gostring list"
  cs_ModelHash :: gostring
  cs_InputHash :: gostring
  cs_OutputHash :: gostring
  cs_StepIndex :: int
  cs_Verified :: bool

record ProofChain =
  pc_ID :: gostring
  pc_RootProofID :: gostring
  pc_Depth :: int
  pc_TotalSteps :: int
  pc_Status :: ChainStatus
  pc_Steps :: "ChainStep list"
  pc_CreatedAt :: int

datatype dag_error =
    EmptyChain
  | RootCount nat
  | UnknownParent gostring gostring
  | InputMismatch int gostring gostring
  | SlicePanic
  | NilDeref
  | OutOfFuel
  | CycleDetected

type_synonym step_index = "gostring \<rightharpoonup> ChainStep"

text \<open>The map \<open>index\<close>: a later step with the same id replaces an earlier one.\<close>

fun build_index :: "step_index \<Rightarrow> ChainStep list \<Rightarrow> step_index" where
  "build_index m [] = m"
| "build_index m (s # ss) = build_index (m(cs_ProofID s \<mapsto> s)) ss"

definition count_roots :: "ChainStep list \<Rightarrow> nat" where
  "count_roots steps = length (filter (\<lambda>s. length (cs_ParentIDs s) = 0) steps)"

fun check_parents :: "step_index \<Rightarrow> ChainStep \<Rightarrow> gostring list \<Rightarrow> dag_error + unit" where
  "check_parents idx step [] = Inr ()"
| "check_parents idx step (pid # pids) =
     (case idx pid of
        None \<Rightarrow> Inl (UnknownParent (cs_ProofID step) pid)
      | Some parent \<Rightarrow>
          if cs_InputHash step \<noteq> cs_OutputHash parent then
            (if length (cs_InputHash step) < 8 \<or> length (cs_OutputHash parent) < 8 then Inl SlicePanic
             else Inl (InputMismatch (cs_StepIndex step) (take 8 (cs_InputHash step)) (take 8 (cs_OutputHash parent))))
          else check_parents idx step pids)"

fun check_links :: "step_index \<Rightarrow> ChainStep list \<Rightarrow> dag_error + unit" where
  "check_links idx [] = Inr ()"
| "check_links idx (step # steps) =
     (case check_parents idx step (cs_ParentIDs step) of
        Inl e \<Rightarrow> Inl e
      | Inr _ \<Rightarrow> check_links idx steps)"

record dfs_state =
  visited :: "gostring \<Rightarrow> bool"
  inStack :: "gostring \<Rightarrow> bool"
  hasCycle :: bool

text \<open>
  \<open>dfs_parents\<close> is the loop over the parents inside \<open>dfs\<close>; its flag says that the loop
  returned from \<open>dfs\<close> (a parent was on the stack), so that \<open>inStack[id]\<close> is not cleared.
\<close>

fun dfs :: "nat \<Rightarrow> step_index \<Rightarrow> gostring \<Rightarrow> dfs_state \<Rightarrow> dag_error + dfs_state"
  and dfs_parents :: "nat \<Rightarrow> step_index \<Rightarrow> gostring list \<Rightarrow> dfs_state \<Rightarrow> dag_error + bool \<times> dfs_state" where
  "dfs 0 idx pid st = Inl OutOfFuel"
| "dfs (Suc n) idx pid st =
     (if hasCycle st then Inr st
      else let st1 = st\<lparr>visited := (visited st)(pid := True), inStack := (inStack st)(pid := True)\<rparr>
           in case idx pid of
                None \<Rightarrow> Inl NilDeref
              | Some step \<Rightarrow>
                  (case dfs_parents n idx (cs_ParentIDs step) st1 of
                     Inl e \<Rightarrow> Inl e
                   | Inr (returned, st2) \<Rightarrow>
                       Inr (if returned then st2 else st2\<lparr>inStack := (inStack st2)(pid := False)\<rparr>)))"
| "dfs_parents n idx [] st = Inr (False, st)"
| "dfs_parents n idx (p # ps) st =
     (if inStack st p then Inr (True, st\<lparr>hasCycle := True\<rparr>)
      else if \<not> visited st p then
        (case dfs n idx p st of Inl e \<Rightarrow> Inl e | Inr st' \<Rightarrow> dfs_parents n idx ps st')
      else dfs_parents n idx ps st)"

fun dfs_all :: "nat \<Rightarrow> step_index \<Rightarrow> ChainStep list \<Rightarrow> dfs_state \<Rightarrow> dag_error + dfs_state" where
  "dfs_all n idx [] st = Inr st"
| "dfs_all n idx (step # steps) st =
     (if \<not> visited st (cs_ProofID step) then
        (case dfs n idx (cs_ProofID step) st of Inl e \<Rightarrow> Inl e | Inr st' \<Rightarrow> dfs_all n idx steps st')
      else dfs_all n idx steps st)"

definition dfs_init :: dfs_state where
  "dfs_init = \<lparr>visited = (\<lambda>_. False), inStack = (\<lambda>_. False), hasCycle = False\<rparr>"

definition ValidateDAG :: "ProofChain \<Rightarrow> dag_error + unit" where
  "ValidateDAG chain =
     (let steps = pc_Steps chain; idx = build_index Map.empty steps in
      if length steps = 0 then Inl EmptyChain
      else if count_roots steps \<noteq> 1 then Inl (RootCount (count_roots steps))
      else case check_links idx steps of
          Inl e \<Rightarrow> Inl e
        | Inr _ \<Rightarrow>
            (case dfs_all (length steps) idx steps dfs_init of
               Inl e \<Rightarrow> Inl e
             | Inr st \<Rightarrow> if hasCycle st then Inl CycleDetected else Inr ()))"

section \<open>The index and the parent checks\<close>

lemma build_index_dom: "dom (build_index m steps) = dom m \<union> cs_ProofID ` set steps"
  by (induction steps arbitrary: m) auto

lemma build_index_SomeD:
  "build_index m steps p = Some s \<Longrightarrow> m p = Some s \<or> s \<in> set steps \<and> cs_ProofID s = p"
  by (induction steps arbitrary: m) (fastforce split: if_splits)+


lemma check_parents_Inr:
  "check_parents idx step pids = Inr u \<longleftrightarrow>
   (\<forall>p \<in> set pids. \<exists>parent. idx p = Some parent \<and> cs_InputHash step = cs_OutputHash parent)"
  by (induction pids) (auto split: option.splits)

lemma check_links_Inr:
  "check_links idx steps = Inr u \<longleftrightarrow>
   (\<forall>step \<in> set steps. \<forall>p \<in> set (cs_ParentIDs step).
      \<exists>parent. idx p = Some parent \<and> cs_InputHash step = cs_OutputHash parent)"
proof (induction steps)
  case (Cons s ss)
  with check_parents_Inr [of idx s "cs_ParentIDs s" "()"] show ?case
    by (cases "check_parents idx s (cs_ParentIDs s)") auto
qed simp

section \<open>Depth-first search finds a cycle exactly when there is one\<close>

text \<open>The edges of the search: from an indexed step to its parents.\<close>

definition parent_edges :: "step_index \<Rightarrow> (gostring \<times> gostring) set" where
  "parent_edges idx = {(a, p). \<exists>s. idx a = Some s \<and> p \<in> set (cs_ParentIDs s)}"

definition unvisited :: "step_index \<Rightarrow> dfs_state \<Rightarrow> gostring set" where
  "unvisited idx st = {a \<in> dom idx. \<not> visited st a}"

text \<open>
  Finished nodes (visited and off the stack) have finished parents only, and none of them
  lies on a cycle.
\<close>

definition dfs_inv :: "step_index \<Rightarrow> dfs_state \<Rightarrow> bool" where
  "dfs_inv idx st \<longleftrightarrow> (\<forall>a. inStack st a \<longrightarrow> visited st a) \<and>
     (\<forall>a. visited st a \<longrightarrow> \<not> inStack st a \<longrightarrow>
        (\<forall>p. (a, p) \<in> parent_edges idx \<longrightarrow> visited st p \<and> \<not> inStack st p) \<and> (a, a) \<notin> (parent_edges idx)\<^sup>+)"

definition cyclic :: "step_index \<Rightarrow> bool" where
  "cyclic idx \<longleftrightarrow> (\<exists>a. (a, a) \<in> (parent_edges idx)\<^sup>+)"

text \<open>What a call leaves behind: more visited nodes, and a cycle or the invariant with the same stack.\<close>

definition dfs_post :: "step_index \<Rightarrow> dfs_state \<Rightarrow> dfs_state \<Rightarrow> bool" where
  "dfs_post idx st st' \<longleftrightarrow> (\<forall>a. visited st a \<longrightarrow> visited st' a) \<and>
     (if hasCycle st' then cyclic idx else dfs_inv idx st' \<and> inStack st' = inStack st)"

lemma finite_dom_index [simp]: "finite (dom (build_index Map.empty steps))"
  by (simp add: build_index_dom)

lemma card_unvisited_mono:
  "finite (dom idx) \<Longrightarrow> \<forall>a. visited st a \<longrightarrow> visited st' a \<Longrightarrow> card (unvisited idx st') \<le> card (unvisited idx st)"
  by (rule card_mono) (auto simp: unvisited_def)

lemma unvisited_Suc:
  "finite (dom idx) \<Longrightarrow> p \<in> dom idx \<Longrightarrow> \<not> visited st p \<Longrightarrow> card (unvisited idx st) \<le> n \<Longrightarrow> \<exists>m. n = Suc m"
  by (cases n) (auto simp: unvisited_def)

lemma card_unvisited_mark:
  assumes "finite (dom idx)" "p \<in> dom idx" "\<not> visited st p" "card (unvisited idx st) \<le> Suc n"
    and "visited st' = (visited st)(p := True)"
  shows "card (unvisited idx st') \<le> n"
proof -
  have "unvisited idx st' = unvisited idx st - {p}" using assms(5) by (auto simp: unvisited_def)
  then show ?thesis using assms by (simp add: unvisited_def)
qed

text \<open>Once a cycle is flagged the remaining calls return at once.\<close>

lemma dfs_flagged:
  "hasCycle st \<Longrightarrow> finite (dom idx) \<Longrightarrow> p \<in> dom idx \<Longrightarrow> \<not> visited st p \<Longrightarrow> card (unvisited idx st) \<le> n \<Longrightarrow>
   dfs n idx p st = Inr st"
  using unvisited_Suc [of idx p st n] by auto

lemma dfs_parents_flagged:
  "hasCycle st \<Longrightarrow> finite (dom idx) \<Longrightarrow> set ps \<subseteq> dom idx \<Longrightarrow> card (unvisited idx st) \<le> n \<Longrightarrow>
   \<exists>r. dfs_parents n idx ps st = Inr (r, st)"
  by (induction ps) (auto simp: dfs_flagged)

lemma dfs_all_flagged:
  "hasCycle st \<Longrightarrow> finite (dom idx) \<Longrightarrow> cs_ProofID ` set steps \<subseteq> dom idx \<Longrightarrow> card (unvisited idx st) \<le> n \<Longrightarrow>
   dfs_all n idx steps st = Inr st"
  by (induction steps) (auto simp: dfs_flagged)

text \<open>Nothing reachable from a finished node is unfinished.\<close>

lemma finished_closed:
  assumes "dfs_inv idx st" "(a, b) \<in> (parent_edges idx)\<^sup>*" "visited st a" "\<not> inStack st a"
  shows "visited st b \<and> \<not> inStack st b"
  using assms(2)
proof (induction rule: rtrancl_induct)
  case base
  show ?case using assms(3,4) by simp
next
  case (step y z)
  with assms(1) show ?case unfolding dfs_inv_def by blast
qed

text \<open>
  The loop over the parents of \<open>x\<close>, given that the search from each of them is right.
\<close>

lemma dfs_parents_correct:
  assumes dfs: "\<And>p st. \<not> hasCycle st \<Longrightarrow> p \<in> dom idx \<Longrightarrow> \<not> visited st p \<Longrightarrow> card (unvisited idx st) \<le> n \<Longrightarrow>
      dfs_inv idx st \<Longrightarrow> \<forall>a. inStack st a \<longrightarrow> (a, p) \<in> (parent_edges idx)\<^sup>+ \<Longrightarrow>
      \<exists>st'. dfs n idx p st = Inr st' \<and> dfs_post idx st st' \<and> (\<not> hasCycle st' \<longrightarrow> visited st' p)"
    and idx: "finite (dom idx)"
  shows "\<not> hasCycle st \<Longrightarrow> card (unvisited idx st) \<le> n \<Longrightarrow> dfs_inv idx st \<Longrightarrow>
    \<forall>a. inStack st a \<longrightarrow> (a, x) \<in> (parent_edges idx)\<^sup>* \<Longrightarrow> set ps \<subseteq> dom idx \<Longrightarrow>
    \<forall>p \<in> set ps. (x, p) \<in> parent_edges idx \<Longrightarrow>
    \<exists>r st'. dfs_parents n idx ps st = Inr (r, st') \<and> dfs_post idx st st' \<and>
      (\<not> hasCycle st' \<longrightarrow> \<not> r \<and> (\<forall>p \<in> set ps. visited st' p \<and> \<not> inStack st' p))"
proof (induction ps arbitrary: st)
  case Nil
  then show ?case by (auto simp: dfs_post_def)
next
  case (Cons p ps)
  consider "inStack st p" | "\<not> inStack st p" "visited st p" | "\<not> inStack st p" "\<not> visited st p" by blast
  then show ?case
  proof cases
    case 1
    with Cons.prems have "(p, x) \<in> (parent_edges idx)\<^sup>*" "(x, p) \<in> parent_edges idx" by auto
    then have "(p, p) \<in> (parent_edges idx)\<^sup>+" by (rule rtrancl_into_trancl1)
    with 1 show ?thesis by (auto simp: dfs_post_def cyclic_def)
  next
    case 2
    from Cons.IH [OF Cons.prems(1-4)] Cons.prems(5,6) obtain r st' where
      st': "dfs_parents n idx ps st = Inr (r, st')" "dfs_post idx st st'"
        "\<not> hasCycle st' \<longrightarrow> \<not> r \<and> (\<forall>p \<in> set ps. visited st' p \<and> \<not> inStack st' p)" by auto
    with 2 show ?thesis by (auto simp: dfs_post_def)
  next
    case 3
    have "\<forall>a. inStack st a \<longrightarrow> (a, p) \<in> (parent_edges idx)\<^sup>+"
      using Cons.prems(4,6) by (auto intro: rtrancl_into_trancl1)
    with dfs [of st p] 3 Cons.prems obtain st1 where st1: "dfs n idx p st = Inr st1" "dfs_post idx st st1"
      "\<not> hasCycle st1 \<longrightarrow> visited st1 p" by auto
    have card1: "card (unvisited idx st1) \<le> n"
      using card_unvisited_mono [OF idx, of st st1] st1(2) Cons.prems(2) by (simp add: dfs_post_def)
    show ?thesis
    proof (cases "hasCycle st1")
      case True
      with dfs_parents_flagged [OF True idx _ card1, of ps] Cons.prems(5) 3 st1 show ?thesis by auto
    next
      case False
      with st1(2) have inv1: "dfs_inv idx st1" "inStack st1 = inStack st" by (simp_all add: dfs_post_def)
      with Cons.IH [OF False card1 inv1(1)] Cons.prems(4-6) obtain r st' where
        "dfs_parents n idx ps st1 = Inr (r, st')" "dfs_post idx st1 st'"
        "\<not> hasCycle st' \<longrightarrow> \<not> r \<and> (\<forall>p \<in> set ps. visited st' p \<and> \<not> inStack st' p)" by auto
      with st1 3 False inv1 show ?thesis by (auto simp: dfs_post_def)
    qed
  qed
qed

text \<open>
  Pushing a node keeps the invariant, and popping it keeps it once its parents are finished.
\<close>

lemma dfs_invI:
  assumes "\<And>a. inStack st a \<Longrightarrow> visited st a"
    and "\<And>a p. visited st a \<Longrightarrow> \<not> inStack st a \<Longrightarrow> (a, p) \<in> parent_edges idx \<Longrightarrow> visited st p \<and> \<not> inStack st p"
    and "\<And>a. visited st a \<Longrightarrow> \<not> inStack st a \<Longrightarrow> (a, a) \<notin> (parent_edges idx)\<^sup>+"
  shows "dfs_inv idx st"
  unfolding dfs_inv_def using assms by blast

lemma dfs_invD:
  assumes "dfs_inv idx st"
  shows "inStack st a \<Longrightarrow> visited st a"
    and "visited st a \<Longrightarrow> \<not> inStack st a \<Longrightarrow> (a, p) \<in> parent_edges idx \<Longrightarrow> visited st p \<and> \<not> inStack st p"
    and "visited st a \<Longrightarrow> \<not> inStack st a \<Longrightarrow> (a, a) \<notin> (parent_edges idx)\<^sup>+"
  using assms unfolding dfs_inv_def by blast+

lemma dfs_inv_push:
  assumes inv: "dfs_inv idx st" and x: "\<not> visited st x"
    and st1: "visited st1 = (visited st)(x := True)" "inStack st1 = (inStack st)(x := True)"
  shows "dfs_inv idx st1"
proof (rule dfs_invI)
  show "inStack st1 a \<Longrightarrow> visited st1 a" for a
    using dfs_invD(1) [OF inv, of a] by (simp add: st1 split: if_splits)
  fix a assume "visited st1 a" "\<not> inStack st1 a"
  then have a: "visited st a" "\<not> inStack st a" by (simp_all add: st1 split: if_splits)
  then show "(a, a) \<notin> (parent_edges idx)\<^sup>+" by (rule dfs_invD(3) [OF inv])
  fix p assume "(a, p) \<in> parent_edges idx"
  with dfs_invD(2) [OF inv a] x have "visited st p" "\<not> inStack st p" "p \<noteq> x" by blast+
  then show "visited st1 p \<and> \<not> inStack st1 p" by (simp add: st1)
qed

lemma dfs_inv_pop:
  assumes inv: "dfs_inv idx st" and x: "inStack st x"
    and ps: "\<And>p. (x, p) \<in> parent_edges idx \<Longrightarrow> visited st p \<and> \<not> inStack st p"
    and st1: "visited st1 = visited st" "inStack st1 = (inStack st)(x := False)"
  shows "dfs_inv idx st1"
proof (rule dfs_invI)
  have acyc: "(x, x) \<notin> (parent_edges idx)\<^sup>+"
  proof
    assume "(x, x) \<in> (parent_edges idx)\<^sup>+"
    then obtain p where p: "(x, p) \<in> parent_edges idx" "(p, x) \<in> (parent_edges idx)\<^sup>*" by (meson tranclD)
    from finished_closed [OF inv p(2)] ps [OF p(1)] x show False by blast
  qed
  show "inStack st1 a \<Longrightarrow> visited st1 a" for a
    using dfs_invD(1) [OF inv, of a] by (simp add: st1 split: if_splits)
  fix a assume a: "visited st1 a" "\<not> inStack st1 a"
  show "(a, a) \<notin> (parent_edges idx)\<^sup>+"
    using acyc dfs_invD(3) [OF inv, of a] a by (cases "a = x") (simp_all add: st1)
  fix p assume "(a, p) \<in> parent_edges idx"
  then have "visited st p \<and> \<not> inStack st p"
    using ps dfs_invD(2) [OF inv, of a p] a by (cases "a = x") (simp_all add: st1)
  then show "visited st1 p \<and> \<not> inStack st1 p" by (simp add: st1)
qed

lemma dfs_correct:
  assumes idx: "finite (dom idx)" "\<forall>(a, p) \<in> parent_edges idx. p \<in> dom idx"
  shows "\<not> hasCycle st \<Longrightarrow> x \<in> dom idx \<Longrightarrow> \<not> visited st x \<Longrightarrow> card (unvisited idx st) \<le> n \<Longrightarrow>
    dfs_inv idx st \<Longrightarrow> \<forall>a. inStack st a \<longrightarrow> (a, x) \<in> (parent_edges idx)\<^sup>+ \<Longrightarrow>
    \<exists>st'. dfs n idx x st = Inr st' \<and> dfs_post idx st st' \<and> (\<not> hasCycle st' \<longrightarrow> visited st' x)"
proof (induction n arbitrary: x st)
  case 0
  with unvisited_Suc [OF idx(1)] show ?case by blast
next
  case (Suc n)
  define st1 where "st1 = st\<lparr>visited := (visited st)(x := True), inStack := (inStack st)(x := True)\<rparr>"
  from Suc.prems(2) obtain s where s: "idx x = Some s" by blast
  have card1: "card (unvisited idx st1) \<le> n"
    using card_unvisited_mark [OF idx(1) Suc.prems(2,3,4)] by (simp add: st1_def)
  have inv1: "dfs_inv idx st1"
    by (rule dfs_inv_push [OF Suc.prems(5,3)]) (simp_all add: st1_def)
  have edges: "(x, p) \<in> parent_edges idx \<longleftrightarrow> p \<in> set (cs_ParentIDs s)" for p
    using s by (simp add: parent_edges_def)
  have ps: "set (cs_ParentIDs s) \<subseteq> dom idx" "\<forall>p \<in> set (cs_ParentIDs s). (x, p) \<in> parent_edges idx"
    using idx(2) edges by blast+
  have stack1: "\<forall>a. inStack st1 a \<longrightarrow> (a, x) \<in> (parent_edges idx)\<^sup>*"
    using Suc.prems(6) by (simp add: st1_def trancl_into_rtrancl)
  have "\<not> hasCycle st1" using Suc.prems(1) by (simp add: st1_def)
  from dfs_parents_correct [OF Suc.IH idx(1) this card1 inv1 stack1 ps] obtain r st2 where
    st2: "dfs_parents n idx (cs_ParentIDs s) st1 = Inr (r, st2)" "dfs_post idx st1 st2"
    "\<not> hasCycle st2 \<longrightarrow> \<not> r \<and> (\<forall>p \<in> set (cs_ParentIDs s). visited st2 p \<and> \<not> inStack st2 p)"
    by blast
  then have run: "dfs (Suc n) idx x st =
      Inr (if r then st2 else st2\<lparr>inStack := (inStack st2)(x := False)\<rparr>)"
    using Suc.prems(1) s by (simp add: st1_def)
  have grow: "visited st2 a" if "visited st1 a" for a using st2(2) that by (simp add: dfs_post_def)
  show ?case
  proof (cases "hasCycle st2")
    case True
    then have "cyclic idx" using st2(2) by (simp add: dfs_post_def)
    with True grow run show ?thesis by (simp add: dfs_post_def st1_def)
  next
    case False
    with st2(2) have inv2: "inStack st2 = inStack st1" "dfs_inv idx st2" by (simp_all add: dfs_post_def)
    have "\<not> r" "visited st2 x" using False st2(3) grow by (simp_all add: st1_def)
    let ?st3 = "st2\<lparr>inStack := (inStack st2)(x := False)\<rparr>"
    have "\<not> inStack st x" using dfs_invD(1) [OF Suc.prems(5)] Suc.prems(3) by blast
    then have "inStack ?st3 = inStack st" using inv2 by (simp add: st1_def fun_eq_iff)
    moreover have "dfs_inv idx ?st3"
      by (rule dfs_inv_pop [OF inv2(2), of x]) (use inv2 False st2(3) edges in \<open>simp_all add: st1_def\<close>)
    ultimately show ?thesis
      using run False \<open>\<not> r\<close> \<open>visited st2 x\<close> grow by (simp add: dfs_post_def st1_def)
  qed
qed

lemma dfs_all_correct:
  assumes idx: "finite (dom idx)" "\<forall>(a, p) \<in> parent_edges idx. p \<in> dom idx"
  shows "\<not> hasCycle st \<Longrightarrow> cs_ProofID ` set steps \<subseteq> dom idx \<Longrightarrow> card (unvisited idx st) \<le> n \<Longrightarrow>
    dfs_inv idx st \<Longrightarrow> inStack st = (\<lambda>_. False) \<Longrightarrow>
    \<exists>st'. dfs_all n idx steps st = Inr st' \<and> dfs_post idx st st' \<and>
      (\<not> hasCycle st' \<longrightarrow> (\<forall>s \<in> set steps. visited st' (cs_ProofID s)))"
proof (induction steps arbitrary: st)
  case (Cons s steps)
  show ?case
  proof (cases "visited st (cs_ProofID s)")
    case True
    with Cons.IH [OF Cons.prems(1) _ Cons.prems(3-5)] Cons.prems(2) show ?thesis
      by (auto simp: dfs_post_def)
  next
    case False
    with dfs_correct [OF idx Cons.prems(1) _ False Cons.prems(3,4)] Cons.prems(2,5) obtain st1 where
      st1: "dfs n idx (cs_ProofID s) st = Inr st1" "dfs_post idx st st1"
        "\<not> hasCycle st1 \<longrightarrow> visited st1 (cs_ProofID s)" by auto
    have card1: "card (unvisited idx st1) \<le> n"
      using card_unvisited_mono [OF idx(1), of st st1] st1(2) Cons.prems(3) by (simp add: dfs_post_def)
    show ?thesis
    proof (cases "hasCycle st1")
      case True
      with dfs_all_flagged [OF True idx(1) _ card1, of steps] Cons.prems(2) False st1 show ?thesis by auto
    next
      case cyc: False
      with st1(2) Cons.prems(5) have inv1: "dfs_inv idx st1" "inStack st1 = (\<lambda>_. False)"
        by (simp_all add: dfs_post_def)
      with Cons.IH [OF cyc _ card1 inv1] Cons.prems(2,5) st1 False cyc show ?thesis
        by (auto simp: dfs_post_def)
    qed
  qed
qed (simp add: dfs_post_def)

section \<open>Properties of chain validation\<close>

lemma cyclic_iff: "cyclic idx \<longleftrightarrow> \<not> acyclic (parent_edges idx)"
  by (simp add: cyclic_def acyclic_def)

lemma links_closed:
  assumes "check_links (build_index Map.empty steps) steps = Inr ()"
  shows "\<forall>(a, p) \<in> parent_edges (build_index Map.empty steps). p \<in> dom (build_index Map.empty steps)"
  using assms unfolding check_links_Inr by (force simp: parent_edges_def dest: build_index_SomeD)

lemma dfs_all_result:
  assumes "check_links (build_index Map.empty steps) steps = Inr ()"
  shows "\<exists>st. dfs_all (length steps) (build_index Map.empty steps) steps dfs_init = Inr st \<and>
    (hasCycle st \<longleftrightarrow> cyclic (build_index Map.empty steps))"
proof -
  let ?idx = "build_index Map.empty steps"
  have dom: "dom ?idx = cs_ProofID ` set steps" by (simp add: build_index_dom)
  have "card (unvisited ?idx dfs_init) \<le> card (dom ?idx)" by (rule card_mono) (auto simp: unvisited_def)
  also have "\<dots> \<le> length steps" unfolding dom by (metis card_image_le card_length finite_set le_trans)
  finally have card: "card (unvisited ?idx dfs_init) \<le> length steps" .
  have "dfs_inv ?idx dfs_init" by (rule dfs_invI) (simp_all add: dfs_init_def)
  with dfs_all_correct [OF finite_dom_index links_closed [OF assms], of dfs_init steps "length steps"] card dom
  obtain st where st: "dfs_all (length steps) ?idx steps dfs_init = Inr st" "dfs_post ?idx dfs_init st"
    "\<not> hasCycle st \<longrightarrow> (\<forall>s \<in> set steps. visited st (cs_ProofID s))"
    by (auto simp: dfs_init_def)
  have "\<not> cyclic ?idx" if "\<not> hasCycle st"
  proof
    assume "cyclic ?idx"
    then obtain a where a: "(a, a) \<in> (parent_edges ?idx)\<^sup>+" by (auto simp: cyclic_def)
    then obtain b where "(a, b) \<in> parent_edges ?idx" by (meson tranclD)
    then have "a \<in> dom ?idx" by (auto simp: parent_edges_def)
    with st that dom have "dfs_inv ?idx st" "visited st a" "\<not> inStack st a"
      by (auto simp: dfs_post_def dfs_init_def)
    with a show False using dfs_invD(3) by blast
  qed
  with st show ?thesis by (auto simp: dfs_post_def)
qed

lemma ValidateDAG_accepts:
  "ValidateDAG chain = Inr () \<longleftrightarrow> pc_Steps chain \<noteq> [] \<and> count_roots (pc_Steps chain) = 1 \<and>
    check_links (build_index Map.empty (pc_Steps chain)) (pc_Steps chain) = Inr () \<and>
    acyclic (parent_edges (build_index Map.empty (pc_Steps chain)))"
  using dfs_all_result [of "pc_Steps chain"] unfolding ValidateDAG_def Let_def cyclic_iff
  by (auto split: sum.splits)

text \<open>
  C17: \<open>ValidateDAG\<close> accepts exactly the chains its four rules describe: at least one step,
  exactly one step without parents, every parent id in the index with an output hash equal
  to the step's input hash, and no cycle along the parents.
\<close>

theorem ValidateDAG_iff:
  "ValidateDAG chain = Inr () \<longleftrightarrow> pc_Steps chain \<noteq> [] \<and> count_roots (pc_Steps chain) = 1 \<and>
    (\<forall>step \<in> set (pc_Steps chain). \<forall>p \<in> set (cs_ParentIDs step).
       \<exists>parent. build_index Map.empty (pc_Steps chain) p = Some parent \<and> cs_InputHash step = cs_OutputHash parent) \<and>
    acyclic (parent_edges (build_index Map.empty (pc_Steps chain)))"
  by (simp add: ValidateDAG_accepts check_links_Inr)

definition mk_step :: "gostring \<Rightarrow> gostring list \<Rightarrow> gostring \<Rightarrow> gostring \<Rightarrow> ChainStep" where
  "mk_step pid ps inp outp = \<lparr>cs_ProofID = pid, cs_ParentIDs = ps, cs_ModelHash = [], cs_InputHash = inp,
     cs_OutputHash = outp, cs_StepIndex = 0, cs_Verified = False\<rparr>"

definition mk_chain :: "ChainStep list \<Rightarrow> ProofChain" where
  "mk_chain steps = \<lparr>pc_ID = ''c'', pc_RootProofID = ''r'', pc_Depth = 0, pc_TotalSteps = 0,
     pc_Status = ChainPending, pc_Steps = steps, pc_CreatedAt = 0\<rparr>"

definition diamond :: "ChainStep list" where
  "diamond = [mk_step ''r'' [] ''i'' ''x'', mk_step ''a'' [''r''] ''x'' ''y'',
     mk_step ''b'' [''r''] ''x'' ''y'', mk_step ''c'' [''a'', ''b''] ''y'' ''z'']"

lemma diamond_accepted: "ValidateDAG (mk_chain diamond) = Inr ()"
  by (simp add: ValidateDAG_def mk_chain_def diamond_def mk_step_def count_roots_def dfs_init_def eval_nat_numeral)

theorem ValidateDAG_iff_witness:
  "ValidateDAG (mk_chain diamond) = Inr () \<and> acyclic (parent_edges (build_index Map.empty diamond))"
  using ValidateDAG_iff [THEN iffD1, OF diamond_accepted] diamond_accepted by (simp add: mk_chain_def)

text \<open>
  Validation always reaches a verdict of its own. The search neither runs out of the
  call depth that the number of steps allows nor looks up an id that has no step, so the
  recursion of \<open>dfs\<close> terminates and never dereferences a missing index entry.
\<close>

theorem ValidateDAG_no_runaway:
  "ValidateDAG chain \<noteq> Inl OutOfFuel \<and> ValidateDAG chain \<noteq> Inl NilDeref"
proof -
  have parents: "check_parents idx s ps \<noteq> Inl OutOfFuel \<and> check_parents idx s ps \<noteq> Inl NilDeref" for idx s ps
    by (induction ps) (auto split: option.splits)
  have links: "check_links idx ss \<noteq> Inl OutOfFuel \<and> check_links idx ss \<noteq> Inl NilDeref" for idx ss
  proof (induction ss)
    case (Cons s ss)
    with parents [of idx s "cs_ParentIDs s"] show ?case by (auto split: sum.splits)
  qed simp
  show ?thesis
    using links [of "build_index Map.empty (pc_Steps chain)" "pc_Steps chain"] dfs_all_result [of "pc_Steps chain"]
    by (auto simp: ValidateDAG_def Let_def split: sum.splits)
qed

lemma reaches_root:
  assumes "acyclic E" "finite E" "\<And>x. x \<in> D \<Longrightarrow> P x \<or> (\<exists>y \<in> D. (x, y) \<in> E)" "x \<in> D"
  shows "\<exists>y \<in> D. P y \<and> (x, y) \<in> E\<^sup>*"
  using \<open>x \<in> D\<close>
proof (induction x rule: wf_induct_rule [OF finite_acyclic_wf_converse [OF assms(2,1)]])
  case (1 x)
  with assms(3) [of x] show ?case by (blast intro: converse_rtrancl_into_rtrancl)
qed

text \<open>
  In an accepted chain every step descends from the root. There is a step without
  parents, the only one, and following parent links from any step of the chain leads to it.
\<close>

theorem accepted_chain_rooted:
  assumes "ValidateDAG chain = Inr ()"
  shows "\<exists>r \<in> set (pc_Steps chain). cs_ParentIDs r = [] \<and>
    (\<forall>s \<in> set (pc_Steps chain). (cs_ParentIDs s = [] \<longrightarrow> s = r) \<and>
      (cs_ProofID s, cs_ProofID r) \<in> (parent_edges (build_index Map.empty (pc_Steps chain)))\<^sup>*)"
proof -
  let ?ss = "pc_Steps chain" and ?idx = "build_index Map.empty (pc_Steps chain)"
  note ok = assms [unfolded ValidateDAG_accepts]
  have "length (filter (\<lambda>s. length (cs_ParentIDs s) = 0) ?ss) = 1" using ok by (simp add: count_roots_def)
  then obtain r where r: "filter (\<lambda>s. length (cs_ParentIDs s) = 0) ?ss = [r]"
    by (metis length_0_conv length_Suc_conv One_nat_def)
  have roots: "s \<in> set ?ss \<and> cs_ParentIDs s = [] \<longleftrightarrow> s = r" for s
    using arg_cong [OF r, of set] by auto
  have closed: "a \<in> dom ?idx \<and> p \<in> dom ?idx" if "(a, p) \<in> parent_edges ?idx" for a p
    using links_closed [of ?ss] ok that unfolding parent_edges_def by blast
  then have "parent_edges ?idx \<subseteq> dom ?idx \<times> dom ?idx" by (simp add: subset_iff)
  then have fin: "finite (parent_edges ?idx)" by (rule finite_subset) simp
  have step: "x = cs_ProofID r \<or> (\<exists>y \<in> dom ?idx. (x, y) \<in> parent_edges ?idx)" if "x \<in> dom ?idx" for x
  proof -
    from that obtain s where s: "?idx x = Some s" by blast
    with build_index_SomeD [OF s] have ss: "s \<in> set ?ss" "cs_ProofID s = x" by simp_all
    show ?thesis
    proof (cases "cs_ParentIDs s")
      case Nil
      with roots [of s] ss show ?thesis by simp
    next
      case (Cons p ps)
      with s have "(x, p) \<in> parent_edges ?idx" by (simp add: parent_edges_def)
      with closed [OF this] show ?thesis by blast
    qed
  qed
  have "(cs_ProofID s, cs_ProofID r) \<in> (parent_edges ?idx)\<^sup>*" if "s \<in> set ?ss" for s
  proof -
    have "cs_ProofID s \<in> dom ?idx" using that by (simp add: build_index_dom)
    from reaches_root [OF _ fin step this] ok show ?thesis by blast
  qed
  with roots show ?thesis by blast
qed

theorem accepted_chain_rooted_witness:
  "(''c'', ''r'') \<in> (parent_edges (build_index Map.empty diamond))\<^sup>*"
proof -
  from accepted_chain_rooted [OF diamond_accepted] obtain r where r: "r \<in> set diamond" "cs_ParentIDs r = []"
    "\<forall>s \<in> set diamond. (cs_ProofID s, cs_ProofID r) \<in> (parent_edges (build_index Map.empty diamond))\<^sup>*"
    by (auto simp: mk_chain_def)
  from r(1,2) have "cs_ProofID r = ''r''" by (auto simp: diamond_def mk_step_def)
  moreover have "mk_step ''c'' [''a'', ''b''] ''y'' ''z'' \<in> set diamond" by (simp add: diamond_def)
  ultimately show ?thesis using r(3) by (fastforce simp: mk_step_def)
qed

text \<open>
  A mismatch between hashes shorter than eight characters is not reported: building the
  message slices the strings, and the slice panics.
\<close>

lemma short_hash_mismatch_panics:
  "ValidateDAG (mk_chain [mk_step ''r'' [] ''i'' ''ab'', mk_step ''a'' [''r''] ''cd'' ''y'']) = Inl SlicePanic"
  by (simp add: ValidateDAG_def mk_chain_def mk_step_def count_roots_def)

section \<open>The software attestor\<close>

datatype AttestationType = AttestSoftware | AttestTPM | AttestSGX | AttestSEV | AttestTrustZone

fun AttestationType_String :: "AttestationType \<Rightarrow> gostring" where
  "AttestationType_String AttestSoftware = ''software''"
| "AttestationType_String AttestTPM = ''tpm2.0''"
| "AttestationType_String AttestSGX = ''intel-sgx''"
| "AttestationType_String AttestSEV = ''amd-sev''"
| "AttestationType_String AttestTrustZone = ''arm-trustzone''"

record PlatformInfo =
  Vendor :: gostring
  Model :: gostring
  FWVersion :: gostring
  TCBLevel :: int

record HWQuote =
  hq_AttestationType :: AttestationType
  hq_EnclaveHash :: bytes
  hq_CPUSignature :: bytes
  hq_ReportData :: bytes
  hq_Timestamp :: int
  hq_Platform :: PlatformInfo

definition GetPlatformInfo :: PlatformInfo where
  "GetPlatformInfo = \<lparr>Vendor = ''software'', Model = ''none'', FWVersion = [], TCBLevel = 0\<rparr>"

definition GenerateQuote :: "int \<Rightarrow> bytes \<Rightarrow> HWQuote" where
  "GenerateQuote now reportData = \<lparr>hq_AttestationType = AttestSoftware, hq_EnclaveHash = sha256 reportData,
     hq_CPUSignature = [], hq_ReportData = reportData, hq_Timestamp = now, hq_Platform = GetPlatformInfo\<rparr>"

text \<open>
  The comparison loop of \<open>VerifyQuote\<close>: \<open>None\<close> is the panic of \<open>quote.EnclaveHash[i]\<close> past
  the end of the slice.
\<close>

fun match_prefix :: "bytes \<Rightarrow> bytes \<Rightarrow> bool option" where
  "match_prefix [] enclave = Some True"
| "match_prefix (b # h) [] = None"
| "match_prefix (b # h) (e # enclave) = (if e \<noteq> b then Some False else match_prefix h enclave)"

definition VerifyQuote :: "HWQuote \<Rightarrow> bool option" where
  "VerifyQuote quote =
     (if hq_AttestationType quote \<noteq> AttestSoftware then Some False
      else match_prefix (sha256 (hq_ReportData quote)) (hq_EnclaveHash quote))"

lemma match_prefix_Some: "match_prefix h e = Some True \<longleftrightarrow> take (length h) e = h"
  by (induction h e rule: match_prefix.induct) auto

lemma match_prefix_None: "match_prefix h e = None \<longleftrightarrow> length e < length h \<and> take (length e) h = e"
  by (induction h e rule: match_prefix.induct) auto

text \<open>
  What the software attestor accepts. A software quote is accepted when its enclave
  hash begins with the hash of its report data, in particular every quote the attestor
  generates; a proper prefix of that hash makes the comparison run off the end of the
  slice (a panic), and every other quote is refused.
\<close>

theorem VerifyQuote_cases:
  "VerifyQuote (GenerateQuote now d) = Some True \<and>
   (VerifyQuote q = Some True \<longleftrightarrow>
      hq_AttestationType q = AttestSoftware \<and> take 32 (hq_EnclaveHash q) = sha256 (hq_ReportData q)) \<and>
   (VerifyQuote q = None \<longleftrightarrow>
      hq_AttestationType q = AttestSoftware \<and>
      (\<exists>k < 32. hq_EnclaveHash q = take k (sha256 (hq_ReportData q))))"
proof -
  have "(length e < 32 \<and> take (length e) h = e) \<longleftrightarrow> (\<exists>k < 32. e = take k h)" if "length h = 32" for e h :: bytes
    using that by (metis length_take min.strict_order_iff min_def not_less_iff_gr_or_eq order_less_imp_le)
  then show ?thesis
    by (auto simp: VerifyQuote_def GenerateQuote_def match_prefix_Some match_prefix_None)
qed

end
