(* ===== verification/Decision.thy ===== *)
theory Decision
  imports Merkle_Core
begin

text \<open>
  The decision layer of \<open>decision/attest\<close>: the types, identifiers and digests of
  \<open>decision.go\<close> and \<open>util.go\<close>, the aggregation of facet verdicts, and the challenge-window
  gate of \<open>gate.go\<close>. Writing to a hash is appending to the text that is hashed at the end.
  Times are nanoseconds. The lemmas show that identifiers and digests bind what they are
  computed from, when the aggregate approves, and when the gate lets a decision through.
\<close>

section \<open>Types\<close>

datatype Verdict = VerdictUnknown | VerdictApprove | VerdictAbstain | VerdictReject

fun Verdict_String :: "Verdict \<Rightarrow> gostring" where
  "Verdict_String VerdictApprove = ''APPROVE''"
| "Verdict_String VerdictAbstain = ''ABSTAIN''"
| "Verdict_String VerdictReject = ''REJECT''"
| "Verdict_String VerdictUnknown = ''UNKNOWN''"

fun verdict_byte :: "Verdict \<Rightarrow> char" where
  "verdict_byte VerdictUnknown = byte 0"
| "verdict_byte VerdictApprove = byte 1"
| "verdict_byte VerdictAbstain = byte 2"
| "verdict_byte VerdictReject = byte 3"

type_synonym FacetKind = gostring

definition FacetSafety :: FacetKind where "FacetSafety = ''safety''"

definition FacetCorrectness :: FacetKind where "FacetCorrectness = ''correctness''"

definition FacetSpecCompliance :: FacetKind where "FacetSpecCompliance = ''spec_compliance''"

definition FacetEquivocation :: FacetKind where "FacetEquivocation = ''equivocation''"

definition AllFacetKinds :: "FacetKind list" where
  "AllFacetKinds = [FacetSafety, FacetCorrectness, FacetSpecCompliance, FacetEquivocation]"

lemmas facet_defs = FacetSafety_def FacetCorrectness_def FacetSpecCompliance_def FacetEquivocation_def

definition isCritical :: "FacetKind \<Rightarrow> bool" where
  "isCritical k \<longleftrightarrow> k = FacetSafety \<or> k = FacetEquivocation"

record Decision =
  Submitter :: gostring
  SpecID :: gostring
  Payload :: bytes
  Nonce :: "64 word"
  SubmittedAt :: int

record FacetVerdict =
  fv_Kind :: FacetKind
  fv_Verdict :: Verdict
  fv_Confidence :: float64
  fv_Reason :: gostring

record DecisionCommit =
  dc_Decision :: Decision
  dc_DecisionID :: gostring
  dc_FacetVerdicts :: "FacetVerdict list"
  dc_Aggregate :: Verdict
  dc_VetoedBy :: FacetKind
  dc_AbstainReason :: gostring

record AggregationPolicy =
  ApproveThreshold :: int
  MinConfidence :: float64

definition DefaultAggregationPolicy :: AggregationPolicy where
  "DefaultAggregationPolicy = \<lparr>ApproveThreshold = 2, MinConfidence = 6 / 10\<rparr>"

section \<open>Identifiers and digests\<close>

definition writeLP :: "bytes \<Rightarrow> bytes" where
  "writeLP b = be64 (int (length b)) @ b"

definition writeU64 :: "64 word \<Rightarrow> bytes" where
  "writeU64 v = be64 (uint v)"

definition id_text :: "Decision \<Rightarrow> bytes" where
  "id_text d = writeLP (Submitter d) @ writeLP (SpecID d) @ writeLP (Payload d) @ writeU64 (Nonce d)"

definition Decision_ID :: "Decision \<Rightarrow> gostring" where
  "Decision_ID d = hex_encode (sha256 (id_text d))"

definition verdicts_text :: "FacetVerdict list \<Rightarrow> bytes" where
  "verdicts_text fvs = concat (map (\<lambda>fv. writeLP (fv_Kind fv) @ [verdict_byte (fv_Verdict fv)]) fvs)"

definition digest_text :: "DecisionCommit \<Rightarrow> bytes" where
  "digest_text c = writeLP (dc_DecisionID c) @ verdicts_text (sort_key fv_Kind (dc_FacetVerdicts c))
     @ [verdict_byte (dc_Aggregate c)] @ writeLP (dc_VetoedBy c)"

definition CommitDigest :: "DecisionCommit \<Rightarrow> gostring" where
  "CommitDigest c = hex_encode (sha256 (digest_text c))"

section \<open>Aggregation\<close>

datatype decision_error = ErrNoFacetVerdicts

type_synonym agg_result = "Verdict \<times> FacetKind \<times> gostring"

fun veto_pass :: "FacetVerdict list \<Rightarrow> agg_result option" where
  "veto_pass [] = None"
| "veto_pass (fv # fvs) =
     (if isCritical (fv_Kind fv) \<and> fv_Verdict fv = VerdictReject
      then Some (VerdictReject, fv_Kind fv, ''critical-veto: '' @ fv_Reason fv)
      else veto_pass fvs)"

fun critical_pass :: "FacetVerdict list \<Rightarrow> agg_result option" where
  "critical_pass [] = None"
| "critical_pass (fv # fvs) =
     (if isCritical (fv_Kind fv) \<and> fv_Verdict fv \<noteq> VerdictApprove
      then Some (VerdictAbstain, '''', ''critical facet '' @ fv_Kind fv @ '' did not approve ('' @
        Verdict_String (fv_Verdict fv) @ '')'')
      else critical_pass fvs)"

fun quorum_pass :: "AggregationPolicy \<Rightarrow> int \<Rightarrow> FacetVerdict list \<Rightarrow> agg_result + int" where
  "quorum_pass policy approves [] = Inr approves"
| "quorum_pass policy approves (fv # fvs) =
     (if isCritical (fv_Kind fv) then quorum_pass policy approves fvs
      else if fv_Verdict fv = VerdictReject
      then Inl (VerdictReject, '''', ''non-critical reject: '' @ fv_Reason fv)
      else if fv_Verdict fv = VerdictApprove \<and> fv_Confidence fv \<ge> MinConfidence policy
      then quorum_pass policy (approves + 1) fvs
      else quorum_pass policy approves fvs)"

text \<open>The sign of the message, U+2265 in UTF-8.\<close>

definition ge_sign :: gostring where
  "ge_sign = [byte 226, byte 137, byte 165]"

definition Aggregate :: "AggregationPolicy \<Rightarrow> FacetVerdict list \<Rightarrow> decision_error + agg_result" where
  "Aggregate policy verdicts =
     (if length verdicts = 0 then Inl ErrNoFacetVerdicts
      else case veto_pass verdicts of
          Some r \<Rightarrow> Inr r
        | None \<Rightarrow>
            (case critical_pass verdicts of
               Some r \<Rightarrow> Inr r
             | None \<Rightarrow>
                 (case quorum_pass policy 0 verdicts of
                    Inl r \<Rightarrow> Inr r
                  | Inr approves \<Rightarrow>
                      if approves \<ge> ApproveThreshold policy then Inr (VerdictApprove, '''', '''')
                      else Inr (VerdictAbstain, '''', ''quorum not reached: '' @ show_int approves @ ''/'' @
                        show_int (ApproveThreshold policy) @ '' approves at conf '' @ ge_sign @ '' '' @
                        show_fixed 2 (MinConfidence policy)))))"

section \<open>The gate\<close>

datatype GateDecision = GatePending | GateAllowed | GateBlocked | GateAbstained

fun GateDecision_String :: "GateDecision \<Rightarrow> gostring" where
  "GateDecision_String GateAllowed = ''ALLOWED''"
| "GateDecision_String GateBlocked = ''BLOCKED''"
| "GateDecision_String GateAbstained = ''ABSTAINED''"
| "GateDecision_String GatePending = ''PENDING''"

record ChallengeWindow =
  Duration :: int

definition DefaultChallengeWindow :: ChallengeWindow where
  "DefaultChallengeWindow = \<lparr>Duration = 5 * 10 ^ 9\<rparr>"

record ChallengeResult =
  Successful :: bool
  ch_Reason :: gostring
  ch_At :: int

record GateEvaluator =
  gate_window :: ChallengeWindow
  gate_nowFn :: int

definition NewGateEvaluator :: "int \<Rightarrow> ChallengeWindow \<Rightarrow> GateEvaluator" where
  "NewGateEvaluator now w = \<lparr>gate_window = w, gate_nowFn = now\<rparr>"

definition WithClock :: "GateEvaluator \<Rightarrow> int \<Rightarrow> GateEvaluator" where
  "WithClock g now = g\<lparr>gate_nowFn := now\<rparr>"

datatype gate_error = ErrCommitNotJudged

definition Gate_Evaluate ::
  "GateEvaluator \<Rightarrow> DecisionCommit \<Rightarrow> ChallengeResult option \<Rightarrow> gate_error + GateDecision" where
  "Gate_Evaluate g commit ch =
     (if dc_Aggregate commit = VerdictUnknown then Inl ErrCommitNotJudged
      else if dc_Aggregate commit = VerdictReject then Inr GateBlocked
      else if dc_Aggregate commit = VerdictAbstain then Inr GateAbstained
      else let closesAt = SubmittedAt (dc_Decision commit) + Duration (gate_window g) in
        if (case ch of None \<Rightarrow> False | Some c \<Rightarrow> \<not> ch_At c > closesAt \<and> Successful c) then Inr GateBlocked
        else if gate_nowFn g < closesAt then Inr GatePending
        else Inr GateAllowed)"

section \<open>Length-prefixed text can be read back\<close>

lemma writeLP_append_inject:
  assumes "writeLP a @ r = writeLP b @ s" "length a < 2 ^ 64" "length b < 2 ^ 64"
  shows "a = b \<and> r = s"
proof -
  have "be64 (int (length a)) @ a @ r = be64 (int (length b)) @ b @ s" using assms(1) by (simp add: writeLP_def)
  then have "be64 (int (length a)) = be64 (int (length b))" "a @ r = b @ s"
    by (simp_all add: append_eq_append_conv)
  with be64_length_inject [OF this(1) assms(2,3)] show ?thesis by simp
qed

lemma writeU64_inject: "writeU64 v = writeU64 w \<longleftrightarrow> v = w"
proof
  assume "writeU64 v = writeU64 w"
  then have "uint v mod 2 ^ 64 = uint w mod 2 ^ 64" unfolding writeU64_def by (rule be64_inject)
  moreover have "uint v < 2 ^ 64" "uint w < 2 ^ 64" using uint_lt2p [of v] uint_lt2p [of w] by simp_all
  ultimately show "v = w" by (simp add: word_uint_eq_iff)
qed simp

lemma id_text_inject:
  assumes "id_text d = id_text e"
    and "length (Submitter d) < 2 ^ 64" "length (SpecID d) < 2 ^ 64" "length (Payload d) < 2 ^ 64"
    and "length (Submitter e) < 2 ^ 64" "length (SpecID e) < 2 ^ 64" "length (Payload e) < 2 ^ 64"
  shows "Submitter d = Submitter e \<and> SpecID d = SpecID e \<and> Payload d = Payload e \<and> Nonce d = Nonce e"
proof -
  from writeLP_append_inject [OF assms(1) [unfolded id_text_def] assms(2,5)]
  have 1: "Submitter d = Submitter e"
    "writeLP (SpecID d) @ writeLP (Payload d) @ writeU64 (Nonce d) = writeLP (SpecID e) @ writeLP (Payload e) @ writeU64 (Nonce e)"
    by simp_all
  from writeLP_append_inject [OF 1(2) assms(3,6)]
  have 2: "SpecID d = SpecID e" "writeLP (Payload d) @ writeU64 (Nonce d) = writeLP (Payload e) @ writeU64 (Nonce e)"
    by simp_all
  from writeLP_append_inject [OF 2(2) assms(4,7)] 1 2 show ?thesis by (simp add: writeU64_inject)
qed

text \<open>
  After the decision id come the facet entries, each beginning with the zero byte of a
  length, then the aggregate, which is not the zero byte once the commit is judged.
\<close>

lemma verdict_byte_inject: "verdict_byte v = verdict_byte w \<longleftrightarrow> v = w"
proof -
  have "of_char (verdict_byte v) = (of_char (verdict_byte w) :: int) \<Longrightarrow> v = w"
    by (cases v; cases w) (simp_all add: of_char_byte)
  then show ?thesis by auto
qed

lemma verdict_byte_nonzero: "v \<noteq> VerdictUnknown \<Longrightarrow> verdict_byte v \<noteq> byte 0"
  using verdict_byte_inject [of v VerdictUnknown] by simp

lemma writeLP_zero: "length a < 2 ^ 56 \<Longrightarrow> \<exists>r. writeLP a = byte 0 # r"
  using hd_be64 [of "int (length a)"] unfolding writeLP_def
  by (metis append_Cons of_nat_0_le_iff of_nat_less_numeral_power_cancel_iff)

lemma verdicts_text_Cons:
  "verdicts_text (x # xs) @ r = writeLP (fv_Kind x) @ verdict_byte (fv_Verdict x) # verdicts_text xs @ r"
  by (simp add: verdicts_text_def)

lemma verdicts_text_Cons_neq:
  assumes "length (fv_Kind x) < 2 ^ 56" "u \<noteq> VerdictUnknown"
  shows "verdicts_text (x # xs) @ r \<noteq> verdict_byte u # s"
  using writeLP_zero [OF assms(1)] verdict_byte_nonzero [OF assms(2)]
  unfolding verdicts_text_Cons by (metis append_Cons list.inject)

lemma verdicts_text_inject:
  assumes "verdicts_text xs @ verdict_byte u # r = verdicts_text ys @ verdict_byte v # s"
    and "u \<noteq> VerdictUnknown" "v \<noteq> VerdictUnknown"
    and "\<forall>x \<in> set xs. length (fv_Kind x) < 2 ^ 56" "\<forall>y \<in> set ys. length (fv_Kind y) < 2 ^ 56"
  shows "map (\<lambda>x. (fv_Kind x, fv_Verdict x)) xs = map (\<lambda>y. (fv_Kind y, fv_Verdict y)) ys \<and> u = v \<and> r = s"
  using assms
proof (induction xs arbitrary: ys)
  case Nil
  then have "verdict_byte u # r = verdicts_text ys @ verdict_byte v # s" by (simp add: verdicts_text_def)
  moreover have "ys = []"
    using verdicts_text_Cons_neq [of _ u] Nil.prems(2,5) calculation by (cases ys) (simp_all, metis)
  ultimately show ?case by (simp add: verdicts_text_def verdict_byte_inject)
next
  case (Cons x xs)
  show ?case
  proof (cases ys)
    case Nil
    have "verdicts_text (x # xs) @ verdict_byte u # r \<noteq> verdict_byte v # s"
      by (rule verdicts_text_Cons_neq) (use Cons.prems in simp_all)
    with Cons.prems(1) Nil show ?thesis by (simp add: verdicts_text_def)
  next
    case ys: (Cons y ys')
    have eq: "writeLP (fv_Kind x) @ verdict_byte (fv_Verdict x) # verdicts_text xs @ verdict_byte u # r =
        writeLP (fv_Kind y) @ verdict_byte (fv_Verdict y) # verdicts_text ys' @ verdict_byte v # s"
      using Cons.prems(1) unfolding ys verdicts_text_Cons .
    have len: "length (fv_Kind x) < 2 ^ 64" "length (fv_Kind y) < 2 ^ 64"
      using Cons.prems(4,5) ys by (simp_all add: less_trans)
    note split = writeLP_append_inject [OF eq len]
    have "verdicts_text xs @ verdict_byte u # r = verdicts_text ys' @ verdict_byte v # s"
      using split by simp
    from Cons.IH [OF this Cons.prems(2,3)] Cons.prems(4,5) ys split show ?thesis
      by (simp add: verdict_byte_inject)
  qed
qed

section \<open>Properties of identifiers and digests\<close>

text \<open>
  The decision id binds every field it is computed from. Two decisions with the same
  id agree in submitter, spec id, payload and nonce, or their id texts are a SHA-256
  collision; the length prefixes leave no other ambiguity.
\<close>

theorem Decision_ID_binding:
  assumes "Decision_ID d = Decision_ID e"
    and "length (Submitter d) < 2 ^ 64" "length (SpecID d) < 2 ^ 64" "length (Payload d) < 2 ^ 64"
    and "length (Submitter e) < 2 ^ 64" "length (SpecID e) < 2 ^ 64" "length (Payload e) < 2 ^ 64"
  shows "Submitter d = Submitter e \<and> SpecID d = SpecID e \<and> Payload d = Payload e \<and> Nonce d = Nonce e \<or>
    collides sha256 [id_text d] [id_text e]"
  using assms id_text_inject [of d e] by (auto simp: Decision_ID_def collides_iff)

definition sample_decision :: "gostring \<Rightarrow> int \<Rightarrow> Decision" where
  "sample_decision p t = \<lparr>Submitter = ''alice'', SpecID = ''policy/v1'', Payload = p, Nonce = 7, SubmittedAt = t\<rparr>"

theorem Decision_ID_binding_witness:
  "Payload (sample_decision ''x'' 0) = Payload (sample_decision ''x'' 9) \<or>
   collides sha256 [id_text (sample_decision ''x'' 0)] [id_text (sample_decision ''x'' 9)]"
proof -
  have "Decision_ID (sample_decision ''x'' 0) = Decision_ID (sample_decision ''x'' 9)"
    by (simp add: Decision_ID_def id_text_def sample_decision_def)
  from Decision_ID_binding [OF this] show ?thesis by (simp add: sample_decision_def)
qed

text \<open>
  C25: the commit digest binds the judged outcome. Two judged commits with the same digest
  agree in decision id, in the sorted facet kinds with their verdicts, in the aggregate and
  in the vetoing facet, or their digest texts are a SHA-256 collision.
\<close>

theorem CommitDigest_binding:
  assumes "CommitDigest c = CommitDigest c'"
    and "dc_Aggregate c \<noteq> VerdictUnknown" "dc_Aggregate c' \<noteq> VerdictUnknown"
    and "length (dc_DecisionID c) < 2 ^ 64" "length (dc_DecisionID c') < 2 ^ 64"
    and "length (dc_VetoedBy c) < 2 ^ 64" "length (dc_VetoedBy c') < 2 ^ 64"
    and "\<forall>x \<in> set (dc_FacetVerdicts c). length (fv_Kind x) < 2 ^ 56"
    and "\<forall>x \<in> set (dc_FacetVerdicts c'). length (fv_Kind x) < 2 ^ 56"
  shows "dc_DecisionID c = dc_DecisionID c' \<and> dc_Aggregate c = dc_Aggregate c' \<and> dc_VetoedBy c = dc_VetoedBy c' \<and>
      map (\<lambda>x. (fv_Kind x, fv_Verdict x)) (sort_key fv_Kind (dc_FacetVerdicts c)) =
      map (\<lambda>x. (fv_Kind x, fv_Verdict x)) (sort_key fv_Kind (dc_FacetVerdicts c')) \<or>
    collides sha256 [digest_text c] [digest_text c']"
proof (cases "digest_text c = digest_text c'")
  case True
  from writeLP_append_inject [OF this [unfolded digest_text_def] assms(4,5)]
  have 1: "dc_DecisionID c = dc_DecisionID c'"
    "verdicts_text (sort_key fv_Kind (dc_FacetVerdicts c)) @ verdict_byte (dc_Aggregate c) # writeLP (dc_VetoedBy c) =
     verdicts_text (sort_key fv_Kind (dc_FacetVerdicts c')) @ verdict_byte (dc_Aggregate c') # writeLP (dc_VetoedBy c')"
    by simp_all
  from verdicts_text_inject [OF 1(2) assms(2,3)] assms(8,9)
  have 2: "dc_Aggregate c = dc_Aggregate c'" "writeLP (dc_VetoedBy c) = writeLP (dc_VetoedBy c')"
    "map (\<lambda>x. (fv_Kind x, fv_Verdict x)) (sort_key fv_Kind (dc_FacetVerdicts c)) =
     map (\<lambda>x. (fv_Kind x, fv_Verdict x)) (sort_key fv_Kind (dc_FacetVerdicts c'))" by simp_all
  with 1 writeLP_append_inject [of "dc_VetoedBy c" "[]" "dc_VetoedBy c'" "[]"] assms(6,7) show ?thesis by simp
next
  case False
  with assms(1) show ?thesis by (simp add: CommitDigest_def collides_iff)
qed

definition sample_verdict :: "FacetKind \<Rightarrow> Verdict \<Rightarrow> float64 \<Rightarrow> FacetVerdict" where
  "sample_verdict k v conf = \<lparr>fv_Kind = k, fv_Verdict = v, fv_Confidence = conf, fv_Reason = ''r''\<rparr>"

definition sample_commit :: "FacetVerdict list \<Rightarrow> Verdict \<Rightarrow> DecisionCommit" where
  "sample_commit fvs v = \<lparr>dc_Decision = sample_decision ''x'' 0, dc_DecisionID = ''id'', dc_FacetVerdicts = fvs,
     dc_Aggregate = v, dc_VetoedBy = [], dc_AbstainReason = []\<rparr>"

theorem CommitDigest_binding_witness:
  "let c = sample_commit [sample_verdict ''b'' VerdictApprove 1, sample_verdict ''a'' VerdictAbstain 0] VerdictApprove;
       c' = sample_commit [sample_verdict ''a'' VerdictAbstain (1 / 2), sample_verdict ''b'' VerdictApprove 1] VerdictApprove
   in dc_Aggregate c = dc_Aggregate c' \<or> collides sha256 [digest_text c] [digest_text c']"
proof -
  let ?c = "sample_commit [sample_verdict ''b'' VerdictApprove 1, sample_verdict ''a'' VerdictAbstain 0] VerdictApprove"
  let ?c' = "sample_commit [sample_verdict ''a'' VerdictAbstain (1 / 2), sample_verdict ''b'' VerdictApprove 1] VerdictApprove"
  have "CommitDigest ?c = CommitDigest ?c'"
    by (simp add: CommitDigest_def digest_text_def verdicts_text_def sample_commit_def sample_verdict_def
        sort_key_def insort_key.simps)
  from CommitDigest_binding [OF this] show ?thesis
    by (simp add: sample_commit_def sample_verdict_def Let_def)
qed

text \<open>The digest does not depend on the order in which the facets were evaluated.\<close>

lemma filter_key_single:
  "distinct (map f xs) \<Longrightarrow> k \<in> set xs \<Longrightarrow> filter (\<lambda>x. f k = f x) xs = [k]"
  by (induction xs) (auto simp: filter_empty_conv image_iff)

lemma sort_key_unique:
  assumes "mset xs = mset ys" "distinct (map f ys)"
  shows "sort_key f xs = sort_key f ys"
proof (rule properties_for_sort_key)
  have eq: "set xs = set ys" using assms(1) by (metis set_mset_mset)
  have dist: "distinct (map f (sort_key f ys))"
    using assms(2) by (metis mset_map mset_sort mset_eq_imp_distinct_iff)
  have distx: "distinct (map f xs)" using assms by (metis mset_map mset_eq_imp_distinct_iff)
  show "mset (sort_key f ys) = mset xs" using assms(1) by simp
  show "sorted (map f (sort_key f ys))" by simp
  show "filter (\<lambda>x. f k = f x) (sort_key f ys) = filter (\<lambda>x. f k = f x) xs" if "k \<in> set (sort_key f ys)" for k
    using filter_key_single [OF dist that] filter_key_single [OF distx, of k] that eq by simp
qed

lemma CommitDigest_order:
  assumes "mset (dc_FacetVerdicts c) = mset fvs" "distinct (map fv_Kind fvs)"
  shows "CommitDigest (c\<lparr>dc_FacetVerdicts := fvs\<rparr>) = CommitDigest c"
  using sort_key_unique [OF assms] by (simp add: CommitDigest_def digest_text_def)

section \<open>Properties of the aggregation\<close>

definition critical_reject :: "FacetVerdict \<Rightarrow> bool" where
  "critical_reject fv \<longleftrightarrow> isCritical (fv_Kind fv) \<and> fv_Verdict fv = VerdictReject"

definition counts :: "AggregationPolicy \<Rightarrow> FacetVerdict \<Rightarrow> bool" where
  "counts policy fv \<longleftrightarrow> \<not> isCritical (fv_Kind fv) \<and> fv_Verdict fv = VerdictApprove \<and>
     fv_Confidence fv \<ge> MinConfidence policy"

lemma veto_pass_None: "veto_pass fvs = None \<longleftrightarrow> (\<forall>fv \<in> set fvs. \<not> critical_reject fv)"
  by (induction fvs) (auto simp: critical_reject_def)

lemma veto_pass_Some:
  "veto_pass fvs = Some r \<Longrightarrow> \<exists>fv \<in> set fvs. critical_reject fv \<and>
     r = (VerdictReject, fv_Kind fv, ''critical-veto: '' @ fv_Reason fv)"
  by (induction fvs) (auto simp: critical_reject_def split: if_splits)

lemma critical_pass_None:
  "critical_pass fvs = None \<longleftrightarrow> (\<forall>fv \<in> set fvs. isCritical (fv_Kind fv) \<longrightarrow> fv_Verdict fv = VerdictApprove)"
  by (induction fvs) auto

lemma critical_pass_Some: "critical_pass fvs = Some r \<Longrightarrow> \<exists>m. r = (VerdictAbstain, '''', m)"
  by (induction fvs) (auto split: if_splits)

lemma quorum_pass_Inr:
  "quorum_pass policy n fvs = Inr k \<longleftrightarrow>
     (\<forall>fv \<in> set fvs. \<not> isCritical (fv_Kind fv) \<longrightarrow> fv_Verdict fv \<noteq> VerdictReject) \<and>
     k = n + int (length (filter (counts policy) fvs))"
  by (induction policy n fvs rule: quorum_pass.induct) (auto simp: counts_def)

lemma quorum_pass_Inl: "quorum_pass policy n fvs = Inl r \<Longrightarrow> \<exists>m. r = (VerdictReject, '''', m)"
  by (induction policy n fvs rule: quorum_pass.induct) (auto split: if_splits)

lemma isCritical_not_empty: "isCritical k \<Longrightarrow> k \<noteq> ''''"
  by (auto simp: isCritical_def facet_defs)

lemma Aggregate_cases:
  assumes "Aggregate policy fvs = Inr (v, k, m)"
  obtains (veto) fv where "fv \<in> set fvs" "critical_reject fv" "v = VerdictReject" "k = fv_Kind fv"
  | (critical) "\<forall>fv \<in> set fvs. \<not> critical_reject fv"
      "\<exists>fv \<in> set fvs. isCritical (fv_Kind fv) \<and> fv_Verdict fv \<noteq> VerdictApprove" "v = VerdictAbstain" "k = ''''"
  | (reject) "\<forall>fv \<in> set fvs. isCritical (fv_Kind fv) \<longrightarrow> fv_Verdict fv = VerdictApprove"
      "\<exists>fv \<in> set fvs. \<not> isCritical (fv_Kind fv) \<and> fv_Verdict fv = VerdictReject" "v = VerdictReject" "k = ''''"
  | (quorum) "\<forall>fv \<in> set fvs. isCritical (fv_Kind fv) \<longrightarrow> fv_Verdict fv = VerdictApprove"
      "\<forall>fv \<in> set fvs. \<not> isCritical (fv_Kind fv) \<longrightarrow> fv_Verdict fv \<noteq> VerdictReject" "k = ''''"
      "v = (if int (length (filter (counts policy) fvs)) \<ge> ApproveThreshold policy then VerdictApprove else VerdictAbstain)"
proof (cases "veto_pass fvs")
  case (Some r)
  with veto_pass_Some [OF Some] assms veto show ?thesis by (auto simp: Aggregate_def split: if_splits)
next
  case veto_None: None
  show ?thesis
  proof (cases "critical_pass fvs")
    case (Some r)
    with critical_pass_Some [OF Some] veto_None assms have "v = VerdictAbstain" "k = ''''"
      by (auto simp: Aggregate_def split: if_splits)
    moreover have "\<exists>fv \<in> set fvs. isCritical (fv_Kind fv) \<and> fv_Verdict fv \<noteq> VerdictApprove"
      using Some critical_pass_None [of fvs] by auto
    ultimately show ?thesis using critical veto_None unfolding veto_pass_None by blast
  next
    case crit_None: None
    show ?thesis
    proof (cases "quorum_pass policy 0 fvs")
      case (Inl r)
      with quorum_pass_Inl [OF Inl] veto_None crit_None assms have "v = VerdictReject" "k = ''''"
        by (auto simp: Aggregate_def split: if_splits)
      moreover have "\<exists>fv \<in> set fvs. \<not> isCritical (fv_Kind fv) \<and> fv_Verdict fv = VerdictReject"
        using Inl quorum_pass_Inr [of policy 0 fvs] by auto
      ultimately show ?thesis using reject crit_None unfolding critical_pass_None by blast
    next
      case (Inr n)
      with veto_None crit_None assms have "k = ''''"
        "v = (if n \<ge> ApproveThreshold policy then VerdictApprove else VerdictAbstain)"
        by (auto simp: Aggregate_def split: if_splits)
      with Inr quorum crit_None show ?thesis unfolding critical_pass_None quorum_pass_Inr by simp
    qed
  qed
qed

lemma Aggregate_approveD:
  assumes "Aggregate policy fvs = Inr (VerdictApprove, k, m)" "fv \<in> set fvs"
  shows "isCritical (fv_Kind fv) \<Longrightarrow> fv_Verdict fv = VerdictApprove" "fv_Verdict fv \<noteq> VerdictReject"
proof -
  from assms have "(\<forall>fv \<in> set fvs. isCritical (fv_Kind fv) \<longrightarrow> fv_Verdict fv = VerdictApprove) \<and>
      (\<forall>fv \<in> set fvs. \<not> isCritical (fv_Kind fv) \<longrightarrow> fv_Verdict fv \<noteq> VerdictReject)"
    by (auto elim!: Aggregate_cases)
  with assms(2) show "isCritical (fv_Kind fv) \<Longrightarrow> fv_Verdict fv = VerdictApprove" "fv_Verdict fv \<noteq> VerdictReject"
    by auto
qed

text \<open>
  C7: when the aggregate approves, rejects and vetoes. Whatever the order of the facet
  verdicts: APPROVE means that every critical facet approved, no other facet rejected and
  enough confident approvals of other facets are there; REJECT means a critical reject, or
  another reject while every critical facet approves; a vetoing facet is named exactly when
  a critical facet rejects; the result is never unknown.
\<close>

theorem Aggregate_verdict:
  assumes "Aggregate policy fvs = Inr (v, k, m)"
  shows "(v = VerdictApprove \<longleftrightarrow>
      (\<forall>fv \<in> set fvs. (isCritical (fv_Kind fv) \<longrightarrow> fv_Verdict fv = VerdictApprove) \<and>
        fv_Verdict fv \<noteq> VerdictReject) \<and>
      int (length (filter (counts policy) fvs)) \<ge> ApproveThreshold policy) \<and>
    (v = VerdictReject \<longleftrightarrow> (\<exists>fv \<in> set fvs. critical_reject fv) \<or>
      (\<forall>fv \<in> set fvs. isCritical (fv_Kind fv) \<longrightarrow> fv_Verdict fv = VerdictApprove) \<and>
      (\<exists>fv \<in> set fvs. fv_Verdict fv = VerdictReject)) \<and>
    (k \<noteq> '''' \<longleftrightarrow> (\<exists>fv \<in> set fvs. critical_reject fv)) \<and> v \<noteq> VerdictUnknown"
  using assms
proof (cases rule: Aggregate_cases)
  case veto
  then show ?thesis using isCritical_not_empty by (auto simp: critical_reject_def)
qed (auto simp: critical_reject_def)

theorem Aggregate_verdict_witness:
  "\<exists>m. Aggregate DefaultAggregationPolicy [sample_verdict ''correctness'' VerdictApprove 1,
     sample_verdict ''safety'' VerdictReject 0] = Inr (VerdictReject, ''safety'', m)"
proof -
  obtain v k m where *: "Aggregate DefaultAggregationPolicy [sample_verdict ''correctness'' VerdictApprove 1,
     sample_verdict ''safety'' VerdictReject 0] = Inr (v, k, m)" "k = ''safety''"
    by (simp add: Aggregate_def sample_verdict_def isCritical_def facet_defs)
  from Aggregate_verdict [OF *(1)] * show ?thesis
    by (simp add: critical_reject_def sample_verdict_def isCritical_def facet_defs)
qed

section \<open>Properties of the gate\<close>

text \<open>
  The gate opens exactly for an approved decision whose window has closed without a
  timely successful challenge.
\<close>

theorem Gate_allowed_iff:
  "Gate_Evaluate g c ch = Inr GateAllowed \<longleftrightarrow>
     dc_Aggregate c = VerdictApprove \<and>
     SubmittedAt (dc_Decision c) + Duration (gate_window g) \<le> gate_nowFn g \<and>
     \<not> (\<exists>x. ch = Some x \<and> Successful x \<and> ch_At x \<le> SubmittedAt (dc_Decision c) + Duration (gate_window g))"
  by (cases "dc_Aggregate c"; cases ch) (auto simp: Gate_Evaluate_def Let_def)

text \<open>
  Once open the gate stays open as time goes by, unless a successful challenge dated inside
  the window turns up.
\<close>

lemma Gate_stays_open:
  assumes "Gate_Evaluate g c ch = Inr GateAllowed" "gate_nowFn g \<le> now"
    and "\<And>x. ch' = Some x \<Longrightarrow> Successful x \<Longrightarrow> ch_At x > SubmittedAt (dc_Decision c) + Duration (gate_window g)"
  shows "Gate_Evaluate (WithClock g now) c ch' = Inr GateAllowed"
  using assms(1,2) assms(3)
  by (cases "dc_Aggregate c"; cases ch') (force simp: Gate_Evaluate_def WithClock_def Let_def split: if_splits)+

end
