(* ===== verification/Byzantine.thy ===== *)
theory Byzantine
  imports Decision "HOL-Library.Product_Lexorder"
begin

text \<open>
  Aggregation over several voters per facet kind, \<open>decision/attest/byzantine.go\<close>. The
  rounding of the float addition and division in the median is the argument \<open>rnd\<close>. The
  lemmas show what the reduction guarantees against \<open>F\<close> faulty voters per kind, and two
  limits of it: one voter can turn a rejection into an approval, and a critical kind nobody
  voted on does not count against the decision.
\<close>

section \<open>The reduction\<close>

record ByzantinePolicy =
  bz_F :: int

definition DefaultByzantinePolicy :: ByzantinePolicy where
  "DefaultByzantinePolicy = \<lparr>bz_F = 1\<rparr>"

definition medianConfidence :: "(float64 \<Rightarrow> float64) \<Rightarrow> FacetVerdict list \<Rightarrow> float64" where
  "medianConfidence rnd vs =
     (if length vs = 0 then 0
      else let confs = sort (map fv_Confidence vs); mid = length confs div 2 in
        if length confs mod 2 = 1 then confs ! mid
        else rnd (rnd (confs ! (mid - 1) + confs ! mid) / 2))"

text \<open>The order of the rejects: confidence from the highest on, then reason; stable.\<close>

definition sort_rejects :: "FacetVerdict list \<Rightarrow> FacetVerdict list" where
  "sort_rejects vs = sort_key (\<lambda>v. (- fv_Confidence v, fv_Reason v)) vs"

definition reducePerKind ::
  "(float64 \<Rightarrow> float64) \<Rightarrow> FacetKind \<Rightarrow> FacetVerdict list \<Rightarrow> int \<Rightarrow> int \<Rightarrow> FacetVerdict" where
  "reducePerKind rnd kind voters f required =
     (let n = int (length voters) in
      if n < required then
        \<lparr>fv_Kind = kind, fv_Verdict = VerdictAbstain, fv_Confidence = 0,
         fv_Reason = ''insufficient-redundancy: '' @ show_int n @ '' voters, need '' @ show_int required @
           '' (F='' @ show_int f @ '')''\<rparr>
      else
        let rejects = filter (\<lambda>v. fv_Verdict v = VerdictReject) voters;
            approves = filter (\<lambda>v. fv_Verdict v = VerdictApprove) voters;
            abstains = length (filter (\<lambda>v. fv_Verdict v \<noteq> VerdictReject \<and> fv_Verdict v \<noteq> VerdictApprove) voters)
        in if int (length rejects) \<ge> wrap64 (f + 1) then
             (let rs = sort_rejects rejects in
              \<lparr>fv_Kind = kind, fv_Verdict = VerdictReject, fv_Confidence = medianConfidence rnd rs,
               fv_Reason = ''byzantine-robust reject: '' @ show_nat (length rejects) @ ''/'' @ show_int n @
                 '' rejects (F='' @ show_int f @ ''), citing '' @ quote_string (fv_Reason (rs ! 0))\<rparr>)
           else if int (length approves) \<ge> wrap64 (n - f) then
             \<lparr>fv_Kind = kind, fv_Verdict = VerdictApprove, fv_Confidence = medianConfidence rnd approves,
              fv_Reason = ''byzantine-robust approve: '' @ show_nat (length approves) @ ''/'' @ show_int n @
                '' approves (F='' @ show_int f @ ''), median conf''\<rparr>
           else
             \<lparr>fv_Kind = kind, fv_Verdict = VerdictAbstain, fv_Confidence = 0,
              fv_Reason = ''no-honest-quorum: rejects='' @ show_nat (length rejects) @ '' approves='' @
                show_nat (length approves) @ '' abstains='' @ show_nat abstains @ '' (F='' @ show_int f @
                '', N='' @ show_int n @ '')''\<rparr>)"

text \<open>The loop that groups the verdicts by kind and keeps the kinds in first-seen order.\<close>

fun group_kinds ::
  "(FacetKind \<rightharpoonup> FacetVerdict list) \<Rightarrow> FacetKind list \<Rightarrow> FacetVerdict list \<Rightarrow>
   (FacetKind \<rightharpoonup> FacetVerdict list) \<times> FacetKind list" where
  "group_kinds m order [] = (m, order)"
| "group_kinds m order (v # vs) =
     (case m (fv_Kind v) of
        None \<Rightarrow> group_kinds (m(fv_Kind v \<mapsto> [v])) (order @ [fv_Kind v]) vs
      | Some ws \<Rightarrow> group_kinds (m(fv_Kind v \<mapsto> ws @ [v])) order vs)"

datatype byz_error = ErrEmptyByzantineInput | NegativeByzantineBound int | ByzAggregateFailed decision_error

definition reduce_all :: "(float64 \<Rightarrow> float64) \<Rightarrow> int \<Rightarrow> FacetVerdict list \<Rightarrow> FacetVerdict list" where
  "reduce_all rnd f verdicts =
     (let (byKind, kindOrder) = group_kinds Map.empty [] verdicts
      in map (\<lambda>kind. reducePerKind rnd kind (the (byKind kind)) f (wrap64 (2 * f + 1))) kindOrder)"

definition AggregateByzantineRobust ::
  "(float64 \<Rightarrow> float64) \<Rightarrow> ByzantinePolicy \<Rightarrow> AggregationPolicy \<Rightarrow> FacetVerdict list \<Rightarrow>
   byz_error + agg_result \<times> FacetVerdict list" where
  "AggregateByzantineRobust rnd bz policy verdicts =
     (if length verdicts = 0 then Inl ErrEmptyByzantineInput
      else if bz_F bz < 0 then Inl (NegativeByzantineBound (bz_F bz))
      else let reduced = reduce_all rnd (bz_F bz) verdicts in
        case Aggregate policy reduced of
          Inl e \<Rightarrow> Inl (ByzAggregateFailed e)
        | Inr r \<Rightarrow> Inr (r, reduced))"

section \<open>Grouping and counting\<close>

definition of_kind :: "FacetKind \<Rightarrow> FacetVerdict list \<Rightarrow> FacetVerdict list" where
  "of_kind k vs = filter (\<lambda>v. fv_Kind v = k) vs"

definition votes :: "Verdict \<Rightarrow> FacetVerdict list \<Rightarrow> int" where
  "votes u vs = int (length (filter (\<lambda>v. fv_Verdict v = u) vs))"

lemma group_kinds_spec:
  assumes "\<forall>k. m k = (if of_kind k us = [] then None else Some (of_kind k us))"
    and "distinct order" "set order = fv_Kind ` set us"
    and "group_kinds m order vs = (m', order')"
  shows "(\<forall>k. m' k = (if of_kind k (us @ vs) = [] then None else Some (of_kind k (us @ vs)))) \<and>
    distinct order' \<and> set order' = fv_Kind ` set (us @ vs)"
  using assms
proof (induction vs arbitrary: us m order)
  case (Cons v vs)
  let ?k = "fv_Kind v"
  define m1 where "m1 = (case m ?k of None \<Rightarrow> m(?k \<mapsto> [v]) | Some ws \<Rightarrow> m(?k \<mapsto> ws @ [v]))"
  define order1 where "order1 = (case m ?k of None \<Rightarrow> order @ [?k] | Some ws \<Rightarrow> order)"
  have "of_kind ?k us = [] \<longleftrightarrow> ?k \<notin> fv_Kind ` set us"
    unfolding of_kind_def filter_empty_conv image_iff by (metis (full_types))
  then have "m ?k = None \<longleftrightarrow> ?k \<notin> set order"
    using Cons.prems(1) [THEN spec, of ?k] Cons.prems(3) by simp
  then have "distinct order1 \<and> set order1 = fv_Kind ` set (us @ [v])"
    using Cons.prems(2,3) by (auto simp: order1_def split: option.splits)
  moreover have "\<forall>k. m1 k = (if of_kind k (us @ [v]) = [] then None else Some (of_kind k (us @ [v])))"
    using Cons.prems(1) by (auto simp: m1_def of_kind_def split: option.splits if_splits)
  moreover have "group_kinds m1 order1 vs = (m', order')"
    using Cons.prems(4) by (simp add: m1_def order1_def split: option.splits)
  ultimately have "(\<forall>k. m' k = (if of_kind k ((us @ [v]) @ vs) = [] then None else Some (of_kind k ((us @ [v]) @ vs)))) \<and>
      distinct order' \<and> set order' = fv_Kind ` set ((us @ [v]) @ vs)"
    by (intro Cons.IH [of m1 "us @ [v]" order1]) blast+
  then show ?case unfolding append_assoc append_Cons append_Nil .
qed simp

lemma reduce_all_spec:
  obtains order where "distinct order" "set order = fv_Kind ` set vs"
    "reduce_all rnd f vs = map (\<lambda>k. reducePerKind rnd k (of_kind k vs) f (wrap64 (2 * f + 1))) order"
proof -
  obtain m order where g: "group_kinds Map.empty [] vs = (m, order)" by fastforce
  from group_kinds_spec [of Map.empty "[]" "[]" vs m order] g
  have *: "\<forall>k. m k = (if of_kind k vs = [] then None else Some (of_kind k vs))" "distinct order"
    "set order = fv_Kind ` set vs" by (simp_all add: of_kind_def)
  have "the (m k) = of_kind k vs" if "k \<in> set order" for k
    using that * by (auto simp: of_kind_def filter_empty_conv)
  with g have "reduce_all rnd f vs = map (\<lambda>k. reducePerKind rnd k (of_kind k vs) f (wrap64 (2 * f + 1))) order"
    by (simp add: reduce_all_def)
  with * that show ?thesis by blast
qed

lemma reducePerKind_verdict:
  assumes "0 \<le> f" "f < 2 ^ 62" "int (length voters) < 2 ^ 62"
  shows "fv_Verdict (reducePerKind rnd kind voters f (wrap64 (2 * f + 1))) =
     (if int (length voters) < 2 * f + 1 then VerdictAbstain
      else if votes VerdictReject voters \<ge> f + 1 then VerdictReject
      else if votes VerdictApprove voters \<ge> int (length voters) - f then VerdictApprove
      else VerdictAbstain)"
proof -
  have "wrap64 (2 * f + 1) = 2 * f + 1" "wrap64 (f + 1) = f + 1" "wrap64 (int (length voters) - f) = int (length voters) - f"
    using assms by (auto intro!: wrap64_id)
  then show ?thesis by (simp add: reducePerKind_def Let_def votes_def)
qed

lemma fv_Kind_reducePerKind [simp]: "fv_Kind (reducePerKind rnd kind voters f r) = kind"
  by (simp add: reducePerKind_def Let_def)

lemma votes_sum: "votes VerdictReject vs + votes VerdictApprove vs \<le> int (length vs)"
  by (induction vs) (auto simp: votes_def)

lemma card_one_faulty: "card {i. P i \<and> Q i \<and> i = (a :: nat)} \<le> 1"
  by (rule order_trans [OF card_mono [of "{a}"]]) auto

text \<open>
  More voters with a property than faulty voters: one of them is honest. Voters are
  positions of the verdict list, and \<open>bad\<close> marks the faulty ones.
\<close>

lemma honest_voter:
  assumes "card {i. i < length vs \<and> fv_Kind (vs ! i) = k \<and> bad i} \<le> nat f"
    and "int (length (filter P (of_kind k vs))) > f" "0 \<le> f"
  shows "\<exists>i < length vs. fv_Kind (vs ! i) = k \<and> P (vs ! i) \<and> \<not> bad i"
proof (rule ccontr)
  assume *: "\<not> ?thesis"
  have "length (filter P (of_kind k vs)) = card {i. i < length vs \<and> P (vs ! i) \<and> fv_Kind (vs ! i) = k}"
    by (simp add: of_kind_def length_filter_conv_card conj_commute)
  also have "\<dots> \<le> card {i. i < length vs \<and> fv_Kind (vs ! i) = k \<and> bad i}"
    by (rule card_mono) (use * in auto)
  finally show False using assms by simp
qed

lemma honest_unanimous:
  assumes "card {i. i < length vs \<and> fv_Kind (vs ! i) = k \<and> bad i} \<le> nat f" "0 \<le> f"
    and "\<And>i. i < length vs \<Longrightarrow> fv_Kind (vs ! i) = k \<Longrightarrow> \<not> bad i \<Longrightarrow> P (vs ! i)"
  shows "int (length (of_kind k vs)) - f \<le> int (length (filter P (of_kind k vs)))"
proof -
  have fin: "finite {i. i < length vs \<and> fv_Kind (vs ! i) = k \<and> bad i}" by simp
  have "length (filter (\<lambda>v. \<not> P v) (of_kind k vs)) =
      card {i. i < length vs \<and> \<not> P (vs ! i) \<and> fv_Kind (vs ! i) = k}"
    by (simp add: of_kind_def length_filter_conv_card conj_commute)
  also have "\<dots> \<le> card {i. i < length vs \<and> fv_Kind (vs ! i) = k \<and> bad i}"
    by (rule card_mono [OF fin]) (use assms(3) in auto)
  finally show ?thesis
    using assms(1,2) sum_length_filter_compl [of P "of_kind k vs"] by linarith
qed

section \<open>Properties of the aggregation\<close>

text \<open>The verdict of a kind in the reduced list, with the hypotheses on the sizes of the run.\<close>

definition bounded_run :: "int \<Rightarrow> FacetVerdict list \<Rightarrow> (nat \<Rightarrow> bool) \<Rightarrow> bool" where
  "bounded_run f vs bad \<longleftrightarrow> 0 \<le> f \<and> f < 2 ^ 62 \<and> int (length vs) < 2 ^ 62 \<and>
     (\<forall>k. card {i. i < length vs \<and> fv_Kind (vs ! i) = k \<and> bad i} \<le> nat f)"

lemma reduced_verdict:
  assumes "bounded_run f vs bad"
  shows "fv_Verdict (reducePerKind rnd k (of_kind k vs) f (wrap64 (2 * f + 1))) =
     (if int (length (of_kind k vs)) < 2 * f + 1 then VerdictAbstain
      else if votes VerdictReject (of_kind k vs) \<ge> f + 1 then VerdictReject
      else if votes VerdictApprove (of_kind k vs) \<ge> int (length (of_kind k vs)) - f then VerdictApprove
      else VerdictAbstain)"
proof (rule reducePerKind_verdict)
  show "0 \<le> f" "f < 2 ^ 62" using assms by (simp_all add: bounded_run_def)
  have "length (of_kind k vs) \<le> length vs" by (simp add: of_kind_def)
  moreover have "int (length vs) < 2 ^ 62" using assms by (simp add: bounded_run_def)
  ultimately show "int (length (of_kind k vs)) < 2 ^ 62" by linarith
qed


definition v_of :: "FacetKind \<Rightarrow> Verdict \<Rightarrow> FacetVerdict" where
  "v_of k v = \<lparr>fv_Kind = k, fv_Verdict = v, fv_Confidence = 1, fv_Reason = ''r''\<rparr>"

lemma v_of_simps [simp]:
  "fv_Kind (v_of k v) = k" "fv_Verdict (v_of k v) = v" "fv_Confidence (v_of k v) = 1" "fv_Reason (v_of k v) = ''r''"
  by (simp_all add: v_of_def)


text \<open>
  A veto of the aggregate is an honest voter's. When the aggregate is vetoed by a kind,
  that kind is critical and an honest voter rejected it; \<open>F\<close> faulty voters alone cannot veto.
\<close>

theorem byzantine_veto_honest:
  assumes "AggregateByzantineRobust rnd bz policy vs = Inr ((v, k, m), reduced)" "k \<noteq> ''''"
    and "bounded_run (bz_F bz) vs bad"
  shows "v = VerdictReject \<and> isCritical k \<and>
    (\<exists>i < length vs. fv_Kind (vs ! i) = k \<and> fv_Verdict (vs ! i) = VerdictReject \<and> \<not> bad i)"
proof -
  obtain order where order: "reduce_all rnd (bz_F bz) vs =
      map (\<lambda>k. reducePerKind rnd k (of_kind k vs) (bz_F bz) (wrap64 (2 * bz_F bz + 1))) order"
    by (rule reduce_all_spec)
  from assms(1) have agg: "Aggregate policy (reduce_all rnd (bz_F bz) vs) = Inr (v, k, m)"
    by (auto simp: AggregateByzantineRobust_def Let_def split: if_splits sum.splits)
  then obtain fv where fv: "fv \<in> set (reduce_all rnd (bz_F bz) vs)" "critical_reject fv" "v = VerdictReject" "k = fv_Kind fv"
    by (rule Aggregate_cases) (use assms(2) in auto)
  with order have rej: "fv_Verdict (reducePerKind rnd k (of_kind k vs) (bz_F bz) (wrap64 (2 * bz_F bz + 1))) = VerdictReject"
    by (auto simp: critical_reject_def)
  then have "votes VerdictReject (of_kind k vs) > bz_F bz"
    using reduced_verdict [OF assms(3)] by (auto split: if_splits)
  with honest_voter [of vs k bad "bz_F bz" "\<lambda>x. fv_Verdict x = VerdictReject"] assms(3)
  have "\<exists>i < length vs. fv_Kind (vs ! i) = k \<and> fv_Verdict (vs ! i) = VerdictReject \<and> \<not> bad i"
    by (simp add: bounded_run_def votes_def)
  with fv show ?thesis by (simp add: critical_reject_def)
qed

text \<open>A run with three voters on each of the four kinds; the arguments are the safety votes.\<close>

definition panel :: "Verdict \<Rightarrow> Verdict \<Rightarrow> Verdict \<Rightarrow> FacetVerdict list" where
  "panel a b c = [v_of ''safety'' a, v_of ''safety'' b, v_of ''safety'' c] @
     replicate 3 (v_of ''correctness'' VerdictApprove) @ replicate 3 (v_of ''spec_compliance'' VerdictApprove) @
     replicate 3 (v_of ''equivocation'' VerdictApprove)"

lemma length_panel: "length (panel a b c) = 12"
  by (simp add: panel_def)

lemma median_three: "medianConfidence rnd [v_of k a, v_of l b, v_of j c] = 1"
  by (simp add: medianConfidence_def)

lemmas panel_eval = AggregateByzantineRobust_def reduce_all_def reducePerKind_def Aggregate_def panel_def
  DefaultByzantinePolicy_def DefaultAggregationPolicy_def isCritical_def facet_defs median_three
  wrap64_small Let_def numeral_3_eq_3

lemma panel_reject:
  "\<exists>m reduced. AggregateByzantineRobust rnd DefaultByzantinePolicy DefaultAggregationPolicy
     (panel VerdictReject VerdictReject VerdictApprove) = Inr ((VerdictReject, ''safety'', m), reduced)"
  by (simp add: panel_eval)

theorem byzantine_veto_honest_witness:
  "\<exists>i < length (panel VerdictReject VerdictReject VerdictApprove).
     fv_Verdict (panel VerdictReject VerdictReject VerdictApprove ! i) = VerdictReject \<and> i \<noteq> 0"
proof -
  let ?vs = "panel VerdictReject VerdictReject VerdictApprove"
  obtain m reduced where agg: "AggregateByzantineRobust id DefaultByzantinePolicy DefaultAggregationPolicy ?vs =
      Inr ((VerdictReject, ''safety'', m), reduced)" using panel_reject by blast
  have "bounded_run (bz_F DefaultByzantinePolicy) ?vs (\<lambda>i. i = 0)"
    using card_one_faulty [of "\<lambda>i. i < length ?vs" "\<lambda>i. fv_Kind (?vs ! i) = _" 0]
    by (simp add: bounded_run_def DefaultByzantinePolicy_def length_panel)
  from byzantine_veto_honest [OF agg _ this] show ?thesis by auto
qed

text \<open>
  A single voter can flip the aggregate between REJECT and APPROVE. With \<open>F = 1\<close> and three
  voters on every kind, the second safety voter alone decides whether the decision is
  vetoed or approved, and the approval goes through although an honest voter rejected: the
  file's comment promises that no single voter can do this and that an approval means that
  every honest voter approved.
\<close>

theorem byzantine_single_voter_flips:
  "(\<exists>m reduced. AggregateByzantineRobust rnd DefaultByzantinePolicy DefaultAggregationPolicy
      (panel VerdictReject VerdictReject VerdictApprove) = Inr ((VerdictReject, ''safety'', m), reduced)) \<and>
   (\<exists>m reduced. AggregateByzantineRobust rnd DefaultByzantinePolicy DefaultAggregationPolicy
      (panel VerdictReject VerdictApprove VerdictApprove) = Inr ((VerdictApprove, '''', m), reduced))"
  by (rule conjI [OF panel_reject]) (simp add: panel_eval)

text \<open>
  A critical kind without any voter is not reduced at all, and the decision is approved
  without it; with one or two voters the kind would reduce to ABSTAIN and block.
\<close>

lemma byzantine_missing_critical_kind_approves:
  "\<exists>m reduced. AggregateByzantineRobust rnd DefaultByzantinePolicy DefaultAggregationPolicy
      (replicate 3 (v_of ''correctness'' VerdictApprove) @ replicate 3 (v_of ''spec_compliance'' VerdictApprove)) =
    Inr ((VerdictApprove, '''', m), reduced)"
  by (simp add: panel_eval)

end
