(* ===== verification/Conformal.thy ===== *)
theory Conformal
  imports Decision
begin

text \<open>
  Risk-controlled abstention, \<open>decision/attest/conformal.go\<close>. The rounding of the float
  division is the argument \<open>rnd\<close>; every result below holds for any rounding, because the
  calibration and the risk report divide the same integers. \<open>NaN\<close> is \<open>None\<close>. The lemmas show
  that calibration returns the least threshold within the error budget when the confidences
  are distinct, and how ties, the fail-closed value and critical rejects fall outside what
  the file's comments promise.
\<close>

section \<open>Calibration\<close>

record CalibrationSample =
  cal_Confidence :: float64
  cal_Correct :: bool
  cal_Verdict :: Verdict

datatype conformal_error = ErrCalibrationEmpty | ErrInvalidAlpha | ConformalAggregate decision_error

text \<open>The arrays \<open>suffixErr\<close> and \<open>suffixCnt\<close>, filled from the back.\<close>

fun suffix_counts :: "CalibrationSample list \<Rightarrow> (int \<times> int) list" where
  "suffix_counts [] = [(0, 0)]"
| "suffix_counts (s # ss) =
     (let rest = suffix_counts ss; (e, c) = hd rest
      in (if \<not> cal_Correct s then e + 1 else e, c + 1) # rest)"

fun sweep :: "(float64 \<Rightarrow> float64) \<Rightarrow> float64 \<Rightarrow> CalibrationSample list \<Rightarrow> (int \<times> int) list \<Rightarrow> float64 option" where
  "sweep rnd alpha (s # ss) ((e, c) # rest) =
     (if c = 0 then sweep rnd alpha ss rest
      else if rnd (of_int e / of_int c) \<le> alpha then Some (cal_Confidence s)
      else sweep rnd alpha ss rest)"
| "sweep rnd alpha _ _ = None"

definition usable :: "CalibrationSample list \<Rightarrow> CalibrationSample list" where
  "usable cal = filter (\<lambda>s. cal_Verdict s \<noteq> VerdictAbstain) cal"

definition CalibrateAbstention ::
  "(float64 \<Rightarrow> float64) \<Rightarrow> CalibrationSample list \<Rightarrow> float64 \<Rightarrow> conformal_error + float64" where
  "CalibrateAbstention rnd cal alpha =
     (if alpha \<le> 0 \<or> alpha > 1 then Inl ErrInvalidAlpha
      else if length (usable cal) = 0 then Inl ErrCalibrationEmpty
      else let filtered = sort_key cal_Confidence (usable cal) in
        case sweep rnd alpha filtered (suffix_counts filtered) of
          Some tau \<Rightarrow> Inr tau
        | None \<Rightarrow> Inr 1)"

definition truncate :: "gostring \<Rightarrow> nat \<Rightarrow> gostring" where
  "truncate s n = (if length s \<le> n then s else take n s @ ''...'')"

definition abstain_below :: "float64 \<Rightarrow> FacetVerdict \<Rightarrow> FacetVerdict" where
  "abstain_below tau v =
     (if fv_Verdict v \<noteq> VerdictAbstain \<and> fv_Confidence v < tau
      then \<lparr>fv_Kind = fv_Kind v, fv_Verdict = VerdictAbstain, fv_Confidence = fv_Confidence v,
            fv_Reason = ''conformal-abstain: conf='' @ show_fixed 4 (fv_Confidence v) @ '' < tau='' @
              show_fixed 4 tau @ '' (was '' @ Verdict_String (fv_Verdict v) @ '': '' @
              truncate (fv_Reason v) 80 @ '')''\<rparr>
      else v)"

definition ApplyConformalAbstention :: "FacetVerdict list \<Rightarrow> float64 \<Rightarrow> FacetVerdict list" where
  "ApplyConformalAbstention verdicts tau = map (abstain_below tau) verdicts"

definition AggregateWithConformalAbstention ::
  "(float64 \<Rightarrow> float64) \<Rightarrow> CalibrationSample list \<Rightarrow> float64 \<Rightarrow> AggregationPolicy \<Rightarrow> FacetVerdict list \<Rightarrow>
   conformal_error + agg_result \<times> float64" where
  "AggregateWithConformalAbstention rnd cal alpha policy verdicts =
     (case CalibrateAbstention rnd cal alpha of
        Inl e \<Rightarrow> Inl e
      | Inr tau \<Rightarrow>
          (case Aggregate policy (ApplyConformalAbstention verdicts tau) of
             Inl e \<Rightarrow> Inl (ConformalAggregate e)
           | Inr (final, veto, reason) \<Rightarrow>
               let prefix = ''[tau='' @ show_fixed 4 tau @ '' alpha='' @ show_fixed 2 alpha @ ''] '';
                   fullReason = (if reason \<noteq> '''' then prefix @ reason
                     else if final = VerdictApprove then prefix @ ''approved'' else reason)
               in Inr ((final, veto, fullReason), tau)))"

definition EmpiricalRiskAtTau ::
  "(float64 \<Rightarrow> float64) \<Rightarrow> CalibrationSample list \<Rightarrow> float64 \<Rightarrow> float64 option \<times> int" where
  "EmpiricalRiskAtTau rnd cal tau =
     (let kept = filter (\<lambda>s. cal_Verdict s \<noteq> VerdictAbstain \<and> cal_Confidence s \<ge> tau) cal;
          tot = int (length kept); errs = int (length (filter (\<lambda>s. \<not> cal_Correct s) kept))
      in if tot = 0 then (None, 0) else (Some (rnd (of_int errs / of_int tot)), tot))"

section \<open>The sweep\<close>

definition rate :: "(float64 \<Rightarrow> float64) \<Rightarrow> CalibrationSample list \<Rightarrow> float64" where
  "rate rnd ss = rnd (of_int (int (length (filter (\<lambda>s. \<not> cal_Correct s) ss))) / of_int (int (length ss)))"

lemma hd_suffix_counts:
  "hd (suffix_counts ss) = (int (length (filter (\<lambda>s. \<not> cal_Correct s) ss)), int (length ss))"
  by (induction ss) (auto simp: Let_def)

lemma suffix_counts_not_Nil: "suffix_counts ss \<noteq> []"
  by (cases ss) (simp_all add: Let_def split: prod.splits)

lemma sweep_Cons:
  "sweep rnd alpha (s # ss) (suffix_counts (s # ss)) =
     (if rate rnd (s # ss) \<le> alpha then Some (cal_Confidence s) else sweep rnd alpha ss (suffix_counts ss))"
  by (simp add: hd_suffix_counts rate_def Let_def add.commute)

declare suffix_counts.simps(2) [simp del]

lemma sweep_Some:
  "sweep rnd alpha xs (suffix_counts xs) = Some t \<Longrightarrow>
   \<exists>us s vs. xs = us @ s # vs \<and> t = cal_Confidence s \<and> rate rnd (s # vs) \<le> alpha \<and>
     (\<forall>u1 u2. us = u1 @ u2 \<longrightarrow> u2 \<noteq> [] \<longrightarrow> rate rnd (u2 @ s # vs) > alpha)"
proof (induction xs)
  case (Cons x xs)
  show ?case
  proof (cases "rate rnd (x # xs) \<le> alpha")
    case True
    with Cons.prems show ?thesis by (intro exI [of _ "[]"] exI [of _ x] exI [of _ xs]) (simp add: sweep_Cons)
  next
    case False
    with Cons obtain us s vs where *: "xs = us @ s # vs" "t = cal_Confidence s" "rate rnd (s # vs) \<le> alpha"
      "\<forall>u1 u2. us = u1 @ u2 \<longrightarrow> u2 \<noteq> [] \<longrightarrow> rate rnd (u2 @ s # vs) > alpha"
      by (auto simp: sweep_Cons)
    have "\<forall>u1 u2. x # us = u1 @ u2 \<longrightarrow> u2 \<noteq> [] \<longrightarrow> rate rnd (u2 @ s # vs) > alpha"
      using False * by (auto simp: Cons_eq_append_conv)
    with * show ?thesis by (intro exI [of _ "x # us"] exI [of _ s] exI [of _ vs]) simp
  qed
qed simp

lemma sweep_None:
  "sweep rnd alpha xs (suffix_counts xs) = None \<Longrightarrow> xs = us @ vs \<Longrightarrow> vs \<noteq> [] \<Longrightarrow> rate rnd vs > alpha"
proof (induction xs arbitrary: us)
  case (Cons x xs)
  then show ?case by (cases us) (auto simp: sweep_Cons split: if_splits)
qed simp

text \<open>With distinct confidences the samples at or above one of them are a tail of the sorted list.\<close>

lemma sorted_tail:
  assumes "sorted (map f (us @ s # vs))" "distinct (map f (us @ s # vs))"
  shows "filter (\<lambda>x. f s \<le> f x) (us @ s # vs) = s # vs"
proof -
  have "f x < f s" if "x \<in> set us" for x
    using assms that by (auto simp: sorted_append order.not_eq_order_implies_strict image_iff)
  then have "filter (\<lambda>x. f s \<le> f x) us = []" by (simp add: filter_empty_conv not_le)
  moreover have "filter (\<lambda>x. f s \<le> f x) vs = vs"
    using assms by (auto simp: sorted_append filter_id_conv)
  ultimately show ?thesis by simp
qed

lemma risk_sorted:
  "EmpiricalRiskAtTau rnd cal t =
     (let kept = filter (\<lambda>s. t \<le> cal_Confidence s) (sort_key cal_Confidence (usable cal))
      in if kept = [] then (None, 0) else (Some (rate rnd kept), int (length kept)))"
proof -
  let ?kept = "filter (\<lambda>s. t \<le> cal_Confidence s) (sort_key cal_Confidence (usable cal))"
  let ?kept' = "filter (\<lambda>s. cal_Verdict s \<noteq> VerdictAbstain \<and> t \<le> cal_Confidence s) cal"
  have "mset ?kept = mset ?kept'" by (simp add: usable_def filter_filter_mset conj_commute)
  then have "length ?kept = length ?kept'"
    "length (filter (\<lambda>s. \<not> cal_Correct s) ?kept) = length (filter (\<lambda>s. \<not> cal_Correct s) ?kept')"
    by (metis size_mset, metis mset_filter size_mset)
  then show ?thesis unfolding EmpiricalRiskAtTau_def rate_def Let_def by (metis length_0_conv of_nat_eq_0_iff)
qed

section \<open>Properties\<close>

definition within_budget :: "(float64 \<Rightarrow> float64) \<Rightarrow> CalibrationSample list \<Rightarrow> float64 \<Rightarrow> float64 \<Rightarrow> bool" where
  "within_budget rnd cal alpha t \<longleftrightarrow> (\<exists>r n. EmpiricalRiskAtTau rnd cal t = (Some r, n) \<and> r \<le> alpha)"

definition over_budget :: "(float64 \<Rightarrow> float64) \<Rightarrow> CalibrationSample list \<Rightarrow> float64 \<Rightarrow> float64 \<Rightarrow> bool" where
  "over_budget rnd cal alpha t \<longleftrightarrow> (\<exists>r n. EmpiricalRiskAtTau rnd cal t = (Some r, n) \<and> r > alpha)"

text \<open>
  Calibration meets the error budget with the least threshold. For distinct confidences
  either the returned threshold keeps samples whose empirical error rate is at most alpha
  while every lower confidence in the set exceeds alpha, or every confidence in the set
  exceeds alpha and the result is the fail-closed value one.
\<close>

theorem CalibrateAbstention_least:
  assumes "CalibrateAbstention rnd cal alpha = Inr tau" "distinct (map cal_Confidence (usable cal))"
  shows "within_budget rnd cal alpha tau \<and>
      (\<forall>s \<in> set (usable cal). cal_Confidence s < tau \<longrightarrow> over_budget rnd cal alpha (cal_Confidence s)) \<or>
    tau = 1 \<and> (\<forall>s \<in> set (usable cal). over_budget rnd cal alpha (cal_Confidence s))"
proof -
  let ?xs = "sort_key cal_Confidence (usable cal)"
  have dist: "distinct (map cal_Confidence ?xs)"
    using assms(2) by (metis mset_map mset_sort mset_eq_imp_distinct_iff)
  have risk: "EmpiricalRiskAtTau rnd cal (cal_Confidence s) = (Some (rate rnd (s # vs)), int (length (s # vs)))"
    if "?xs = us @ s # vs" for us s vs
    using sorted_tail [of cal_Confidence us s vs] dist that sorted_sort_key [of cal_Confidence "usable cal"]
    by (simp add: risk_sorted Let_def)
  show ?thesis
  proof (cases "sweep rnd alpha ?xs (suffix_counts ?xs)")
    case (Some t)
    with assms(1) have "t = tau" by (simp add: CalibrateAbstention_def Let_def split: if_splits)
    with sweep_Some [OF Some] obtain us s vs where s: "?xs = us @ s # vs" "tau = cal_Confidence s"
      "rate rnd (s # vs) \<le> alpha" "\<forall>u1 u2. us = u1 @ u2 \<longrightarrow> u2 \<noteq> [] \<longrightarrow> rate rnd (u2 @ s # vs) > alpha" by blast
    have below: "over_budget rnd cal alpha (cal_Confidence x)"
      if "x \<in> set (usable cal)" "cal_Confidence x < tau" for x
    proof -
      have "x \<in> set (us @ s # vs)" using that(1) s(1) by (metis set_sort)
      moreover have "sorted (map cal_Confidence (us @ s # vs))" using s(1) by (metis sorted_sort_key)
      ultimately have "x \<in> set us" using that(2) s(2) by (auto simp: sorted_append)
      then obtain u1 u2 where us: "us = u1 @ x # u2" by (meson split_list)
      with s(4) have "rate rnd ((x # u2) @ s # vs) > alpha" by blast
      with risk [of u1 x "u2 @ s # vs"] s(1) us show ?thesis by (simp add: over_budget_def)
    qed
    from risk [OF s(1)] s(2,3) have "within_budget rnd cal alpha tau" by (simp add: within_budget_def)
    with below show ?thesis by blast
  next
    case None
    with assms(1) have tau: "tau = 1" by (simp add: CalibrateAbstention_def Let_def split: if_splits)
    have "over_budget rnd cal alpha (cal_Confidence x)" if "x \<in> set (usable cal)" for x
    proof -
      from that have "x \<in> set ?xs" by simp
      then obtain u1 u2 where us: "?xs = u1 @ x # u2" by (meson split_list)
      with sweep_None [OF None us] risk [OF us] show ?thesis by (simp add: over_budget_def)
    qed
    with tau show ?thesis by blast
  qed
qed

definition cal_of :: "float64 \<Rightarrow> bool \<Rightarrow> CalibrationSample" where
  "cal_of c b = \<lparr>cal_Confidence = c, cal_Correct = b, cal_Verdict = VerdictApprove\<rparr>"

lemmas cal_eval = CalibrateAbstention_def EmpiricalRiskAtTau_def usable_def cal_of_def suffix_counts.simps(2)
  sort_key_def Let_def

theorem CalibrateAbstention_least_witness:
  "CalibrateAbstention (\<lambda>x. x) [cal_of (1 / 2) False, cal_of (3 / 4) True] (1 / 4) = Inr (3 / 4) \<and>
   over_budget (\<lambda>x. x) [cal_of (1 / 2) False, cal_of (3 / 4) True] (1 / 4) (1 / 2)"
proof -
  have run: "CalibrateAbstention (\<lambda>x. x) [cal_of (1 / 2) False, cal_of (3 / 4) True] (1 / 4) = Inr (3 / 4)"
    by (simp add: cal_eval)
  moreover have "distinct (map cal_Confidence (usable [cal_of (1 / 2) False, cal_of (3 / 4) True]))"
    and "cal_of (1 / 2) False \<in> set (usable [cal_of (1 / 2) False, cal_of (3 / 4) True])"
    by (simp_all add: usable_def cal_of_def)
  moreover have conf: "cal_Confidence (cal_of (1 / 2) False) = 1 / 2" by (simp add: cal_of_def)
  moreover have "(1 / 2 :: rat) < 3 / 4" "(3 / 4 :: rat) \<noteq> 1" by simp_all
  ultimately show ?thesis using CalibrateAbstention_least [OF run] by (metis (no_types))
qed

text \<open>
  Ties break the budget. With one wrong and one right sample of the same confidence the
  calibrated threshold keeps both, and the empirical error rate at the threshold is one
  half although the budget was one quarter; the comment promises a rate of at most alpha.
  (All values are exact in binary floating point.)
\<close>

theorem calibration_ties_exceed_budget:
  "CalibrateAbstention (\<lambda>x. x) [cal_of (1 / 2) False, cal_of (1 / 2) True] (1 / 4) = Inr (1 / 2) \<and>
   EmpiricalRiskAtTau (\<lambda>x. x) [cal_of (1 / 2) False, cal_of (1 / 2) True] (1 / 2) = (Some (1 / 2), 2)"
  by (simp add: cal_eval)

text \<open>
  The fail-closed threshold one is not closed: verdicts of confidence one pass it, also
  when the calibration showed that these are wrong.
\<close>

lemma fail_closed_leaks:
  "CalibrateAbstention (\<lambda>x. x) [cal_of 1 False] (1 / 4) = Inr 1 \<and>
   ApplyConformalAbstention [sample_verdict k VerdictApprove 1] 1 = [sample_verdict k VerdictApprove 1]"
  by (simp add: cal_eval ApplyConformalAbstention_def abstain_below_def sample_verdict_def)

lemma abstain_below_simps:
  "fv_Kind (abstain_below tau v) = fv_Kind v"
  "fv_Verdict (abstain_below tau v) = (if fv_Confidence v < tau then VerdictAbstain else fv_Verdict v)"
  by (simp_all add: abstain_below_def)

text \<open>
  What an approval under conformal abstention still means. Every critical facet approved
  with a confidence of at least the threshold, and every rejecting facet was below it; so a
  critical reject always keeps the decision from being approved.
\<close>

theorem conformal_approval:
  assumes "AggregateWithConformalAbstention rnd cal alpha policy vs = Inr ((VerdictApprove, k, m), tau)"
  shows "CalibrateAbstention rnd cal alpha = Inr tau \<and>
    (\<forall>fv \<in> set vs. (isCritical (fv_Kind fv) \<longrightarrow> fv_Verdict fv = VerdictApprove \<and> fv_Confidence fv \<ge> tau) \<and>
      (fv_Verdict fv = VerdictReject \<longrightarrow> fv_Confidence fv < tau))"
proof -
  from assms obtain r where cal: "CalibrateAbstention rnd cal alpha = Inr tau"
    and agg: "Aggregate policy (ApplyConformalAbstention vs tau) = Inr (VerdictApprove, k, r)"
    by (auto simp: AggregateWithConformalAbstention_def Let_def split: sum.splits prod.splits)
  have "(isCritical (fv_Kind fv) \<longrightarrow> fv_Verdict fv = VerdictApprove \<and> fv_Confidence fv \<ge> tau) \<and>
      (fv_Verdict fv = VerdictReject \<longrightarrow> fv_Confidence fv < tau)" if fv: "fv \<in> set vs" for fv
  proof -
    have "abstain_below tau fv \<in> set (ApplyConformalAbstention vs tau)"
      using fv by (simp add: ApplyConformalAbstention_def)
    from Aggregate_approveD [OF agg this] show ?thesis by (auto simp: abstain_below_simps split: if_splits)
  qed
  with cal show ?thesis by blast
qed

theorem conformal_approval_witness:
  "\<exists>k m tau. AggregateWithConformalAbstention (\<lambda>x. x) [cal_of (1 / 2) True] (1 / 4) DefaultAggregationPolicy
     (map (\<lambda>k. sample_verdict k VerdictApprove 1) AllFacetKinds) = Inr ((VerdictApprove, k, m), tau) \<and> tau \<le> 1"
proof -
  let ?vs = "map (\<lambda>k. sample_verdict k VerdictApprove 1) AllFacetKinds"
  have "\<exists>m. AggregateWithConformalAbstention (\<lambda>x. x) [cal_of (1 / 2) True] (1 / 4)
      DefaultAggregationPolicy ?vs = Inr ((VerdictApprove, [], m), 1 / 2)"
    by (simp add: AggregateWithConformalAbstention_def cal_eval ApplyConformalAbstention_def abstain_below_def Aggregate_def
        AllFacetKinds_def facet_defs isCritical_def DefaultAggregationPolicy_def sample_verdict_def)
  then obtain m where run: "AggregateWithConformalAbstention (\<lambda>x. x) [cal_of (1 / 2) True] (1 / 4)
      DefaultAggregationPolicy ?vs = Inr ((VerdictApprove, [], m), 1 / 2)" by blast
  from conformal_approval [OF run] have "(1 / 2 :: rat) \<le> 1"
    by (simp add: AllFacetKinds_def sample_verdict_def isCritical_def)
  with run show ?thesis by blast
qed

text \<open>
  A critical reject loses its veto under conformal abstention. A safety REJECT below the
  threshold is rewritten to ABSTAIN before the aggregation, so the decision is no longer
  rejected; the type's comment says that a critical REJECT is a hard veto regardless of
  confidence.
\<close>

theorem conformal_drops_critical_veto:
  "(\<exists>m. Aggregate DefaultAggregationPolicy [sample_verdict FacetSafety VerdictReject (1 / 4)] =
      Inr (VerdictReject, FacetSafety, m)) \<and>
   (\<exists>m. AggregateWithConformalAbstention (\<lambda>x. x) [cal_of (1 / 2) True] (1 / 4) DefaultAggregationPolicy
      [sample_verdict FacetSafety VerdictReject (1 / 4)] = Inr ((VerdictAbstain, '''', m), 1 / 2))"
  by (simp add: AggregateWithConformalAbstention_def cal_eval ApplyConformalAbstention_def abstain_below_def Aggregate_def
        facet_defs isCritical_def sample_verdict_def)

end
