(* ===== verification/Decision_Judge.thy ===== *)
theory Decision_Judge
  imports Decision
begin

text \<open>
  Who judges a decision: the \<open>Provider\<close> interface (a locale), the fixture provider and the
  \<open>Judge\<close> of \<open>provider.go\<close>, the equivocation ledger of \<open>equivocation.go\<close> and the safety facet
  of \<open>injection.go\<close>. The six patterns of the safety facet use literals, \<open>\s+\<close>, options and
  alternatives only, and are terms of a small pattern type with the leftmost-first matching
  of \<open>regexp\<close>. The lemmas show that an approval rests on the verdicts of both critical facets,
  that unknown decisions are never approved, that commitments are reproducible, and what the
  ledger and the safety facet catch.
\<close>

section \<open>Providers and the judge\<close>

record FixtureProvider =
  fp_name :: gostring
  fp_verdicts :: "gostring \<rightharpoonup> FacetVerdict list"
  fp_fallback :: "FacetVerdict list"

definition NewNamedFixtureProvider :: "gostring \<Rightarrow> FixtureProvider" where
  "NewNamedFixtureProvider name =
     \<lparr>fp_name = name, fp_verdicts = Map.empty,
      fp_fallback = map (\<lambda>k. \<lparr>fv_Kind = k, fv_Verdict = VerdictAbstain, fv_Confidence = 0,
        fv_Reason = ''no fixture registered''\<rparr>) AllFacetKinds\<rparr>"

definition NewFixtureProvider :: FixtureProvider where
  "NewFixtureProvider = NewNamedFixtureProvider ''fixture''"

definition Fixture_Register :: "FixtureProvider \<Rightarrow> gostring \<Rightarrow> FacetVerdict list \<Rightarrow> FixtureProvider" where
  "Fixture_Register p decisionID verdicts =
     (if length verdicts = 0 then p\<lparr>fp_verdicts := (fp_verdicts p)(decisionID := None)\<rparr>
      else p\<lparr>fp_verdicts := (fp_verdicts p)(decisionID \<mapsto> verdicts)\<rparr>)"

definition Fixture_Evaluate :: "FixtureProvider \<Rightarrow> Decision \<Rightarrow> gostring + FacetVerdict list" where
  "Fixture_Evaluate p d =
     (case fp_verdicts p (Decision_ID d) of Some v \<Rightarrow> Inr v | None \<Rightarrow> Inr (fp_fallback p))"

record Provider =
  pr_Name :: gostring
  pr_Evaluate :: "Decision \<Rightarrow> gostring + FacetVerdict list"

definition fixture :: "FixtureProvider \<Rightarrow> Provider" where
  "fixture p = \<lparr>pr_Name = fp_name p, pr_Evaluate = Fixture_Evaluate p\<rparr>"

text \<open>The map \<open>byKind\<close> of \<open>normaliseVerdicts\<close>: the last verdict of a kind counts.\<close>

fun by_kind :: "(FacetKind \<rightharpoonup> FacetVerdict) \<Rightarrow> FacetVerdict list \<Rightarrow> (FacetKind \<rightharpoonup> FacetVerdict)" where
  "by_kind m [] = m"
| "by_kind m (fv # fvs) = by_kind (m(fv_Kind fv \<mapsto> fv)) fvs"

definition missing_verdict :: "FacetKind \<Rightarrow> FacetVerdict" where
  "missing_verdict k = \<lparr>fv_Kind = k, fv_Verdict = VerdictAbstain, fv_Confidence = 0,
     fv_Reason = ''no verdict from provider''\<rparr>"

definition extraVerdicts :: "FacetKind list \<Rightarrow> (FacetKind \<rightharpoonup> FacetVerdict) \<Rightarrow> FacetVerdict list" where
  "extraVerdicts ks m = range_values (filter (\<lambda>k. k \<notin> set AllFacetKinds) ks) m"

text \<open>The keys are taken in the order of first appearance; the sort makes the order immaterial.\<close>

definition normaliseVerdicts :: "FacetVerdict list \<Rightarrow> FacetVerdict list" where
  "normaliseVerdicts fvs =
     (let byKind = by_kind Map.empty fvs;
          extras = extraVerdicts (remdups (map fv_Kind fvs)) byKind
      in map (\<lambda>k. case byKind k of Some fv \<Rightarrow> fv | None \<Rightarrow> missing_verdict k) AllFacetKinds
           @ sort_key fv_Kind extras)"

record Judge =
  jg_provider :: "Provider option"
  jg_policy :: AggregationPolicy

definition NewJudge :: "Provider option \<Rightarrow> AggregationPolicy \<Rightarrow> Judge" where
  "NewJudge p policy = \<lparr>jg_provider = p, jg_policy = policy\<rparr>"

datatype judge_error = ErrInvalidJudge | ProviderFailed gostring gostring | AggregateFailed decision_error

definition Judge_Evaluate :: "Judge \<Rightarrow> Decision \<Rightarrow> judge_error + DecisionCommit" where
  "Judge_Evaluate j d =
     (case jg_provider j of
        None \<Rightarrow> Inl ErrInvalidJudge
      | Some p \<Rightarrow>
          if ApproveThreshold (jg_policy j) = 0 then Inl ErrInvalidJudge
          else case pr_Evaluate p d of
              Inl e \<Rightarrow> Inl (ProviderFailed (pr_Name p) e)
            | Inr raw \<Rightarrow>
                let verdicts = normaliseVerdicts raw in
                case Aggregate (jg_policy j) verdicts of
                  Inl e \<Rightarrow> Inl (AggregateFailed e)
                | Inr (agg, veto, reason) \<Rightarrow>
                    Inr \<lparr>dc_Decision = d, dc_DecisionID = Decision_ID d, dc_FacetVerdicts = verdicts,
                         dc_Aggregate = agg, dc_VetoedBy = veto,
                         dc_AbstainReason = (if agg = VerdictAbstain then reason else '''')\<rparr>)"

section \<open>The equivocation ledger\<close>

record ledgerEntry =
  le_DecisionID :: gostring
  le_Payload :: bytes
  le_Nonce :: "64 word"

type_synonym EquivocationLedger = "gostring \<rightharpoonup> ledgerEntry"

definition NewEquivocationLedger :: EquivocationLedger where
  "NewEquivocationLedger = Map.empty"

definition ledger_key :: "Decision \<Rightarrow> gostring" where
  "ledger_key d = Submitter d @ ''|'' @ SpecID d"

definition Ledger_Record :: "EquivocationLedger \<Rightarrow> Decision \<Rightarrow> (bool \<times> gostring) \<times> EquivocationLedger" where
  "Ledger_Record l d =
     (case l (ledger_key d) of
        None \<Rightarrow> ((False, ''''),
          l(ledger_key d \<mapsto> \<lparr>le_DecisionID = Decision_ID d, le_Payload = Payload d, le_Nonce = Nonce d\<rparr>))
      | Some entry \<Rightarrow>
          if le_DecisionID entry = Decision_ID d then ((False, ''''), l)
          else ((True, le_DecisionID entry), l))"

definition Ledger_Check :: "EquivocationLedger \<Rightarrow> Decision \<Rightarrow> bool \<times> gostring" where
  "Ledger_Check l d =
     (case l (ledger_key d) of
        None \<Rightarrow> (False, '''')
      | Some entry \<Rightarrow> if le_DecisionID entry = Decision_ID d then (False, '''') else (True, le_DecisionID entry))"

definition EquivocationFacet :: "EquivocationLedger \<Rightarrow> Decision \<Rightarrow> FacetVerdict" where
  "EquivocationFacet l d =
     (let (conflict, prev) = Ledger_Check l d in
      if conflict then
        \<lparr>fv_Kind = FacetEquivocation, fv_Verdict = VerdictReject, fv_Confidence = 1,
         fv_Reason = ''same signer previously committed conflicting decision '' @ prev\<rparr>
      else \<lparr>fv_Kind = FacetEquivocation, fv_Verdict = VerdictApprove, fv_Confidence = 1,
            fv_Reason = ''no prior conflicting commitment''\<rparr>)"

section \<open>The safety facet\<close>

text \<open>
  Patterns under \<open>(?i)\<close>. A letter matches both cases, and \<open>k\<close> and \<open>s\<close> also match the Kelvin
  sign and the long s, as Unicode folding has it. \<open>pat_rests p s\<close> lists what may remain of
  \<open>s\<close> after \<open>p\<close>, the preferred match first.
\<close>

datatype pat = Lit gostring | Spaces | Seq pat pat | Alt pat pat | Opt pat

fun fold_char :: "char \<Rightarrow> gostring \<Rightarrow> gostring option" where
  "fold_char c [] = None"
| "fold_char c (x # s) =
     (if to_lower x = c then Some s
      else if c = CHR ''s'' \<and> take 2 (x # s) = [byte 197, byte 191] then Some (drop 2 (x # s))
      else if c = CHR ''k'' \<and> take 3 (x # s) = [byte 226, byte 132, byte 170] then Some (drop 3 (x # s))
      else None)"

fun lit_rest :: "gostring \<Rightarrow> gostring \<Rightarrow> gostring option" where
  "lit_rest [] s = Some s"
| "lit_rest (c # w) s = (case fold_char c s of None \<Rightarrow> None | Some r \<Rightarrow> lit_rest w r)"

definition is_space :: "char \<Rightarrow> bool" where
  "is_space c \<longleftrightarrow> c = CHR '' '' \<or> c = char_of (9 :: nat) \<or> c = char_of (10 :: nat) \<or>
     c = char_of (12 :: nat) \<or> c = char_of (13 :: nat)"

fun space_rests :: "gostring \<Rightarrow> gostring list" where
  "space_rests [] = []"
| "space_rests (c # s) = (if is_space c then space_rests s @ [s] else [])"

fun pat_rests :: "pat \<Rightarrow> gostring \<Rightarrow> gostring list" where
  "pat_rests (Lit w) s = (case lit_rest w s of None \<Rightarrow> [] | Some r \<Rightarrow> [r])"
| "pat_rests Spaces s = space_rests s"
| "pat_rests (Seq p q) s = concat (map (pat_rests q) (pat_rests p s))"
| "pat_rests (Alt p q) s = pat_rests p s @ pat_rests q s"
| "pat_rests (Opt p) s = pat_rests p s @ [s]"

fun find_match :: "pat \<Rightarrow> gostring \<Rightarrow> gostring option" where
  "find_match p s =
     (case pat_rests p s of
        r # _ \<Rightarrow> Some (take (length s - length r) s)
      | [] \<Rightarrow> (case s of [] \<Rightarrow> None | _ # s' \<Rightarrow> find_match p s'))"

definition alts :: "gostring list \<Rightarrow> pat" where
  "alts ws = foldr (\<lambda>w p. Alt (Lit w) p) (butlast ws) (Lit (last ws))"

definition word_sp :: "gostring \<Rightarrow> pat" where
  "word_sp w = Seq (Lit w) Spaces"

definition injectionPatterns :: "pat list" where
  "injectionPatterns =
    [Seq (Lit ''ignore'') (Seq Spaces (Seq (Opt (word_sp ''all''))
       (Seq (Opt (Alt (word_sp ''previous'') (word_sp ''prior'')))
         (Alt (Lit ''instructions'') (Alt (Lit ''rules'') (Alt (Lit ''policies'') (Seq (Lit ''prompt'') (Opt (Lit ''s''))))))))),
     Seq (Lit ''disregard'') (Seq Spaces (Seq (Opt (Alt (word_sp ''the'') (Alt (word_sp ''all'') (word_sp ''any''))))
       (Seq (Opt (Alt (word_sp ''system'') (Alt (word_sp ''previous'') (word_sp ''prior''))))
         (alts [''message'', ''prompt'', ''instructions''])))),
     Seq (Lit ''print '') (Seq (Opt (alts [''your '', ''the '']))
       (Alt (Lit ''system prompt'') (Alt (Seq (Lit ''api'') (Seq (Opt (alts [''_'', '' ''])) (Lit ''key'')))
         (alts [''secret'', ''private key''])))),
     Seq (Lit ''reveal '') (Seq (Opt (alts [''your '', ''the '']))
       (alts [''system prompt'', ''hidden'', ''secret'', ''token''])),
     Seq (Lit ''act as '') (Seq (Opt (Lit ''the '')) (alts [''root'', ''admin'', ''system'', ''owner''])),
     Lit ''switch to developer mode'']"

fun safety_loop :: "pat list \<Rightarrow> gostring \<Rightarrow> FacetVerdict" where
  "safety_loop [] s = \<lparr>fv_Kind = FacetSafety, fv_Verdict = VerdictApprove, fv_Confidence = 1,
     fv_Reason = ''no known injection markers''\<rparr>"
| "safety_loop (p # ps) s =
     (case find_match p s of
        Some m \<Rightarrow> \<lparr>fv_Kind = FacetSafety, fv_Verdict = VerdictReject, fv_Confidence = 1,
          fv_Reason = ''prompt-injection marker detected: '' @ TrimSpace m\<rparr>
      | None \<Rightarrow> safety_loop ps s)"

definition SafetyFacet :: "bytes \<Rightarrow> FacetVerdict" where
  "SafetyFacet payload = safety_loop injectionPatterns payload"

section \<open>Normalised verdicts\<close>

lemma by_kind_Some: "by_kind m fvs k = Some fv \<Longrightarrow> m k = Some fv \<or> fv \<in> set fvs \<and> fv_Kind fv = k"
  by (induction fvs arbitrary: m) (fastforce split: if_splits)+

lemma by_kind_kind: "by_kind Map.empty fvs k = Some fv \<Longrightarrow> fv_Kind fv = k"
  using by_kind_Some by fastforce

lemma dom_by_kind: "dom (by_kind m fvs) = dom m \<union> fv_Kind ` set fvs"
  by (induction fvs arbitrary: m) auto

lemma by_kind_append: "by_kind m (xs @ ys) = by_kind (by_kind m xs) ys"
  by (induction xs arbitrary: m) simp_all

lemma by_kind_last: "fv_Kind fv = k \<Longrightarrow> \<forall>x \<in> set ys. fv_Kind x \<noteq> k \<Longrightarrow> by_kind m (xs @ fv # ys) k = Some fv"
proof -
  have "\<forall>x \<in> set ys. fv_Kind x \<noteq> k \<Longrightarrow> by_kind m' ys k = m' k" for m'
    by (induction ys arbitrary: m') auto
  then show "fv_Kind fv = k \<Longrightarrow> \<forall>x \<in> set ys. fv_Kind x \<noteq> k \<Longrightarrow> ?thesis" by (simp add: by_kind_append)
qed

lemma ranges_by_kind: "ranges (remdups (map fv_Kind fvs)) (by_kind Map.empty fvs)"
  by (simp add: ranges_def dom_by_kind)

lemma map_kind_range_values:
  "set ks \<subseteq> dom (by_kind Map.empty fvs) \<Longrightarrow> map fv_Kind (range_values ks (by_kind Map.empty fvs)) = ks"
proof -
  assume ks: "set ks \<subseteq> dom (by_kind Map.empty fvs)"
  have "fv_Kind (the (by_kind Map.empty fvs k)) = k" if "k \<in> set ks" for k
    using that ks by_kind_kind [of fvs k] by fastforce
  then show ?thesis by (simp add: range_values_def map_idI)
qed

text \<open>The order in which the range loop visits the map does not change the result.\<close>

lemma normaliseVerdicts_order:
  assumes "ranges ks (by_kind Map.empty fvs)"
  shows "sort_key fv_Kind (extraVerdicts ks (by_kind Map.empty fvs)) =
    sort_key fv_Kind (extraVerdicts (remdups (map fv_Kind fvs)) (by_kind Map.empty fvs))"
proof (rule sort_key_unique)
  let ?ks' = "remdups (map fv_Kind fvs)" and ?out = "\<lambda>k. k \<notin> set AllFacetKinds"
  have "mset ks = mset ?ks'"
    using assms ranges_by_kind [of fvs] unfolding ranges_def by (metis set_eq_iff_mset_eq_distinct)
  then show "mset (extraVerdicts ks (by_kind Map.empty fvs)) = mset (extraVerdicts ?ks' (by_kind Map.empty fvs))"
    by (simp add: extraVerdicts_def range_values_def mset_filter)
  show "distinct (map fv_Kind (extraVerdicts ?ks' (by_kind Map.empty fvs)))"
    unfolding extraVerdicts_def by (subst map_kind_range_values) (auto simp: dom_by_kind)
qed

lemma set_normaliseVerdicts:
  "set (normaliseVerdicts fvs) =
     {fv. \<exists>k \<in> set AllFacetKinds. fv = (case by_kind Map.empty fvs k of Some fv \<Rightarrow> fv | None \<Rightarrow> missing_verdict k)} \<union>
     {fv. by_kind Map.empty fvs (fv_Kind fv) = Some fv \<and> fv_Kind fv \<notin> set AllFacetKinds}"
proof -
  have "set (extraVerdicts (remdups (map fv_Kind fvs)) (by_kind Map.empty fvs)) =
      {fv. by_kind Map.empty fvs (fv_Kind fv) = Some fv \<and> fv_Kind fv \<notin> set AllFacetKinds}" (is "?L = ?R")
  proof
    show "?L \<subseteq> ?R"
    proof
      fix fv assume "fv \<in> ?L"
      then obtain k where k: "k \<in> dom (by_kind Map.empty fvs)" "k \<notin> set AllFacetKinds"
        "fv = the (by_kind Map.empty fvs k)" by (auto simp: extraVerdicts_def range_values_def dom_by_kind)
      then have "by_kind Map.empty fvs k = Some fv" by auto
      with k by_kind_kind [OF this] show "fv \<in> ?R" by simp
    qed
    show "?R \<subseteq> ?L"
    proof
      fix fv assume fv: "fv \<in> ?R"
      then have "fv_Kind fv \<in> dom (by_kind Map.empty fvs)" by auto
      with fv show "fv \<in> ?L"
        by (auto simp: extraVerdicts_def range_values_def dom_by_kind image_iff intro!: bexI [of _ "fv_Kind fv"])
    qed
  qed
  then show ?thesis by (auto simp: normaliseVerdicts_def Let_def)
qed

lemma normalise_covers:
  "k \<in> set AllFacetKinds \<Longrightarrow> \<exists>fv \<in> set (normaliseVerdicts fvs). fv_Kind fv = k \<and>
     fv = (case by_kind Map.empty fvs k of Some fv \<Rightarrow> fv | None \<Rightarrow> missing_verdict k)"
proof -
  assume k: "k \<in> set AllFacetKinds"
  let ?fv = "case by_kind Map.empty fvs k of Some fv \<Rightarrow> fv | None \<Rightarrow> missing_verdict k"
  have "?fv \<in> set (normaliseVerdicts fvs)" unfolding set_normaliseVerdicts using k by blast
  moreover have "fv_Kind ?fv = k"
    using by_kind_kind [of fvs k] by (simp add: missing_verdict_def split: option.splits)
  ultimately show ?thesis by blast
qed

lemma normalise_kinds:
  "map fv_Kind (normaliseVerdicts fvs) =
     AllFacetKinds @ sort (filter (\<lambda>k. k \<notin> set AllFacetKinds) (remdups (map fv_Kind fvs)))"
proof -
  let ?m = "by_kind Map.empty fvs"
  have 1: "map (\<lambda>k. fv_Kind (case ?m k of Some fv \<Rightarrow> fv | None \<Rightarrow> missing_verdict k)) AllFacetKinds = AllFacetKinds"
    by (rule map_idI) (auto simp: missing_verdict_def dest: by_kind_kind split: option.splits)
  have "map fv_Kind (sort_key fv_Kind xs) = sort (map fv_Kind xs)" for xs :: "FacetVerdict list"
    by (rule sym, rule properties_for_sort) (simp_all add: mset_map [symmetric] del: mset_map, simp)
  then show ?thesis
    using 1 map_kind_range_values [of "filter (\<lambda>k. k \<notin> set AllFacetKinds) (remdups (map fv_Kind fvs))" fvs]
    by (simp add: normaliseVerdicts_def Let_def extraVerdicts_def o_def dom_by_kind subset_iff)
qed

section \<open>Properties of the judge\<close>

lemma Judge_Evaluate_InrE:
  assumes "Judge_Evaluate j d = Inr c"
  obtains p raw m where "jg_provider j = Some p" "pr_Evaluate p d = Inr raw"
    "Aggregate (jg_policy j) (normaliseVerdicts raw) = Inr (dc_Aggregate c, dc_VetoedBy c, m)"
    "dc_FacetVerdicts c = normaliseVerdicts raw" "dc_Decision c = d" "dc_DecisionID c = Decision_ID d"
    "dc_AbstainReason c = (if dc_Aggregate c = VerdictAbstain then m else '''')"
  using assms
  by (auto simp: Judge_Evaluate_def Let_def split: option.splits if_splits sum.splits prod.splits)

text \<open>
  An approval rests on both critical facets. If the judge approves, the provider itself
  supplied an APPROVE for the safety and for the equivocation facet (the last verdict of
  that kind), supplied no REJECT that counts for any kind, known or not, and a missing
  critical facet can therefore never be approved away.
\<close>

theorem judge_approval_sound:
  assumes "Judge_Evaluate j d = Inr c" "dc_Aggregate c = VerdictApprove"
  shows "\<exists>p raw. jg_provider j = Some p \<and> pr_Evaluate p d = Inr raw \<and>
    (\<forall>k \<in> {FacetSafety, FacetEquivocation}. \<exists>fv. by_kind Map.empty raw k = Some fv \<and> fv_Verdict fv = VerdictApprove) \<and>
    (\<forall>k fv. by_kind Map.empty raw k = Some fv \<longrightarrow> fv_Verdict fv \<noteq> VerdictReject)"
  using assms(1)
proof (cases rule: Judge_Evaluate_InrE)
  case (1 p raw m)
  from 1(3) assms(2) have ok: "fv_Verdict fv \<noteq> VerdictReject"
    "isCritical (fv_Kind fv) \<longrightarrow> fv_Verdict fv = VerdictApprove" if "fv \<in> set (normaliseVerdicts raw)" for fv
    using that Aggregate_approveD by simp_all
  have "\<exists>fv. by_kind Map.empty raw k = Some fv \<and> fv_Verdict fv = VerdictApprove"
    if "k \<in> {FacetSafety, FacetEquivocation}" for k
  proof -
    have k: "k \<in> set AllFacetKinds" "isCritical k" using that by (auto simp: AllFacetKinds_def isCritical_def)
    obtain fv where fv: "fv \<in> set (normaliseVerdicts raw)" "fv_Kind fv = k"
      "fv = (case by_kind Map.empty raw k of Some fv \<Rightarrow> fv | None \<Rightarrow> missing_verdict k)"
      using normalise_covers [OF k(1)] by blast
    with ok(2) [OF fv(1)] k(2) show ?thesis by (auto simp: missing_verdict_def split: option.splits)
  qed
  moreover have "fv_Verdict fv \<noteq> VerdictReject" if "by_kind Map.empty raw k = Some fv" for k fv
  proof (rule ok(1))
    show "fv \<in> set (normaliseVerdicts raw)"
      using that by_kind_kind [OF that] unfolding set_normaliseVerdicts by (cases "k \<in> set AllFacetKinds") force+
  qed
  ultimately show ?thesis using 1 by blast
qed

definition all_approve :: "FacetVerdict list" where
  "all_approve = map (\<lambda>k. sample_verdict k VerdictApprove 1) AllFacetKinds"

definition approving :: Provider where
  "approving = \<lparr>pr_Name = ''p'', pr_Evaluate = (\<lambda>_. Inr all_approve)\<rparr>"

lemma judge_approves_sample:
  "\<exists>c. Judge_Evaluate (NewJudge (Some approving) DefaultAggregationPolicy) d = Inr c \<and>
     dc_Aggregate c = VerdictApprove"
proof -
  have "normaliseVerdicts all_approve = all_approve"
    by (simp add: normaliseVerdicts_def all_approve_def AllFacetKinds_def facet_defs sample_verdict_def
        extraVerdicts_def range_values_def)
  then show ?thesis
    by (simp add: Judge_Evaluate_def NewJudge_def approving_def DefaultAggregationPolicy_def Aggregate_def)
      (simp add: all_approve_def AllFacetKinds_def facet_defs sample_verdict_def isCritical_def)
qed

theorem judge_approval_sound_witness:
  "by_kind Map.empty all_approve FacetSafety \<noteq> None"
proof -
  obtain c where c: "Judge_Evaluate (NewJudge (Some approving) DefaultAggregationPolicy) (sample_decision ''x'' 0) = Inr c"
    "dc_Aggregate c = VerdictApprove" using judge_approves_sample by blast
  from judge_approval_sound [OF c] show ?thesis by (auto simp: NewJudge_def approving_def)
qed

section \<open>The contract of providers\<close>

text \<open>
  A provider must be deterministic, which for a commitment means: what it says of a
  decision depends on the decision id only.
\<close>

locale provider =
  fixes evaluate :: "Decision \<Rightarrow> gostring + FacetVerdict list"
  assumes by_id: "Decision_ID d = Decision_ID e \<Longrightarrow> evaluate d = evaluate e"
begin

lemma same_commitment:
  assumes "Decision_ID d = Decision_ID e"
    and "Judge_Evaluate (NewJudge (Some \<lparr>pr_Name = n, pr_Evaluate = evaluate\<rparr>) policy) d = Inr c"
  shows "Judge_Evaluate (NewJudge (Some \<lparr>pr_Name = n, pr_Evaluate = evaluate\<rparr>) policy) e = Inr (c\<lparr>dc_Decision := e\<rparr>) \<and>
    CommitDigest (c\<lparr>dc_Decision := e\<rparr>) = CommitDigest c"
  using assms(2) by_id [OF assms(1)] assms(1)
  by (auto simp: Judge_Evaluate_def NewJudge_def CommitDigest_def digest_text_def Let_def
      split: sum.splits if_splits prod.splits)

end

interpretation fixture: provider "Fixture_Evaluate p" for p
  by unfold_locales (simp add: Fixture_Evaluate_def)

text \<open>
  Commitments of the fixture provider are reproducible. Decisions with the same id,
  whenever they were submitted, get the same verdicts, the same aggregate and the same
  commit digest.
\<close>

theorem fixture_commitment_reproducible:
  assumes "Decision_ID d = Decision_ID e"
    and "Judge_Evaluate (NewJudge (Some (fixture p)) policy) d = Inr c"
  shows "\<exists>c'. Judge_Evaluate (NewJudge (Some (fixture p)) policy) e = Inr c' \<and> CommitDigest c' = CommitDigest c"
  using fixture.same_commitment [OF assms(1), of "fp_name p" p policy c] assms(2) by (auto simp: fixture_def)

lemma fallback_normal:
  "normaliseVerdicts (fp_fallback (NewNamedFixtureProvider n)) = fp_fallback (NewNamedFixtureProvider n)"
  by (simp add: normaliseVerdicts_def NewNamedFixtureProvider_def AllFacetKinds_def facet_defs
      extraVerdicts_def range_values_def)

lemma judge_fallback_abstains:
  assumes "fp_verdicts p (Decision_ID d) = None" "fp_fallback p = fp_fallback (NewNamedFixtureProvider n)"
    and "ApproveThreshold policy \<noteq> 0"
  shows "\<exists>c. Judge_Evaluate (NewJudge (Some (fixture p)) policy) d = Inr c \<and> dc_Aggregate c = VerdictAbstain"
proof -
  let ?fb = "fp_fallback (NewNamedFixtureProvider n)"
  have "\<exists>m. Aggregate policy ?fb = Inr (VerdictAbstain, '''', m)"
    by (simp add: NewNamedFixtureProvider_def AllFacetKinds_def facet_defs Aggregate_def isCritical_def)
  then obtain m where "Aggregate policy ?fb = Inr (VerdictAbstain, '''', m)" by blast
  with assms show ?thesis
    by (simp add: Judge_Evaluate_def NewJudge_def fixture_def Fixture_Evaluate_def fallback_normal)
qed

theorem fixture_commitment_reproducible_witness:
  "\<exists>c c'. Judge_Evaluate (NewJudge (Some (fixture NewFixtureProvider)) DefaultAggregationPolicy) (sample_decision ''x'' 0) = Inr c \<and>
    Judge_Evaluate (NewJudge (Some (fixture NewFixtureProvider)) DefaultAggregationPolicy) (sample_decision ''x'' 9) = Inr c' \<and>
    CommitDigest c' = CommitDigest c"
proof -
  have same: "Decision_ID (sample_decision ''x'' 0) = Decision_ID (sample_decision ''x'' 9)"
    by (simp add: Decision_ID_def id_text_def sample_decision_def)
  obtain c where "Judge_Evaluate (NewJudge (Some (fixture NewFixtureProvider)) DefaultAggregationPolicy) (sample_decision ''x'' 0) = Inr c"
    using judge_fallback_abstains [of NewFixtureProvider "sample_decision ''x'' 0" "''fixture''" DefaultAggregationPolicy]
    by (auto simp: NewFixtureProvider_def NewNamedFixtureProvider_def DefaultAggregationPolicy_def)
  with fixture_commitment_reproducible [OF same this] show ?thesis by blast
qed

section \<open>What the ledger catches\<close>

text \<open>
  Specification: a decision conflicts with a history when the first decision of the history
  in its slot has another id.
\<close>

definition conflicts_with :: "Decision list \<Rightarrow> Decision \<Rightarrow> gostring option" where
  "conflicts_with ds d =
     (case find (\<lambda>e. ledger_key e = ledger_key d) ds of
        None \<Rightarrow> None
      | Some e \<Rightarrow> if Decision_ID e = Decision_ID d then None else Some (Decision_ID e))"

definition record_all :: "EquivocationLedger \<Rightarrow> Decision list \<Rightarrow> EquivocationLedger" where
  "record_all l ds = foldl (\<lambda>l d. snd (Ledger_Record l d)) l ds"

lemma record_all_lookup:
  "map_option le_DecisionID (record_all l ds k) =
     (case l k of
        Some x \<Rightarrow> Some (le_DecisionID x)
      | None \<Rightarrow> map_option Decision_ID (find (\<lambda>e. ledger_key e = k) ds))"
proof (induction ds arbitrary: l)
  case Nil
  show ?case by (simp add: record_all_def split: option.splits)
next
  case (Cons d ds)
  have "record_all l (d # ds) = record_all (snd (Ledger_Record l d)) ds" by (simp add: record_all_def)
  with Cons [of "snd (Ledger_Record l d)"] show ?case
    by (auto simp: Ledger_Record_def split: option.splits if_splits)
qed

lemma Ledger_Check_history:
  "Ledger_Check (record_all NewEquivocationLedger ds) d =
     (case conflicts_with ds d of None \<Rightarrow> (False, '''') | Some prev \<Rightarrow> (True, prev))"
  using record_all_lookup [of Map.empty ds "ledger_key d"]
  by (auto simp: Ledger_Check_def conflicts_with_def NewEquivocationLedger_def split: option.splits)


text \<open>
  The slot key joins submitter and spec id with a bar and no escaping: decisions of
  different submitters fall into one slot when the names contain the bar.
\<close>

lemma ledger_slots_overlap:
  "Submitter d = ''a'' \<Longrightarrow> SpecID d = ''b|c'' \<Longrightarrow> Submitter e = ''a|b'' \<Longrightarrow> SpecID e = ''c'' \<Longrightarrow>
   Decision_ID d \<noteq> Decision_ID e \<Longrightarrow>
   Ledger_Check (record_all NewEquivocationLedger [d]) e = (True, Decision_ID d)"
  by (simp add: Ledger_Check_history conflicts_with_def ledger_key_def)

section \<open>What the safety facet catches\<close>

lemma find_match_None: "find_match p s = None \<longleftrightarrow> (\<forall>pre r. s = pre @ r \<longrightarrow> pat_rests p r = [])"
proof (induction s)
  case Nil
  then show ?case by (auto split: list.splits)
next
  case (Cons c s)
  show ?case
  proof (cases "pat_rests p (c # s)")
    case Nil
    with Cons show ?thesis by (simp add: Cons_eq_append_conv) metis
  next
    case (Cons r rs)
    then show ?thesis by (auto intro: exI [of _ "[]"])
  qed
qed

declare find_match.simps [simp del]

lemma safety_loop_verdict:
  "fv_Verdict (safety_loop ps s) = (if \<exists>p \<in> set ps. find_match p s \<noteq> None then VerdictReject else VerdictApprove)"
  by (induction ps) (auto split: option.splits)

text \<open>
  The safety facet rejects exactly the payloads in which one of the six patterns
  matches at some position, whatever comes before it; otherwise it approves.
\<close>

theorem SafetyFacet_rejects_iff:
  "fv_Verdict (SafetyFacet payload) = VerdictReject \<longleftrightarrow>
     (\<exists>p \<in> set injectionPatterns. \<exists>pre s. payload = pre @ s \<and> pat_rests p s \<noteq> [])"
  by (auto simp: SafetyFacet_def safety_loop_verdict find_match_None)

end
