(* ===== verification/Judge_Pool.thy ===== *)
theory Judge_Pool
  imports Decision_Judge
begin

text \<open>
  The provider pool and router, \<open>decision/attest/pool.go\<close>. The providers run in goroutines
  and their results arrive in any order: the argument \<open>shuffle\<close> of \<open>Route\<close> is that order, a
  permutation of the results. The lemmas show that the outcome does not depend on it, that
  an observational provider never carries weight on a critical facet, and that declared
  capabilities select providers but do not limit what they vote on.
\<close>

section \<open>The pool and the router\<close>

datatype TrustLevel = TrustObservational | TrustDelegated | TrustSystem

fun TrustLevel_String :: "TrustLevel \<Rightarrow> gostring" where
  "TrustLevel_String TrustSystem = ''system''"
| "TrustLevel_String TrustDelegated = ''delegated''"
| "TrustLevel_String TrustObservational = ''observational''"

type_synonym Capability = gostring

definition facetToCap :: "FacetKind \<Rightarrow> Capability" where
  "facetToCap k =
     (if k = FacetSafety then ''safety'' else if k = FacetCorrectness then ''correctness''
      else if k = FacetSpecCompliance then ''spec_compliance''
      else if k = FacetEquivocation then ''equivocation'' else '''')"

record PooledProvider =
  pp_Provider :: "Provider option"
  pp_Trust :: TrustLevel
  pp_Capabilities :: "Capability list"

type_synonym ProviderPool = "PooledProvider list"

definition pp_Name :: "PooledProvider \<Rightarrow> gostring" where
  "pp_Name p = (case pp_Provider p of None \<Rightarrow> '''' | Some q \<Rightarrow> pr_Name q)"

datatype pool_register_error = NilProvider | ProviderWithoutName | NoCapabilities gostring | ProviderExists gostring

definition Pool_Register :: "ProviderPool \<Rightarrow> PooledProvider \<Rightarrow> pool_register_error + ProviderPool" where
  "Pool_Register pl p =
     (case pp_Provider p of
        None \<Rightarrow> Inl NilProvider
      | Some q \<Rightarrow>
          if pr_Name q = '''' then Inl ProviderWithoutName
          else if length (pp_Capabilities p) = 0 then Inl (NoCapabilities (pr_Name q))
          else if list_ex (\<lambda>x. pp_Name x = pr_Name q) pl then Inl (ProviderExists (pr_Name q))
          else Inr (pl @ [p]))"

definition Pool_Names :: "ProviderPool \<Rightarrow> gostring list" where
  "Pool_Names pl = sort (map pp_Name pl)"

record PoolOutcome =
  oc_Verdicts :: "FacetVerdict list"
  oc_Providers :: "gostring list"
  oc_TrustByProvider :: "gostring \<rightharpoonup> TrustLevel"
  oc_ErrorsByProvider :: "gostring \<rightharpoonup> gostring"

record route_result =
  rr_name :: gostring
  rr_trust :: TrustLevel
  rr_verdicts :: "gostring + FacetVerdict list"

datatype route_error = ErrNoProviders | ErrNoRoutedProviders

definition sortedByKind :: "FacetVerdict list \<Rightarrow> FacetVerdict list" where
  "sortedByKind vs = sort_key fv_Kind vs"

definition downgrade :: "route_result \<Rightarrow> FacetVerdict \<Rightarrow> FacetVerdict" where
  "downgrade res v =
     (if rr_trust res = TrustObservational \<and> isCritical (fv_Kind v) \<and> fv_Verdict v \<noteq> VerdictAbstain
      then \<lparr>fv_Kind = fv_Kind v, fv_Verdict = VerdictAbstain, fv_Confidence = 0,
            fv_Reason = ''trust-downgrade: observational provider '' @ quote_string (rr_name res) @
              '' cannot vote on critical facet '' @ fv_Kind v\<rparr>
      else v)"

fun merge_results :: "PoolOutcome \<Rightarrow> route_result list \<Rightarrow> PoolOutcome" where
  "merge_results oc [] = oc"
| "merge_results oc (res # rs) =
     (case rr_verdicts res of
        Inl e \<Rightarrow> merge_results (oc\<lparr>oc_ErrorsByProvider := (oc_ErrorsByProvider oc)(rr_name res \<mapsto> e)\<rparr>) rs
      | Inr vs \<Rightarrow>
          merge_results (oc\<lparr>oc_TrustByProvider := (oc_TrustByProvider oc)(rr_name res \<mapsto> rr_trust res),
            oc_Providers := oc_Providers oc @ [rr_name res],
            oc_Verdicts := oc_Verdicts oc @ map (downgrade res) (sortedByKind vs)\<rparr>) rs)"

definition call_provider :: "Decision \<Rightarrow> PooledProvider \<Rightarrow> route_result" where
  "call_provider d p = \<lparr>rr_name = pp_Name p, rr_trust = pp_Trust p,
     rr_verdicts = (case pp_Provider p of None \<Rightarrow> Inl '''' | Some q \<Rightarrow> pr_Evaluate q d)\<rparr>"

definition select_providers :: "ProviderPool \<Rightarrow> FacetKind list \<Rightarrow> PooledProvider list" where
  "select_providers pl wantedFacets =
     (let wanted = map facetToCap (if length wantedFacets = 0 then AllFacetKinds else wantedFacets)
      in filter (\<lambda>p. list_ex (\<lambda>c. c \<in> set wanted) (pp_Capabilities p)) pl)"

definition Route ::
  "(route_result list \<Rightarrow> route_result list) \<Rightarrow> ProviderPool option \<Rightarrow> Decision \<Rightarrow> FacetKind list \<Rightarrow> route_error + PoolOutcome" where
  "Route shuffle pool d wantedFacets =
     (case pool of
        None \<Rightarrow> Inl ErrNoProviders
      | Some pl \<Rightarrow>
          if length pl = 0 then Inl ErrNoProviders
          else let selected = select_providers pl wantedFacets in
            if length selected = 0 then Inl ErrNoRoutedProviders
            else let results = sort_key rr_name (shuffle (map (call_provider d) selected)) in
              Inr (merge_results \<lparr>oc_Verdicts = [], oc_Providers = [], oc_TrustByProvider = Map.empty,
                oc_ErrorsByProvider = Map.empty\<rparr> results))"

section \<open>Registered pools\<close>

inductive pool_reach :: "ProviderPool \<Rightarrow> bool" where
  empty: "pool_reach []"
| add: "pool_reach pl \<Longrightarrow> Pool_Register pl p = Inr pl' \<Longrightarrow> pool_reach pl'"

lemma pool_names_distinct: "pool_reach pl \<Longrightarrow> distinct (map pp_Name pl) \<and> (\<forall>p \<in> set pl. pp_Provider p \<noteq> None)"
proof (induction rule: pool_reach.induct)
  case (add pl p pl')
  then obtain q where q: "pp_Provider p = Some q" "\<forall>x \<in> set pl. pp_Name x \<noteq> pr_Name q" "pl' = pl @ [p]"
    by (auto simp: Pool_Register_def list_ex_iff split: option.splits if_splits)
  moreover have "pp_Name p = pr_Name q" using q(1) by (simp add: pp_Name_def)
  ultimately show ?case using add.IH by auto
qed simp

lemma names_of_selected:
  "pool_reach pl \<Longrightarrow> distinct (map rr_name (map (call_provider d) (select_providers pl wfs)))"
  using pool_names_distinct [of pl]
  by (simp add: call_provider_def select_providers_def o_def Let_def distinct_map_filter)

section \<open>Properties of routing\<close>

text \<open>
  C33: routing is deterministic. For a pool built by \<open>Register\<close>, the outcome does not depend
  on the order in which the providers' goroutines finish.
\<close>

theorem Route_deterministic:
  assumes "pool_reach pl" "\<And>rs. mset (sh rs) = mset rs" "\<And>rs. mset (sh' rs) = mset rs"
  shows "Route sh (Some pl) d wfs = Route sh' (Some pl) d wfs"
proof -
  have "sort_key rr_name (sh rs) = sort_key rr_name rs" "sort_key rr_name (sh' rs) = sort_key rr_name rs"
    if "rs = map (call_provider d) (select_providers pl wfs)" for rs
    using sort_key_unique [of "sh rs" rs rr_name] sort_key_unique [of "sh' rs" rs rr_name] assms(2,3)
      names_of_selected [OF assms(1)] that by auto
  then show ?thesis by (simp add: Route_def Let_def)
qed

definition voter :: "gostring \<Rightarrow> TrustLevel \<Rightarrow> gostring list \<Rightarrow> FacetVerdict list \<Rightarrow> PooledProvider" where
  "voter n tr caps vs = \<lparr>pp_Provider = Some \<lparr>pr_Name = n, pr_Evaluate = (\<lambda>_. Inr vs)\<rparr>, pp_Trust = tr, pp_Capabilities = caps\<rparr>"

theorem Route_deterministic_witness:
  "Route rev (Some [voter ''p'' TrustSystem [''safety''] []]) (sample_decision ''x'' 0) [] =
   Route id (Some [voter ''p'' TrustSystem [''safety''] []]) (sample_decision ''x'' 0) []"
proof (rule Route_deterministic)
  show "pool_reach [voter ''p'' TrustSystem [''safety''] []]"
    by (rule pool_reach.add [OF pool_reach.empty, where p = "voter ''p'' TrustSystem [''safety''] []"])
      (simp add: Pool_Register_def voter_def)
qed simp_all

lemma merge_results_verdicts:
  "oc_Verdicts (merge_results oc rs) =
     oc_Verdicts oc @ concat (map (\<lambda>res. case rr_verdicts res of Inl e \<Rightarrow> [] | Inr vs \<Rightarrow> map (downgrade res) (sortedByKind vs)) rs)"
  by (induction oc rs rule: merge_results.induct) (auto split: sum.splits)

lemma Route_verdict_origin:
  assumes "Route sh (Some pl) d wfs = Inr oc" "\<And>rs. mset (sh rs) = mset rs" "v \<in> set (oc_Verdicts oc)"
  shows "\<exists>p \<in> set (select_providers pl wfs). \<exists>vs v0. rr_verdicts (call_provider d p) = Inr vs \<and> v0 \<in> set vs \<and>
    v = downgrade (call_provider d p) v0"
proof -
  from assms(1) have "oc_Verdicts oc = concat (map (\<lambda>res. case rr_verdicts res of Inl e \<Rightarrow> [] | Inr vs \<Rightarrow>
      map (downgrade res) (sortedByKind vs)) (sort_key rr_name (sh (map (call_provider d) (select_providers pl wfs)))))"
    by (auto simp: Route_def Let_def merge_results_verdicts split: if_splits)
  moreover have "set (sh rs) = set rs" for rs using assms(2) by (metis set_mset_mset)
  ultimately show ?thesis using assms(3) by (force simp: sortedByKind_def split: sum.splits)
qed

text \<open>
  A trusted vote: a verdict returned by a selected provider that is not observational. It
  reaches the outcome as it is.
\<close>

definition trusted_vote :: "ProviderPool \<Rightarrow> FacetKind list \<Rightarrow> Decision \<Rightarrow> FacetVerdict \<Rightarrow> bool" where
  "trusted_vote pl wfs d v \<longleftrightarrow> (\<exists>p \<in> set (select_providers pl wfs). pp_Trust p \<noteq> TrustObservational \<and>
     (\<exists>q vs. pp_Provider p = Some q \<and> pr_Evaluate q d = Inr vs \<and> v \<in> set vs))"

lemma Route_trusted_vote:
  assumes "Route sh (Some pl) d wfs = Inr oc" "\<And>rs. mset (sh rs) = mset rs" "trusted_vote pl wfs d v"
  shows "v \<in> set (oc_Verdicts oc)"
proof -
  from assms(3) obtain p q vs where p: "p \<in> set (select_providers pl wfs)" "pp_Trust p \<noteq> TrustObservational"
    "pp_Provider p = Some q" "pr_Evaluate q d = Inr vs" "v \<in> set vs" by (auto simp: trusted_vote_def)
  have res: "rr_verdicts (call_provider d p) = Inr vs" "downgrade (call_provider d p) v = v"
    using p by (simp_all add: call_provider_def downgrade_def)
  have set_sh: "set (sh rs) = set rs" for rs using assms(2) by (metis set_mset_mset)
  from assms(1) have "oc_Verdicts oc = concat (map (\<lambda>res. case rr_verdicts res of Inl e \<Rightarrow> [] | Inr vs \<Rightarrow>
      map (downgrade res) (sortedByKind vs)) (sort_key rr_name (sh (map (call_provider d) (select_providers pl wfs)))))"
    by (auto simp: Route_def Let_def merge_results_verdicts split: if_splits)
  then show ?thesis
    using p(1,5) res by (auto simp: set_sh sortedByKind_def intro!: bexI [of _ p] image_eqI [of _ _ v])
qed

text \<open>
  Trust is enforced on critical facets. Every critical verdict of the outcome that is not
  an ABSTAIN was returned, as it is, by a selected provider that is not observational.
\<close>

theorem Route_critical_trust:
  assumes "Route sh (Some pl) d wfs = Inr oc" "\<And>rs. mset (sh rs) = mset rs"
    and "v \<in> set (oc_Verdicts oc)" "isCritical (fv_Kind v)" "fv_Verdict v \<noteq> VerdictAbstain"
  shows "\<exists>p \<in> set pl. pp_Trust p \<noteq> TrustObservational \<and>
    (\<exists>q vs. pp_Provider p = Some q \<and> pr_Evaluate q d = Inr vs \<and> v \<in> set vs)"
proof -
  from Route_verdict_origin [OF assms(1-3)] obtain p vs v0 where p: "p \<in> set (select_providers pl wfs)"
    "rr_verdicts (call_provider d p) = Inr vs" "v0 \<in> set vs" "v = downgrade (call_provider d p) v0" by blast
  then have "v = v0" "pp_Trust p \<noteq> TrustObservational"
    using assms(4,5) by (auto simp: downgrade_def call_provider_def split: if_splits)
  with p show ?thesis
    by (auto simp: select_providers_def call_provider_def Let_def split: option.splits)
qed

theorem Route_critical_trust_witness:
  "\<exists>oc. Route id (Some [voter ''p'' TrustSystem [''safety''] [sample_verdict ''safety'' VerdictReject 1]]) (sample_decision ''x'' 0) [] = Inr oc \<and>
    (\<exists>p \<in> set [voter ''p'' TrustSystem [''safety''] [sample_verdict ''safety'' VerdictReject 1]]. pp_Trust p \<noteq> TrustObservational)"
proof -
  let ?pl = "[voter ''p'' TrustSystem [''safety''] [sample_verdict ''safety'' VerdictReject 1]]"
  obtain oc where oc: "Route id (Some ?pl) (sample_decision ''x'' 0) [] = Inr oc"
    "sample_verdict ''safety'' VerdictReject 1 \<in> set (oc_Verdicts oc)"
    by (simp add: Route_def select_providers_def voter_def AllFacetKinds_def facetToCap_def facet_defs call_provider_def
        sortedByKind_def downgrade_def Let_def)
  have "\<exists>p \<in> set ?pl. pp_Trust p \<noteq> TrustObservational \<and>
      (\<exists>q vs. pp_Provider p = Some q \<and> pr_Evaluate q (sample_decision ''x'' 0) = Inr vs \<and> sample_verdict ''safety'' VerdictReject 1 \<in> set vs)"
    by (rule Route_critical_trust [OF oc(1) _ oc(2)]) (simp_all add: sample_verdict_def isCritical_def facet_defs)
  with oc show ?thesis by blast
qed

text \<open>
  A provider that declares no competence for safety is selected for another facet, and its
  safety verdict enters the outcome: the capability that \<open>facetToCap\<close> calls required to vote
  on a facet is not checked on the verdicts.
\<close>

lemma capability_not_enforced:
  "\<exists>oc. Route id (Some [voter ''p'' TrustDelegated [''correctness''] [sample_verdict ''safety'' VerdictReject 1]]) d
      [FacetCorrectness] = Inr oc \<and> oc_Verdicts oc = [sample_verdict ''safety'' VerdictReject 1]"
  by (simp add: Route_def select_providers_def voter_def facetToCap_def facet_defs call_provider_def sortedByKind_def
      downgrade_def Let_def)

end
