(* ===== verification/Http_Adapter.thy ===== *)
theory Http_Adapter
  imports Judge_Pool
begin

text \<open>
  The HTTP provider adapter, \<open>decision/attest/adapter.go\<close>. What happens between the adapter
  and the remote evaluator is the argument \<open>exchange\<close>: for a request it says whether the
  endpoint is no URL, the transport failed, or a status came back with a body that does or
  does not decode. The request carries the instant \<open>SubmittedAt\<close> itself, not its RFC 3339
  text. The lemmas show what a remote answer can and cannot put into the verdicts, and that
  without a usable answer the adapter is its fallback.
\<close>

section \<open>The adapter\<close>

record evaluateRequest =
  er_DecisionID :: gostring
  er_Submitter :: gostring
  er_SpecID :: gostring
  er_Nonce :: "64 word"
  er_PayloadHex :: gostring
  er_SubmittedAt :: int

record evaluateResponseFacet =
  rf_Kind :: gostring
  rf_Verdict :: gostring
  rf_Confidence :: float64
  rf_Reason :: gostring

text \<open>The outcome of the request: the status and the decoded body, if it decodes.\<close>

datatype exchange_result =
    BadEndpoint
  | TransportError
  | Answered int "evaluateResponseFacet list option"

type_synonym exchange = "gostring \<Rightarrow> gostring \<Rightarrow> evaluateRequest \<Rightarrow> exchange_result"

record HTTPProviderConfig =
  hc_Name :: gostring
  hc_Endpoint :: gostring
  hc_Token :: gostring
  hc_Timeout :: int
  hc_Fallback :: "Provider option"
  hc_AllowedFacets :: "FacetKind list"

record HTTPProviderAdapter =
  ha_Name :: gostring
  ha_Endpoint :: gostring
  ha_Token :: gostring
  ha_Timeout :: int
  ha_Fallback :: Provider
  ha_allowed :: "FacetKind list"

definition NewHTTPProviderAdapter :: "HTTPProviderConfig \<Rightarrow> HTTPProviderAdapter" where
  "NewHTTPProviderAdapter cfg =
     (let name = (if hc_Name cfg = '''' then ''http-adapter'' else hc_Name cfg) in
      \<lparr>ha_Name = name, ha_Endpoint = hc_Endpoint cfg, ha_Token = hc_Token cfg,
       ha_Timeout = (if hc_Timeout cfg = 0 then 5 * 10 ^ 9 else hc_Timeout cfg),
       ha_Fallback = (case hc_Fallback cfg of
          None \<Rightarrow> fixture (NewNamedFixtureProvider (name @ ''-fallback'')) | Some p \<Rightarrow> p),
       ha_allowed = hc_AllowedFacets cfg\<rparr>)"

definition NewHTTPProviderAdapterFromEnv :: "(gostring \<Rightarrow> gostring) \<Rightarrow> HTTPProviderAdapter" where
  "NewHTTPProviderAdapterFromEnv getenv = NewHTTPProviderAdapter
     \<lparr>hc_Name = TrimSpace (getenv ''CP_DECISION_PROVIDER_NAME''),
      hc_Endpoint = TrimSpace (getenv ''CP_DECISION_PROVIDER_URL''),
      hc_Token = TrimSpace (getenv ''CP_DECISION_PROVIDER_TOKEN''),
      hc_Timeout = 0, hc_Fallback = None, hc_AllowedFacets = []\<rparr>"

definition Configured :: "HTTPProviderAdapter \<Rightarrow> bool" where
  "Configured a \<longleftrightarrow> ha_Endpoint a \<noteq> ''''"

text \<open>
  \<^verbatim>\<open>strings.ToUpper\<close>, as far as a comparison with ASCII text can tell: besides the ASCII
  letters, only U+0131 (dotless i) and U+017F (long s) have an ASCII capital; every other
  character outside ASCII stays outside.
\<close>

fun to_upper :: "gostring \<Rightarrow> gostring" where
  "to_upper [] = []"
| "to_upper (a # s) =
     (if a = byte 196 \<and> take 1 s = [byte 177] then CHR ''I'' # to_upper (drop 1 s)
      else if a = byte 197 \<and> take 1 s = [byte 191] then CHR ''S'' # to_upper (drop 1 s)
      else (let n = of_char a :: nat in if 97 \<le> n \<and> n \<le> 122 then char_of (n - 32) else a) # to_upper s)"

definition parseVerdictString :: "gostring \<Rightarrow> gostring + Verdict" where
  "parseVerdictString s =
     (let u = to_upper (TrimSpace s) in
      if u = ''APPROVE'' then Inr VerdictApprove
      else if u = ''ABSTAIN'' then Inr VerdictAbstain
      else if u = ''REJECT'' then Inr VerdictReject
      else Inl (''decision: unknown verdict string '' @ quote_string s))"

fun verdictWireString :: "Verdict \<Rightarrow> gostring" where
  "verdictWireString VerdictApprove = ''APPROVE''"
| "verdictWireString VerdictAbstain = ''ABSTAIN''"
| "verdictWireString VerdictReject = ''REJECT''"
| "verdictWireString VerdictUnknown = ''UNKNOWN''"

definition clamp_conf :: "float64 \<Rightarrow> float64" where
  "clamp_conf c = (let c = (if c < 0 then 0 else c) in if c > 1 then 1 else c)"

fun wire_loop :: "FacetKind list \<Rightarrow> evaluateResponseFacet list \<Rightarrow> FacetVerdict list" where
  "wire_loop allowed [] = []"
| "wire_loop allowed (f # fs) =
     (if length allowed > 0 \<and> rf_Kind f \<notin> set allowed then wire_loop allowed fs
      else case parseVerdictString (rf_Verdict f) of
          Inl _ \<Rightarrow> wire_loop allowed fs
        | Inr v \<Rightarrow> \<lparr>fv_Kind = rf_Kind f, fv_Verdict = v, fv_Confidence = clamp_conf (rf_Confidence f),
            fv_Reason = rf_Reason f\<rparr> # wire_loop allowed fs)"

definition wire_request :: "Decision \<Rightarrow> evaluateRequest" where
  "wire_request d = \<lparr>er_DecisionID = Decision_ID d, er_Submitter = Submitter d, er_SpecID = SpecID d,
     er_Nonce = Nonce d, er_PayloadHex = hex_encode (Payload d), er_SubmittedAt = SubmittedAt d\<rparr>"

definition Adapter_Evaluate :: "exchange \<Rightarrow> HTTPProviderAdapter \<Rightarrow> Decision \<Rightarrow> gostring + FacetVerdict list" where
  "Adapter_Evaluate exch a d =
     (if \<not> Configured a then pr_Evaluate (ha_Fallback a) d
      else case exch (ha_Endpoint a) (ha_Token a) (wire_request d) of
          BadEndpoint \<Rightarrow> pr_Evaluate (ha_Fallback a) d
        | TransportError \<Rightarrow> pr_Evaluate (ha_Fallback a) d
        | Answered status body \<Rightarrow>
            if status < 200 \<or> status \<ge> 300 then pr_Evaluate (ha_Fallback a) d
            else case body of
                None \<Rightarrow> pr_Evaluate (ha_Fallback a) d
              | Some fs \<Rightarrow> Inr (wire_loop (ha_allowed a) fs))"

definition adapter :: "exchange \<Rightarrow> HTTPProviderAdapter \<Rightarrow> Provider" where
  "adapter exch a = \<lparr>pr_Name = ha_Name a, pr_Evaluate = Adapter_Evaluate exch a\<rparr>"

definition RemoteRequired :: "HTTPProviderAdapter \<Rightarrow> gostring option" where
  "RemoteRequired a =
     (if \<not> Configured a then Some ''decision: HTTP provider adapter is unconfigured'' else None)"

section \<open>What a remote answer becomes\<close>

definition usable_facets :: "exchange \<Rightarrow> HTTPProviderAdapter \<Rightarrow> Decision \<Rightarrow> evaluateResponseFacet list option" where
  "usable_facets exch a d =
     (if \<not> Configured a then None
      else case exch (ha_Endpoint a) (ha_Token a) (wire_request d) of
          Answered status (Some fs) \<Rightarrow> if 200 \<le> status \<and> status < 300 then Some fs else None
        | _ \<Rightarrow> None)"

lemma Adapter_Evaluate_usable:
  "Adapter_Evaluate exch a d =
     (case usable_facets exch a d of None \<Rightarrow> pr_Evaluate (ha_Fallback a) d | Some fs \<Rightarrow> Inr (wire_loop (ha_allowed a) fs))"
  by (auto simp: Adapter_Evaluate_def usable_facets_def split: exchange_result.splits option.splits)

lemma clamp_conf_range: "0 \<le> clamp_conf c" "clamp_conf c \<le> 1"
  by (simp_all add: clamp_conf_def Let_def)

lemma clamp_conf_id: "0 \<le> c \<Longrightarrow> c \<le> 1 \<Longrightarrow> clamp_conf c = c"
  by (simp add: clamp_conf_def)

lemma parseVerdictString_known: "parseVerdictString s = Inr v \<Longrightarrow> v \<noteq> VerdictUnknown"
  by (auto simp: parseVerdictString_def Let_def split: if_splits)

lemma wire_loop_verdict:
  "fv \<in> set (wire_loop allowed fs) \<Longrightarrow> \<exists>f \<in> set fs. fv_Kind fv = rf_Kind f \<and>
     parseVerdictString (rf_Verdict f) = Inr (fv_Verdict fv) \<and> fv_Confidence fv = clamp_conf (rf_Confidence f) \<and>
     fv_Reason fv = rf_Reason f \<and> (allowed = [] \<or> fv_Kind fv \<in> set allowed)"
  by (induction allowed fs rule: wire_loop.induct) (auto split: if_splits sum.splits)

lemma wire_loop_complete:
  "f \<in> set fs \<Longrightarrow> parseVerdictString (rf_Verdict f) = Inr v \<Longrightarrow> allowed = [] \<or> rf_Kind f \<in> set allowed \<Longrightarrow>
   \<lparr>fv_Kind = rf_Kind f, fv_Verdict = v, fv_Confidence = clamp_conf (rf_Confidence f), fv_Reason = rf_Reason f\<rparr>
     \<in> set (wire_loop allowed fs)"
  by (induction allowed fs rule: wire_loop.induct) (auto split: if_splits sum.splits)


text \<open>
  What enters the pool from a remote evaluator. Without a usable answer (no endpoint, no
  transport, a status outside 200 to 299, a body that does not decode) the adapter answers
  what its fallback answers. With one, its verdicts are exactly the readable entries on an
  allowed facet: the facet and the reason are the remote's, the confidence is cut to the
  range from 0 to 1, and the verdict is never unknown.
\<close>

theorem adapter_answer:
  "case usable_facets exch a d of
     None \<Rightarrow> Adapter_Evaluate exch a d = pr_Evaluate (ha_Fallback a) d
   | Some fs \<Rightarrow> \<exists>vs. Adapter_Evaluate exch a d = Inr vs \<and>
       set vs = {\<lparr>fv_Kind = rf_Kind f, fv_Verdict = v, fv_Confidence = clamp_conf (rf_Confidence f), fv_Reason = rf_Reason f\<rparr> | f v.
         f \<in> set fs \<and> parseVerdictString (rf_Verdict f) = Inr v \<and> (ha_allowed a = [] \<or> rf_Kind f \<in> set (ha_allowed a))} \<and>
       list_all (\<lambda>fv. 0 \<le> fv_Confidence fv \<and> fv_Confidence fv \<le> 1 \<and> fv_Verdict fv \<noteq> VerdictUnknown) vs"
proof (cases "usable_facets exch a d")
  case (Some fs)
  let ?vs = "wire_loop (ha_allowed a) fs"
  have "fv \<in> set ?vs \<Longrightarrow> \<exists>f v. fv = \<lparr>fv_Kind = rf_Kind f, fv_Verdict = v, fv_Confidence = clamp_conf (rf_Confidence f), fv_Reason = rf_Reason f\<rparr> \<and>
      f \<in> set fs \<and> parseVerdictString (rf_Verdict f) = Inr v \<and> (ha_allowed a = [] \<or> rf_Kind f \<in> set (ha_allowed a))" for fv
    using wire_loop_verdict [of fv "ha_allowed a" fs] by (cases fv) fastforce
  moreover have "list_all (\<lambda>fv. 0 \<le> fv_Confidence fv \<and> fv_Confidence fv \<le> 1 \<and> fv_Verdict fv \<noteq> VerdictUnknown) ?vs"
    by (auto simp: list_all_iff clamp_conf_range dest!: wire_loop_verdict dest: parseVerdictString_known)
  ultimately show ?thesis using Some wire_loop_complete by (fastforce simp: Adapter_Evaluate_usable)
qed (simp add: Adapter_Evaluate_usable)

end
