(* ===== verification/Hitl.thy ===== *)
theory Hitl
  imports Decision_Judge "HOL-Library.Product_Lexorder"
begin

text \<open>
  The human-in-the-loop service, \<open>hitl/hitl.go\<close>: the \<open>TicketStore\<close> interface (a locale), the
  in-memory store that implements it, and the policy decision \<open>Decide\<close>. The store is passed
  through the calls; clock and id generator are arguments, as they are fields of the Go
  service; float rounding is the argument \<open>rnd\<close>. The lemmas show that a resolved ticket is
  final and a ticket never lost, in any store that keeps the contract, and when the policy
  passes, escalates or vetoes.
\<close>

section \<open>Tickets and the in-memory store\<close>

record Ticket =
  tk_ID :: gostring
  tk_DecisionID :: gostring
  tk_Submitter :: gostring
  tk_SpecID :: gostring
  tk_OpenedAt :: int
  tk_ResolvedAt :: "int option"
  tk_Reason :: gostring
  tk_Aggregate :: gostring
  tk_VetoedBy :: gostring
  tk_State :: gostring
  tk_Resolver :: gostring
  tk_ResolutionNote :: gostring

record TicketFilter =
  tf_State :: gostring
  tf_Limit :: int
  tf_OpenedAfter :: "int option"

datatype hitl_error = ErrTicketNotFound | ErrAlreadyResolved | ErrInvalidState | ErrEmptyTicketID | ErrTicketExists gostring

type_synonym InMemoryTicketStore = "gostring \<rightharpoonup> Ticket"

definition NewInMemoryTicketStore :: InMemoryTicketStore where
  "NewInMemoryTicketStore = Map.empty"

definition Store_Create :: "InMemoryTicketStore \<Rightarrow> Ticket \<Rightarrow> hitl_error + InMemoryTicketStore" where
  "Store_Create s t =
     (if tk_ID t = '''' then Inl ErrEmptyTicketID
      else case s (tk_ID t) of
          Some _ \<Rightarrow> Inl (ErrTicketExists (tk_ID t))
        | None \<Rightarrow> Inr (s(tk_ID t \<mapsto> t)))"

definition Store_Get :: "InMemoryTicketStore \<Rightarrow> gostring \<Rightarrow> hitl_error + Ticket" where
  "Store_Get s i = (case s i of None \<Rightarrow> Inl ErrTicketNotFound | Some t \<Rightarrow> Inr t)"

definition validResolutionState :: "gostring \<Rightarrow> bool" where
  "validResolutionState s \<longleftrightarrow> s = ''approved'' \<or> s = ''rejected'' \<or> s = ''stale_escalation''"

definition Store_Resolve ::
  "int \<Rightarrow> InMemoryTicketStore \<Rightarrow> gostring \<Rightarrow> gostring \<Rightarrow> gostring \<Rightarrow> gostring \<Rightarrow>
   hitl_error + Ticket \<times> InMemoryTicketStore" where
  "Store_Resolve now s i resolver st note =
     (if \<not> validResolutionState st then Inl ErrInvalidState
      else case s i of
          None \<Rightarrow> Inl ErrTicketNotFound
        | Some t \<Rightarrow>
            if tk_State t \<noteq> ''pending'' then Inl ErrAlreadyResolved
            else let t' = t\<lparr>tk_State := st, tk_Resolver := resolver, tk_ResolutionNote := note,
                            tk_ResolvedAt := Some now\<rparr>
                 in Inr (t', s(i \<mapsto> t')))"

definition Store_List :: "gostring list \<Rightarrow> InMemoryTicketStore \<Rightarrow> TicketFilter \<Rightarrow> Ticket list" where
  "Store_List ks s f =
     (let out = filter (\<lambda>t. \<not> (tf_State f \<noteq> '''' \<and> tk_State t \<noteq> tf_State f) \<and>
            \<not> (case tf_OpenedAfter f of None \<Rightarrow> False | Some a \<Rightarrow> tk_OpenedAt t < a)) (range_values ks s);
          sorted = sort_key (\<lambda>t. (- tk_OpenedAt t, tk_ID t)) out
      in if tf_Limit f > 0 \<and> int (length sorted) > tf_Limit f then take (nat (tf_Limit f)) sorted else sorted)"

section \<open>The service\<close>

datatype Action = ActionPass | ActionEscalate | ActionVeto

record Policy =
  ConfidenceThreshold :: float64
  EscalateOnCriticalAbstain :: bool
  VetoOnCriticalReject :: bool

definition DefaultPolicy :: Policy where
  "DefaultPolicy = \<lparr>ConfidenceThreshold = 6 / 10, EscalateOnCriticalAbstain = True, VetoOnCriticalReject = True\<rparr>"

definition NewService_policy :: "Policy \<Rightarrow> Policy" where
  "NewService_policy p =
     (if p = \<lparr>ConfidenceThreshold = 0, EscalateOnCriticalAbstain = False, VetoOnCriticalReject = False\<rparr>
      then DefaultPolicy else p)"

record Response =
  rs_Action :: Action
  rs_Reason :: gostring
  rs_TicketID :: gostring

definition isCriticalKind :: "FacetKind \<Rightarrow> bool" where
  "isCriticalKind k \<longleftrightarrow> k = FacetSafety \<or> k = FacetEquivocation"

fun approve_sum :: "(float64 \<Rightarrow> float64) \<Rightarrow> float64 \<Rightarrow> int \<Rightarrow> FacetVerdict list \<Rightarrow> float64 \<times> int" where
  "approve_sum rnd acc n [] = (acc, n)"
| "approve_sum rnd acc n (v # vs) =
     (if isCriticalKind (fv_Kind v) then approve_sum rnd acc n vs
      else if fv_Verdict v \<noteq> VerdictApprove then approve_sum rnd acc n vs
      else approve_sum rnd (rnd (acc + fv_Confidence v)) (n + 1) vs)"

definition nonCriticalApproveConfidence :: "(float64 \<Rightarrow> float64) \<Rightarrow> FacetVerdict list \<Rightarrow> float64 \<times> int" where
  "nonCriticalApproveConfidence rnd vs =
     (let (acc, n) = approve_sum rnd 0 0 vs
      in if n = 0 then (0, 0) else (rnd (acc / of_int n), n))"

definition openTicket ::
  "('s \<Rightarrow> Ticket \<Rightarrow> 'e + 's) \<Rightarrow> int \<Rightarrow> gostring \<Rightarrow> 's \<Rightarrow> DecisionCommit \<Rightarrow> gostring \<Rightarrow> 'e + Ticket \<times> 's" where
  "openTicket create clock newid s commit reason =
     (let t = \<lparr>tk_ID = newid, tk_DecisionID = dc_DecisionID commit, tk_Submitter = Submitter (dc_Decision commit),
               tk_SpecID = SpecID (dc_Decision commit), tk_OpenedAt = clock, tk_ResolvedAt = None,
               tk_Reason = reason, tk_Aggregate = Verdict_String (dc_Aggregate commit),
               tk_VetoedBy = dc_VetoedBy commit, tk_State = ''pending'', tk_Resolver = '''',
               tk_ResolutionNote = ''''\<rparr>
      in case create s t of Inl e \<Rightarrow> Inl e | Inr s' \<Rightarrow> Inr (t, s'))"

text \<open>The first critical facet that abstained, in the order of the commit.\<close>

fun critical_abstain :: "FacetVerdict list \<Rightarrow> FacetVerdict option" where
  "critical_abstain [] = None"
| "critical_abstain (v # vs) =
     (if \<not> isCriticalKind (fv_Kind v) then critical_abstain vs
      else if fv_Verdict v = VerdictAbstain then Some v
      else critical_abstain vs)"

definition escalate ::
  "('s \<Rightarrow> Ticket \<Rightarrow> 'e + 's) \<Rightarrow> int \<Rightarrow> gostring \<Rightarrow> 's \<Rightarrow> DecisionCommit \<Rightarrow> gostring \<Rightarrow> 'e + Response \<times> 's" where
  "escalate create clock newid s commit reason =
     (case openTicket create clock newid s commit reason of
        Inl e \<Rightarrow> Inl e
      | Inr (ticket, s') \<Rightarrow>
          Inr (\<lparr>rs_Action = ActionEscalate, rs_Reason = tk_Reason ticket, rs_TicketID = tk_ID ticket\<rparr>, s'))"

definition Decide ::
  "(float64 \<Rightarrow> float64) \<Rightarrow> ('s \<Rightarrow> Ticket \<Rightarrow> 'e + 's) \<Rightarrow> Policy \<Rightarrow> int \<Rightarrow> gostring \<Rightarrow> 's \<Rightarrow> DecisionCommit \<Rightarrow>
   'e + Response \<times> 's" where
  "Decide rnd create policy clock newid s commit =
     (if VetoOnCriticalReject policy \<and> dc_Aggregate commit = VerdictReject \<and> dc_VetoedBy commit \<noteq> '''' then
        Inr (\<lparr>rs_Action = ActionVeto, rs_Reason = ''critical-veto by '' @ dc_VetoedBy commit @ '': '' @
          dc_AbstainReason commit, rs_TicketID = ''''\<rparr>, s)
      else case (if EscalateOnCriticalAbstain policy then critical_abstain (dc_FacetVerdicts commit) else None) of
          Some v \<Rightarrow> escalate create clock newid s commit
            (''critical facet '' @ fv_Kind v @ '' ABSTAINed: '' @ fv_Reason v)
        | None \<Rightarrow>
            let (meanConf, n) = nonCriticalApproveConfidence rnd (dc_FacetVerdicts commit) in
            if n > 0 \<and> meanConf < ConfidenceThreshold policy then
              escalate create clock newid s commit
                (''low-confidence: mean approve confidence '' @ show_fixed 3 meanConf @ '' < '' @
                 show_fixed 3 (ConfidenceThreshold policy) @ '' threshold'')
            else Inr (\<lparr>rs_Action = ActionPass, rs_Reason = ''policy: no escalation trigger'', rs_TicketID = ''''\<rparr>, s))"

section \<open>The contract of ticket stores\<close>

datatype store_op =
    OpCreate Ticket
  | OpResolve int gostring gostring gostring gostring

text \<open>A sequence of calls on a store; a call that fails leaves it as it is.\<close>

fun run_store ::
  "('s \<Rightarrow> Ticket \<Rightarrow> 'e + 's) \<Rightarrow> (int \<Rightarrow> 's \<Rightarrow> gostring \<Rightarrow> gostring \<Rightarrow> gostring \<Rightarrow> gostring \<Rightarrow> 'e + Ticket \<times> 's) \<Rightarrow>
   's \<Rightarrow> store_op list \<Rightarrow> 's" where
  "run_store create resolve s [] = s"
| "run_store create resolve s (OpCreate t # ops) =
     run_store create resolve (case create s t of Inl _ \<Rightarrow> s | Inr s' \<Rightarrow> s') ops"
| "run_store create resolve s (OpResolve now i r st n # ops) =
     run_store create resolve (case resolve now s i r st n of Inl _ \<Rightarrow> s | Inr (_, s') \<Rightarrow> s') ops"

locale ticket_store =
  fixes create :: "'s \<Rightarrow> Ticket \<Rightarrow> 'e + 's" and get :: "'s \<Rightarrow> gostring \<Rightarrow> 'e + Ticket"
    and resolve :: "int \<Rightarrow> 's \<Rightarrow> gostring \<Rightarrow> gostring \<Rightarrow> gostring \<Rightarrow> gostring \<Rightarrow> 'e + Ticket \<times> 's"
  assumes create_get: "create s t = Inr s' \<Longrightarrow> get s' (tk_ID t) = Inr t"
    and create_other: "create s t = Inr s' \<Longrightarrow> i \<noteq> tk_ID t \<Longrightarrow> get s' i = get s i"
    and create_fresh: "create s t = Inr s' \<Longrightarrow> \<exists>e. get s (tk_ID t) = Inl e"
    and resolve_pending: "resolve now s i r st n = Inr (t, s') \<Longrightarrow>
      \<exists>t0. get s i = Inr t0 \<and> tk_State t0 = ''pending'' \<and> st \<noteq> ''pending'' \<and> get s' i = Inr t \<and>
        t = t0\<lparr>tk_State := st, tk_Resolver := r, tk_ResolutionNote := n, tk_ResolvedAt := Some now\<rparr>"
    and resolve_other: "resolve now s i r st n = Inr (t, s') \<Longrightarrow> j \<noteq> i \<Longrightarrow> get s' j = get s j"
begin

lemma create_keeps:
  assumes "create s t = Inr s'" "get s i = Inr u"
  shows "get s' i = Inr u"
proof -
  have "i \<noteq> tk_ID t" using create_fresh [OF assms(1)] assms(2) by auto
  with create_other [OF assms(1)] assms(2) show ?thesis by simp
qed

text \<open>A step keeps every resolved ticket as it is and every ticket in the store.\<close>

lemma resolve_keeps:
  assumes "resolve now s j r st n = Inr (t', s')" "get s i = Inr u"
  shows "\<exists>u'. get s' i = Inr u' \<and> tk_DecisionID u' = tk_DecisionID u \<and> tk_Reason u' = tk_Reason u \<and>
    (tk_State u \<noteq> ''pending'' \<longrightarrow> u' = u)"
proof (cases "i = j")
  case True
  with resolve_pending [OF assms(1)] assms(2) show ?thesis by auto
next
  case False
  with resolve_other [OF assms(1)] assms(2) show ?thesis by auto
qed

lemma store_keeps:
  "get s i = Inr u \<Longrightarrow>
   \<exists>u'. get (run_store create resolve s ops) i = Inr u' \<and> tk_DecisionID u' = tk_DecisionID u \<and>
     tk_Reason u' = tk_Reason u \<and> (tk_State u \<noteq> ''pending'' \<longrightarrow> u' = u)"
proof (induction ops arbitrary: s u)
  case (Cons op ops)
  show ?case
  proof (cases op)
    case (OpCreate t)
    with Cons show ?thesis by (cases "create s t") (auto dest: create_keeps)
  next
    case (OpResolve now j r st n)
    show ?thesis
    proof (cases "resolve now s j r st n")
      case (Inl e)
      with Cons OpResolve show ?thesis by simp
    next
      case (Inr p)
      obtain t' s' where p: "p = (t', s')" by fastforce
      from resolve_keeps [OF Inr [unfolded p] Cons.prems] obtain u1 where
        u1: "get s' i = Inr u1" "tk_DecisionID u1 = tk_DecisionID u" "tk_Reason u1 = tk_Reason u"
          "tk_State u \<noteq> ''pending'' \<longrightarrow> u1 = u" by blast
      from Cons.IH [OF u1(1)] u1 OpResolve Inr p show ?thesis by auto
    qed
  qed
qed simp

text \<open>An escalation opens a pending ticket and leaves the others alone.\<close>

lemma escalate_opens:
  assumes "escalate create clock newid s c reason = Inr (resp, s')"
  shows "rs_Action resp = ActionEscalate \<and> rs_TicketID resp = newid \<and> rs_Reason resp = reason \<and>
    (\<exists>t. get s' newid = Inr t \<and> tk_State t = ''pending'' \<and> tk_DecisionID t = dc_DecisionID c \<and> tk_Reason t = reason) \<and>
    (\<exists>e. get s newid = Inl e) \<and> (\<forall>i. i \<noteq> newid \<longrightarrow> get s' i = get s i)"
proof -
  from assms obtain t where t: "create s t = Inr s'" "tk_ID t = newid" "tk_State t = ''pending''"
    "tk_DecisionID t = dc_DecisionID c" "tk_Reason t = reason"
    "resp = \<lparr>rs_Action = ActionEscalate, rs_Reason = reason, rs_TicketID = newid\<rparr>"
    by (auto simp: escalate_def openTicket_def Let_def split: sum.splits)
  with create_get [OF t(1)] create_other [OF t(1)] create_fresh [OF t(1)] show ?thesis by auto
qed

text \<open>Every outcome of \<open>Decide\<close> is a veto, an escalation or a pass, under the conditions of the policy.\<close>

lemma Decide_cases:
  assumes "Decide rnd create policy clock newid s c = Inr (resp, s')"
  obtains (veto) "VetoOnCriticalReject policy" "dc_Aggregate c = VerdictReject" "dc_VetoedBy c \<noteq> []"
      "rs_Action resp = ActionVeto" "s' = s"
  | (escalated) reason where "escalate create clock newid s c reason = Inr (resp, s')"
      "\<not> (VetoOnCriticalReject policy \<and> dc_Aggregate c = VerdictReject \<and> dc_VetoedBy c \<noteq> [])"
      "EscalateOnCriticalAbstain policy \<and> critical_abstain (dc_FacetVerdicts c) \<noteq> None \<or>
       0 < snd (nonCriticalApproveConfidence rnd (dc_FacetVerdicts c)) \<and>
       fst (nonCriticalApproveConfidence rnd (dc_FacetVerdicts c)) < ConfidenceThreshold policy"
  | (pass) "\<not> (VetoOnCriticalReject policy \<and> dc_Aggregate c = VerdictReject \<and> dc_VetoedBy c \<noteq> [])"
      "\<not> (EscalateOnCriticalAbstain policy \<and> critical_abstain (dc_FacetVerdicts c) \<noteq> None)"
      "\<not> (0 < snd (nonCriticalApproveConfidence rnd (dc_FacetVerdicts c)) \<and>
          fst (nonCriticalApproveConfidence rnd (dc_FacetVerdicts c)) < ConfidenceThreshold policy)"
      "rs_Action resp = ActionPass" "s' = s"
proof -
  obtain m n where mn: "nonCriticalApproveConfidence rnd (dc_FacetVerdicts c) = (m, n)" by fastforce
  show ?thesis
    using assms veto escalated pass unfolding Decide_def mn
    by (auto split: if_splits option.splits)
qed

end

interpretation memory: ticket_store Store_Create Store_Get Store_Resolve
proof unfold_locales
  fix s s' :: InMemoryTicketStore and t t' i
  assume c: "Store_Create s t = Inr s'"
  show "Store_Get s' (tk_ID t) = Inr t" "\<exists>e. Store_Get s (tk_ID t) = Inl e"
    "i \<noteq> tk_ID t \<Longrightarrow> Store_Get s' i = Store_Get s i"
    using c by (auto simp: Store_Create_def Store_Get_def split: if_splits option.splits)
next
  fix s s' :: InMemoryTicketStore and now r st n t i j
  assume r: "Store_Resolve now s i r st n = Inr (t, s')"
  show "\<exists>t0. Store_Get s i = Inr t0 \<and> tk_State t0 = ''pending'' \<and> st \<noteq> ''pending'' \<and> Store_Get s' i = Inr t \<and>
      t = t0\<lparr>tk_State := st, tk_Resolver := r, tk_ResolutionNote := n, tk_ResolvedAt := Some now\<rparr>"
    "j \<noteq> i \<Longrightarrow> Store_Get s' j = Store_Get s j"
    using r by (auto simp: Store_Resolve_def Store_Get_def validResolutionState_def Let_def split: if_splits option.splits)
qed

section \<open>Properties of the store and the service\<close>

text \<open>
  A resolved ticket is final and no ticket is lost. Whatever sequence of \<open>Create\<close> and
  \<open>Resolve\<close> calls follows, with whatever outcomes, a stored ticket stays in the store with
  its decision and reason, and once it is resolved it is never changed again.
\<close>

theorem ticket_resolution_final:
  assumes "Store_Get s i = Inr t"
  shows "\<exists>t'. Store_Get (run_store Store_Create Store_Resolve s ops) i = Inr t' \<and>
    tk_DecisionID t' = tk_DecisionID t \<and> tk_Reason t' = tk_Reason t \<and> (tk_State t \<noteq> ''pending'' \<longrightarrow> t' = t)"
  using memory.store_keeps [OF assms] .

definition sample_ticket :: "gostring \<Rightarrow> gostring \<Rightarrow> Ticket" where
  "sample_ticket i st = \<lparr>tk_ID = i, tk_DecisionID = ''d'', tk_Submitter = ''a'', tk_SpecID = ''p'', tk_OpenedAt = 0,
     tk_ResolvedAt = None, tk_Reason = ''r'', tk_Aggregate = ''ABSTAIN'', tk_VetoedBy = [], tk_State = st,
     tk_Resolver = [], tk_ResolutionNote = []\<rparr>"

theorem ticket_resolution_final_witness:
  "Store_Get (run_store Store_Create Store_Resolve [''t'' \<mapsto> sample_ticket ''t'' ''rejected'']
     [OpResolve 5 ''t'' ''bob'' ''approved'' ''again'']) ''t'' = Inr (sample_ticket ''t'' ''rejected'')"
proof -
  have "Store_Get [''t'' \<mapsto> sample_ticket ''t'' ''rejected''] ''t'' = Inr (sample_ticket ''t'' ''rejected'')"
    by (simp add: Store_Get_def)
  from ticket_resolution_final [OF this, of "[OpResolve 5 ''t'' ''bob'' ''approved'' ''again'']"] show ?thesis
    by (auto simp: sample_ticket_def)
qed

lemma critical_abstain_None:
  "critical_abstain vs = None \<longleftrightarrow> (\<forall>v \<in> set vs. isCritical (fv_Kind v) \<longrightarrow> fv_Verdict v \<noteq> VerdictAbstain)"
  by (induction vs) (auto simp: isCriticalKind_def isCritical_def)

text \<open>
  The policy decision. Without a failing store, \<open>Decide\<close> vetoes exactly on an enabled
  critical veto, escalates exactly on an enabled critical abstention or on a low mean
  confidence, and otherwise passes; an escalation leaves a pending ticket for this decision
  under the id it returns, which was not in use, and every other action leaves the store
  unchanged.
\<close>

theorem Decide_policy:
  assumes "Decide rnd Store_Create policy clock newid s c = Inr (resp, s')"
  shows "(rs_Action resp = ActionVeto \<longleftrightarrow>
      VetoOnCriticalReject policy \<and> dc_Aggregate c = VerdictReject \<and> dc_VetoedBy c \<noteq> []) \<and>
    (rs_Action resp = ActionPass \<longleftrightarrow>
      \<not> (VetoOnCriticalReject policy \<and> dc_Aggregate c = VerdictReject \<and> dc_VetoedBy c \<noteq> []) \<and>
      (EscalateOnCriticalAbstain policy \<longrightarrow>
        (\<forall>v \<in> set (dc_FacetVerdicts c). isCritical (fv_Kind v) \<longrightarrow> fv_Verdict v \<noteq> VerdictAbstain)) \<and>
      (\<forall>m n. nonCriticalApproveConfidence rnd (dc_FacetVerdicts c) = (m, n) \<longrightarrow> 0 < n \<longrightarrow>
        m \<ge> ConfidenceThreshold policy)) \<and>
    (if rs_Action resp = ActionEscalate
     then (\<exists>t. Store_Get s' newid = Inr t \<and> tk_State t = ''pending'' \<and> tk_DecisionID t = dc_DecisionID c) \<and>
       rs_TicketID resp = newid \<and> s newid = None \<and> (\<forall>i. i \<noteq> newid \<longrightarrow> Store_Get s' i = Store_Get s i)
     else s' = s)"
  using assms
proof (cases rule: memory.Decide_cases)
  case (escalated reason)
  have "s newid = None"
    using memory.escalate_opens [OF escalated(1)] by (auto simp: Store_Get_def split: option.splits)
  with escalated(2,3) memory.escalate_opens [OF escalated(1)] show ?thesis
    by (cases "nonCriticalApproveConfidence rnd (dc_FacetVerdicts c)") (auto simp: critical_abstain_None)
qed (auto simp: critical_abstain_None)

theorem Decide_policy_witness:
  "\<exists>t resp s'. Decide (\<lambda>x. x) Store_Create DefaultPolicy 0 ''t'' NewInMemoryTicketStore
     (sample_commit [sample_verdict ''safety'' VerdictAbstain 0] VerdictAbstain) = Inr (resp, s') \<and>
     Store_Get s' ''t'' = Inr t \<and> tk_State t = ''pending''"
proof -
  obtain resp s' where run: "Decide (\<lambda>x. x) Store_Create DefaultPolicy 0 ''t'' NewInMemoryTicketStore
     (sample_commit [sample_verdict ''safety'' VerdictAbstain 0] VerdictAbstain) = Inr (resp, s')"
    "rs_Action resp = ActionEscalate"
    by (simp add: Decide_def DefaultPolicy_def sample_commit_def sample_verdict_def isCriticalKind_def facet_defs
        escalate_def openTicket_def Store_Create_def NewInMemoryTicketStore_def Let_def)
  from Decide_policy [OF run(1)] run show ?thesis by auto
qed

end
