(* ===== verification/Decision_Api.thy ===== *)
theory Decision_Api
  imports Http_Adapter Hitl
begin

text \<open>
  The decision and ticket endpoints, \<open>api/decision_handlers.go\<close>, composed of the router, the
  aggregation and the human-in-the-loop service. A handler takes the server state and the
  decoded request (\<open>None\<close> when the body is no JSON) and returns the reply with the new state;
  an error reply is a value of \<open>api_error\<close>, whose status is \<open>api_status\<close>. The clock, the id
  generator, the order in which providers finish and the float rounding are arguments (\<open>now\<close> is
  the handler's reading of the clock, \<open>clock\<close> the service's).
  The lemmas follow a request through all components.
\<close>

section \<open>Server state and requests\<close>

record decision_server =
  sv_pool :: "ProviderPool option"
  sv_policy :: Policy
  sv_tickets :: "InMemoryTicketStore option"

record decisionEvaluateRequest =
  rq_Submitter :: gostring
  rq_SpecID :: gostring
  rq_PayloadHex :: gostring
  rq_Nonce :: "64 word"
  rq_Facets :: "gostring list"

record decisionEvaluateResponse =
  rp_DecisionID :: gostring
  rp_CommitDigest :: gostring
  rp_Aggregate :: gostring
  rp_VetoedBy :: gostring
  rp_AbstainReason :: gostring
  rp_Facets :: "evaluateResponseFacet list"
  rp_Providers :: "gostring list"
  rp_Errors :: "gostring \<rightharpoonup> gostring"
  rp_HITL :: Response

datatype api_error =
    PipelineDisabled
  | InvalidJson
  | MissingField
  | InvalidPayloadHex
  | UnknownFacet gostring
  | RouterError route_error
  | AggregateError decision_error
  | HitlError hitl_error
  | HitlDisabled
  | InvalidLimit
  | TicketNotFound
  | TicketAlreadyResolved
  | InvalidTicketState gostring
  | MissingTicketID
  | MissingResolver

fun api_status :: "api_error \<Rightarrow> int" where
  "api_status PipelineDisabled = 503"
| "api_status HitlDisabled = 503"
| "api_status (RouterError _) = 500"
| "api_status (AggregateError _) = 500"
| "api_status (HitlError _) = 500"
| "api_status TicketNotFound = 404"
| "api_status TicketAlreadyResolved = 409"
| "api_status _ = 400"

section \<open>The pipeline\<close>

text \<open>
  \<open>initDecisionPipeline\<close>: the adapter, retagged when an endpoint is configured, registered
  as the only provider, with every capability and system trust. The new endpoint is the
  variable as it is, without the trimming of the first one.
\<close>

definition system_adapter :: "(gostring \<Rightarrow> gostring) \<Rightarrow> HTTPProviderAdapter" where
  "system_adapter getenv =
     (let a = NewHTTPProviderAdapterFromEnv getenv; systemName = ''cp-decision-system'' in
      if Configured a then NewHTTPProviderAdapter
        \<lparr>hc_Name = systemName, hc_Endpoint = getenv ''CP_DECISION_PROVIDER_URL'',
         hc_Token = getenv ''CP_DECISION_PROVIDER_TOKEN'', hc_Timeout = 0,
         hc_Fallback = Some (fixture (NewNamedFixtureProvider (systemName @ ''-fallback''))), hc_AllowedFacets = []\<rparr>
      else a)"

definition initDecisionPipeline :: "exchange \<Rightarrow> (gostring \<Rightarrow> gostring) \<Rightarrow> decision_server" where
  "initDecisionPipeline exch getenv =
     (let p = \<lparr>pp_Provider = Some (adapter exch (system_adapter getenv)), pp_Trust = TrustSystem,
               pp_Capabilities = [''safety'', ''correctness'', ''spec_compliance'', ''equivocation'']\<rparr>
      in \<lparr>sv_pool = Some (case Pool_Register [] p of Inl _ \<Rightarrow> [] | Inr pl \<Rightarrow> pl),
          sv_policy = NewService_policy DefaultPolicy, sv_tickets = Some NewInMemoryTicketStore\<rparr>)"

fun parse_facets_loop :: "gostring list \<Rightarrow> api_error + FacetKind list" where
  "parse_facets_loop [] = Inr []"
| "parse_facets_loop (n # ns) =
     (let k = TrimSpace n in
      if k = FacetSafety \<or> k = FacetCorrectness \<or> k = FacetSpecCompliance \<or> k = FacetEquivocation
      then (case parse_facets_loop ns of Inl e \<Rightarrow> Inl e | Inr ks \<Rightarrow> Inr (k # ks))
      else Inl (UnknownFacet n))"

definition parseFacets :: "gostring list \<Rightarrow> api_error + FacetKind list" where
  "parseFacets names = (if length names = 0 then Inr [] else parse_facets_loop names)"

definition facetsToWire :: "FacetVerdict list \<Rightarrow> evaluateResponseFacet list" where
  "facetsToWire vs = map (\<lambda>v. \<lparr>rf_Kind = fv_Kind v, rf_Verdict = Verdict_String (fv_Verdict v),
     rf_Confidence = fv_Confidence v, rf_Reason = fv_Reason v\<rparr>) vs"

text \<open>The commit and the reply the handler builds.\<close>

definition api_commit :: "Decision \<Rightarrow> FacetVerdict list \<Rightarrow> Verdict \<Rightarrow> FacetKind \<Rightarrow> gostring \<Rightarrow> DecisionCommit" where
  "api_commit d verdicts agg veto reason =
     \<lparr>dc_Decision = d, dc_DecisionID = Decision_ID d, dc_FacetVerdicts = verdicts, dc_Aggregate = agg,
      dc_VetoedBy = veto, dc_AbstainReason = (if agg = VerdictAbstain then reason else '''')\<rparr>"

definition api_response :: "DecisionCommit \<Rightarrow> PoolOutcome \<Rightarrow> Response \<Rightarrow> decisionEvaluateResponse" where
  "api_response c oc resp =
     \<lparr>rp_DecisionID = dc_DecisionID c, rp_CommitDigest = CommitDigest c,
      rp_Aggregate = Verdict_String (dc_Aggregate c), rp_VetoedBy = dc_VetoedBy c,
      rp_AbstainReason = dc_AbstainReason c, rp_Facets = facetsToWire (oc_Verdicts oc),
      rp_Providers = oc_Providers oc, rp_Errors = oc_ErrorsByProvider oc, rp_HITL = resp\<rparr>"

definition decisionEvaluate ::
  "(route_result list \<Rightarrow> route_result list) \<Rightarrow> (float64 \<Rightarrow> float64) \<Rightarrow> int \<Rightarrow> int \<Rightarrow> gostring \<Rightarrow> decision_server \<Rightarrow>
   decisionEvaluateRequest option \<Rightarrow> (api_error + decisionEvaluateResponse) \<times> decision_server" where
  "decisionEvaluate shuffle rnd now clock newid s body =
     (case (sv_pool s, sv_tickets s) of
        (Some pool, Some tickets) \<Rightarrow>
          (case body of
             None \<Rightarrow> (Inl InvalidJson, s)
           | Some req \<Rightarrow>
               if TrimSpace (rq_Submitter req) = '''' \<or> TrimSpace (rq_SpecID req) = '''' then (Inl MissingField, s)
               else case hex_decode (TrimPrefix (rq_PayloadHex req) ''0x'') of
                   None \<Rightarrow> (Inl InvalidPayloadHex, s)
                 | Some payload \<Rightarrow>
                     let dec = \<lparr>Submitter = rq_Submitter req, SpecID = rq_SpecID req, Payload = payload,
                                Nonce = rq_Nonce req, SubmittedAt = now\<rparr> in
                     case parseFacets (rq_Facets req) of
                       Inl e \<Rightarrow> (Inl e, s)
                     | Inr facets \<Rightarrow>
                         case Route shuffle (Some pool) dec facets of
                           Inl e \<Rightarrow> (Inl (RouterError e), s)
                         | Inr outcome \<Rightarrow>
                             case Aggregate DefaultAggregationPolicy (oc_Verdicts outcome) of
                               Inl e \<Rightarrow> (Inl (AggregateError e), s)
                             | Inr (agg, veto, reason) \<Rightarrow>
                                 let commit = api_commit dec (oc_Verdicts outcome) agg veto reason in
                                 case Decide rnd Store_Create (sv_policy s) clock newid tickets commit of
                                   Inl e \<Rightarrow> (Inl (HitlError e), s)
                                 | Inr (resp, tickets') \<Rightarrow>
                                     (Inr (api_response commit outcome resp), s\<lparr>sv_tickets := Some tickets'\<rparr>))
      | _ \<Rightarrow> (Inl PipelineDisabled, s))"

definition decisionPoolInfo :: "decision_server \<Rightarrow> api_error + int \<times> gostring list" where
  "decisionPoolInfo s =
     (case sv_pool s of None \<Rightarrow> Inl PipelineDisabled | Some pl \<Rightarrow> Inr (int (length pl), Pool_Names pl))"

section \<open>The ticket endpoints\<close>

definition hitlListTickets :: "gostring list \<Rightarrow> decision_server \<Rightarrow> gostring \<Rightarrow> gostring \<Rightarrow> api_error + Ticket list" where
  "hitlListTickets ks s st limStr =
     (case sv_tickets s of
        None \<Rightarrow> Inl HitlDisabled
      | Some tickets \<Rightarrow>
          (case (if limStr = '''' then Some 0 else Atoi limStr) of
             None \<Rightarrow> Inl InvalidLimit
           | Some n \<Rightarrow>
               if n < 0 then Inl InvalidLimit
               else Inr (Store_List ks tickets \<lparr>tf_State = st, tf_Limit = n, tf_OpenedAfter = None\<rparr>)))"

definition hitlGetTicket :: "decision_server \<Rightarrow> gostring \<Rightarrow> api_error + Ticket" where
  "hitlGetTicket s i =
     (case sv_tickets s of
        None \<Rightarrow> Inl HitlDisabled
      | Some tickets \<Rightarrow>
          (case Store_Get tickets i of
             Inr t \<Rightarrow> Inr t
           | Inl e \<Rightarrow> if e = ErrTicketNotFound then Inl TicketNotFound else Inl (HitlError e)))"

record hitlResolveRequest =
  rr_Resolver :: gostring
  rr_State :: gostring
  rr_Note :: gostring

definition hitlResolveTicket ::
  "int \<Rightarrow> decision_server \<Rightarrow> gostring \<Rightarrow> hitlResolveRequest option \<Rightarrow> (api_error + Ticket) \<times> decision_server" where
  "hitlResolveTicket now s i body =
     (case sv_tickets s of
        None \<Rightarrow> (Inl HitlDisabled, s)
      | Some tickets \<Rightarrow>
          if TrimSpace i = '''' then (Inl MissingTicketID, s)
          else case body of
              None \<Rightarrow> (Inl InvalidJson, s)
            | Some req \<Rightarrow>
                if TrimSpace (rr_Resolver req) = '''' then (Inl MissingResolver, s)
                else case Store_Resolve now tickets i (rr_Resolver req) (rr_State req) (rr_Note req) of
                    Inr (t, tickets') \<Rightarrow> (Inr t, s\<lparr>sv_tickets := Some tickets'\<rparr>)
                  | Inl e \<Rightarrow>
                      (Inl (if e = ErrTicketNotFound then TicketNotFound
                            else if e = ErrAlreadyResolved then TicketAlreadyResolved
                            else if e = ErrInvalidState then InvalidTicketState (rr_State req)
                            else HitlError e), s))"


section \<open>Accepted requests\<close>

text \<open>The decision and the facets of a request that passes the checks before routing.\<close>

definition request_decision :: "int \<Rightarrow> decisionEvaluateRequest \<Rightarrow> (Decision \<times> FacetKind list) option" where
  "request_decision now req =
     (if TrimSpace (rq_Submitter req) = '''' \<or> TrimSpace (rq_SpecID req) = '''' then None
      else case hex_decode (TrimPrefix (rq_PayloadHex req) ''0x'') of
          None \<Rightarrow> None
        | Some payload \<Rightarrow>
            (case parseFacets (rq_Facets req) of
               Inl e \<Rightarrow> None
             | Inr facets \<Rightarrow> Some (\<lparr>Submitter = rq_Submitter req, SpecID = rq_SpecID req, Payload = payload,
                 Nonce = rq_Nonce req, SubmittedAt = now\<rparr>, facets)))"

definition pipeline ::
  "(route_result list \<Rightarrow> route_result list) \<Rightarrow> (float64 \<Rightarrow> float64) \<Rightarrow> int \<Rightarrow> gostring \<Rightarrow> decision_server \<Rightarrow> ProviderPool \<Rightarrow>
   InMemoryTicketStore \<Rightarrow> Decision \<Rightarrow> FacetKind list \<Rightarrow> (api_error + decisionEvaluateResponse) \<times> decision_server" where
  "pipeline shuffle rnd clock newid s pool tickets d facets =
     (case Route shuffle (Some pool) d facets of
        Inl e \<Rightarrow> (Inl (RouterError e), s)
      | Inr oc \<Rightarrow>
          (case Aggregate DefaultAggregationPolicy (oc_Verdicts oc) of
             Inl e \<Rightarrow> (Inl (AggregateError e), s)
           | Inr (agg, veto, reason) \<Rightarrow>
               let c = api_commit d (oc_Verdicts oc) agg veto reason in
               case Decide rnd Store_Create (sv_policy s) clock newid tickets c of
                 Inl e \<Rightarrow> (Inl (HitlError e), s)
               | Inr (resp, tickets') \<Rightarrow> (Inr (api_response c oc resp), s\<lparr>sv_tickets := Some tickets'\<rparr>)))"

lemma decisionEvaluate_accepted:
  assumes "sv_pool s = Some pool" "sv_tickets s = Some tickets" "request_decision now req = Some (d, facets)"
  shows "decisionEvaluate shuffle rnd now clock newid s (Some req) = pipeline shuffle rnd clock newid s pool tickets d facets"
  using assms unfolding decisionEvaluate_def request_decision_def pipeline_def
  by (auto simp: Let_def split: if_splits option.splits sum.splits)

lemma decisionEvaluate_okE:
  assumes "decisionEvaluate shuffle rnd now clock newid s body = (Inr rp, s')"
  obtains req pool tickets d facets oc agg veto reason resp tickets' where
    "body = Some req" "sv_pool s = Some pool" "sv_tickets s = Some tickets" "request_decision now req = Some (d, facets)"
    "Route shuffle (Some pool) d facets = Inr oc"
    "Aggregate DefaultAggregationPolicy (oc_Verdicts oc) = Inr (agg, veto, reason)"
    "Decide rnd Store_Create (sv_policy s) clock newid tickets (api_commit d (oc_Verdicts oc) agg veto reason) = Inr (resp, tickets')"
    "rp = api_response (api_commit d (oc_Verdicts oc) agg veto reason) oc resp" "s' = s\<lparr>sv_tickets := Some tickets'\<rparr>"
  using assms unfolding decisionEvaluate_def request_decision_def
  by (auto simp: Let_def split: if_splits option.splits sum.splits prod.splits)

lemma decisionEvaluate_error_keeps:
  "fst (decisionEvaluate shuffle rnd now clock newid s body) = Inl e \<Longrightarrow>
   snd (decisionEvaluate shuffle rnd now clock newid s body) = s"
  unfolding decisionEvaluate_def
  by (auto simp: Let_def split: if_splits option.splits sum.splits prod.splits)


section \<open>A critical reject stops the request\<close>

lemma Route_selected:
  assumes "trusted_vote pl wfs d v"
  shows "\<exists>oc. Route sh (Some pl) d wfs = Inr oc"
proof -
  have "select_providers pl wfs \<noteq> []" using assms by (auto simp: trusted_vote_def)
  moreover from this have "pl \<noteq> []" by (auto simp: select_providers_def)
  ultimately show ?thesis by (simp add: Route_def Let_def)
qed

lemma Aggregate_veto:
  assumes "v \<in> set fvs" "critical_reject v"
  shows "\<exists>k m. Aggregate policy fvs = Inr (VerdictReject, k, m) \<and> k \<noteq> [] \<and> isCritical k"
proof -
  obtain r where r: "veto_pass fvs = Some r" using assms veto_pass_None [of fvs] by auto
  with veto_pass_Some [OF r] obtain fv where fv: "critical_reject fv"
    "r = (VerdictReject, fv_Kind fv, ''critical-veto: '' @ fv_Reason fv)" by blast
  have "fvs \<noteq> []" using assms(1) by auto
  with r fv isCritical_not_empty show ?thesis
    by (auto simp: Aggregate_def critical_reject_def)
qed

text \<open>
  C1: a critical reject stops the request, through all components. When a request passes the
  checks and a trusted provider rejects a critical facet, then whatever every other provider
  answers and in whatever order the answers arrive, the reply carries the aggregate REJECT
  and the action VETO, names a critical facet as the vetoing one, and no ticket is opened.
\<close>

theorem critical_reject_vetoed:
  assumes "sv_pool s = Some pl" "sv_tickets s = Some tickets" "VetoOnCriticalReject (sv_policy s)"
    and "request_decision now req = Some (d, facets)" "\<And>rs. mset (sh rs) = mset rs"
    and "trusted_vote pl facets d v" "isCritical (fv_Kind v)" "fv_Verdict v = VerdictReject"
  shows "\<exists>rp. decisionEvaluate sh rnd now clock newid s (Some req) = (Inr rp, s) \<and> rp_Aggregate rp = ''REJECT'' \<and>
    isCritical (rp_VetoedBy rp) \<and> rs_Action (rp_HITL rp) = ActionVeto \<and> rs_TicketID (rp_HITL rp) = []"
proof -
  from Route_selected [OF assms(6)] obtain oc where oc: "Route sh (Some pl) d facets = Inr oc" by blast
  from Route_trusted_vote [OF oc assms(5,6)] have "v \<in> set (oc_Verdicts oc)" .
  from Aggregate_veto [OF this, of DefaultAggregationPolicy] assms(7,8) obtain k m where
    agg: "Aggregate DefaultAggregationPolicy (oc_Verdicts oc) = Inr (VerdictReject, k, m)" "k \<noteq> []" "isCritical k"
    by (auto simp: critical_reject_def)
  have "sv_tickets s = Some tickets \<Longrightarrow> s\<lparr>sv_tickets := Some tickets\<rparr> = s" by simp
  with oc agg assms(2,3) show ?thesis
    unfolding decisionEvaluate_accepted [OF assms(1,2,4)]
    by (simp add: pipeline_def Decide_def api_commit_def api_response_def Let_def)
qed


definition sample_request :: "gostring list \<Rightarrow> decisionEvaluateRequest" where
  "sample_request fs = \<lparr>rq_Submitter = ''alice'', rq_SpecID = ''policy/v1'', rq_PayloadHex = ''0x78'', rq_Nonce = 7,
     rq_Facets = fs\<rparr>"

lemma sample_request_decision: "request_decision 0 (sample_request []) = Some (sample_decision ''x'' 0, [])"
proof -
  have "TrimSpace ''alice'' = ''alice''" "TrimSpace ''policy/v1'' = ''policy/v1''"
    "hex_decode (TrimPrefix ''0x78'' ''0x'') = Some ''x''" by code_simp+
  then show ?thesis
    by (simp add: request_decision_def sample_request_def parseFacets_def sample_decision_def)
qed

definition sample_server :: "FacetVerdict list \<Rightarrow> decision_server" where
  "sample_server vs = \<lparr>sv_pool = Some [voter ''p'' TrustSystem [''safety''] vs], sv_policy = DefaultPolicy,
     sv_tickets = Some NewInMemoryTicketStore\<rparr>"

lemma sample_trusted_vote:
  "v \<in> set vs \<Longrightarrow> trusted_vote [voter ''p'' TrustSystem [''safety''] vs] [] d v"
  by (simp add: trusted_vote_def select_providers_def voter_def AllFacetKinds_def facetToCap_def facet_defs)

theorem critical_reject_vetoed_witness:
  "\<exists>rp. decisionEvaluate id id 0 0 ''t'' (sample_server [sample_verdict ''safety'' VerdictReject 1]) (Some (sample_request [])) =
      (Inr rp, sample_server [sample_verdict ''safety'' VerdictReject 1]) \<and> rs_Action (rp_HITL rp) = ActionVeto"
proof -
  let ?vs = "[sample_verdict ''safety'' VerdictReject 1]"
  have "trusted_vote [voter ''p'' TrustSystem [''safety''] ?vs] [] (sample_decision ''x'' 0) (sample_verdict ''safety'' VerdictReject 1)"
    by (rule sample_trusted_vote) simp
  from critical_reject_vetoed [OF _ _ _ sample_request_decision _ this,
      of "sample_server ?vs" NewInMemoryTicketStore id id 0 "''t''"]
  show ?thesis
    by (auto simp: sample_server_def DefaultPolicy_def sample_verdict_def isCritical_def facet_defs)
qed

section \<open>What an approval means\<close>

text \<open>
  C10: what an approval means. When the reply is APPROVE, no trusted provider rejected any
  facet and every trusted vote on a critical facet was an approval; at least two confident approvals of other facets stand in the reply. (Nothing is
  said about a critical facet that no provider voted on; see below.)
\<close>

theorem approval_sound:
  assumes "decisionEvaluate sh rnd now clock newid s (Some req) = (Inr rp, s')" "rp_Aggregate rp = ''APPROVE''"
    and "\<And>rs. mset (sh rs) = mset rs" "sv_pool s = Some pl" "request_decision now req = Some (d, facets)"
    and "trusted_vote pl facets d v"
  shows "fv_Verdict v \<noteq> VerdictReject \<and> (isCritical (fv_Kind v) \<longrightarrow> fv_Verdict v = VerdictApprove) \<and>
    2 \<le> length (filter (\<lambda>f. \<not> isCritical (rf_Kind f) \<and> rf_Verdict f = ''APPROVE'' \<and> 6 / 10 \<le> rf_Confidence f) (rp_Facets rp))"
  using assms(1)
proof (cases rule: decisionEvaluate_okE)
  case (1 req' pool tickets d' facets' oc agg veto reason resp tickets')
  with assms(4,5) have eq: "pool = pl" "d' = d" "facets' = facets" by auto
  have app: "agg = VerdictApprove"
    using assms(2) 1(8) by (cases agg) (simp_all add: api_response_def api_commit_def)
  note A = 1(6) [unfolded app]
  have mem: "v \<in> set (oc_Verdicts oc)" using Route_trusted_vote [OF 1(5) [unfolded eq] assms(3,6)] .
  have "2 \<le> length (filter (counts DefaultAggregationPolicy) (oc_Verdicts oc))"
    using A by (auto simp: DefaultAggregationPolicy_def elim!: Aggregate_cases split: if_splits)
  also have "\<dots> = length (filter (\<lambda>f. \<not> isCritical (rf_Kind f) \<and> rf_Verdict f = ''APPROVE'' \<and> 6 / 10 \<le> rf_Confidence f) (rp_Facets rp))"
  proof -
    have "counts DefaultAggregationPolicy x \<longleftrightarrow>
        \<not> isCritical (fv_Kind x) \<and> Verdict_String (fv_Verdict x) = ''APPROVE'' \<and> 6 / 10 \<le> fv_Confidence x" for x
      by (cases "fv_Verdict x") (simp_all add: counts_def DefaultAggregationPolicy_def)
    then have "counts DefaultAggregationPolicy =
        (\<lambda>x. \<not> isCritical (fv_Kind x) \<and> Verdict_String (fv_Verdict x) = ''APPROVE'' \<and> 6 / 10 \<le> fv_Confidence x)" by blast
    then show ?thesis by (simp add: 1(8) api_response_def facetsToWire_def filter_map o_def)
  qed
  finally show ?thesis using Aggregate_approveD [OF A mem] by blast
qed


theorem approval_sound_witness:
  "let vs = [sample_verdict ''correctness'' VerdictApprove 1, sample_verdict ''safety'' VerdictApprove 1,
       sample_verdict ''spec_compliance'' VerdictApprove 1] in
   \<exists>rp. fst (decisionEvaluate id id 0 0 ''t'' (sample_server vs) (Some (sample_request []))) = Inr rp \<and>
     2 \<le> length (filter (\<lambda>f. \<not> isCritical (rf_Kind f) \<and> rf_Verdict f = ''APPROVE'' \<and> 6 / 10 \<le> rf_Confidence f) (rp_Facets rp))"
proof -
  let ?vs = "[sample_verdict ''correctness'' VerdictApprove 1, sample_verdict ''safety'' VerdictApprove 1,
       sample_verdict ''spec_compliance'' VerdictApprove 1]"
  let ?pl = "[voter ''p'' TrustSystem [''safety''] ?vs]" and ?d = "sample_decision ''x'' 0"
  have route: "\<exists>oc. Route id (Some ?pl) ?d [] = Inr oc \<and> oc_Verdicts oc = ?vs"
    by (simp add: Route_def select_providers_def voter_def AllFacetKinds_def facetToCap_def facet_defs call_provider_def
        sortedByKind_def downgrade_def sample_verdict_def Let_def sort_key_def insort_key.simps)
  have run: "\<exists>rp s'. decisionEvaluate id id 0 0 ''t'' (sample_server ?vs) (Some (sample_request [])) = (Inr rp, s') \<and>
      rp_Aggregate rp = ''APPROVE''"
  proof -
    have "Aggregate DefaultAggregationPolicy ?vs = Inr (VerdictApprove, [], [])"
      by (simp add: Aggregate_def sample_verdict_def isCritical_def facet_defs DefaultAggregationPolicy_def)
    with route show ?thesis
      unfolding decisionEvaluate_accepted [OF _ _ sample_request_decision, of "sample_server ?vs" ?pl NewInMemoryTicketStore,
        unfolded sample_server_def decision_server.simps, OF refl refl, folded sample_server_def]
      by (auto simp: pipeline_def Decide_def api_commit_def api_response_def Let_def sample_server_def DefaultPolicy_def
          isCriticalKind_def sample_verdict_def facet_defs nonCriticalApproveConfidence_def)
  qed
  then obtain rp s' where rp: "decisionEvaluate id id 0 0 ''t'' (sample_server ?vs) (Some (sample_request [])) = (Inr rp, s')"
    "rp_Aggregate rp = ''APPROVE''" by blast
  have "trusted_vote ?pl [] ?d (sample_verdict ''safety'' VerdictApprove 1)" by (rule sample_trusted_vote) simp
  from approval_sound [OF rp _ _ sample_request_decision this] rp(1) show ?thesis
    unfolding Let_def by (simp add: sample_server_def)
qed


section \<open>The system pipeline without its remote evaluator\<close>

abbreviation system_provider :: "exchange \<Rightarrow> (gostring \<Rightarrow> gostring) \<Rightarrow> PooledProvider" where
  "system_provider exch getenv \<equiv>
     \<lparr>pp_Provider = Some (adapter exch (system_adapter getenv)), pp_Trust = TrustSystem,
      pp_Capabilities = [''safety'', ''correctness'', ''spec_compliance'', ''equivocation'']\<rparr>"

lemma initDecisionPipeline_pool:
  "initDecisionPipeline exch getenv =
     \<lparr>sv_pool = Some [system_provider exch getenv], sv_policy = DefaultPolicy, sv_tickets = Some Map.empty\<rparr>"
proof -
  have "ha_Name (system_adapter getenv) \<noteq> []"
    by (simp add: system_adapter_def NewHTTPProviderAdapterFromEnv_def NewHTTPProviderAdapter_def Let_def)
  then show ?thesis
    by (simp add: initDecisionPipeline_def Pool_Register_def adapter_def NewService_policy_def DefaultPolicy_def
        NewInMemoryTicketStore_def)
qed

lemma parse_facets_loop_known: "parse_facets_loop ns = Inr ks \<Longrightarrow> set ks \<subseteq> set AllFacetKinds"
  by (induction ns arbitrary: ks) (auto simp: AllFacetKinds_def Let_def split: if_splits sum.splits)

lemma select_system:
  assumes "parseFacets ns = Inr facets"
  shows "select_providers [system_provider exch getenv] facets = [system_provider exch getenv]"
proof -
  have sub: "set facets \<subseteq> set AllFacetKinds"
    using assms parse_facets_loop_known by (auto simp: parseFacets_def split: if_splits)
  obtain f where f: "f \<in> set (if length facets = 0 then AllFacetKinds else facets)" "f \<in> set AllFacetKinds"
    using sub by (cases facets) (auto simp: AllFacetKinds_def)
  then have "facetToCap f \<in> set [''safety'', ''correctness'', ''spec_compliance'', ''equivocation'']"
    by (auto simp: AllFacetKinds_def facetToCap_def facet_defs)
  moreover have "facetToCap f \<in> set (map facetToCap (if length facets = 0 then AllFacetKinds else facets))"
    using f(1) by simp
  ultimately have "list_ex (\<lambda>c. c \<in> set (map facetToCap (if length facets = 0 then AllFacetKinds else facets)))
      [''safety'', ''correctness'', ''spec_compliance'', ''equivocation'']"
    unfolding list_ex_iff by blast
  then show ?thesis by (simp only: select_providers_def Let_def) simp
qed

lemma system_fallback:
  "\<exists>n. ha_Fallback (system_adapter getenv) = fixture (NewNamedFixtureProvider n)"
  by (auto simp: system_adapter_def NewHTTPProviderAdapterFromEnv_def NewHTTPProviderAdapter_def Let_def)

lemma system_no_answer:
  assumes "usable_facets exch (system_adapter getenv) d = None"
  shows "pr_Evaluate (adapter exch (system_adapter getenv)) d = Inr (fp_fallback NewFixtureProvider)"
proof -
  obtain n where "ha_Fallback (system_adapter getenv) = fixture (NewNamedFixtureProvider n)" using system_fallback by blast
  with assms show ?thesis
    by (simp add: adapter_def Adapter_Evaluate_usable fixture_def Fixture_Evaluate_def NewNamedFixtureProvider_def NewFixtureProvider_def)
qed

lemma system_route:
  assumes "parseFacets ns = Inr facets" "\<And>rs. mset (sh rs) = mset rs"
    and "pr_Evaluate (adapter exch (system_adapter getenv)) d = Inr vs"
  shows "\<exists>oc. Route sh (Some [system_provider exch getenv]) d facets = Inr oc \<and> oc_Verdicts oc = sortedByKind vs"
proof -
  have "sh [r] = [r]" for r using assms(2) [of "[r]"] by simp
  then show ?thesis
    using assms(3) by (simp add: Route_def select_system [OF assms(1)] call_provider_def Let_def downgrade_def map_idI)
qed

lemma request_decision_facets:
  "request_decision now req = Some (d, facets) \<Longrightarrow> parseFacets (rq_Facets req) = Inr facets"
  by (auto simp: request_decision_def split: if_splits option.splits sum.splits)

text \<open>
  C9: the pipeline fails closed. When the remote evaluator is not configured or gives no usable
  answer, every request that passes the checks is answered with the aggregate ABSTAIN and the
  action ESCALATE, and a pending ticket for the decision is stored under the new id.
\<close>

theorem no_answer_escalates:
  assumes "request_decision now req = Some (d, facets)" "\<And>rs. mset (sh rs) = mset rs"
    and "usable_facets exch (system_adapter getenv) d = None" "newid \<noteq> []" "tk newid = None"
  shows "\<exists>rp t. decisionEvaluate sh rnd now clock newid (initDecisionPipeline exch getenv\<lparr>sv_tickets := Some tk\<rparr>) (Some req) =
      (Inr rp, initDecisionPipeline exch getenv\<lparr>sv_tickets := Some (tk(newid \<mapsto> t))\<rparr>) \<and>
    rp_Aggregate rp = ''ABSTAIN'' \<and> rs_Action (rp_HITL rp) = ActionEscalate \<and> rs_TicketID (rp_HITL rp) = newid \<and>
    tk_State t = ''pending'' \<and> tk_DecisionID t = Decision_ID d"
proof -
  let ?s = "initDecisionPipeline exch getenv\<lparr>sv_tickets := Some tk\<rparr>"
  let ?ab = "\<lambda>k. \<lparr>fv_Kind = k, fv_Verdict = VerdictAbstain, fv_Confidence = 0, fv_Reason = ''no fixture registered''\<rparr>"
  have sorted: "sortedByKind (fp_fallback NewFixtureProvider) =
      map ?ab [''correctness'', ''equivocation'', ''safety'', ''spec_compliance'']"
    by (simp add: sortedByKind_def NewFixtureProvider_def NewNamedFixtureProvider_def AllFacetKinds_def facet_defs
        sort_key_def insort_key.simps)
  from system_route [OF request_decision_facets [OF assms(1)] assms(2) system_no_answer [OF assms(3)]] obtain oc where
    oc: "Route sh (Some [system_provider exch getenv]) d facets = Inr oc"
      "oc_Verdicts oc = map ?ab [''correctness'', ''equivocation'', ''safety'', ''spec_compliance'']"
    unfolding sorted by blast
  obtain m where agg: "Aggregate DefaultAggregationPolicy (oc_Verdicts oc) = Inr (VerdictAbstain, [], m)"
    by (simp add: oc(2) Aggregate_def isCritical_def facet_defs)
  have s: "sv_pool ?s = Some [system_provider exch getenv]" "sv_tickets ?s = Some tk" "sv_policy ?s = DefaultPolicy"
    by (simp_all add: initDecisionPipeline_pool)
  show ?thesis
    unfolding decisionEvaluate_accepted [OF s(1,2) assms(1)]
    using assms(4,5)
    by (simp add: pipeline_def oc(1) agg s(3) Let_def) (simp add: oc(2) Decide_def DefaultPolicy_def api_commit_def api_response_def
        isCriticalKind_def facet_defs escalate_def openTicket_def Store_Create_def Let_def, rule exI, rule conjI, rule refl, simp)
qed


definition no_env :: "gostring \<Rightarrow> gostring" where "no_env k = []"

lemma no_env_unconfigured: "usable_facets exch (system_adapter no_env) d = None"
proof -
  have "TrimSpace [] = []" by code_simp
  then show ?thesis
    by (simp add: usable_facets_def system_adapter_def NewHTTPProviderAdapterFromEnv_def NewHTTPProviderAdapter_def
        Configured_def no_env_def Let_def)
qed

theorem no_answer_escalates_witness:
  "\<exists>rp t. decisionEvaluate id id 0 0 ''t1'' (initDecisionPipeline (\<lambda>_ _ _. TransportError) no_env\<lparr>sv_tickets := Some Map.empty\<rparr>)
      (Some (sample_request [])) =
      (Inr rp, initDecisionPipeline (\<lambda>_ _ _. TransportError) no_env\<lparr>sv_tickets := Some [''t1'' \<mapsto> t]\<rparr>) \<and>
    rs_Action (rp_HITL rp) = ActionEscalate \<and> tk_State t = ''pending''"
  using no_answer_escalates [OF sample_request_decision _ no_env_unconfigured, of id "''t1''" Map.empty id 0] by fastforce

section \<open>A critical facet nobody voted on\<close>

text \<open>An evaluator whose safety verdict cannot be read, and which is silent on equivocation.\<close>

definition partial_answer :: "evaluateResponseFacet list" where
  "partial_answer =
     [\<lparr>rf_Kind = ''correctness'', rf_Verdict = ''APPROVE'', rf_Confidence = 1, rf_Reason = ''ok''\<rparr>,
      \<lparr>rf_Kind = ''safety'', rf_Verdict = ''DENY'', rf_Confidence = 1, rf_Reason = ''unsafe''\<rparr>,
      \<lparr>rf_Kind = ''spec_compliance'', rf_Verdict = ''APPROVE'', rf_Confidence = 1, rf_Reason = ''ok''\<rparr>]"

definition url_env :: "gostring \<Rightarrow> gostring" where "url_env k = ''http://e''"

definition approve_of :: "gostring \<Rightarrow> FacetVerdict" where
  "approve_of k = \<lparr>fv_Kind = k, fv_Verdict = VerdictApprove, fv_Confidence = 1, fv_Reason = ''ok''\<rparr>"

lemma partial_verdicts:
  "pr_Evaluate (adapter (\<lambda>_ _ _. Answered 200 (Some partial_answer)) (system_adapter url_env)) d =
     Inr [approve_of ''correctness'', approve_of ''spec_compliance'']"
proof -
  have "TrimSpace ''http://e'' = ''http://e''" by code_simp
  then have "usable_facets (\<lambda>_ _ _. Answered 200 (Some partial_answer)) (system_adapter url_env) d = Some partial_answer"
    "ha_allowed (system_adapter url_env) = []"
    by (simp_all add: usable_facets_def system_adapter_def NewHTTPProviderAdapterFromEnv_def NewHTTPProviderAdapter_def
        Configured_def url_env_def Let_def)
  moreover have "parseVerdictString ''APPROVE'' = Inr VerdictApprove" by code_simp
  moreover have "isl (parseVerdictString ''DENY'')" by code_simp
  then have "\<exists>e. parseVerdictString ''DENY'' = Inl e" by (auto simp: isl_def)
  ultimately show ?thesis
    by (auto simp: adapter_def Adapter_Evaluate_usable partial_answer_def approve_of_def clamp_conf_def)
qed

text \<open>
  The endpoint approves without the critical facets. For the same evaluator, which approves
  correctness and spec compliance, gives an unreadable verdict on safety and none on
  equivocation, the judge abstains, because it fills the missing facets in, but the endpoint,
  which aggregates the routed verdicts without filling them in, replies APPROVE and PASS.
\<close>

theorem endpoint_approves_without_critical_facets:
  "let exch = (\<lambda>_ _ _. Answered 200 (Some partial_answer)); s = initDecisionPipeline exch url_env in
   (\<exists>rp. decisionEvaluate id id 0 0 newid s (Some (sample_request [])) = (Inr rp, s) \<and> rp_Aggregate rp = ''APPROVE'' \<and>
      rs_Action (rp_HITL rp) = ActionPass) \<and>
   (\<exists>c. Judge_Evaluate (NewJudge (Some (adapter exch (system_adapter url_env))) DefaultAggregationPolicy)
      (sample_decision ''x'' 0) = Inr c \<and> dc_Aggregate c = VerdictAbstain)"
proof -
  let ?exch = "\<lambda>_ _ _. Answered 200 (Some partial_answer)"
  let ?s = "initDecisionPipeline ?exch url_env" and ?vs = "[approve_of ''correctness'', approve_of ''spec_compliance'']"
  have s: "sv_pool ?s = Some [system_provider ?exch url_env]" "sv_tickets ?s = Some Map.empty" "sv_policy ?s = DefaultPolicy"
    by (simp_all add: initDecisionPipeline_pool)
  have sorted: "sortedByKind ?vs = ?vs"
    by (simp add: sortedByKind_def approve_of_def sort_key_def insort_key.simps)
  have empty: "parseFacets [] = Inr []" by (simp add: parseFacets_def)
  from system_route [OF empty _ partial_verdicts, of id "sample_decision ''x'' 0"] obtain oc where
    oc: "Route id (Some [system_provider ?exch url_env]) (sample_decision ''x'' 0) [] = Inr oc" "oc_Verdicts oc = ?vs"
    unfolding sorted by auto
  have agg: "Aggregate DefaultAggregationPolicy ?vs = Inr (VerdictApprove, [], [])"
    by (simp add: Aggregate_def approve_of_def isCritical_def facet_defs DefaultAggregationPolicy_def)
  have same: "?s\<lparr>sv_tickets := Some Map.empty\<rparr> = ?s" using s(2) by simp
  have "\<exists>rp. decisionEvaluate id id 0 0 newid ?s (Some (sample_request [])) = (Inr rp, ?s) \<and> rp_Aggregate rp = ''APPROVE'' \<and>
      rs_Action (rp_HITL rp) = ActionPass"
    unfolding decisionEvaluate_accepted [OF s(1,2) sample_request_decision]
    by (simp add: pipeline_def oc agg s(3) Let_def)
      (simp add: Decide_def DefaultPolicy_def api_commit_def api_response_def isCriticalKind_def facet_defs approve_of_def
        nonCriticalApproveConfidence_def same)
  moreover have "normaliseVerdicts ?vs = [missing_verdict ''safety'', approve_of ''correctness'', approve_of ''spec_compliance'',
      missing_verdict ''equivocation'']"
    by (simp add: normaliseVerdicts_def AllFacetKinds_def facet_defs approve_of_def extraVerdicts_def range_values_def)
  then have "\<exists>c. Judge_Evaluate (NewJudge (Some (adapter ?exch (system_adapter url_env))) DefaultAggregationPolicy)
      (sample_decision ''x'' 0) = Inr c \<and> dc_Aggregate c = VerdictAbstain"
    by (simp add: Judge_Evaluate_def NewJudge_def partial_verdicts DefaultAggregationPolicy_def Aggregate_def missing_verdict_def
        approve_of_def isCritical_def facet_defs)
  ultimately show ?thesis by (simp add: Let_def)
qed


section \<open>Wire formats\<close>

lemma parse_Verdict_String: "v \<noteq> VerdictUnknown \<Longrightarrow> parseVerdictString (Verdict_String v) = Inr v"
proof -
  have "parseVerdictString ''APPROVE'' = Inr VerdictApprove" "parseVerdictString ''ABSTAIN'' = Inr VerdictAbstain"
    "parseVerdictString ''REJECT'' = Inr VerdictReject" by code_simp+
  then show "v \<noteq> VerdictUnknown \<Longrightarrow> ?thesis" by (cases v) simp_all
qed

text \<open>
  The facets of a reply read back. An adapter without a facet restriction that is given
  the facets of a reply, in the wire form of the endpoint, reads exactly the verdicts the
  endpoint wrote, as long as they are judged and their confidences lie between 0 and 1.
\<close>

theorem facets_wire_roundtrip:
  assumes "\<forall>v \<in> set vs. fv_Verdict v \<noteq> VerdictUnknown \<and> 0 \<le> fv_Confidence v \<and> fv_Confidence v \<le> 1"
  shows "wire_loop [] (facetsToWire vs) = vs"
  using assms by (induction vs) (simp_all add: facetsToWire_def parse_Verdict_String clamp_conf_id)

theorem facets_wire_roundtrip_witness:
  "wire_loop [] (facetsToWire [sample_verdict ''safety'' VerdictReject (1 / 2)]) = [sample_verdict ''safety'' VerdictReject (1 / 2)]"
  by (rule facets_wire_roundtrip) (simp add: sample_verdict_def)

text \<open>
  The reason of a veto is always empty after the facet: the commit carries a reason only when
  the aggregate abstains.
\<close>

lemma veto_reason_empty:
  assumes "decisionEvaluate sh rnd now clock newid s body = (Inr rp, s')" "rs_Action (rp_HITL rp) = ActionVeto"
  shows "rs_Reason (rp_HITL rp) = ''critical-veto by '' @ rp_VetoedBy rp @ '': ''"
  using assms(1)
proof (cases rule: decisionEvaluate_okE)
  case (1 req pool tickets d facets oc agg veto reason resp tickets')
  from 1(7) show ?thesis
  proof (cases rule: memory.Decide_cases)
    case veto
    then show ?thesis using 1(7,8) by (auto simp: Decide_def api_commit_def api_response_def)
  next
    case (escalated r)
    then show ?thesis using memory.escalate_opens [OF escalated(1)] assms(2) 1(8) by (simp add: api_response_def)
  next
    case pass
    then show ?thesis using assms(2) 1(8) by (simp add: api_response_def)
  qed
qed

section \<open>Tickets across requests\<close>

datatype api_call =
    CallEvaluate "route_result list \<Rightarrow> route_result list" int int gostring "decisionEvaluateRequest option"
  | CallResolve int gostring "hitlResolveRequest option"

fun api_step :: "(float64 \<Rightarrow> float64) \<Rightarrow> decision_server \<Rightarrow> api_call \<Rightarrow> decision_server" where
  "api_step rnd s (CallEvaluate sh now clock newid body) = snd (decisionEvaluate sh rnd now clock newid s body)"
| "api_step rnd s (CallResolve now i body) = snd (hitlResolveTicket now s i body)"

definition run_api :: "(float64 \<Rightarrow> float64) \<Rightarrow> decision_server \<Rightarrow> api_call list \<Rightarrow> decision_server" where
  "run_api rnd s calls = foldl (api_step rnd) s calls"

text \<open>Each request is at most one call on the store.\<close>

lemma escalate_store_op:
  assumes "escalate Store_Create clock newid s c reason = Inr (resp, s')"
  shows "\<exists>t. s' = run_store Store_Create Store_Resolve s [OpCreate t]"
proof -
  from assms obtain t where "Store_Create s t = Inr s'"
    by (auto simp: escalate_def openTicket_def Let_def split: sum.splits)
  then show ?thesis by (auto intro: exI [of _ t])
qed

lemma Decide_store_ops:
  assumes "Decide rnd Store_Create policy clock newid s c = Inr (resp, s')"
  shows "\<exists>ops. s' = run_store Store_Create Store_Resolve s ops"
  using assms
proof (cases rule: memory.Decide_cases)
  case (escalated r)
  then show ?thesis using escalate_store_op by blast
qed (auto intro: exI [of _ "[]"])

lemma evaluate_store_ops:
  assumes "sv_tickets s = Some tk"
  shows "\<exists>ops. sv_tickets (snd (decisionEvaluate sh rnd now clock newid s body)) = Some (run_store Store_Create Store_Resolve tk ops)"
proof (cases "decisionEvaluate sh rnd now clock newid s body")
  case (Pair r s')
  show ?thesis
  proof (cases r)
    case (Inl e)
    then have "s' = s" using decisionEvaluate_error_keeps [of sh rnd now clock newid s body e] Pair by simp
    with assms Pair show ?thesis by (auto intro: exI [of _ "[]"])
  next
    case (Inr rp)
    from Pair [unfolded Inr] show ?thesis
    proof (cases rule: decisionEvaluate_okE)
      case (1 req pool tickets d facets oc agg veto reason resp tickets')
      then show ?thesis using Decide_store_ops [OF 1(7)] assms Pair by auto
    qed
  qed
qed

lemma hitlResolveTicket_okE:
  assumes "hitlResolveTicket now s i body = (Inr t, s')"
  obtains tk tk' and req :: hitlResolveRequest where "sv_tickets s = Some tk" "TrimSpace i \<noteq> []" "body = Some req"
    "Store_Resolve now tk i (rr_Resolver req) (rr_State req) (rr_Note req) = Inr (t, tk')" "s' = s\<lparr>sv_tickets := Some tk'\<rparr>"
  using assms unfolding hitlResolveTicket_def by (auto split: option.splits if_splits sum.splits)

lemma hitlResolveTicket_error_keeps: "hitlResolveTicket now s i body = (Inl e, s') \<Longrightarrow> s' = s"
  unfolding hitlResolveTicket_def by (auto split: option.splits if_splits sum.splits)

lemma resolve_store_ops:
  assumes "sv_tickets s = Some tk"
  shows "\<exists>ops. sv_tickets (snd (hitlResolveTicket now s i body)) = Some (run_store Store_Create Store_Resolve tk ops)"
proof (cases "hitlResolveTicket now s i body")
  case (Pair r s')
  show ?thesis
  proof (cases r)
    case (Inl e)
    have "s' = s" using hitlResolveTicket_error_keeps [OF Pair [unfolded Inl]] .
    with Pair assms show ?thesis by (auto intro: exI [of _ "[]"])
  next
    case (Inr t)
    from Pair [unfolded Inr] show ?thesis
    proof (cases rule: hitlResolveTicket_okE)
      case (1 tk0 tk' req)
      then show ?thesis
        using assms Pair by (auto intro!: exI [of _ "[OpResolve now i (rr_Resolver req) (rr_State req) (rr_Note req)]"])
    qed
  qed
qed

lemma run_store_append: "run_store c r s (xs @ ys) = run_store c r (run_store c r s xs) ys"
  by (induction c r s xs rule: run_store.induct) simp_all

lemma api_store_ops:
  "sv_tickets s = Some tk \<Longrightarrow> \<exists>ops. sv_tickets (run_api rnd s calls) = Some (run_store Store_Create Store_Resolve tk ops)"
proof (induction calls arbitrary: s tk)
  case Nil
  then show ?case by (auto simp: run_api_def intro: exI [of _ "[]"])
next
  case (Cons a calls)
  obtain ops where ops: "sv_tickets (api_step rnd s a) = Some (run_store Store_Create Store_Resolve tk ops)"
    using evaluate_store_ops [OF Cons.prems] resolve_store_ops [OF Cons.prems]
    by (cases a) (simp, blast, simp, blast)
  from Cons.IH [OF this] obtain ops' where
    "sv_tickets (run_api rnd (api_step rnd s a) calls) = Some (run_store Store_Create Store_Resolve (run_store Store_Create Store_Resolve tk ops) ops')"
    by blast
  then show ?case by (auto simp: run_api_def run_store_append [symmetric])
qed

text \<open>
  C28: a human resolution stands, whatever requests follow. After a successful resolve request,
  any sequence of evaluate and resolve requests leaves the ticket exactly as it was resolved:
  the ticket endpoint keeps returning it, and another valid resolution of it is refused with
  status 409.
\<close>

theorem resolution_stands:
  assumes "hitlResolveTicket now s i body = (Inr t, s')"
    and "TrimSpace (rr_Resolver req) \<noteq> []" "validResolutionState (rr_State req)"
  shows "hitlGetTicket (run_api rnd s' calls) i = Inr t \<and> tk_State t \<noteq> ''pending'' \<and>
    (\<exists>e. hitlResolveTicket now' (run_api rnd s' calls) i (Some req) = (Inl e, run_api rnd s' calls) \<and> api_status e = 409)"
  using assms(1)
proof (cases rule: hitlResolveTicket_okE)
  case (1 tk tk' req0)
  from memory.resolve_pending [OF 1(4)] have t: "Store_Get tk' i = Inr t" "tk_State t \<noteq> ''pending''" by auto
  have "sv_tickets s' = Some tk'" using 1(5) by simp
  from api_store_ops [OF this] obtain ops where
    ops: "sv_tickets (run_api rnd s' calls) = Some (run_store Store_Create Store_Resolve tk' ops)" by blast
  from memory.store_keeps [OF t(1), of ops] t(2) have
    get: "Store_Get (run_store Store_Create Store_Resolve tk' ops) i = Inr t" by auto
  then have "run_store Store_Create Store_Resolve tk' ops i = Some t" by (auto simp: Store_Get_def split: option.splits)
  then show ?thesis
    using get ops t(2) 1(2) assms(2,3) by (simp add: hitlGetTicket_def hitlResolveTicket_def Store_Resolve_def)
qed

definition sample_resolve :: hitlResolveRequest where
  "sample_resolve = \<lparr>rr_Resolver = ''bob'', rr_State = ''approved'', rr_Note = []\<rparr>"

theorem resolution_stands_witness:
  "\<exists>t s'. hitlResolveTicket 5 (sample_server []\<lparr>sv_tickets := Some [''t'' \<mapsto> sample_ticket ''t'' ''pending'']\<rparr>) ''t'' (Some sample_resolve) = (Inr t, s') \<and>
     hitlGetTicket (run_api id s' [CallResolve 6 ''t'' (Some sample_resolve), CallEvaluate id 0 0 ''u'' (Some (sample_request []))]) ''t'' = Inr t"
proof -
  have trim: "TrimSpace ''bob'' = ''bob''" "TrimSpace ''t'' = ''t''" by code_simp+
  obtain t s' where run: "hitlResolveTicket 5 (sample_server []\<lparr>sv_tickets := Some [''t'' \<mapsto> sample_ticket ''t'' ''pending'']\<rparr>) ''t'' (Some sample_resolve) = (Inr t, s')"
    by (simp add: hitlResolveTicket_def sample_resolve_def trim Store_Resolve_def validResolutionState_def sample_ticket_def Let_def)
  have "TrimSpace (rr_Resolver sample_resolve) \<noteq> []" "validResolutionState (rr_State sample_resolve)"
    by (simp_all add: sample_resolve_def trim validResolutionState_def)
  from resolution_stands [OF run this] run show ?thesis by blast
qed

end
