(* ===== verification/Quorum.thy ===== *)
theory Quorum
  imports Go_Prelude "HOL-Library.Sublist"
begin

text \<open>
  The evaluator committee, \<open>quorum/registry.go\<close>, \<open>quorum/verifier.go\<close> and the parts of
  \<open>quorum/bls.go\<close> that are not curve arithmetic. The curve library (gnark-crypto) is the
  parameter record \<open>bls\<close>; what the code relies on of it, the group and pairing laws, is the
  predicate \<open>pairing_laws\<close>. The registry is a map, its range order an argument. The lemmas
  show the life cycle of signers, what an accepted quorum consists of, that honest
  signatures are accepted, and that two default quorums share an honest signer.
\<close>

section \<open>The curve library\<close>

record ('g1, 'g2) bls =
  g1_zero :: 'g1
  g1_add :: "'g1 \<Rightarrow> 'g1 \<Rightarrow> 'g1"
  g1_neg :: "'g1 \<Rightarrow> 'g1"
  g1_mul :: "int \<Rightarrow> 'g1 \<Rightarrow> 'g1"
  g2_zero :: 'g2
  g2_add :: "'g2 \<Rightarrow> 'g2 \<Rightarrow> 'g2"
  g2_mul :: "int \<Rightarrow> 'g2 \<Rightarrow> 'g2"
  g2_gen :: 'g2
  hash_to_g1 :: "bytes \<Rightarrow> bytes \<Rightarrow> 'g1 option"
  pairing_check :: "'g1 list \<Rightarrow> 'g2 list \<Rightarrow> bool option"
  g1_bytes :: "'g1 \<Rightarrow> bytes"
  g2_bytes :: "'g2 \<Rightarrow> bytes"

definition DomainSeparationTag :: bytes where
  "DomainSeparationTag = ''BLS_SIG_BLS12381G1_XMD:SHA-256_SSWU_RO_NUL_CP_QUORUM_2026''"

datatype quorum_error =
    ErrEmptyMessage | ErrEmptyBitset | ErrEmptySignatures | ErrThresholdNotMet int int int
  | ErrDuplicateSigner gostring | ErrUnknownSigner gostring | ErrPairingCheckFail
  | ErrInactiveSigner gostring | ErrInvalidPubKey gostring | ErrInvalidSignature | ErrEmptyPubKey
  | HashToG1Failed | PairingFailed | EmptySignerID | SignerExists gostring | SlashedCannotRetire gostring

definition Sign :: "('g1, 'g2) bls \<Rightarrow> int \<Rightarrow> bytes \<Rightarrow> quorum_error + 'g1" where
  "Sign B sk msg =
     (if length msg = 0 then Inl ErrEmptyMessage
      else case hash_to_g1 B msg DomainSeparationTag of
          None \<Rightarrow> Inl HashToG1Failed
        | Some h \<Rightarrow> Inr (g1_mul B sk h))"

definition derive_pk :: "('g1, 'g2) bls \<Rightarrow> int \<Rightarrow> 'g2" where
  "derive_pk B sk = g2_mul B sk (g2_gen B)"

definition Bls_Verify :: "('g1, 'g2) bls \<Rightarrow> 'g2 \<Rightarrow> bytes \<Rightarrow> 'g1 \<Rightarrow> quorum_error + unit" where
  "Bls_Verify B pk msg sig =
     (if length msg = 0 then Inl ErrEmptyMessage
      else case hash_to_g1 B msg DomainSeparationTag of
          None \<Rightarrow> Inl HashToG1Failed
        | Some h \<Rightarrow>
            (case pairing_check B [g1_neg B h, sig] [pk, g2_gen B] of
               None \<Rightarrow> Inl PairingFailed
             | Some ok \<Rightarrow> if ok then Inr () else Inl ErrPairingCheckFail))"

definition Bls_Aggregate :: "('g1, 'g2) bls \<Rightarrow> 'g1 list \<Rightarrow> quorum_error + 'g1" where
  "Bls_Aggregate B sigs =
     (if length sigs = 0 then Inl ErrEmptySignatures else Inr (foldl (g1_add B) (g1_zero B) sigs))"

definition AggregatePubKeys :: "('g1, 'g2) bls \<Rightarrow> 'g2 list \<Rightarrow> quorum_error + 'g2" where
  "AggregatePubKeys B pks =
     (if length pks = 0 then Inl ErrEmptyPubKey else Inr (foldl (g2_add B) (g2_zero B) pks))"

definition ByzantineThreshold :: "int \<Rightarrow> int" where
  "ByzantineThreshold n =
     (if n \<le> 0 then 0 else let t = 2 * n div 3 + 1 in if t > n then n else t)"

definition SortSignerIDs :: "gostring list \<Rightarrow> gostring list" where
  "SortSignerIDs ids = sort ids"

section \<open>The registry\<close>

datatype SignerStatus = StatusActive | StatusSlashed | StatusRemoved

record 'g2 SignerRecord =
  sr_ID :: gostring
  sr_PublicKeyHex :: gostring
  sr_Bond :: "64 word"
  sr_Status :: SignerStatus
  sr_RegisteredAt :: int
  sr_SlashedAt :: "int option"
  sr_SlashReason :: gostring
  sr_pk :: "'g2 option"

type_synonym 'g2 Registry = "gostring \<rightharpoonup> 'g2 SignerRecord"

definition Registry_Register ::
  "('g1, 'g2) bls \<Rightarrow> int \<Rightarrow> 'g2 Registry \<Rightarrow> gostring \<Rightarrow> 'g2 option \<Rightarrow> 64 word \<Rightarrow> quorum_error + 'g2 Registry" where
  "Registry_Register B now r i pk bond =
     (if i = '''' then Inl EmptySignerID
      else case pk of
          None \<Rightarrow> Inl ErrEmptyPubKey
        | Some p \<Rightarrow>
            if r i \<noteq> None then Inl (SignerExists i)
            else Inr (r(i \<mapsto> \<lparr>sr_ID = i, sr_PublicKeyHex = hex_encode (g2_bytes B p), sr_Bond = bond,
                    sr_Status = StatusActive, sr_RegisteredAt = now, sr_SlashedAt = None,
                    sr_SlashReason = '''', sr_pk = pk\<rparr>)))"

definition Registry_Get :: "'g2 Registry \<Rightarrow> gostring \<Rightarrow> 'g2 SignerRecord option" where
  "Registry_Get r i = r i"

definition Registry_List :: "gostring list \<Rightarrow> 'g2 Registry \<Rightarrow> SignerStatus option \<Rightarrow> 'g2 SignerRecord list" where
  "Registry_List ks r f =
     sort_key sr_ID (filter (\<lambda>rec. case f of None \<Rightarrow> True | Some st \<Rightarrow> sr_Status rec = st) (range_values ks r))"

definition Registry_Slash :: "int \<Rightarrow> 'g2 Registry \<Rightarrow> gostring \<Rightarrow> gostring \<Rightarrow> quorum_error + 'g2 Registry" where
  "Registry_Slash now r i reason =
     (case r i of
        None \<Rightarrow> Inl (ErrUnknownSigner i)
      | Some rec \<Rightarrow>
          if sr_Status rec = StatusSlashed then Inr r
          else Inr (r(i \<mapsto> rec\<lparr>sr_Status := StatusSlashed, sr_SlashedAt := Some now, sr_SlashReason := reason\<rparr>)))"

definition Registry_Retire :: "'g2 Registry \<Rightarrow> gostring \<Rightarrow> quorum_error + 'g2 Registry" where
  "Registry_Retire r i =
     (case r i of
        None \<Rightarrow> Inl (ErrUnknownSigner i)
      | Some rec \<Rightarrow>
          if sr_Status rec = StatusSlashed then Inl (SlashedCannotRetire i)
          else if sr_Status rec = StatusRemoved then Inr r
          else Inr (r(i \<mapsto> rec\<lparr>sr_Status := StatusRemoved\<rparr>)))"

fun active_loop ::
  "'g2 Registry \<Rightarrow> gostring set \<Rightarrow> 'g2 list \<Rightarrow> gostring list \<Rightarrow> quorum_error + 'g2 list" where
  "active_loop r seen out [] = Inr out"
| "active_loop r seen out (i # ids) =
     (if i \<in> seen then Inl (ErrDuplicateSigner i)
      else case r i of
          None \<Rightarrow> Inl (ErrUnknownSigner i)
        | Some rec \<Rightarrow>
            if sr_Status rec \<noteq> StatusActive then Inl (ErrInactiveSigner i)
            else (case sr_pk rec of
                    None \<Rightarrow> Inl (ErrInvalidPubKey i)
                  | Some p \<Rightarrow> active_loop r (insert i seen) (out @ [p]) ids))"

definition activePubKeys :: "'g2 Registry \<Rightarrow> gostring list \<Rightarrow> quorum_error + 'g2 list" where
  "activePubKeys r ids = active_loop r {} [] ids"

definition ActiveCount :: "gostring list \<Rightarrow> 'g2 Registry \<Rightarrow> int" where
  "ActiveCount ks r = int (length (filter (\<lambda>rec. sr_Status rec = StatusActive) (range_values ks r)))"

section \<open>Verification of a quorum\<close>

record QuorumWitness =
  qw_Scheme :: gostring
  qw_EvidenceRootHex :: gostring
  qw_SignerBitset :: "gostring list"
  qw_AggregatePubKeyHex :: gostring
  qw_AggregateSigHex :: gostring
  qw_Threshold :: int
  qw_ActiveSigners :: int
  qw_Verdict :: gostring
  qw_VerifiedAt :: int
  qw_WitnessHashHex :: gostring

definition SchemeBLS12381G1V1 :: gostring where
  "SchemeBLS12381G1V1 = ''bls12-381-g1-agg-v1''"

definition commitment_text :: "QuorumWitness \<Rightarrow> bytes" where
  "commitment_text w = qw_Scheme w @ [byte 0] @ qw_EvidenceRootHex w @ [byte 0]
     @ concat (map (\<lambda>i. i @ [byte 30]) (qw_SignerBitset w)) @ [byte 0] @ qw_AggregatePubKeyHex w @ [byte 0]
     @ qw_AggregateSigHex w @ [byte 0] @ ''t='' @ show_int (qw_Threshold w) @ '';n='' @ show_int (qw_ActiveSigners w)
     @ '';v='' @ qw_Verdict w"

definition commitmentHash :: "QuorumWitness \<Rightarrow> gostring" where
  "commitmentHash w = hex_encode (sha256 (commitment_text w))"

definition VerifyQuorum ::
  "('g1, 'g2) bls \<Rightarrow> gostring list \<Rightarrow> int \<Rightarrow> 'g2 Registry \<Rightarrow> bytes \<Rightarrow> gostring list \<Rightarrow> 'g1 option \<Rightarrow> int \<Rightarrow>
   quorum_error + QuorumWitness" where
  "VerifyQuorum B ks now reg evidenceRoot signerBitset aggSig threshold0 =
     (if length evidenceRoot = 0 then Inl ErrEmptyMessage
      else if length signerBitset = 0 then Inl ErrEmptyBitset
      else case aggSig of
          None \<Rightarrow> Inl ErrInvalidSignature
        | Some sig \<Rightarrow>
            let active = ActiveCount ks reg;
                minT = ByzantineThreshold active;
                threshold1 = (if threshold0 \<le> 0 then minT else threshold0);
                threshold = (if threshold1 < 1 then 1 else threshold1)
            in if int (length signerBitset) < threshold
               then Inl (ErrThresholdNotMet (int (length signerBitset)) threshold active)
               else let sorted = SortSignerIDs signerBitset in
                 case activePubKeys reg sorted of
                   Inl e \<Rightarrow> Inl e
                 | Inr pks \<Rightarrow>
                     (case AggregatePubKeys B pks of
                        Inl e \<Rightarrow> Inl e
                      | Inr aggPK \<Rightarrow>
                          (case Bls_Verify B aggPK evidenceRoot sig of
                             Inl e \<Rightarrow> Inl e
                           | Inr _ \<Rightarrow>
                               let w = \<lparr>qw_Scheme = SchemeBLS12381G1V1, qw_EvidenceRootHex = hex_encode evidenceRoot,
                                        qw_SignerBitset = sorted, qw_AggregatePubKeyHex = hex_encode (g2_bytes B aggPK),
                                        qw_AggregateSigHex = hex_encode (g1_bytes B sig), qw_Threshold = threshold,
                                        qw_ActiveSigners = active, qw_Verdict = ''APPROVE'', qw_VerifiedAt = now,
                                        qw_WitnessHashHex = ''''\<rparr>
                               in Inr (w\<lparr>qw_WitnessHashHex := commitmentHash w\<rparr>))))"

section \<open>The life cycle of signers\<close>

inductive reg_step :: "('g1, 'g2) bls \<Rightarrow> 'g2 Registry \<Rightarrow> 'g2 Registry \<Rightarrow> bool" for B where
  register: "Registry_Register B now r i pk bond = Inr r' \<Longrightarrow> reg_step B r r'"
| slash: "Registry_Slash now r i reason = Inr r' \<Longrightarrow> reg_step B r r'"
| retire: "Registry_Retire r i = Inr r' \<Longrightarrow> reg_step B r r'"

inductive_cases reg_stepE: "reg_step B r r'"

definition signer_forward :: "'g2 SignerRecord \<Rightarrow> 'g2 SignerRecord \<Rightarrow> bool" where
  "signer_forward a b \<longleftrightarrow> sr_ID b = sr_ID a \<and> sr_pk b = sr_pk a \<and> sr_PublicKeyHex b = sr_PublicKeyHex a \<and>
     sr_Bond b = sr_Bond a \<and> (sr_Status a = StatusSlashed \<longrightarrow> b = a) \<and>
     (sr_Status a \<noteq> StatusActive \<longrightarrow> sr_Status b \<noteq> StatusActive)"

lemma signer_forward_refl [simp]: "signer_forward a a"
  by (simp add: signer_forward_def)

lemma signer_forward_trans: "signer_forward a b \<Longrightarrow> signer_forward b c \<Longrightarrow> signer_forward a c"
  unfolding signer_forward_def by metis

lemma reg_step_forward: "reg_step B r r' \<Longrightarrow> r i = Some a \<Longrightarrow> \<exists>b. r' i = Some b \<and> signer_forward a b"
proof (erule reg_stepE, goal_cases)
  case (1 now j pk bond)
  then show ?case by (auto simp: Registry_Register_def split: if_splits option.splits)
next
  case (2 now j reason)
  then show ?case by (auto simp: Registry_Slash_def signer_forward_def split: if_splits option.splits)
next
  case (3 j)
  then show ?case by (auto simp: Registry_Retire_def signer_forward_def split: if_splits option.splits)
qed

text \<open>
  The life cycle of a signer only moves forward. In every state the registry can reach,
  a registered signer is still there with the same key and bond, a signer that is no longer
  active never becomes active again, and a slashed signer's record never changes.
\<close>

theorem signer_lifecycle:
  assumes "(reg_step B)\<^sup>*\<^sup>* r r'" "r i = Some a"
  shows "\<exists>b. r' i = Some b \<and> sr_pk b = sr_pk a \<and> sr_Bond b = sr_Bond a \<and>
    (sr_Status a \<noteq> StatusActive \<longrightarrow> sr_Status b \<noteq> StatusActive) \<and> (sr_Status a = StatusSlashed \<longrightarrow> b = a)"
proof -
  from assms have "\<exists>b. r' i = Some b \<and> signer_forward a b"
  proof (induction rule: rtranclp_induct)
    case (step y z)
    then obtain b where "y i = Some b" "signer_forward a b" by blast
    with reg_step_forward [OF step(2)] signer_forward_trans show ?case by blast
  qed simp
  then show ?thesis by (auto simp: signer_forward_def)
qed

definition sample_signer :: "gostring \<Rightarrow> SignerStatus \<Rightarrow> int SignerRecord" where
  "sample_signer i st = \<lparr>sr_ID = i, sr_PublicKeyHex = '''', sr_Bond = 5, sr_Status = st, sr_RegisteredAt = 0,
     sr_SlashedAt = None, sr_SlashReason = '''', sr_pk = Some 2\<rparr>"

theorem signer_lifecycle_witness:
  "\<exists>r' b. Registry_Slash 3 [''s'' \<mapsto> sample_signer ''s'' StatusRemoved] ''s'' ''late'' = Inr r' \<and>
     r' ''s'' = Some b \<and> sr_Status b \<noteq> StatusActive"
proof -
  obtain r' where r': "Registry_Slash 3 [''s'' \<mapsto> sample_signer ''s'' StatusRemoved] ''s'' ''late'' = Inr r'"
    by (simp add: Registry_Slash_def sample_signer_def)
  have "(reg_step B)\<^sup>*\<^sup>* [''s'' \<mapsto> sample_signer ''s'' StatusRemoved] r'" for B :: "(int, int) bls"
    using reg_step.slash [OF r'] by blast
  from signer_lifecycle [OF this, of "''s''" "sample_signer ''s'' StatusRemoved"] r' show ?thesis
    by (auto simp: sample_signer_def)
qed

text \<open>
  The type's comment has slashing and removal as alternative ends; the code also slashes a
  signer that was removed.
\<close>

lemma removed_signer_can_be_slashed:
  "r i = Some a \<Longrightarrow> sr_Status a = StatusRemoved \<Longrightarrow>
   \<exists>r' b. Registry_Slash now r i reason = Inr r' \<and> r' i = Some b \<and> sr_Status b = StatusSlashed"
  by (simp add: Registry_Slash_def)

section \<open>What an accepted quorum consists of\<close>

definition active_key :: "'g2 Registry \<Rightarrow> gostring \<Rightarrow> 'g2 option" where
  "active_key r i = (case r i of None \<Rightarrow> None | Some rec \<Rightarrow> if sr_Status rec = StatusActive then sr_pk rec else None)"

lemma active_loop_Inr:
  "active_loop r seen out ids = Inr pks \<longleftrightarrow>
     distinct ids \<and> set ids \<inter> seen = {} \<and>
     (\<exists>ps. map (active_key r) ids = map Some ps \<and> pks = out @ ps)"
proof (induction ids arbitrary: seen out)
  case (Cons i ids)
  show ?case
  proof (cases "active_key r i")
    case None
    then show ?thesis by (auto simp: active_key_def split: option.splits if_splits)
  next
    case (Some p)
    then obtain rec where "r i = Some rec" "sr_Status rec = StatusActive" "sr_pk rec = Some p"
      by (auto simp: active_key_def split: option.splits if_splits)
    with Cons [of "insert i seen" "out @ [p]"] Some show ?thesis by (auto simp: Cons_eq_map_conv)
  qed
qed auto

lemma VerifyQuorum_InrE:
  assumes "VerifyQuorum B ks now reg ev bitset aggSig th = Inr w"
  obtains sig ps where "aggSig = Some sig" "ev \<noteq> []" "bitset \<noteq> []"
    "qw_SignerBitset w = sort bitset" "distinct bitset" "map (active_key reg) (sort bitset) = map Some ps"
    "Bls_Verify B (foldl (g2_add B) (g2_zero B) ps) ev sig = Inr ()"
    "qw_Threshold w = max 1 (if th \<le> 0 then ByzantineThreshold (ActiveCount ks reg) else th)"
    "qw_Threshold w \<le> int (length bitset)" "qw_ActiveSigners w = ActiveCount ks reg"
    "qw_WitnessHashHex w = commitmentHash w"
  using assms
  by (auto simp: VerifyQuorum_def activePubKeys_def active_loop_Inr AggregatePubKeys_def SortSignerIDs_def
      commitmentHash_def commitment_text_def max_def Let_def split: option.splits sum.splits if_splits)

text \<open>
  Soundness of quorum verification. An accepted witness lists, sorted and without
  duplicates, the given signers; each is registered, active and has a key; there are at
  least as many as the recorded threshold, which is at least one; and the signature
  verifies on the evidence under the sum of exactly their keys.
\<close>

theorem VerifyQuorum_sound:
  assumes "VerifyQuorum B ks now reg ev bitset (Some sig) th = Inr w"
  shows "mset (qw_SignerBitset w) = mset bitset \<and> sorted (qw_SignerBitset w) \<and> distinct (qw_SignerBitset w) \<and>
    1 \<le> qw_Threshold w \<and> qw_Threshold w \<le> int (length (qw_SignerBitset w)) \<and>
    (\<exists>ps. map (active_key reg) (qw_SignerBitset w) = map Some ps \<and>
      Bls_Verify B (foldl (g2_add B) (g2_zero B) ps) ev sig = Inr ())"
  using assms by (rule VerifyQuorum_InrE) auto

section \<open>Quorum intersection\<close>

text \<open>
  A threshold function is safe when two quorums overlap in more than a third of the
  committee: with fewer than a third faulty signers the overlap has an honest one.
\<close>

locale quorum_threshold =
  fixes t :: "int \<Rightarrow> int"
  assumes threshold_overlap: "0 < n \<Longrightarrow> n + (n - 1) div 3 + 1 \<le> 2 * t n"
begin

lemma intersection:
  assumes "finite U" "A \<subseteq> U" "C \<subseteq> U" "int (card U) = n" "t n \<le> int (card A)" "t n \<le> int (card C)" "0 < n"
  shows "int (card (A \<inter> C)) > (n - 1) div 3"
proof -
  have fin: "finite A" "finite C" using assms finite_subset by blast+
  have "card (A \<union> C) + card (A \<inter> C) = card A + card C" using card_Un_Int [OF fin] by simp
  moreover have "card (A \<union> C) \<le> card U" using assms by (intro card_mono) auto
  ultimately show ?thesis using threshold_overlap [OF assms(7)] assms(4-6) by linarith
qed

end

interpretation byzantine: quorum_threshold ByzantineThreshold
  by unfold_locales (simp add: ByzantineThreshold_def Let_def, presburger)

definition active_ids :: "'g2 Registry \<Rightarrow> gostring set" where
  "active_ids r = {i. \<exists>rec. r i = Some rec \<and> sr_Status rec = StatusActive}"

lemma ActiveCount_card: "ranges ks r \<Longrightarrow> ActiveCount ks r = int (card (active_ids r)) \<and> finite (active_ids r)"
proof -
  assume r: "ranges ks r"
  have "active_ids r = set (filter (\<lambda>k. sr_Status (the (r k)) = StatusActive) ks)"
    using r by (force simp: active_ids_def ranges_def dom_def)
  moreover have "distinct (filter (\<lambda>k. sr_Status (the (r k)) = StatusActive) ks)"
    using r by (simp add: ranges_def)
  ultimately have "card (active_ids r) = length (filter (\<lambda>k. sr_Status (the (r k)) = StatusActive) ks)"
    "finite (active_ids r)" by (metis distinct_card, metis List.finite_set)
  then show ?thesis by (simp add: ActiveCount_def range_values_def filter_map o_def)
qed

lemma active_keys_subset: "map (active_key r) ids = map Some ps \<Longrightarrow> set ids \<subseteq> active_ids r"
proof
  fix i assume "map (active_key r) ids = map Some ps" "i \<in> set ids"
  then have "active_key r i \<in> set (map Some ps)" by (metis image_eqI set_map)
  then show "i \<in> active_ids r" by (auto simp: active_key_def active_ids_def split: option.splits if_splits)
qed

text \<open>
  C6: two default quorums share an honest signer. Two witnesses verified against the same
  registry with the default threshold, whatever evidence they are about, have more than
  \<open>(n - 1) div 3\<close> signers in common, where \<open>n\<close> is the number of active signers: more than
  the faulty signers that a committee of \<open>n\<close> tolerates.
\<close>

theorem quorum_intersection:
  assumes "VerifyQuorum B ks now reg ev bitset (Some sig) 0 = Inr w"
    and "VerifyQuorum B ks now' reg ev' bitset' (Some sig') 0 = Inr w'"
    and "ranges ks reg"
  shows "int (card (set (qw_SignerBitset w) \<inter> set (qw_SignerBitset w'))) > (ActiveCount ks reg - 1) div 3"
proof -
  have q: "set (qw_SignerBitset v) \<subseteq> active_ids reg \<and> 0 < ActiveCount ks reg \<and>
      ByzantineThreshold (ActiveCount ks reg) \<le> int (card (set (qw_SignerBitset v)))"
    if "VerifyQuorum B ks now1 reg ev1 bits1 (Some sig1) 0 = Inr v" for now1 ev1 bits1 sig1 v
    using that
  proof (rule VerifyQuorum_InrE)
    fix s ps assume *: "qw_SignerBitset v = sort bits1" "distinct bits1" "bits1 \<noteq> []"
      "map (active_key reg) (sort bits1) = map Some ps"
      "qw_Threshold v = max 1 (if (0 :: int) \<le> 0 then ByzantineThreshold (ActiveCount ks reg) else 0)"
      "qw_Threshold v \<le> int (length bits1)"
    from active_keys_subset [OF *(4)] have sub: "set bits1 \<subseteq> active_ids reg" by simp
    then have "card (set bits1) \<le> card (active_ids reg)" "0 < card (set bits1)"
      using *(3) ActiveCount_card [OF assms(3)] by (auto intro: card_mono simp: card_gt_0_iff)
    with sub * ActiveCount_card [OF assms(3)] show ?thesis by (auto simp: distinct_card)
  qed
  from byzantine.intersection [of "active_ids reg" "set (qw_SignerBitset w)" "set (qw_SignerBitset w')" "ActiveCount ks reg"]
    q [OF assms(1)] q [OF assms(2)] ActiveCount_card [OF assms(3)] show ?thesis by simp
qed

section \<open>Honest signatures are accepted\<close>

text \<open>
  What the code relies on of the curve library: \<open>PairingCheck\<close> decides whether the product
  of the pairings is one, the pairing \<open>e\<close> is bilinear, and scalars move across it.
\<close>

definition pairing_laws :: "('g1, 'g2) bls \<Rightarrow> ('g1 \<Rightarrow> 'g2 \<Rightarrow> 'gt::comm_monoid_mult) \<Rightarrow> bool" where
  "pairing_laws B e \<longleftrightarrow>
     (\<forall>P Q R S. pairing_check B [P, Q] [R, S] = Some (e P R * e Q S = 1)) \<and>
     (\<forall>P Q R. e (g1_add B P Q) R = e P R * e Q R) \<and> (\<forall>R. e (g1_zero B) R = 1) \<and>
     (\<forall>P R S. e P (g2_add B R S) = e P R * e P S) \<and> (\<forall>P. e P (g2_zero B) = 1) \<and>
     (\<forall>P R. e (g1_neg B P) R * e P R = 1) \<and>
     (\<forall>k P R. e (g1_mul B k P) R = e P (g2_mul B k R))"

lemma pairing_g2_sum:
  assumes "pairing_laws B e"
  shows "e P (foldl (g2_add B) Q Rs) = e P Q * prod_list (map (e P) Rs)"
proof (induction Rs arbitrary: Q)
  case (Cons R Rs)
  from assms have "e P (g2_add B Q R) = e P Q * e P R" by (simp add: pairing_laws_def)
  with Cons show ?case by (simp add: mult.assoc)
qed simp

lemma pairing_g1_sum:
  assumes "pairing_laws B e"
  shows "e (foldl (g1_add B) Q Ps) R = e Q R * prod_list (map (\<lambda>P. e P R) Ps)"
proof (induction Ps arbitrary: Q)
  case (Cons P Ps)
  from assms have "e (g1_add B Q P) R = e Q R * e P R" by (simp add: pairing_laws_def)
  with Cons show ?case by (simp add: mult.assoc)
qed simp

lemma aggregate_verifies:
  assumes laws: "pairing_laws B e" and h: "hash_to_g1 B ev DomainSeparationTag = Some h" and "ev \<noteq> []"
    and mset: "mset ps = mset (map (derive_pk B) sks)"
  shows "Bls_Verify B (foldl (g2_add B) (g2_zero B) ps) ev
    (foldl (g1_add B) (g1_zero B) (map (\<lambda>sk. g1_mul B sk h) sks)) = Inr ()"
proof -
  let ?pk = "foldl (g2_add B) (g2_zero B) ps"
  let ?sig = "foldl (g1_add B) (g1_zero B) (map (\<lambda>sk. g1_mul B sk h) sks)"
  have "e ?sig (g2_gen B) = prod_list (map (\<lambda>sk. e h (derive_pk B sk)) sks)"
    using laws by (simp add: pairing_g1_sum [OF laws] derive_pk_def o_def) (simp add: pairing_laws_def)
  also have "\<dots> = prod_list (map (e h) ps)"
  proof -
    have "mset (map (\<lambda>sk. e h (derive_pk B sk)) sks) = mset (map (e h) ps)"
      using mset by (simp add: image_mset.compositionality o_def)
    then show ?thesis by (metis prod_mset_prod_list)
  qed
  also have "\<dots> = e h ?pk"
    using laws by (simp add: pairing_g2_sum [OF laws]) (simp add: pairing_laws_def)
  finally have "e (g1_neg B h) ?pk * e ?sig (g2_gen B) = 1" using laws by (simp add: pairing_laws_def)
  then have "pairing_check B [g1_neg B h, ?sig] [?pk, g2_gen B] = Some True"
    using laws by (simp add: pairing_laws_def)
  with h assms(3) show ?thesis by (simp add: Bls_Verify_def)
qed

text \<open>
  C29: honest quorums are accepted. When distinct active signers, at least as many as the
  threshold, each sign the same evidence with the secret key behind their registered
  public key, the aggregate of their signatures is accepted by \<open>VerifyQuorum\<close>, in whatever
  order the signers are listed.
\<close>

theorem honest_quorum_accepted:
  assumes laws: "pairing_laws B e" and h: "hash_to_g1 B ev DomainSeparationTag = Some h"
    and "ev \<noteq> []" "ids \<noteq> []" "distinct ids"
    and keys: "\<forall>i \<in> set ids. active_key reg i = Some (derive_pk B (sk i))"
    and sigs: "\<forall>i \<in> set ids. Sign B (sk i) ev = Inr (sig i)"
    and agg: "Bls_Aggregate B (map sig ids) = Inr asig"
    and th: "max 1 (if th \<le> 0 then ByzantineThreshold (ActiveCount ks reg) else th) \<le> int (length ids)"
  shows "\<exists>w. VerifyQuorum B ks now reg ev ids (Some asig) th = Inr w \<and> qw_SignerBitset w = sort ids"
proof -
  have "map sig ids = map (\<lambda>i. g1_mul B (sk i) h) ids" using sigs h assms(3) by (auto simp: Sign_def)
  then have asig: "asig = foldl (g1_add B) (g1_zero B) (map (\<lambda>k. g1_mul B k h) (map sk ids))"
    using agg unfolding Bls_Aggregate_def by (auto simp only: map_map o_def sum.inject split: if_splits)
  let ?ps = "map (\<lambda>i. derive_pk B (sk i)) (sort ids)"
  have "map (active_key reg) (sort ids) = map Some ?ps" using keys by simp
  then have "activePubKeys reg (sort ids) = Inr ?ps"
    unfolding activePubKeys_def active_loop_Inr using assms(5) by auto
  moreover have "AggregatePubKeys B ?ps = Inr (foldl (g2_add B) (g2_zero B) ?ps)"
    using assms(4) by (simp add: AggregatePubKeys_def)
  moreover have "Bls_Verify B (foldl (g2_add B) (g2_zero B) ?ps) ev asig = Inr ()"
    unfolding asig by (rule aggregate_verifies [OF laws h assms(3)]) (simp add: o_def)
  ultimately show ?thesis
    using assms(3,4) th by (auto simp: VerifyQuorum_def SortSignerIDs_def Let_def max_def split: if_splits)
qed

text \<open>The laws hold for the integers with multiplication as the pairing (exponents of a cyclic group).\<close>

definition int_bls :: "(int, int) bls" where
  "int_bls = \<lparr>g1_zero = 0, g1_add = (+), g1_neg = uminus, g1_mul = (*), g2_zero = 0, g2_add = (+), g2_mul = (*),
     g2_gen = 1, hash_to_g1 = (\<lambda>m d. Some (int (length m))),
     pairing_check = (\<lambda>ps qs. Some (sum_list (map2 (*) ps qs) = 0)), g1_bytes = (\<lambda>_. ''1''), g2_bytes = (\<lambda>_. ''2'')\<rparr>"

text \<open>The multiplicative group written with exponents, so that products are sums of exponents.\<close>

datatype expo = Expo int

instantiation expo :: comm_monoid_mult
begin

definition one_expo :: expo where "one_expo = Expo 0"

fun times_expo :: "expo \<Rightarrow> expo \<Rightarrow> expo" where "times_expo (Expo a) (Expo b) = Expo (a + b)"

instance
proof
  fix a b c :: expo
  show "a * b * c = a * (b * c)" "a * b = b * a" "1 * a = a"
    by (cases a; cases b; cases c; simp add: one_expo_def)+
qed

end

lemma int_pairing_laws: "pairing_laws int_bls (\<lambda>a b. Expo (a * b))"
  by (simp add: pairing_laws_def int_bls_def one_expo_def algebra_simps)

theorem honest_quorum_accepted_witness:
  "\<exists>w. VerifyQuorum int_bls [''s''] 0 [''s'' \<mapsto> sample_signer ''s'' StatusActive] ''ev'' [''s''] (Some 4) 0 = Inr w \<and>
     qw_SignerBitset w = [''s'']"
proof -
  let ?reg = "[''s'' \<mapsto> sample_signer ''s'' StatusActive]"
  have "\<exists>w. VerifyQuorum int_bls [''s''] 0 ?reg ''ev'' [''s''] (Some 4) 0 = Inr w \<and> qw_SignerBitset w = sort [''s'']"
    by (rule honest_quorum_accepted [OF int_pairing_laws, where sk = "\<lambda>_. 2" and sig = "\<lambda>_. 4" and h = 2])
      (simp_all add: int_bls_def active_key_def sample_signer_def derive_pk_def Sign_def Bls_Aggregate_def
        ActiveCount_def range_values_def ByzantineThreshold_def)
  then show ?thesis by simp
qed

theorem VerifyQuorum_sound_witness:
  "\<exists>w. VerifyQuorum int_bls [''s''] 0 [''s'' \<mapsto> sample_signer ''s'' StatusActive] ''ev'' [''s''] (Some 4) 0 = Inr w \<and>
     1 \<le> qw_Threshold w"
proof -
  obtain w where w: "VerifyQuorum int_bls [''s''] 0 [''s'' \<mapsto> sample_signer ''s'' StatusActive] ''ev'' [''s''] (Some 4) 0 = Inr w"
    by (simp add: VerifyQuorum_def int_bls_def sample_signer_def ActiveCount_def range_values_def ByzantineThreshold_def
        SortSignerIDs_def activePubKeys_def AggregatePubKeys_def Bls_Verify_def Let_def)
  with VerifyQuorum_sound [OF w] show ?thesis by blast
qed

theorem quorum_intersection_witness:
  "\<exists>w. VerifyQuorum int_bls [''s''] 0 [''s'' \<mapsto> sample_signer ''s'' StatusActive] ''ev'' [''s''] (Some 4) 0 = Inr w \<and>
     int (card (set (qw_SignerBitset w) \<inter> set (qw_SignerBitset w))) > 0"
proof -
  obtain w where w: "VerifyQuorum int_bls [''s''] 0 [''s'' \<mapsto> sample_signer ''s'' StatusActive] ''ev'' [''s''] (Some 4) 0 = Inr w"
    by (simp add: VerifyQuorum_def int_bls_def sample_signer_def ActiveCount_def range_values_def ByzantineThreshold_def
        SortSignerIDs_def activePubKeys_def AggregatePubKeys_def Bls_Verify_def Let_def)
  have "ranges [''s''] [''s'' \<mapsto> sample_signer ''s'' StatusActive]" by (simp add: ranges_def)
  from quorum_intersection [OF w w this] w show ?thesis
    by (auto simp: ActiveCount_def range_values_def sample_signer_def)
qed

text \<open>
  A threshold given by the caller replaces the Byzantine one even when it is lower: one
  signer is a quorum at threshold one, however many signers are active. The comment speaks
  of callers that pass a tighter threshold.
\<close>

lemma low_threshold_accepted:
  assumes "active_key reg i = Some p" "ev \<noteq> []"
    and "Bls_Verify B (g2_add B (g2_zero B) p) ev sig = Inr ()"
  shows "\<exists>w. VerifyQuorum B ks now reg ev [i] (Some sig) 1 = Inr w"
proof -
  have "activePubKeys reg [i] = Inr [p]"
    unfolding activePubKeys_def active_loop_Inr using assms(1) by simp
  with assms show ?thesis by (simp add: VerifyQuorum_def SortSignerIDs_def AggregatePubKeys_def Let_def)
qed

text \<open>
  The commitment separates signer ids with the byte 30 and does not escape it: two lists
  of signers can have the same commitment text.
\<close>

lemma commitment_separator_ambiguous:
  "commitment_text (w\<lparr>qw_SignerBitset := [a @ byte 30 # b]\<rparr>) = commitment_text (w\<lparr>qw_SignerBitset := [a, b]\<rparr>)"
  by (simp add: commitment_text_def)

end
