(* ===== verification/Circuit.thy ===== *)
theory Circuit
  imports Go_Prelude
begin

text \<open>
  The resilient querier, \<open>submitter/resilience.go\<close>: the three-state circuit breaker, the
  retry loop and the backoff. The methods of the breaker run under its mutex and are atomic
  state transformers; each takes the current time as an argument. The node client and the
  context are arguments: \<open>client n\<close> is what the \<open>n\<close>-th attempt returns and \<open>cancelled n\<close> says
  that the context ends during the wait before it. Calls of several goroutines interleave in
  the step relation \<open>cb_step\<close>, whose states carry the calls in flight. The lemmas show that
  at most one probe is in flight, that the breaker opens after the configured number of
  failures, that it always lets a probe through again, and the bounds on attempts and waits.
\<close>

section \<open>The breaker\<close>

datatype circuitState = circuitClosed | circuitOpen | circuitHalfOpen

fun circuitState_String :: "circuitState \<Rightarrow> gostring" where
  "circuitState_String circuitClosed = ''closed''"
| "circuitState_String circuitOpen = ''open''"
| "circuitState_String circuitHalfOpen = ''half-open''"

record RetryConfig =
  MaxAttempts :: int
  BaseDelay :: int
  MaxDelay :: int
  Multiplier :: float64

definition DefaultRetryConfig :: RetryConfig where
  "DefaultRetryConfig = \<lparr>MaxAttempts = 4, BaseDelay = 200 * 10 ^ 6, MaxDelay = 3 * 10 ^ 9, Multiplier = 2\<rparr>"

record CircuitBreakerConfig =
  FailureThreshold :: int
  OpenTimeout :: int

definition DefaultCircuitBreakerConfig :: CircuitBreakerConfig where
  "DefaultCircuitBreakerConfig = \<lparr>FailureThreshold = 5, OpenTimeout = 30 * 10 ^ 9\<rparr>"

record ResilientQuerier =
  q_retry :: RetryConfig
  q_cb :: CircuitBreakerConfig
  q_state :: circuitState
  q_consecutiveFail :: int
  q_openedAt :: int
  q_probeInFlight :: bool

definition NewResilientQuerier :: "RetryConfig \<Rightarrow> CircuitBreakerConfig \<Rightarrow> ResilientQuerier" where
  "NewResilientQuerier retry cb = \<lparr>q_retry = retry, q_cb = cb, q_state = circuitClosed,
     q_consecutiveFail = 0, q_openedAt = 0, q_probeInFlight = False\<rparr>"

definition stateLocked :: "int \<Rightarrow> ResilientQuerier \<Rightarrow> circuitState" where
  "stateLocked now q =
     (if q_state q = circuitOpen \<and> now - q_openedAt q \<ge> OpenTimeout (q_cb q) then circuitHalfOpen else q_state q)"

definition Querier_State :: "int \<Rightarrow> ResilientQuerier \<Rightarrow> gostring" where
  "Querier_State now q = circuitState_String (stateLocked now q)"

definition allow :: "int \<Rightarrow> ResilientQuerier \<Rightarrow> (bool \<times> bool) \<times> ResilientQuerier" where
  "allow now q =
     (case stateLocked now q of
        circuitOpen \<Rightarrow> ((False, False), q)
      | circuitHalfOpen \<Rightarrow>
          if q_probeInFlight q then ((False, False), q)
          else ((True, True), q\<lparr>q_state := circuitHalfOpen, q_probeInFlight := True\<rparr>)
      | circuitClosed \<Rightarrow> ((True, False), q))"

definition onSuccess :: "bool \<Rightarrow> ResilientQuerier \<Rightarrow> ResilientQuerier" where
  "onSuccess probe q =
     (let q' = q\<lparr>q_consecutiveFail := 0, q_state := circuitClosed\<rparr>
      in if probe then q'\<lparr>q_probeInFlight := False\<rparr> else q')"

definition onFailure :: "int \<Rightarrow> bool \<Rightarrow> ResilientQuerier \<Rightarrow> ResilientQuerier" where
  "onFailure now probe q =
     (if probe then q\<lparr>q_state := circuitOpen, q_openedAt := now, q_probeInFlight := False\<rparr>
      else let q' = q\<lparr>q_consecutiveFail := q_consecutiveFail q + 1\<rparr> in
        if q_consecutiveFail q' \<ge> FailureThreshold (q_cb q)
        then q'\<lparr>q_state := circuitOpen, q_openedAt := now\<rparr> else q')"

section \<open>Retries\<close>

text \<open>
  \<open>pow\<close> is \<open>math.Pow\<close> and \<open>rnd\<close> the rounding of a float operation or conversion; the
  conversion to a duration truncates towards zero.
\<close>

definition trunc :: "rat \<Rightarrow> int" where
  "trunc x = (if x < 0 then \<lceil>x\<rceil> else \<lfloor>x\<rfloor>)"

definition backoffDelay ::
  "(float64 \<Rightarrow> float64) \<Rightarrow> (float64 \<Rightarrow> float64 \<Rightarrow> float64) \<Rightarrow> RetryConfig \<Rightarrow> int \<Rightarrow> int" where
  "backoffDelay rnd pow r attempt =
     (if attempt \<le> 0 then 0
      else let d = rnd (rnd (of_int (BaseDelay r)) * pow (Multiplier r) (rnd (of_int (attempt - 1)))) in
        trunc (if d > rnd (of_int (MaxDelay r)) then rnd (of_int (MaxDelay r)) else d))"

datatype ('e, 'r) attempt_result = Succeeded 'r | Cancelled | Exhausted "'e option"

text \<open>
  The loop over the attempts; it also returns the numbers of the attempts that reached the
  client and the waits before them (\<open>backoffDelay\<close> of the attempt number less one).
\<close>

function attempt_loop ::
  "(int \<Rightarrow> 'e + 'r) \<Rightarrow> (int \<Rightarrow> bool) \<Rightarrow> bool \<Rightarrow> int \<Rightarrow> int \<Rightarrow> 'e option \<Rightarrow> int list \<Rightarrow>
   ('e, 'r) attempt_result \<times> int list" where
  "attempt_loop client cancelled probe maxA attempt lastErr calls =
     (if attempt > maxA then (Exhausted lastErr, calls)
      else if attempt > 1 \<and> cancelled attempt then (Cancelled, calls)
      else case client attempt of
          Inr res \<Rightarrow> (Succeeded res, calls @ [attempt])
        | Inl e \<Rightarrow>
            if probe then (Exhausted (Some e), calls @ [attempt])
            else attempt_loop client cancelled probe maxA (attempt + 1) (Some e) (calls @ [attempt]))"
  by pat_completeness auto
termination
  by (relation "measure (\<lambda>(_, _, _, maxA, attempt, _, _). nat (maxA + 1 - attempt))") auto

declare attempt_loop.simps [simp del]

datatype 'e query_error = ErrCircuitOpen | ContextDone | QueryFailed "'e option"

definition QueryGlobalState ::
  "(int \<Rightarrow> 'e + 'r) \<Rightarrow> (int \<Rightarrow> bool) \<Rightarrow> int \<Rightarrow> int \<Rightarrow> ResilientQuerier \<Rightarrow>
   ('e query_error + 'r) \<times> ResilientQuerier \<times> int list" where
  "QueryGlobalState client cancelled now later q =
     (case allow now q of ((proceed, probe), q1) \<Rightarrow>
        if \<not> proceed then (Inl ErrCircuitOpen, q1, [])
        else case attempt_loop client cancelled probe (MaxAttempts (q_retry q)) 1 None [] of
            (Succeeded res, calls) \<Rightarrow> (Inr res, onSuccess probe q1, calls)
          | (Cancelled, calls) \<Rightarrow> (Inl ContextDone, q1, calls)
          | (Exhausted e, calls) \<Rightarrow> (Inl (QueryFailed e), onFailure later probe q1, calls))"

section \<open>Interleaved calls\<close>

text \<open>
  A state of the system: the breaker and, for every call between \<open>allow\<close> and its end,
  whether it is a probe. A call may be cancelled only while it waits for a retry, which a
  probe never does.
\<close>

inductive cb_step :: "ResilientQuerier \<times> bool list \<Rightarrow> ResilientQuerier \<times> bool list \<Rightarrow> bool" where
  admit: "allow now q = ((True, probe), q') \<Longrightarrow> cb_step (q, fl) (q', probe # fl)"
| refuse: "allow now q = ((False, probe), q') \<Longrightarrow> cb_step (q, fl) (q', fl)"
| succeed: "cb_step (q, a @ probe # b) (onSuccess probe q, a @ b)"
| fail: "cb_step (q, a @ probe # b) (onFailure now probe q, a @ b)"
| cancel: "cb_step (q, a @ False # b) (q, a @ b)"

inductive_cases cb_stepE: "cb_step (q, fl) s'"

definition cb_reach :: "RetryConfig \<Rightarrow> CircuitBreakerConfig \<Rightarrow> ResilientQuerier \<times> bool list \<Rightarrow> bool" where
  "cb_reach retry cb s \<longleftrightarrow> cb_step\<^sup>*\<^sup>* (NewResilientQuerier retry cb, []) s"

definition cb_inv :: "CircuitBreakerConfig \<Rightarrow> ResilientQuerier \<times> bool list \<Rightarrow> bool" where
  "cb_inv cb s \<longleftrightarrow> (case s of (q, fl) \<Rightarrow>
     q_cb q = cb \<and> length (filter id fl) = (if q_probeInFlight q then 1 else 0) \<and>
     (q_state q = circuitHalfOpen \<longrightarrow> q_probeInFlight q) \<and> 0 \<le> q_consecutiveFail q \<and>
     (q_state q = circuitClosed \<longrightarrow> q_consecutiveFail q < FailureThreshold cb))"

lemma allow_cases:
  "allow now q = ((True, False), q) \<and> q_state q = circuitClosed \<or>
   allow now q = ((False, False), q) \<and> q_state q \<noteq> circuitClosed \<or>
   allow now q = ((True, True), q\<lparr>q_state := circuitHalfOpen, q_probeInFlight := True\<rparr>) \<and> \<not> q_probeInFlight q \<and>
     stateLocked now q = circuitHalfOpen"
  by (cases "q_state q") (auto simp: allow_def stateLocked_def)

lemma cb_inv_step:
  assumes "0 < FailureThreshold cb" "cb_step s s'" "cb_inv cb s"
  shows "cb_inv cb s'"
  using assms(2,3)
proof cases
  case (admit now q probe q' fl)
  with allow_cases [of now q] assms(3) show ?thesis by (auto simp: cb_inv_def)
next
  case (refuse now q probe q' fl)
  with allow_cases [of now q] assms(3) show ?thesis by (auto simp: cb_inv_def)
next
  case (succeed q a probe b)
  with assms show ?thesis by (auto simp: cb_inv_def onSuccess_def Let_def split: if_splits)
next
  case (fail q a probe b now)
  with assms show ?thesis by (auto simp: cb_inv_def onFailure_def Let_def split: if_splits)
next
  case (cancel q a b)
  with assms show ?thesis by (auto simp: cb_inv_def)
qed

lemma cb_inv_reach:
  assumes "0 < FailureThreshold cb" "cb_reach retry cb s"
  shows "cb_inv cb s"
  using assms(2) unfolding cb_reach_def
proof (induction rule: rtranclp_induct)
  case base
  show ?case using assms(1) by (simp add: cb_inv_def NewResilientQuerier_def)
next
  case (step s s')
  then show ?case using cb_inv_step [OF assms(1)] by blast
qed

section \<open>Properties\<close>

text \<open>
  At most one probe is in flight, whatever the interleaving of calls. In every reachable
  state of the breaker with concurrent callers at most one call in flight is a half-open
  probe, and while one is, a further caller is not admitted as a probe.
\<close>

theorem single_probe_in_flight:
  assumes "0 < FailureThreshold cb" "cb_reach retry cb (q, fl)"
  shows "length (filter id fl) \<le> 1 \<and> (True \<in> set fl \<longrightarrow> \<not> snd (fst (allow now q)))"
proof -
  from cb_inv_reach [OF assms] have inv: "length (filter id fl) = (if q_probeInFlight q then 1 else 0)"
    by (simp add: cb_inv_def)
  have "q_probeInFlight q" if "True \<in> set fl"
    using inv that by (auto simp: filter_empty_conv split: if_splits)
  with inv allow_cases [of now q] show ?thesis by auto
qed

lemma admitted_sample: "cb_reach DefaultRetryConfig DefaultCircuitBreakerConfig
  (NewResilientQuerier DefaultRetryConfig DefaultCircuitBreakerConfig, [False])"
  unfolding cb_reach_def
  by (intro r_into_rtranclp cb_step.admit [where now = 0])
    (simp add: allow_def stateLocked_def NewResilientQuerier_def)

theorem single_probe_in_flight_witness: "length (filter id [False]) \<le> 1"
  using single_probe_in_flight [OF _ admitted_sample] by (simp add: DefaultCircuitBreakerConfig_def)

text \<open>
  C16: the breaker neither leaks calls nor locks up. In every reachable state: while it is
  open and the timeout has not passed a query is refused without touching the client; and
  as soon as no probe is in flight, a query made once the timeout has passed since the
  opening (or while closed) is admitted.
\<close>

theorem breaker_blocks_and_recovers:
  assumes "0 < FailureThreshold cb" "cb_reach retry cb (q, fl)"
  shows "(q_state q = circuitOpen \<and> now < q_openedAt q + OpenTimeout cb \<longrightarrow>
      QueryGlobalState client cancelled now later q = (Inl ErrCircuitOpen, q, [])) \<and>
    (True \<notin> set fl \<and> q_openedAt q + OpenTimeout cb \<le> now \<longrightarrow> fst (fst (allow now q)))"
proof -
  from cb_inv_reach [OF assms] have inv: "q_cb q = cb" "length (filter id fl) = (if q_probeInFlight q then 1 else 0)"
    "q_state q = circuitHalfOpen \<longrightarrow> q_probeInFlight q" by (simp_all add: cb_inv_def)
  have "\<not> q_probeInFlight q" if "True \<notin> set fl"
  proof -
    have "filter id fl = []" using that by (metis (full_types) filter_False id_apply)
    with inv(2) show ?thesis by (auto split: if_splits)
  qed
  with inv show ?thesis
    by (cases "q_state q") (auto simp: QueryGlobalState_def allow_def stateLocked_def)
qed

theorem breaker_blocks_and_recovers_witness:
  "fst (fst (allow (30 * 10 ^ 9) (NewResilientQuerier DefaultRetryConfig DefaultCircuitBreakerConfig)))"
  using breaker_blocks_and_recovers [OF _ admitted_sample, of "30 * 10 ^ 9"]
  by (simp add: DefaultCircuitBreakerConfig_def NewResilientQuerier_def)

text \<open>
  The threshold counts consecutive failures. Starting from a closed breaker without
  failures, a series of failed calls (at any times) opens it exactly when the series is as
  long as the threshold; a success in between closes it and restarts the count.
\<close>

theorem opens_after_threshold:
  assumes "0 < FailureThreshold (q_cb q)"
  shows "(q_state (fold (\<lambda>t. onFailure t False) ts (onSuccess probe q)) = circuitOpen \<longleftrightarrow>
     int (length ts) \<ge> FailureThreshold (q_cb q))"
proof -
  have step: "q_cb (fold (\<lambda>t. onFailure t False) ts q') = q_cb q' \<and>
      q_consecutiveFail (fold (\<lambda>t. onFailure t False) ts q') = q_consecutiveFail q' + int (length ts) \<and>
      (q_state (fold (\<lambda>t. onFailure t False) ts q') =
        (if ts \<noteq> [] \<and> q_consecutiveFail q' + int (length ts) \<ge> FailureThreshold (q_cb q') then circuitOpen else q_state q'))"
    for q'
  proof (induction ts arbitrary: q')
    case (Cons t ts)
    show ?case using Cons [of "onFailure t False q'"] by (auto simp: onFailure_def Let_def)
  qed simp
  show ?thesis using step [of "onSuccess probe q"] assms by (auto simp: onSuccess_def Let_def)
qed

theorem opens_after_threshold_witness:
  "q_state (fold (\<lambda>t. onFailure t False) [1, 2, 3, 4, 5]
     (onSuccess False (NewResilientQuerier DefaultRetryConfig DefaultCircuitBreakerConfig))) = circuitOpen"
  using opens_after_threshold [of "NewResilientQuerier DefaultRetryConfig DefaultCircuitBreakerConfig" "[1, 2, 3, 4, 5]" False]
  by (simp add: DefaultCircuitBreakerConfig_def NewResilientQuerier_def)

lemma attempt_loop_calls:
  "1 \<le> k \<Longrightarrow> attempt_loop client cancelled probe m k le cs = (res, calls) \<Longrightarrow>
   (\<exists>n. calls = cs @ [k..n] \<and> n \<le> max m (k - 1) \<and> k - 1 \<le> n \<and> (probe \<longrightarrow> n \<le> k) \<and>
     (\<forall>i. k \<le> i \<and> i < n \<longrightarrow> isl (client i)) \<and> (probe \<and> k = 1 \<longrightarrow> res \<noteq> Cancelled) \<and>
     (\<forall>r. res = Succeeded r \<longleftrightarrow> k \<le> n \<and> client n = Inr r))"
proof (induction client cancelled probe m k le cs rule: attempt_loop.induct)
  case (1 client cancelled probe m k le cs)
  consider "k > m" | "k \<le> m" "k > 1 \<and> cancelled k" | r where "k \<le> m" "\<not> (k > 1 \<and> cancelled k)" "client k = Inr r"
    | e where "k \<le> m" "\<not> (k > 1 \<and> cancelled k)" "client k = Inl e" "probe"
    | e where "k \<le> m" "\<not> (k > 1 \<and> cancelled k)" "client k = Inl e" "\<not> probe"
    using linorder_not_le by (cases "client k") blast+
  then show ?case
  proof cases
    case 1
    with "1.prems" show ?thesis by (intro exI [of _ "k - 1"]) (auto simp: attempt_loop.simps)
  next
    case 2
    with "1.prems" show ?thesis by (intro exI [of _ "k - 1"]) (auto simp: attempt_loop.simps)
  next
    case (3 r)
    with "1.prems" show ?thesis by (intro exI [of _ k]) (auto simp: attempt_loop.simps [of client])
  next
    case (4 e)
    with "1.prems" show ?thesis by (intro exI [of _ k]) (auto simp: attempt_loop.simps [of client])
  next
    case (5 e)
    then have loop: "attempt_loop client cancelled probe m (k + 1) (Some e) (cs @ [k]) = (res, calls)"
      using "1.prems"(2) by (subst (asm) attempt_loop.simps) (auto split: if_splits)
    have "\<not> m < k" "\<not> (1 < k \<and> cancelled k)" "1 \<le> k + 1" using 5 "1.prems" by auto
    from "1.IH" [OF this(1,2) 5(3,4) this(3) loop] obtain n where
      n: "calls = (cs @ [k]) @ [k + 1..n]" "n \<le> max m k" "k \<le> n" "\<forall>i. k + 1 \<le> i \<and> i < n \<longrightarrow> isl (client i)"
        "\<forall>r. res = Succeeded r \<longleftrightarrow> k + 1 \<le> n \<and> client n = Inr r" by auto
    have "[k..n] = k # [k + 1..n]" using n(3) by (simp add: upto_rec1)
    moreover have "isl (client i)" if "k \<le> i" "i < n" for i using n(4) that 5(3) by (cases "i = k") auto
    moreover have "client n = Inr r \<Longrightarrow> k + 1 \<le> n" for r using n(3) 5(3) by (cases "n = k") auto
    ultimately show ?thesis using n 5 by (intro exI [of _ n]) auto
  qed
qed

text \<open>
  The retry loop. An admitted query asks the client with the attempts \<open>1, ..., n\<close> in this
  order, where \<open>n\<close> is at most \<open>MaxAttempts\<close>, and at most one for a probe; it stops at the first
  success, whose result it returns; and a probe always ends with a report to the breaker,
  never as a cancelled wait, so that the probe slot is released.
\<close>

theorem QueryGlobalState_attempts:
  assumes "QueryGlobalState client cancelled now later q = (res, q', calls)" "allow now q = ((True, probe), q1)"
  shows "\<exists>n. calls = [1..n] \<and> 0 \<le> n \<and> n \<le> max 0 (MaxAttempts (q_retry q)) \<and> (probe \<longrightarrow> n \<le> 1) \<and>
    (\<forall>i. 1 \<le> i \<and> i < n \<longrightarrow> isl (client i)) \<and> (\<forall>r. res = Inr r \<longleftrightarrow> 1 \<le> n \<and> client n = Inr r) \<and>
    (probe \<longrightarrow> \<not> q_probeInFlight q')"
proof -
  obtain out calls' where loop: "attempt_loop client cancelled probe (MaxAttempts (q_retry q)) 1 None [] = (out, calls')"
    by fastforce
  with assms have "calls' = calls" "res = (case out of Succeeded r \<Rightarrow> Inr r | Cancelled \<Rightarrow> Inl ContextDone | Exhausted e \<Rightarrow> Inl (QueryFailed e))"
    "q' = (case out of Succeeded r \<Rightarrow> onSuccess probe q1 | Cancelled \<Rightarrow> q1 | Exhausted e \<Rightarrow> onFailure later probe q1)"
    by (auto simp: QueryGlobalState_def split: attempt_result.splits)
  with attempt_loop_calls [OF _ loop] show ?thesis
    by (cases out) (auto simp: onSuccess_def onFailure_def Let_def)
qed

theorem QueryGlobalState_attempts_witness:
  "\<exists>n. snd (snd (QueryGlobalState (\<lambda>i. if i < 3 then Inl ''down'' else Inr i) (\<lambda>_. False) 0 1
     (NewResilientQuerier DefaultRetryConfig DefaultCircuitBreakerConfig))) = [1..n] \<and> n \<le> 4"
proof -
  let ?q = "NewResilientQuerier DefaultRetryConfig DefaultCircuitBreakerConfig"
  let ?run = "QueryGlobalState (\<lambda>i. if i < 3 then Inl ''down'' else Inr i) (\<lambda>_. False) 0 1 ?q"
  have run: "?run = (fst ?run, fst (snd ?run), snd (snd ?run))" by (simp only: prod.collapse)
  have "allow 0 ?q = ((True, False), ?q)" by (simp add: allow_def stateLocked_def NewResilientQuerier_def)
  from QueryGlobalState_attempts [OF run this] obtain n where
    "snd (snd ?run) = [1..n]" "n \<le> max 0 (MaxAttempts (q_retry ?q))" by blast
  moreover have "max 0 (MaxAttempts (q_retry ?q)) = 4" by (simp add: NewResilientQuerier_def DefaultRetryConfig_def)
  ultimately show ?thesis by (intro exI [of _ n]) (simp only:)
qed

text \<open>The wait is never negative and never exceeds the cap, when rounding is monotone and exact on the cap.\<close>

lemma backoffDelay_bounds:
  assumes "mono rnd" "rnd 0 = 0" "rnd (of_int (MaxDelay r)) = of_int (MaxDelay r)"
    and "0 \<le> BaseDelay r" "0 \<le> MaxDelay r" "\<And>x. 0 \<le> pow (Multiplier r) x"
  shows "0 \<le> backoffDelay rnd pow r k \<and> backoffDelay rnd pow r k \<le> MaxDelay r"
proof -
  have pos: "0 \<le> rnd x" if "0 \<le> x" for x using monoD [OF assms(1) that] assms(2) by simp
  define d where "d = rnd (rnd (of_int (BaseDelay r)) * pow (Multiplier r) (rnd (of_int (k - 1))))"
  have "0 \<le> d" unfolding d_def using assms(4,6) by (intro pos mult_nonneg_nonneg) simp_all
  moreover have "backoffDelay rnd pow r k = (if k \<le> 0 then 0 else trunc (if d > of_int (MaxDelay r) then of_int (MaxDelay r) else d))"
    using assms(3) by (simp add: backoffDelay_def d_def Let_def)
  ultimately show ?thesis using assms(5) by (simp add: trunc_def floor_le_iff not_less)
qed

end
