(* ===== verification/Worker_Pool.thy ===== *)
theory Worker_Pool
  imports Go_Prelude
begin

text \<open>
  The distributed proof generation pool, \<open>worker/distributed.go\<close>. Workers and tasks are
  maps from ids to records; an operation on a worker or task that the Go code reaches
  through a pointer updates the map. Every operation is one atomic step, with the time of
  day as an argument and the range order of a map as a list of keys. The lemmas show that
  a pending task is always queued and the queue ordered by priority, which worker is
  selected, and two ways in which the load bookkeeping goes wrong.
\<close>

section \<open>Workers, tasks and the pool\<close>

datatype WorkerStatus = Idle | Busy | Draining | Offline

record Worker =
  wk_ID :: gostring
  wk_Addr :: gostring
  wk_Status :: WorkerStatus
  wk_Load :: int
  wk_MaxLoad :: int
  wk_LastHeartbeat :: int
  wk_ProofsGenerated :: int
  wk_AvgGenMs :: int
  wk_Failures :: int
  wk_currentTasks :: int

record Task =
  ta_ID :: gostring
  ta_InputData :: bytes
  ta_OutputData :: bytes
  ta_ModelData :: bytes
  ta_Agent :: gostring
  ta_UseCase :: gostring
  ta_Priority :: int
  ta_CreatedAt :: int
  ta_AssignedAt :: int
  ta_CompletedAt :: int
  ta_WorkerID :: gostring
  ta_Status :: gostring
  ta_Result :: bytes
  ta_Error :: gostring
  ta_RetryCount :: int

record TaskResult =
  re_TaskID :: gostring
  re_ProofID :: gostring
  re_GenMs :: int
  re_Success :: bool
  re_Error :: gostring

record Pool =
  po_workers :: "gostring \<rightharpoonup> Worker"
  po_tasks :: "gostring \<rightharpoonup> Task"
  po_queue :: "gostring list"

datatype pool_error =
    WorkerNotFound gostring | TaskNotFound gostring | WorkerUnavailable gostring | WorkerAtMaxLoad gostring | NoAvailableWorker

definition NewPool :: Pool where
  "NewPool = \<lparr>po_workers = Map.empty, po_tasks = Map.empty, po_queue = []\<rparr>"

definition incLoad :: "Worker \<Rightarrow> Worker" where
  "incLoad w = w\<lparr>wk_Load := wk_Load w + 1, wk_currentTasks := wk_currentTasks w + 1\<rparr>"

definition decLoad :: "Worker \<Rightarrow> Worker" where
  "decLoad w = w\<lparr>wk_Load := wk_Load w - 1,
     wk_currentTasks := (if wk_currentTasks w > 0 then wk_currentTasks w - 1 else wk_currentTasks w)\<rparr>"

definition set_worker :: "Pool \<Rightarrow> gostring \<Rightarrow> Worker \<Rightarrow> Pool" where
  "set_worker p i w = p\<lparr>po_workers := (po_workers p)(i \<mapsto> w)\<rparr>"

definition set_task :: "Pool \<Rightarrow> gostring \<Rightarrow> Task \<Rightarrow> Pool" where
  "set_task p i t = p\<lparr>po_tasks := (po_tasks p)(i \<mapsto> t)\<rparr>"

text \<open>An update of a worker if it is (still) registered.\<close>

definition on_worker :: "Pool \<Rightarrow> gostring \<Rightarrow> (Worker \<Rightarrow> Worker) \<Rightarrow> Pool" where
  "on_worker p i f = (case po_workers p i of None \<Rightarrow> p | Some w \<Rightarrow> set_worker p i (f w))"

text \<open>\<open>sortQueue\<close>: stable, by the priority of the task an id stands for.\<close>

definition queue_prio :: "Pool \<Rightarrow> gostring \<Rightarrow> int" where
  "queue_prio p i = (case po_tasks p i of None \<Rightarrow> 0 | Some t \<Rightarrow> ta_Priority t)"

definition sortQueue :: "Pool \<Rightarrow> Pool" where
  "sortQueue p = p\<lparr>po_queue := sort_key (\<lambda>i. - queue_prio p i) (po_queue p)\<rparr>"

definition enqueue :: "Pool \<Rightarrow> gostring \<Rightarrow> Pool" where
  "enqueue p i = p\<lparr>po_queue := po_queue p @ [i]\<rparr>"

definition RegisterWorker :: "int \<Rightarrow> Pool \<Rightarrow> gostring \<Rightarrow> gostring \<Rightarrow> int \<Rightarrow> Worker \<times> Pool" where
  "RegisterWorker now p i addr maxLoad =
     (let w = \<lparr>wk_ID = i, wk_Addr = addr, wk_Status = Idle, wk_Load = 0, wk_MaxLoad = maxLoad, wk_LastHeartbeat = now,
               wk_ProofsGenerated = 0, wk_AvgGenMs = 0, wk_Failures = 0, wk_currentTasks = 0\<rparr>
      in (w, set_worker p i w))"

definition DeregisterWorker :: "Pool \<Rightarrow> gostring \<Rightarrow> pool_error + Pool" where
  "DeregisterWorker p i =
     (if po_workers p i = None then Inl (WorkerNotFound i)
      else Inr (p\<lparr>po_workers := (po_workers p)(i := None)\<rparr>))"

definition Heartbeat :: "int \<Rightarrow> Pool \<Rightarrow> gostring \<Rightarrow> pool_error + Pool" where
  "Heartbeat now p i =
     (case po_workers p i of
        None \<Rightarrow> Inl (WorkerNotFound i)
      | Some w \<Rightarrow> Inr (set_worker p i (w\<lparr>wk_LastHeartbeat := now,
          wk_Status := (if wk_Status w = Offline then Idle else wk_Status w)\<rparr>)))"

definition task_id :: "gostring \<Rightarrow> bytes \<Rightarrow> gostring \<Rightarrow> int \<Rightarrow> gostring" where
  "task_id agent inp useCase nanos = take 16 (hex_encode (sha256 (inp @ agent @ useCase @ show_int nanos)))"

definition SubmitTask ::
  "int \<Rightarrow> int \<Rightarrow> Pool \<Rightarrow> gostring \<Rightarrow> bytes \<Rightarrow> bytes \<Rightarrow> bytes \<Rightarrow> gostring \<Rightarrow> int \<Rightarrow> Task \<times> Pool" where
  "SubmitTask nanos millis p agent inp outp model useCase priority =
     (let i = task_id agent inp useCase nanos;
          t = \<lparr>ta_ID = i, ta_InputData = inp, ta_OutputData = outp, ta_ModelData = model, ta_Agent = agent,
               ta_UseCase = useCase, ta_Priority = priority, ta_CreatedAt = millis, ta_AssignedAt = 0,
               ta_CompletedAt = 0, ta_WorkerID = '''', ta_Status = ''pending'', ta_Result = [], ta_Error = '''',
               ta_RetryCount = 0\<rparr>
      in (t, sortQueue (enqueue (set_task p i t) i)))"

definition AssignTask :: "int \<Rightarrow> Pool \<Rightarrow> gostring \<Rightarrow> gostring \<Rightarrow> pool_error + Pool" where
  "AssignTask now p taskID workerID =
     (case po_tasks p taskID of
        None \<Rightarrow> Inl (TaskNotFound taskID)
      | Some t \<Rightarrow>
          (case po_workers p workerID of
             None \<Rightarrow> Inl (WorkerNotFound workerID)
           | Some w \<Rightarrow>
               if wk_Status w = Offline \<or> wk_Status w = Draining then Inl (WorkerUnavailable workerID)
               else if wk_Load w \<ge> wk_MaxLoad w then Inl (WorkerAtMaxLoad workerID)
               else let p1 = set_task p taskID (t\<lparr>ta_Status := ''assigned'', ta_AssignedAt := now, ta_WorkerID := workerID\<rparr>);
                        p2 = set_worker p1 workerID (incLoad w)
                    in Inr (p2\<lparr>po_queue := remove1 taskID (po_queue p2)\<rparr>)))"

definition CompleteTask :: "int \<Rightarrow> Pool \<Rightarrow> gostring \<Rightarrow> TaskResult \<Rightarrow> pool_error + Pool" where
  "CompleteTask now p taskID result =
     (case po_tasks p taskID of
        None \<Rightarrow> Inl (TaskNotFound taskID)
      | Some t \<Rightarrow>
          let p1 = on_worker p (ta_WorkerID t) (\<lambda>w. let w1 = decLoad w in
                     w1\<lparr>wk_ProofsGenerated := wk_ProofsGenerated w1 + 1,
                        wk_AvgGenMs := (if wk_AvgGenMs w1 = 0 then re_GenMs result
                          else wrap64 (wk_AvgGenMs w1 + re_GenMs result) sdiv 2)\<rparr>)
          in Inr (set_task p1 taskID (t\<lparr>ta_Status := ''completed'', ta_CompletedAt := now, ta_Result := re_ProofID result\<rparr>)))"

definition FailTask :: "Pool \<Rightarrow> gostring \<Rightarrow> gostring \<Rightarrow> pool_error + Pool" where
  "FailTask p taskID reason =
     (case po_tasks p taskID of
        None \<Rightarrow> Inl (TaskNotFound taskID)
      | Some t \<Rightarrow>
          let p1 = on_worker p (ta_WorkerID t) (\<lambda>w. let w1 = decLoad w in w1\<lparr>wk_Failures := wk_Failures w1 + 1\<rparr>);
              t1 = t\<lparr>ta_RetryCount := ta_RetryCount t + 1\<rparr>
          in if ta_RetryCount t1 > 3 then Inr (set_task p1 taskID (t1\<lparr>ta_Status := ''failed'', ta_Error := reason\<rparr>))
             else Inr (sortQueue (enqueue (set_task p1 taskID (t1\<lparr>ta_Status := ''pending'', ta_WorkerID := []\<rparr>)) taskID)))"

definition Pool_GetTask :: "Pool \<Rightarrow> gostring \<Rightarrow> Task option" where
  "Pool_GetTask p i = po_tasks p i"

definition GetWorkerLoad :: "Pool \<Rightarrow> gostring \<Rightarrow> int \<times> int" where
  "GetWorkerLoad p i = (case po_workers p i of None \<Rightarrow> (0, 0) | Some w \<Rightarrow> (wk_Load w, wk_MaxLoad w))"

definition available :: "Worker \<Rightarrow> bool" where
  "available w \<longleftrightarrow> (wk_Status w = Idle \<or> wk_Status w = Busy) \<and> wk_Load w < wk_MaxLoad w"

fun select_loop :: "Worker option \<Rightarrow> Worker list \<Rightarrow> Worker option" where
  "select_loop best [] = best"
| "select_loop best (w # ws) =
     (if \<not> available w then select_loop best ws
      else case best of
          None \<Rightarrow> select_loop (Some w) ws
        | Some b \<Rightarrow> select_loop (if wk_Load w < wk_Load b then Some w else best) ws)"

definition SelectWorker :: "gostring list \<Rightarrow> Pool \<Rightarrow> pool_error + Worker" where
  "SelectWorker ks p =
     (case select_loop None (range_values ks (po_workers p)) of
        None \<Rightarrow> Inl NoAvailableWorker
      | Some w \<Rightarrow> Inr w)"

fun rebalance_loop :: "Pool \<Rightarrow> int \<Rightarrow> gostring list \<Rightarrow> int \<times> Pool" where
  "rebalance_loop p n [] = (n, p)"
| "rebalance_loop p n (i # ids) =
     (case po_tasks p i of
        None \<Rightarrow> rebalance_loop p n ids
      | Some t \<Rightarrow>
          if ta_Status t \<noteq> ''assigned'' then rebalance_loop p n ids
          else if (case po_workers p (ta_WorkerID t) of None \<Rightarrow> True | Some w \<Rightarrow> wk_Status w = Offline)
          then rebalance_loop (enqueue (set_task p i (t\<lparr>ta_Status := ''pending'', ta_WorkerID := ''''\<rparr>)) (ta_ID t)) (n + 1) ids
          else rebalance_loop p n ids)"

definition RebalanceTasks :: "gostring list \<Rightarrow> Pool \<Rightarrow> int \<times> Pool" where
  "RebalanceTasks ks p =
     (case rebalance_loop p 0 ks of (n, p') \<Rightarrow> (n, if n > 0 then sortQueue p' else p'))"

definition DrainWorker :: "Pool \<Rightarrow> gostring \<Rightarrow> pool_error + Pool" where
  "DrainWorker p i =
     (case po_workers p i of
        None \<Rightarrow> Inl (WorkerNotFound i)
      | Some w \<Rightarrow> Inr (set_worker p i (w\<lparr>wk_Status := Draining\<rparr>)))"

definition GetQueueDepth :: "Pool \<Rightarrow> nat" where
  "GetQueueDepth p = length (po_queue p)"

record PoolStats =
  workers_online :: int
  tasks_pending :: int
  tasks_completed :: int
  tasks_failed :: int
  avg_gen_ms :: int

definition Pool_GetStats :: "gostring list \<Rightarrow> gostring list \<Rightarrow> Pool \<Rightarrow> PoolStats" where
  "Pool_GetStats wks tks p =
     (let ws = range_values wks (po_workers p); ts = range_values tks (po_tasks p);
          gens = filter (\<lambda>g. g > 0) (map wk_AvgGenMs ws);
          totalGen = foldl (\<lambda>acc g. wrap64 (acc + g)) 0 gens;
          number = (\<lambda>st. int (length (filter (\<lambda>t. ta_Status t = st) ts)))
      in \<lparr>workers_online = int (length (filter (\<lambda>w. wk_Status w \<noteq> Offline) ws)),
          tasks_pending = number ''pending'', tasks_completed = number ''completed'', tasks_failed = number ''failed'',
          avg_gen_ms = (if length gens > 0 then totalGen sdiv int (length gens) else 0)\<rparr>)"

fun stale_loop :: "int \<Rightarrow> int \<Rightarrow> Pool \<Rightarrow> int \<Rightarrow> gostring list \<Rightarrow> int \<times> Pool" where
  "stale_loop now limit p n [] = (n, p)"
| "stale_loop now limit p n (i # ids) =
     (case po_tasks p i of
        None \<Rightarrow> stale_loop now limit p n ids
      | Some t \<Rightarrow>
          if ta_Status t \<noteq> ''assigned'' then stale_loop now limit p n ids
          else if now - ta_AssignedAt t > limit then
            stale_loop now limit
              (on_worker (set_task p i (t\<lparr>ta_Status := ''timeout''\<rparr>)) (ta_WorkerID t) decLoad) (n + 1) ids
          else stale_loop now limit p n ids)"

definition PruneStaleTasks :: "gostring list \<Rightarrow> int \<Rightarrow> Pool \<Rightarrow> int \<Rightarrow> int \<times> Pool" where
  "PruneStaleTasks ks now p timeoutSec = stale_loop now (wrap64 (timeoutSec * 1000)) p 0 ks"

fun offline_loop :: "int \<Rightarrow> int \<Rightarrow> Pool \<Rightarrow> int \<Rightarrow> gostring list \<Rightarrow> int \<times> Pool" where
  "offline_loop now limit p n [] = (n, p)"
| "offline_loop now limit p n (i # ids) =
     (case po_workers p i of
        None \<Rightarrow> offline_loop now limit p n ids
      | Some w \<Rightarrow>
          if now - wk_LastHeartbeat w > limit
          then offline_loop now limit (set_worker p i (w\<lparr>wk_Status := Offline\<rparr>)) (n + 1) ids
          else offline_loop now limit p n ids)"

definition PruneOfflineWorkers :: "gostring list \<Rightarrow> int \<Rightarrow> Pool \<Rightarrow> int \<Rightarrow> int \<times> Pool" where
  "PruneOfflineWorkers ks now p timeoutSec = offline_loop now (wrap64 (timeoutSec * 1000)) p 0 ks"

section \<open>The queue invariant\<close>

definition pool_core :: "Pool \<Rightarrow> bool" where
  "pool_core p \<longleftrightarrow> (\<forall>i t. po_tasks p i = Some t \<longrightarrow> ta_ID t = i) \<and> set (po_queue p) \<subseteq> dom (po_tasks p) \<and>
     (\<forall>i t. po_tasks p i = Some t \<and> ta_Status t = ''pending'' \<longrightarrow> i \<in> set (po_queue p))"

definition queue_sorted :: "Pool \<Rightarrow> bool" where
  "queue_sorted p \<longleftrightarrow> sorted (map (\<lambda>i. - queue_prio p i) (po_queue p))"

definition pool_inv :: "Pool \<Rightarrow> bool" where
  "pool_inv p \<longleftrightarrow> pool_core p \<and> queue_sorted p"

lemma pool_coreD:
  assumes "pool_core p" "po_tasks p i = Some t"
  shows "ta_ID t = i" "ta_Status t = ''pending'' \<Longrightarrow> i \<in> set (po_queue p)"
  using assms unfolding pool_core_def by blast+

lemma pool_fields [simp]:
  "po_tasks (set_worker p i w) = po_tasks p" "po_queue (set_worker p i w) = po_queue p"
  "po_tasks (enqueue p i) = po_tasks p" "po_queue (enqueue p i) = po_queue p @ [i]"
  "po_tasks (sortQueue p) = po_tasks p" "po_queue (set_task p i t) = po_queue p"
  "po_tasks (set_task p i t) = (po_tasks p)(i \<mapsto> t)"
  by (simp_all add: set_worker_def enqueue_def sortQueue_def set_task_def)

lemma set_sortQueue [simp]: "set (po_queue (sortQueue p)) = set (po_queue p)"
  by (simp add: sortQueue_def)

lemma on_worker_fields [simp]: "po_tasks (on_worker p i f) = po_tasks p" "po_queue (on_worker p i f) = po_queue p"
  by (simp_all add: on_worker_def split: option.splits)

lemma pool_inv_same_tasks:
  "po_tasks p' = po_tasks p \<Longrightarrow> po_queue p' = po_queue p \<Longrightarrow> pool_inv p' = pool_inv p"
  by (simp add: pool_inv_def pool_core_def queue_sorted_def queue_prio_def)

lemma pool_inv_set_worker [simp]: "pool_inv (set_worker p i w) = pool_inv p"
  by (rule pool_inv_same_tasks) simp_all

lemma pool_inv_workers [simp]: "pool_inv (p\<lparr>po_workers := m\<rparr>) = pool_inv p"
  by (rule pool_inv_same_tasks) simp_all

lemma pool_inv_on_worker [simp]: "pool_inv (on_worker p i f) = pool_inv p"
  by (rule pool_inv_same_tasks) simp_all

lemma pool_core_set_worker [simp]: "pool_core (set_worker p i w) = pool_core p"
  by (simp add: pool_core_def)

lemma pool_inv_sortQueue: "pool_core p \<Longrightarrow> pool_inv (sortQueue p)"
proof -
  assume p: "pool_core p"
  have "queue_prio (sortQueue p) = queue_prio p" by (simp add: queue_prio_def fun_eq_iff)
  then have "queue_sorted (sortQueue p)" by (simp add: queue_sorted_def sortQueue_def)
  with p show ?thesis by (simp add: pool_inv_def pool_core_def)
qed

text \<open>A task update that keeps id and priority keeps the order of the queue.\<close>

lemma queue_sorted_set_task:
  assumes "po_tasks p i = Some t" "ta_Priority t' = ta_Priority t"
  shows "queue_sorted (set_task p i t') = queue_sorted p"
proof -
  have "queue_prio (set_task p i t') = queue_prio p"
    using assms by (auto simp: queue_prio_def fun_eq_iff)
  then show ?thesis by (simp add: queue_sorted_def)
qed

lemma pool_core_set_task:
  assumes "pool_core p" "ta_ID t' = i" "ta_Status t' = ''pending'' \<Longrightarrow> i \<in> set (po_queue p)"
  shows "pool_core (set_task p i t')"
  using assms by (auto simp: pool_core_def)

lemma pool_core_enqueue:
  assumes "pool_core p" "ta_ID t' = i"
  shows "pool_core (enqueue (set_task p i t') i)"
  using assms by (auto simp: pool_core_def)

lemma pool_inv_set_task:
  assumes "pool_inv p" "po_tasks p i = Some t" "ta_ID t' = ta_ID t" "ta_Priority t' = ta_Priority t"
    and "ta_Status t' \<noteq> ''pending''"
  shows "pool_inv (set_task p i t')"
  unfolding pool_inv_def queue_sorted_set_task [OF assms(2,4)]
proof
  have "ta_ID t = i" using assms(1,2) by (simp add: pool_inv_def pool_core_def)
  with assms show "pool_core (set_task p i t')" by (intro pool_core_set_task) (simp_all add: pool_inv_def)
  show "queue_sorted p" using assms(1) by (simp add: pool_inv_def)
qed

text \<open>Taking a task that is not pending off the queue.\<close>

lemma pool_inv_dequeue:
  assumes inv: "pool_inv (set_task p i t)" and "ta_Status t \<noteq> ''pending''"
    and tasks: "po_tasks p' = (po_tasks p)(i \<mapsto> t)" and queue: "po_queue p' = remove1 i (po_queue p)"
  shows "pool_inv p'"
proof -
  have core: "pool_core (set_task p i t)" and sorted: "queue_sorted (set_task p i t)"
    using inv by (simp_all add: pool_inv_def)
  have "set (po_queue p') \<subseteq> dom (po_tasks p')"
    using core set_remove1_subset [of i "po_queue p"] by (auto simp: tasks queue pool_core_def)
  moreover have "x \<in> set (po_queue p')" if "po_tasks p' x = Some u" "ta_Status u = ''pending''" for x u
  proof -
    have "x \<noteq> i" using that assms(2) by (auto simp: tasks)
    moreover have "po_tasks (set_task p i t) x = Some u" using that by (simp add: tasks)
    then have "x \<in> set (po_queue p)" using pool_coreD(2) [OF core _ that(2)] by simp
    ultimately show ?thesis by (simp add: queue)
  qed
  moreover have "ta_ID u = x" if "po_tasks p' x = Some u" for x u
    using pool_coreD(1) [OF core, of x u] that by (simp add: tasks)
  ultimately have "pool_core p'" unfolding pool_core_def by blast
  moreover have "queue_prio p' = queue_prio (set_task p i t)" by (rule ext) (simp add: queue_prio_def tasks)
  then have "queue_sorted p'"
    using sorted sorted_map_remove1 [of "\<lambda>i. - queue_prio p' i" "po_queue p" i] by (simp add: queue_sorted_def queue)
  ultimately show ?thesis by (simp add: pool_inv_def)
qed

lemma AssignTask_inv:
  assumes "pool_inv p" "AssignTask now p i j = Inr p'"
  shows "pool_inv p'"
proof -
  from assms(2) obtain t w where t: "po_tasks p i = Some t"
    and p': "p' = (set_worker (set_task p i (t\<lparr>ta_Status := ''assigned'', ta_AssignedAt := now, ta_WorkerID := j\<rparr>)) j
      (incLoad w))\<lparr>po_queue := remove1 i (po_queue p)\<rparr>"
    unfolding AssignTask_def Let_def by (auto split: option.splits if_splits)
  have "pool_inv (set_task p i (t\<lparr>ta_Status := ''assigned'', ta_AssignedAt := now, ta_WorkerID := j\<rparr>))"
    by (rule pool_inv_set_task [OF assms(1) t]) simp_all
  then show ?thesis by (rule pool_inv_dequeue) (simp_all add: p')
qed

lemma CompleteTask_inv:
  assumes "pool_inv p" "CompleteTask now p i r = Inr p'"
  shows "pool_inv p'"
proof -
  from assms(2) obtain t f where t: "po_tasks p i = Some t"
    and p': "p' = set_task (on_worker p (ta_WorkerID t) f) i
      (t\<lparr>ta_Status := ''completed'', ta_CompletedAt := now, ta_Result := re_ProofID r\<rparr>)"
    by (auto simp: CompleteTask_def Let_def split: option.splits)
  show ?thesis unfolding p' by (rule pool_inv_set_task [where t = t]) (simp_all add: assms(1) t)
qed

lemma FailTask_inv:
  assumes "pool_inv p" "FailTask p i r = Inr p'"
  shows "pool_inv p'"
proof -
  let ?f = "\<lambda>w. decLoad w\<lparr>wk_Failures := wk_Failures (decLoad w) + 1\<rparr>"
  from assms(2) obtain t where t: "po_tasks p i = Some t"
    and p': "p' = set_task (on_worker p (ta_WorkerID t) ?f) i
        (t\<lparr>ta_RetryCount := ta_RetryCount t + 1, ta_Status := ''failed'', ta_Error := r\<rparr>) \<or>
      p' = sortQueue (enqueue (set_task (on_worker p (ta_WorkerID t) ?f) i
        (t\<lparr>ta_RetryCount := ta_RetryCount t + 1, ta_Status := ''pending'', ta_WorkerID := []\<rparr>)) i)"
    by (auto simp: FailTask_def Let_def split: option.splits if_splits)
  have tid: "ta_ID t = i" and inv1: "pool_inv (on_worker p (ta_WorkerID t) ?f)"
    using assms(1) t by (simp_all add: pool_inv_def [of p] pool_core_def)
  have failed: "pool_inv (set_task (on_worker p (ta_WorkerID t) ?f) i
      (t\<lparr>ta_RetryCount := ta_RetryCount t + 1, ta_Status := ''failed'', ta_Error := r\<rparr>))"
    by (rule pool_inv_set_task [OF inv1, where t = t]) (simp_all add: t)
  have "pool_inv (sortQueue (enqueue (set_task (on_worker p (ta_WorkerID t) ?f) i
      (t\<lparr>ta_RetryCount := ta_RetryCount t + 1, ta_Status := ''pending'', ta_WorkerID := []\<rparr>)) i))"
    by (intro pool_inv_sortQueue pool_core_enqueue) (use inv1 tid in \<open>simp_all add: pool_inv_def\<close>)
  with failed p' show ?thesis by blast
qed

lemma rebalance_loop_core: "pool_core p \<Longrightarrow> rebalance_loop p n ids = (m, p') \<Longrightarrow> pool_core p' \<and> n \<le> m \<and> (m = n \<longrightarrow> p' = p)"
proof (induction p n ids rule: rebalance_loop.induct)
  case (2 p n i ids)
  have "pool_core (enqueue (set_task p i (t\<lparr>ta_Status := ''pending'', ta_WorkerID := ''''\<rparr>)) (ta_ID t))"
    if "po_tasks p i = Some t" for t
  proof -
    have "ta_ID t = i" using that "2.prems"(1) by (simp add: pool_core_def)
    with pool_core_enqueue [OF "2.prems"(1), of "t\<lparr>ta_Status := ''pending'', ta_WorkerID := ''''\<rparr>" i] show ?thesis by simp
  qed
  with 2 show ?case by (force split: option.splits if_splits)
qed simp

lemma RebalanceTasks_inv: "pool_inv p \<Longrightarrow> RebalanceTasks ks p = (n, p') \<Longrightarrow> pool_inv p'"
  using rebalance_loop_core [of p 0 ks] by (auto simp: RebalanceTasks_def pool_inv_def [of p] intro: pool_inv_sortQueue
      split: prod.splits if_splits)

lemma stale_loop_inv: "pool_inv p \<Longrightarrow> stale_loop now limit p n ids = (m, p') \<Longrightarrow> pool_inv p'"
proof (induction now limit p n ids rule: stale_loop.induct)
  case (2 now limit p n i ids)
  have "pool_inv (set_task p i (t\<lparr>ta_Status := ''timeout''\<rparr>))" if "po_tasks p i = Some t" for t
    by (rule pool_inv_set_task [OF "2.prems"(1) that]) simp_all
  with 2 show ?case by (auto simp: Let_def split: option.splits if_splits)
qed simp

lemma offline_loop_inv: "pool_inv p \<Longrightarrow> offline_loop now limit p n ids = (m, p') \<Longrightarrow> pool_inv p'"
  by (induction now limit p n ids rule: offline_loop.induct) (auto split: option.splits if_splits)

inductive pool_step :: "Pool \<Rightarrow> Pool \<Rightarrow> bool" where
  "RegisterWorker now p i addr m = (w, p') \<Longrightarrow> pool_step p p'"
| "DeregisterWorker p i = Inr p' \<Longrightarrow> pool_step p p'"
| "Heartbeat now p i = Inr p' \<Longrightarrow> pool_step p p'"
| "SubmitTask nanos millis p agent inp outp model uc prio = (t, p') \<Longrightarrow> pool_step p p'"
| "AssignTask now p i j = Inr p' \<Longrightarrow> pool_step p p'"
| "CompleteTask now p i r = Inr p' \<Longrightarrow> pool_step p p'"
| "FailTask p i reason = Inr p' \<Longrightarrow> pool_step p p'"
| "RebalanceTasks ks p = (n, p') \<Longrightarrow> pool_step p p'"
| "DrainWorker p i = Inr p' \<Longrightarrow> pool_step p p'"
| "PruneStaleTasks ks now p timeout = (n, p') \<Longrightarrow> pool_step p p'"
| "PruneOfflineWorkers ks now p timeout = (n, p') \<Longrightarrow> pool_step p p'"

lemma pool_step_inv: "pool_step p p' \<Longrightarrow> pool_inv p \<Longrightarrow> pool_inv p'"
proof (induction rule: pool_step.induct)
  case (4 nanos millis p agent inp outp model uc prio t p')
  then show ?case
    by (auto simp: SubmitTask_def Let_def pool_inv_def [of p] intro!: pool_inv_sortQueue pool_core_enqueue)
qed (auto simp: RegisterWorker_def DeregisterWorker_def Heartbeat_def DrainWorker_def PruneStaleTasks_def
    PruneOfflineWorkers_def Let_def dest: AssignTask_inv CompleteTask_inv FailTask_inv RebalanceTasks_inv
    stale_loop_inv offline_loop_inv pool_inv_same_tasks split: option.splits if_splits)

section \<open>Properties\<close>


text \<open>A run with one worker of capacity one and one task.\<close>

definition demo1 :: Pool where
  "demo1 = snd (RegisterWorker 0 NewPool ''w'' ''addr'' 1)"

definition demo_task :: gostring where
  "demo_task = task_id ''agent'' ''in'' ''uc'' 7"

definition demo2 :: Pool where
  "demo2 = snd (SubmitTask 7 0 demo1 ''agent'' ''in'' ''out'' ''model'' ''uc'' 1)"

lemmas demo_defs = demo1_def demo2_def RegisterWorker_def SubmitTask_def NewPool_def set_worker_def set_task_def
  enqueue_def sortQueue_def Let_def


lemma select_loop_spec:
  "(case select_loop best ws of
      None \<Rightarrow> best = None \<and> (\<forall>w \<in> set ws. \<not> available w)
    | Some b \<Rightarrow> (best = Some b \<or> b \<in> set ws \<and> available b) \<and>
        (\<forall>w \<in> set ws. available w \<longrightarrow> wk_Load b \<le> wk_Load w) \<and> (\<forall>c. best = Some c \<longrightarrow> wk_Load b \<le> wk_Load c))"
proof (induction best ws rule: select_loop.induct)
  case (2 best w ws)
  show ?case
  proof (cases "available w")
    case False
    with 2 show ?thesis by (auto split: option.splits)
  next
    case True
    show ?thesis
    proof (cases best)
      case None
      with 2(2) [OF _ None] True show ?thesis by (auto split: option.splits)
    next
      case (Some c)
      with 2(3) [OF _ Some] True show ?thesis by (fastforce split: option.splits if_splits)
    qed
  qed
qed (simp split: option.splits)

text \<open>
  Worker selection. Whatever the range order, \<open>SelectWorker\<close> fails exactly when no worker
  is available (idle or busy, with spare capacity), and otherwise returns an available
  worker of the pool with the least load among the available ones.
\<close>

theorem SelectWorker_least_loaded:
  assumes "ranges ks (po_workers p)"
  shows "(case SelectWorker ks p of
     Inl e \<Rightarrow> (\<forall>w \<in> ran (po_workers p). \<not> available w)
   | Inr b \<Rightarrow> b \<in> ran (po_workers p) \<and> available b \<and> (\<forall>w \<in> ran (po_workers p). available w \<longrightarrow> wk_Load b \<le> wk_Load w))"
  using select_loop_spec [of None "range_values ks (po_workers p)"] set_range_values [OF assms]
  by (simp add: SelectWorker_def split: option.splits)

theorem SelectWorker_least_loaded_witness:
  "case SelectWorker [''w''] demo1 of Inl e \<Rightarrow> False | Inr b \<Rightarrow> available b"
proof -
  have "ranges [''w''] (po_workers demo1)" by (simp add: ranges_def demo_defs)
  from SelectWorker_least_loaded [OF this] show ?thesis
    by (simp add: demo_defs SelectWorker_def range_values_def available_def)
qed

text \<open>
  Rebalancing leaks capacity. A worker of capacity one that goes offline with a task,
  has the task taken away by \<open>RebalanceTasks\<close> and then comes back with a heartbeat is idle,
  has no task, and still counts a load of one: it is never selected again and refuses
  assignments.
\<close>

theorem rebalance_leaks_capacity:
  "\<exists>p1 p2 p3 p4 w. AssignTask 1 demo2 demo_task ''w'' = Inr p1 \<and>
     PruneOfflineWorkers [''w''] 100000 p1 1 = (1, p2) \<and> RebalanceTasks [demo_task] p2 = (1, p3) \<and>
     Heartbeat 100001 p3 ''w'' = Inr p4 \<and>
     po_workers p4 ''w'' = Some w \<and> wk_Status w = Idle \<and> wk_Load w = 1 \<and>
     (\<forall>t \<in> ran (po_tasks p4). ta_Status t \<noteq> ''assigned'') \<and>
     SelectWorker [''w''] p4 = Inl NoAvailableWorker \<and>
     AssignTask 100002 p4 demo_task ''w'' = Inl (WorkerAtMaxLoad ''w'')"
  by (simp add: demo_defs AssignTask_def PruneOfflineWorkers_def RebalanceTasks_def Heartbeat_def incLoad_def
      SelectWorker_def range_values_def available_def demo_task_def [symmetric] wrap64_small)

text \<open>
  Completing a task twice takes the load below zero, and the worker then accepts more tasks
  than its capacity.
\<close>

lemma double_completion_negative_load:
  "\<exists>p1 p2 p3. AssignTask 1 demo2 demo_task ''w'' = Inr p1 \<and> CompleteTask 2 p1 demo_task r = Inr p2 \<and>
     CompleteTask 3 p2 demo_task r = Inr p3 \<and> GetWorkerLoad p3 ''w'' = (-1, 1)"
  by (simp add: demo_defs AssignTask_def CompleteTask_def on_worker_def incLoad_def decLoad_def GetWorkerLoad_def
      demo_task_def [symmetric])

end
