(* ===== verification/Go_Float.thy ===== *)
theory Go_Float
  imports Go_Prelude
begin

text \<open>
  The bit pattern of a \<^verbatim>\<open>float64\<close>, \<^verbatim>\<open>math.Float64bits\<close> of the standard library, on the
  rationals by which the development models floating-point values: the pattern of the value
  nearest to the rational, ties to even. The lemmas show that the pattern determines every
  value that a \<^verbatim>\<open>float64\<close> can hold.
\<close>

text \<open>
  The exponent of a non-negative value, at least \<open>-1022\<close>: below \<open>2 ^ -1022\<close> the numbers are
  subnormal and share that exponent.
\<close>

fun exponent_above :: "nat \<Rightarrow> int \<Rightarrow> rat \<Rightarrow> int" where
  "exponent_above 0 e a = e"
| "exponent_above (Suc n) e a = (if 2 \<le> a then exponent_above n (e + 1) (a / 2) else e)"

definition scaled :: "rat \<Rightarrow> rat" where
  "scaled q = \<bar>q\<bar> * 2 ^ 1022"

definition exponent :: "rat \<Rightarrow> int" where
  "exponent q = exponent_above 2045 0 (scaled q)"

text \<open>The field of exponent and fraction, and the pattern with the sign bit.\<close>

definition magnitude_bits :: "rat \<Rightarrow> int" where
  "magnitude_bits q = (let e = exponent q in e * 2 ^ 52 + round_half_even (scaled q * 2 ^ 52 / 2 ^ nat e))"

definition Float64bits :: "float64 \<Rightarrow> 64 word" where
  "Float64bits q = word_of_int ((if q < 0 then 2 ^ 63 else 0) + magnitude_bits q)"

text \<open>The finite values of the type: an integer of at most 53 bits times a power of two.\<close>

definition is_float64 :: "rat \<Rightarrow> bool" where
  "is_float64 q \<longleftrightarrow> scaled q < 2 ^ 2046 \<and> scaled q * 2 ^ 52 / 2 ^ nat (exponent q) \<in> \<int>"

lemma exponent_above_bounds:
  "0 \<le> a \<Longrightarrow> e \<le> exponent_above n e a \<and> (exponent_above n e a = e \<or> 2 ^ nat (exponent_above n e a - e) \<le> a) \<and>
    (a < 2 ^ Suc n \<longrightarrow> a < 2 ^ Suc (nat (exponent_above n e a - e)))"
proof (induction n arbitrary: e a)
  case (Suc n)
  show ?case
  proof (cases "2 \<le> a")
    case True
    let ?k = "exponent_above n (e + 1) (a / 2)"
    note IH = Suc.IH [of "a / 2" "e + 1"]
    have k: "e + 1 \<le> ?k" using IH Suc.prems by simp
    then have "nat (?k - e) = Suc (nat (?k - (e + 1)))" by simp
    with IH Suc.prems True show ?thesis by (auto simp: field_simps)
  qed simp
qed simp

lemma exponent_bounds:
  assumes "scaled q < 2 ^ 2046"
  shows "0 \<le> exponent q" "exponent q = 0 \<or> 2 ^ nat (exponent q) \<le> scaled q" "scaled q < 2 * 2 ^ nat (exponent q)"
  using exponent_above_bounds [of "scaled q" 0 2045] assms by (auto simp: exponent_def scaled_def)

lemma exponent_less: "scaled q < 2 ^ 2046 \<Longrightarrow> exponent q < 2046"
proof -
  assume *: "scaled q < 2 ^ 2046"
  then have "exponent q = 0 \<or> (2 :: rat) ^ nat (exponent q) < 2 ^ 2046"
    using exponent_bounds(2) by fastforce
  then have "exponent q = 0 \<or> nat (exponent q) < 2046"
    by (metis one_less_numeral_iff power_less_imp_less_exp semiring_norm(76))
  then show "exponent q < 2046" by linarith
qed

lemma round_half_even_int: "x \<in> \<int> \<Longrightarrow> of_int (round_half_even x) = x"
  by (auto simp: round_half_even_def Let_def elim!: Ints_cases)

definition mantissa :: "rat \<Rightarrow> int" where
  "mantissa q = round_half_even (scaled q * 2 ^ 52 / 2 ^ nat (exponent q))"

lemma mantissa_exact:
  "is_float64 q \<Longrightarrow> scaled q = of_int (mantissa q) * 2 ^ nat (exponent q) / 2 ^ 52"
  using round_half_even_int [of "scaled q * 2 ^ 52 / 2 ^ nat (exponent q)"]
  by (simp add: is_float64_def mantissa_def field_simps)

lemma mantissa_bounds:
  assumes "is_float64 q"
  shows "0 \<le> mantissa q" "mantissa q < 2 * 2 ^ 52" "exponent q = 0 \<or> 2 ^ 52 \<le> mantissa q"
proof -
  let ?p = "(2 :: rat) ^ nat (exponent q)"
  have p: "0 < ?p" by simp
  have s: "scaled q * 2 ^ 52 = of_int (mantissa q) * ?p" using mantissa_exact [OF assms] by simp
  have b: "scaled q < 2 * ?p" "exponent q = 0 \<or> ?p \<le> scaled q" "0 \<le> scaled q"
    using exponent_bounds assms unfolding is_float64_def by (auto simp: scaled_def)
  have "0 \<le> of_int (mantissa q) * ?p" using b(3) s by simp
  then have "(0 :: rat) \<le> of_int (mantissa q)" using p by (simp add: zero_le_mult_iff)
  then show "0 \<le> mantissa q" by linarith
  have "of_int (mantissa q) * ?p < (2 * 2 ^ 52) * ?p" using b(1) unfolding s [symmetric] by simp
  then have "of_int (mantissa q) < (2 * 2 ^ 52 :: rat)" using p by (simp only: mult_less_cancel_right_pos)
  then have "of_int (mantissa q) < (of_int (2 * 2 ^ 52) :: rat)" by simp
  then show "mantissa q < 2 * 2 ^ 52" by (simp only: of_int_less_iff)
  have "exponent q = 0 \<or> 2 ^ 52 * ?p \<le> of_int (mantissa q) * ?p" using b(2) unfolding s [symmetric] by auto
  then have "exponent q = 0 \<or> (2 ^ 52 :: rat) \<le> of_int (mantissa q)" using p by (simp only: mult_le_cancel_right_pos)
  then have "exponent q = 0 \<or> (of_int (2 ^ 52) :: rat) \<le> of_int (mantissa q)" by simp
  then show "exponent q = 0 \<or> 2 ^ 52 \<le> mantissa q" by (simp only: of_int_le_iff)
qed

lemma magnitude_bits_range:
  assumes "is_float64 q"
  shows "0 \<le> magnitude_bits q" "magnitude_bits q < 2 ^ 63"
proof -
  have "magnitude_bits q = exponent q * 2 ^ 52 + mantissa q" by (simp add: magnitude_bits_def mantissa_def Let_def)
  moreover have "0 \<le> exponent q" "exponent q < 2046"
    using assms exponent_bounds(1) exponent_less by (auto simp: is_float64_def)
  ultimately show "0 \<le> magnitude_bits q" "magnitude_bits q < 2 ^ 63" using mantissa_bounds(1,2) [OF assms] by auto
qed

lemma magnitude_bits_inject:
  assumes "is_float64 q" "is_float64 r" "magnitude_bits q = magnitude_bits r"
  shows "\<bar>q\<bar> = \<bar>r\<bar>"
proof -
  have eq: "exponent q * 2 ^ 52 + mantissa q = exponent r * 2 ^ 52 + mantissa r"
    using assms(3) by (simp add: magnitude_bits_def mantissa_def Let_def)
  have e: "0 \<le> exponent q" "0 \<le> exponent r" using assms exponent_bounds(1) by (auto simp: is_float64_def)
  have "exponent q = exponent r"
    using eq e mantissa_bounds [OF assms(1)] mantissa_bounds [OF assms(2)] by auto
  with eq have "scaled q = scaled r" by (simp add: mantissa_exact assms(1,2))
  then show ?thesis by (simp add: scaled_def)
qed

text \<open>Equal patterns of \<^verbatim>\<open>float64\<close> values mean equal values.\<close>

lemma Float64bits_inject:
  assumes "is_float64 q" "is_float64 r"
  shows "Float64bits q = Float64bits r \<longleftrightarrow> q = r"
proof
  let ?f = "\<lambda>q. (if q < 0 then 2 ^ 63 else 0) + magnitude_bits q"
  assume "Float64bits q = Float64bits r"
  then have "(word_of_int (?f q) :: 64 word) = word_of_int (?f r)" unfolding Float64bits_def .
  then have "?f q mod 2 ^ 64 = ?f r mod 2 ^ 64" by (simp only: word_of_int_eq_iff take_bit_eq_mod len_num0 len_bit0 len_num1 mult_1_right Suc_1) simp
  moreover have "0 \<le> ?f q" "?f q < 2 ^ 64" "0 \<le> ?f r" "?f r < 2 ^ 64"
    using magnitude_bits_range [OF assms(1)] magnitude_bits_range [OF assms(2)] by (auto split: if_splits)
  ultimately have "?f q = ?f r" by simp
  then have "(q < 0) = (r < 0)" "magnitude_bits q = magnitude_bits r"
    using magnitude_bits_range [OF assms(1)] magnitude_bits_range [OF assms(2)] by (auto split: if_splits)
  with magnitude_bits_inject [OF assms] show "q = r" by (auto simp: abs_if split: if_splits)
qed simp

text \<open>The exponent of a normal value, and the patterns of 0, 1 and -2.\<close>

lemma exponent_above_small: "a < 2 \<Longrightarrow> exponent_above n e a = e"
  by (cases n) simp_all

lemma exponent_above_scale: "exponent_above (n + m) e (2 ^ n * a) = exponent_above m (e + int n) a" if "1 \<le> a"
proof (induction n arbitrary: e)
  case (Suc n)
  have "2 \<le> 2 * 2 ^ n * a" using that one_le_power [of "2 :: rat" n] mult_mono [of 1 "2 ^ n" 1 a] by simp
  then show ?case using Suc [of "e + 1"] by (simp add: mult.assoc add.assoc)
qed simp

lemma exponent_normal:
  assumes "scaled q = 2 ^ n * a" "1 \<le> a" "a < 2" "n \<le> 2045"
  shows "exponent q = int n"
  using exponent_above_scale [OF assms(2), of n "2045 - n" 0] assms(1,3,4)
  by (simp add: exponent_def exponent_above_small)

lemma Float64bits_samples:
  "Float64bits 0 = 0" "Float64bits 1 = 4607182418800017408" "Float64bits (- 2) = 13835058055282163712"
proof -
  have "exponent 0 = 0" by (simp add: exponent_def scaled_def exponent_above_small)
  then show "Float64bits 0 = 0" by (simp add: Float64bits_def magnitude_bits_def scaled_def round_half_even_def)
  have "exponent 1 = 1022" using exponent_normal [of 1 1022 1] by (simp add: scaled_def)
  then show "Float64bits 1 = 4607182418800017408"
    by (simp add: Float64bits_def magnitude_bits_def scaled_def round_half_even_def)
  have "exponent (- 2) = 1023" using exponent_normal [of "- 2" 1023 1] by (simp add: scaled_def)
  then show "Float64bits (- 2) = 13835058055282163712"
    by (simp add: Float64bits_def magnitude_bits_def scaled_def round_half_even_def)
qed

lemma is_float64_0 [simp]: "is_float64 0"
  by (simp add: is_float64_def scaled_def exponent_def exponent_above_small)

end
