(* ===== verification/Go_Time.thy ===== *)
theory Go_Time
  imports Go_Prelude
begin

text \<open>
  Instants of the standard library package \<^verbatim>\<open>time\<close>: an instant is the number of nanoseconds
  since 1 January 1970, UTC. The civil date of an instant, in the proleptic Gregorian calendar
  the package uses, and the text of the layouts the engine formats with. The lemmas show that
  the text with nanoseconds determines the instant.
\<close>

section \<open>Instants\<close>

text \<open>The zero value of \<^verbatim>\<open>time.Time\<close>, 1 January of year 1.\<close>

definition zero_time :: int where
  "zero_time = - 62135596800 * 10 ^ 9"

text \<open>
  The calendar repeats every 400 years, an era of 146097 days that begins on 1 March. The day of
  the era is split into centuries of 36524 days, cycles of four years of 1461 days and years of
  365 days, the last of each being a day longer; months are counted from March.
\<close>

definition day_of_era :: "int \<Rightarrow> int" where
  "day_of_era t = (t div (86400000000000) + 719468) mod 146097"

definition era_of :: "int \<Rightarrow> int" where
  "era_of t = (t div (86400000000000) + 719468) div 146097"

definition century_of_era :: "int \<Rightarrow> int" where
  "century_of_era doe = min 3 (doe div 36524)"

definition day_of_century :: "int \<Rightarrow> int" where
  "day_of_century doe = doe - 36524 * century_of_era doe"

definition year_of_cycle :: "int \<Rightarrow> int" where
  "year_of_cycle doe = min 3 (day_of_century doe mod 1461 div 365)"

definition year_of_era :: "int \<Rightarrow> int" where
  "year_of_era doe = 100 * century_of_era doe + 4 * (day_of_century doe div 1461) + year_of_cycle doe"

definition day_of_year :: "int \<Rightarrow> int" where
  "day_of_year doe = day_of_century doe mod 1461 - 365 * year_of_cycle doe"

definition march_month :: "int \<Rightarrow> int" where
  "march_month doe = (5 * day_of_year doe + 2) div 153"

definition civil_month :: "int \<Rightarrow> int" where
  "civil_month t = (let mp = march_month (day_of_era t) in if mp < 10 then mp + 3 else mp - 9)"

definition civil_year :: "int \<Rightarrow> int" where
  "civil_year t = year_of_era (day_of_era t) + 400 * era_of t + (if civil_month t \<le> 2 then 1 else 0)"

definition civil_day :: "int \<Rightarrow> int" where
  "civil_day t = day_of_year (day_of_era t) - (153 * march_month (day_of_era t) + 2) div 5 + 1"

definition year_month :: "int \<Rightarrow> int \<times> int" where
  "year_month t = (civil_year t, civil_month t)"

definition nanos_of_day :: "int \<Rightarrow> int" where
  "nanos_of_day t = t mod (86400000000000)"

lemma civil_samples:
  "year_month 0 = (1970, 1)" "year_month (1709164800 * 10 ^ 9) = (2024, 2)"
  "year_month (1709251200 * 10 ^ 9) = (2024, 3)" "year_month (1785024000 * 10 ^ 9) = (2026, 7)"
  "year_month zero_time = (1, 1)" "civil_day zero_time = 1" "civil_day (1709164800 * 10 ^ 9) = 29"
  "year_month (951782400 * 10 ^ 9) = (2000, 2)" "civil_day (951782400 * 10 ^ 9) = 29"
  by code_simp+

lemma century_range:
  assumes "0 \<le> doe" "doe < 146097"
  shows "0 \<le> century_of_era doe" "century_of_era doe \<le> 3" "0 \<le> day_of_century doe" "day_of_century doe < 36525"
proof -
  have d: "doe = 36524 * (doe div 36524) + doe mod 36524" "0 \<le> doe mod 36524" "doe mod 36524 < 36524" by simp_all
  with assms have "0 \<le> doe div 36524" "doe div 36524 \<le> 4" by linarith+
  with d assms show "0 \<le> century_of_era doe" "century_of_era doe \<le> 3" "0 \<le> day_of_century doe" "day_of_century doe < 36525"
    unfolding century_of_era_def day_of_century_def min_def by auto
qed

lemma cycle_range:
  assumes "0 \<le> doe" "doe < 146097"
  shows "0 \<le> day_of_century doe div 1461" "day_of_century doe div 1461 < 25"
    "0 \<le> year_of_cycle doe" "year_of_cycle doe \<le> 3" "0 \<le> day_of_year doe" "day_of_year doe \<le> 365"
proof -
  let ?r = "day_of_century doe mod 1461"
  show "0 \<le> day_of_century doe div 1461" "day_of_century doe div 1461 < 25"
    using century_range [OF assms] by linarith+
  have r: "?r = 365 * (?r div 365) + ?r mod 365" "0 \<le> ?r mod 365" "?r mod 365 < 365" "0 \<le> ?r" "?r < 1461" by simp_all
  then have "0 \<le> ?r div 365" "?r div 365 \<le> 4" by linarith+
  with r show "0 \<le> year_of_cycle doe" "year_of_cycle doe \<le> 3" "0 \<le> day_of_year doe" "day_of_year doe \<le> 365"
    unfolding year_of_cycle_def day_of_year_def min_def by auto
qed

lemma march_month_range:
  assumes "0 \<le> doe" "doe < 146097"
  shows "0 \<le> march_month doe" "march_month doe < 12"
  using cycle_range [OF assms] unfolding march_month_def by linarith+

lemma year_of_era_range:
  assumes "0 \<le> doe" "doe < 146097"
  shows "0 \<le> year_of_era doe" "year_of_era doe < 400"
  using century_range [OF assms] cycle_range [OF assms] unfolding year_of_era_def by linarith+

text \<open>Year and day of the year determine the day of the era.\<close>

lemma day_of_era_split: "doe = 36524 * century_of_era doe + 1461 * (day_of_century doe div 1461) + 365 * year_of_cycle doe + day_of_year doe"
  unfolding day_of_year_def using mult_div_mod_eq [of 1461 "day_of_century doe"] by (simp add: day_of_century_def)

lemma year_of_era_determines:
  assumes "0 \<le> a" "a < 146097" "0 \<le> b" "b < 146097"
    and "year_of_era a = year_of_era b" "day_of_year a = day_of_year b"
  shows "a = b"
proof -
  let ?q = "\<lambda>x. day_of_century x div 1461"
  note A = century_range [OF assms(1,2)] cycle_range [OF assms(1,2)]
  note B = century_range [OF assms(3,4)] cycle_range [OF assms(3,4)]
  have y: "100 * century_of_era a + 4 * ?q a + year_of_cycle a = 100 * century_of_era b + 4 * ?q b + year_of_cycle b"
    using assms(5) by (simp add: year_of_era_def)
  then have "century_of_era a = century_of_era b" using A B by linarith
  moreover from this y have "?q a = ?q b" using A B by linarith
  ultimately show ?thesis
    using day_of_era_split [of a] day_of_era_split [of b] y assms(6) by linarith
qed

lemma day_of_era_range [simp]: "0 \<le> day_of_era t" "day_of_era t < 146097"
  by (simp_all add: day_of_era_def)

text \<open>The date and the time of day determine the instant.\<close>

lemma civil_determines:
  assumes "civil_year s = civil_year t" "civil_month s = civil_month t" "civil_day s = civil_day t"
    and "nanos_of_day s = nanos_of_day t"
  shows "s = t"
proof -
  let ?d = day_of_era
  have mp: "march_month (?d s) = march_month (?d t)"
    using assms(2) march_month_range [of "?d s"] march_month_range [of "?d t"]
    by (simp add: civil_month_def Let_def split: if_splits)
  have y: "year_of_era (?d s) + 400 * era_of s = year_of_era (?d t) + 400 * era_of t"
    using assms(1,2) by (simp add: civil_year_def)
  then have era: "era_of s = era_of t"
    using year_of_era_range [of "?d s"] year_of_era_range [of "?d t"] by simp
  have "?d s = ?d t"
    by (rule year_of_era_determines) (use y era assms(3) mp in \<open>simp_all add: civil_day_def\<close>)
  moreover have "u div (86400000000000) = 146097 * era_of u + ?d u - 719468" for u
    unfolding era_of_def day_of_era_def by (simp add: mult_div_mod_eq)
  ultimately have "s div (86400000000000) = t div (86400000000000)" using era by simp
  with assms(4) show ?thesis
    unfolding nanos_of_day_def by (metis mult_div_mod_eq)
qed

lemma civil_ranges: "1 \<le> civil_month t" "civil_month t \<le> 12" "1 \<le> civil_day t" "civil_day t \<le> 31"
proof -
  let ?d = "day_of_year (day_of_era t)" and ?m = "march_month (day_of_era t)"
  note r = march_month_range [OF day_of_era_range, of t]
  show "1 \<le> civil_month t" "civil_month t \<le> 12" using r by (auto simp: civil_month_def Let_def)
  have m: "153 * ?m \<le> 5 * ?d + 2" "5 * ?d + 2 < 153 * ?m + 153"
    unfolding march_month_def by linarith+
  have "5 * ((153 * ?m + 2) div 5) \<le> 153 * ?m + 2" "153 * ?m + 2 < 5 * ((153 * ?m + 2) div 5) + 5" by linarith+
  with m show "1 \<le> civil_day t" "civil_day t \<le> 31" unfolding civil_day_def by linarith+
qed

section \<open>Text\<close>

text \<open>A number with leading zeros, as \<^verbatim>\<open>Format\<close> writes its fields, with a sign for years before 0.\<close>

definition field :: "nat \<Rightarrow> int \<Rightarrow> gostring" where
  "field w n = (if n < 0 then ''-'' else '''') @ pad_zero w (show_nat (nat \<bar>n\<bar>))"

text \<open>The date, and the time of day with \<open>w\<close> places of the second's fraction.\<close>

definition date_text :: "int \<Rightarrow> gostring" where
  "date_text t = field 4 (civil_year t) @ ''-'' @ field 2 (civil_month t) @ ''-'' @ field 2 (civil_day t)"

definition clock_text :: "int \<Rightarrow> gostring" where
  "clock_text t = (let s = nanos_of_day t div 1000000000 in
     field 2 (s div 3600) @ '':'' @ field 2 (s div 60 mod 60) @ '':'' @ field 2 (s mod 60))"

text \<open>The layout \<^verbatim>\<open>2006-01-02T15:04:05.000000000Z\<close> on an instant in UTC.\<close>

definition format_nanos :: "int \<Rightarrow> gostring" where
  "format_nanos t = date_text t @ ''T'' @ clock_text t @ ''.'' @ field 9 (t mod 1000000000) @ ''Z''"

lemma format_samples:
  "format_nanos 0 = ''1970-01-01T00:00:00.000000000Z''" "format_nanos zero_time = ''0001-01-01T00:00:00.000000000Z''"
  "format_nanos (1709164800 * 10 ^ 9 + 45296 * 10 ^ 9 + 7) = ''2024-02-29T12:34:56.000000007Z''"
  by code_simp+

text \<open>The value of a decimal text, which ignores leading zeros.\<close>

fun dec_value :: "nat \<Rightarrow> gostring \<Rightarrow> nat" where
  "dec_value acc [] = acc"
| "dec_value acc (c # cs) = dec_value (10 * acc + (of_char c - 48)) cs"

lemma dec_value_append: "dec_value acc (xs @ ys) = dec_value (dec_value acc xs) ys"
  by (induction xs arbitrary: acc) simp_all

lemma of_dec_digit: "n < 10 \<Longrightarrow> of_char (dec_digit n) - 48 = n"
proof -
  assume "n < 10"
  then have "n \<in> set [0..<10]" by simp
  moreover have "\<forall>n \<in> set [0..<10]. of_char (dec_digit n) - 48 = n" by code_simp
  ultimately show ?thesis by blast
qed

lemma dec_value_show_nat: "dec_value 0 (show_nat n) = n"
proof (induction n rule: show_nat.induct)
  case (1 n)
  then show ?case by (subst show_nat.simps) (auto simp: dec_value_append of_dec_digit)
qed

lemma dec_value_zeros: "dec_value 0 (replicate k CHR ''0'' @ s) = dec_value 0 s"
  by (induction k) simp_all

lemma dec_value_pad: "dec_value 0 (pad_zero w (show_nat n)) = n"
  by (simp add: pad_zero_def dec_value_zeros dec_value_show_nat)

lemma show_nat_no_sign: "CHR ''-'' \<notin> set (show_nat n)"
  using set_show_nat [of n] by auto

lemma field_no_sign: "CHR ''-'' \<notin> set (pad_zero w (show_nat n))"
  by (simp add: pad_zero_def show_nat_no_sign)

lemma field_inject: "field w m = field w n \<longleftrightarrow> m = n"
proof
  assume *: "field w m = field w n"
  have sign: "(k < 0) = (CHR ''-'' \<in> set (field w k))" for k by (simp add: field_def field_no_sign)
  have "(m < 0) = (n < 0)" using sign [of m] sign [of n] * by simp
  with * have "pad_zero w (show_nat (nat \<bar>m\<bar>)) = pad_zero w (show_nat (nat \<bar>n\<bar>))" by (auto simp: field_def split: if_splits)
  then have "nat \<bar>m\<bar> = nat \<bar>n\<bar>" by (metis dec_value_pad)
  with \<open>(m < 0) = (n < 0)\<close> show "m = n" by (cases "m < 0") auto
qed simp

lemma length_show_nat: "n < 10 ^ Suc k \<Longrightarrow> length (show_nat n) \<le> Suc k"
proof (induction k arbitrary: n)
  case (Suc k)
  have "n div 10 < 10 ^ Suc k" using Suc.prems by (simp add: div_less_iff_less_mult)
  then show ?case using Suc.IH [of "n div 10"] by (subst show_nat.simps) simp
qed (subst show_nat.simps, simp)

lemma length_field: "0 \<le> n \<Longrightarrow> n < 10 ^ Suc k \<Longrightarrow> length (field (Suc k) n) = Suc k"
  using length_show_nat [of "nat n" k] by (simp add: field_def pad_zero_def nat_less_iff)

lemma length_field2: "0 \<le> n \<Longrightarrow> n < 100 \<Longrightarrow> length (field 2 n) = 2"
  using length_field [of n 1] by (simp add: numeral_2_eq_2)

definition second_of_day :: "int \<Rightarrow> int" where
  "second_of_day t = nanos_of_day t div 1000000000"

lemma second_of_day_range: "0 \<le> second_of_day t" "second_of_day t < 86400"
proof -
  have "0 \<le> nanos_of_day t" "nanos_of_day t < 86400000000000" by (simp_all add: nanos_of_day_def)
  then show "0 \<le> second_of_day t" "second_of_day t < 86400" unfolding second_of_day_def by linarith+
qed

lemma clock_text_eq:
  "clock_text t = (let s = second_of_day t in field 2 (s div 3600) @ '':'' @ field 2 (s div 60 mod 60) @ '':'' @ field 2 (s mod 60))"
  by (simp add: clock_text_def second_of_day_def)

lemma length_clock_fields:
  "length (field 2 (second_of_day t div 3600)) = 2" "length (field 2 (second_of_day t div 60 mod 60)) = 2"
  "length (field 2 (second_of_day t mod 60)) = 2"
proof -
  have "second_of_day t div 3600 < 100" "0 \<le> second_of_day t div 3600" using second_of_day_range [of t] by linarith+
  then show "length (field 2 (second_of_day t div 3600)) = 2" by (simp add: length_field2)
  have b: "0 \<le> k mod 60" "k mod 60 < 100" for k :: int using pos_mod_bound [of 60 k] by simp_all
  show "length (field 2 (second_of_day t div 60 mod 60)) = 2" "length (field 2 (second_of_day t mod 60)) = 2"
    by (rule length_field2 [OF b])+
qed

lemma length_clock_text: "length (clock_text t) = 8"
  by (simp add: clock_text_eq Let_def length_clock_fields)

lemma second_of_day_split: "s = (s div 3600 * 60 + s div 60 mod 60) * 60 + s mod 60" for s :: int
proof -
  have "s div (60 * 60) = s div 60 div 60" by (rule zdiv_zmult2_eq) simp
  then have "s div 60 div 60 = s div 3600" by simp
  then have "s div 60 = s div 3600 * 60 + s div 60 mod 60" using div_mult_mod_eq [of "s div 60" 60] by metis
  then show ?thesis using div_mult_mod_eq [of s 60] by metis
qed

lemma nanos_of_day_split: "nanos_of_day t = second_of_day t * 1000000000 + t mod 1000000000"
proof -
  have "nanos_of_day t mod 1000000000 = t mod 1000000000" unfolding nanos_of_day_def by (simp add: mod_mod_cancel)
  then show ?thesis unfolding second_of_day_def using div_mult_mod_eq [of "nanos_of_day t" 1000000000] by simp
qed

lemma clock_text_inject:
  assumes "clock_text t = clock_text u" "t mod 1000000000 = u mod 1000000000"
  shows "nanos_of_day t = nanos_of_day u"
proof -
  have "second_of_day t div 3600 = second_of_day u div 3600" "second_of_day t div 60 mod 60 = second_of_day u div 60 mod 60"
    "second_of_day t mod 60 = second_of_day u mod 60"
    using assms(1) by (simp_all add: clock_text_eq Let_def append_eq_append_conv length_clock_fields field_inject)
  then have "second_of_day t = second_of_day u" by (metis second_of_day_split)
  with assms(2) show ?thesis by (simp add: nanos_of_day_split)
qed

text \<open>The text with nanoseconds determines the instant.\<close>

lemma date_text_inject:
  "date_text t = date_text u \<longleftrightarrow> civil_year t = civil_year u \<and> civil_month t = civil_month u \<and> civil_day t = civil_day u"
proof
  have len: "length (field 2 (civil_month v)) = 2" "length (field 2 (civil_day v)) = 2" for v
    using civil_ranges [of v] by (simp_all add: length_field2)
  assume "date_text t = date_text u"
  then show "civil_year t = civil_year u \<and> civil_month t = civil_month u \<and> civil_day t = civil_day u"
    by (simp add: date_text_def append_eq_append_conv len field_inject)
qed (simp add: date_text_def)

lemma format_nanos_inject: "format_nanos t = format_nanos u \<longleftrightarrow> t = u"
proof
  let ?f = "\<lambda>v :: int. field 9 (v mod 1000000000)"
  let ?r = "\<lambda>v. ''T'' @ clock_text v @ ''.'' @ ?f v @ ''Z''"
  assume "format_nanos t = format_nanos u"
  then have eq: "date_text t @ ?r t = date_text u @ ?r u" unfolding format_nanos_def .
  have f: "length (?f v) = 9" for v
  proof -
    have "v mod 1000000000 < 10 ^ Suc 8" by simp
    from length_field [OF _ this] show ?thesis by simp
  qed
  then have r: "length (?r t) = length (?r u)" by (simp add: length_clock_text)
  with eq have "date_text t = date_text u \<and> ?r t = ?r u"
    using append_eq_append_conv [of "date_text t" "date_text u" "?r t" "?r u"] by blast
  then have d: "date_text t = date_text u" and "clock_text t @ ''.'' @ ?f t @ ''Z'' = clock_text u @ ''.'' @ ?f u @ ''Z''"
    by simp_all
  then have c: "clock_text t = clock_text u" and "?f t = ?f u"
    by (simp_all add: append_eq_append_conv length_clock_text)
  then have "t mod 1000000000 = u mod 1000000000" by (simp only: field_inject)
  from clock_text_inject [OF c this] d show "t = u" unfolding date_text_inject by (blast intro: civil_determines)
qed simp

text \<open>The layouts \<^verbatim>\<open>RFC3339\<close> and \<^verbatim>\<open>RFC3339Nano\<close>; the latter drops trailing zeros of the fraction.\<close>

definition format_RFC3339 :: "int \<Rightarrow> gostring" where
  "format_RFC3339 t = date_text t @ ''T'' @ clock_text t @ ''Z''"

definition format_RFC3339Nano :: "int \<Rightarrow> gostring" where
  "format_RFC3339Nano t =
     (let frac = rev (dropWhile (\<lambda>c. c = CHR ''0'') (rev (field 9 (t mod 1000000000))))
      in date_text t @ ''T'' @ clock_text t @ (if frac = [] then [] else CHR ''.'' # frac) @ ''Z'')"

lemma strip_eq: "us = replicate (length us - length (dropWhile (\<lambda>c. c = z) us)) z @ dropWhile (\<lambda>c. c = z) us"
  by (induction us) (simp_all add: Suc_diff_le length_dropWhile_le)

lemma strip_inject:
  assumes "length xs = length ys" "dropWhile (\<lambda>c. c = z) (rev xs) = dropWhile (\<lambda>c. c = z) (rev ys)"
  shows "xs = ys"
proof -
  have "rev xs = rev ys" using strip_eq [of "rev xs" z] strip_eq [of "rev ys" z] assms by simp
  then show ?thesis by simp
qed

lemma format_RFC3339Nano_inject: "format_RFC3339Nano t = format_RFC3339Nano u \<longleftrightarrow> t = u"
proof
  let ?f = "\<lambda>v :: int. field 9 (v mod 1000000000)"
  define s where "s v = dropWhile (\<lambda>c. c = CHR ''0'') (rev (?f v))" for v
  define r where "r v = (if s v = [] then [] else CHR ''.'' # rev (s v)) @ ''Z''" for v
  assume "format_RFC3339Nano t = format_RFC3339Nano u"
  then have eq: "date_text t @ CHR ''T'' # clock_text t @ r t = date_text u @ CHR ''T'' # clock_text u @ r u"
    unfolding format_RFC3339Nano_def Let_def r_def s_def by (simp only: append_Cons append_Nil rev_is_Nil_conv)
  have "CHR ''T'' \<notin> set (field w n)" for w n using set_show_nat [of "nat \<bar>n\<bar>"] by (auto simp: field_def pad_zero_def)
  then have noT: "CHR ''T'' \<notin> set (date_text v)" for v by (simp add: date_text_def)
  then have tw: "takeWhile (\<lambda>c. c \<noteq> CHR ''T'') (date_text v @ CHR ''T'' # z) = date_text v" for v z
    by (subst takeWhile_append2) auto
  have d: "date_text t = date_text u" using arg_cong [OF eq, of "takeWhile (\<lambda>c. c \<noteq> CHR ''T'')"] unfolding tw .
  have "clock_text t @ r t = clock_text u @ r u" using eq unfolding d by simp
  then have c: "clock_text t = clock_text u" and "r t = r u" by (simp_all add: append_eq_append_conv length_clock_text)
  then have "s t = s u" by (auto simp: r_def split: if_splits)
  then have z: "dropWhile (\<lambda>c. c = CHR ''0'') (rev (?f t)) = dropWhile (\<lambda>c. c = CHR ''0'') (rev (?f u))" unfolding s_def .
  have l: "length (?f v) = 9" for v
  proof -
    have "v mod 1000000000 < 10 ^ Suc 8" by simp
    from length_field [OF _ this] show ?thesis by simp
  qed
  have "length (?f t) = length (?f u)" unfolding l ..
  from strip_inject [OF this z] have "t mod 1000000000 = u mod 1000000000" by (simp only: field_inject)
  from clock_text_inject [OF c this] d show "t = u" unfolding date_text_inject by (blast intro: civil_determines)
qed simp

end
