(* ===== verification/Go_Encoding.thy ===== *)
theory Go_Encoding
  imports Go_Prelude
begin

text \<open>
  The encodings of the standard library that more than one component uses: base64 with padding,
  \<^verbatim>\<open>base64.StdEncoding\<close>, and length-prefixed fields with 32-bit lengths. The lemmas show the
  round trip of the former, and that texts made of length-prefixed and fixed-size fields can be
  cut apart in one way only.
\<close>

section \<open>Base64\<close>

definition b64_alphabet :: string where
  "b64_alphabet = ''ABCDEFGHIJKLMNOPQRSTUVWXYZabcdefghijklmnopqrstuvwxyz0123456789+/''"

definition b64_digit :: "nat \<Rightarrow> char" where
  "b64_digit n = b64_alphabet ! n"

fun base64_encode :: "bytes \<Rightarrow> gostring" where
  "base64_encode [] = []"
| "base64_encode [a] =
     (let x = of_char a :: nat in [b64_digit (x div 4), b64_digit (x mod 4 * 16), CHR ''='', CHR ''=''])"
| "base64_encode [a, b] =
     (let x = of_char a :: nat; y = of_char b :: nat in
      [b64_digit (x div 4), b64_digit (x mod 4 * 16 + y div 16), b64_digit (y mod 16 * 4), CHR ''=''])"
| "base64_encode (a # b # c # r) =
     (let x = of_char a :: nat; y = of_char b :: nat; z = of_char c :: nat in
      [b64_digit (x div 4), b64_digit (x mod 4 * 16 + y div 16), b64_digit (y mod 16 * 4 + z div 64), b64_digit (z mod 64)]
        @ base64_encode r)"

definition unb64 :: "char \<Rightarrow> nat option" where
  "unb64 = map_of (zip b64_alphabet [0..<64])"

text \<open>
  Groups of four digits; padding ends the text, and bits that do not fill a byte are ignored, as
  the encoding is not in its strict mode.
\<close>

fun b64_groups :: "gostring \<Rightarrow> bytes option" where
  "b64_groups [] = Some []"
| "b64_groups (c # d # e # f # r) =
     (case (unb64 c, unb64 d) of
        (Some p, Some q) \<Rightarrow>
          if e = CHR ''='' then if f = CHR ''='' \<and> r = [] then Some [char_of (p * 4 + q div 16)] else None
          else (case unb64 e of
                  None \<Rightarrow> None
                | Some s \<Rightarrow>
                    if f = CHR ''='' then if r = [] then Some [char_of (p * 4 + q div 16), char_of (q mod 16 * 16 + s div 4)] else None
                    else (case (unb64 f, b64_groups r) of
                            (Some t, Some bs) \<Rightarrow>
                              Some (char_of (p * 4 + q div 16) # char_of (q mod 16 * 16 + s div 4) # char_of (s mod 4 * 64 + t) # bs)
                          | _ \<Rightarrow> None))
      | _ \<Rightarrow> None)"
| "b64_groups _ = None"

text \<open>Line breaks are skipped.\<close>

definition base64_decode :: "gostring \<Rightarrow> bytes option" where
  "base64_decode s = b64_groups (filter (\<lambda>c. c \<noteq> CHR 0x0A \<and> c \<noteq> CHR 0x0D) s)"

lemma b64_digit_facts:
  assumes "n < 64"
  shows "unb64 (b64_digit n) = Some n \<and> b64_digit n \<noteq> CHR ''='' \<and> b64_digit n \<noteq> CHR 0x0A \<and> b64_digit n \<noteq> CHR 0x0D"
proof -
  have len: "length b64_alphabet = 64" and dist: "distinct b64_alphabet"
    and no: "CHR ''='' \<notin> set b64_alphabet" "CHR 0x0A \<notin> set b64_alphabet" "CHR 0x0D \<notin> set b64_alphabet"
    by (simp_all add: b64_alphabet_def)
  have "unb64 (b64_digit n) = Some n"
    using map_of_zip_nth [OF _ dist, of "[0..<64]" n] assms len by (simp add: unb64_def b64_digit_def)
  moreover have "b64_digit n \<in> set b64_alphabet" unfolding b64_digit_def by (rule nth_mem) (simp add: len assms)
  ultimately show ?thesis using no by auto
qed

lemma b64_group_values:
  fixes x y z :: nat
  assumes "x < 256" "y < 256" "z < 256"
  shows "x div 4 < 64" "x mod 4 * 16 < 64" "x mod 4 * 16 + y div 16 < 64" "y mod 16 * 4 < 64" "y mod 16 * 4 + z div 64 < 64"
    "x div 4 * 4 + (x mod 4 * 16 + y div 16) div 16 = x" "x div 4 * 4 + x mod 4 * 16 div 16 = x"
    "(x mod 4 * 16 + y div 16) mod 16 * 16 + (y mod 16 * 4 + z div 64) div 4 = y"
    "(x mod 4 * 16 + y div 16) mod 16 * 16 + y mod 16 * 4 div 4 = y"
    "(y mod 16 * 4 + z div 64) mod 4 * 64 + z mod 64 = z"
proof -
  have b: "x div 4 < 64" "y div 16 < 16" "z div 64 < 4" using assms by (simp_all add: div_less_iff_less_mult)
  have m: "x mod 4 < 4" "y mod 16 < 16" "z mod 64 < 64" by simp_all
  show "x div 4 < 64" by (rule b)
  show "x mod 4 * 16 < 64" "x mod 4 * 16 + y div 16 < 64" "y mod 16 * 4 < 64" "y mod 16 * 4 + z div 64 < 64" using b m by linarith+
  have "(x mod 4 * 16 + y div 16) div 16 = x mod 4" "(x mod 4 * 16 + y div 16) mod 16 = y div 16" using b by simp_all
  moreover have "(y mod 16 * 4 + z div 64) div 4 = y mod 16" "(y mod 16 * 4 + z div 64) mod 4 = z div 64" using b by simp_all
  ultimately show "x div 4 * 4 + (x mod 4 * 16 + y div 16) div 16 = x" "x div 4 * 4 + x mod 4 * 16 div 16 = x"
    "(x mod 4 * 16 + y div 16) mod 16 * 16 + (y mod 16 * 4 + z div 64) div 4 = y"
    "(x mod 4 * 16 + y div 16) mod 16 * 16 + y mod 16 * 4 div 4 = y"
    "(y mod 16 * 4 + z div 64) mod 4 * 64 + z mod 64 = z"
    by simp_all
qed

lemma b64_groups_encode: "b64_groups (base64_encode b) = Some b"
proof (induction b rule: base64_encode.induct)
  case (2 a)
  note v = b64_group_values [of "of_char a" 0 0]
  show ?case using v b64_digit_facts [OF v(1)] b64_digit_facts [OF v(2)] by (simp add: Let_def)
next
  case (3 a b)
  note v = b64_group_values [of "of_char a" "of_char b" 0]
  show ?case using v b64_digit_facts [OF v(1)] b64_digit_facts [OF v(3)] b64_digit_facts [OF v(4)] by (simp add: Let_def)
next
  case (4 a b c r)
  note v = b64_group_values [of "of_char a" "of_char b" "of_char c"]
  show ?case
    using 4 v b64_digit_facts [OF v(1)] b64_digit_facts [OF v(3)] b64_digit_facts [OF v(5)] b64_digit_facts [of "of_char c mod 64"]
    by (simp add: Let_def)
qed simp

lemma base64_encode_no_breaks: "filter (\<lambda>c. c \<noteq> CHR 0x0A \<and> c \<noteq> CHR 0x0D) (base64_encode b) = base64_encode b"
proof (induction b rule: base64_encode.induct)
  case (2 a)
  note v = b64_group_values [of "of_char a" 0 0]
  show ?case using b64_digit_facts [OF v(1)] b64_digit_facts [OF v(2)] by (simp add: Let_def)
next
  case (3 a b)
  note v = b64_group_values [of "of_char a" "of_char b" 0]
  show ?case using b64_digit_facts [OF v(1)] b64_digit_facts [OF v(3)] b64_digit_facts [OF v(4)] by (simp add: Let_def)
next
  case (4 a b c r)
  note v = b64_group_values [of "of_char a" "of_char b" "of_char c"]
  show ?case
    using 4 b64_digit_facts [OF v(1)] b64_digit_facts [OF v(3)] b64_digit_facts [OF v(5)] b64_digit_facts [of "of_char c mod 64"]
    by (simp add: Let_def)
qed simp

text \<open>What is encoded is decoded as it was.\<close>

lemma base64_roundtrip [simp]: "base64_decode (base64_encode b) = Some b"
  by (simp add: base64_decode_def base64_encode_no_breaks b64_groups_encode)

section \<open>Length-prefixed fields\<close>

definition lp32 :: "bytes \<Rightarrow> bytes" where
  "lp32 b = be32 (word_of_int (int (length b))) @ b"

definition small32 :: "'a list \<Rightarrow> bool" where
  "small32 b \<longleftrightarrow> length b < 2 ^ 32"

lemma be32_inject: "be32 v = be32 w \<longleftrightarrow> v = w"
proof
  let ?d = "\<lambda>n :: int. map (\<lambda>i. byte (n div 256 ^ i)) (rev [0..<4])"
  have r: "rev [0..<4] = [3, 2, 1, 0 :: nat]" by code_simp
  have d: "be32 u = ?d (uint u)" for u unfolding r be32_def Let_def by simp
  assume "be32 v = be32 w"
  then have "?d (uint v) = ?d (uint w)" by (simp only: d)
  then have "uint v mod 256 ^ 4 = uint w mod 256 ^ 4" using read_be_digits [of 0 _ 4] by (metis add_0 mult_zero_left)
  moreover have "uint v < 2 ^ 32" "uint w < 2 ^ 32" using uint_lt2p [of v] uint_lt2p [of w] by simp_all
  ultimately show "v = w" by (simp add: word_uint_eq_iff)
qed simp

lemma be32_length_inject:
  assumes "be32 (word_of_int (int (length a))) = be32 (word_of_int (int (length b)))" "small32 a" "small32 b"
  shows "length a = length b"
proof -
  have "(word_of_int (int (length a)) :: 32 word) = word_of_int (int (length b))" using assms(1) by (simp only: be32_inject)
  then have "int (length a) mod 2 ^ 32 = int (length b) mod 2 ^ 32"
    by (simp only: word_of_int_eq_iff take_bit_eq_mod len_num0 len_bit0 len_num1 mult_1_right Suc_1) simp
  moreover have "int (length a) < 2 ^ 32" "int (length b) < 2 ^ 32" using assms(2,3) by (simp_all add: small32_def)
  ultimately show ?thesis by simp
qed

lemma lp32_inject:
  assumes "lp32 a @ r = lp32 b @ s" "small32 a" "small32 b"
  shows "a = b" "r = s"
proof -
  have "be32 (word_of_int (int (length a))) @ a @ r = be32 (word_of_int (int (length b))) @ b @ s" using assms(1) by (simp add: lp32_def)
  then have *: "be32 (word_of_int (int (length a))) = be32 (word_of_int (int (length b)))" "a @ r = b @ s"
    by (simp_all add: append_eq_append_conv)
  with be32_length_inject [OF *(1) assms(2,3)] show "a = b" "r = s" by (simp_all add: append_eq_append_conv)
qed

text \<open>
  A code is self-delimiting on \<open>P\<close> when its words can be told from what follows; lists of known
  length of such words can be cut apart too.
\<close>

definition self_delimiting :: "('a \<Rightarrow> bool) \<Rightarrow> ('a \<Rightarrow> bytes) \<Rightarrow> bool" where
  "self_delimiting P enc \<longleftrightarrow> (\<forall>x y r s. P x \<longrightarrow> P y \<longrightarrow> enc x @ r = enc y @ s \<longrightarrow> x = y \<and> r = s)"

lemma self_delimiting_lp32: "self_delimiting small32 lp32"
  using lp32_inject unfolding self_delimiting_def by blast

lemma self_delimiting_list:
  assumes "self_delimiting P enc" "concat (map enc xs) @ r = concat (map enc ys) @ s" "length xs = length ys"
    and "list_all P xs" "list_all P ys"
  shows "xs = ys \<and> r = s"
  using assms(2-5)
proof (induction xs arbitrary: ys)
  case (Cons x xs)
  then obtain y ys' where ys: "ys = y # ys'" by (cases ys) auto
  have "enc x @ concat (map enc xs) @ r = enc y @ concat (map enc ys') @ s" using Cons.prems(1) ys by simp
  then have "x = y" "concat (map enc xs) @ r = concat (map enc ys') @ s"
    using assms(1) Cons.prems(3,4) ys unfolding self_delimiting_def by auto
  with Cons.IH [of ys'] Cons.prems ys show ?case by simp
qed simp

end
