(* ===== verification/Pq.thy ===== *)
theory Pq
  imports Go_Prelude
begin

text \<open>
  The signature primitives of \<^verbatim>\<open>engine/internal/crypto/pq.go\<close>: the wrappers of Ed25519 and
  ML-DSA-65, the Lamport one-time signature over SHA-256 and the hybrid signature. The two
  signature libraries are a parameter, the record \<open>sig_lib\<close>, and what the code relies on is
  the predicate \<open>lib_ok\<close>: a signature under a generated key verifies under its public half and
  has the documented size, and key encodings can be read back. Randomness is an argument.
\<close>

section \<open>The signature libraries\<close>

datatype crypto_error =
  errInvalidKeyLength
| errInvalidSignature
| ErrCrypto gostring
| WrapCrypto gostring crypto_error

record ('sk, 'pk) sig_lib =
  ed_pair :: "bytes \<Rightarrow> bytes \<Rightarrow> bool"
  ed_Sign :: "bytes \<Rightarrow> bytes \<Rightarrow> bytes"
  ed_Verify :: "bytes \<Rightarrow> bytes \<Rightarrow> bytes \<Rightarrow> bool"
  ml_pair :: "'sk \<Rightarrow> 'pk \<Rightarrow> bool"
  ml_SignTo :: "'sk \<Rightarrow> bytes \<Rightarrow> bytes option"
  ml_Verify :: "'pk \<Rightarrow> bytes \<Rightarrow> bytes \<Rightarrow> bool"
  ml_MarshalPriv :: "'sk \<Rightarrow> bytes option"
  ml_UnmarshalPriv :: "bytes \<Rightarrow> 'sk option"
  ml_MarshalPub :: "'pk \<Rightarrow> bytes"
  ml_UnmarshalPub :: "bytes \<Rightarrow> 'pk option"

definition PrivateKeySize :: nat where "PrivateKeySize = 64"

definition PublicKeySize :: nat where "PublicKeySize = 32"

definition SignatureSize :: nat where "SignatureSize = 64"

definition ml_SignatureSize :: nat where "ml_SignatureSize = 3309"

lemmas size_defs = PrivateKeySize_def PublicKeySize_def SignatureSize_def ml_SignatureSize_def

text \<open>
  \<open>ed_pair\<close> and \<open>ml_pair\<close> hold of the key pairs that the libraries generate. The laws are the
  documented behaviour of \<^verbatim>\<open>crypto/ed25519\<close> and \<^verbatim>\<open>circl/sign/mldsa/mldsa65\<close>.
\<close>

definition ed_ok :: "('sk, 'pk) sig_lib \<Rightarrow> bool" where
  "ed_ok L \<longleftrightarrow> (\<forall>sk pk. ed_pair L sk pk \<longrightarrow> length sk = PrivateKeySize \<and> length pk = PublicKeySize \<and>
     (\<forall>m. length (ed_Sign L sk m) = SignatureSize \<and> ed_Verify L pk m (ed_Sign L sk m)))"

definition ml_ok :: "('sk, 'pk) sig_lib \<Rightarrow> bool" where
  "ml_ok L \<longleftrightarrow> (\<forall>sk pk. ml_pair L sk pk \<longrightarrow>
     (\<forall>m. \<exists>s. ml_SignTo L sk m = Some s \<and> length s = ml_SignatureSize \<and> ml_Verify L pk m s))"

definition encoding_ok :: "('sk, 'pk) sig_lib \<Rightarrow> bool" where
  "encoding_ok L \<longleftrightarrow> (\<forall>pk. ml_UnmarshalPub L (ml_MarshalPub L pk) = Some pk) \<and>
     (\<forall>sk. \<exists>b. b \<noteq> [] \<and> ml_MarshalPriv L sk = Some b \<and> ml_UnmarshalPriv L b = Some sk)"

definition lib_ok :: "('sk, 'pk) sig_lib \<Rightarrow> bool" where
  "lib_ok L \<longleftrightarrow> ed_ok L \<and> ml_ok L \<and> encoding_ok L"

lemma ed_okD:
  assumes "lib_ok L" "ed_pair L sk pk"
  shows "length sk = PrivateKeySize" "length pk = PublicKeySize" "length (ed_Sign L sk m) = SignatureSize"
    "ed_Verify L pk m (ed_Sign L sk m)"
  using assms by (auto simp: lib_ok_def ed_ok_def)

lemma ml_okE:
  assumes "lib_ok L" "ml_pair L sk pk"
  obtains s where "ml_SignTo L sk m = Some s" "length s = ml_SignatureSize" "ml_Verify L pk m s"
  using assms unfolding lib_ok_def ml_ok_def by blast

lemma encoding_okD:
  assumes "lib_ok L"
  shows "ml_UnmarshalPub L (ml_MarshalPub L pk) = Some pk"
    "\<exists>b. b \<noteq> [] \<and> ml_MarshalPriv L sk = Some b \<and> ml_UnmarshalPriv L b = Some sk"
  using assms by (auto simp: lib_ok_def encoding_ok_def)

section \<open>Classic and ML-DSA signatures\<close>

definition SignClassic :: "('sk, 'pk) sig_lib \<Rightarrow> bytes \<Rightarrow> bytes \<Rightarrow> crypto_error + bytes" where
  "SignClassic L privateKey message =
     (if length privateKey \<noteq> PrivateKeySize then Inl errInvalidKeyLength else Inr (ed_Sign L privateKey message))"

definition VerifyClassic :: "('sk, 'pk) sig_lib \<Rightarrow> bytes \<Rightarrow> bytes \<Rightarrow> bytes \<Rightarrow> crypto_error + bool" where
  "VerifyClassic L publicKey message signature =
     (if length publicKey \<noteq> PublicKeySize then Inl errInvalidKeyLength
      else if length signature \<noteq> SignatureSize then Inl errInvalidSignature
      else Inr (ed_Verify L publicKey message signature))"

definition SignMLDSA :: "('sk, 'pk) sig_lib \<Rightarrow> 'sk option \<Rightarrow> bytes \<Rightarrow> crypto_error + bytes" where
  "SignMLDSA L privateKey message =
     (case privateKey of None \<Rightarrow> Inl errInvalidKeyLength
      | Some sk \<Rightarrow> (case ml_SignTo L sk message of
          None \<Rightarrow> Inl (WrapCrypto ''mldsa65 sign'' (ErrCrypto ''SignTo''))
        | Some sig \<Rightarrow> Inr sig))"

definition VerifyMLDSA :: "('sk, 'pk) sig_lib \<Rightarrow> 'pk option \<Rightarrow> bytes \<Rightarrow> bytes \<Rightarrow> crypto_error + bool" where
  "VerifyMLDSA L publicKey message signature =
     (case publicKey of None \<Rightarrow> Inl errInvalidKeyLength
      | Some pk \<Rightarrow> if length signature \<noteq> ml_SignatureSize then Inl errInvalidSignature
                  else Inr (ml_Verify L pk message signature))"

section \<open>Lamport one-time signatures\<close>

text \<open>
  A key is an array of 256 pairs of 32-byte blocks. \<open>lamport_key\<close> says that a list has that
  shape, which the array type enforces in the code.
\<close>

definition lamportDigestBits :: nat where "lamportDigestBits = 256"

definition lamportKeySize :: nat where "lamportKeySize = 16384"

type_synonym lamport_array = "(bytes \<times> bytes) list"

definition lamport_key :: "lamport_array \<Rightarrow> bool" where
  "lamport_key k \<longleftrightarrow> length k = lamportDigestBits \<and> (\<forall>p \<in> set k. length (fst p) = 32 \<and> length (snd p) = 32)"

definition Lamport_Bytes :: "lamport_array \<Rightarrow> bytes" where
  "Lamport_Bytes k = concat (map (\<lambda>p. fst p @ snd p) k)"

definition LamportKeyFromBytes :: "bytes \<Rightarrow> crypto_error + lamport_array" where
  "LamportKeyFromBytes b =
     (if length b \<noteq> lamportKeySize then Inl errInvalidKeyLength
      else Inr (map (\<lambda>i. (take 32 (drop (i * 2 * 32) b), take 32 (drop (i * 2 * 32 + 32) b))) [0..<lamportDigestBits]))"

text \<open>Key generation from the preimages read from the random source, one pair per bit; \<open>None\<close> when a read fails.\<close>

definition GenerateLamportKeyPair :: "lamport_array option \<Rightarrow> crypto_error + lamport_array \<times> lamport_array" where
  "GenerateLamportKeyPair preimages =
     (case preimages of
        None \<Rightarrow> Inl (WrapCrypto ''failed to generate lamport key material'' (ErrCrypto ''rand''))
      | Some priv \<Rightarrow> Inr (priv, map (\<lambda>p. (sha256 (fst p), sha256 (snd p))) priv))"

definition digest_bit :: "bytes \<Rightarrow> nat \<Rightarrow> bool" where
  "digest_bit digest i = odd ((of_char (digest ! (i div 8)) :: nat) div 2 ^ (7 - i mod 8))"

definition pick :: "lamport_array \<Rightarrow> nat \<Rightarrow> bool \<Rightarrow> bytes" where
  "pick k i b = (if b then snd (k ! i) else fst (k ! i))"

definition SignSPHINCS :: "lamport_array option \<Rightarrow> bytes \<Rightarrow> crypto_error + bytes" where
  "SignSPHINCS privateKey message =
     (case privateKey of None \<Rightarrow> Inl errInvalidKeyLength
      | Some priv \<Rightarrow> let digest = sha256 message in
          Inr (concat (map (\<lambda>i. pick priv i (digest_bit digest i)) [0..<lamportDigestBits])))"

definition VerifySPHINCS :: "lamport_array option \<Rightarrow> bytes \<Rightarrow> bytes \<Rightarrow> crypto_error + bool" where
  "VerifySPHINCS publicKey message signature =
     (case publicKey of None \<Rightarrow> Inl errInvalidKeyLength
      | Some pub \<Rightarrow>
          if length signature \<noteq> lamportDigestBits * 32 then Inl errInvalidSignature
          else let digest = sha256 message in
            Inr (list_all (\<lambda>i. sha256 (take 32 (drop (i * 32) signature)) = pick pub i (digest_bit digest i))
              [0..<lamportDigestBits]))"

section \<open>Hybrid signatures\<close>

record HybridSignature =
  ClassicSig :: bytes
  PQSig :: bytes

definition be16 :: "nat \<Rightarrow> bytes" where
  "be16 n = [byte (int n div 256), byte (int n)]"

definition Hybrid_Marshal :: "HybridSignature \<Rightarrow> crypto_error + bytes" where
  "Hybrid_Marshal hs =
     (if length (ClassicSig hs) > 65535 \<or> length (PQSig hs) > 65535 then Inl errInvalidSignature
      else Inr (byte 1 # be16 (length (ClassicSig hs)) @ ClassicSig hs @ be16 (length (PQSig hs)) @ PQSig hs))"

definition read16 :: "bytes \<Rightarrow> nat" where
  "read16 d = of_char (d ! 0) * 256 + of_char (d ! 1)"

definition Hybrid_Unmarshal :: "bytes \<Rightarrow> crypto_error + HybridSignature" where
  "Hybrid_Unmarshal d0 =
     (if length d0 < 5 then Inl errInvalidSignature
      else let d1 = drop 1 d0; classicLen = read16 d1; d2 = drop 2 d1 in
        if length d2 < classicLen then Inl errInvalidSignature
        else let d3 = drop classicLen d2 in
          if length d3 < 2 then Inl errInvalidSignature
          else let pqLen = read16 d3; d4 = drop 2 d3 in
            if length d4 < pqLen then Inl errInvalidSignature
            else Inr \<lparr>ClassicSig = take classicLen d2, PQSig = take pqLen d4\<rparr>)"

definition HybridSign :: "('sk, 'pk) sig_lib \<Rightarrow> bytes \<Rightarrow> 'sk option \<Rightarrow> bytes \<Rightarrow> crypto_error + bytes" where
  "HybridSign L classicPriv pqPriv message =
     (case SignClassic L classicPriv message of
        Inl e \<Rightarrow> Inl (WrapCrypto ''classic signature failed'' e)
      | Inr classicSig \<Rightarrow> (case SignMLDSA L pqPriv message of
          Inl e \<Rightarrow> Inl (WrapCrypto ''pq signature failed'' e)
        | Inr pqSig \<Rightarrow> Hybrid_Marshal \<lparr>ClassicSig = classicSig, PQSig = pqSig\<rparr>))"

record hybrid_verdict =
  hv_valid :: bool
  hv_classic :: bool
  hv_pq :: bool

text \<open>The three flags are returned beside the error.\<close>

definition HybridVerify ::
  "('sk, 'pk) sig_lib \<Rightarrow> bytes \<Rightarrow> 'pk option \<Rightarrow> bytes \<Rightarrow> bytes \<Rightarrow> hybrid_verdict \<times> crypto_error option" where
  "HybridVerify L classicPub pqPub message hybridSigBytes =
     (case Hybrid_Unmarshal hybridSigBytes of
        Inl e \<Rightarrow> (\<lparr>hv_valid = False, hv_classic = False, hv_pq = False\<rparr>, Some (WrapCrypto ''failed to unmarshal hybrid signature'' e))
      | Inr hs \<Rightarrow> (case VerifyClassic L classicPub message (ClassicSig hs) of
          Inl e \<Rightarrow> (\<lparr>hv_valid = False, hv_classic = False, hv_pq = False\<rparr>, Some (WrapCrypto ''classic signature verification failed'' e))
        | Inr classicValid \<Rightarrow> (case VerifyMLDSA L pqPub message (PQSig hs) of
            Inl e \<Rightarrow> (\<lparr>hv_valid = False, hv_classic = classicValid, hv_pq = False\<rparr>, Some (WrapCrypto ''pq signature verification failed'' e))
          | Inr pqValid \<Rightarrow> (\<lparr>hv_valid = (classicValid \<and> pqValid), hv_classic = classicValid, hv_pq = pqValid\<rparr>, None))))"

section \<open>Blocks of a flattened array\<close>

lemma length_concat_blocks: "\<forall>x \<in> set xs. length x = w \<Longrightarrow> length (concat xs) = length xs * w"
  by (induction xs) simp_all

lemma block_of_concat:
  "\<forall>x \<in> set xs. length x = w \<Longrightarrow> i < length xs \<Longrightarrow> take w (drop (i * w) (concat xs)) = xs ! i"
proof (induction xs arbitrary: i)
  case (Cons x xs)
  then show ?case by (cases i) (simp_all add: algebra_simps)
qed simp

lemma concat_of_blocks: "length b = n * w \<Longrightarrow> concat (map (\<lambda>i. take w (drop (i * w) b)) [0..<n]) = b"
proof (induction n arbitrary: b)
  case (Suc n)
  have "map (\<lambda>i. take w (drop (i * w) b)) [0..<Suc n] = take w b # map (\<lambda>i. take w (drop (i * w) (drop w b))) [0..<n]"
    by (simp add: map_upt_Suc add.commute del: upt_Suc)
  with Suc.IH [of "drop w b"] Suc.prems show ?case by simp
qed simp

lemma lamport_keyD:
  assumes "lamport_key k" "i < lamportDigestBits"
  shows "length (fst (k ! i)) = 32" "length (snd (k ! i)) = 32" "length (pick k i b) = 32"
  using assms nth_mem [of i k] by (auto simp: lamport_key_def pick_def)

lemma length_Lamport_Bytes: "lamport_key k \<Longrightarrow> length (Lamport_Bytes k) = lamportKeySize"
  using length_concat_blocks [of "map (\<lambda>p. fst p @ snd p) k" 64]
  by (auto simp: Lamport_Bytes_def lamport_key_def lamportKeySize_def lamportDigestBits_def)

text \<open>A stored Lamport key is read back as it was.\<close>

lemma Lamport_roundtrip:
  assumes "lamport_key k"
  shows "LamportKeyFromBytes (Lamport_Bytes k) = Inr k"
proof -
  let ?xs = "map (\<lambda>p. fst p @ snd p) k"
  have w: "\<forall>x \<in> set ?xs. length x = 64" using assms by (auto simp: lamport_key_def)
  have "(take 32 (drop (i * 2 * 32) (concat ?xs)), take 32 (drop (i * 2 * 32 + 32) (concat ?xs))) = k ! i"
    if i: "i < length k" for i
  proof -
    have b: "take 64 (drop (i * 64) (concat ?xs)) = fst (k ! i) @ snd (k ! i)" using block_of_concat [OF w, of i] i by simp
    have l: "length (fst (k ! i)) = 32" "length (snd (k ! i)) = 32"
      using assms nth_mem [OF i] by (auto simp: lamport_key_def)
    have "take 32 (drop (i * 64) (concat ?xs)) = take 32 (take 64 (drop (i * 64) (concat ?xs)))"
      "take 32 (drop (i * 64 + 32) (concat ?xs)) = drop 32 (take 64 (drop (i * 64) (concat ?xs)))"
      by (simp_all add: drop_take add.commute)
    with b l show ?thesis by (simp add: prod_eq_iff mult.commute)
  qed
  then have "map (\<lambda>i. (take 32 (drop (i * 2 * 32) (concat ?xs)), take 32 (drop (i * 2 * 32 + 32) (concat ?xs)))) [0..<length k] = map ((!) k) [0..<length k]"
    by simp
  then show ?thesis
    using assms length_Lamport_Bytes [OF assms] by (simp add: LamportKeyFromBytes_def Lamport_Bytes_def lamport_key_def map_nth)
qed

section \<open>Lamport signatures\<close>

lemma signature_blocks:
  assumes "lamport_key priv" "SignSPHINCS (Some priv) m = Inr sig"
  shows "length sig = lamportDigestBits * 32"
    "i < lamportDigestBits \<Longrightarrow> take 32 (drop (i * 32) sig) = pick priv i (digest_bit (sha256 m) i)"
proof -
  let ?xs = "map (\<lambda>i. pick priv i (digest_bit (sha256 m) i)) [0..<lamportDigestBits]"
  have sig: "sig = concat ?xs" using assms(2) by (simp add: SignSPHINCS_def Let_def)
  have w: "\<forall>x \<in> set ?xs. length x = 32" using lamport_keyD(3) [OF assms(1)] by auto
  show "length sig = lamportDigestBits * 32" using length_concat_blocks [OF w] sig by simp
  show "take 32 (drop (i * 32) sig) = pick priv i (digest_bit (sha256 m) i)" if "i < lamportDigestBits"
    using block_of_concat [OF w, of i] that sig by simp
qed

text \<open>Verification accepts exactly the blocks whose hashes are the public entries the digest selects.\<close>

lemma VerifySPHINCS_iff:
  "VerifySPHINCS (Some pub) m sig = Inr True \<longleftrightarrow> length sig = lamportDigestBits * 32 \<and>
     (\<forall>i < lamportDigestBits. sha256 (take 32 (drop (i * 32) sig)) = pick pub i (digest_bit (sha256 m) i))"
  by (auto simp: VerifySPHINCS_def Let_def list_all_iff)

definition lamport_pair :: "lamport_array \<Rightarrow> lamport_array \<Rightarrow> bool" where
  "lamport_pair priv pub \<longleftrightarrow> lamport_key priv \<and> GenerateLamportKeyPair (Some priv) = Inr (priv, pub)"

lemma pick_pub: "lamport_pair priv pub \<Longrightarrow> i < lamportDigestBits \<Longrightarrow> pick pub i b = sha256 (pick priv i b)"
  by (auto simp: lamport_pair_def GenerateLamportKeyPair_def lamport_key_def pick_def)

lemma lamport_pub_key: "lamport_pair priv pub \<Longrightarrow> lamport_key pub"
  by (auto simp: lamport_pair_def GenerateLamportKeyPair_def lamport_key_def)

lemma lamport_correct:
  assumes "lamport_pair priv pub"
  obtains sig where "SignSPHINCS (Some priv) m = Inr sig" "VerifySPHINCS (Some pub) m sig = Inr True"
proof -
  obtain sig where sig: "SignSPHINCS (Some priv) m = Inr sig" by (simp add: SignSPHINCS_def Let_def)
  have key: "lamport_key priv" using assms by (simp add: lamport_pair_def)
  have "VerifySPHINCS (Some pub) m sig = Inr True"
    unfolding VerifySPHINCS_iff using signature_blocks [OF key sig] pick_pub [OF assms] by simp
  with sig show ?thesis by (rule that)
qed

text \<open>Different digests differ in a bit that the signature reads.\<close>

lemma digest_bit_eq_bit: "digest_bit d i = bit (of_char (d ! (i div 8)) :: nat) (7 - i mod 8)"
  by (simp add: digest_bit_def bit_iff_odd)

lemma char_bits: "(\<And>j. j < 8 \<Longrightarrow> bit (of_char c :: nat) j = bit (of_char d :: nat) j) \<Longrightarrow> c = d"
proof -
  assume *: "\<And>j. j < 8 \<Longrightarrow> bit (of_char c :: nat) j = bit (of_char d :: nat) j"
  have "take_bit 8 (of_char c :: nat) = take_bit 8 (of_char d)" 
    by (rule bit_eqI) (use * in \<open>auto simp: bit_take_bit_iff\<close>)
  then have "of_char c = (of_char d :: nat)" by (simp add: take_bit_eq_mod)
  then show "c = d" by simp
qed

lemma digest_differs:
  assumes "length d = 32" "length e = 32" "d \<noteq> e"
  shows "\<exists>i < lamportDigestBits. digest_bit d i \<noteq> digest_bit e i"
proof (rule ccontr)
  assume "\<not> ?thesis"
  then have same: "i < 256 \<Longrightarrow> digest_bit d i = digest_bit e i" for i by (auto simp: lamportDigestBits_def)
  have "d ! k = e ! k" if k: "k < 32" for k
  proof (rule char_bits)
    fix j :: nat
    assume "j < 8"
    define r where "r = 7 - j"
    with \<open>j < 8\<close> have r: "r < 8" "7 - r = j" by auto
    then have "(8 * k + r) div 8 = k" "(8 * k + r) mod 8 = r" "8 * k + r < 256" using k by auto
    with r same [of "8 * k + r"] show "bit (of_char (d ! k) :: nat) j = bit (of_char (e ! k) :: nat) j"
      by (simp add: digest_bit_eq_bit)
  qed
  with assms show False by (metis nth_equalityI)
qed

text \<open>
  The Lamport signature is a correct one-time signature. A signature under a generated key
  verifies; and whoever makes the verifier accept a message with another digest after seeing one
  signature has produced, at some bit position, a preimage of a public entry whose own preimage
  that signature did not reveal.
\<close>

theorem lamport_one_time:
  assumes "lamport_pair priv pub" "SignSPHINCS (Some priv) m = Inr sig" "VerifySPHINCS (Some pub) m' sig' = Inr True"
  shows "VerifySPHINCS (Some pub) m sig = Inr True \<and>
    (sha256 m = sha256 m' \<or>
     (\<exists>i < lamportDigestBits. \<exists>b. digest_bit (sha256 m') i = b \<and> take 32 (drop (i * 32) sig) = pick priv i (\<not> b) \<and>
        sha256 (take 32 (drop (i * 32) sig')) = pick pub i b))"
proof -
  have key: "lamport_key priv" using assms(1) by (simp add: lamport_pair_def)
  have "VerifySPHINCS (Some pub) m sig = Inr True"
    using lamport_correct [OF assms(1), of m] assms(2) by (metis Inr_inject)
  moreover have "\<exists>i < lamportDigestBits. \<exists>b. digest_bit (sha256 m') i = b \<and> take 32 (drop (i * 32) sig) = pick priv i (\<not> b) \<and>
      sha256 (take 32 (drop (i * 32) sig')) = pick pub i b" if neq: "sha256 m \<noteq> sha256 m'"
  proof -
    obtain i where i: "i < lamportDigestBits" "digest_bit (sha256 m) i \<noteq> digest_bit (sha256 m') i"
      using digest_differs [OF _ _ neq] by auto
    then have "digest_bit (sha256 m) i = (\<not> digest_bit (sha256 m') i)" by blast
    with i(1) signature_blocks(2) [OF key assms(2) i(1)] assms(3) show ?thesis unfolding VerifySPHINCS_iff by auto
  qed
  ultimately show ?thesis by blast
qed

definition sample_preimages :: lamport_array where
  "sample_preimages = replicate 256 (replicate 32 CHR ''a'', replicate 32 CHR ''b'')"

lemma sample_lamport_pair: "\<exists>pub. lamport_pair sample_preimages pub"
  by (simp add: lamport_pair_def GenerateLamportKeyPair_def lamport_key_def sample_preimages_def lamportDigestBits_def)

theorem lamport_one_time_witness:
  "\<exists>pub sig. lamport_pair sample_preimages pub \<and> SignSPHINCS (Some sample_preimages) ''m'' = Inr sig \<and>
     VerifySPHINCS (Some pub) ''m'' sig = Inr True"
proof -
  obtain pub where pub: "lamport_pair sample_preimages pub" using sample_lamport_pair by blast
  obtain sig where sig: "SignSPHINCS (Some sample_preimages) ''m'' = Inr sig" "VerifySPHINCS (Some pub) ''m'' sig = Inr True"
    using lamport_correct [OF pub, of "''m''"] .
  from lamport_one_time [OF pub sig] pub sig(1) show ?thesis by blast
qed

section \<open>Hybrid signatures\<close>

lemma length_be16 [simp]: "length (be16 n) = 2"
  by (simp add: be16_def)

lemma of_char_byte_nat: "of_char (byte (int n)) = n mod 256"
  using of_char_byte [of "int n"] by (metis of_nat_eq_iff of_nat_numeral of_nat_of_char zmod_int)

lemma read16_be16: "n \<le> 65535 \<Longrightarrow> read16 (be16 n @ r) = n"
proof -
  assume n: "n \<le> 65535"
  have "int n div 256 = int (n div 256)" by (simp add: zdiv_int)
  then have "read16 (be16 n @ r) = n div 256 mod 256 * 256 + n mod 256"
    by (simp add: read16_def be16_def of_char_byte_nat)
  moreover have "n div 256 mod 256 = n div 256" using n by (simp add: div_less_iff_less_mult)
  ultimately show ?thesis by simp
qed

lemma Hybrid_roundtrip:
  assumes "length c \<le> 65535" "length p \<le> 65535"
  shows "Hybrid_Unmarshal (v # be16 (length c) @ c @ be16 (length p) @ p @ r) = Inr \<lparr>ClassicSig = c, PQSig = p\<rparr>"
  using read16_be16 [OF assms(1), of "c @ be16 (length p) @ p @ r"] read16_be16 [OF assms(2), of "p @ r"]
  by (simp add: Hybrid_Unmarshal_def Let_def)

lemma HybridVerify_valid_iff:
  "hv_valid (fst (HybridVerify L ek (Some pk) m sig)) \<longleftrightarrow>
     (\<exists>hs. Hybrid_Unmarshal sig = Inr hs \<and> VerifyClassic L ek m (ClassicSig hs) = Inr True \<and> VerifyMLDSA L (Some pk) m (PQSig hs) = Inr True)"
  by (auto simp: HybridVerify_def split: sum.splits)

lemma hybrid_correct:
  assumes "lib_ok L" "ed_pair L ek ep" "ml_pair L mk mp"
  obtains sig where "HybridSign L ek (Some mk) m = Inr sig"
    "HybridVerify L ep (Some mp) m sig = (\<lparr>hv_valid = True, hv_classic = True, hv_pq = True\<rparr>, None)"
proof -
  note ed = ed_okD [OF assms(1,2)]
  obtain s where s: "ml_SignTo L mk m = Some s" "length s = ml_SignatureSize" "ml_Verify L mp m s"
    using ml_okE [OF assms(1,3)] .
  let ?sig = "byte 1 # be16 (length (ed_Sign L ek m)) @ ed_Sign L ek m @ be16 (length s) @ s"
  have "HybridSign L ek (Some mk) m = Inr ?sig"
    using ed s by (simp add: HybridSign_def SignClassic_def SignMLDSA_def Hybrid_Marshal_def size_defs)
  moreover have "Hybrid_Unmarshal ?sig = Inr \<lparr>ClassicSig = ed_Sign L ek m, PQSig = s\<rparr>"
    using Hybrid_roundtrip [of "ed_Sign L ek m" s "byte 1" "[]"] ed(3) s(2) by (simp add: size_defs)
  ultimately show ?thesis
    using ed s by (intro that [of ?sig]) (simp_all add: HybridVerify_def VerifyClassic_def VerifyMLDSA_def)
qed

text \<open>
  A hybrid signature verifies and needs both halves. Signing with the private halves of two
  generated key pairs succeeds and the result verifies; conversely whatever the verifier accepts
  consists of a classic signature and an ML-DSA signature that each verify on their own, of
  exactly the fixed sizes.
\<close>

theorem hybrid_sound_complete:
  assumes "lib_ok L" "ed_pair L ek ep" "ml_pair L mk mp"
  shows "(\<exists>sig. HybridSign L ek (Some mk) m = Inr sig \<and>
      HybridVerify L ep (Some mp) m sig = (\<lparr>hv_valid = True, hv_classic = True, hv_pq = True\<rparr>, None)) \<and>
    (hv_valid (fst (HybridVerify L ep (Some mp) m' sig')) \<longrightarrow>
      (\<exists>c p. Hybrid_Unmarshal sig' = Inr \<lparr>ClassicSig = c, PQSig = p\<rparr> \<and> length c = 64 \<and> length p = 3309 \<and>
         ed_Verify L ep m' c \<and> ml_Verify L mp m' p))"
proof (intro conjI impI)
  show "\<exists>sig. HybridSign L ek (Some mk) m = Inr sig \<and>
      HybridVerify L ep (Some mp) m sig = (\<lparr>hv_valid = True, hv_classic = True, hv_pq = True\<rparr>, None)"
    using hybrid_correct [OF assms, of m] by blast
next
  assume "hv_valid (fst (HybridVerify L ep (Some mp) m' sig'))"
  then obtain hs where "Hybrid_Unmarshal sig' = Inr hs" "VerifyClassic L ep m' (ClassicSig hs) = Inr True"
    "VerifyMLDSA L (Some mp) m' (PQSig hs) = Inr True" unfolding HybridVerify_valid_iff by blast
  then show "\<exists>c p. Hybrid_Unmarshal sig' = Inr \<lparr>ClassicSig = c, PQSig = p\<rparr> \<and> length c = 64 \<and> length p = 3309 \<and>
      ed_Verify L ep m' c \<and> ml_Verify L mp m' p"
    by (cases hs) (auto simp: VerifyClassic_def VerifyMLDSA_def size_defs split: if_splits)
qed

text \<open>
  A library in which a signature carries the public key and the message hash, to show that the
  laws can hold together.
\<close>

definition sample_lib :: "(bytes, bytes) sig_lib" where
  "sample_lib = \<lparr>
     ed_pair = (\<lambda>sk pk. length pk = 32 \<and> sk = pk @ pk),
     ed_Sign = (\<lambda>sk m. sha256 m @ take 32 sk),
     ed_Verify = (\<lambda>pk m s. s = sha256 m @ pk),
     ml_pair = (\<lambda>sk pk. sk = pk \<and> pk \<noteq> []),
     ml_SignTo = (\<lambda>sk m. Some (take 3309 (sha256 m @ sk @ replicate 3309 (byte 0)))),
     ml_Verify = (\<lambda>pk m s. s = take 3309 (sha256 m @ pk @ replicate 3309 (byte 0))),
     ml_MarshalPriv = (\<lambda>sk. Some (byte 0 # sk)),
     ml_UnmarshalPriv = (\<lambda>b. case b of [] \<Rightarrow> None | c # r \<Rightarrow> if c = byte 0 then Some r else None),
     ml_MarshalPub = (\<lambda>pk. pk),
     ml_UnmarshalPub = Some\<rparr>"

lemma sample_lib_ok: "lib_ok sample_lib"
  by (auto simp: lib_ok_def ed_ok_def ml_ok_def encoding_ok_def sample_lib_def size_defs)

theorem hybrid_sound_complete_witness:
  "\<exists>sig. HybridSign sample_lib (replicate 64 CHR ''k'') (Some ''q'') ''m'' = Inr sig \<and>
     hv_valid (fst (HybridVerify sample_lib (replicate 32 CHR ''k'') (Some ''q'') ''m'' sig))"
proof -
  have "replicate 64 CHR ''k'' = replicate 32 CHR ''k'' @ replicate 32 CHR ''k''"
    by (simp add: replicate_add [symmetric])
  then have "ed_pair sample_lib (replicate 64 CHR ''k'') (replicate 32 CHR ''k'')" "ml_pair sample_lib ''q'' ''q''"
    by (simp_all add: sample_lib_def)
  from hybrid_sound_complete [OF sample_lib_ok this, of "''m''"] show ?thesis by fastforce
qed

text \<open>
  The decoder ignores the version byte and what follows the second half: every accepted hybrid
  signature has further accepted encodings.
\<close>

lemma hybrid_signature_malleable:
  assumes "length c \<le> 65535" "length p \<le> 65535"
  shows "HybridVerify L ek pk m (v # be16 (length c) @ c @ be16 (length p) @ p @ r) =
    HybridVerify L ek pk m (byte 1 # be16 (length c) @ c @ be16 (length p) @ p)"
  using Hybrid_roundtrip [OF assms] Hybrid_roundtrip [OF assms, of "byte 1" "[]"]
  by (simp add: HybridVerify_def)

end
