(* ===== verification/Keyring.thy ===== *)
theory Keyring
  imports Pq "HOL-Library.Char_ord" "HOL-Library.List_Lexorder"
begin

text \<open>
  The key ring, \<^verbatim>\<open>engine/internal/crypto/keyring.go\<close>, and its adapter
  \<^verbatim>\<open>crypto/keystore/memory.go\<close>: versioned signing keys of four algorithms, one active key per
  algorithm, retired keys kept for verification, and the two snapshots. A method holds the lock
  of the ring, so it is one step on the record \<open>KeyRing\<close>; the clock and the key material the
  generators return are arguments. The snapshots are modelled as the documents that are
  marshalled, without their JSON text.
\<close>

section \<open>Keys\<close>

type_synonym Algo = gostring

definition AlgoEd25519 :: Algo where "AlgoEd25519 = ''ed25519''"

definition AlgoMLDSA65 :: Algo where "AlgoMLDSA65 = ''mldsa65''"

definition AlgoLamport :: Algo where "AlgoLamport = ''lamport''"

definition AlgoHybrid :: Algo where "AlgoHybrid = ''hybrid_ed25519_mldsa65''"

lemmas algo_defs = AlgoEd25519_def AlgoMLDSA65_def AlgoLamport_def AlgoHybrid_def

lemma algo_neq [simp]:
  "AlgoEd25519 \<noteq> AlgoMLDSA65" "AlgoEd25519 \<noteq> AlgoLamport" "AlgoEd25519 \<noteq> AlgoHybrid"
  "AlgoMLDSA65 \<noteq> AlgoEd25519" "AlgoMLDSA65 \<noteq> AlgoLamport" "AlgoMLDSA65 \<noteq> AlgoHybrid"
  "AlgoLamport \<noteq> AlgoEd25519" "AlgoLamport \<noteq> AlgoMLDSA65" "AlgoLamport \<noteq> AlgoHybrid"
  "AlgoHybrid \<noteq> AlgoEd25519" "AlgoHybrid \<noteq> AlgoMLDSA65" "AlgoHybrid \<noteq> AlgoLamport"
  by (simp_all add: algo_defs)

definition SupportedAlgos :: "Algo list" where
  "SupportedAlgos = [AlgoEd25519, AlgoMLDSA65, AlgoLamport, AlgoHybrid]"

record KeyMeta =
  km_ID :: gostring
  km_Algo :: Algo
  km_Version :: int
  km_PublicKey :: gostring
  km_CreatedAt :: int
  km_RetiredAt :: "int option"
  km_Active :: bool

definition zero_meta :: KeyMeta where
  "zero_meta = \<lparr>km_ID = [], km_Algo = [], km_Version = 0, km_PublicKey = [], km_CreatedAt = 0, km_RetiredAt = None, km_Active = False\<rparr>"

record ('sk, 'pk) keyEntry =
  ke_meta :: KeyMeta
  ed25519Priv :: "bytes option"
  ed25519Pub :: bytes
  mldsaPriv :: "'sk option"
  mldsaPub :: "'pk option"
  lamportPriv :: "lamport_array option"
  lamportPub :: "lamport_array option"

definition zero_entry :: "('sk, 'pk) keyEntry" where
  "zero_entry = \<lparr>ke_meta = zero_meta, ed25519Priv = None, ed25519Pub = [], mldsaPriv = None, mldsaPub = None,
     lamportPriv = None, lamportPub = None\<rparr>"

record ('sk, 'pk) KeyRing =
  kr_keys :: "gostring \<rightharpoonup> ('sk, 'pk) keyEntry"
  kr_active :: "Algo \<rightharpoonup> gostring"
  kr_max :: "Algo \<Rightarrow> int"

definition NewKeyRing :: "('sk, 'pk) KeyRing" where
  "NewKeyRing = \<lparr>kr_keys = Map.empty, kr_active = Map.empty, kr_max = (\<lambda>_. 0)\<rparr>"

lemma NewKeyRing_empty [simp]: "kr_keys NewKeyRing i = None" "kr_active NewKeyRing a = None" "kr_max NewKeyRing a = 0"
  by (simp_all add: NewKeyRing_def)

text \<open>What the generators return: a key pair, or nothing when the random source fails.\<close>

record ('sk, 'pk) entropy =
  en_ed :: "(bytes \<times> bytes) option"
  en_ml :: "('sk \<times> 'pk) option"
  en_lamport :: "lamport_array option"

definition errUnsupportedAlgo :: "Algo \<Rightarrow> crypto_error" where
  "errUnsupportedAlgo a = ErrCrypto (''keyring: unsupported algo '' @ quote_string a)"

definition errRand :: crypto_error where
  "errRand = ErrCrypto ''rand''"

definition generateForAlgo :: "Algo \<Rightarrow> ('sk, 'pk) entropy \<Rightarrow> crypto_error + ('sk, 'pk) keyEntry" where
  "generateForAlgo algo en =
     (if algo = AlgoEd25519 then
        (case en_ed en of None \<Rightarrow> Inl errRand
         | Some (priv, pub) \<Rightarrow> Inr (zero_entry\<lparr>ed25519Priv := Some priv, ed25519Pub := pub\<rparr>))
      else if algo = AlgoMLDSA65 then
        (case en_ml en of None \<Rightarrow> Inl errRand
         | Some (priv, pub) \<Rightarrow> Inr (zero_entry\<lparr>mldsaPriv := Some priv, mldsaPub := Some pub\<rparr>))
      else if algo = AlgoLamport then
        (case GenerateLamportKeyPair (en_lamport en) of Inl e \<Rightarrow> Inl e
         | Inr (priv, pub) \<Rightarrow> Inr (zero_entry\<lparr>lamportPriv := Some priv, lamportPub := Some pub\<rparr>))
      else if algo = AlgoHybrid then
        (case en_ed en of None \<Rightarrow> Inl errRand
         | Some (classicPriv, classicPub) \<Rightarrow> (case en_ml en of None \<Rightarrow> Inl errRand
           | Some (pqPriv, pqPub) \<Rightarrow>
               Inr (zero_entry\<lparr>ed25519Priv := Some classicPriv, ed25519Pub := classicPub,
                               mldsaPriv := Some pqPriv, mldsaPub := Some pqPub\<rparr>)))
      else Inl (errUnsupportedAlgo algo))"

text \<open>
  The canonical public bytes. A nil ML-DSA or Lamport key is dereferenced: \<open>None\<close> is that panic,
  which no generated entry reaches.
\<close>

definition publicBytes :: "('sk, 'pk) sig_lib \<Rightarrow> ('sk, 'pk) keyEntry \<Rightarrow> bytes option" where
  "publicBytes L e =
     (let algo = km_Algo (ke_meta e) in
      if algo = AlgoEd25519 then Some (ed25519Pub e)
      else if algo = AlgoMLDSA65 then map_option (ml_MarshalPub L) (mldsaPub e)
      else if algo = AlgoLamport then map_option Lamport_Bytes (lamportPub e)
      else if algo = AlgoHybrid then
        map_option (\<lambda>pk. let classic = ed25519Pub e in be32 (word_of_int (int (length classic))) @ classic @ ml_MarshalPub L pk) (mldsaPub e)
      else Some [])"

definition makeKeyID :: "Algo \<Rightarrow> int \<Rightarrow> bytes \<Rightarrow> gostring" where
  "makeKeyID algo version pubBytes = algo @ '':v'' @ show_int version @ '':'' @ hex_encode (take 4 (sha256 pubBytes))"

section \<open>Operations\<close>

definition errNilPointer :: crypto_error where
  "errNilPointer = ErrCrypto ''panic: nil pointer dereference''"

definition retire :: "int \<Rightarrow> gostring option \<Rightarrow> (gostring \<rightharpoonup> ('sk, 'pk) keyEntry) \<Rightarrow> gostring \<rightharpoonup> ('sk, 'pk) keyEntry" where
  "retire now prevID keys =
     (case prevID of None \<Rightarrow> keys
      | Some i \<Rightarrow> if i = [] then keys
          else (case keys i of None \<Rightarrow> keys
                | Some prev \<Rightarrow> keys(i \<mapsto> prev\<lparr>ke_meta := (ke_meta prev)\<lparr>km_RetiredAt := Some now, km_Active := False\<rparr>\<rparr>)))"

definition createLocked ::
  "('sk, 'pk) sig_lib \<Rightarrow> int \<Rightarrow> ('sk, 'pk) entropy \<Rightarrow> ('sk, 'pk) KeyRing \<Rightarrow> Algo \<Rightarrow> crypto_error + ('sk, 'pk) KeyRing \<times> KeyMeta" where
  "createLocked L now en r algo =
     (case generateForAlgo algo en of
        Inl e \<Rightarrow> Inl e
      | Inr entry \<Rightarrow>
          let nextVersion = kr_max r algo + 1;
              entry1 = entry\<lparr>ke_meta := (ke_meta entry)\<lparr>km_Algo := algo\<rparr>\<rparr>
          in (case publicBytes L entry1 of
                None \<Rightarrow> Inl errNilPointer
              | Some pubBytes \<Rightarrow>
                  let keyID = makeKeyID algo nextVersion pubBytes;
                      meta = \<lparr>km_ID = keyID, km_Algo = algo, km_Version = nextVersion, km_PublicKey = hex_encode pubBytes,
                              km_CreatedAt = now, km_RetiredAt = None, km_Active = True\<rparr>;
                      keys = (retire now (kr_active r algo) (kr_keys r))(keyID \<mapsto> entry1\<lparr>ke_meta := meta\<rparr>)
                  in Inr (\<lparr>kr_keys = keys, kr_active = (kr_active r)(algo \<mapsto> keyID), kr_max = (kr_max r)(algo := nextVersion)\<rparr>, meta)))"

definition CreateKey ::
  "('sk, 'pk) sig_lib \<Rightarrow> int \<Rightarrow> ('sk, 'pk) entropy \<Rightarrow> ('sk, 'pk) KeyRing \<Rightarrow> Algo \<Rightarrow> crypto_error + ('sk, 'pk) KeyRing \<times> KeyMeta" where
  "CreateKey L now en r algo = createLocked L now en r algo"

definition RotateKey ::
  "('sk, 'pk) sig_lib \<Rightarrow> int \<Rightarrow> ('sk, 'pk) entropy \<Rightarrow> ('sk, 'pk) KeyRing \<Rightarrow> Algo \<Rightarrow> crypto_error + ('sk, 'pk) KeyRing \<times> KeyMeta" where
  "RotateKey L now en r algo = CreateKey L now en r algo"

definition ActiveKeyID :: "('sk, 'pk) KeyRing \<Rightarrow> Algo \<Rightarrow> gostring option" where
  "ActiveKeyID r algo = (case kr_active r algo of None \<Rightarrow> None | Some i \<Rightarrow> if i = [] then None else Some i)"

definition errUnknownKey :: "gostring \<Rightarrow> crypto_error" where
  "errUnknownKey i = ErrCrypto (''keyring: unknown key id '' @ quote_string i)"

definition GetMeta :: "('sk, 'pk) KeyRing \<Rightarrow> gostring \<Rightarrow> crypto_error + KeyMeta" where
  "GetMeta r i = (case kr_keys r i of None \<Rightarrow> Inl (errUnknownKey i) | Some e \<Rightarrow> Inr (ke_meta e))"

text \<open>The metadata of all keys, ranging over the map in the order \<open>ks\<close>, sorted by algorithm and version.\<close>

definition sort_metas :: "KeyMeta list \<Rightarrow> KeyMeta list" where
  "sort_metas ms = sort_key km_Algo (sort_key km_Version ms)"

definition List_keys :: "gostring list \<Rightarrow> ('sk, 'pk) KeyRing \<Rightarrow> KeyMeta list" where
  "List_keys ks r = sort_metas (map ke_meta (range_values ks (kr_keys r)))"

definition errNoPrivate :: crypto_error where
  "errNoPrivate = ErrCrypto ''keyring: private key not present (verify-only ring)''"

definition entry_sign :: "('sk, 'pk) sig_lib \<Rightarrow> ('sk, 'pk) keyEntry \<Rightarrow> bytes \<Rightarrow> crypto_error + bytes" where
  "entry_sign L e message =
     (let algo = km_Algo (ke_meta e) in
      if algo = AlgoEd25519 then
        (case ed25519Priv e of None \<Rightarrow> Inl errNoPrivate | Some sk \<Rightarrow> SignClassic L sk message)
      else if algo = AlgoMLDSA65 then
        (case mldsaPriv e of None \<Rightarrow> Inl errNoPrivate | Some sk \<Rightarrow> SignMLDSA L (Some sk) message)
      else if algo = AlgoLamport then
        (case lamportPriv e of None \<Rightarrow> Inl errNoPrivate | Some sk \<Rightarrow> SignSPHINCS (Some sk) message)
      else if algo = AlgoHybrid then
        (case (ed25519Priv e, mldsaPriv e) of
           (Some sk, Some pq) \<Rightarrow> HybridSign L sk (Some pq) message
         | _ \<Rightarrow> Inl errNoPrivate)
      else Inl (errUnsupportedAlgo algo))"

definition entry_verify :: "('sk, 'pk) sig_lib \<Rightarrow> ('sk, 'pk) keyEntry \<Rightarrow> bytes \<Rightarrow> bytes \<Rightarrow> crypto_error + bool" where
  "entry_verify L e message signature =
     (let algo = km_Algo (ke_meta e) in
      if algo = AlgoEd25519 then VerifyClassic L (ed25519Pub e) message signature
      else if algo = AlgoMLDSA65 then VerifyMLDSA L (mldsaPub e) message signature
      else if algo = AlgoLamport then VerifySPHINCS (lamportPub e) message signature
      else if algo = AlgoHybrid then
        (case HybridVerify L (ed25519Pub e) (mldsaPub e) message signature of
           (v, Some err) \<Rightarrow> Inl err
         | (v, None) \<Rightarrow> Inr (hv_valid v))
      else Inl (errUnsupportedAlgo algo))"

definition SignWithKey :: "('sk, 'pk) sig_lib \<Rightarrow> ('sk, 'pk) KeyRing \<Rightarrow> gostring \<Rightarrow> bytes \<Rightarrow> crypto_error + bytes" where
  "SignWithKey L r i message = (case kr_keys r i of None \<Rightarrow> Inl (errUnknownKey i) | Some e \<Rightarrow> entry_sign L e message)"

definition Ring_Sign :: "('sk, 'pk) sig_lib \<Rightarrow> ('sk, 'pk) KeyRing \<Rightarrow> Algo \<Rightarrow> bytes \<Rightarrow> crypto_error + bytes \<times> gostring" where
  "Ring_Sign L r algo message =
     (case ActiveKeyID r algo of
        None \<Rightarrow> Inl (ErrCrypto (''keyring: no active key for algo '' @ quote_string algo))
      | Some i \<Rightarrow> (case SignWithKey L r i message of Inl e \<Rightarrow> Inl e | Inr sig \<Rightarrow> Inr (sig, i)))"

definition Ring_Verify :: "('sk, 'pk) sig_lib \<Rightarrow> ('sk, 'pk) KeyRing \<Rightarrow> gostring \<Rightarrow> bytes \<Rightarrow> bytes \<Rightarrow> crypto_error + bool" where
  "Ring_Verify L r i message signature =
     (case kr_keys r i of None \<Rightarrow> Inl (errUnknownKey i) | Some e \<Rightarrow> entry_verify L e message signature)"

definition MigrateSignature ::
  "('sk, 'pk) sig_lib \<Rightarrow> ('sk, 'pk) KeyRing \<Rightarrow> gostring \<Rightarrow> bytes \<Rightarrow> bytes \<Rightarrow> Algo \<Rightarrow> crypto_error + bytes \<times> gostring" where
  "MigrateSignature L r oldKeyID message oldSignature toAlgo =
     (case Ring_Verify L r oldKeyID message oldSignature of
        Inl e \<Rightarrow> Inl (WrapCrypto ''keyring: migrate verify'' e)
      | Inr ok \<Rightarrow>
          if \<not> ok then Inl (ErrCrypto (''keyring: old signature did not verify '' @ em_dash @ '' refusing to migrate''))
          else (case Ring_Sign L r toAlgo message of
                  Inl e \<Rightarrow> Inl (WrapCrypto ''keyring: migrate sign'' e)
                | Inr res \<Rightarrow> Inr res))"

section \<open>Snapshots\<close>

text \<open>The length prefix of the hybrid public key, read as the shifts of the code do.\<close>

definition read32 :: "bytes \<Rightarrow> nat" where
  "read32 d = ((of_char (d ! 0) * 256 + of_char (d ! 1)) * 256 + of_char (d ! 2)) * 256 + of_char (d ! 3)"

definition hydratePublicOnly ::
  "('sk, 'pk) sig_lib \<Rightarrow> Algo \<Rightarrow> bytes \<Rightarrow> ('sk, 'pk) keyEntry \<Rightarrow> crypto_error + ('sk, 'pk) keyEntry" where
  "hydratePublicOnly L algo pubBytes e =
     (if algo = AlgoEd25519 then
        if length pubBytes \<noteq> PublicKeySize then Inl errInvalidKeyLength else Inr (e\<lparr>ed25519Pub := pubBytes\<rparr>)
      else if algo = AlgoMLDSA65 then
        (case ml_UnmarshalPub L pubBytes of
           None \<Rightarrow> Inl (ErrCrypto ''mldsa65: UnmarshalBinary'') | Some pk \<Rightarrow> Inr (e\<lparr>mldsaPub := Some pk\<rparr>))
      else if algo = AlgoLamport then
        (case LamportKeyFromBytes pubBytes of Inl err \<Rightarrow> Inl err | Inr pk \<Rightarrow> Inr (e\<lparr>lamportPub := Some pk\<rparr>))
      else if algo = AlgoHybrid then
        if length pubBytes < 4 then Inl errInvalidKeyLength
        else let classicLen = read32 pubBytes in
          if 4 + classicLen > length pubBytes then Inl errInvalidKeyLength
          else let classic = take classicLen (drop 4 pubBytes); pq = drop (4 + classicLen) pubBytes in
            if length classic \<noteq> PublicKeySize then Inl errInvalidKeyLength
            else (case ml_UnmarshalPub L pq of
                    None \<Rightarrow> Inl (ErrCrypto ''mldsa65: UnmarshalBinary'')
                  | Some pk \<Rightarrow> Inr (e\<lparr>ed25519Pub := classic, mldsaPub := Some pk\<rparr>))
      else Inl (errUnsupportedAlgo algo))"

definition hydratePrivate ::
  "('sk, 'pk) sig_lib \<Rightarrow> Algo \<Rightarrow> bytes \<Rightarrow> bytes \<Rightarrow> ('sk, 'pk) keyEntry \<Rightarrow> crypto_error + ('sk, 'pk) keyEntry" where
  "hydratePrivate L algo privBytes hybridPQ e =
     (if algo = AlgoEd25519 then
        if length privBytes \<noteq> PrivateKeySize then Inl errInvalidKeyLength else Inr (e\<lparr>ed25519Priv := Some privBytes\<rparr>)
      else if algo = AlgoMLDSA65 then
        (case ml_UnmarshalPriv L privBytes of
           None \<Rightarrow> Inl (ErrCrypto ''mldsa65: UnmarshalBinary'') | Some sk \<Rightarrow> Inr (e\<lparr>mldsaPriv := Some sk\<rparr>))
      else if algo = AlgoLamport then
        (case LamportKeyFromBytes privBytes of Inl err \<Rightarrow> Inl err | Inr sk \<Rightarrow> Inr (e\<lparr>lamportPriv := Some sk\<rparr>))
      else if algo = AlgoHybrid then
        if length privBytes \<noteq> PrivateKeySize then Inl errInvalidKeyLength
        else (case ml_UnmarshalPriv L hybridPQ of
                None \<Rightarrow> Inl (ErrCrypto ''mldsa65: UnmarshalBinary'')
              | Some sk \<Rightarrow> Inr (e\<lparr>ed25519Priv := Some privBytes, mldsaPriv := Some sk\<rparr>))
      else Inl (errUnsupportedAlgo algo))"

definition privateHex :: "('sk, 'pk) sig_lib \<Rightarrow> ('sk, 'pk) keyEntry \<Rightarrow> crypto_error + gostring \<times> gostring" where
  "privateHex L e =
     (let algo = km_Algo (ke_meta e) in
      if algo = AlgoEd25519 then
        (case ed25519Priv e of None \<Rightarrow> Inr ('''', '''') | Some sk \<Rightarrow> Inr (hex_encode sk, ''''))
      else if algo = AlgoMLDSA65 then
        (case mldsaPriv e of None \<Rightarrow> Inr ('''', '''')
         | Some sk \<Rightarrow> (case ml_MarshalPriv L sk of None \<Rightarrow> Inl (ErrCrypto ''mldsa65: MarshalBinary'') | Some b \<Rightarrow> Inr (hex_encode b, '''')))
      else if algo = AlgoLamport then
        (case lamportPriv e of None \<Rightarrow> Inr ('''', '''') | Some sk \<Rightarrow> Inr (hex_encode (Lamport_Bytes sk), ''''))
      else if algo = AlgoHybrid then
        (case (ed25519Priv e, mldsaPriv e) of
           (Some sk, Some pq) \<Rightarrow>
             (case ml_MarshalPriv L pq of None \<Rightarrow> Inl (ErrCrypto ''mldsa65: MarshalBinary'')
              | Some b \<Rightarrow> Inr (hex_encode sk, hex_encode b))
         | _ \<Rightarrow> Inr ('''', ''''))
      else Inl (errUnsupportedAlgo algo))"

record keyMaterial =
  mat_Meta :: KeyMeta
  mat_PrivateHex :: gostring
  mat_PrivateHybridPQ :: gostring

record fullRingDoc =
  doc_Version :: int
  doc_Keys :: "keyMaterial list"

definition MarshalPublic :: "gostring list \<Rightarrow> ('sk, 'pk) KeyRing \<Rightarrow> KeyMeta list" where
  "MarshalPublic ks r = List_keys ks r"

definition add_loaded :: "KeyMeta \<Rightarrow> ('sk, 'pk) keyEntry \<Rightarrow> ('sk, 'pk) KeyRing \<Rightarrow> ('sk, 'pk) KeyRing" where
  "add_loaded m e r =
     \<lparr>kr_keys = (kr_keys r)(km_ID m \<mapsto> e),
      kr_active = (if km_Active m then (kr_active r)(km_Algo m \<mapsto> km_ID m) else kr_active r),
      kr_max = (if km_Version m > kr_max r (km_Algo m) then (kr_max r)(km_Algo m := km_Version m) else kr_max r)\<rparr>"

fun load_public_loop :: "('sk, 'pk) sig_lib \<Rightarrow> KeyMeta list \<Rightarrow> ('sk, 'pk) KeyRing \<Rightarrow> crypto_error + ('sk, 'pk) KeyRing" where
  "load_public_loop L [] r = Inr r"
| "load_public_loop L (m # ms) r =
     (case hex_decode (km_PublicKey m) of
        None \<Rightarrow> Inl (WrapCrypto (''keyring: bad public_key_hex on '' @ km_ID m) (ErrCrypto ''hex''))
      | Some pubBytes \<Rightarrow>
          (case hydratePublicOnly L (km_Algo m) pubBytes (zero_entry\<lparr>ke_meta := m\<rparr>) of
             Inl err \<Rightarrow> Inl (WrapCrypto (''keyring: hydrate '' @ km_ID m) err)
           | Inr e \<Rightarrow> load_public_loop L ms (add_loaded m e r)))"

text \<open>Loading a parsed snapshot; \<open>None\<close> is a text that does not parse.\<close>

definition LoadPublicKeyRing :: "('sk, 'pk) sig_lib \<Rightarrow> KeyMeta list option \<Rightarrow> crypto_error + ('sk, 'pk) KeyRing" where
  "LoadPublicKeyRing L doc =
     (case doc of None \<Rightarrow> Inl (WrapCrypto ''keyring: parse snapshot'' (ErrCrypto ''json''))
      | Some ms \<Rightarrow> load_public_loop L ms NewKeyRing)"

fun marshal_loop :: "('sk, 'pk) sig_lib \<Rightarrow> ('sk, 'pk) KeyRing \<Rightarrow> KeyMeta list \<Rightarrow> crypto_error + keyMaterial list" where
  "marshal_loop L r [] = Inr []"
| "marshal_loop L r (m # ms) =
     (case kr_keys r (km_ID m) of
        None \<Rightarrow> Inl errNilPointer
      | Some e \<Rightarrow> (case privateHex L e of
          Inl err \<Rightarrow> Inl (WrapCrypto (''keyring: marshal private '' @ km_ID m) err)
        | Inr (privHex, hybridPQHex) \<Rightarrow>
            map_sum id ((#) \<lparr>mat_Meta = m, mat_PrivateHex = privHex, mat_PrivateHybridPQ = hybridPQHex\<rparr>) (marshal_loop L r ms)))"

definition MarshalFull :: "('sk, 'pk) sig_lib \<Rightarrow> gostring list \<Rightarrow> ('sk, 'pk) KeyRing \<Rightarrow> crypto_error + fullRingDoc" where
  "MarshalFull L ks r =
     (case marshal_loop L r (sort_metas (map ke_meta (range_values ks (kr_keys r)))) of
        Inl err \<Rightarrow> Inl err
      | Inr mats \<Rightarrow> Inr \<lparr>doc_Version = 1, doc_Keys = mats\<rparr>)"

definition load_material :: "('sk, 'pk) sig_lib \<Rightarrow> keyMaterial \<Rightarrow> crypto_error + ('sk, 'pk) keyEntry" where
  "load_material L mat =
     (let m = mat_Meta mat in
      case hex_decode (km_PublicKey m) of
        None \<Rightarrow> Inl (WrapCrypto (''keyring: bad public_key_hex on '' @ km_ID m) (ErrCrypto ''hex''))
      | Some pubBytes \<Rightarrow>
          (case hydratePublicOnly L (km_Algo m) pubBytes (zero_entry\<lparr>ke_meta := m\<rparr>) of
             Inl err \<Rightarrow> Inl (WrapCrypto (''keyring: hydrate public '' @ km_ID m) err)
           | Inr e \<Rightarrow>
               if mat_PrivateHex mat = [] then Inr e
               else (case hex_decode (mat_PrivateHex mat) of
                       None \<Rightarrow> Inl (WrapCrypto (''keyring: bad private_hex on '' @ km_ID m) (ErrCrypto ''hex''))
                     | Some privBytes \<Rightarrow>
                         (case (if mat_PrivateHybridPQ mat = [] then Some [] else hex_decode (mat_PrivateHybridPQ mat)) of
                            None \<Rightarrow> Inl (WrapCrypto (''keyring: bad hybrid_pq_hex on '' @ km_ID m) (ErrCrypto ''hex''))
                          | Some hybridPQ \<Rightarrow>
                              (case hydratePrivate L (km_Algo m) privBytes hybridPQ e of
                                 Inl err \<Rightarrow> Inl (WrapCrypto (''keyring: hydrate private '' @ km_ID m) err)
                               | Inr e' \<Rightarrow> Inr e')))))"

fun load_full_loop :: "('sk, 'pk) sig_lib \<Rightarrow> keyMaterial list \<Rightarrow> ('sk, 'pk) KeyRing \<Rightarrow> crypto_error + ('sk, 'pk) KeyRing" where
  "load_full_loop L [] r = Inr r"
| "load_full_loop L (mat # mats) r =
     (case load_material L mat of
        Inl err \<Rightarrow> Inl err
      | Inr e \<Rightarrow> load_full_loop L mats (add_loaded (mat_Meta mat) e r))"

definition LoadFullKeyRing :: "('sk, 'pk) sig_lib \<Rightarrow> fullRingDoc option \<Rightarrow> crypto_error + ('sk, 'pk) KeyRing" where
  "LoadFullKeyRing L doc =
     (case doc of
        None \<Rightarrow> Inl (WrapCrypto ''keyring: parse full snapshot'' (ErrCrypto ''json''))
      | Some d \<Rightarrow>
          if doc_Version d \<noteq> 1 then Inl (ErrCrypto (''keyring: unsupported snapshot version '' @ show_int (doc_Version d)))
          else load_full_loop L (doc_Keys d) NewKeyRing)"

text \<open>
  \<^verbatim>\<open>strings.ToLower\<close> on the letters that become ASCII: A to Z, the dotted capital I and the
  Kelvin sign. Other letters outside ASCII stay as they are here, which no comparison with the
  ASCII names of the algorithms can tell apart.
\<close>

fun strings_ToLower :: "gostring \<Rightarrow> gostring" where
  "strings_ToLower [] = []"
| "strings_ToLower [c] = [to_lower c]"
| "strings_ToLower (c # d # r) =
     (if c = byte 196 \<and> d = byte 176 then CHR ''i'' # strings_ToLower r
      else if c = byte 226 \<and> d = byte 132 \<and> r \<noteq> [] \<and> hd r = byte 170 then CHR ''k'' # strings_ToLower (tl r)
      else to_lower c # strings_ToLower (d # r))"

definition ParseAlgo :: "gostring \<Rightarrow> crypto_error + Algo" where
  "ParseAlgo s = (let a = strings_ToLower s in if a \<in> set SupportedAlgos then Inr a else Inl (errUnsupportedAlgo s))"

section \<open>Generated entries\<close>

text \<open>The key material the generators may return.\<close>

definition entropy_ok :: "('sk, 'pk) sig_lib \<Rightarrow> ('sk, 'pk) entropy \<Rightarrow> bool" where
  "entropy_ok L en \<longleftrightarrow> (\<forall>sk pk. en_ed en = Some (sk, pk) \<longrightarrow> ed_pair L sk pk) \<and>
     (\<forall>sk pk. en_ml en = Some (sk, pk) \<longrightarrow> ml_pair L sk pk) \<and> (\<forall>k. en_lamport en = Some k \<longrightarrow> lamport_key k)"

definition material_ok :: "('sk, 'pk) sig_lib \<Rightarrow> Algo \<Rightarrow> ('sk, 'pk) keyEntry \<Rightarrow> bool" where
  "material_ok L algo e \<longleftrightarrow>
     (\<exists>sk pk. algo = AlgoEd25519 \<and> ed_pair L sk pk \<and> e = zero_entry\<lparr>ed25519Priv := Some sk, ed25519Pub := pk\<rparr>) \<or>
     (\<exists>sk pk. algo = AlgoMLDSA65 \<and> ml_pair L sk pk \<and> e = zero_entry\<lparr>mldsaPriv := Some sk, mldsaPub := Some pk\<rparr>) \<or>
     (\<exists>sk pk. algo = AlgoLamport \<and> lamport_pair sk pk \<and> e = zero_entry\<lparr>lamportPriv := Some sk, lamportPub := Some pk\<rparr>) \<or>
     (\<exists>sk pk qs qp. algo = AlgoHybrid \<and> ed_pair L sk pk \<and> ml_pair L qs qp \<and>
        e = zero_entry\<lparr>ed25519Priv := Some sk, ed25519Pub := pk, mldsaPriv := Some qs, mldsaPub := Some qp\<rparr>)"

lemma generateForAlgo_material:
  assumes "generateForAlgo algo en = Inr e" "entropy_ok L en"
  shows "material_ok L algo e"
  using assms
  by (auto simp: generateForAlgo_def material_ok_def entropy_ok_def lamport_pair_def GenerateLamportKeyPair_def
      split: if_splits option.splits prod.splits sum.splits)

text \<open>An entry of the ring: generated material with the metadata that \<open>createLocked\<close> gives it.\<close>

definition entry_ok :: "('sk, 'pk) sig_lib \<Rightarrow> ('sk, 'pk) keyEntry \<Rightarrow> bool" where
  "entry_ok L e \<longleftrightarrow> (let m = ke_meta e in
     material_ok L (km_Algo m) (e\<lparr>ke_meta := zero_meta\<rparr>) \<and> 1 \<le> km_Version m \<and>
     (\<exists>b. publicBytes L e = Some b \<and> km_PublicKey m = hex_encode b \<and> km_ID m = makeKeyID (km_Algo m) (km_Version m) b))"

lemma material_ok_supported: "material_ok L algo e \<Longrightarrow> algo \<in> set SupportedAlgos"
  by (auto simp: material_ok_def SupportedAlgos_def)

lemma material_ok_cases:
  assumes "material_ok L (km_Algo (ke_meta e)) (e\<lparr>ke_meta := zero_meta\<rparr>)"
  obtains
    (ed) sk pk where "km_Algo (ke_meta e) = AlgoEd25519" "ed_pair L sk pk"
      "ed25519Priv e = Some sk" "ed25519Pub e = pk" "mldsaPriv e = None" "mldsaPub e = None" "lamportPriv e = None" "lamportPub e = None"
  | (ml) sk pk where "km_Algo (ke_meta e) = AlgoMLDSA65" "ml_pair L sk pk"
      "ed25519Priv e = None" "ed25519Pub e = []" "mldsaPriv e = Some sk" "mldsaPub e = Some pk" "lamportPriv e = None" "lamportPub e = None"
  | (lamport) sk pk where "km_Algo (ke_meta e) = AlgoLamport" "lamport_pair sk pk"
      "ed25519Priv e = None" "ed25519Pub e = []" "mldsaPriv e = None" "mldsaPub e = None" "lamportPriv e = Some sk" "lamportPub e = Some pk"
  | (hybrid) sk pk qs qp where "km_Algo (ke_meta e) = AlgoHybrid" "ed_pair L sk pk" "ml_pair L qs qp"
      "ed25519Priv e = Some sk" "ed25519Pub e = pk" "mldsaPriv e = Some qs" "mldsaPub e = Some qp" "lamportPriv e = None" "lamportPub e = None"
  using assms unfolding material_ok_def by (cases e) (auto simp: zero_entry_def)

text \<open>Every entry of the ring signs, and its signatures verify under it.\<close>

lemma entry_sign_verify:
  assumes "lib_ok L" "entry_ok L e"
  obtains sig where "entry_sign L e m = Inr sig" "entry_verify L e m sig = Inr True"
proof -
  have "material_ok L (km_Algo (ke_meta e)) (e\<lparr>ke_meta := zero_meta\<rparr>)" using assms(2) by (simp add: entry_ok_def Let_def)
  then show thesis
  proof (cases rule: material_ok_cases)
    case (ed sk pk)
    show ?thesis
      by (rule that [of "ed_Sign L sk m"])
        (use ed ed_okD [OF assms(1) ed(2)] in \<open>simp_all add: entry_sign_def entry_verify_def SignClassic_def VerifyClassic_def\<close>)
  next
    case (ml sk pk)
    obtain sig where "ml_SignTo L sk m = Some sig" "length sig = ml_SignatureSize" "ml_Verify L pk m sig"
      using ml_okE [OF assms(1) ml(2)] .
    with ml show ?thesis
      by (intro that [of sig]) (simp_all add: entry_sign_def entry_verify_def SignMLDSA_def VerifyMLDSA_def)
  next
    case (lamport sk pk)
    obtain sig where "SignSPHINCS (Some sk) m = Inr sig" "VerifySPHINCS (Some pk) m sig = Inr True"
      using lamport_correct [OF lamport(2)] .
    with lamport show ?thesis by (intro that [of sig]) (simp_all add: entry_sign_def entry_verify_def)
  next
    case (hybrid sk pk qs qp)
    obtain sig where "HybridSign L sk (Some qs) m = Inr sig"
      "HybridVerify L pk (Some qp) m sig = (\<lparr>hv_valid = True, hv_classic = True, hv_pq = True\<rparr>, None)"
      using hybrid_correct [OF assms(1) hybrid(2,3)] .
    with hybrid show ?thesis by (intro that [of sig]) (simp_all add: entry_sign_def entry_verify_def)
  qed
qed

section \<open>Key identifiers\<close>

lemma supported_no_colon: "a \<in> set SupportedAlgos \<Longrightarrow> CHR '':'' \<notin> set a"
  by (auto simp: SupportedAlgos_def algo_defs)

lemma show_nat_no_colon: "CHR '':'' \<notin> set (show_nat n)"
  using set_show_nat [of n] by auto

lemma takeWhile_colon: "CHR '':'' \<notin> set a \<Longrightarrow> takeWhile (\<lambda>c. c \<noteq> CHR '':'') (a @ CHR '':'' # r) = a"
  by (induction a) auto

text \<open>Algorithm and version can be read off a key identifier.\<close>

lemma makeKeyID_inject:
  assumes "makeKeyID a v p = makeKeyID b w q" "a \<in> set SupportedAlgos" "b \<in> set SupportedAlgos" "0 \<le> v" "0 \<le> w"
  shows "a = b \<and> v = w"
proof -
  let ?t = "takeWhile (\<lambda>c. c \<noteq> CHR '':'')"
  have eq: "a @ CHR '':'' # CHR ''v'' # show_nat (nat v) @ CHR '':'' # hex_encode (take 4 (sha256 p)) =
      b @ CHR '':'' # CHR ''v'' # show_nat (nat w) @ CHR '':'' # hex_encode (take 4 (sha256 q))"
    using assms(1,4,5) by (simp add: makeKeyID_def show_int_def)
  then have ab: "a = b" using takeWhile_colon supported_no_colon assms(2,3) by metis
  with eq have "show_nat (nat v) @ CHR '':'' # hex_encode (take 4 (sha256 p)) = show_nat (nat w) @ CHR '':'' # hex_encode (take 4 (sha256 q))"
    by simp
  then have "show_nat (nat v) = show_nat (nat w)" using takeWhile_colon show_nat_no_colon by metis
  then show ?thesis using ab assms(4,5) show_nat_inj by fastforce
qed

lemma makeKeyID_not_Nil [simp]: "makeKeyID a v p \<noteq> []"
  by (simp add: makeKeyID_def)

section \<open>The invariant of the ring\<close>

definition ring_inv :: "('sk, 'pk) sig_lib \<Rightarrow> ('sk, 'pk) KeyRing \<Rightarrow> bool" where
  "ring_inv L r \<longleftrightarrow> lib_ok L \<and> finite (dom (kr_keys r)) \<and>
     (\<forall>i e. kr_keys r i = Some e \<longrightarrow> entry_ok L e \<and> km_ID (ke_meta e) = i \<and> km_Version (ke_meta e) \<le> kr_max r (km_Algo (ke_meta e)) \<and>
        (km_Active (ke_meta e) \<longleftrightarrow> kr_active r (km_Algo (ke_meta e)) = Some i) \<and>
        (km_Active (ke_meta e) \<longleftrightarrow> km_RetiredAt (ke_meta e) = None)) \<and>
     (\<forall>i j d e. kr_keys r i = Some d \<longrightarrow> kr_keys r j = Some e \<longrightarrow> km_Algo (ke_meta d) = km_Algo (ke_meta e) \<longrightarrow>
        km_Version (ke_meta d) = km_Version (ke_meta e) \<longrightarrow> i = j) \<and>
     (\<forall>a i. kr_active r a = Some i \<longrightarrow> (\<exists>e. kr_keys r i = Some e \<and> km_Algo (ke_meta e) = a \<and> km_Version (ke_meta e) = kr_max r a)) \<and>
     (\<forall>a. 0 \<le> kr_max r a \<and> (kr_active r a = None \<longleftrightarrow> kr_max r a = 0))"

lemma ring_invD:
  assumes "ring_inv L r"
  shows "lib_ok L" "finite (dom (kr_keys r))"
    "kr_keys r i = Some e \<Longrightarrow> entry_ok L e" "kr_keys r i = Some e \<Longrightarrow> km_ID (ke_meta e) = i"
    "kr_keys r i = Some e \<Longrightarrow> km_Version (ke_meta e) \<le> kr_max r (km_Algo (ke_meta e))"
    "kr_keys r i = Some e \<Longrightarrow> km_Active (ke_meta e) \<longleftrightarrow> kr_active r (km_Algo (ke_meta e)) = Some i"
    "kr_keys r i = Some e \<Longrightarrow> km_Active (ke_meta e) \<longleftrightarrow> km_RetiredAt (ke_meta e) = None"
    "kr_keys r i = Some d \<Longrightarrow> kr_keys r j = Some e \<Longrightarrow> km_Algo (ke_meta d) = km_Algo (ke_meta e) \<Longrightarrow>
       km_Version (ke_meta d) = km_Version (ke_meta e) \<Longrightarrow> i = j"
    "kr_active r a = Some i \<Longrightarrow> \<exists>e. kr_keys r i = Some e \<and> km_Algo (ke_meta e) = a \<and> km_Version (ke_meta e) = kr_max r a"
    "0 \<le> kr_max r a" "kr_active r a = None \<longleftrightarrow> kr_max r a = 0"
  using assms unfolding ring_inv_def by blast+

lemma ring_inv_New: "lib_ok L \<Longrightarrow> ring_inv L NewKeyRing"
  by (simp add: ring_inv_def NewKeyRing_def)

lemma entry_ok_ID:
  assumes "entry_ok L e"
  obtains b where "km_ID (ke_meta e) = makeKeyID (km_Algo (ke_meta e)) (km_Version (ke_meta e)) b"
    "km_Algo (ke_meta e) \<in> set SupportedAlgos" "1 \<le> km_Version (ke_meta e)"
  using assms material_ok_supported unfolding entry_ok_def Let_def by metis

lemma next_id_fresh:
  assumes "ring_inv L r" "a \<in> set SupportedAlgos"
  shows "kr_keys r (makeKeyID a (kr_max r a + 1) p) = None"
proof (rule ccontr)
  assume "kr_keys r (makeKeyID a (kr_max r a + 1) p) \<noteq> None"
  then obtain e where e: "kr_keys r (makeKeyID a (kr_max r a + 1) p) = Some e" by blast
  obtain b where b: "km_ID (ke_meta e) = makeKeyID (km_Algo (ke_meta e)) (km_Version (ke_meta e)) b"
    "km_Algo (ke_meta e) \<in> set SupportedAlgos" "1 \<le> km_Version (ke_meta e)"
    by (rule entry_ok_ID [OF ring_invD(3) [OF assms(1) e]])
  have "km_Algo (ke_meta e) = a \<and> km_Version (ke_meta e) = kr_max r a + 1"
    by (rule makeKeyID_inject [of _ _ b _ _ p])
      (use b ring_invD(4) [OF assms(1) e] ring_invD(10) [OF assms(1), of a] assms(2) in simp_all)
  with ring_invD(5) [OF assms(1) e] show False by simp
qed

definition retired :: "int \<Rightarrow> ('sk, 'pk) keyEntry \<Rightarrow> ('sk, 'pk) keyEntry" where
  "retired now e = e\<lparr>ke_meta := (ke_meta e)\<lparr>km_RetiredAt := Some now, km_Active := False\<rparr>\<rparr>"

lemma retired_simps [simp]:
  "km_ID (ke_meta (retired now e)) = km_ID (ke_meta e)" "km_Algo (ke_meta (retired now e)) = km_Algo (ke_meta e)"
  "km_Version (ke_meta (retired now e)) = km_Version (ke_meta e)" "km_PublicKey (ke_meta (retired now e)) = km_PublicKey (ke_meta e)"
  "\<not> km_Active (ke_meta (retired now e))" "km_RetiredAt (ke_meta (retired now e)) = Some now"
  "(retired now e)\<lparr>ke_meta := m\<rparr> = e\<lparr>ke_meta := m\<rparr>"
  by (simp_all add: retired_def)

lemma retired_behaves [simp]:
  "publicBytes L (retired now e) = publicBytes L e" "entry_sign L (retired now e) = entry_sign L e"
  "entry_verify L (retired now e) = entry_verify L e" "entry_ok L (retired now e) = entry_ok L e"
proof -
  show p: "publicBytes L (retired now e) = publicBytes L e" by (simp add: publicBytes_def retired_def Let_def cong: if_cong)
  show "entry_sign L (retired now e) = entry_sign L e" by (rule ext) (simp add: entry_sign_def retired_def Let_def cong: if_cong)
  show "entry_verify L (retired now e) = entry_verify L e" by (intro ext) (simp add: entry_verify_def retired_def Let_def cong: if_cong)
  show "entry_ok L (retired now e) = entry_ok L e" by (simp add: entry_ok_def Let_def p)
qed

lemma retire_lookup:
  assumes "ring_inv L r"
  shows "retire now (kr_active r a) (kr_keys r) j =
    (if kr_active r a = Some j then map_option (retired now) (kr_keys r j) else kr_keys r j)"
proof (cases "kr_active r a")
  case (Some i)
  then obtain e where e: "kr_keys r i = Some e" using ring_invD(9) [OF assms] by blast
  moreover have "i \<noteq> []"
    by (rule entry_ok_ID [OF ring_invD(3) [OF assms e]]) (use ring_invD(4) [OF assms e] in auto)
  ultimately show ?thesis using Some by (auto simp: retire_def retired_def)
qed (simp add: retire_def)

lemma dom_retire: "ring_inv L r \<Longrightarrow> dom (retire now (kr_active r a) (kr_keys r)) = dom (kr_keys r)"
  by (auto simp: retire_lookup dom_def)

text \<open>What a successful creation does to the ring.\<close>

lemma createLocked_InrE:
  assumes "createLocked L now en r a = Inr (r', m)" "ring_inv L r" "entropy_ok L en"
  obtains e where "entry_ok L e" "ke_meta e = m" "km_Algo m = a" "km_Version m = kr_max r a + 1" "km_Active m" "km_RetiredAt m = None"
    "kr_keys r (km_ID m) = None"
    "kr_keys r' = (retire now (kr_active r a) (kr_keys r))(km_ID m \<mapsto> e)"
    "kr_active r' = (kr_active r)(a \<mapsto> km_ID m)" "kr_max r' = (kr_max r)(a := kr_max r a + 1)"
proof -
  obtain e0 where e0: "generateForAlgo a en = Inr e0" using assms(1) by (auto simp: createLocked_def split: sum.splits)
  let ?e1 = "e0\<lparr>ke_meta := (ke_meta e0)\<lparr>km_Algo := a\<rparr>\<rparr>"
  obtain p where p: "publicBytes L ?e1 = Some p"
    using assms(1) e0 by (auto simp: createLocked_def Let_def split: option.splits)
  note mat = generateForAlgo_material [OF e0 assms(3)]
  have z: "e0\<lparr>ke_meta := zero_meta\<rparr> = e0" using mat by (auto simp: material_ok_def zero_entry_def)
  have m: "m = \<lparr>km_ID = makeKeyID a (kr_max r a + 1) p, km_Algo = a, km_Version = kr_max r a + 1, km_PublicKey = hex_encode p,
      km_CreatedAt = now, km_RetiredAt = None, km_Active = True\<rparr>"
    and r': "r' = \<lparr>kr_keys = (retire now (kr_active r a) (kr_keys r))(km_ID m \<mapsto> ?e1\<lparr>ke_meta := m\<rparr>),
      kr_active = (kr_active r)(a \<mapsto> km_ID m), kr_max = (kr_max r)(a := kr_max r a + 1)\<rparr>"
    using assms(1) e0 p by (auto simp: createLocked_def Let_def)
  have pb: "publicBytes L (?e1\<lparr>ke_meta := m\<rparr>) = Some p" using p by (simp add: publicBytes_def m Let_def cong: if_cong)
  have "entry_ok L (?e1\<lparr>ke_meta := m\<rparr>)"
    using mat z pb ring_invD(10) [OF assms(2), of a] by (simp add: entry_ok_def Let_def m)
  moreover have "kr_keys r (km_ID m) = None"
    using next_id_fresh [OF assms(2) material_ok_supported [OF mat]] by (simp add: m)
  ultimately show thesis by (intro that [of "?e1\<lparr>ke_meta := m\<rparr>"]) (simp_all add: r', simp_all add: m)
qed

lemma ring_inv_create [inv_intros]:
  assumes "createLocked L now en r a = Inr (r', m)" "ring_inv L r" "entropy_ok L en"
  shows "ring_inv L r'"
proof -
  obtain e where e: "entry_ok L e" "ke_meta e = m" "km_Algo m = a" "km_Version m = kr_max r a + 1" "km_Active m" "km_RetiredAt m = None"
    and new: "kr_keys r (km_ID m) = None"
    and r': "kr_keys r' = (retire now (kr_active r a) (kr_keys r))(km_ID m \<mapsto> e)"
      "kr_active r' = (kr_active r)(a \<mapsto> km_ID m)" "kr_max r' = (kr_max r)(a := kr_max r a + 1)"
    using assms by (rule createLocked_InrE)
  note inv = ring_invD [OF assms(2)]
  have old: "\<exists>d. kr_keys r i = Some d \<and> d' = (if kr_active r a = Some i then retired now d else d)"
    if "kr_keys r' i = Some d'" "i \<noteq> km_ID m" for i d'
    using that by (auto simp: r' retire_lookup [OF assms(2)] split: if_splits)
  have "entry_ok L d \<and> km_ID (ke_meta d) = i \<and> km_Version (ke_meta d) \<le> kr_max r' (km_Algo (ke_meta d)) \<and>
      (km_Active (ke_meta d) \<longleftrightarrow> kr_active r' (km_Algo (ke_meta d)) = Some i) \<and> (km_Active (ke_meta d) \<longleftrightarrow> km_RetiredAt (ke_meta d) = None)"
    if d: "kr_keys r' i = Some d" for i d
  proof (cases "i = km_ID m")
    case True
    with d e show ?thesis by (simp add: r')
  next
    case False
    obtain c where c: "kr_keys r i = Some c" "d = (if kr_active r a = Some i then retired now c else c)" using old [OF d False] by blast
    have "kr_active r a = Some i \<Longrightarrow> km_Algo (ke_meta c) = a" using inv(9) [of a i] c(1) by auto
    with c False inv(3-7) [OF c(1)] show ?thesis by (auto simp: r')
  qed
  moreover have "i = j" if "kr_keys r' i = Some d" "kr_keys r' j = Some d'" "km_Algo (ke_meta d) = km_Algo (ke_meta d')"
    "km_Version (ke_meta d) = km_Version (ke_meta d')" for i j d d'
  proof -
    have low: "km_Version (ke_meta c) \<le> kr_max r a" if "kr_keys r k = Some c" "km_Algo (ke_meta c) = a" for k c
      using inv(5) [OF that(1)] that(2) by simp
    show ?thesis
    proof (cases "i = km_ID m \<or> j = km_ID m")
      case True
      with that e show ?thesis using old [of i d] old [of j d'] low by (auto simp: r' split: if_splits) force+
    next
      case False
      with that old [of i d] old [of j d'] inv(8) show ?thesis by (auto split: if_splits)
    qed
  qed
  moreover have "\<exists>d. kr_keys r' i = Some d \<and> km_Algo (ke_meta d) = b \<and> km_Version (ke_meta d) = kr_max r' b"
    if act: "kr_active r' b = Some i" for b i
  proof (cases "b = a")
    case False
    then obtain d where d: "kr_keys r i = Some d" "km_Algo (ke_meta d) = b" "km_Version (ke_meta d) = kr_max r b"
      using act inv(9) [of b i] by (auto simp: r')
    with False act new inv(6) [OF d(1)] show ?thesis
      using inv(9) [of a i] by (auto simp: r' retire_lookup [OF assms(2)])
  qed (use act e in \<open>simp add: r'\<close>)
  moreover have "finite (dom (kr_keys r'))" using inv(2) by (simp add: r' dom_retire [OF assms(2)])
  moreover have "0 \<le> kr_max r' b \<and> (kr_active r' b = None \<longleftrightarrow> kr_max r' b = 0)" for b
    using inv(10) [of a] inv(10,11) [of b] by (simp add: r')
  ultimately show ?thesis unfolding ring_inv_def using inv(1) by blast
qed

section \<open>Reachable rings\<close>

inductive ring_step :: "('sk, 'pk) sig_lib \<Rightarrow> ('sk, 'pk) KeyRing \<Rightarrow> ('sk, 'pk) KeyRing \<Rightarrow> bool" for L where
  create: "entropy_ok L en \<Longrightarrow> CreateKey L now en r a = Inr (r', m) \<Longrightarrow> ring_step L r r'"
| rotate: "entropy_ok L en \<Longrightarrow> RotateKey L now en r a = Inr (r', m) \<Longrightarrow> ring_step L r r'"

inductive_cases ring_stepE: "ring_step L r r'"

lemma ring_step_createE:
  assumes "ring_step L r r'"
  obtains now en a m where "createLocked L now en r a = Inr (r', m)" "entropy_ok L en"
  using assms by (auto simp: CreateKey_def RotateKey_def elim: ring_stepE)

lemma ring_inv_step: "ring_inv L r \<Longrightarrow> ring_step L r r' \<Longrightarrow> ring_inv L r'"
  by (blast elim: ring_step_createE intro: inv_intros)

definition ring_reach :: "('sk, 'pk) sig_lib \<Rightarrow> ('sk, 'pk) KeyRing \<Rightarrow> bool" where
  "ring_reach L r \<longleftrightarrow> lib_ok L \<and> (ring_step L)\<^sup>*\<^sup>* NewKeyRing r"

lemma ring_reach_inv: "ring_reach L r \<Longrightarrow> ring_inv L r"
proof -
  assume "ring_reach L r"
  then have "(ring_step L)\<^sup>*\<^sup>* NewKeyRing r" "ring_inv L NewKeyRing" by (simp_all add: ring_reach_def ring_inv_New)
  then show ?thesis by (induction rule: rtranclp_induct) (blast intro: ring_inv_step)+
qed

text \<open>A step keeps every key, up to its being retired.\<close>

lemma ring_step_keeps:
  assumes "ring_inv L r" "ring_step L r r'" "kr_keys r i = Some e"
  shows "\<exists>now. kr_keys r' i = Some e \<or> kr_keys r' i = Some (retired now e)"
proof -
  obtain now en a m where c: "createLocked L now en r a = Inr (r', m)" "entropy_ok L en" using assms(2) by (rule ring_step_createE)
  from c(1) assms(1) c(2) obtain e' where "kr_keys r (km_ID m) = None" "kr_keys r' = (retire now (kr_active r a) (kr_keys r))(km_ID m \<mapsto> e')"
    by (rule createLocked_InrE)
  with assms(3) show ?thesis by (auto simp: retire_lookup [OF assms(1)])
qed

lemma verify_step:
  assumes "ring_inv L r" "ring_step L r r'" "Ring_Verify L r i m sig = Inr b"
  shows "Ring_Verify L r' i m sig = Inr b"
proof -
  obtain e where e: "kr_keys r i = Some e" "entry_verify L e m sig = Inr b"
    using assms(3) by (auto simp: Ring_Verify_def split: option.splits)
  with ring_step_keeps [OF assms(1,2) e(1)] show ?thesis by (auto simp: Ring_Verify_def)
qed

lemma ActiveKeyID_eq: "ring_inv L r \<Longrightarrow> ActiveKeyID r a = kr_active r a"
proof (cases "kr_active r a")
  case (Some i)
  assume inv: "ring_inv L r"
  obtain e where e: "kr_keys r i = Some e" using ring_invD(9) [OF inv Some] by blast
  have "i \<noteq> []" by (rule entry_ok_ID [OF ring_invD(3) [OF inv e]]) (use ring_invD(4) [OF inv e] in auto)
  with Some show ?thesis by (simp add: ActiveKeyID_def)
qed (simp add: ActiveKeyID_def)

lemma sign_active:
  assumes "ring_inv L r" "ActiveKeyID r a = Some i"
  shows "\<exists>sig. Ring_Sign L r a m = Inr (sig, i) \<and> Ring_Verify L r i m sig = Inr True"
proof -
  obtain e where e: "kr_keys r i = Some e" using ring_invD(9) [OF assms(1)] assms ActiveKeyID_eq by metis
  obtain sig where "entry_sign L e m = Inr sig" "entry_verify L e m sig = Inr True"
    using entry_sign_verify [OF ring_invD(1) [OF assms(1)] ring_invD(3) [OF assms(1) e]] .
  with e assms(2) show ?thesis by (simp add: Ring_Sign_def SignWithKey_def Ring_Verify_def)
qed

text \<open>The identifier of an active key holds no hash sign, which separates it in a verification method.\<close>

lemma no_hash: "CHR ''#'' \<notin> set (hex_encode b)" "CHR ''#'' \<notin> set (show_nat n)"
  using set_hex_encode [of b] set_show_nat [of n] by (auto simp: hex_digits_def)

lemma active_id_no_hash:
  assumes "ring_inv L r" "ActiveKeyID r a = Some i"
  shows "CHR ''#'' \<notin> set i"
proof -
  obtain e where e: "kr_keys r i = Some e" using ring_invD(9) [OF assms(1)] assms ActiveKeyID_eq by metis
  obtain b where "km_ID (ke_meta e) = makeKeyID (km_Algo (ke_meta e)) (km_Version (ke_meta e)) b"
    "km_Algo (ke_meta e) \<in> set SupportedAlgos" "1 \<le> km_Version (ke_meta e)"
    by (rule entry_ok_ID [OF ring_invD(3) [OF assms(1) e]])
  moreover have "CHR ''#'' \<notin> set x" if "x \<in> set SupportedAlgos" for x using that by (auto simp: SupportedAlgos_def algo_defs)
  ultimately show ?thesis using ring_invD(4) [OF assms(1) e]
    by (auto simp: makeKeyID_def show_int_def no_hash)
qed

section \<open>Properties of the ring\<close>

text \<open>
  One active key per algorithm. In every reachable ring an algorithm has an active key as
  soon as it has any key, that key is the only one marked active, it has the highest version and
  is not retired; every other key of the algorithm is retired with a lower version, and no two
  keys share a version.
\<close>

theorem one_active_key:
  assumes "ring_reach L r" "kr_keys r j = Some d"
  shows "\<exists>i e. ActiveKeyID r (km_Algo (ke_meta d)) = Some i \<and> kr_keys r i = Some e \<and> km_Algo (ke_meta e) = km_Algo (ke_meta d) \<and>
    km_Active (ke_meta e) \<and> km_RetiredAt (ke_meta e) = None \<and>
    (j = i \<or> \<not> km_Active (ke_meta d) \<and> km_RetiredAt (ke_meta d) \<noteq> None \<and> km_Version (ke_meta d) < km_Version (ke_meta e))"
proof -
  note inv = ring_reach_inv [OF assms(1)]
  let ?a = "km_Algo (ke_meta d)"
  have "1 \<le> km_Version (ke_meta d)" by (rule entry_ok_ID [OF ring_invD(3) [OF inv assms(2)]])
  then have "kr_max r ?a \<noteq> 0" using ring_invD(5) [OF inv assms(2)] by simp
  then obtain i where i: "kr_active r ?a = Some i" using ring_invD(11) [OF inv] by fastforce
  then obtain e where e: "kr_keys r i = Some e" "km_Algo (ke_meta e) = ?a" "km_Version (ke_meta e) = kr_max r ?a"
    using ring_invD(9) [OF inv] by blast
  have "km_Version (ke_meta d) < km_Version (ke_meta e)" if "j \<noteq> i"
    using ring_invD(5) [OF inv assms(2)] ring_invD(8) [OF inv assms(2) e(1)] e that by fastforce
  then show ?thesis
    using i e ActiveKeyID_eq [OF inv, of ?a] ring_invD(6,7) [OF inv e(1)] ring_invD(6,7) [OF inv assms(2)] by auto
qed

text \<open>
  Rotation never breaks a signature. Whatever keys are created and rotated afterwards, a
  signature made under the active key of a reachable ring, which always succeeds, verifies under
  the identifier returned with it.
\<close>

theorem rotation_keeps_signatures:
  assumes "ring_reach L r" "ActiveKeyID r a = Some i" "(ring_step L)\<^sup>*\<^sup>* r r'"
  shows "\<exists>sig. Ring_Sign L r a m = Inr (sig, i) \<and> Ring_Verify L r' i m sig = Inr True"
proof -
  note inv = ring_reach_inv [OF assms(1)]
  obtain sig where sig: "Ring_Sign L r a m = Inr (sig, i)" "Ring_Verify L r i m sig = Inr True"
    using sign_active [OF inv assms(2)] by blast
  from assms(3) have "ring_inv L r' \<and> Ring_Verify L r' i m sig = Inr True"
    by (induction rule: rtranclp_induct) (use inv sig(2) in \<open>blast intro: ring_inv_step verify_step\<close>)+
  with sig(1) show ?thesis by blast
qed

definition sample_entropy :: "(bytes, bytes) entropy" where
  "sample_entropy = \<lparr>en_ed = Some (replicate 64 CHR ''k'', replicate 32 CHR ''k''), en_ml = Some (''q'', ''q''), en_lamport = Some sample_preimages\<rparr>"

lemma sample_entropy_ok: "entropy_ok sample_lib sample_entropy"
proof -
  have "replicate 64 CHR ''k'' = replicate 32 CHR ''k'' @ replicate 32 CHR ''k''" by (simp add: replicate_add [symmetric])
  then show ?thesis
    using sample_lamport_pair by (auto simp: entropy_ok_def sample_entropy_def sample_lib_def lamport_pair_def)
qed

definition after_create :: "(bytes, bytes) KeyRing \<Rightarrow> (bytes, bytes) KeyRing" where
  "after_create r = projr (map_sum id fst (CreateKey sample_lib 7 sample_entropy r AlgoHybrid))"

lemma after_create_step: "ring_inv sample_lib r \<Longrightarrow> ring_step sample_lib r (after_create r) \<and> (\<exists>i. ActiveKeyID (after_create r) AlgoHybrid = Some i)"
proof -
  obtain r' m where c: "CreateKey sample_lib 7 sample_entropy r AlgoHybrid = Inr (r', m)" "ActiveKeyID r' AlgoHybrid = Some (km_ID m)"
    by (auto simp: CreateKey_def createLocked_def generateForAlgo_def sample_entropy_def Let_def publicBytes_def zero_entry_def ActiveKeyID_def)
  then show ?thesis using ring_step.create [OF sample_entropy_ok c(1)] by (simp add: after_create_def)
qed

lemma sample_rings:
  "ring_reach sample_lib (after_create NewKeyRing)" "\<exists>i. ActiveKeyID (after_create NewKeyRing) AlgoHybrid = Some i"
  "(ring_step sample_lib)\<^sup>*\<^sup>* (after_create NewKeyRing) (after_create (after_create NewKeyRing))"
proof -
  have inv: "ring_inv sample_lib NewKeyRing" by (rule ring_inv_New [OF sample_lib_ok])
  note a = after_create_step [OF inv]
  show "ring_reach sample_lib (after_create NewKeyRing)" using a sample_lib_ok by (auto simp: ring_reach_def)
  show "\<exists>i. ActiveKeyID (after_create NewKeyRing) AlgoHybrid = Some i" using a by blast
  have "ring_inv sample_lib (after_create NewKeyRing)" using ring_inv_step [OF inv] a by blast
  from after_create_step [OF this] show "(ring_step sample_lib)\<^sup>*\<^sup>* (after_create NewKeyRing) (after_create (after_create NewKeyRing))" by blast
qed

theorem rotation_keeps_signatures_witness:
  "\<exists>i sig. Ring_Sign sample_lib (after_create NewKeyRing) AlgoHybrid ''m'' = Inr (sig, i) \<and>
     Ring_Verify sample_lib (after_create (after_create NewKeyRing)) i ''m'' sig = Inr True"
  using sample_rings(2) rotation_keeps_signatures [OF sample_rings(1) _ sample_rings(3), of AlgoHybrid _ "''m''"] by blast

theorem one_active_key_witness:
  "\<exists>i e. kr_keys (after_create NewKeyRing) i = Some e \<and> km_Algo (ke_meta e) = AlgoHybrid \<and> km_Active (ke_meta e)"
proof -
  note inv = ring_reach_inv [OF sample_rings(1)]
  obtain i where "ActiveKeyID (after_create NewKeyRing) AlgoHybrid = Some i" using sample_rings(2) by blast
  then obtain d where "kr_keys (after_create NewKeyRing) i = Some d" "km_Algo (ke_meta d) = AlgoHybrid"
    using ActiveKeyID_eq [OF inv] ring_invD(9) [OF inv] by metis
  with one_active_key [OF sample_rings(1) this(1)] show ?thesis by auto
qed

text \<open>Migration re-signs exactly the messages whose old signature verifies.\<close>

lemma MigrateSignature_Inr:
  assumes "ring_inv L r"
  shows "(\<exists>sig i. MigrateSignature L r old m oldSig a = Inr (sig, i)) \<longleftrightarrow>
      Ring_Verify L r old m oldSig = Inr True \<and> ActiveKeyID r a \<noteq> None"
    "MigrateSignature L r old m oldSig a = Inr (sig, i) \<Longrightarrow> Ring_Verify L r i m sig = Inr True \<and> ActiveKeyID r a = Some i"
proof -
  have none: "ActiveKeyID r a = None \<Longrightarrow> \<exists>e. Ring_Sign L r a m = Inl e" by (simp add: Ring_Sign_def)
  show "(\<exists>sig i. MigrateSignature L r old m oldSig a = Inr (sig, i)) \<longleftrightarrow>
      Ring_Verify L r old m oldSig = Inr True \<and> ActiveKeyID r a \<noteq> None"
    using sign_active [OF assms, of a _ m] none by (fastforce simp: MigrateSignature_def split: sum.splits if_splits)
  assume "MigrateSignature L r old m oldSig a = Inr (sig, i)"
  then have s: "Ring_Sign L r a m = Inr (sig, i)" by (auto simp: MigrateSignature_def split: sum.splits if_splits)
  then have "ActiveKeyID r a = Some i" by (auto simp: Ring_Sign_def split: option.splits sum.splits)
  with sign_active [OF assms this, of m] s show "Ring_Verify L r i m sig = Inr True \<and> ActiveKeyID r a = Some i" by auto
qed

section \<open>Snapshots\<close>

lemma read32_prefix: "read32 (be32 32 @ b) = 32"
  by (simp add: read32_def be32_def of_char_byte_nat [of 0, simplified] of_char_byte_nat [of 32, simplified])

lemma hydrate_roundtrip:
  assumes "lib_ok L" "entry_ok L e"
  obtains b where "hex_decode (km_PublicKey (ke_meta e)) = Some b"
    "hydratePublicOnly L (km_Algo (ke_meta e)) b (zero_entry\<lparr>ke_meta := ke_meta e\<rparr>) =
       Inr (e\<lparr>ed25519Priv := None, mldsaPriv := None, lamportPriv := None\<rparr>)"
proof -
  obtain b where b: "publicBytes L e = Some b" "km_PublicKey (ke_meta e) = hex_encode b"
    using assms(2) by (auto simp: entry_ok_def Let_def)
  have "material_ok L (km_Algo (ke_meta e)) (e\<lparr>ke_meta := zero_meta\<rparr>)" using assms(2) by (simp add: entry_ok_def Let_def)
  then have "hydratePublicOnly L (km_Algo (ke_meta e)) b (zero_entry\<lparr>ke_meta := ke_meta e\<rparr>) =
      Inr (e\<lparr>ed25519Priv := None, mldsaPriv := None, lamportPriv := None\<rparr>)"
  proof (cases rule: material_ok_cases)
    case (ed sk pk)
    then show ?thesis using b ed_okD(2) [OF assms(1) ed(2)]
      by (cases e) (auto simp: publicBytes_def hydratePublicOnly_def zero_entry_def)
  next
    case (ml sk pk)
    then show ?thesis using b encoding_okD(1) [OF assms(1)]
      by (cases e) (auto simp: publicBytes_def hydratePublicOnly_def zero_entry_def)
  next
    case (lamport sk pk)
    then show ?thesis using b Lamport_roundtrip [OF lamport_pub_key [OF lamport(2)]]
      by (cases e) (auto simp: publicBytes_def hydratePublicOnly_def zero_entry_def)
  next
    case (hybrid sk pk qs qp)
    then have "b = be32 32 @ pk @ ml_MarshalPub L qp" "length pk = 32"
      using b ed_okD(2) [OF assms(1) hybrid(2)] by (auto simp: publicBytes_def Let_def size_defs)
    then show ?thesis using hybrid encoding_okD(1) [OF assms(1)] read32_prefix [of "pk @ ml_MarshalPub L qp"]
      by (cases e) (auto simp: hydratePublicOnly_def zero_entry_def Let_def size_defs be32_def)
  qed
  with b(2) show thesis by (intro that [of b]) simp_all
qed

definition material_of :: "('sk, 'pk) sig_lib \<Rightarrow> ('sk, 'pk) keyEntry \<Rightarrow> keyMaterial" where
  "material_of L e = (let (p, q) = projr (privateHex L e) in \<lparr>mat_Meta = ke_meta e, mat_PrivateHex = p, mat_PrivateHybridPQ = q\<rparr>)"

lemma load_material_of:
  assumes "lib_ok L" "entry_ok L e"
  shows "\<exists>p q. privateHex L e = Inr (p, q)" "load_material L (material_of L e) = Inr e"
proof -
  obtain b where b: "hex_decode (km_PublicKey (ke_meta e)) = Some b"
    "hydratePublicOnly L (km_Algo (ke_meta e)) b (zero_entry\<lparr>ke_meta := ke_meta e\<rparr>) =
       Inr (e\<lparr>ed25519Priv := None, mldsaPriv := None, lamportPriv := None\<rparr>)"
    using hydrate_roundtrip [OF assms] .
  have "material_ok L (km_Algo (ke_meta e)) (e\<lparr>ke_meta := zero_meta\<rparr>)" using assms(2) by (simp add: entry_ok_def Let_def)
  then have "(\<exists>p q. privateHex L e = Inr (p, q)) \<and> load_material L (material_of L e) = Inr e"
  proof (cases rule: material_ok_cases)
    case (ed sk pk)
    have "sk \<noteq> []" using ed_okD(1) [OF assms(1) ed(2)] by (auto simp: size_defs)
    with ed b ed_okD(1) [OF assms(1) ed(2)] show ?thesis
      by (cases e) (auto simp: material_of_def privateHex_def load_material_def hydratePrivate_def)
  next
    case (ml sk pk)
    obtain s where "s \<noteq> []" "ml_MarshalPriv L sk = Some s" "ml_UnmarshalPriv L s = Some sk"
      using encoding_okD(2) [OF assms(1)] by blast
    with ml b show ?thesis by (cases e) (auto simp: material_of_def privateHex_def load_material_def hydratePrivate_def)
  next
    case (lamport sk pk)
    then have "lamport_key sk" by (simp add: lamport_pair_def)
    with length_Lamport_Bytes [OF this] have "Lamport_Bytes sk \<noteq> []" by (auto simp: lamportKeySize_def)
    with lamport b Lamport_roundtrip [OF \<open>lamport_key sk\<close>] show ?thesis
      by (cases e) (auto simp: material_of_def privateHex_def load_material_def hydratePrivate_def)
  next
    case (hybrid sk pk qs qp)
    have "sk \<noteq> []" using ed_okD(1) [OF assms(1) hybrid(2)] by (auto simp: size_defs)
    moreover obtain s where "s \<noteq> []" "ml_MarshalPriv L qs = Some s" "ml_UnmarshalPriv L s = Some qs"
      using encoding_okD(2) [OF assms(1)] by blast
    ultimately show ?thesis using hybrid b ed_okD(1) [OF assms(1) hybrid(2)]
      by (cases e) (auto simp: material_of_def privateHex_def load_material_def hydratePrivate_def)
  qed
  then show "\<exists>p q. privateHex L e = Inr (p, q)" "load_material L (material_of L e) = Inr e" by blast+
qed

text \<open>The ring that the loading loops build from a list of entries.\<close>

definition add_all :: "('sk, 'pk) keyEntry list \<Rightarrow> ('sk, 'pk) KeyRing \<Rightarrow> ('sk, 'pk) KeyRing" where
  "add_all es r = fold (\<lambda>e. add_loaded (ke_meta e) e) es r"

lemma load_full_loop_add_all:
  "lib_ok L \<Longrightarrow> \<forall>e \<in> set es. entry_ok L e \<Longrightarrow> load_full_loop L (map (material_of L) es) r = Inr (add_all es r)"
proof (induction es arbitrary: r)
  case (Cons e es)
  have "mat_Meta (material_of L e) = ke_meta e" by (simp add: material_of_def split: prod.splits)
  with Cons load_material_of(2) [of L e] show ?case by (simp add: add_all_def)
qed (simp add: add_all_def)

lemma marshal_loop_entries:
  assumes "lib_ok L" "\<forall>m \<in> set ms. \<exists>e. kr_keys r (km_ID m) = Some e \<and> entry_ok L e \<and> ke_meta e = m"
  shows "marshal_loop L r ms = Inr (map (\<lambda>m. material_of L (the (kr_keys r (km_ID m)))) ms)"
  using assms(2)
proof (induction ms)
  case (Cons m ms)
  then obtain e where e: "kr_keys r (km_ID m) = Some e" "entry_ok L e" "ke_meta e = m" by auto
  obtain p q where "privateHex L e = Inr (p, q)" using load_material_of(1) [OF assms(1) e(2)] by blast
  with e Cons show ?case by (simp add: material_of_def)
qed simp

lemma add_all_keys:
  assumes "\<forall>e \<in> set es. kr_keys r (km_ID (ke_meta e)) = Some e"
  shows "kr_keys (add_all es s) i = (if \<exists>e \<in> set es. km_ID (ke_meta e) = i then kr_keys r i else kr_keys s i)"
  using assms by (induction es arbitrary: s) (auto simp: add_all_def add_loaded_def)

lemma add_all_active:
  assumes "\<forall>e \<in> set es. km_Active (ke_meta e) \<longrightarrow> kr_active r (km_Algo (ke_meta e)) = Some (km_ID (ke_meta e))"
  shows "kr_active (add_all es s) a = (if \<exists>e \<in> set es. km_Active (ke_meta e) \<and> km_Algo (ke_meta e) = a then kr_active r a else kr_active s a)"
  using assms by (induction es arbitrary: s) (auto simp: add_all_def add_loaded_def)

lemma add_all_max:
  assumes "\<forall>e \<in> set es. km_Algo (ke_meta e) = a \<longrightarrow> km_Version (ke_meta e) \<le> n" "kr_max s a \<le> n"
    and "kr_max s a = n \<or> (\<exists>e \<in> set es. km_Algo (ke_meta e) = a \<and> km_Version (ke_meta e) = n)"
  shows "kr_max (add_all es s) a = n"
  using assms
proof (induction es arbitrary: s)
  case (Cons e es)
  have "kr_max (add_loaded (ke_meta e) e s) a = (if km_Algo (ke_meta e) = a then max (km_Version (ke_meta e)) (kr_max s a) else kr_max s a)"
    by (simp add: add_loaded_def)
  moreover have "kr_max (add_all es (add_loaded (ke_meta e) e s)) a = n"
    by (rule Cons.IH) (use Cons.prems calculation in \<open>auto simp: max_def split: if_splits\<close>)
  ultimately show ?case by (simp add: add_all_def)
qed (simp add: add_all_def)

text \<open>The entries in the order the snapshots list them.\<close>

definition listed :: "gostring list \<Rightarrow> ('sk, 'pk) KeyRing \<Rightarrow> ('sk, 'pk) keyEntry list" where
  "listed ks r = map (\<lambda>m. the (kr_keys r (km_ID m))) (List_keys ks r)"

lemma set_sort_metas [simp]: "set (sort_metas ms) = set ms"
  by (simp add: sort_metas_def)

lemma listed_metas:
  assumes "ring_inv L r" "ranges ks (kr_keys r)" "m \<in> set (List_keys ks r)"
  shows "\<exists>e. kr_keys r (km_ID m) = Some e \<and> entry_ok L e \<and> ke_meta e = m"
proof -
  obtain e where "e \<in> set (range_values ks (kr_keys r))" "m = ke_meta e" using assms(3) by (auto simp: List_keys_def)
  then obtain i where "kr_keys r i = Some e" using set_range_values [OF assms(2)] by (auto simp: ran_def)
  with ring_invD(3,4) [OF assms(1)] \<open>m = ke_meta e\<close> show ?thesis by blast
qed

lemma set_listed:
  assumes "ring_inv L r" "ranges ks (kr_keys r)"
  shows "set (listed ks r) = ran (kr_keys r)" "map ke_meta (listed ks r) = List_keys ks r"
proof -
  have "ke_meta (the (kr_keys r (km_ID m))) = m" if "m \<in> set (List_keys ks r)" for m using listed_metas [OF assms that] by auto
  then show "map ke_meta (listed ks r) = List_keys ks r" by (simp add: listed_def map_idI)
  have "the (kr_keys r (km_ID (ke_meta e))) = e" if "e \<in> ran (kr_keys r)" for e
    using that ring_invD(4) [OF assms(1)] by (auto simp: ran_def)
  then show "set (listed ks r) = ran (kr_keys r)"
    by (simp add: listed_def List_keys_def set_range_values [OF assms(2)] image_image)
qed

text \<open>What the loading loops need to know of a ring: how the keys and the two indices fit together.\<close>

definition ring_shape :: "('sk, 'pk) KeyRing \<Rightarrow> bool" where
  "ring_shape r \<longleftrightarrow>
     (\<forall>i e. kr_keys r i = Some e \<longrightarrow> km_ID (ke_meta e) = i \<and> km_Version (ke_meta e) \<le> kr_max r (km_Algo (ke_meta e)) \<and>
        (km_Active (ke_meta e) \<longleftrightarrow> kr_active r (km_Algo (ke_meta e)) = Some i)) \<and>
     (\<forall>a i. kr_active r a = Some i \<longrightarrow> (\<exists>e. kr_keys r i = Some e \<and> km_Algo (ke_meta e) = a \<and> km_Version (ke_meta e) = kr_max r a)) \<and>
     (\<forall>a. 0 \<le> kr_max r a \<and> (kr_active r a = None \<longleftrightarrow> kr_max r a = 0))"

lemma ring_shapeD:
  assumes "ring_shape r"
  shows "kr_keys r i = Some e \<Longrightarrow> km_ID (ke_meta e) = i"
    "kr_keys r i = Some e \<Longrightarrow> km_Version (ke_meta e) \<le> kr_max r (km_Algo (ke_meta e))"
    "kr_keys r i = Some e \<Longrightarrow> km_Active (ke_meta e) \<longleftrightarrow> kr_active r (km_Algo (ke_meta e)) = Some i"
    "kr_active r a = Some i \<Longrightarrow> \<exists>e. kr_keys r i = Some e \<and> km_Algo (ke_meta e) = a \<and> km_Version (ke_meta e) = kr_max r a"
    "0 \<le> kr_max r a" "kr_active r a = None \<longleftrightarrow> kr_max r a = 0"
  using assms unfolding ring_shape_def by blast+

lemma ring_inv_shape: "ring_inv L r \<Longrightarrow> ring_shape r"
  unfolding ring_inv_def ring_shape_def by blast

lemma add_all_shape:
  assumes "ring_shape r" "set es = ran (kr_keys r)"
  shows "add_all es NewKeyRing = r"
proof -
  let ?es = es
  note inv = ring_shapeD [OF assms(1)]
  have mem: "e \<in> set ?es \<longleftrightarrow> kr_keys r (km_ID (ke_meta e)) = Some e" for e
    unfolding assms(2) using inv(1) by (auto simp: ran_def)
  have "kr_keys (add_all ?es NewKeyRing) i = kr_keys r i" for i
  proof -
    have "kr_keys (add_all ?es NewKeyRing) i = (if \<exists>e \<in> set ?es. km_ID (ke_meta e) = i then kr_keys r i else None)"
      using add_all_keys [of ?es r NewKeyRing i] by (simp add: mem NewKeyRing_def)
    moreover have "\<exists>e \<in> set ?es. km_ID (ke_meta e) = i" if "kr_keys r i = Some e" for e
      using inv(1) [OF that] that mem by blast
    ultimately show ?thesis by (cases "kr_keys r i") auto
  qed
  moreover have "kr_active (add_all ?es NewKeyRing) a = kr_active r a" for a
  proof -
    have "kr_active (add_all ?es NewKeyRing) a = (if \<exists>e \<in> set ?es. km_Active (ke_meta e) \<and> km_Algo (ke_meta e) = a then kr_active r a else None)"
    proof -
      have "\<forall>e \<in> set ?es. km_Active (ke_meta e) \<longrightarrow> kr_active r (km_Algo (ke_meta e)) = Some (km_ID (ke_meta e))"
        using inv(3) mem by blast
      from add_all_active [OF this, of NewKeyRing a] show ?thesis unfolding NewKeyRing_empty .
    qed
    moreover have "\<exists>e \<in> set ?es. km_Active (ke_meta e) \<and> km_Algo (ke_meta e) = a" if "kr_active r a = Some i" for i
      using inv(4) [OF that] inv(1,3) that mem by metis
    ultimately show ?thesis by (cases "kr_active r a") auto
  qed
  moreover have "kr_max (add_all ?es NewKeyRing) a = kr_max r a" for a
  proof (rule add_all_max)
    show "\<forall>e \<in> set ?es. km_Algo (ke_meta e) = a \<longrightarrow> km_Version (ke_meta e) \<le> kr_max r a" using inv(2) mem by auto
    show "kr_max NewKeyRing a \<le> kr_max r a" using inv(5) by (simp add: NewKeyRing_def)
    show "kr_max NewKeyRing a = kr_max r a \<or> (\<exists>e \<in> set ?es. km_Algo (ke_meta e) = a \<and> km_Version (ke_meta e) = kr_max r a)"
    proof (cases "kr_active r a")
      case (Some i)
      from inv(4) [OF Some] show ?thesis using inv(1) mem by metis
    qed (use inv(6) [of a] in \<open>simp add: NewKeyRing_def\<close>)
  qed
  ultimately show ?thesis by (simp add: KeyRing.equality fun_eq_iff)
qed

text \<open>
  C36: the full snapshot loses nothing. Marshalling a reachable ring with its private keys
  succeeds, in whatever order the map is ranged over, and loading the document gives the same
  ring back: the same keys with their private halves, the same active keys and version counters.
\<close>

theorem full_snapshot_roundtrip:
  assumes "ring_reach L r" "ranges ks (kr_keys r)"
  shows "\<exists>d. MarshalFull L ks r = Inr d \<and> LoadFullKeyRing L (Some d) = Inr r"
proof -
  note inv = ring_reach_inv [OF assms(1)]
  let ?mats = "map (material_of L) (listed ks r)"
  have "marshal_loop L r (List_keys ks r) = Inr ?mats"
    using marshal_loop_entries [OF ring_invD(1) [OF inv]] listed_metas [OF inv assms(2)] by (simp add: listed_def comp_def)
  then have "MarshalFull L ks r = Inr \<lparr>doc_Version = 1, doc_Keys = ?mats\<rparr>"
    by (simp add: MarshalFull_def List_keys_def)
  moreover have "load_full_loop L ?mats NewKeyRing = Inr r"
    using load_full_loop_add_all [OF ring_invD(1) [OF inv], of "listed ks r" NewKeyRing] ring_invD(3) [OF inv]
      set_listed(1) [OF inv assms(2)] add_all_shape [OF ring_inv_shape [OF inv] set_listed(1) [OF inv assms(2)]] by (auto simp: ran_def)
  ultimately show ?thesis by (simp add: LoadFullKeyRing_def)
qed

theorem full_snapshot_roundtrip_witness:
  "\<exists>ks d. MarshalFull sample_lib ks (after_create NewKeyRing) = Inr d \<and> LoadFullKeyRing sample_lib (Some d) = Inr (after_create NewKeyRing)"
proof -
  obtain ks where "ranges ks (kr_keys (after_create NewKeyRing))"
    using finite_distinct_list [OF ring_invD(2) [OF ring_reach_inv [OF sample_rings(1)]]] unfolding ranges_def by metis
  from full_snapshot_roundtrip [OF sample_rings(1) this] show ?thesis by blast
qed

text \<open>The ring that holds the public halves only.\<close>

definition public_entry :: "('sk, 'pk) keyEntry \<Rightarrow> ('sk, 'pk) keyEntry" where
  "public_entry e = e\<lparr>ed25519Priv := None, mldsaPriv := None, lamportPriv := None\<rparr>"

definition public_ring :: "('sk, 'pk) KeyRing \<Rightarrow> ('sk, 'pk) KeyRing" where
  "public_ring r = r\<lparr>kr_keys := map_option public_entry \<circ> kr_keys r\<rparr>"

lemma public_entry_simps [simp]:
  "ke_meta (public_entry e) = ke_meta e" "entry_verify L (public_entry e) = entry_verify L e"
  by (simp_all add: public_entry_def) (intro ext, simp add: entry_verify_def Let_def cong: if_cong)

lemma public_entry_cannot_sign: "entry_ok L e \<Longrightarrow> entry_sign L (public_entry e) m = Inl errNoPrivate"
  using material_ok_supported [of L "km_Algo (ke_meta e)"]
  by (auto simp: entry_ok_def Let_def entry_sign_def public_entry_def SupportedAlgos_def split: option.splits)

lemma ring_shape_public: "ring_shape r \<Longrightarrow> ring_shape (public_ring r)"
  unfolding ring_shape_def public_ring_def by (auto, metis public_entry_simps(1))

lemma load_public_loop_add_all:
  "lib_ok L \<Longrightarrow> \<forall>e \<in> set es. entry_ok L e \<Longrightarrow>
    load_public_loop L (map ke_meta es) r = Inr (add_all (map public_entry es) r)"
proof (induction es arbitrary: r)
  case (Cons e es)
  obtain b where "hex_decode (km_PublicKey (ke_meta e)) = Some b"
    "hydratePublicOnly L (km_Algo (ke_meta e)) b (zero_entry\<lparr>ke_meta := ke_meta e\<rparr>) = Inr (public_entry e)"
    using hydrate_roundtrip [OF Cons.prems(1), of e] Cons.prems(2) unfolding public_entry_def by auto
  with Cons show ?case by (simp add: add_all_def)
qed (simp add: add_all_def)

text \<open>
  C37: the public snapshot gives a verify-only ring. Loading what \<open>MarshalPublic\<close> lists of a
  reachable ring succeeds; the new ring has the same metadata and active keys and verifies
  exactly what the old one verifies, and every attempt to sign with one of its keys reports that
  the private key is not present.
\<close>

theorem public_snapshot_verify_only:
  assumes "ring_reach L r" "ranges ks (kr_keys r)"
  shows "\<exists>r'. LoadPublicKeyRing L (Some (MarshalPublic ks r)) = Inr r' \<and> ActiveKeyID r' = ActiveKeyID r \<and>
    GetMeta r' = GetMeta r \<and> Ring_Verify L r' = Ring_Verify L r \<and>
    (\<forall>i m. SignWithKey L r' i m = Inl (if i \<in> dom (kr_keys r) then errNoPrivate else errUnknownKey i))"
proof -
  note inv = ring_reach_inv [OF assms(1)]
  have "\<forall>e \<in> set (listed ks r). entry_ok L e"
    using set_listed(1) [OF inv assms(2)] ring_invD(3) [OF inv] by (auto simp: ran_def)
  then have "load_public_loop L (List_keys ks r) NewKeyRing = Inr (add_all (map public_entry (listed ks r)) NewKeyRing)"
    using load_public_loop_add_all [OF ring_invD(1) [OF inv], of "listed ks r" NewKeyRing]
    by (simp add: set_listed(2) [OF inv assms(2)])
  moreover have "add_all (map public_entry (listed ks r)) NewKeyRing = public_ring r"
    by (rule add_all_shape [OF ring_shape_public [OF ring_inv_shape [OF inv]]])
      (auto simp: set_listed(1) [OF inv assms(2)] public_ring_def ran_def)
  ultimately have "LoadPublicKeyRing L (Some (MarshalPublic ks r)) = Inr (public_ring r)"
    by (simp add: LoadPublicKeyRing_def MarshalPublic_def)
  moreover have "ActiveKeyID (public_ring r) = ActiveKeyID r" by (rule ext) (simp add: ActiveKeyID_def public_ring_def)
  moreover have "GetMeta (public_ring r) = GetMeta r" by (rule ext) (simp add: GetMeta_def public_ring_def split: option.splits)
  moreover have "Ring_Verify L (public_ring r) = Ring_Verify L r"
    by (intro ext) (simp add: Ring_Verify_def public_ring_def split: option.splits)
  moreover have "SignWithKey L (public_ring r) i m = Inl (if i \<in> dom (kr_keys r) then errNoPrivate else errUnknownKey i)" for i m
    using public_entry_cannot_sign [OF ring_invD(3) [OF inv], of i _ m]
    by (cases "kr_keys r i") (auto simp: SignWithKey_def public_ring_def)
  ultimately show ?thesis by blast
qed

theorem public_snapshot_verify_only_witness:
  "\<exists>ks r'. LoadPublicKeyRing sample_lib (Some (MarshalPublic ks (after_create NewKeyRing))) = Inr r' \<and>
     ActiveKeyID r' = ActiveKeyID (after_create NewKeyRing)"
proof -
  obtain ks where "ranges ks (kr_keys (after_create NewKeyRing))"
    using finite_distinct_list [OF ring_invD(2) [OF ring_reach_inv [OF sample_rings(1)]]] unfolding ranges_def by metis
  from public_snapshot_verify_only [OF sample_rings(1) this] show ?thesis by blast
qed

section \<open>The keystore interface\<close>

text \<open>
  What the clients of a keystore call, \<^verbatim>\<open>keystore.Keystore\<close> as an interface value, and the
  contract they rely on: \<open>view s\<close> is the interface value of a backend in state \<open>s\<close>.
\<close>

record Keystore =
  ks_ActiveKeyID :: "Algo \<Rightarrow> gostring option"
  ks_Sign :: "Algo \<Rightarrow> bytes \<Rightarrow> crypto_error + bytes \<times> gostring"
  ks_Verify :: "gostring \<Rightarrow> bytes \<Rightarrow> bytes \<Rightarrow> crypto_error + bool"

locale keystore =
  fixes view :: "'s \<Rightarrow> Keystore" and inv :: "'s \<Rightarrow> bool" and step :: "'s \<Rightarrow> 's \<Rightarrow> bool"
  assumes step_inv: "inv s \<Longrightarrow> step s s' \<Longrightarrow> inv s'"
    and signs: "inv s \<Longrightarrow> ks_ActiveKeyID (view s) a = Some i \<Longrightarrow>
      \<exists>sig. ks_Sign (view s) a m = Inr (sig, i) \<and> ks_Verify (view s) i m sig = Inr True"
    and no_key: "inv s \<Longrightarrow> ks_ActiveKeyID (view s) a = None \<Longrightarrow> \<exists>e. ks_Sign (view s) a m = Inl e"
    and verify_stable: "inv s \<Longrightarrow> step s s' \<Longrightarrow> ks_Verify (view s) i m sig = Inr b \<Longrightarrow> ks_Verify (view s') i m sig = Inr b"
    and id_no_hash: "inv s \<Longrightarrow> ks_ActiveKeyID (view s) a = Some i \<Longrightarrow> CHR ''#'' \<notin> set i"
begin

lemma steps_inv: "step\<^sup>*\<^sup>* s s' \<Longrightarrow> inv s \<Longrightarrow> inv s'"
  by (induction rule: rtranclp_induct) (blast intro: step_inv)+

lemma verify_steps: "step\<^sup>*\<^sup>* s s' \<Longrightarrow> inv s \<Longrightarrow> ks_Verify (view s) i m sig = Inr b \<Longrightarrow> ks_Verify (view s') i m sig = Inr b"
proof (induction rule: rtranclp_induct)
  case (step s' s'')
  then show ?case using verify_stable steps_inv by blast
qed

lemma sign_InrE:
  assumes "inv s" "ks_Sign (view s) a m = Inr (sig, i)"
  shows "ks_ActiveKeyID (view s) a = Some i" "ks_Verify (view s) i m sig = Inr True"
proof -
  show a: "ks_ActiveKeyID (view s) a = Some i"
    using no_key [OF assms(1), of a m] signs [OF assms(1), of a _ m] assms(2) by (cases "ks_ActiveKeyID (view s) a") fastforce+
  show "ks_Verify (view s) i m sig = Inr True" using signs [OF assms(1) a, of m] assms(2) by auto
qed

end

text \<open>The memory keystore is a thin adapter of the ring.\<close>

definition MemoryKeystore :: "('sk, 'pk) sig_lib \<Rightarrow> ('sk, 'pk) KeyRing \<Rightarrow> Keystore" where
  "MemoryKeystore L r = \<lparr>ks_ActiveKeyID = ActiveKeyID r, ks_Sign = Ring_Sign L r, ks_Verify = Ring_Verify L r\<rparr>"

interpretation memory: keystore "MemoryKeystore L" "ring_inv L" "ring_step L" for L
  by unfold_locales
    (auto simp: MemoryKeystore_def ring_inv_step verify_step active_id_no_hash sign_active, simp add: Ring_Sign_def)

end
