(* ===== verification/Receipts.thy ===== *)
theory Receipts
  imports Go_Float Go_Time Go_Encoding Hitl Keyring
begin

text \<open>
  Provenance receipts, \<^verbatim>\<open>engine/internal/receipts\<close>: the canonical hash (\<^verbatim>\<open>canonical.go\<close>), the
  service that builds, signs and verifies receipts and the in-memory store with its lineage
  search (\<^verbatim>\<open>service.go\<close>), and the two derived shapes (\<^verbatim>\<open>agent_receipt.go\<close>, \<^verbatim>\<open>w3c_vc.go\<close>).
  The service talks to the keystore through the interface of theory \<open>Keyring\<close>; clock, fresh
  identifier and the outcome of the telemetry sink are arguments, and \<open>rnd\<close> is the rounding of
  a float operation. \<^verbatim>\<open>sort.Slice\<close> is the stable sort, which it is up to twelve elements; with
  distinct keys every sort gives the same list.
\<close>

section \<open>Data\<close>

type_synonym ReceiptVerdict = gostring

fun FromDecision :: "Verdict \<Rightarrow> ReceiptVerdict" where
  "FromDecision VerdictApprove = ''APPROVE''"
| "FromDecision VerdictAbstain = ''ABSTAIN''"
| "FromDecision VerdictReject = ''REJECT''"
| "FromDecision VerdictUnknown = ''ABSTAIN''"

record FacetOutput =
  fo_Kind :: gostring
  fo_Verdict :: ReceiptVerdict
  fo_Confidence :: float64
  fo_Reason :: gostring

record ProviderReceipt =
  pr_Provider :: gostring
  pr_TrustLevel :: gostring
  pr_ReceiptHash :: gostring

record HITLResolution =
  hr_TicketID :: gostring
  hr_Action :: gostring
  hr_Reviewer :: gostring
  hr_ResolvedAt :: int
  hr_Note :: gostring

record Proof =
  pf_Scheme :: gostring
  pf_Signature :: gostring
  pf_VerificationMethod :: gostring
  pf_SignedAt :: int

record DecisionReceipt =
  rc_ID :: gostring
  rc_IssuedAt :: int
  rc_Issuer :: gostring
  rc_Subject :: gostring
  rc_SpecID :: gostring
  rc_EvidenceRoot :: gostring
  rc_ModelID :: gostring
  rc_Aggregate :: ReceiptVerdict
  rc_VetoedBy :: gostring
  rc_Confidence :: float64
  rc_Facets :: "FacetOutput list"
  rc_ProviderReceipts :: "ProviderReceipt list"
  rc_HITL :: "HITLResolution option"
  rc_Proof :: "Proof option"

section \<open>Canonical hash\<close>

definition writeU32 :: "nat \<Rightarrow> bytes" where
  "writeU32 n = be32 (word_of_int (int n))"

definition writeF64 :: "float64 \<Rightarrow> bytes" where
  "writeF64 v = be64 (uint (Float64bits v))"

text \<open>\<open>lp32\<close> is the \<^verbatim>\<open>writeLP\<close> of this package, with a length of four bytes.\<close>

definition facet_text :: "FacetOutput \<Rightarrow> bytes" where
  "facet_text f = lp32 (fo_Kind f) @ lp32 (fo_Verdict f) @ writeF64 (fo_Confidence f) @ lp32 (fo_Reason f)"

definition provider_text :: "ProviderReceipt \<Rightarrow> bytes" where
  "provider_text p = lp32 (pr_Provider p) @ lp32 (pr_TrustLevel p) @ lp32 (pr_ReceiptHash p)"

definition hitl_text :: "HITLResolution option \<Rightarrow> bytes" where
  "hitl_text h =
     (case h of None \<Rightarrow> [byte 0]
      | Some h \<Rightarrow> byte 1 # concat (map lp32 [hr_TicketID h, hr_Action h, hr_Reviewer h, format_nanos (hr_ResolvedAt h), hr_Note h]))"

definition header_fields :: "DecisionReceipt \<Rightarrow> gostring list" where
  "header_fields r = [rc_ID r, format_nanos (rc_IssuedAt r), rc_Issuer r, rc_Subject r, rc_SpecID r,
     rc_EvidenceRoot r, rc_ModelID r, rc_Aggregate r, rc_VetoedBy r]"

definition sortedFacets :: "DecisionReceipt \<Rightarrow> FacetOutput list" where
  "sortedFacets r = sort_key fo_Kind (rc_Facets r)"

definition sortedProvs :: "DecisionReceipt \<Rightarrow> ProviderReceipt list" where
  "sortedProvs r = sort_key pr_ReceiptHash (rc_ProviderReceipts r)"

definition canonical_text :: "DecisionReceipt \<Rightarrow> bytes" where
  "canonical_text r =
     concat (map lp32 (header_fields r)) @ writeF64 (rc_Confidence r) @
     writeU32 (length (sortedFacets r)) @ concat (map facet_text (sortedFacets r)) @
     writeU32 (length (sortedProvs r)) @ concat (map provider_text (sortedProvs r)) @
     hitl_text (rc_HITL r)"

definition CanonicalHash :: "DecisionReceipt \<Rightarrow> gostring" where
  "CanonicalHash r = hex_encode (sha256 (canonical_text r))"

section \<open>Store\<close>

datatype receipt_error =
  ErrNotFound
| ErrCycle
| ErrReceipt gostring
| WrapReceipt gostring receipt_error
| ErrKeystore gostring crypto_error

record InMemoryStore =
  byID :: "gostring \<rightharpoonup> DecisionReceipt"
  byHash :: "gostring \<rightharpoonup> DecisionReceipt"

definition NewInMemoryStore :: InMemoryStore where
  "NewInMemoryStore = \<lparr>byID = Map.empty, byHash = Map.empty\<rparr>"

definition Put :: "InMemoryStore \<Rightarrow> DecisionReceipt \<Rightarrow> receipt_error + InMemoryStore" where
  "Put s r =
     (if rc_ID r = [] then Inl (ErrReceipt ''receipts: cannot store receipt without ID'')
      else let hash = CanonicalHash (r\<lparr>rc_Proof := None\<rparr>)
        in Inr \<lparr>byID = (byID s)(rc_ID r \<mapsto> r), byHash = (byHash s)(hash \<mapsto> r)\<rparr>)"

definition GetByID :: "InMemoryStore \<Rightarrow> gostring \<Rightarrow> receipt_error + DecisionReceipt" where
  "GetByID s i = (case byID s i of None \<Rightarrow> Inl ErrNotFound | Some r \<Rightarrow> Inr r)"

definition GetByHash :: "InMemoryStore \<Rightarrow> gostring \<Rightarrow> receipt_error + DecisionReceipt" where
  "GetByHash s h = (case byHash s h of None \<Rightarrow> Inl ErrNotFound | Some r \<Rightarrow> Inr r)"

definition List_receipts :: "gostring list \<Rightarrow> InMemoryStore \<Rightarrow> int \<Rightarrow> DecisionReceipt list" where
  "List_receipts ks s limit =
     (let out = sort_desc rc_IssuedAt (range_values ks (byID s))
      in if limit > 0 \<and> int (length out) > limit then take (nat limit) out else out)"

text \<open>
  The lineage search: the links of one receipt, the receipts of one level, and the levels. The
  search by levels is a loop whose end depends on the store, so it may be undefined.
\<close>

fun link_loop :: "InMemoryStore \<Rightarrow> ProviderReceipt list \<Rightarrow> gostring set \<Rightarrow> gostring list \<Rightarrow> receipt_error + gostring set \<times> gostring list" where
  "link_loop s [] seen next = Inr (seen, next)"
| "link_loop s (pr # prs) seen next =
     (case GetByHash s (pr_ReceiptHash pr) of
        Inl e \<Rightarrow> link_loop s prs seen next
      | Inr anc \<Rightarrow> if rc_ID anc \<in> seen then Inl ErrCycle else link_loop s prs (insert (rc_ID anc) seen) (next @ [rc_ID anc]))"

fun level_loop ::
  "InMemoryStore \<Rightarrow> gostring \<Rightarrow> gostring list \<Rightarrow> gostring set \<Rightarrow> gostring list \<Rightarrow> DecisionReceipt list \<Rightarrow>
     receipt_error + gostring set \<times> gostring list \<times> DecisionReceipt list" where
  "level_loop s start [] seen next out = Inr (seen, next, out)"
| "level_loop s start (fid # fids) seen next out =
     (case GetByID s fid of
        Inl e \<Rightarrow> if e = ErrNotFound then level_loop s start fids seen next out else Inl e
      | Inr r \<Rightarrow>
          (case link_loop s (rc_ProviderReceipts r) seen next of
             Inl e \<Rightarrow> Inl e
           | Inr (seen', next') \<Rightarrow> level_loop s start fids seen' next' (if fid \<noteq> start then out @ [r] else out)))"

partial_function (option) depth_loop ::
  "InMemoryStore \<Rightarrow> gostring \<Rightarrow> int \<Rightarrow> int \<Rightarrow> gostring set \<Rightarrow> gostring list \<Rightarrow> DecisionReceipt list \<Rightarrow>
     (receipt_error + DecisionReceipt list) option" where
  "depth_loop s start maxDepth depth seen frontier out =
     (if frontier = [] then Some (Inr out)
      else if maxDepth > 0 \<and> depth \<ge> maxDepth then Some (Inr out)
      else (case level_loop s start frontier seen [] out of
              Inl e \<Rightarrow> Some (Inl e)
            | Inr (seen', next, out') \<Rightarrow> depth_loop s start maxDepth (depth + 1) seen' next out'))"

definition Ancestors :: "InMemoryStore \<Rightarrow> gostring \<Rightarrow> int \<Rightarrow> (receipt_error + DecisionReceipt list) option" where
  "Ancestors s i maxDepth = depth_loop s i maxDepth 0 {i} [i] []"

section \<open>Service\<close>

record Service =
  sv_Keystore :: Keystore
  sv_SigningAlgo :: Algo
  sv_IssuerDID :: gostring
  sv_Sink :: "(DecisionReceipt \<Rightarrow> receipt_error option) option"

definition NoopSink :: "DecisionReceipt \<Rightarrow> receipt_error option" where
  "NoopSink r = None"

definition NewService :: "Keystore \<Rightarrow> Service" where
  "NewService ks = \<lparr>sv_Keystore = ks, sv_SigningAlgo = AlgoHybrid, sv_IssuerDID = [], sv_Sink = Some NoopSink\<rparr>"

text \<open>The identifier minted from sixteen random bytes, in the layout of a version 4 UUID.\<close>

definition defaultNewID :: "bytes \<Rightarrow> gostring" where
  "defaultNewID b =
     (let b6 = char_of ((of_char (b ! 6) :: nat) mod 16 + 64); b8 = char_of ((of_char (b ! 8) :: nat) mod 64 + 128);
          c = b[6 := b6, 8 := b8];
          part = (\<lambda>i j. hex_encode (take (j - i) (drop i c)))
      in part 0 4 @ ''-'' @ part 4 6 @ ''-'' @ part 6 8 @ ''-'' @ part 8 10 @ ''-'' @ part 10 16)"

definition facetsFromCommit :: "FacetVerdict list \<Rightarrow> FacetOutput list" where
  "facetsFromCommit fs = sort_key fo_Kind
     (map (\<lambda>f. \<lparr>fo_Kind = fv_Kind f, fo_Verdict = FromDecision (fv_Verdict f), fo_Confidence = fv_Confidence f, fo_Reason = fv_Reason f\<rparr>) fs)"

fun confidence_sum :: "(float64 \<Rightarrow> float64) \<Rightarrow> float64 \<Rightarrow> int \<Rightarrow> FacetVerdict list \<Rightarrow> float64 \<times> int" where
  "confidence_sum rnd acc n [] = (acc, n)"
| "confidence_sum rnd acc n (f # fs) =
     (if fv_Kind f = FacetSafety \<or> fv_Kind f = FacetEquivocation then confidence_sum rnd acc n fs
      else confidence_sum rnd (rnd (acc + fv_Confidence f)) (n + 1) fs)"

definition meanNonCriticalConfidence :: "(float64 \<Rightarrow> float64) \<Rightarrow> FacetVerdict list \<Rightarrow> float64" where
  "meanNonCriticalConfidence rnd fs = (let (acc, n) = confidence_sum rnd 0 0 fs in if n = 0 then 0 else rnd (acc / of_int n))"

definition normaliseProviders :: "ProviderReceipt list \<Rightarrow> ProviderReceipt list" where
  "normaliseProviders ps = (if ps = [] then [] else sort_key pr_ReceiptHash ps)"

text \<open>The response of the review service, with its action as text.\<close>

record review_response =
  rv_Action :: gostring
  rv_Reason :: gostring
  rv_TicketID :: gostring

record EmitInput =
  in_Commit :: DecisionCommit
  in_EvidenceRoot :: gostring
  in_ModelID :: gostring
  in_ProviderReceipts :: "ProviderReceipt list"
  in_HITL :: "review_response option"
  in_Reviewer :: gostring

definition unsigned_receipt :: "(float64 \<Rightarrow> float64) \<Rightarrow> gostring \<Rightarrow> int \<Rightarrow> gostring \<Rightarrow> EmitInput \<Rightarrow> DecisionReceipt" where
  "unsigned_receipt rnd newid now issuer inp =
     (let c = in_Commit inp in
      \<lparr>rc_ID = newid, rc_IssuedAt = now, rc_Issuer = issuer, rc_Subject = dc_DecisionID c, rc_SpecID = SpecID (dc_Decision c),
       rc_EvidenceRoot = in_EvidenceRoot inp, rc_ModelID = in_ModelID inp, rc_Aggregate = FromDecision (dc_Aggregate c),
       rc_VetoedBy = dc_VetoedBy c, rc_Confidence = meanNonCriticalConfidence rnd (dc_FacetVerdicts c),
       rc_Facets = facetsFromCommit (dc_FacetVerdicts c), rc_ProviderReceipts = normaliseProviders (in_ProviderReceipts inp),
       rc_HITL = map_option (\<lambda>h. \<lparr>hr_TicketID = rv_TicketID h, hr_Action = rv_Action h, hr_Reviewer = in_Reviewer inp,
         hr_ResolvedAt = now, hr_Note = rv_Reason h\<rparr>) (in_HITL inp),
       rc_Proof = None\<rparr>)"

text \<open>A failure of the sink comes with the receipt, which is stored by then.\<close>

datatype emit_result =
  EmitFailed receipt_error
| Emitted DecisionReceipt
| EmittedSinkFailed DecisionReceipt receipt_error

definition Emit ::
  "(float64 \<Rightarrow> float64) \<Rightarrow> Service \<Rightarrow> gostring \<Rightarrow> int \<Rightarrow> InMemoryStore \<Rightarrow> EmitInput \<Rightarrow> emit_result \<times> InMemoryStore" where
  "Emit rnd sv newid now st inp =
     (if dc_DecisionID (in_Commit inp) = [] then (EmitFailed (ErrReceipt ''receipts: EmitInput.Commit.DecisionID is empty''), st)
      else if dc_Aggregate (in_Commit inp) = VerdictUnknown then (EmitFailed (ErrReceipt ''receipts: EmitInput.Commit.Aggregate is UNKNOWN''), st)
      else (case ks_ActiveKeyID (sv_Keystore sv) (sv_SigningAlgo sv) of
        None \<Rightarrow> (EmitFailed (ErrReceipt (''receipts: no active key for algo '' @ sv_SigningAlgo sv)), st)
      | Some activeID \<Rightarrow>
          let issuer = (if sv_IssuerDID sv \<noteq> [] then sv_IssuerDID sv else ''did:cp:'' @ activeID);
              r = unsigned_receipt rnd newid now issuer inp;
              digest = CanonicalHash r
          in (case ks_Sign (sv_Keystore sv) (sv_SigningAlgo sv) digest of
                Inl e \<Rightarrow> (EmitFailed (ErrKeystore ''receipts: sign'' e), st)
              | Inr (sig, keyID) \<Rightarrow>
                  let proof = \<lparr>pf_Scheme = sv_SigningAlgo sv, pf_Signature = base64_encode sig,
                               pf_VerificationMethod = rc_Issuer r @ ''#'' @ keyID, pf_SignedAt = rc_IssuedAt r\<rparr>;
                      signed = r\<lparr>rc_Proof := Some proof\<rparr>
                  in (case Put st signed of
                        Inl e \<Rightarrow> (EmitFailed (WrapReceipt ''receipts: store'' e), st)
                      | Inr st' \<Rightarrow>
                          (case sv_Sink sv of
                             None \<Rightarrow> (Emitted signed, st')
                           | Some sink \<Rightarrow>
                               (case sink signed of
                                  None \<Rightarrow> (Emitted signed, st')
                                | Some e \<Rightarrow> (EmittedSinkFailed signed (WrapReceipt ''receipts: sink'' e), st')))))))"

fun last_index_below :: "gostring \<Rightarrow> char \<Rightarrow> nat \<Rightarrow> int" where
  "last_index_below s c 0 = - 1"
| "last_index_below s c (Suc i) = (if s ! i = c then int i else last_index_below s c i)"

definition lastIndex :: "gostring \<Rightarrow> char \<Rightarrow> int" where
  "lastIndex s c = last_index_below s c (length s)"

definition Verify_receipt :: "Service \<Rightarrow> DecisionReceipt \<Rightarrow> receipt_error + bool" where
  "Verify_receipt sv r =
     (case rc_Proof r of
        None \<Rightarrow> Inl (ErrReceipt ''receipts: receipt is not signed'')
      | Some proof \<Rightarrow> (case base64_decode (pf_Signature proof) of
          None \<Rightarrow> Inl (WrapReceipt ''receipts: bad signature encoding'' (ErrReceipt ''base64''))
        | Some sig \<Rightarrow>
            let digest = CanonicalHash (r\<lparr>rc_Proof := None\<rparr>);
                vm = pf_VerificationMethod proof;
                idx = lastIndex vm CHR ''#'';
                keyID = (if idx \<ge> 0 then drop (nat (idx + 1)) vm else vm)
            in (case ks_Verify (sv_Keystore sv) keyID digest sig of Inl e \<Rightarrow> Inl (ErrKeystore [] e) | Inr ok \<Rightarrow> Inr ok)))"

section \<open>The canonical text can be read back\<close>

text \<open>
  The receipts the hash is injective on: fields and lists whose lengths fit the 32-bit prefixes,
  and confidences that are values of the float type.
\<close>

definition facet_sized :: "FacetOutput \<Rightarrow> bool" where
  "facet_sized f \<longleftrightarrow> small32 (fo_Kind f) \<and> small32 (fo_Verdict f) \<and> small32 (fo_Reason f) \<and> is_float64 (fo_Confidence f)"

definition provider_sized :: "ProviderReceipt \<Rightarrow> bool" where
  "provider_sized p \<longleftrightarrow> small32 (pr_Provider p) \<and> small32 (pr_TrustLevel p) \<and> small32 (pr_ReceiptHash p)"

definition hitl_fields :: "HITLResolution \<Rightarrow> gostring list" where
  "hitl_fields h = [hr_TicketID h, hr_Action h, hr_Reviewer h, format_nanos (hr_ResolvedAt h), hr_Note h]"

definition receipt_sized :: "DecisionReceipt \<Rightarrow> bool" where
  "receipt_sized r \<longleftrightarrow> list_all small32 (header_fields r) \<and> is_float64 (rc_Confidence r) \<and>
     small32 (rc_Facets r) \<and> list_all facet_sized (rc_Facets r) \<and>
     small32 (rc_ProviderReceipts r) \<and> list_all provider_sized (rc_ProviderReceipts r) \<and>
     (case rc_HITL r of None \<Rightarrow> True | Some h \<Rightarrow> list_all small32 (hitl_fields h))"

lemma writeF64_inject:
  assumes "writeF64 v @ r = writeF64 w @ s" "is_float64 v" "is_float64 w"
  shows "v = w" "r = s"
proof -
  have *: "be64 (uint (Float64bits v)) = be64 (uint (Float64bits w))" "r = s"
    using assms(1) by (simp_all add: writeF64_def append_eq_append_conv)
  have "writeU64 (Float64bits v) = writeU64 (Float64bits w)" using *(1) by (simp add: writeU64_def)
  then show "v = w" using Float64bits_inject [OF assms(2,3)] by (simp add: writeU64_inject)
  show "r = s" by (rule *(2))
qed

lemma self_delimiting_facet: "self_delimiting facet_sized facet_text"
  unfolding self_delimiting_def
proof (intro allI impI)
  fix x y r s
  assume P: "facet_sized x" "facet_sized y" and eq: "facet_text x @ r = facet_text y @ s"
  note sz = P [unfolded facet_sized_def]
  have 0: "lp32 (fo_Kind x) @ lp32 (fo_Verdict x) @ writeF64 (fo_Confidence x) @ lp32 (fo_Reason x) @ r =
      lp32 (fo_Kind y) @ lp32 (fo_Verdict y) @ writeF64 (fo_Confidence y) @ lp32 (fo_Reason y) @ s"
    using eq by (simp add: facet_text_def)
  note 1 = lp32_inject [OF 0] note 2 = lp32_inject [OF 1(2)] note 3 = writeF64_inject [OF 2(2)] note 4 = lp32_inject [OF 3(2)]
  show "x = y \<and> r = s" using 1 2 3 4 sz by (simp add: FacetOutput.equality)
qed

lemma self_delimiting_provider: "self_delimiting provider_sized provider_text"
  unfolding self_delimiting_def
proof (intro allI impI)
  fix x y r s
  assume P: "provider_sized x" "provider_sized y" and eq: "provider_text x @ r = provider_text y @ s"
  have 0: "lp32 (pr_Provider x) @ lp32 (pr_TrustLevel x) @ lp32 (pr_ReceiptHash x) @ r =
      lp32 (pr_Provider y) @ lp32 (pr_TrustLevel y) @ lp32 (pr_ReceiptHash y) @ s"
    using eq by (simp add: provider_text_def)
  note 1 = lp32_inject [OF 0] note 2 = lp32_inject [OF 1(2)] note 3 = lp32_inject [OF 2(2)]
  show "x = y \<and> r = s" using 1 2 3 P by (simp add: provider_sized_def ProviderReceipt.equality)
qed

lemma hitl_text_inject:
  assumes "hitl_text g = hitl_text h" "case_option True (\<lambda>h. list_all small32 (hitl_fields h)) g"
    "case_option True (\<lambda>h. list_all small32 (hitl_fields h)) h"
  shows "g = h"
proof -
  have b: "byte 0 \<noteq> byte 1" using of_char_byte [of 0] of_char_byte [of 1] by (metis mod_0 mod_pos_pos_trivial one_less_numeral_iff semiring_norm(76) zero_le_one zero_neq_one)
  show ?thesis
  proof (cases g)
    case None
    with assms(1) b show ?thesis by (cases h) (simp_all add: hitl_text_def)
  next
    case (Some x)
    with assms(1) b obtain y where y: "h = Some y" by (cases h) (auto simp: hitl_text_def)
    have "concat (map lp32 (hitl_fields x)) @ [] = concat (map lp32 (hitl_fields y)) @ []"
      using assms(1) Some y by (simp add: hitl_text_def hitl_fields_def)
    from self_delimiting_list [OF self_delimiting_lp32 this] have "hitl_fields x = hitl_fields y"
      using assms(2,3) Some y by (simp add: hitl_fields_def)
    then show ?thesis using Some y by (simp add: hitl_fields_def format_nanos_inject HITLResolution.equality)
  qed
qed

lemma counted_list_inject:
  assumes "self_delimiting P enc" "writeU32 (length xs) @ concat (map enc xs) @ r = writeU32 (length ys) @ concat (map enc ys) @ s"
    and "list_all P xs" "list_all P ys" "small32 xs" "small32 ys"
  shows "xs = ys" "r = s"
proof -
  have u: "writeU32 (length xs) = writeU32 (length ys)" "concat (map enc xs) @ r = concat (map enc ys) @ s"
    using assms(2) by (simp_all add: writeU32_def append_eq_append_conv)
  have "length xs = length ys" using be32_length_inject [of xs ys] u(1) assms(5,6) by (simp add: writeU32_def)
  from self_delimiting_list [OF assms(1) u(2) this assms(3,4)] show "xs = ys" "r = s" by simp_all
qed

text \<open>A receipt without its proof and with its lists in canonical order.\<close>

definition normal_receipt :: "DecisionReceipt \<Rightarrow> DecisionReceipt" where
  "normal_receipt r = r\<lparr>rc_Facets := sortedFacets r, rc_ProviderReceipts := sortedProvs r, rc_Proof := None\<rparr>"

lemma canonical_text_inject:
  assumes "canonical_text r = canonical_text s" "receipt_sized r" "receipt_sized s"
  shows "normal_receipt r = normal_receipt s"
proof -
  note sz = assms(2,3) [unfolded receipt_sized_def]
  have sized: "list_all facet_sized (sortedFacets q)" "list_all provider_sized (sortedProvs q)" "small32 (sortedFacets q)" "small32 (sortedProvs q)"
    if "receipt_sized q" for q
    using that by (simp_all add: receipt_sized_def sortedFacets_def sortedProvs_def list_all_iff small32_def)
  note R = sized [OF assms(2)] and S = sized [OF assms(3)]
  note 0 = assms(1) [unfolded canonical_text_def]
  have h: "length (header_fields r) = length (header_fields s)" "list_all small32 (header_fields r)" "list_all small32 (header_fields s)"
    using sz by (simp_all add: header_fields_def)
  note 1 = self_delimiting_list [OF self_delimiting_lp32 0 h]
  note 2 = writeF64_inject [OF conjunct2 [OF 1]]
  note 3 = counted_list_inject [OF self_delimiting_facet 2(2)]
  note 4 = counted_list_inject [OF self_delimiting_provider 3(2)]
  have "rc_HITL r = rc_HITL s" by (rule hitl_text_inject [OF 4(2)]) (use sz R S in auto)
  then show ?thesis
    using 1 2(1) 3(1) 4(1) sz R S
    by (simp add: normal_receipt_def header_fields_def format_nanos_inject DecisionReceipt.equality)
qed

text \<open>
  C35: the canonical hash binds the receipt. Two receipts with the same hash, whose fields fit
  their length prefixes, agree in every field but the proof, facets and upstream receipts
  compared in canonical order, or their canonical texts are a SHA-256 collision; timestamps are
  bound to the nanosecond and confidences to the bit.
\<close>

theorem CanonicalHash_binding:
  assumes "CanonicalHash r = CanonicalHash s" "receipt_sized r" "receipt_sized s"
  shows "normal_receipt r = normal_receipt s \<or> collides sha256 [canonical_text r] [canonical_text s]"
  using assms canonical_text_inject [of r s] by (auto simp: CanonicalHash_def collides_iff)

definition sample_facet :: "gostring \<Rightarrow> FacetOutput" where
  "sample_facet k = \<lparr>fo_Kind = k, fo_Verdict = ''APPROVE'', fo_Confidence = 0, fo_Reason = ''''\<rparr>"

definition sample_receipt :: "gostring \<Rightarrow> FacetOutput list \<Rightarrow> gostring list \<Rightarrow> DecisionReceipt" where
  "sample_receipt i fs links =
     \<lparr>rc_ID = i, rc_IssuedAt = 0, rc_Issuer = ''did'', rc_Subject = ''d'', rc_SpecID = ''s'', rc_EvidenceRoot = '''', rc_ModelID = '''',
      rc_Aggregate = ''APPROVE'', rc_VetoedBy = '''', rc_Confidence = 0, rc_Facets = fs,
      rc_ProviderReceipts = map (\<lambda>h. \<lparr>pr_Provider = ''p'', pr_TrustLevel = ''t'', pr_ReceiptHash = h\<rparr>) links,
      rc_HITL = None, rc_Proof = None\<rparr>"

text \<open>The hash does not depend on the proof, nor on the order of facets and links with distinct keys.\<close>

lemma CanonicalHash_proof [simp]: "CanonicalHash (r\<lparr>rc_Proof := p\<rparr>) = CanonicalHash r"
  by (simp add: CanonicalHash_def canonical_text_def header_fields_def sortedFacets_def sortedProvs_def)

lemma CanonicalHash_order:
  assumes "mset fs = mset (rc_Facets r)" "distinct (map fo_Kind (rc_Facets r))"
    and "mset ps = mset (rc_ProviderReceipts r)" "distinct (map pr_ReceiptHash (rc_ProviderReceipts r))"
  shows "CanonicalHash (r\<lparr>rc_Facets := fs, rc_ProviderReceipts := ps\<rparr>) = CanonicalHash r"
  using sort_key_unique [OF assms(1,2)] sort_key_unique [OF assms(3,4)]
  by (simp add: CanonicalHash_def canonical_text_def header_fields_def sortedFacets_def sortedProvs_def)

theorem CanonicalHash_binding_witness:
  "let r = sample_receipt ''i'' [sample_facet ''a'', sample_facet ''b''] []; s = sample_receipt ''i'' [sample_facet ''b'', sample_facet ''a''] []
   in r \<noteq> s \<and> (normal_receipt r = normal_receipt s \<or> collides sha256 [canonical_text r] [canonical_text s])"
proof -
  let ?r = "sample_receipt ''i'' [sample_facet ''a'', sample_facet ''b''] []"
  let ?s = "sample_receipt ''i'' [sample_facet ''b'', sample_facet ''a''] []"
  have "CanonicalHash (?r\<lparr>rc_Facets := [sample_facet ''b'', sample_facet ''a''], rc_ProviderReceipts := []\<rparr>) = CanonicalHash ?r"
    by (rule CanonicalHash_order) (simp_all add: sample_receipt_def sample_facet_def)
  then have "CanonicalHash ?r = CanonicalHash ?s" by (simp add: sample_receipt_def)
  moreover have "small32 (format_nanos 0)" by (simp add: small32_def format_samples)
  then have "receipt_sized ?r" "receipt_sized ?s"
    by (simp_all add: receipt_sized_def sample_receipt_def header_fields_def sample_facet_def facet_sized_def, simp_all add: small32_def)
  ultimately show ?thesis using CanonicalHash_binding [of ?r ?s] by (simp add: Let_def sample_receipt_def sample_facet_def)
qed

text \<open>
  With two facets of one kind the order of the list enters the hash: the receipts below differ
  only in that order and have different canonical texts.
\<close>

lemma repeated_kind_order_matters:
  fixes a :: FacetOutput
  assumes "fo_Kind a = fo_Kind b" "a \<noteq> b" "receipt_sized (sample_receipt i [a, b] [])" "receipt_sized (sample_receipt i [b, a] [])"
  shows "canonical_text (sample_receipt i [a, b] []) \<noteq> canonical_text (sample_receipt i [b, a] [])"
proof
  assume "canonical_text (sample_receipt i [a, b] []) = canonical_text (sample_receipt i [b, a] [])"
  from canonical_text_inject [OF this assms(3,4)] assms(1,2) show False
    by (simp add: normal_receipt_def sample_receipt_def sortedFacets_def)
qed

section \<open>Storing\<close>

lemma Put_Inr:
  assumes "Put s r = Inr s'"
  shows "rc_ID r \<noteq> []" "byID s' = (byID s)(rc_ID r \<mapsto> r)" "byHash s' = (byHash s)(CanonicalHash r \<mapsto> r)"
  using assms by (auto simp: Put_def Let_def split: if_splits)

section \<open>Signing and verifying\<close>

lemma last_index_below_suffix:
  "c \<notin> set b \<Longrightarrow> n \<le> length b \<Longrightarrow> last_index_below (a @ c # b) c (Suc (length a) + n) = int (length a)"
proof (induction n)
  case (Suc n)
  have "(a @ c # b) ! (Suc (length a) + n) = b ! n" by (simp add: nth_append)
  moreover have "b ! n \<noteq> c" using Suc.prems nth_mem [of n b] by auto
  ultimately show ?case using Suc by simp
qed (simp add: nth_append)

lemma lastIndex_suffix: "c \<notin> set b \<Longrightarrow> lastIndex (a @ [c] @ b) c = int (length a)"
  using last_index_below_suffix [of c b "length b" a] by (simp add: lastIndex_def)

lemma unsigned_receipt_simps [simp]:
  "rc_ID (unsigned_receipt rnd newid now issuer inp) = newid" "rc_IssuedAt (unsigned_receipt rnd newid now issuer inp) = now"
  "rc_Issuer (unsigned_receipt rnd newid now issuer inp) = issuer"
  "rc_Subject (unsigned_receipt rnd newid now issuer inp) = dc_DecisionID (in_Commit inp)"
  "(unsigned_receipt rnd newid now issuer inp)\<lparr>rc_Proof := None\<rparr> = unsigned_receipt rnd newid now issuer inp"
  by (simp_all add: unsigned_receipt_def Let_def)

lemma Emit_stored:
  assumes "Emit rnd sv newid now st inp = (res, st')" "res = Emitted r \<or> res = EmittedSinkFailed r e"
  obtains issuer sig keyID where
    "ks_Sign (sv_Keystore sv) (sv_SigningAlgo sv) (CanonicalHash r) = Inr (sig, keyID)"
    "rc_Proof r = Some \<lparr>pf_Scheme = sv_SigningAlgo sv, pf_Signature = base64_encode sig,
       pf_VerificationMethod = rc_Issuer r @ ''#'' @ keyID, pf_SignedAt = now\<rparr>"
    "r\<lparr>rc_Proof := None\<rparr> = unsigned_receipt rnd newid now issuer inp"
    "Put st r = Inr st'"
proof -
  from assms obtain activeID where a: "ks_ActiveKeyID (sv_Keystore sv) (sv_SigningAlgo sv) = Some activeID"
    and ok: "dc_DecisionID (in_Commit inp) \<noteq> []" "dc_Aggregate (in_Commit inp) \<noteq> VerdictUnknown"
    by (auto simp: Emit_def split: if_splits option.splits)
  define issuer where "issuer = (if sv_IssuerDID sv \<noteq> [] then sv_IssuerDID sv else ''did:cp:'' @ activeID)"
  let ?u = "unsigned_receipt rnd newid now issuer inp"
  from assms a ok obtain sig keyID where sign: "ks_Sign (sv_Keystore sv) (sv_SigningAlgo sv) (CanonicalHash ?u) = Inr (sig, keyID)"
    by (auto simp: Emit_def Let_def issuer_def [symmetric] split: sum.splits)
  let ?p = "\<lparr>pf_Scheme = sv_SigningAlgo sv, pf_Signature = base64_encode sig, pf_VerificationMethod = issuer @ ''#'' @ keyID, pf_SignedAt = now\<rparr>"
  from assms a ok sign have r: "r = ?u\<lparr>rc_Proof := Some ?p\<rparr>" and put: "Put st r = Inr st'"
    by (auto simp: Emit_def Let_def issuer_def [symmetric] split: sum.splits option.splits)
  show thesis by (rule that [of sig keyID issuer]) (use sign put in \<open>simp_all add: r\<close>)
qed

context keystore
begin

text \<open>A receipt that was emitted verifies in every later state of the keystore.\<close>

lemma emitted_verifies:
  assumes "inv s" "sv_Keystore sv = view s" "Emit rnd sv newid now st inp = (res, st')"
    "res = Emitted r \<or> res = EmittedSinkFailed r e" "step\<^sup>*\<^sup>* s s'" "sv_Keystore sv' = view s'"
  shows "Verify_receipt sv' r = Inr True"
proof -
  obtain sig keyID where sign: "ks_Sign (view s) (sv_SigningAlgo sv) (CanonicalHash r) = Inr (sig, keyID)"
    and proof_r: "rc_Proof r = Some \<lparr>pf_Scheme = sv_SigningAlgo sv, pf_Signature = base64_encode sig,
       pf_VerificationMethod = rc_Issuer r @ ''#'' @ keyID, pf_SignedAt = now\<rparr>"
    using Emit_stored [OF assms(3,4)] assms(2) by metis
  have "CHR ''#'' \<notin> set keyID" using id_no_hash sign_InrE(1) [OF assms(1) sign] assms(1) by blast
  then have "lastIndex (rc_Issuer r @ ''#'' @ keyID) CHR ''#'' = int (length (rc_Issuer r))" by (rule lastIndex_suffix)
  moreover have "ks_Verify (view s') keyID (CanonicalHash r) sig = Inr True"
    by (rule verify_steps [OF assms(5,1) sign_InrE(2) [OF assms(1) sign]])
  ultimately show ?thesis using proof_r assms(6) by (simp add: Verify_receipt_def Let_def nat_add_distrib)
qed

end

text \<open>
  C34: an emitted receipt is stored and verifies for ever. With the memory keystore over a
  reachable ring, a receipt that \<open>Emit\<close> returns, also when only the sink failed, is found by its
  identifier and by its canonical hash, and verifies against the keystore after any number of
  key creations and rotations.
\<close>

theorem emit_store_verify:
  assumes "ring_reach L k" "sv_Keystore sv = MemoryKeystore L k" "Emit rnd sv newid now st inp = (res, st')"
    "res = Emitted r \<or> res = EmittedSinkFailed r e" "(ring_step L)\<^sup>*\<^sup>* k k'"
  shows "GetByID st' (rc_ID r) = Inr r \<and> GetByHash st' (CanonicalHash r) = Inr r \<and> rc_Subject r = dc_DecisionID (in_Commit inp) \<and>
    Verify_receipt (sv\<lparr>sv_Keystore := MemoryKeystore L k'\<rparr>) r = Inr True"
proof (intro conjI)
  obtain issuer where u: "r\<lparr>rc_Proof := None\<rparr> = unsigned_receipt rnd newid now issuer inp"
    and p: "Put st r = Inr st'"
    using Emit_stored [OF assms(3,4)] by metis
  show "GetByID st' (rc_ID r) = Inr r" "GetByHash st' (CanonicalHash r) = Inr r"
    using Put_Inr [OF p] by (simp_all add: GetByID_def GetByHash_def)
  have "rc_Subject (r\<lparr>rc_Proof := None\<rparr>) = dc_DecisionID (in_Commit inp)" unfolding u by simp
  then show "rc_Subject r = dc_DecisionID (in_Commit inp)" by simp
  show "Verify_receipt (sv\<lparr>sv_Keystore := MemoryKeystore L k'\<rparr>) r = Inr True"
    by (rule memory.emitted_verifies [OF ring_reach_inv [OF assms(1)] assms(2-5)]) simp
qed

text \<open>With an active key and a judged commit, emitting succeeds.\<close>

lemma Emit_succeeds:
  assumes "ring_inv L k" "sv_Keystore sv = MemoryKeystore L k" "ActiveKeyID k (sv_SigningAlgo sv) \<noteq> None" "sv_Sink sv = Some NoopSink"
    and "dc_DecisionID (in_Commit inp) \<noteq> []" "dc_Aggregate (in_Commit inp) \<noteq> VerdictUnknown" "newid \<noteq> []"
  shows "\<exists>r st'. Emit rnd sv newid now st inp = (Emitted r, st')"
proof -
  obtain i where i: "ActiveKeyID k (sv_SigningAlgo sv) = Some i" using assms(3) by blast
  have sign: "\<exists>sig. Ring_Sign L k (sv_SigningAlgo sv) m = Inr (sig, i)" for m using sign_active [OF assms(1) i] by blast
  define u where "u = unsigned_receipt rnd newid now (if sv_IssuerDID sv \<noteq> [] then sv_IssuerDID sv else ''did:cp:'' @ i) inp"
  obtain sig where "Ring_Sign L k (sv_SigningAlgo sv) (CanonicalHash u) = Inr (sig, i)" using sign by blast
  moreover have "rc_ID (u\<lparr>rc_Proof := p\<rparr>) \<noteq> []" for p using assms(7) by (simp add: u_def)
  ultimately show ?thesis
    using i assms(2,4-6) by (simp add: Emit_def MemoryKeystore_def u_def [symmetric] Put_def Let_def NoopSink_def)
qed

definition sample_input :: EmitInput where
  "sample_input = \<lparr>in_Commit = \<lparr>dc_Decision = sample_decision ''x'' 0, dc_DecisionID = ''d'', dc_FacetVerdicts = [], dc_Aggregate = VerdictApprove,
     dc_VetoedBy = '''', dc_AbstainReason = ''''\<rparr>, in_EvidenceRoot = '''', in_ModelID = '''', in_ProviderReceipts = [], in_HITL = None, in_Reviewer = ''''\<rparr>"

theorem emit_store_verify_witness:
  "\<exists>r st'. Emit (\<lambda>x. x) (NewService (MemoryKeystore sample_lib (after_create NewKeyRing))) ''id'' 0 NewInMemoryStore sample_input = (Emitted r, st') \<and>
     GetByID st' (rc_ID r) = Inr r \<and>
     Verify_receipt (NewService (MemoryKeystore sample_lib (after_create (after_create NewKeyRing)))) r = Inr True"
proof -
  let ?sv = "NewService (MemoryKeystore sample_lib (after_create NewKeyRing))"
  have k: "sv_Keystore ?sv = MemoryKeystore sample_lib (after_create NewKeyRing)" "sv_Sink ?sv = Some NoopSink" "sv_SigningAlgo ?sv = AlgoHybrid"
    by (simp_all add: NewService_def)
  obtain r st' where e: "Emit (\<lambda>x. x) ?sv ''id'' 0 NewInMemoryStore sample_input = (Emitted r, st')"
    using Emit_succeeds [OF ring_reach_inv [OF sample_rings(1)] k(1) _ k(2), of sample_input "''id''"] sample_rings(2) k(3)
    by (fastforce simp: sample_input_def)
  from emit_store_verify [OF sample_rings(1) k(1) e _ sample_rings(3)] e show ?thesis by (auto simp: NewService_def)
qed

section \<open>Lineage\<close>

text \<open>The identifiers that a hash lookup can lead to, and the links of a stored receipt.\<close>

definition hash_ids :: "InMemoryStore \<Rightarrow> gostring set" where
  "hash_ids s = rc_ID ` ran (byHash s)"

definition links :: "InMemoryStore \<Rightarrow> gostring \<Rightarrow> gostring list" where
  "links s i = (case byID s i of None \<Rightarrow> []
     | Some r \<Rightarrow> map rc_ID (List.map_filter (\<lambda>pr. byHash s (pr_ReceiptHash pr)) (rc_ProviderReceipts r)))"

lemma link_loop_Inr_iff:
  "link_loop s prs seen nx = Inr (seen', nx') \<longleftrightarrow>
     (let ls = map rc_ID (List.map_filter (\<lambda>pr. byHash s (pr_ReceiptHash pr)) prs)
      in distinct ls \<and> set ls \<inter> seen = {} \<and> seen' = seen \<union> set ls \<and> nx' = nx @ ls)"
  by (induction prs arbitrary: seen nx) (auto simp: GetByHash_def map_filter_simps Let_def split: option.splits)

lemma level_loop_Inr:
  "level_loop s start fids seen nx out = Inr (seen', nx', out') \<Longrightarrow>
     (let ls = concat (map (links s) fids)
      in distinct ls \<and> set ls \<inter> seen = {} \<and> seen' = seen \<union> set ls \<and> nx' = nx @ ls \<and>
         out' = out @ List.map_filter (byID s) (filter (\<lambda>i. i \<noteq> start) fids))"
proof (induction fids arbitrary: seen nx out)
  case (Cons fid fids)
  show ?case
  proof (cases "byID s fid")
    case None
    with Cons show ?thesis by (simp add: GetByID_def links_def map_filter_simps)
  next
    case (Some r)
    with Cons.prems obtain seen1 nx1 where l: "link_loop s (rc_ProviderReceipts r) seen nx = Inr (seen1, nx1)"
      and rest: "level_loop s start fids seen1 nx1 (if fid \<noteq> start then out @ [r] else out) = Inr (seen', nx', out')"
      by (auto simp: GetByID_def split: sum.splits)
    have ls: "links s fid = map rc_ID (List.map_filter (\<lambda>pr. byHash s (pr_ReceiptHash pr)) (rc_ProviderReceipts r))"
      using Some by (simp add: links_def)
    from l have "distinct (links s fid)" "set (links s fid) \<inter> seen = {}" "seen1 = seen \<union> set (links s fid)" "nx1 = nx @ links s fid"
      unfolding link_loop_Inr_iff ls Let_def by blast+
    with Cons.IH [OF rest] Some show ?thesis by (auto simp: Let_def map_filter_simps)
  qed
qed (simp add: map_filter_simps)

lemma links_hash_ids: "set (links s i) \<subseteq> hash_ids s"
  by (auto simp: links_def hash_ids_def map_filter_def ran_def image_iff split: option.splits)

lemma links_new:
  assumes "level_loop s start fids seen [] out = Inr (seen', nx', out')" "nx' \<noteq> []" "finite (hash_ids s)"
  shows "card (hash_ids s - seen') < card (hash_ids s - seen)"
proof (rule psubset_card_mono)
  from level_loop_Inr [OF assms(1)] have n: "set nx' \<inter> seen = {}" "seen' = seen \<union> set nx'" "nx' = concat (map (links s) fids)"
    by (simp_all add: Let_def)
  have "set nx' \<subseteq> hash_ids s" using links_hash_ids [of s] n(3) by fastforce
  moreover obtain x where "x \<in> set nx'" using assms(2) by (cases nx') auto
  ultimately show "hash_ids s - seen' \<subset> hash_ids s - seen" using n(1,2) by blast
qed (simp add: assms(3))

lemma depth_loop_returns:
  assumes "finite (hash_ids s)"
  shows "\<exists>res. depth_loop s start md d seen frontier out = Some res"
proof (induction "card (hash_ids s - seen)" arbitrary: d seen frontier out rule: less_induct)
  case less
  show ?case
  proof (cases "level_loop s start frontier seen [] out")
    case (Inl e)
    then show ?thesis by (subst depth_loop.simps) simp
  next
    case (Inr t)
    obtain seen' nx' out' where t: "t = (seen', nx', out')" by (cases t)
    have "\<exists>res. depth_loop s start md (d + 1) seen' nx' out' = Some res"
    proof (cases "nx' = []")
      case True
      then show ?thesis by (subst depth_loop.simps) simp
    next
      case False
      from links_new [OF Inr [unfolded t] False assms] show ?thesis by (rule less)
    qed
    with Inr t show ?thesis by (subst depth_loop.simps) simp
  qed
qed

text \<open>The identifiers reached from \<open>i\<close> by following exactly \<open>n\<close> links.\<close>

fun lineage :: "InMemoryStore \<Rightarrow> gostring \<Rightarrow> nat \<Rightarrow> gostring set" where
  "lineage s i 0 = {i}"
| "lineage s i (Suc n) = (\<Union>j \<in> lineage s i n. set (links s j))"

lemma lineage_empty: "lineage s i n = {} \<Longrightarrow> n \<le> k \<Longrightarrow> lineage s i k = {}"
  by (induction k) (auto simp: le_Suc_eq)

lemma lineage_union:
  assumes "\<And>k. n \<le> k \<Longrightarrow> lineage s i k = {}" "md \<le> 0 \<or> int n \<le> md"
  shows "(\<Union>k \<in> {k. 1 \<le> k \<and> (md \<le> 0 \<or> int k < md)}. lineage s i k) = (\<Union>k \<in> {1..<n}. lineage s i k)"
proof (intro subset_antisym subsetI)
  fix x
  assume "x \<in> (\<Union>k \<in> {k. 1 \<le> k \<and> (md \<le> 0 \<or> int k < md)}. lineage s i k)"
  then obtain k where k: "1 \<le> k" "x \<in> lineage s i k" by blast
  then have "k < n" using assms(1) [of k] by (cases "n \<le> k") auto
  with k show "x \<in> (\<Union>k \<in> {1..<n}. lineage s i k)" by (intro UN_I [of k]) simp_all
qed (use assms(2) in auto)

text \<open>The state of the search before level \<open>n\<close>.\<close>

definition search_state :: "InMemoryStore \<Rightarrow> gostring \<Rightarrow> nat \<Rightarrow> gostring set \<Rightarrow> gostring list \<Rightarrow> DecisionReceipt list \<Rightarrow> bool" where
  "search_state s i n seen frontier out \<longleftrightarrow>
     distinct frontier \<and> set frontier = lineage s i n \<and> seen = (\<Union>k \<le> n. lineage s i k) \<and>
     (n \<noteq> 0 \<longrightarrow> set frontier \<inter> (\<Union>k < n. lineage s i k) = {}) \<and>
     (\<exists>ids. distinct ids \<and> i \<notin> set ids \<and> set ids = (\<Union>k \<in> {1..<n}. lineage s i k) \<and> out = List.map_filter (byID s) ids)"

lemma search_step:
  assumes "search_state s i n seen frontier out" "level_loop s i frontier seen [] out = Inr (seen', nx', out')"
  shows "search_state s i (Suc n) seen' nx' out'"
proof -
  obtain ids where inv: "distinct frontier" "set frontier = lineage s i n" "seen = (\<Union>k \<le> n. lineage s i k)"
    "n \<noteq> 0 \<longrightarrow> set frontier \<inter> (\<Union>k < n. lineage s i k) = {}"
    and ids: "distinct ids" "i \<notin> set ids" "set ids = (\<Union>k \<in> {1..<n}. lineage s i k)" "out = List.map_filter (byID s) ids"
    using assms(1) unfolding search_state_def by blast
  from level_loop_Inr [OF assms(2)] have l: "distinct nx'" "set nx' \<inter> seen = {}" "seen' = seen \<union> set nx'"
    "nx' = concat (map (links s) frontier)" "out' = out @ List.map_filter (byID s) (filter (\<lambda>j. j \<noteq> i) frontier)"
    by (simp_all add: Let_def)
  have nx: "set nx' = lineage s i (Suc n)" using l(4) inv(2) by simp
  let ?new = "filter (\<lambda>j. j \<noteq> i) frontier"
  have new: "set ?new = (if n = 0 then {} else lineage s i n)"
  proof (cases "n = 0")
    case False
    then have "i \<in> (\<Union>k < n. lineage s i k)" by (intro UN_I [of 0]) simp_all
    with inv(2,4) False show ?thesis by auto
  qed (use inv(2) in auto)
  have "set ids \<inter> set ?new = {}"
  proof (cases "n = 0")
    case False
    then have "set ids \<subseteq> (\<Union>k < n. lineage s i k)" "set ?new = set frontier" using ids(3) new inv(2) by auto
    with inv(4) False show ?thesis by blast
  qed (use new in simp)
  then have "distinct (ids @ ?new)" using ids(1) inv(1) by simp
  moreover have "set (ids @ ?new) = (\<Union>k \<in> {1..<Suc n}. lineage s i k)"
    using ids(3) new by (cases "n = 0") (auto simp: less_Suc_eq)
  moreover have "out' = List.map_filter (byID s) (ids @ ?new)" using l(5) ids(4) by (simp add: map_filter_def)
  moreover have "i \<notin> set (ids @ ?new)" using ids(2) by simp
  ultimately have ex: "\<exists>ids. distinct ids \<and> i \<notin> set ids \<and> set ids = (\<Union>k \<in> {1..<Suc n}. lineage s i k) \<and> out' = List.map_filter (byID s) ids"
    by (intro exI [of _ "ids @ ?new"] conjI)
  have seen: "seen' = (\<Union>k \<le> Suc n. lineage s i k)" using l(3) inv(3) nx by (simp add: atMost_Suc Un_commute)
  have "set nx' \<inter> (\<Union>k < Suc n. lineage s i k) = {}" using l(2) inv(3) by (simp add: lessThan_Suc_atMost)
  then show ?thesis unfolding search_state_def by (intro conjI impI l(1) nx seen ex)
qed

text \<open>The receipts of exactly the identifiers reached by fewer than \<open>md\<close> links, each once.\<close>

definition lists_lineage :: "InMemoryStore \<Rightarrow> gostring \<Rightarrow> int \<Rightarrow> DecisionReceipt list \<Rightarrow> bool" where
  "lists_lineage s i md out \<longleftrightarrow> (\<exists>ids. distinct ids \<and> i \<notin> set ids \<and> set ids = (\<Union>k \<in> {k. 1 \<le> k \<and> (md \<le> 0 \<or> int k < md)}. lineage s i k) \<and>
     out = List.map_filter (byID s) ids)"

lemma depth_loop_sound:
  assumes "finite (hash_ids s)" "search_state s i n seen frontier out" "md \<le> 0 \<or> int n \<le> md"
    and "depth_loop s i md (int n) seen frontier out = Some (Inr res)"
  shows "lists_lineage s i md res"
  using assms(2-4)
proof (induction "card (hash_ids s - seen)" arbitrary: n seen frontier out rule: less_induct)
  case less
  let ?K = "{k. 1 \<le> k \<and> (md \<le> 0 \<or> int k < md)}"
  obtain ids where ids: "distinct ids" "i \<notin> set ids" "set ids = (\<Union>k \<in> {1..<n}. lineage s i k)" "out = List.map_filter (byID s) ids"
    and fr: "set frontier = lineage s i n"
    using less.prems(1) unfolding search_state_def by blast
  have stop: "(\<Union>k \<in> ?K. lineage s i k) = (\<Union>k \<in> {1..<n}. lineage s i k)" if "frontier = []"
  proof (rule lineage_union [OF _ less.prems(2)])
    show "lineage s i k = {}" if "n \<le> k" for k using lineage_empty that fr \<open>frontier = []\<close> by (metis empty_set)
  qed
  show ?case
  proof (cases "frontier = [] \<or> md > 0 \<and> int n \<ge> md")
    case True
    then have "res = out" using less.prems(3) by (subst (asm) depth_loop.simps) (auto split: if_splits)
    moreover have "(\<Union>k \<in> ?K. lineage s i k) = (\<Union>k \<in> {1..<n}. lineage s i k)"
    proof (cases "frontier = []")
      case False
      with True less.prems(2) have "int n = md" "md > 0" by linarith+
      then have "?K = {1..<n}" by auto
      then show ?thesis by simp
    qed (rule stop)
    ultimately show ?thesis unfolding lists_lineage_def using ids by (intro exI [of _ ids]) simp
  next
    case False
    then obtain seen' nx' out' where l: "level_loop s i frontier seen [] out = Inr (seen', nx', out')"
      and rest: "depth_loop s i md (int (Suc n)) seen' nx' out' = Some (Inr res)"
      using less.prems(3) by (subst (asm) depth_loop.simps) (auto simp: add.commute split: sum.splits)
    note next_state = search_step [OF less.prems(1) l]
    have bound: "md \<le> 0 \<or> int (Suc n) \<le> md" using False less.prems(2) by auto
    show ?thesis
    proof (cases "nx' = []")
      case False
      from links_new [OF l False assms(1)] next_state bound rest show ?thesis by (rule less.hyps)
    next
      case True
      then have "lineage s i (Suc n) = {}" using next_state by (simp add: search_state_def)
      then have none: "Suc n \<le> k \<Longrightarrow> lineage s i k = {}" for k using lineage_empty by blast
      obtain ids' where ids': "distinct ids'" "i \<notin> set ids'" "set ids' = (\<Union>k \<in> {1..<Suc n}. lineage s i k)" "out' = List.map_filter (byID s) ids'"
        using next_state unfolding search_state_def by blast
      have "res = out'" using rest True by (subst (asm) depth_loop.simps) simp
      moreover have "(\<Union>k \<in> ?K. lineage s i k) = (\<Union>k \<in> {1..<Suc n}. lineage s i k)"
        by (rule lineage_union [OF none bound])
      ultimately show ?thesis unfolding lists_lineage_def using ids' by (intro exI [of _ ids']) simp
    qed
  qed
qed

lemma search_init: "search_state s i 0 {i} [i] []"
  unfolding search_state_def by (intro conjI exI [of _ "[]"]) (simp_all add: map_filter_simps)

lemma Ancestors_lineage:
  assumes "finite (dom (byHash s))"
  shows "\<exists>res. Ancestors s i md = Some res" "Ancestors s i md = Some (Inr out) \<Longrightarrow> lists_lineage s i md out"
proof -
  have fin: "finite (hash_ids s)" unfolding hash_ids_def by (intro finite_imageI finite_ran assms)
  show "\<exists>res. Ancestors s i md = Some res" unfolding Ancestors_def by (rule depth_loop_returns [OF fin])
  have "md \<le> 0 \<or> int 0 \<le> md" by linarith
  from depth_loop_sound [OF fin search_init this] show "Ancestors s i md = Some (Inr out) \<Longrightarrow> lists_lineage s i md out"
    by (simp add: Ancestors_def)
qed


text \<open>Small stores for the search: receipts with the given links, found by name under both keys.\<close>

definition sample_store :: "(gostring \<times> gostring list) list \<Rightarrow> InMemoryStore" where
  "sample_store ls = (let m = map_of (map (\<lambda>(i, hs). (i, sample_receipt i [] hs)) ls) in \<lparr>byID = m, byHash = m\<rparr>)"

declare depth_loop.simps [code]

lemma sample_chain: "map_option (map_sum id (map rc_ID)) (Ancestors (sample_store [(''a'', [''b'']), (''b'', [''c'']), (''c'', [])]) ''a'' 0) =
   Some (Inr [''b'', ''c''])"
  by code_simp


text \<open>
  A receipt with two upstream receipts that share an ancestor is reported as a cycle, although
  no receipt is its own ancestor.
\<close>

lemma shared_ancestor_reported_as_cycle:
  "Ancestors (sample_store [(''a'', [''b'', ''c'']), (''b'', [''d'']), (''c'', [''d'']), (''d'', [])]) ''a'' 0 = Some (Inl ErrCycle)"
  by code_simp

text \<open>With a cap of one the direct parents are not returned: the first level is the receipt itself.\<close>

lemma depth_one_returns_nothing:
  assumes "finite (dom (byHash s))" "Ancestors s i 1 = Some (Inr out)"
  shows "out = []"
proof -
  have "lists_lineage s i 1 out" by (rule Ancestors_lineage(2) [OF assms])
  moreover have "{k :: nat. 1 \<le> k \<and> ((1 :: int) \<le> 0 \<or> int k < 1)} = {}" by auto
  ultimately show ?thesis by (simp only: lists_lineage_def) (auto simp: map_filter_simps)
qed

end
