(* ===== verification/Receipt_Shapes.thy ===== *)
theory Receipt_Shapes
  imports Receipts
begin

text \<open>
  The shapes derived from a receipt: the agent receipt (\<^verbatim>\<open>receipts/agent_receipt.go\<close>), the W3C
  credential (\<^verbatim>\<open>receipts/w3c_vc.go\<close>) and the attributes of the telemetry record
  (\<^verbatim>\<open>receipts/otel_jsonl.go\<close>). Values of the type \<^verbatim>\<open>map[string]any\<close> are maps into the datatype
  \<open>attr\<close>; their JSON text is left out. The lemmas show what a shape keeps of the receipt and
  that all shapes carry the digest the signature was made for.
\<close>

datatype attr =
  AString gostring
| ANumber float64
| AInt int
| ABool bool
| AFacets "FacetOutput list"
| AProviders "ProviderReceipt list"
| AHITL HITLResolution

section \<open>Agent receipts\<close>

record ARFacet =
  af_Kind :: gostring
  af_Verdict :: gostring
  af_Confidence :: float64
  af_Reason :: gostring

record ARSection =
  as_Root :: gostring
  as_ModelID :: gostring
  as_Digest :: gostring

record ARLineage =
  al_Provider :: gostring
  al_TrustLevel :: gostring
  al_Receipt :: gostring

record ARReview =
  av_TicketID :: gostring
  av_Action :: gostring
  av_Reviewer :: gostring
  av_Note :: gostring
  av_ResolvedAt :: int

record ARSignatureEnvelope =
  ae_Alg :: gostring
  ae_Value :: gostring
  ae_VerificationMethod :: gostring

record AgentReceipt =
  ar_Version :: gostring
  ar_ID :: gostring
  ar_Issuer :: gostring
  ar_IssuedAt :: int
  ar_Subject :: gostring
  ar_Verdict :: gostring
  ar_Facets :: "ARFacet list"
  ar_Evidence :: ARSection
  ar_Lineage :: "ARLineage list"
  ar_Review :: "ARReview option"
  ar_Tags :: "gostring list"
  ar_CPExtra :: "gostring \<rightharpoonup> attr"
  ar_Signature :: ARSignatureEnvelope

definition errUnsigned :: "gostring \<Rightarrow> gostring \<Rightarrow> receipt_error" where
  "errUnsigned pre post = ErrReceipt (pre @ em_dash @ post)"

definition ar_facet :: "FacetOutput \<Rightarrow> ARFacet" where
  "ar_facet f = \<lparr>af_Kind = fo_Kind f, af_Verdict = fo_Verdict f, af_Confidence = fo_Confidence f, af_Reason = fo_Reason f\<rparr>"

definition ar_lineage :: "ProviderReceipt \<Rightarrow> ARLineage" where
  "ar_lineage p = \<lparr>al_Provider = pr_Provider p, al_TrustLevel = pr_TrustLevel p, al_Receipt = pr_ReceiptHash p\<rparr>"

definition ar_review :: "HITLResolution \<Rightarrow> ARReview" where
  "ar_review h = \<lparr>av_TicketID = hr_TicketID h, av_Action = hr_Action h, av_Reviewer = hr_Reviewer h, av_Note = hr_Note h,
     av_ResolvedAt = hr_ResolvedAt h\<rparr>"

definition ToAgentReceipt :: "DecisionReceipt \<Rightarrow> receipt_error + AgentReceipt" where
  "ToAgentReceipt r =
     (case rc_Proof r of
        None \<Rightarrow> Inl (errUnsigned ''agent-receipt: receipt has no proof '' '' refusing to emit unsigned envelope'')
      | Some proof \<Rightarrow>
          let digest = CanonicalHash (r\<lparr>rc_Proof := None\<rparr>);
              tags = [''casper-prover'', ''decision-receipt'', ''spec-'' @ rc_SpecID r] @
                (if rc_VetoedBy r \<noteq> [] then [''vetoed-by-'' @ rc_VetoedBy r] else []);
              cpExtra = [''aggregate'' \<mapsto> AString (rc_Aggregate r), ''confidence'' \<mapsto> ANumber (rc_Confidence r),
                ''spec_id'' \<mapsto> AString (rc_SpecID r), ''vetoed_by'' \<mapsto> AString (rc_VetoedBy r), ''engine_algo'' \<mapsto> AString (pf_Scheme proof)]
          in Inr \<lparr>ar_Version = ''0.3'', ar_ID = rc_ID r, ar_Issuer = rc_Issuer r, ar_IssuedAt = rc_IssuedAt r,
                  ar_Subject = rc_Subject r, ar_Verdict = rc_Aggregate r, ar_Facets = map ar_facet (rc_Facets r),
                  ar_Evidence = \<lparr>as_Root = rc_EvidenceRoot r, as_ModelID = rc_ModelID r, as_Digest = digest\<rparr>,
                  ar_Lineage = map ar_lineage (rc_ProviderReceipts r), ar_Review = map_option ar_review (rc_HITL r),
                  ar_Tags = tags, ar_CPExtra = cpExtra,
                  ar_Signature = \<lparr>ae_Alg = pf_Scheme proof, ae_Value = pf_Signature proof, ae_VerificationMethod = pf_VerificationMethod proof\<rparr>\<rparr>)"

section \<open>W3C credentials\<close>

record W3CProof =
  wp_Type :: gostring
  wp_Cryptosuite :: gostring
  wp_Created :: int
  wp_VerificationMethod :: gostring
  wp_ProofPurpose :: gostring
  wp_ProofValue :: gostring

record W3CCredential =
  wc_Context :: "gostring list"
  wc_ID :: gostring
  wc_Type :: "gostring list"
  wc_Issuer :: gostring
  wc_ValidFrom :: int
  wc_CredentialSubject :: "gostring \<rightharpoonup> attr"
  wc_Proof :: W3CProof

definition subject_attrs :: "DecisionReceipt \<Rightarrow> gostring \<rightharpoonup> attr" where
  "subject_attrs r =
     (let base = [''id'' \<mapsto> AString (rc_Subject r), ''cp:spec_id'' \<mapsto> AString (rc_SpecID r), ''cp:aggregate'' \<mapsto> AString (rc_Aggregate r),
            ''cp:confidence'' \<mapsto> ANumber (rc_Confidence r), ''cp:facets'' \<mapsto> AFacets (rc_Facets r),
            ''cp:evidence_root'' \<mapsto> AString (rc_EvidenceRoot r), ''cp:model_id'' \<mapsto> AString (rc_ModelID r),
            ''cp:canonical_hash'' \<mapsto> AString (CanonicalHash (r\<lparr>rc_Proof := None\<rparr>)), ''cp:receipt_version'' \<mapsto> AString ''1.0''];
          m1 = (if rc_VetoedBy r \<noteq> [] then base(''cp:vetoed_by'' \<mapsto> AString (rc_VetoedBy r)) else base);
          m2 = (if rc_ProviderReceipts r \<noteq> [] then m1(''cp:provider_receipts'' \<mapsto> AProviders (rc_ProviderReceipts r)) else m1)
      in case rc_HITL r of None \<Rightarrow> m2 | Some h \<Rightarrow> m2(''cp:hitl_resolution'' \<mapsto> AHITL h))"

text \<open>\<open>marshals\<close> says whether the subject can be marshalled; a confidence that is no finite number cannot.\<close>

definition ToW3CVC :: "((gostring \<rightharpoonup> attr) \<Rightarrow> bool) \<Rightarrow> DecisionReceipt \<Rightarrow> receipt_error + W3CCredential" where
  "ToW3CVC marshals r =
     (case rc_Proof r of
        None \<Rightarrow> Inl (errUnsigned ''w3c-vc: receipt has no proof '' '' refusing to emit unsigned credential'')
      | Some proof \<Rightarrow>
          if \<not> marshals (subject_attrs r) then Inl (ErrReceipt ''json'')
          else Inr \<lparr>wc_Context = [''https://www.w3.org/ns/credentials/v2'', ''https://casperprover.io/context/cp-receipt-v1''],
                wc_ID = ''urn:uuid:'' @ rc_ID r, wc_Type = [''VerifiableCredential'', ''CasperProverDecisionReceipt''],
                wc_Issuer = rc_Issuer r, wc_ValidFrom = rc_IssuedAt r, wc_CredentialSubject = subject_attrs r,
                wc_Proof = \<lparr>wp_Type = ''CasperProverProof2026'', wp_Cryptosuite = pf_Scheme proof, wp_Created = pf_SignedAt proof,
                  wp_VerificationMethod = pf_VerificationMethod proof, wp_ProofPurpose = ''assertionMethod'',
                  wp_ProofValue = pf_Signature proof\<rparr>\<rparr>)"

section \<open>Telemetry\<close>

definition canonicalHashUnsigned :: "DecisionReceipt \<Rightarrow> gostring" where
  "canonicalHashUnsigned r = CanonicalHash (r\<lparr>rc_Proof := None\<rparr>)"

definition spanAttrs :: "DecisionReceipt \<Rightarrow> gostring \<rightharpoonup> attr" where
  "spanAttrs r =
     (let base = [''trace.name'' \<mapsto> AString ''cp.decision'', ''cp.receipt_id'' \<mapsto> AString (rc_ID r),
            ''cp.receipt_hash'' \<mapsto> AString (canonicalHashUnsigned r), ''cp.issued_at'' \<mapsto> AString (format_RFC3339Nano (rc_IssuedAt r)),
            ''cp.issuer'' \<mapsto> AString (rc_Issuer r), ''cp.subject'' \<mapsto> AString (rc_Subject r), ''cp.spec_id'' \<mapsto> AString (rc_SpecID r),
            ''cp.verdict'' \<mapsto> AString (rc_Aggregate r), ''cp.confidence'' \<mapsto> ANumber (rc_Confidence r),
            ''cp.facet_count'' \<mapsto> AInt (int (length (rc_Facets r))), ''cp.provider_count'' \<mapsto> AInt (int (length (rc_ProviderReceipts r))),
            ''cp.evidence_root'' \<mapsto> AString (rc_EvidenceRoot r), ''cp.model_id'' \<mapsto> AString (rc_ModelID r),
            ''cp.hitl'' \<mapsto> ABool (rc_HITL r \<noteq> None)];
          m1 = (if rc_VetoedBy r \<noteq> [] then base(''cp.vetoed_by'' \<mapsto> AString (rc_VetoedBy r)) else base)
      in case rc_HITL r of None \<Rightarrow> m1
         | Some h \<Rightarrow>
             let m2 = m1(''cp.hitl_action'' \<mapsto> AString (hr_Action h), ''cp.hitl_ticket'' \<mapsto> AString (hr_TicketID h))
             in if hr_Reviewer h \<noteq> [] then m2(''cp.hitl_reviewer'' \<mapsto> AString (hr_Reviewer h)) else m2)"

section \<open>What the shapes keep\<close>

lemma ar_inject: "inj ar_facet" "inj ar_lineage" "inj ar_review"
  by (auto intro!: injI simp: ar_facet_def ar_lineage_def ar_review_def
      FacetOutput.equality ProviderReceipt.equality HITLResolution.equality)

text \<open>The receipt with the time of its signature removed.\<close>

definition drop_signed_at :: "DecisionReceipt \<Rightarrow> DecisionReceipt" where
  "drop_signed_at r = r\<lparr>rc_Proof := map_option (\<lambda>p. p\<lparr>pf_SignedAt := 0\<rparr>) (rc_Proof r)\<rparr>"

lemma ToAgentReceipt_fields:
  assumes "ToAgentReceipt r = Inr a" "rc_Proof r = Some p"
  shows "rc_ID r = ar_ID a" "rc_IssuedAt r = ar_IssuedAt a" "rc_Issuer r = ar_Issuer a" "rc_Subject r = ar_Subject a"
    "rc_EvidenceRoot r = as_Root (ar_Evidence a)" "rc_ModelID r = as_ModelID (ar_Evidence a)" "rc_Aggregate r = ar_Verdict a"
    "map ar_facet (rc_Facets r) = ar_Facets a" "map ar_lineage (rc_ProviderReceipts r) = ar_Lineage a"
    "map_option ar_review (rc_HITL r) = ar_Review a" "pf_Scheme p = ae_Alg (ar_Signature a)"
    "pf_Signature p = ae_Value (ar_Signature a)" "pf_VerificationMethod p = ae_VerificationMethod (ar_Signature a)"
    "ar_CPExtra a ''confidence'' = Some (ANumber (rc_Confidence r))" "ar_CPExtra a ''spec_id'' = Some (AString (rc_SpecID r))"
    "ar_CPExtra a ''vetoed_by'' = Some (AString (rc_VetoedBy r))" "as_Digest (ar_Evidence a) = CanonicalHash r"
  using assms by (auto simp: ToAgentReceipt_def Let_def)

lemma map_option_inject: "inj f \<Longrightarrow> map_option f x = map_option f y \<longleftrightarrow> x = y"
  by (cases x; cases y) (auto dest: injD)

lemma agent_receipt_keeps:
  assumes "ToAgentReceipt r = Inr a" "ToAgentReceipt s = Inr a"
  shows "drop_signed_at r = drop_signed_at s"
proof -
  obtain p q where p: "rc_Proof r = Some p" and q: "rc_Proof s = Some q"
    using assms by (auto simp: ToAgentReceipt_def split: option.splits)
  note R = ToAgentReceipt_fields [OF assms(1) p] and S = ToAgentReceipt_fields [OF assms(2) q]
  have "rc_Facets r = rc_Facets s" "rc_ProviderReceipts r = rc_ProviderReceipts s" "rc_HITL r = rc_HITL s"
    using R(8-10) S(8-10) ar_inject by (metis inj_map_eq_map, metis inj_map_eq_map, metis map_option_inject)
  moreover have "rc_Confidence r = rc_Confidence s" "rc_SpecID r = rc_SpecID s" "rc_VetoedBy r = rc_VetoedBy s"
    using R(14-16) S(14-16) by simp_all
  moreover have "p\<lparr>pf_SignedAt := 0\<rparr> = q\<lparr>pf_SignedAt := 0\<rparr>" using R(11-13) S(11-13) by (intro Proof.equality) simp_all
  ultimately show ?thesis
    unfolding drop_signed_at_def p q using R(1-7) S(1-7) by (intro DecisionReceipt.equality) simp_all
qed

lemma ToW3CVC_fields:
  assumes "ToW3CVC marshals r = Inr c" "rc_Proof r = Some p"
  shows "wc_ID c = ''urn:uuid:'' @ rc_ID r" "rc_IssuedAt r = wc_ValidFrom c" "rc_Issuer r = wc_Issuer c"
    "subject_attrs r = wc_CredentialSubject c"
    "p = \<lparr>pf_Scheme = wp_Cryptosuite (wc_Proof c), pf_Signature = wp_ProofValue (wc_Proof c),
      pf_VerificationMethod = wp_VerificationMethod (wc_Proof c), pf_SignedAt = wp_Created (wc_Proof c)\<rparr>"
  using assms by (auto simp: ToW3CVC_def split: if_splits)

lemma subject_attrs_at:
  "subject_attrs r ''id'' = Some (AString (rc_Subject r))" "subject_attrs r ''cp:spec_id'' = Some (AString (rc_SpecID r))"
  "subject_attrs r ''cp:aggregate'' = Some (AString (rc_Aggregate r))" "subject_attrs r ''cp:confidence'' = Some (ANumber (rc_Confidence r))"
  "subject_attrs r ''cp:facets'' = Some (AFacets (rc_Facets r))" "subject_attrs r ''cp:evidence_root'' = Some (AString (rc_EvidenceRoot r))"
  "subject_attrs r ''cp:model_id'' = Some (AString (rc_ModelID r))" "subject_attrs r ''cp:canonical_hash'' = Some (AString (CanonicalHash r))"
  "subject_attrs r ''cp:vetoed_by'' = (if rc_VetoedBy r = [] then None else Some (AString (rc_VetoedBy r)))"
  "subject_attrs r ''cp:provider_receipts'' = (if rc_ProviderReceipts r = [] then None else Some (AProviders (rc_ProviderReceipts r)))"
  "subject_attrs r ''cp:hitl_resolution'' = map_option AHITL (rc_HITL r)"
  by (simp_all add: subject_attrs_def Let_def split: option.split)

lemma w3c_keeps:
  assumes "ToW3CVC marshals r = Inr c" "ToW3CVC marshals s = Inr c"
  shows "r = s"
proof -
  obtain p q where p: "rc_Proof r = Some p" and q: "rc_Proof s = Some q"
    using assms by (auto simp: ToW3CVC_def split: option.splits)
  note R = ToW3CVC_fields [OF assms(1) p] and S = ToW3CVC_fields [OF assms(2) q]
  have sub: "subject_attrs r = subject_attrs s" using R(4) S(4) by simp
  note A = subject_attrs_at [of r, unfolded sub] subject_attrs_at [of s]
  have "rc_VetoedBy r = rc_VetoedBy s" "rc_ProviderReceipts r = rc_ProviderReceipts s" using A(9,10,20,21) by (auto split: if_splits)
  moreover have "rc_HITL r = rc_HITL s" using A(11,22) map_option_inject [of AHITL] by (metis attr.inject(7) injI)
  moreover have "rc_Subject r = rc_Subject s" "rc_SpecID r = rc_SpecID s" "rc_Aggregate r = rc_Aggregate s"
    "rc_Confidence r = rc_Confidence s" "rc_Facets r = rc_Facets s" "rc_EvidenceRoot r = rc_EvidenceRoot s" "rc_ModelID r = rc_ModelID s"
    using A(1-7,12-18) by simp_all
  moreover have "p = q" using R(5) S(5) by simp
  ultimately show ?thesis using R(1-3) S(1-3) p q by (intro DecisionReceipt.equality) simp_all
qed

text \<open>
  The derived shapes carry the signed digest and lose nothing else. Both conversions refuse
  exactly the unsigned receipts (the credential also one whose subject cannot be marshalled);
  both carry the canonical hash the signature was made for; the credential determines the
  receipt, and the agent receipt determines it up to the time of the signature.
\<close>

theorem shapes_lossless:
  "(\<exists>a. ToAgentReceipt r = Inr a) = (rc_Proof r \<noteq> None) \<and>
   (\<exists>c. ToW3CVC marshals r = Inr c) = (rc_Proof r \<noteq> None \<and> marshals (subject_attrs r)) \<and>
   (ToAgentReceipt r = Inr a \<longrightarrow> as_Digest (ar_Evidence a) = CanonicalHash r) \<and>
   (ToW3CVC marshals r = Inr c \<longrightarrow> wc_CredentialSubject c ''cp:canonical_hash'' = Some (AString (CanonicalHash r))) \<and>
   (ToAgentReceipt r = Inr a \<longrightarrow> ToAgentReceipt s = Inr a \<longrightarrow> drop_signed_at r = drop_signed_at s) \<and>
   (ToW3CVC marshals r = Inr c \<longrightarrow> ToW3CVC marshals s = Inr c \<longrightarrow> r = s)"
proof (intro conjI impI)
  show "(\<exists>a. ToAgentReceipt r = Inr a) = (rc_Proof r \<noteq> None)" by (auto simp: ToAgentReceipt_def Let_def split: option.splits)
  show "(\<exists>c. ToW3CVC marshals r = Inr c) = (rc_Proof r \<noteq> None \<and> marshals (subject_attrs r))"
    by (auto simp: ToW3CVC_def split: option.splits)
  show "as_Digest (ar_Evidence a) = CanonicalHash r" if "ToAgentReceipt r = Inr a"
    using that ToAgentReceipt_fields(17) by (auto simp: ToAgentReceipt_def split: option.splits)
  show "wc_CredentialSubject c ''cp:canonical_hash'' = Some (AString (CanonicalHash r))" if "ToW3CVC marshals r = Inr c"
    using that subject_attrs_at(8) [of r] by (auto simp: ToW3CVC_def split: option.splits if_splits)
qed (blast intro: agent_receipt_keeps w3c_keeps)+

definition sample_proof :: "int \<Rightarrow> Proof" where
  "sample_proof t = \<lparr>pf_Scheme = ''s'', pf_Signature = '''', pf_VerificationMethod = ''did#k'', pf_SignedAt = t\<rparr>"

theorem shapes_lossless_witness:
  "\<exists>c. ToW3CVC (\<lambda>_. True) ((sample_receipt ''i'' [] [])\<lparr>rc_Proof := Some (sample_proof 0)\<rparr>) = Inr c \<and>
     wc_CredentialSubject c ''cp:canonical_hash'' = Some (AString (CanonicalHash (sample_receipt ''i'' [] [])))"
proof -
  let ?r = "(sample_receipt ''i'' [] [])\<lparr>rc_Proof := Some (sample_proof 0)\<rparr>"
  obtain c where c: "ToW3CVC (\<lambda>_. True) ?r = Inr c" by (simp add: ToW3CVC_def)
  have "wc_CredentialSubject c ''cp:canonical_hash'' = Some (AString (CanonicalHash ?r))"
    using shapes_lossless [of ?r "\<lambda>_. True"] c by blast
  with c show ?thesis unfolding CanonicalHash_proof by blast
qed

text \<open>The agent receipt does not hold the time of the signature.\<close>

lemma agent_receipt_drops_signed_at:
  "ToAgentReceipt (r\<lparr>rc_Proof := Some (sample_proof t)\<rparr>) = ToAgentReceipt (r\<lparr>rc_Proof := Some (sample_proof u)\<rparr>)"
  by (simp add: ToAgentReceipt_def sample_proof_def)

end
