(* ===== verification/Siwe.thy ===== *)
theory Siwe
  imports Go_Time Pq
begin

text \<open>
  Challenge-response sign-in, \<^verbatim>\<open>engine/internal/api/siwe/siwe.go\<close>: a store of outstanding
  challenges, each consumed by the first valid signature. Clock readings and nonce are arguments, and the
  Ed25519 verification is the one of the signature library. Every method holds the lock, so it is
  one step on the map of challenges.
\<close>

section \<open>Challenges\<close>

definition purposePrefix :: gostring where "purposePrefix = ''cp:siwe:v1''"

definition DefaultTTL :: int where "DefaultTTL = 5 * 60 * 10 ^ 9"

definition MaxOutstanding :: nat where "MaxOutstanding = 1024"

definition MaxPurposeLength :: nat where "MaxPurposeLength = 64"

datatype siwe_error = ErrExpired | ErrPurposeMismatch | ErrPubkeyMismatch | ErrSignatureInvalid | ErrInvalidInput
  | ErrCapacityExceeded | ErrRng

record challenge =
  ch_pubkey :: bytes
  ch_purpose :: gostring
  ch_nonce :: bytes
  ch_issuedAt :: int
  ch_expiresAt :: int

record SiweStore =
  ss_ttl :: int
  ss_items :: "gostring \<rightharpoonup> challenge"

definition NewSiweStore :: "int \<Rightarrow> SiweStore" where
  "NewSiweStore ttl = \<lparr>ss_ttl = (if ttl \<le> 0 then DefaultTTL else ttl), ss_items = Map.empty\<rparr>"

definition purpose_char :: "char \<Rightarrow> bool" where
  "purpose_char c = (let n = of_char c :: nat in n = 45 \<or> 97 \<le> n \<and> n \<le> 122 \<or> 48 \<le> n \<and> n \<le> 57)"

text \<open>A byte outside ASCII belongs to a rune that is not allowed, so the test may go by bytes.\<close>

definition validatePurpose :: "gostring \<Rightarrow> siwe_error option" where
  "validatePurpose purpose =
     (if purpose = [] \<or> length purpose > MaxPurposeLength then Some ErrInvalidInput
      else if list_all purpose_char purpose then None else Some ErrInvalidInput)"

definition canonicalMessage :: "bytes \<Rightarrow> gostring \<Rightarrow> bytes \<Rightarrow> int \<Rightarrow> gostring" where
  "canonicalMessage pubkey purpose nonce issued =
     purposePrefix @ ''|'' @ purpose @ ''|'' @ hex_encode pubkey @ ''|'' @ hex_encode nonce @ ''|'' @ format_RFC3339 issued"

definition gcLocked :: "int \<Rightarrow> SiweStore \<Rightarrow> SiweStore" where
  "gcLocked now s =
     s\<lparr>ss_items := (\<lambda>k. case ss_items s k of None \<Rightarrow> None | Some ch \<Rightarrow> if now > ch_expiresAt ch then None else Some ch)\<rparr>"

section \<open>Operations\<close>

text \<open>\<open>nonce\<close> is what the random source delivers, \<open>None\<close> when it fails. The store is returned also with an error, since expired challenges are dropped first. The clock is read twice, by the collection (\<open>t0\<close>) and after it (\<open>now\<close>).\<close>

definition Issue :: "int \<Rightarrow> int \<Rightarrow> bytes option \<Rightarrow> SiweStore \<Rightarrow> bytes \<Rightarrow> gostring \<Rightarrow> SiweStore \<times> (siwe_error + gostring \<times> gostring)" where
  "Issue t0 now nonce s pubkey purpose =
     (if length pubkey \<noteq> PublicKeySize then (s, Inl ErrInvalidInput)
      else case validatePurpose purpose of
        Some e \<Rightarrow> (s, Inl e)
      | None \<Rightarrow>
          let s1 = gcLocked t0 s in
          if card (dom (ss_items s1)) \<ge> MaxOutstanding then (s1, Inl ErrCapacityExceeded)
          else (case nonce of
            None \<Rightarrow> (s1, Inl ErrRng)
          | Some n \<Rightarrow>
              let issued = now - now mod 10 ^ 9;
                  msg = canonicalMessage pubkey purpose n issued;
                  ch = \<lparr>ch_pubkey = pubkey, ch_purpose = purpose, ch_nonce = n, ch_issuedAt = issued, ch_expiresAt = issued + ss_ttl s1\<rparr>
              in (s1\<lparr>ss_items := (ss_items s1)(msg \<mapsto> ch)\<rparr>, Inr (msg, hex_encode n))))"

text \<open>The comparison in constant time: no early exit, the accumulated difference is zero.\<close>

fun xor_all :: "bytes \<Rightarrow> bytes \<Rightarrow> nat \<Rightarrow> nat" where
  "xor_all (a # as) (b # bs) v = xor_all as bs (v OR (of_char a XOR of_char b))"
| "xor_all _ _ v = v"

definition equalBytes :: "bytes \<Rightarrow> bytes \<Rightarrow> bool" where
  "equalBytes a b = (length a = length b \<and> xor_all a b 0 = 0)"

definition Siwe_Verify ::
  "('sk, 'pk) sig_lib \<Rightarrow> int \<Rightarrow> int \<Rightarrow> SiweStore \<Rightarrow> bytes \<Rightarrow> gostring \<Rightarrow> gostring \<Rightarrow> bytes \<Rightarrow> SiweStore \<times> siwe_error option" where
  "Siwe_Verify L t0 now s pubkey purpose message signature =
     (if length pubkey \<noteq> PublicKeySize \<or> length signature \<noteq> SignatureSize then (s, Some ErrInvalidInput)
      else case validatePurpose purpose of
        Some e \<Rightarrow> (s, Some e)
      | None \<Rightarrow>
          let s1 = gcLocked t0 s in
          (case ss_items s1 message of
             None \<Rightarrow> (s1, Some ErrExpired)
           | Some ch \<Rightarrow>
               if now > ch_expiresAt ch then (s1\<lparr>ss_items := (ss_items s1)(message := None)\<rparr>, Some ErrExpired)
               else if \<not> equalBytes (ch_pubkey ch) pubkey then (s1, Some ErrPubkeyMismatch)
               else if ch_purpose ch \<noteq> purpose then (s1, Some ErrPurposeMismatch)
               else if \<not> ed_Verify L pubkey message signature then (s1, Some ErrSignatureInvalid)
               else (s1\<lparr>ss_items := (ss_items s1)(message := None)\<rparr>, None)))"

definition Outstanding :: "int \<Rightarrow> SiweStore \<Rightarrow> SiweStore \<times> nat" where
  "Outstanding now s = (let s1 = gcLocked now s in (s1, card (dom (ss_items s1))))"

definition ParsePubkeyHex :: "gostring \<Rightarrow> siwe_error + bytes" where
  "ParsePubkeyHex s =
     (case hex_decode (TrimSpace s) of
        None \<Rightarrow> Inl ErrInvalidInput
      | Some b \<Rightarrow> if length b \<noteq> PublicKeySize then Inl ErrInvalidInput else Inr b)"

definition ParseSignatureHex :: "gostring \<Rightarrow> siwe_error + bytes" where
  "ParseSignatureHex s =
     (case hex_decode (TrimSpace s) of
        None \<Rightarrow> Inl ErrInvalidInput
      | Some b \<Rightarrow> if length b \<noteq> SignatureSize then Inl ErrInvalidInput else Inr b)"

section \<open>Lemmas\<close>

lemma xor_zero_iff: "x XOR y = 0 \<longleftrightarrow> x = y" for x y :: nat
proof
  assume "x XOR y = 0"
  then have "bit x n = bit y n" for n by (metis bit_0_eq bit_xor_iff bot_apply bot_bool_def)
  then show "x = y" by (rule bit_eqI)
qed simp

lemma xor_all_zero: "length a = length b \<Longrightarrow> xor_all a b v = 0 \<longleftrightarrow> v = 0 \<and> a = b"
proof (induction a b v rule: xor_all.induct)
  case (1 a as b bs v)
  have "v OR (of_char a XOR of_char b) = 0 \<longleftrightarrow> v = 0 \<and> (of_char a :: nat) = of_char b"
    by (simp only: or_eq_0_iff xor_zero_iff)
  with 1 show ?case by auto
qed auto

lemma equalBytes_iff [simp]: "equalBytes a b \<longleftrightarrow> a = b"
  by (auto simp: equalBytes_def xor_all_zero)

text \<open>Purpose, key, nonce and second of issue can be read off a message.\<close>

lemma takeWhile_sep: "CHR ''|'' \<notin> set a \<Longrightarrow> takeWhile (\<lambda>c. c \<noteq> CHR ''|'') (a @ CHR ''|'' # r) = a"
  by (induction a) auto

lemma split_sep:
  assumes "a @ CHR ''|'' # r = b @ CHR ''|'' # s" "CHR ''|'' \<notin> set a" "CHR ''|'' \<notin> set b"
  shows "a = b" "r = s"
proof -
  show "a = b" using takeWhile_sep assms by metis
  with assms(1) show "r = s" by simp
qed

lemma no_sep: "CHR ''|'' \<notin> set (hex_encode b)" "validatePurpose p = None \<Longrightarrow> CHR ''|'' \<notin> set p"
  using set_hex_encode [of b]
  by (auto simp: hex_digits_def validatePurpose_def list_all_iff purpose_char_def Let_def split: if_splits)

lemma format_RFC3339_inject:
  assumes "format_RFC3339 t = format_RFC3339 u" "t mod 1000000000 = u mod 1000000000"
  shows "t = u"
proof -
  have "date_text t = date_text u \<and> ''T'' @ clock_text t @ ''Z'' = ''T'' @ clock_text u @ ''Z''"
    using assms(1) append_eq_append_conv [of "date_text t" "date_text u" "''T'' @ clock_text t @ ''Z''" "''T'' @ clock_text u @ ''Z''"]
    by (simp add: format_RFC3339_def length_clock_text)
  then have d: "date_text t = date_text u" and c: "clock_text t = clock_text u" by simp_all
  from clock_text_inject [OF c assms(2)] d show ?thesis unfolding date_text_inject by (blast intro: civil_determines)
qed

lemma canonicalMessage_inject:
  assumes "canonicalMessage pk p n t = canonicalMessage qk q m u" "validatePurpose p = None" "validatePurpose q = None"
    and "t mod 1000000000 = 0" "u mod 1000000000 = 0"
  shows "pk = qk \<and> p = q \<and> n = m \<and> t = u"
proof -
  have 0: "p @ CHR ''|'' # hex_encode pk @ CHR ''|'' # hex_encode n @ CHR ''|'' # format_RFC3339 t =
      q @ CHR ''|'' # hex_encode qk @ CHR ''|'' # hex_encode m @ CHR ''|'' # format_RFC3339 u"
    using assms(1) by (simp add: canonicalMessage_def)
  note 1 = split_sep [OF 0 no_sep(2) [OF assms(2)] no_sep(2) [OF assms(3)]]
  note 2 = split_sep [OF 1(2) no_sep(1) no_sep(1)]
  note 3 = split_sep [OF 2(2) no_sep(1) no_sep(1)]
  have "t = u" by (rule format_RFC3339_inject) (use 3(2) assms(4,5) in simp_all)
  with 1(1) 2(1) 3(1) show ?thesis by simp
qed

section \<open>Histories\<close>

datatype siwe_call =
  CIssue int int "bytes option" bytes gostring
| CVerify int int bytes gostring gostring bytes
| COutstanding int

datatype siwe_reply = RIssue "siwe_error + gostring \<times> gostring" | RVerify "siwe_error option" | ROutstanding nat

type_synonym siwe_log = "(siwe_call \<times> siwe_reply) list"

fun siwe_exec :: "('sk, 'pk) sig_lib \<Rightarrow> SiweStore \<Rightarrow> siwe_call \<Rightarrow> SiweStore \<times> siwe_reply" where
  "siwe_exec L s (CIssue t0 now nonce pk p) = map_prod id RIssue (Issue t0 now nonce s pk p)"
| "siwe_exec L s (CVerify t0 now pk p m sig) = map_prod id RVerify (Siwe_Verify L t0 now s pk p m sig)"
| "siwe_exec L s (COutstanding now) = map_prod id ROutstanding (Outstanding now s)"

definition siwe_hist :: "('sk, 'pk) sig_lib \<Rightarrow> int \<Rightarrow> siwe_call list \<Rightarrow> SiweStore \<times> siwe_log" where
  "siwe_hist L ttl cs = foldl (\<lambda>(s, lg) c. let (s', r) = siwe_exec L s c in (s', lg @ [(c, r)])) (NewSiweStore ttl, []) cs"

fun issues :: "gostring \<Rightarrow> siwe_call \<times> siwe_reply \<Rightarrow> bool" where
  "issues m (c, RIssue (Inr (m', h))) = (m' = m)"
| "issues m _ = False"

fun consumes :: "gostring \<Rightarrow> siwe_call \<times> siwe_reply \<Rightarrow> bool" where
  "consumes m (CVerify t0 now pk p m' sig, RVerify None) = (m' = m)"
| "consumes m _ = False"

definition issued :: "gostring \<Rightarrow> siwe_log \<Rightarrow> nat" where
  "issued m lg = length (filter (issues m) lg)"

definition verified :: "gostring \<Rightarrow> siwe_log \<Rightarrow> nat" where
  "verified m lg = length (filter (consumes m) lg)"

definition origin :: "int \<Rightarrow> siwe_log \<Rightarrow> gostring \<Rightarrow> challenge \<Rightarrow> bool" where
  "origin ttl lg m ch \<longleftrightarrow>
     (\<exists>t0 t. (CIssue t0 t (Some (ch_nonce ch)) (ch_pubkey ch) (ch_purpose ch), RIssue (Inr (m, hex_encode (ch_nonce ch)))) \<in> set lg \<and>
        ch_expiresAt ch = t - t mod 10 ^ 9 + ttl)"

definition siwe_inv :: "int \<Rightarrow> SiweStore \<Rightarrow> siwe_log \<Rightarrow> bool" where
  "siwe_inv ttl s lg \<longleftrightarrow> ss_ttl s = ttl \<and> finite (dom (ss_items s)) \<and> card (dom (ss_items s)) \<le> MaxOutstanding \<and>
     (\<forall>m ch. ss_items s m = Some ch \<longrightarrow> verified m lg < issued m lg \<and> origin ttl lg m ch) \<and>
     (\<forall>m. verified m lg \<le> issued m lg)"

lemma counts_append [simp]:
  "issued m (lg @ [e]) = issued m lg + (if issues m e then 1 else 0)"
  "verified m (lg @ [e]) = verified m lg + (if consumes m e then 1 else 0)"
  by (simp_all add: issued_def verified_def)

lemma origin_append: "origin ttl lg m ch \<Longrightarrow> origin ttl (lg @ [e]) m ch"
  by (auto simp: origin_def)

lemma gc_sub: "ss_items (gcLocked now s) m = Some ch \<Longrightarrow> ss_items s m = Some ch \<and> now \<le> ch_expiresAt ch"
  by (auto simp: gcLocked_def split: option.splits if_splits)

lemma siwe_inv_sub:
  assumes "siwe_inv ttl s lg" "ss_ttl s' = ss_ttl s" "ss_items s' \<subseteq>\<^sub>m ss_items s"
  shows "siwe_inv ttl s' lg"
proof -
  have d: "dom (ss_items s') \<subseteq> dom (ss_items s)" by (rule map_le_implies_dom_le [OF assms(3)])
  have f: "finite (dom (ss_items s))" using assms(1) by (simp add: siwe_inv_def)
  have i: "ss_items s m = Some ch" if "ss_items s' m = Some ch" for m ch
    using that assms(3) by (metis domI map_le_def)
  show ?thesis
    using assms(1,2) finite_subset [OF d f] card_mono [OF f d] i unfolding siwe_inv_def by auto
qed

lemma gc_le: "ss_items (gcLocked now s) \<subseteq>\<^sub>m ss_items s"
  using gc_sub [of now s] by (auto simp: map_le_def dom_def)

lemma siwe_inv_gc: "siwe_inv ttl s lg \<Longrightarrow> siwe_inv ttl (gcLocked now s) lg"
  by (rule siwe_inv_sub [OF _ _ gc_le]) (simp_all add: gcLocked_def)

lemma siwe_inv_log:
  assumes "siwe_inv ttl s lg" "\<And>m. \<not> issues m e" "\<And>m. consumes m e \<Longrightarrow> ss_items s m = None \<and> verified m lg < issued m lg"
  shows "siwe_inv ttl s (lg @ [e])"
  using assms unfolding siwe_inv_def by (auto simp: Suc_le_eq origin_append)

text \<open>What a successful verification needs and does.\<close>

lemma Verify_ok:
  assumes "Siwe_Verify L t0 now s pk p m sig = (s', None)"
  shows "\<exists>ch. ss_items (gcLocked t0 s) m = Some ch \<and> ch_pubkey ch = pk \<and> ch_purpose ch = p \<and> now \<le> ch_expiresAt ch \<and>
      ed_Verify L pk m sig \<and> s' = (gcLocked t0 s)\<lparr>ss_items := (ss_items (gcLocked t0 s))(m := None)\<rparr>"
  using assms by (auto simp: Siwe_Verify_def Let_def split: if_splits option.splits)

lemma Verify_state:
  "fst (Siwe_Verify L t0 now s pk p m sig) \<in>
     {s, gcLocked t0 s, (gcLocked t0 s)\<lparr>ss_items := (ss_items (gcLocked t0 s))(m := None)\<rparr>}"
  by (simp add: Siwe_Verify_def Let_def split: option.splits)

lemma Verify_le: "ss_items (fst (Siwe_Verify L t0 now s pk p m sig)) \<subseteq>\<^sub>m ss_items s \<and> ss_ttl (fst (Siwe_Verify L t0 now s pk p m sig)) = ss_ttl s"
proof -
  have "(ss_items (gcLocked t0 s))(m := None) \<subseteq>\<^sub>m ss_items s"
    using gc_le [of t0 s] by (auto simp: map_le_def dom_def)
  then show ?thesis using Verify_state [of L t0 now s pk p m sig] gc_le [of t0 s] by (auto simp: gcLocked_def)
qed

lemma Issue_cases:
  obtains e where "Issue t0 now n s pk p = (s, Inl e)" | e where "Issue t0 now n s pk p = (gcLocked t0 s, Inl e)"
  | b ch m where "n = Some b" "validatePurpose p = None" "m = canonicalMessage pk p b (now - now mod 10 ^ 9)"
      "card (dom (ss_items (gcLocked t0 s))) < MaxOutstanding"
      "ch = \<lparr>ch_pubkey = pk, ch_purpose = p, ch_nonce = b, ch_issuedAt = now - now mod 10 ^ 9, ch_expiresAt = now - now mod 10 ^ 9 + ss_ttl (gcLocked t0 s)\<rparr>"
      "Issue t0 now n s pk p = ((gcLocked t0 s)\<lparr>ss_items := (ss_items (gcLocked t0 s))(m \<mapsto> ch)\<rparr>, Inr (m, hex_encode b))"
proof (cases "length pk \<noteq> PublicKeySize \<or> validatePurpose p \<noteq> None")
  case True
  then show ?thesis using that(1) by (cases "length pk = PublicKeySize") (auto simp: Issue_def)
next
  case False
  then show ?thesis
    using that(2,3) by (cases "card (dom (ss_items (gcLocked t0 s))) \<ge> MaxOutstanding"; cases n) (auto simp: Issue_def Let_def)
qed

lemma siwe_inv_put:
  assumes inv: "siwe_inv ttl s lg" and c: "card (dom (ss_items s)) < MaxOutstanding"
    and ch: "ch = \<lparr>ch_pubkey = pk, ch_purpose = p, ch_nonce = b, ch_issuedAt = i, ch_expiresAt = now - now mod 10 ^ 9 + ss_ttl s\<rparr>"
  shows "siwe_inv ttl (s\<lparr>ss_items := (ss_items s)(m \<mapsto> ch)\<rparr>) (lg @ [(CIssue t0 now (Some b) pk p, RIssue (Inr (m, hex_encode b)))])"
proof -
  have "card (insert m (dom (ss_items s))) \<le> Suc (card (dom (ss_items s)))" by (simp add: card_insert_if inv [unfolded siwe_inv_def])
  then show ?thesis using inv c unfolding siwe_inv_def
    by (auto simp: ch le_imp_less_Suc less_Suc_eq_le le_Suc_eq origin_append) (auto simp: origin_def)
qed

lemma siwe_inv_exec:
  assumes inv: "siwe_inv ttl s lg" and e: "siwe_exec L s c = (s', r)"
  shows "siwe_inv ttl s' (lg @ [(c, r)])"
proof (cases c)
  case (CIssue t0 now n pk p)
  show ?thesis
  proof (rule Issue_cases [of t0 now n s pk p])
    fix er assume "Issue t0 now n s pk p = (s, Inl er)"
    with e inv CIssue show ?thesis by (auto intro: siwe_inv_log)
  next
    fix er assume "Issue t0 now n s pk p = (gcLocked t0 s, Inl er)"
    with e siwe_inv_gc [OF inv] CIssue show ?thesis by (auto intro!: siwe_inv_log)
  next
    fix b ch m
    assume a: "n = Some b" "card (dom (ss_items (gcLocked t0 s))) < MaxOutstanding"
      "ch = \<lparr>ch_pubkey = pk, ch_purpose = p, ch_nonce = b, ch_issuedAt = now - now mod 10 ^ 9, ch_expiresAt = now - now mod 10 ^ 9 + ss_ttl (gcLocked t0 s)\<rparr>"
      and "Issue t0 now n s pk p = ((gcLocked t0 s)\<lparr>ss_items := (ss_items (gcLocked t0 s))(m \<mapsto> ch)\<rparr>, Inr (m, hex_encode b))"
    with e CIssue siwe_inv_put [OF siwe_inv_gc [OF inv] a(2,3)] show ?thesis by auto
  qed
next
  case (CVerify t0 now pk p m sig)
  define v where "v = Siwe_Verify L t0 now s pk p m sig"
  have s': "s' = fst v" and r: "r = RVerify (snd v)" using e CVerify by (auto simp: v_def map_prod_def split: prod.splits)
  have i: "siwe_inv ttl s' lg" using siwe_inv_sub [OF inv] Verify_le [of L t0 now s pk p m sig] s' v_def by auto
  show ?thesis
  proof (rule siwe_inv_log [OF i])
    fix m' assume "consumes m' (c, r)"
    then have m': "m' = m" "snd v = None" using CVerify r by (cases "snd v"; simp)+
    then have "Siwe_Verify L t0 now s pk p m sig = (s', None)" using s' v_def by (metis prod.collapse)
    from Verify_ok [OF this] siwe_inv_gc [OF inv, of t0] show "ss_items s' m' = None \<and> verified m' lg < issued m' lg"
      by (auto simp: m' siwe_inv_def)
  qed (use r in simp)
next
  case (COutstanding now)
  with e siwe_inv_gc [OF inv] show ?thesis by (auto simp: Outstanding_def Let_def intro!: siwe_inv_log)
qed

lemma siwe_hist_snoc:
  "siwe_hist L ttl (cs @ [c]) = (case siwe_hist L ttl cs of (s, lg) \<Rightarrow> case siwe_exec L s c of (s', r) \<Rightarrow> (s', lg @ [(c, r)]))"
  by (simp add: siwe_hist_def Let_def split: prod.splits)

lemma siwe_hist_inv: "siwe_hist L ttl cs = (s, lg) \<Longrightarrow> siwe_inv (ss_ttl (NewSiweStore ttl)) s lg"
proof (induction cs arbitrary: s lg rule: rev_induct)
  case Nil
  then show ?case by (auto simp: siwe_hist_def siwe_inv_def NewSiweStore_def issued_def verified_def)
next
  case (snoc c cs)
  obtain s0 lg0 where 0: "siwe_hist L ttl cs = (s0, lg0)" by fastforce
  obtain s1 r where 1: "siwe_exec L s0 c = (s1, r)" by fastforce
  from snoc.prems siwe_inv_exec [OF snoc.IH [OF 0] 1] show ?case by (simp add: siwe_hist_snoc 0 1)
qed

text \<open>
  C13: at most \<open>MaxOutstanding\<close> challenges are kept. A verification succeeds only with a signature that is
  valid for the presented key on the presented message, and this message has been issued before, for the same
  key and the same purpose, at a time from which its lifetime is not over; it is then removed, and it has been
  issued more often than it has been accepted. So a signed challenge is good for one sign-in.
\<close>

theorem challenge_single_use:
  assumes "siwe_hist L ttl cs = (s, lg)"
  shows "card (dom (ss_items s)) \<le> MaxOutstanding \<and>
    (\<forall>t0 now pk p m sig s'. Siwe_Verify L t0 now s pk p m sig = (s', None) \<longrightarrow>
       ed_Verify L pk m sig \<and> verified m lg < issued m lg \<and> ss_items s' m = None \<and>
       (\<exists>t1 t n. (CIssue t1 t (Some n) pk p, RIssue (Inr (m, hex_encode n))) \<in> set lg \<and>
          now \<le> t - t mod 10 ^ 9 + (if ttl \<le> 0 then DefaultTTL else ttl)))"
proof -
  note inv = siwe_hist_inv [OF assms]
  have ttl: "ss_ttl (NewSiweStore ttl) = (if ttl \<le> 0 then DefaultTTL else ttl)" by (simp add: NewSiweStore_def)
  have "ed_Verify L pk m sig \<and> verified m lg < issued m lg \<and> ss_items s' m = None \<and>
       (\<exists>t1 t n. (CIssue t1 t (Some n) pk p, RIssue (Inr (m, hex_encode n))) \<in> set lg \<and>
          now \<le> t - t mod 10 ^ 9 + (if ttl \<le> 0 then DefaultTTL else ttl))"
    if v: "Siwe_Verify L t0 now s pk p m sig = (s', None)" for t0 now pk p m sig s'
  proof -
    obtain ch where ch: "ss_items (gcLocked t0 s) m = Some ch" "ch_pubkey ch = pk" "ch_purpose ch = p" "now \<le> ch_expiresAt ch"
      "ed_Verify L pk m sig" "s' = (gcLocked t0 s)\<lparr>ss_items := (ss_items (gcLocked t0 s))(m := None)\<rparr>"
      using Verify_ok [OF v] by auto
    from inv gc_sub [OF ch(1)] obtain t1 t where "verified m lg < issued m lg"
      "(CIssue t1 t (Some (ch_nonce ch)) pk p, RIssue (Inr (m, hex_encode (ch_nonce ch)))) \<in> set lg"
      "ch_expiresAt ch = t - t mod 10 ^ 9 + (if ttl \<le> 0 then DefaultTTL else ttl)"
      unfolding siwe_inv_def ttl origin_def using ch(2,3) by blast
    with ch(4) show ?thesis by (intro conjI ch(5) exI) (simp_all add: ch(6))
  qed
  with inv show ?thesis unfolding siwe_inv_def by blast
qed

theorem challenge_single_use_witness:
  "\<exists>s lg s' m pk n. siwe_hist sample_lib 0 [CIssue 5 7 (Some n) pk ''login'', COutstanding 8] = (s, lg) \<and>
     Siwe_Verify sample_lib 9 10 s pk ''login'' m (sha256 m @ pk) = (s', None) \<and> verified m lg < issued m lg \<and> ss_items s' m = None"
proof -
  define pk n where "pk = replicate 32 CHR ''k''" and "n = replicate 16 CHR ''n''"
  define m where "m = canonicalMessage pk ''login'' n 0"
  define ch where "ch = \<lparr>ch_pubkey = pk, ch_purpose = ''login'', ch_nonce = n, ch_issuedAt = 0, ch_expiresAt = DefaultTTL\<rparr>"
  define s where "s = \<lparr>ss_ttl = DefaultTTL, ss_items = [m \<mapsto> ch]\<rparr>"
  have pk: "length pk = PublicKeySize" and p: "validatePurpose ''login'' = None"
    by (simp_all add: pk_def size_defs validatePurpose_def purpose_char_def MaxPurposeLength_def)
  have gc: "gcLocked t (NewSiweStore 0) = NewSiweStore 0" "t \<le> 10 \<Longrightarrow> gcLocked t s = s" for t
    by (auto simp: gcLocked_def NewSiweStore_def s_def ch_def DefaultTTL_def fun_eq_iff)
  have "Issue 5 7 (Some n) (NewSiweStore 0) pk ''login'' = (s, Inr (m, hex_encode n))"
    unfolding Issue_def by (simp add: pk p gc) (simp add: NewSiweStore_def MaxOutstanding_def s_def m_def ch_def Let_def)
  then have h: "siwe_hist sample_lib 0 [CIssue 5 7 (Some n) pk ''login'', COutstanding 8] =
      (s, [(CIssue 5 7 (Some n) pk ''login'', RIssue (Inr (m, hex_encode n))), (COutstanding 8, ROutstanding 1)])"
    by (simp add: siwe_hist_def Outstanding_def gc) (simp add: s_def)
  have "length (sha256 m @ pk) = SignatureSize" by (simp add: pk_def size_defs)
  then have v: "Siwe_Verify sample_lib 9 10 s pk ''login'' m (sha256 m @ pk) = (s\<lparr>ss_items := (ss_items s)(m := None)\<rparr>, None)"
    unfolding Siwe_Verify_def by (simp add: pk p gc) (simp add: s_def ch_def DefaultTTL_def sample_lib_def)
  from challenge_single_use [OF h] v have "verified m (snd (siwe_hist sample_lib 0 [CIssue 5 7 (Some n) pk ''login'', COutstanding 8]))
      < issued m (snd (siwe_hist sample_lib 0 [CIssue 5 7 (Some n) pk ''login'', COutstanding 8]))"
    unfolding h snd_conv by blast
  with h v show ?thesis by (intro exI conjI) (assumption | simp)+
qed

end
