(* ===== verification/Http.thy ===== *)
theory Http
  imports Go_Prelude
begin

text \<open>
  Requests, responses and the request router of the HTTP server. A handler reads a request, starts
  from the response headers that were set before it ran and changes the server's state. Header names
  are the ones of the source (the library compares them without case), percent-escapes in paths are
  not decoded, and of the router the patterns the server uses are modelled: a method, literal
  segments and single-segment wildcards.
\<close>

section \<open>Text\<close>

fun Split :: "char \<Rightarrow> gostring \<Rightarrow> gostring list" where
  "Split c [] = [[]]"
| "Split c (x # xs) = (if x = c then [] # Split c xs else (case Split c xs of [] \<Rightarrow> [[x]] | p # ps \<Rightarrow> (x # p) # ps))"

fun Join :: "gostring \<Rightarrow> gostring list \<Rightarrow> gostring" where
  "Join sep [] = []"
| "Join sep [x] = x"
| "Join sep (x # xs) = x @ sep @ Join sep xs"

definition HasPrefix :: "gostring \<Rightarrow> gostring \<Rightarrow> bool" where
  "HasPrefix s p \<longleftrightarrow> take (length p) s = p"

definition HasSuffix :: "gostring \<Rightarrow> gostring \<Rightarrow> bool" where
  "HasSuffix s p \<longleftrightarrow> length p \<le> length s \<and> drop (length s - length p) s = p"

definition TrimSuffix :: "gostring \<Rightarrow> gostring \<Rightarrow> gostring" where
  "TrimSuffix s p = (if HasSuffix s p then take (length s - length p) s else s)"

fun Contains :: "gostring \<Rightarrow> gostring \<Rightarrow> bool" where
  "Contains [] p = (p = [])"
| "Contains (c # cs) p = (HasPrefix (c # cs) p \<or> Contains cs p)"

text \<open>
  Lower case, for comparisons with ASCII text: two characters outside ASCII have a lower case in
  ASCII, the capital i with dot and the Kelvin sign; the others never become equal to ASCII text.
\<close>

fun ToLower :: "gostring \<Rightarrow> gostring" where
  "ToLower [] = []"
| "ToLower (c # cs) =
     (if HasPrefix (c # cs) (map byte [196, 176]) then CHR ''i'' # ToLower (drop 1 cs)
      else if HasPrefix (c # cs) (map byte [226, 132, 170]) then CHR ''k'' # ToLower (drop 2 cs)
      else to_lower c # ToLower cs)"

lemma Split_not_Nil [simp]: "Split c s \<noteq> []"
  by (induction s) (auto split: list.splits)

lemma Join_Split: "Join [c] (Split c s) = s"
proof (induction s)
  case (Cons x s)
  then show ?case by (cases "Split c s" rule: list.exhaust; cases "tl (Split c s)") auto
qed simp

lemma HasPrefix_append: "HasPrefix s p \<longleftrightarrow> (\<exists>r. s = p @ r)"
  by (metis HasPrefix_def append_eq_conv_conj)

lemma HasSuffix_append: "HasSuffix s p \<longleftrightarrow> (\<exists>r. s = r @ p)"
  unfolding HasSuffix_def by (metis add_diff_cancel_right' append_eq_conv_conj append_take_drop_id le_add2 length_append)

section \<open>Requests and responses\<close>

type_synonym header = "gostring \<rightharpoonup> gostring"

definition Get :: "header \<Rightarrow> gostring \<Rightarrow> gostring" where
  "Get h n = (case h n of Some v \<Rightarrow> v | None \<Rightarrow> [])"

text \<open>
  The body is \<open>None\<close> when the connection fails before its end; \<open>rq_MaxBytes\<close> is the limit set on it.
  \<open>rq_Tenant\<close> is the tenant of the request's context.
\<close>

record 't http_request =
  rq_Method :: gostring
  rq_Path :: gostring
  rq_Query :: gostring
  rq_Header :: header
  rq_RemoteAddr :: gostring
  rq_Body :: "bytes option"
  rq_MaxBytes :: "nat option"
  rq_Tenant :: "'t option"

record http_response =
  rs_Status :: int
  rs_Header :: header
  rs_Body :: bytes

definition ReadAll :: "'t http_request \<Rightarrow> bytes option" where
  "ReadAll r = (case rq_Body r of
     None \<Rightarrow> None
   | Some b \<Rightarrow> (case rq_MaxBytes r of None \<Rightarrow> Some b | Some n \<Rightarrow> if length b > n then None else Some b))"

type_synonym ('t, 's) handler = "'t http_request \<Rightarrow> header \<Rightarrow> 's \<Rightarrow> http_response \<times> 's"

text \<open>The error messages hold no character that JSON escapes.\<close>

definition jsonError :: "header \<Rightarrow> gostring \<Rightarrow> int \<Rightarrow> http_response" where
  \<open>jsonError h msg code =
     \<lparr>rs_Status = code, rs_Header = h(''Content-Type'' \<mapsto> ''application/json''),
      rs_Body = ''{"error":"'' @ msg @ ''"}'' @ [CHR 0x0A]\<rparr>\<close>

section \<open>Router\<close>

datatype segment = Lit gostring | Wild

record route =
  rt_Method :: gostring
  rt_Segments :: "segment list"
  rt_Pattern :: gostring

definition parse_segment :: "gostring \<Rightarrow> segment" where
  "parse_segment s = (if HasPrefix s ''{'' then Wild else Lit s)"

text \<open>A pattern is a method, a space and a path.\<close>

definition parse_pattern :: "gostring \<Rightarrow> route" where
  "parse_pattern p = (let parts = Split CHR '' '' p in
     \<lparr>rt_Method = parts ! 0, rt_Segments = map parse_segment (tl (Split CHR ''/'' (parts ! 1))), rt_Pattern = p\<rparr>)"

fun match_segments :: "gostring list \<Rightarrow> (segment list \<times> gostring) list \<Rightarrow> gostring option" where
  "match_segments [] rs = (case filter (\<lambda>(ps, n). ps = []) rs of [] \<Rightarrow> None | (_, n) # _ \<Rightarrow> Some n)"
| "match_segments (s # ss) rs =
     (case match_segments ss (List.map_filter (\<lambda>(ps, n). case ps of Lit l # ps' \<Rightarrow> if l = s then Some (ps', n) else None | _ \<Rightarrow> None) rs) of
        Some n \<Rightarrow> Some n
      | None \<Rightarrow>
          if s = [] then None
          else match_segments ss (List.map_filter (\<lambda>(ps, n). case ps of Wild # ps' \<Rightarrow> Some (ps', n) | _ \<Rightarrow> None) rs))"

definition match_method :: "route list \<Rightarrow> gostring \<Rightarrow> gostring list \<Rightarrow> gostring option" where
  "match_method rs meth segs = match_segments segs (map (\<lambda>r. (rt_Segments r, rt_Pattern r)) (filter (\<lambda>r. rt_Method r = meth) rs))"

text \<open>A pattern for GET serves HEAD too.\<close>

definition mux_match :: "route list \<Rightarrow> gostring \<Rightarrow> gostring \<Rightarrow> gostring option" where
  "mux_match rs meth path = (let segs = tl (Split CHR ''/'' path) in
     case match_method rs meth segs of
       Some n \<Rightarrow> Some n
     | None \<Rightarrow> if meth = ''HEAD'' then match_method rs ''GET'' segs else None)"

fun clean_segments :: "gostring list \<Rightarrow> gostring list \<Rightarrow> gostring list" where
  "clean_segments acc [] = rev acc"
| "clean_segments acc (s # ss) =
     (if s = [] \<or> s = ''.'' then clean_segments acc ss
      else if s = ''..'' then clean_segments (tl acc) ss
      else clean_segments (s # acc) ss)"

definition cleanPath :: "gostring \<Rightarrow> gostring" where
  "cleanPath p =
     (let np = ''/'' @ Join ''/'' (clean_segments [] (Split CHR ''/'' p))
      in if p \<noteq> [] \<and> last p = CHR ''/'' \<and> np \<noteq> ''/'' then np @ ''/'' else np)"

datatype routed = NotFound | MethodNotAllowed | Redirect gostring | Serve gostring

definition route_methods :: "route list \<Rightarrow> gostring list" where
  "route_methods rs = remdups (map rt_Method rs)"

definition mux_Handler :: "route list \<Rightarrow> gostring \<Rightarrow> gostring \<Rightarrow> routed \<times> gostring" where
  "mux_Handler rs meth path =
     (let p = cleanPath path in
      case mux_match rs meth p of
        Some n \<Rightarrow> (if p \<noteq> path then Redirect p else Serve n, n)
      | None \<Rightarrow>
          if p \<noteq> path then (Redirect p, [])
          else if list_ex (\<lambda>m. mux_match rs m p \<noteq> None) (route_methods rs) then (MethodNotAllowed, [])
          else (NotFound, []))"

text \<open>What the router itself answers is the argument \<open>own\<close>: redirects, 404 and 405.\<close>

definition mux_ServeHTTP ::
  "route list \<Rightarrow> (routed \<Rightarrow> 't http_request \<Rightarrow> header \<Rightarrow> http_response) \<Rightarrow> (gostring \<Rightarrow> ('t, 's) handler) \<Rightarrow> ('t, 's) handler" where
  "mux_ServeHTTP rs own handlers r h s =
     (case fst (mux_Handler rs (rq_Method r) (rq_Path r)) of
        Serve n \<Rightarrow> handlers n r h s
      | w \<Rightarrow> (own w r h, s))"

end
