(* ===== verification/Tenant_Store.thy ===== *)
theory Tenant_Store
  imports Go_Time
begin

text \<open>
  The tenant store, \<^verbatim>\<open>engine/internal/api/tenant/tenant.go\<close>: tenants and their API keys,
  rate windows, monthly quotas, key rotation and the audit ring. Every method holds the lock, so
  an operation is one step on the record \<open>Store\<close>; the clock is an argument, in nanoseconds since
  1970. The lemmas show that a key opens exactly one tenant, what rotation keeps and drops, how
  many requests the windows and the quota let through, and that the audit log is the end of the
  event history.
\<close>

section \<open>The store\<close>

record Tenant =
  tn_ID :: gostring
  tn_DisplayName :: gostring
  tn_Namespace :: gostring
  tn_CreatedAt :: int
  tn_KeyHashes :: "gostring list"
  tn_RatePerSecond :: int
  tn_RatePerMinute :: int
  tn_MonthlyProofQuota :: int

definition DefaultTenantID :: gostring where
  "DefaultTenantID = ''_default''"

record window =
  win_start :: int
  win_count :: int

record monthCtr =
  mc_year :: int
  mc_month :: int
  mc_count :: int

type_synonym AuditKind = gostring

definition AuditCreated :: AuditKind where "AuditCreated = ''tenant.created''"
definition AuditKeyAdded :: AuditKind where "AuditKeyAdded = ''tenant.key.added''"
definition AuditKeyRevoked :: AuditKind where "AuditKeyRevoked = ''tenant.key.revoked''"

record AuditEvent =
  ae_At :: int
  ae_TenantID :: gostring
  ae_Kind :: AuditKind
  ae_Detail :: gostring

record Store =
  st_tenants :: "gostring \<rightharpoonup> Tenant"
  st_byKey :: "gostring \<rightharpoonup> gostring"
  st_rateSec :: "gostring \<rightharpoonup> window"
  st_rateMin :: "gostring \<rightharpoonup> window"
  st_quotaMon :: "gostring \<rightharpoonup> monthCtr"
  st_audit :: "AuditEvent list"
  st_auditCap :: int

definition NewStore :: Store where
  "NewStore = \<lparr>st_tenants = Map.empty, st_byKey = Map.empty, st_rateSec = Map.empty, st_rateMin = Map.empty,
     st_quotaMon = Map.empty, st_audit = [], st_auditCap = 4096\<rparr>"

definition HashKey :: "gostring \<Rightarrow> gostring" where
  "HashKey raw = hex_encode (sha256 raw)"

definition stamp :: "int \<Rightarrow> AuditEvent \<Rightarrow> AuditEvent" where
  "stamp now ev = (if ae_At ev = zero_time then ev\<lparr>ae_At := now\<rparr> else ev)"

definition appendAuditLocked :: "int \<Rightarrow> AuditEvent \<Rightarrow> Store \<Rightarrow> Store" where
  "appendAuditLocked now ev s =
     (let audit = st_audit s @ [stamp now ev] in
      s\<lparr>st_audit := (if int (length audit) > st_auditCap s then drop (nat (int (length audit) - st_auditCap s)) audit
                   else audit)\<rparr>)"

definition Log :: "int \<Rightarrow> AuditEvent \<Rightarrow> Store \<Rightarrow> Store" where
  "Log now ev s = appendAuditLocked now (stamp now ev) s"

definition Audit :: "Store \<Rightarrow> gostring \<Rightarrow> AuditEvent list" where
  "Audit s tenantID = filter (\<lambda>e. tenantID = '''' \<or> ae_TenantID e = tenantID) (st_audit s)"

datatype tenant_error =
    IdRequired
  | NotBareIdentifier
  | NoKeyHash
  | TenantExists gostring
  | KeyTaken gostring
  | EmptyKey
  | TenantNotFound gostring
  | KeyRegistered
  | ReadFailed
  | ParseFailed
  | IdAndKeyRequired gostring
  | AddFailed gostring tenant_error

fun claim_keys :: "gostring \<Rightarrow> gostring list \<Rightarrow> (gostring \<rightharpoonup> gostring) \<Rightarrow> (gostring \<rightharpoonup> gostring)" where
  "claim_keys i [] m = m"
| "claim_keys i (h # hs) m = claim_keys i hs (m(h \<mapsto> i))"

fun release_keys :: "gostring list \<Rightarrow> (gostring \<rightharpoonup> gostring) \<Rightarrow> (gostring \<rightharpoonup> gostring)" where
  "release_keys [] m = m"
| "release_keys (h # hs) m = release_keys hs (m(h := None))"

definition ContainsAny :: "gostring \<Rightarrow> gostring \<Rightarrow> bool" where
  "ContainsAny s cs \<longleftrightarrow> list_ex (\<lambda>c. c \<in> set cs) s"

definition Add :: "int \<Rightarrow> Store \<Rightarrow> Tenant option \<Rightarrow> tenant_error + Store" where
  "Add now s t0 =
     (case t0 of
        None \<Rightarrow> Inl IdRequired
      | Some t \<Rightarrow>
          if tn_ID t = '''' then Inl IdRequired
          else if ContainsAny (tn_ID t) (map byte [32, 9, 10, 47, 92]) then Inl NotBareIdentifier
          else if length (tn_KeyHashes t) = 0 then Inl NoKeyHash
          else if st_tenants s (tn_ID t) \<noteq> None then Inl (TenantExists (tn_ID t))
          else case find (\<lambda>h. st_byKey s h \<noteq> None) (tn_KeyHashes t) of
              Some h \<Rightarrow> Inl (KeyTaken (the (st_byKey s h)))
            | None \<Rightarrow>
                let t = (if tn_Namespace t = '''' then t\<lparr>tn_Namespace := ''ns_'' @ tn_ID t\<rparr> else t);
                    s = s\<lparr>st_tenants := (st_tenants s)(tn_ID t \<mapsto> t),
                          st_byKey := claim_keys (tn_ID t) (tn_KeyHashes t) (st_byKey s)\<rparr>
                in Inr (appendAuditLocked now \<lparr>ae_At = now, ae_TenantID = tn_ID t, ae_Kind = AuditCreated,
                     ae_Detail = ''namespace='' @ tn_Namespace t @ '' keys='' @ show_int (int (length (tn_KeyHashes t)))\<rparr> s))"

text \<open>What reading the tenants file yields: a tenant entry comes with its raw keys.\<close>

datatype tenants_file = NoPath | FileMissing | FileUnreadable | FileEmpty | FileMalformed | FileTenants "(Tenant \<times> gostring list) list"

fun load_loop :: "int \<Rightarrow> Store \<Rightarrow> (Tenant \<times> gostring list) list \<Rightarrow> tenant_error option \<times> Store" where
  "load_loop now s [] = (None, s)"
| "load_loop now s ((t, keys) # ts) =
     (if tn_ID t = '''' \<or> length keys = 0 then (Some (IdAndKeyRequired (tn_ID t)), s)
      else let src = t\<lparr>tn_KeyHashes := map HashKey keys,
                       tn_Namespace := (if tn_Namespace t = '''' then ''ns_'' @ tn_ID t else tn_Namespace t),
                       tn_CreatedAt := (if tn_CreatedAt t = zero_time then now else tn_CreatedAt t)\<rparr>
           in case Add now s (Some src) of
                Inl e \<Rightarrow> (Some (AddFailed (tn_ID t) e), s)
              | Inr s' \<Rightarrow> load_loop now s' ts)"

fun LoadFile :: "int \<Rightarrow> Store \<Rightarrow> tenants_file \<Rightarrow> tenant_error option \<times> Store" where
  "LoadFile now s NoPath = (None, s)"
| "LoadFile now s FileMissing = (None, s)"
| "LoadFile now s FileUnreadable = (Some ReadFailed, s)"
| "LoadFile now s FileEmpty = (None, s)"
| "LoadFile now s FileMalformed = (Some ParseFailed, s)"
| "LoadFile now s (FileTenants ts) = load_loop now s ts"

text \<open>The argument \<open>ks\<close> lists the keys of the map of tenants; \<^verbatim>\<open>len(s.tenants)\<close> is its length.\<close>

definition zero_tenant :: Tenant where
  "zero_tenant = \<lparr>tn_ID = '''', tn_DisplayName = '''', tn_Namespace = '''', tn_CreatedAt = zero_time, tn_KeyHashes = [],
     tn_RatePerSecond = 0, tn_RatePerMinute = 0, tn_MonthlyProofQuota = 0\<rparr>"

definition Resolve :: "gostring list \<Rightarrow> Store \<Rightarrow> gostring \<Rightarrow> Tenant option" where
  "Resolve ks s rawKey =
     (if length ks = 0 then Some (zero_tenant\<lparr>tn_ID := DefaultTenantID, tn_Namespace := ''ns_'' @ DefaultTenantID\<rparr>)
      else if rawKey = '''' then None
      else case st_byKey s (HashKey rawKey) of None \<Rightarrow> None | Some i \<Rightarrow> st_tenants s i)"

definition List_tenants :: "gostring list \<Rightarrow> Store \<Rightarrow> Tenant list" where
  "List_tenants ks s = sort_key tn_ID (map (\<lambda>t. t\<lparr>tn_KeyHashes := []\<rparr>) (range_values ks (st_tenants s)))"

definition Namespace :: "Store \<Rightarrow> gostring \<Rightarrow> gostring" where
  "Namespace s i = (case st_tenants s i of Some t \<Rightarrow> tn_Namespace t | None \<Rightarrow> ''ns_'' @ DefaultTenantID)"

section \<open>Rates and quotas\<close>

record RateDecision =
  Allowed :: bool
  Reason :: gostring

text \<open>
  One window of \<open>CheckRate\<close>: the new window, and whether the request stays within the ceiling.
\<close>

definition book :: "int \<Rightarrow> int \<Rightarrow> int \<Rightarrow> window option \<Rightarrow> window \<times> bool" where
  "book width limit now w =
     (case w of
        None \<Rightarrow> (\<lparr>win_start = now, win_count = 1\<rparr>, True)
      | Some w \<Rightarrow>
          if now - win_start w \<ge> width then (\<lparr>win_start = now, win_count = 1\<rparr>, True)
          else let w = w\<lparr>win_count := win_count w + 1\<rparr> in (w, \<not> win_count w > limit))"

definition allowed :: RateDecision where
  "allowed = \<lparr>Allowed = True, Reason = ''''\<rparr>"

definition minute_check :: "int \<Rightarrow> Tenant \<Rightarrow> Store \<Rightarrow> gostring \<Rightarrow> RateDecision \<times> Store" where
  "minute_check now t s tenantID =
     (if tn_RatePerMinute t > 0 then
        let (w, ok) = book (60 * 10 ^ 9) (tn_RatePerMinute t) now (st_rateMin s tenantID);
            s = s\<lparr>st_rateMin := (st_rateMin s)(tenantID \<mapsto> w)\<rparr>
        in if ok then (allowed, s) else (\<lparr>Allowed = False, Reason = ''rate limit per minute exceeded''\<rparr>, s)
      else (allowed, s))"

definition CheckRate :: "int \<Rightarrow> Store \<Rightarrow> gostring \<Rightarrow> RateDecision \<times> Store" where
  "CheckRate now s tenantID =
     (case st_tenants s tenantID of
        None \<Rightarrow> (allowed, s)
      | Some t \<Rightarrow>
          if tn_RatePerSecond t > 0 then
            let (w, ok) = book (10 ^ 9) (tn_RatePerSecond t) now (st_rateSec s tenantID);
                s = s\<lparr>st_rateSec := (st_rateSec s)(tenantID \<mapsto> w)\<rparr>
            in if ok then minute_check now t s tenantID
               else (\<lparr>Allowed = False, Reason = ''rate limit per second exceeded''\<rparr>, s)
          else minute_check now t s tenantID)"

definition CheckAndConsumeMonthlyQuota :: "int \<Rightarrow> Store \<Rightarrow> gostring \<Rightarrow> RateDecision \<times> Store" where
  "CheckAndConsumeMonthlyQuota now s tenantID =
     (case st_tenants s tenantID of
        None \<Rightarrow> (allowed, s)
      | Some t \<Rightarrow>
          if tn_MonthlyProofQuota t \<le> 0 then (allowed, s)
          else let (y, m) = year_month now;
                   c = (case st_quotaMon s tenantID of
                          Some c \<Rightarrow> if mc_year c \<noteq> y \<or> mc_month c \<noteq> m then \<lparr>mc_year = y, mc_month = m, mc_count = 0\<rparr> else c
                        | None \<Rightarrow> \<lparr>mc_year = y, mc_month = m, mc_count = 0\<rparr>);
                   n = mc_count c + 1
               in if n > tn_MonthlyProofQuota t
                  then (\<lparr>Allowed = False, Reason = ''monthly proof quota exceeded''\<rparr>,
                        s\<lparr>st_quotaMon := (st_quotaMon s)(tenantID \<mapsto> c\<lparr>mc_count := n - 1\<rparr>)\<rparr>)
                  else (allowed, s\<lparr>st_quotaMon := (st_quotaMon s)(tenantID \<mapsto> c\<lparr>mc_count := n\<rparr>)\<rparr>))"

section \<open>Rotation\<close>

definition RotateAddKey :: "int \<Rightarrow> Store \<Rightarrow> gostring \<Rightarrow> gostring \<Rightarrow> tenant_error + Store" where
  "RotateAddKey now s tenantID newRawKey =
     (if newRawKey = '''' then Inl EmptyKey
      else let h = HashKey newRawKey in
        case st_tenants s tenantID of
          None \<Rightarrow> Inl (TenantNotFound tenantID)
        | Some t \<Rightarrow>
            if st_byKey s h \<noteq> None then Inl KeyRegistered
            else let t = t\<lparr>tn_KeyHashes := tn_KeyHashes t @ [h]\<rparr>;
                     s = s\<lparr>st_tenants := (st_tenants s)(tenantID \<mapsto> t), st_byKey := (st_byKey s)(h \<mapsto> tenantID)\<rparr>
                 in Inr (appendAuditLocked now \<lparr>ae_At = now, ae_TenantID = tenantID, ae_Kind = AuditKeyAdded,
                      ae_Detail = ''keys_active='' @ show_int (int (length (tn_KeyHashes t)))\<rparr> s))"

definition RotateRevokeOldKeys :: "int \<Rightarrow> Store \<Rightarrow> gostring \<Rightarrow> int \<Rightarrow> tenant_error + Store" where
  "RotateRevokeOldKeys now s tenantID keepLast0 =
     (let keepLast = (if keepLast0 < 1 then 1 else keepLast0) in
      case st_tenants s tenantID of
        None \<Rightarrow> Inl (TenantNotFound tenantID)
      | Some t \<Rightarrow>
          if int (length (tn_KeyHashes t)) \<le> keepLast then Inr s
          else let n = nat (int (length (tn_KeyHashes t)) - keepLast);
                   dropped = take n (tn_KeyHashes t);
                   keep = drop n (tn_KeyHashes t);
                   s = s\<lparr>st_byKey := release_keys dropped (st_byKey s),
                         st_tenants := (st_tenants s)(tenantID \<mapsto> t\<lparr>tn_KeyHashes := keep\<rparr>)\<rparr>
               in Inr (appendAuditLocked now \<lparr>ae_At = now, ae_TenantID = tenantID, ae_Kind = AuditKeyRevoked,
                    ae_Detail = ''dropped='' @ show_int (int (length dropped)) @ '' kept='' @ show_int (int (length keep))\<rparr> s))"


section \<open>Keys and tenants\<close>

lemma claim_keys_lookup: "claim_keys i hs m h = (if h \<in> set hs then Some i else m h)"
  by (induction hs arbitrary: m) auto

lemma release_keys_lookup: "release_keys hs m h = (if h \<in> set hs then None else m h)"
  by (induction hs arbitrary: m) auto

lemma appendAudit_fields [simp]:
  "st_tenants (appendAuditLocked now ev s) = st_tenants s" "st_byKey (appendAuditLocked now ev s) = st_byKey s"
  "st_rateSec (appendAuditLocked now ev s) = st_rateSec s" "st_rateMin (appendAuditLocked now ev s) = st_rateMin s"
  "st_quotaMon (appendAuditLocked now ev s) = st_quotaMon s" "st_auditCap (appendAuditLocked now ev s) = st_auditCap s"
  by (simp_all add: appendAuditLocked_def Let_def)

text \<open>
  The store's invariant: a tenant is stored under its id and has keys, without repetition, and
  the key index is exactly the relation between key hashes and the tenants that hold them.
\<close>

definition store_inv :: "Store \<Rightarrow> bool" where
  "store_inv s \<longleftrightarrow>
     (\<forall>i t. st_tenants s i = Some t \<longrightarrow> tn_ID t = i \<and> tn_KeyHashes t \<noteq> [] \<and> distinct (tn_KeyHashes t)) \<and>
     (\<forall>h i. st_byKey s h = Some i \<longleftrightarrow> (\<exists>t. st_tenants s i = Some t \<and> h \<in> set (tn_KeyHashes t)))"

lemma store_invD:
  assumes "store_inv s" "st_tenants s i = Some t"
  shows "tn_ID t = i" "tn_KeyHashes t \<noteq> []" "distinct (tn_KeyHashes t)" "h \<in> set (tn_KeyHashes t) \<Longrightarrow> st_byKey s h = Some i"
  using assms unfolding store_inv_def by blast+

lemma store_inv_byKey:
  "store_inv s \<Longrightarrow> st_byKey s h = Some i \<Longrightarrow> \<exists>t. st_tenants s i = Some t \<and> h \<in> set (tn_KeyHashes t)"
  unfolding store_inv_def by blast

lemma store_inv_same:
  "store_inv s \<Longrightarrow> st_tenants s' = st_tenants s \<Longrightarrow> st_byKey s' = st_byKey s \<Longrightarrow> store_inv s'"
  by (simp add: store_inv_def)

text \<open>An update of one tenant with the matching update of the index keeps the invariant.\<close>

lemma store_inv_update:
  assumes inv: "store_inv s"
    and new: "tn_ID t' = i" "tn_KeyHashes t' \<noteq> []" "distinct (tn_KeyHashes t')"
    and s': "st_tenants s' = (st_tenants s)(i \<mapsto> t')"
    and idx: "\<And>h. st_byKey s' h = (if h \<in> set (tn_KeyHashes t') then Some i else if st_byKey s h = Some i then None else st_byKey s h)"
    and free: "\<And>h. h \<in> set (tn_KeyHashes t') \<Longrightarrow> st_byKey s h = None \<or> st_byKey s h = Some i"
  shows "store_inv s'"
  unfolding store_inv_def
proof (intro conjI allI impI)
  fix j t assume "st_tenants s' j = Some t"
  then show "tn_ID t = j" "tn_KeyHashes t \<noteq> []" "distinct (tn_KeyHashes t)"
    using new store_invD [OF inv, of j t] by (auto simp: s' split: if_splits)
next
  fix h j
  show "st_byKey s' h = Some j \<longleftrightarrow> (\<exists>t. st_tenants s' j = Some t \<and> h \<in> set (tn_KeyHashes t))"
  proof (cases "j = i")
    case True
    then show ?thesis by (auto simp: idx s')
  next
    case False
    have "st_byKey s h = Some j \<longleftrightarrow> (\<exists>t. st_tenants s j = Some t \<and> h \<in> set (tn_KeyHashes t))"
      using inv by (simp add: store_inv_def)
    with False free [of h] show ?thesis by (auto simp: idx s')
  qed
qed

lemma Add_InrE:
  assumes "Add now s t0 = Inr s'"
  obtains t where "t0 = Some t" "tn_KeyHashes t \<noteq> []" "st_tenants s (tn_ID t) = None" "\<forall>h \<in> set (tn_KeyHashes t). st_byKey s h = None"
    "\<exists>ns. st_tenants s' = (st_tenants s)(tn_ID t \<mapsto> t\<lparr>tn_Namespace := ns\<rparr>)"
    "st_byKey s' = claim_keys (tn_ID t) (tn_KeyHashes t) (st_byKey s)"
proof -
  from assms obtain t where t: "t0 = Some t" by (auto simp: Add_def split: option.splits)
  have ns: "t\<lparr>tn_Namespace := tn_Namespace t\<rparr> = t" by simp
  from assms t have *: "tn_KeyHashes t \<noteq> []" "st_tenants s (tn_ID t) = None" "find (\<lambda>h. st_byKey s h \<noteq> None) (tn_KeyHashes t) = None"
    by (auto simp: Add_def split: if_splits option.splits)
  have "st_byKey s' = claim_keys (tn_ID t) (tn_KeyHashes t) (st_byKey s)"
    "\<exists>ns. st_tenants s' = (st_tenants s)(tn_ID t \<mapsto> t\<lparr>tn_Namespace := ns\<rparr>)"
    using assms t *(3) by (auto simp: Add_def Let_def split: if_splits intro!: exI [of _ "if tn_Namespace t = [] then ''ns_'' @ tn_ID t else tn_Namespace t"])
  with t * show ?thesis by (intro that [of t]) (auto simp: find_None_iff)
qed

lemma store_inv_Add:
  assumes "store_inv s" "Add now s t0 = Inr s'" "\<And>t. t0 = Some t \<Longrightarrow> distinct (tn_KeyHashes t)"
  shows "store_inv s'"
  using assms(2)
proof (cases rule: Add_InrE)
  case (1 t)
  then obtain ns where ns: "st_tenants s' = (st_tenants s)(tn_ID t \<mapsto> t\<lparr>tn_Namespace := ns\<rparr>)" by blast
  have none: "st_byKey s h \<noteq> Some (tn_ID t)" for h
    using store_inv_byKey [OF assms(1), of h "tn_ID t"] 1(3) by auto
  show ?thesis
    by (rule store_inv_update [OF assms(1) _ _ _ ns]) (use 1 none assms(3) in \<open>auto simp: claim_keys_lookup\<close>)
qed


lemma RotateAddKey_InrE:
  assumes "RotateAddKey now s i k = Inr s'"
  obtains t where "st_tenants s i = Some t" "st_byKey s (HashKey k) = None" "k \<noteq> []"
    "st_tenants s' = (st_tenants s)(i \<mapsto> t\<lparr>tn_KeyHashes := tn_KeyHashes t @ [HashKey k]\<rparr>)"
    "st_byKey s' = (st_byKey s)(HashKey k \<mapsto> i)"
  using assms by (auto simp: RotateAddKey_def Let_def split: if_splits option.splits)

lemma store_inv_RotateAddKey:
  assumes "store_inv s" "RotateAddKey now s i k = Inr s'"
  shows "store_inv s'"
  using assms(2)
proof (cases rule: RotateAddKey_InrE)
  case (1 t)
  note D = store_invD [OF assms(1) 1(1)]
  have fresh: "HashKey k \<notin> set (tn_KeyHashes t)" using D(4) 1(2) by auto
  have own: "st_byKey s h = Some i \<longleftrightarrow> h \<in> set (tn_KeyHashes t)" for h
    using store_inv_byKey [OF assms(1)] D(4) 1(1) by fastforce
  show ?thesis
    by (rule store_inv_update [OF assms(1) _ _ _ 1(4)]) (use 1 D fresh own in auto)
qed

lemma RotateRevokeOldKeys_InrE:
  assumes "RotateRevokeOldKeys now s i k = Inr s'"
  obtains t n where "st_tenants s i = Some t" "n = length (tn_KeyHashes t) - nat (max 1 k)"
    "st_tenants s' = (st_tenants s)(i \<mapsto> t\<lparr>tn_KeyHashes := drop n (tn_KeyHashes t)\<rparr>)"
    "st_byKey s' = release_keys (take n (tn_KeyHashes t)) (st_byKey s)"
proof -
  from assms obtain t where t: "st_tenants s i = Some t"
    by (auto simp: RotateRevokeOldKeys_def Let_def split: option.splits)
  show ?thesis
  proof (cases "int (length (tn_KeyHashes t)) \<le> (if k < 1 then 1 else k)")
    case True
    with assms t have "s' = s" by (auto simp: RotateRevokeOldKeys_def Let_def split: if_splits)
    moreover have "length (tn_KeyHashes t) - nat (max 1 k) = 0" using True by (auto split: if_splits)
    moreover have "t\<lparr>tn_KeyHashes := tn_KeyHashes t\<rparr> = t" by simp
    ultimately show ?thesis using t by (intro that [of t 0]) (auto simp: fun_upd_idem)
  next
    case False
    moreover have "nat (int (length (tn_KeyHashes t)) - (if k < 1 then 1 else k)) = length (tn_KeyHashes t) - nat (max 1 k)"
      by (auto simp: nat_diff_distrib' max_def)
    ultimately show ?thesis
      using assms t by (intro that [of t "length (tn_KeyHashes t) - nat (max 1 k)"]) (auto simp: RotateRevokeOldKeys_def Let_def)
  qed
qed

lemma store_inv_RotateRevokeOldKeys:
  assumes "store_inv s" "RotateRevokeOldKeys now s i k = Inr s'"
  shows "store_inv s'"
  using assms(2)
proof (cases rule: RotateRevokeOldKeys_InrE)
  case (1 t n)
  note D = store_invD [OF assms(1) 1(1)]
  have "0 < length (tn_KeyHashes t)" using D(2) by simp
  then have n: "n < length (tn_KeyHashes t)" using 1(2) by (simp add: nat_mono)
  have split: "set (tn_KeyHashes t) = set (take n (tn_KeyHashes t)) \<union> set (drop n (tn_KeyHashes t))"
    by (metis append_take_drop_id set_append)
  have disj: "set (take n (tn_KeyHashes t)) \<inter> set (drop n (tn_KeyHashes t)) = {}"
    using D(3) by (rule set_take_disj_set_drop_if_distinct) simp
  have own: "st_byKey s h = Some i \<longleftrightarrow> h \<in> set (tn_KeyHashes t)" for h
    using store_inv_byKey [OF assms(1)] D(4) 1(1) by fastforce
  have idx: "st_byKey s' h = (if h \<in> set (drop n (tn_KeyHashes t)) then Some i
      else if st_byKey s h = Some i then None else st_byKey s h)" for h
    using own [of h] split disj by (auto simp: 1(4) release_keys_lookup)
  show ?thesis
    by (rule store_inv_update [OF assms(1) _ _ _ 1(3)]) (use D n own idx split in auto)
qed

lemma CheckRate_fields:
  "st_tenants (snd (CheckRate now s i)) = st_tenants s" "st_byKey (snd (CheckRate now s i)) = st_byKey s"
  "st_audit (snd (CheckRate now s i)) = st_audit s" "st_auditCap (snd (CheckRate now s i)) = st_auditCap s"
  "st_quotaMon (snd (CheckRate now s i)) = st_quotaMon s"
  by (auto simp: CheckRate_def minute_check_def Let_def split: option.splits prod.splits)

lemma Quota_fields:
  "st_tenants (snd (CheckAndConsumeMonthlyQuota now s i)) = st_tenants s"
  "st_byKey (snd (CheckAndConsumeMonthlyQuota now s i)) = st_byKey s"
  "st_audit (snd (CheckAndConsumeMonthlyQuota now s i)) = st_audit s"
  "st_auditCap (snd (CheckAndConsumeMonthlyQuota now s i)) = st_auditCap s"
  by (auto simp: CheckAndConsumeMonthlyQuota_def Let_def split: option.splits prod.splits)

text \<open>
  The steps of the store. A tenant is added with pairwise different keys; see
  \<open>repeated_key_locks_out\<close> below for the other case.
\<close>

inductive tenant_step :: "Store \<Rightarrow> Store \<Rightarrow> bool" where
  add: "Add now s (Some t) = Inr s' \<Longrightarrow> distinct (tn_KeyHashes t) \<Longrightarrow> tenant_step s s'"
| rotate: "RotateAddKey now s i k = Inr s' \<Longrightarrow> tenant_step s s'"
| revoke: "RotateRevokeOldKeys now s i n = Inr s' \<Longrightarrow> tenant_step s s'"
| rate: "tenant_step s (snd (CheckRate now s i))"
| quota: "tenant_step s (snd (CheckAndConsumeMonthlyQuota now s i))"
| log: "tenant_step s (Log now ev s)"

abbreviation tenant_reach :: "Store \<Rightarrow> bool" where
  "tenant_reach s \<equiv> tenant_step\<^sup>*\<^sup>* NewStore s"

lemma tenant_step_inv: "tenant_step s s' \<Longrightarrow> store_inv s \<Longrightarrow> store_inv s'"
proof (induction rule: tenant_step.induct)
  case (add now s t s')
  then show ?case using store_inv_Add [of s now "Some t" s'] by simp
next
  case (rate s now i)
  then show ?case using store_inv_same CheckRate_fields(1,2) by blast
next
  case (quota s now i)
  then show ?case using store_inv_same Quota_fields(1,2) by blast
next
  case (log s now ev)
  then show ?case by (rule store_inv_same) (simp_all add: Log_def)
qed (auto intro: store_inv_RotateAddKey store_inv_RotateRevokeOldKeys)

lemma tenant_reach_inv: "tenant_reach s \<Longrightarrow> store_inv s"
proof (induction rule: rtranclp_induct)
  case base
  then show ?case by (simp add: store_inv_def NewStore_def)
qed (rule tenant_step_inv)


section \<open>A key opens one tenant\<close>

text \<open>
  Tenants are isolated by their keys. In every reachable store with at least one tenant,
  a key resolves to a tenant exactly when it is not empty and its hash is one of that tenant's
  active hashes, and no two tenants share a key hash.
\<close>

theorem key_opens_one_tenant:
  assumes "tenant_reach s" "ranges ks (st_tenants s)" "ks \<noteq> []"
  shows "(Resolve ks s k = Some t \<longleftrightarrow> k \<noteq> [] \<and> st_tenants s (tn_ID t) = Some t \<and> HashKey k \<in> set (tn_KeyHashes t)) \<and>
    (st_tenants s i = Some u \<longrightarrow> st_tenants s j = Some v \<longrightarrow> i \<noteq> j \<longrightarrow> set (tn_KeyHashes u) \<inter> set (tn_KeyHashes v) = {})"
proof -
  note inv = tenant_reach_inv [OF assms(1)]
  have "Resolve ks s k = Some t \<longleftrightarrow> k \<noteq> [] \<and> (\<exists>i. st_byKey s (HashKey k) = Some i \<and> st_tenants s i = Some t)"
    using assms(3) by (auto simp: Resolve_def split: option.splits)
  also have "\<dots> \<longleftrightarrow> k \<noteq> [] \<and> st_tenants s (tn_ID t) = Some t \<and> HashKey k \<in> set (tn_KeyHashes t)"
  proof (intro conj_cong refl iffI)
    assume "\<exists>i. st_byKey s (HashKey k) = Some i \<and> st_tenants s i = Some t"
    then obtain i where i: "st_byKey s (HashKey k) = Some i" "st_tenants s i = Some t" by blast
    with store_inv_byKey [OF inv i(1)] store_invD(1) [OF inv i(2)]
    show "st_tenants s (tn_ID t) = Some t \<and> HashKey k \<in> set (tn_KeyHashes t)" by auto
  next
    assume "st_tenants s (tn_ID t) = Some t \<and> HashKey k \<in> set (tn_KeyHashes t)"
    with store_invD(4) [OF inv] show "\<exists>i. st_byKey s (HashKey k) = Some i \<and> st_tenants s i = Some t" by blast
  qed
  finally have "Resolve ks s k = Some t \<longleftrightarrow> k \<noteq> [] \<and> st_tenants s (tn_ID t) = Some t \<and> HashKey k \<in> set (tn_KeyHashes t)" .
  moreover have "set (tn_KeyHashes u) \<inter> set (tn_KeyHashes v) = {}"
    if "st_tenants s i = Some u" "st_tenants s j = Some v" "i \<noteq> j"
    using store_invD(4) [OF inv that(1)] store_invD(4) [OF inv that(2)] that(3) by fastforce
  ultimately show ?thesis by blast
qed

definition sample_tenant :: "gostring \<Rightarrow> gostring list \<Rightarrow> Tenant" where
  "sample_tenant i hs = zero_tenant\<lparr>tn_ID := i, tn_Namespace := ''n'', tn_KeyHashes := hs, tn_RatePerSecond := 2, tn_MonthlyProofQuota := 3\<rparr>"

lemma sample_Add:
  assumes "i \<in> {''a'', ''b''}" "hs \<noteq> []" "st_tenants s i = None" "\<forall>h \<in> set hs. st_byKey s h = None"
  shows "\<exists>s'. Add now s (Some (sample_tenant i hs)) = Inr s' \<and> st_tenants s' = (st_tenants s)(i \<mapsto> sample_tenant i hs) \<and>
    st_byKey s' = claim_keys i hs (st_byKey s) \<and> st_quotaMon s' = st_quotaMon s"
proof -
  have "\<not> ContainsAny ''a'' (map byte [32, 9, 10, 47, 92])" "\<not> ContainsAny ''b'' (map byte [32, 9, 10, 47, 92])"
    by code_simp+
  then have "\<not> ContainsAny i (map byte [32, 9, 10, 47, 92])" using assms(1) by blast
  moreover have "find (\<lambda>h. st_byKey s h \<noteq> None) hs = None" using assms(4) by (auto simp: find_None_iff)
  ultimately show ?thesis using assms(1-3) by (auto simp: Add_def sample_tenant_def zero_tenant_def Let_def)
qed

lemma sample_store:
  obtains s where "tenant_reach s" "st_tenants s = [''a'' \<mapsto> sample_tenant ''a'' [h]]" "st_byKey s = [h \<mapsto> ''a'']"
    "st_quotaMon s = Map.empty"
proof -
  obtain s where s: "Add 0 NewStore (Some (sample_tenant ''a'' [h])) = Inr s"
    "st_tenants s = [''a'' \<mapsto> sample_tenant ''a'' [h]]" "st_byKey s = [h \<mapsto> ''a'']" "st_quotaMon s = Map.empty"
    using sample_Add [of "''a''" "[h]" NewStore 0] by (auto simp: NewStore_def)
  have "tenant_step NewStore s" by (rule tenant_step.add [OF s(1)]) (simp add: sample_tenant_def)
  with s show ?thesis by (intro that) auto
qed

theorem key_opens_one_tenant_witness:
  "\<exists>s. tenant_reach s \<and> Resolve [''a''] s ''k'' = Some (sample_tenant ''a'' [HashKey ''k''])"
proof -
  obtain s where s: "tenant_reach s" "st_tenants s = [''a'' \<mapsto> sample_tenant ''a'' [HashKey ''k'']]" by (rule sample_store)
  have "ranges [''a''] (st_tenants s)" by (simp add: ranges_def s(2))
  from key_opens_one_tenant [OF s(1) this, of "''k''" "sample_tenant ''a'' [HashKey ''k'']"] s show ?thesis
    by (auto simp: sample_tenant_def)
qed

text \<open>
  Key rotation in two phases. After \<open>RotateAddKey\<close> the new key opens the tenant and every
  key opens what it opened before; after a following \<open>RotateRevokeOldKeys\<close> that keeps one key,
  the new key is the only one that opens the tenant, and the keys of all other tenants still
  open theirs.
\<close>

theorem rotation_two_phases:
  assumes "tenant_reach s" "ks \<noteq> []" "RotateAddKey now s i k = Inr s'" "RotateRevokeOldKeys now' s' i 1 = Inr s''"
  shows "map_option tn_ID (Resolve ks s' k') =
      (if k' \<noteq> [] \<and> HashKey k' = HashKey k then Some i else map_option tn_ID (Resolve ks s k')) \<and>
    map_option tn_ID (Resolve ks s'' k') =
      (if k' \<noteq> [] \<and> HashKey k' = HashKey k then Some i
       else if map_option tn_ID (Resolve ks s k') = Some i then None else map_option tn_ID (Resolve ks s k'))"
proof -
  note inv = tenant_reach_inv [OF assms(1)]
  note inv' = store_inv_RotateAddKey [OF inv assms(3)]
  note inv'' = store_inv_RotateRevokeOldKeys [OF inv' assms(4)]
  have res: "map_option tn_ID (Resolve ks r k') = (if k' = [] then None else st_byKey r (HashKey k'))" if "store_inv r" for r
    using assms(2) store_inv_byKey [OF that, of "HashKey k'"] store_invD(1) [OF that]
    by (fastforce simp: Resolve_def split: option.splits)
  obtain t where t: "st_tenants s i = Some t" "st_byKey s (HashKey k) = None"
    "st_tenants s' = (st_tenants s)(i \<mapsto> t\<lparr>tn_KeyHashes := tn_KeyHashes t @ [HashKey k]\<rparr>)" "st_byKey s' = (st_byKey s)(HashKey k \<mapsto> i)"
    using assms(3) by (rule RotateAddKey_InrE)
  obtain u n where u: "st_tenants s' i = Some u" "n = length (tn_KeyHashes u) - nat (max 1 1)"
    "st_byKey s'' = release_keys (take n (tn_KeyHashes u)) (st_byKey s')"
    using assms(4) by (rule RotateRevokeOldKeys_InrE)
  have "take n (tn_KeyHashes u) = tn_KeyHashes t" using t(3) u(1,2) by auto
  moreover have "HashKey k \<notin> set (tn_KeyHashes t)" using store_invD(4) [OF inv t(1)] t(2) by auto
  moreover have "st_byKey s h = Some i \<longleftrightarrow> h \<in> set (tn_KeyHashes t)" for h
    using store_inv_byKey [OF inv] store_invD(4) [OF inv t(1)] t(1) by fastforce
  ultimately show ?thesis
    unfolding res [OF inv] res [OF inv'] res [OF inv''] by (simp add: t(4) u(3) release_keys_lookup)
qed

theorem rotation_two_phases_witness:
  "\<exists>s s' s''. tenant_reach s \<and> RotateAddKey 0 s ''a'' ''new'' = Inr s' \<and> RotateRevokeOldKeys 0 s' ''a'' 1 = Inr s'' \<and>
     map_option tn_ID (Resolve [''a''] s'' ''new'') = Some ''a''"
proof -
  obtain s where s: "tenant_reach s" "st_tenants s = [''a'' \<mapsto> sample_tenant ''a'' [''h'']]" "st_byKey s = [''h'' \<mapsto> ''a'']"
    by (rule sample_store)
  have "length (HashKey ''new'') = 64" by (simp add: HashKey_def)
  then have "HashKey ''new'' \<noteq> ''h''" by auto
  with s obtain s' where s': "RotateAddKey 0 s ''a'' ''new'' = Inr s'" "st_tenants s' ''a'' \<noteq> None"
    by (auto simp: RotateAddKey_def Let_def)
  have "\<exists>s''. RotateRevokeOldKeys 0 s' ''a'' 1 = Inr s''"
    using s'(2) by (auto simp: RotateRevokeOldKeys_def Let_def)
  then obtain s'' where s'': "RotateRevokeOldKeys 0 s' ''a'' 1 = Inr s''" ..
  from rotation_two_phases [OF s(1) _ s'(1) s'', of "[''a'']" "''new''"] s(1) s'(1) s'' show ?thesis by auto
qed


text \<open>
  A tenant whose key list repeats a key (the tenants file may do that) is locked out when old
  keys are revoked: the dropped copy is taken out of the index, the kept copy is not put back.
\<close>

lemma repeated_key_locks_out:
  "\<exists>s s'. Add 0 NewStore (Some (sample_tenant ''a'' [HashKey k, HashKey k])) = Inr s \<and>
     RotateRevokeOldKeys 0 s ''a'' 1 = Inr s' \<and> map_option tn_KeyHashes (st_tenants s' ''a'') = Some [HashKey k] \<and>
     Resolve [''a''] s' k = None"
proof -
  obtain s where s: "Add 0 NewStore (Some (sample_tenant ''a'' [HashKey k, HashKey k])) = Inr s"
    "st_tenants s = [''a'' \<mapsto> sample_tenant ''a'' [HashKey k, HashKey k]]" "st_byKey s = [HashKey k \<mapsto> ''a'']"
    using sample_Add [of "''a''" "[HashKey k, HashKey k]" NewStore 0] by (auto simp: NewStore_def)
  then show ?thesis
    by (auto simp: RotateRevokeOldKeys_def sample_tenant_def Let_def Resolve_def)
qed

section \<open>Rate windows\<close>

fun run_book :: "int \<Rightarrow> int \<Rightarrow> window option \<Rightarrow> int list \<Rightarrow> bool list" where
  "run_book width limit w [] = []"
| "run_book width limit w (t # ts) = (let (w', ok) = book width limit t w in ok # run_book width limit (Some w') ts)"

fun run_rate :: "Store \<Rightarrow> gostring \<Rightarrow> int list \<Rightarrow> bool list" where
  "run_rate s i [] = []"
| "run_rate s i (t # ts) = (let (d, s') = CheckRate t s i in Allowed d # run_rate s' i ts)"

text \<open>The requests of a list of times that were let through between \<open>a\<close> and \<open>b\<close>.\<close>

definition passed :: "int \<Rightarrow> int \<Rightarrow> int list \<Rightarrow> bool list \<Rightarrow> int" where
  "passed a b ts oks = int (length (filter (\<lambda>(t, ok). ok \<and> a \<le> t \<and> t < b) (zip ts oks)))"

lemma passed_Cons: "passed a b (t # ts) (ok # oks) = (if ok \<and> a \<le> t \<and> t < b then 1 else 0) + passed a b ts oks"
  by (simp add: passed_def)

text \<open>
  How many more requests can pass in \<open>[a, a + width)\<close> when the last request was at \<open>prev\<close>:
  nothing once the window starts after the interval, the rest of the window when it starts
  inside, one more window when it started before.
\<close>

definition room :: "int \<Rightarrow> int \<Rightarrow> int \<Rightarrow> int \<Rightarrow> window \<Rightarrow> int" where
  "room width limit a prev w =
     (if win_start w \<ge> a + width then 0
      else if win_start w \<ge> a then max 0 (limit - win_count w)
      else if prev \<ge> a then max 0 (limit - win_count w) + limit
      else 2 * limit)"

lemma room_nonneg: "0 < limit \<Longrightarrow> 0 \<le> room width limit a prev w"
  by (simp add: room_def)

lemma room_step:
  assumes "0 < width" "0 < limit" "win_start w \<le> prev" "prev \<le> t" "1 \<le> win_count w" "book width limit t (Some w) = (w', ok)"
  shows "(if ok \<and> a \<le> t \<and> t < a + width then 1 else 0) + room width limit a t w' \<le> room width limit a prev w"
    "win_start w' \<le> t" "1 \<le> win_count w'"
  using assms by (auto simp: book_def Let_def room_def split: if_splits)

lemma passed_run_book_Some:
  assumes "0 < width" "0 < limit"
  shows "win_start w \<le> prev \<Longrightarrow> 1 \<le> win_count w \<Longrightarrow> sorted (prev # ts) \<Longrightarrow>
    passed a (a + width) ts (run_book width limit (Some w) ts) \<le> room width limit a prev w"
proof (induction ts arbitrary: w prev)
  case Nil
  then show ?case using room_nonneg [OF assms(2)] by (simp add: passed_def)
next
  case (Cons t ts)
  obtain w' ok where b: "book width limit t (Some w) = (w', ok)" by fastforce
  have "prev \<le> t" using Cons.prems by simp
  note step = room_step [OF assms Cons.prems(1) this Cons.prems(2) b]
  have "sorted (t # ts)" using Cons.prems by simp
  from Cons.IH [OF step(2,3) this] step(1) [of a] show ?case by (simp add: b passed_Cons)
qed

lemma passed_run_book:
  assumes "0 < width" "0 < limit" "sorted ts"
  shows "passed a (a + width) ts (run_book width limit None ts) \<le> 2 * limit"
proof (cases ts)
  case (Cons t us)
  let ?w = "\<lparr>win_start = t, win_count = 1\<rparr>"
  have "passed a (a + width) us (run_book width limit (Some ?w) us) \<le> room width limit a t ?w"
    by (rule passed_run_book_Some [OF assms(1,2)]) (use assms(3) Cons in simp_all)
  moreover have "(if a \<le> t \<and> t < a + width then 1 else 0) + room width limit a t ?w \<le> 2 * limit"
    using assms(1,2) by (simp add: room_def)
  ultimately show ?thesis by (simp add: Cons book_def passed_Cons)
qed (use assms in \<open>simp add: passed_def\<close>)

text \<open>The windows of a tenant are the book of all its requests.\<close>

lemma passed_mono:
  "length xs = length ys \<Longrightarrow> list_all2 (\<longrightarrow>) xs ys \<Longrightarrow> passed a b ts xs \<le> passed a b ts ys"
proof (induction ts arbitrary: xs ys)
  case (Cons t ts)
  show ?case
  proof (cases xs)
    case Nil
    with Cons.prems show ?thesis by simp
  next
    case xs: (Cons x xs')
    with Cons.prems obtain y ys' where ys: "ys = y # ys'" by (cases ys) auto
    have "passed a b ts xs' \<le> passed a b ts ys'" using Cons xs ys by simp
    with Cons.prems xs ys show ?thesis by (simp add: passed_Cons)
  qed
qed (simp add: passed_def)

lemma CheckRate_second:
  assumes "st_tenants s i = Some t" "0 < tn_RatePerSecond t" "book (10 ^ 9) (tn_RatePerSecond t) now (st_rateSec s i) = (w, ok)"
    and "CheckRate now s i = (d, s')"
  shows "Allowed d \<longrightarrow> ok" "st_rateSec s' i = Some w" "st_tenants s' = st_tenants s"
  using assms CheckRate_fields(1) [of now s i]
  by (auto simp: CheckRate_def minute_check_def allowed_def Let_def split: if_splits prod.splits)

lemma run_rate_second:
  assumes "st_tenants s i = Some t" "0 < tn_RatePerSecond t"
  shows "list_all2 (\<longrightarrow>) (run_rate s i ts) (run_book (10 ^ 9) (tn_RatePerSecond t) (st_rateSec s i) ts)"
  using assms
proof (induction ts arbitrary: s)
  case (Cons now ts)
  obtain w ok where b: "book (10 ^ 9) (tn_RatePerSecond t) now (st_rateSec s i) = (w, ok)" by fastforce
  obtain d s' where r: "CheckRate now s i = (d, s')" by fastforce
  note c = CheckRate_second [OF Cons.prems b r]
  have "st_tenants s' i = Some t" using c(3) Cons.prems(1) by simp
  from Cons.IH [OF this Cons.prems(2)] c show ?case by (simp add: b [simplified] r)
qed simp

text \<open>
  The per-second ceiling holds up to the burst of a fixed window. For a tenant with the
  ceiling \<open>r\<close> per second and no window yet, whatever the times of its requests, at most
  \<open>2 r\<close> requests are let through in any interval of one second.
\<close>

theorem rate_per_second_bound:
  assumes "st_tenants s i = Some t" "0 < tn_RatePerSecond t" "st_rateSec s i = None" "sorted ts"
  shows "passed a (a + 10 ^ 9) ts (run_rate s i ts) \<le> 2 * tn_RatePerSecond t"
proof -
  note l = run_rate_second [OF assms(1,2), of ts]
  have "passed a (a + 10 ^ 9) ts (run_rate s i ts) \<le> passed a (a + 10 ^ 9) ts (run_book (10 ^ 9) (tn_RatePerSecond t) None ts)"
    using passed_mono [OF list_all2_lengthD [OF l] l] assms(3) by simp
  also have "\<dots> \<le> 2 * tn_RatePerSecond t" by (rule passed_run_book) (use assms in simp_all)
  finally show ?thesis .
qed

theorem rate_per_second_bound_witness:
  "passed 0 (0 + 10 ^ 9) [0, 1, 2, 3, 4, 5] (run_rate (NewStore\<lparr>st_tenants := [''a'' \<mapsto> sample_tenant ''a'' [''h'']]\<rparr>) ''a'' [0, 1, 2, 3, 4, 5]) \<le> 4"
  using rate_per_second_bound [of "NewStore\<lparr>st_tenants := [''a'' \<mapsto> sample_tenant ''a'' [''h'']]\<rparr>" "''a''" "sample_tenant ''a'' [''h'']"
      "[0, 1, 2, 3, 4, 5]" 0]
  by (simp add: sample_tenant_def NewStore_def)


section \<open>Monthly quota\<close>

fun run_quota :: "Store \<Rightarrow> gostring \<Rightarrow> int list \<Rightarrow> bool list" where
  "run_quota s i [] = []"
| "run_quota s i (t # ts) = (let (d, s') = CheckAndConsumeMonthlyQuota t s i in Allowed d # run_quota s' i ts)"

text \<open>What a tenant has used in a month.\<close>

definition used :: "Store \<Rightarrow> gostring \<Rightarrow> int \<times> int \<Rightarrow> int" where
  "used s i ym = (case st_quotaMon s i of
     Some c \<Rightarrow> if (mc_year c, mc_month c) = ym then mc_count c else 0 | None \<Rightarrow> 0)"

lemma quota_step:
  assumes "st_tenants s i = Some t" "0 < tn_MonthlyProofQuota t" "CheckAndConsumeMonthlyQuota now s i = (d, s')"
  shows "Allowed d \<longleftrightarrow> used s i (year_month now) < tn_MonthlyProofQuota t"
    "used s' i (year_month now) = (if Allowed d then used s i (year_month now) + 1 else used s i (year_month now))"
    "st_tenants s' = st_tenants s"
proof -
  obtain y m where ym: "year_month now = (y, m)" by fastforce
  obtain c where c: "c = (case st_quotaMon s i of
      Some c \<Rightarrow> if mc_year c \<noteq> y \<or> mc_month c \<noteq> m then \<lparr>mc_year = y, mc_month = m, mc_count = 0\<rparr> else c
    | None \<Rightarrow> \<lparr>mc_year = y, mc_month = m, mc_count = 0\<rparr>)" by blast
  have used: "used s i (y, m) = mc_count c" "mc_year c = y" "mc_month c = m"
    by (auto simp: used_def c split: option.splits)
  show "Allowed d \<longleftrightarrow> used s i (year_month now) < tn_MonthlyProofQuota t"
    "used s' i (year_month now) = (if Allowed d then used s i (year_month now) + 1 else used s i (year_month now))"
    "st_tenants s' = st_tenants s"
    using assms unfolding CheckAndConsumeMonthlyQuota_def ym used(1)
    by (simp_all add: c [symmetric] allowed_def used_def Let_def used(2,3) split: if_splits) (auto simp: used(2,3))
qed

text \<open>
  The monthly quota is exact. For a tenant with a quota, requests of one month are let
  through one after the other until the quota is used up, and none after that, whatever was
  used in other months.
\<close>

theorem monthly_quota_exact:
  assumes "st_tenants s i = Some t" "0 < tn_MonthlyProofQuota t" "list_all (\<lambda>x. year_month x = ym) ts"
  shows "run_quota s i ts = map (\<lambda>n. used s i ym + int n < tn_MonthlyProofQuota t) [0..<length ts]"
  using assms
proof (induction ts arbitrary: s)
  case (Cons now ts)
  obtain d s' where r: "CheckAndConsumeMonthlyQuota now s i = (d, s')" by fastforce
  note q = quota_step [OF Cons.prems(1,2) r]
  have ym: "year_month now = ym" and rest: "list_all (\<lambda>x. year_month x = ym) ts" using Cons.prems(3) by simp_all
  have t': "st_tenants s' i = Some t" using q(3) Cons.prems(1) by simp
  have "map (\<lambda>n. used s' i ym + int n < tn_MonthlyProofQuota t) [0..<length ts] =
      map (\<lambda>n. used s i ym + int (Suc n) < tn_MonthlyProofQuota t) [0..<length ts]"
    using q(1,2) ym by auto
  also have "\<dots> = map (\<lambda>n. used s i ym + int n < tn_MonthlyProofQuota t) (map Suc [0..<length ts])" by simp
  finally have "run_quota s' i ts = map (\<lambda>n. used s i ym + int n < tn_MonthlyProofQuota t) [Suc 0..<Suc (length ts)]"
    using Cons.IH [OF t' Cons.prems(2) rest] by (simp only: map_Suc_upt)
  then show ?case
    using q(1) ym by (simp add: r upt_conv_Cons del: upt_Suc)
qed simp

theorem monthly_quota_exact_witness:
  "run_quota (NewStore\<lparr>st_tenants := [''a'' \<mapsto> sample_tenant ''a'' [''h'']]\<rparr>) ''a'' [0, 1, 2, 3, 4] = [True, True, True, False, False]"
proof -
  have "list_all (\<lambda>x. year_month x = (1970, 1)) [0, 1, 2, 3, 4]" by code_simp
  from monthly_quota_exact [OF _ _ this, of "NewStore\<lparr>st_tenants := [''a'' \<mapsto> sample_tenant ''a'' [''h'']]\<rparr>" "''a''" "sample_tenant ''a'' [''h'']"]
  show ?thesis by (simp add: sample_tenant_def NewStore_def used_def upt_rec)
qed

section \<open>The audit ring\<close>

text \<open>The log after a sequence of events is the end of the event history.\<close>

lemma appendAudit_last_n:
  assumes "0 \<le> st_auditCap s"
  shows "st_audit (appendAuditLocked now ev s) = last_n (nat (st_auditCap s)) (st_audit s @ [stamp now ev])"
proof -
  have "nat (int (length xs) - c) = length xs - nat c" if "0 \<le> c" for xs :: "AuditEvent list" and c using that by arith
  with assms show ?thesis by (simp only: appendAuditLocked_def Let_def) (simp add: not_less last_n_def)
qed

lemma audit_ring:
  assumes "0 \<le> st_auditCap s" "int (length (st_audit s)) \<le> st_auditCap s"
  shows "st_audit (fold (\<lambda>(now, ev). Log now ev) evs s) =
    last_n (nat (st_auditCap s)) (st_audit s @ map (\<lambda>(now, ev). stamp now ev) evs)"
  using assms
proof (induction evs arbitrary: s)
  case Nil
  then show ?case by (simp add: last_n_short)
next
  case (Cons e evs)
  obtain now ev where e: "e = (now, ev)" by fastforce
  let ?s = "Log now ev s"
  have stamp: "stamp now (stamp now ev) = stamp now ev" by (simp add: stamp_def)
  have a: "st_audit ?s = last_n (nat (st_auditCap s)) (st_audit s @ [stamp now ev])"
    unfolding Log_def appendAudit_last_n [OF Cons.prems(1)] stamp ..
  have cap: "st_auditCap ?s = st_auditCap s" by (simp add: Log_def)
  have "length (st_audit ?s) \<le> nat (st_auditCap s)" unfolding a by (rule length_last_n)
  with Cons.prems(1) have "int (length (st_audit ?s)) \<le> st_auditCap ?s" unfolding cap by simp
  from Cons.IH [OF _ this] Cons.prems(1) show ?case by (simp add: e a cap last_n_append)
qed

end
