(* ===== verification/Access.thy ===== *)
theory Access
  imports Http Tenant_Store
begin

text \<open>
  What decides whether a request is let through: the limiter per address
  (\<^verbatim>\<open>engine/internal/api/server.go\<close>), the token bucket per API key
  (\<^verbatim>\<open>ratelimit_apikey.go\<close>), the two registries of scoped keys (\<^verbatim>\<open>scopes.go\<close>,
  \<^verbatim>\<open>scope_middleware.go\<close>) and the negotiation of the version (\<^verbatim>\<open>accept_version.go\<close>).
  Times are nanoseconds since 1970 and arguments; the rounding of float operations is the argument
  \<open>rnd\<close>.
\<close>

section \<open>Limiter per address\<close>

record rlEntry =
  rl_count :: int
  rl_reset :: int

type_synonym rateLimiter = "gostring \<rightharpoonup> rlEntry"

definition minute :: int where "minute = 60 * 10 ^ 9"

text \<open>\<^verbatim>\<open>net.SplitHostPort\<close>; the error value is no host.\<close>

definition SplitHostPort :: "gostring \<Rightarrow> gostring" where
  "SplitHostPort a =
     (let parts = Split CHR '':'' a; i = length a - 1 - length (last parts) in
      if length parts < 2 then []
      else if hd a = CHR ''['' then
        (let e = length (hd (Split CHR '']'' a)) in
         if e = length a \<or> Suc e \<noteq> i then []
         else if CHR ''['' \<in> set (tl a) \<or> CHR '']'' \<in> set (drop (Suc e) a) then []
         else take (e - 1) (tl a))
      else if length parts > 2 \<or> CHR ''['' \<in> set a \<or> CHR '']'' \<in> set a then []
      else take i a)"

definition client_ip :: "gostring \<Rightarrow> gostring" where
  "client_ip remote = (let ip = SplitHostPort remote in if ip = [] then remote else ip)"

definition rl_request :: "int \<Rightarrow> gostring \<Rightarrow> rateLimiter \<Rightarrow> bool \<times> rateLimiter" where
  "rl_request now ip clients =
     (case clients ip of
        None \<Rightarrow> (True, clients(ip \<mapsto> \<lparr>rl_count = 1, rl_reset = now + minute\<rparr>))
      | Some entry \<Rightarrow>
          if now > rl_reset entry then (True, clients(ip \<mapsto> \<lparr>rl_count = 1, rl_reset = now + minute\<rparr>))
          else let entry = entry\<lparr>rl_count := rl_count entry + 1\<rparr>
               in (\<not> rl_count entry > 60, clients(ip \<mapsto> entry)))"

section \<open>Token bucket per API key\<close>

record keyBucket =
  kb_tokens :: float64
  kb_lastFill :: int

record perKeyLimiter =
  kl_buckets :: "gostring \<rightharpoonup> keyBucket"
  kl_maxTokens :: float64
  kl_refillRate :: float64

definition newPerKeyLimiter :: "float64 \<Rightarrow> float64 \<Rightarrow> perKeyLimiter" where
  "newPerKeyLimiter maxTokens refillPerSec = \<lparr>kl_buckets = Map.empty, kl_maxTokens = maxTokens, kl_refillRate = refillPerSec\<rparr>"

definition keyRL :: perKeyLimiter where
  "keyRL = newPerKeyLimiter 120 (120 / 60)"

text \<open>\<^verbatim>\<open>Duration.Seconds\<close>: whole seconds plus the rounded rest.\<close>

definition Seconds :: "(rat \<Rightarrow> float64) \<Rightarrow> int \<Rightarrow> float64" where
  "Seconds rnd d = rnd (rnd (of_int (sgn d * (\<bar>d\<bar> div 10 ^ 9))) + rnd (of_int (sgn d * (\<bar>d\<bar> mod 10 ^ 9)) / 10 ^ 9))"

definition refill :: "(rat \<Rightarrow> float64) \<Rightarrow> int \<Rightarrow> perKeyLimiter \<Rightarrow> keyBucket \<Rightarrow> keyBucket" where
  "refill rnd now l b =
     (let elapsed = Seconds rnd (now - kb_lastFill b) in
      if elapsed > 0 then
        let t = rnd (kb_tokens b + rnd (elapsed * kl_refillRate l))
        in \<lparr>kb_tokens = (if t > kl_maxTokens l then kl_maxTokens l else t), kb_lastFill = now\<rparr>
      else b)"

definition key_allow :: "(rat \<Rightarrow> float64) \<Rightarrow> int \<Rightarrow> gostring \<Rightarrow> perKeyLimiter \<Rightarrow> bool \<times> perKeyLimiter" where
  "key_allow rnd now key l =
     (case kl_buckets l key of
        None \<Rightarrow> (True, l\<lparr>kl_buckets := (kl_buckets l)(key \<mapsto> \<lparr>kb_tokens = rnd (kl_maxTokens l - 1), kb_lastFill = now\<rparr>)\<rparr>)
      | Some b \<Rightarrow>
          let b = refill rnd now l b in
          if kb_tokens b < 1 then (False, l\<lparr>kl_buckets := (kl_buckets l)(key \<mapsto> b)\<rparr>)
          else (True, l\<lparr>kl_buckets := (kl_buckets l)(key \<mapsto> b\<lparr>kb_tokens := rnd (kb_tokens b - 1)\<rparr>)\<rparr>))"

section \<open>Scoped keys\<close>

record scopedKey =
  sk_Key :: gostring
  sk_TenantID :: gostring
  sk_Scopes :: "gostring list"

type_synonym scopeRegistry = "gostring \<rightharpoonup> scopedKey"

definition newScopeRegistry :: scopeRegistry where
  "newScopeRegistry = Map.empty"

datatype scopes_file = ScNoPath | ScMissing | ScUnreadable | ScMalformed | ScKeys "scopedKey list"

datatype scopes_error = ScOpen | ScDecode | ScEmptyKey

fun load_keys :: "scopedKey list \<Rightarrow> scopeRegistry \<Rightarrow> scopeRegistry option" where
  "load_keys [] m = Some m"
| "load_keys (e # es) m = (if sk_Key e = [] then None else load_keys es (m(sk_Key e \<mapsto> e)))"

fun loadFromFile :: "scopes_file \<Rightarrow> scopeRegistry \<Rightarrow> scopes_error option \<times> scopeRegistry" where
  "loadFromFile ScNoPath r = (None, r)"
| "loadFromFile ScMissing r = (None, r)"
| "loadFromFile ScUnreadable r = (Some ScOpen, r)"
| "loadFromFile ScMalformed r = (Some ScDecode, r)"
| "loadFromFile (ScKeys es) r = (case load_keys es Map.empty of None \<Rightarrow> (Some ScEmptyKey, r) | Some m \<Rightarrow> (None, m))"

definition lookup_scoped :: "scopeRegistry \<Rightarrow> gostring \<Rightarrow> scopedKey option" where
  "lookup_scoped r key = (if key = [] then None else r key)"

definition grants :: "gostring \<Rightarrow> gostring \<Rightarrow> bool" where
  "grants g required \<longleftrightarrow> g = ''*'' \<or> g = required \<or>
     HasSuffix g '':*'' \<and> HasPrefix required (TrimSuffix g '':*'' @ '':'')"

definition hasScope :: "gostring list \<Rightarrow> gostring \<Rightarrow> bool" where
  "hasScope granted required \<longleftrightarrow> required = [] \<or> list_ex (\<lambda>g. grants g required) granted"

definition routeScopes :: "gostring \<rightharpoonup> gostring" where
  "routeScopes = map_of
    [(''POST /proofs'', ''proofs:write''),
     (''POST /proofs/batch'', ''proofs:write''),
     (''POST /verify'', ''verify''),
     (''POST /proofs/{id}/revoke'', ''proofs:write''),
     (''GET /proofs'', ''proofs:read''),
     (''GET /proofs/{id}'', ''proofs:read''),
     (''GET /proofs/{id}/export'', ''proofs:read''),
     (''GET /stats'', ''stats''),
     (''POST /kyc/check'', ''kyc:read''),
     (''POST /kyc/grant'', ''kyc:write''),
     (''GET /kyc/whitelist/{user}'', ''kyc:read''),
     (''POST /inference/prove'', ''inference:write''),
     (''POST /inference/verify'', ''inference:read''),
     (''POST /inference/register-model'', ''inference:write''),
     (''GET /inference/model/{id}'', ''inference:read''),
     (''POST /aggregation/create-batch'', ''aggregation:write''),
     (''POST /aggregation/add-proof'', ''aggregation:write''),
     (''POST /aggregation/finalize'', ''aggregation:write''),
     (''GET /aggregation/batch/{id}'', ''aggregation:read''),
     (''GET /aggregation/verify-batch/{id}'', ''aggregation:read''),
     (''POST /zk/verify-groth16'', ''zk:read''),
     (''POST /zk/batch-verify'', ''zk:read''),
     (''POST /zk/groth16-real/prove'', ''zk:write''),
     (''POST /zk/groth16-real/verify'', ''zk:read''),
     (''POST /zk/challenge'', ''zk:write''),
     (''GET /zk/challenge/{id}'', ''zk:read''),
     (''POST /proof-chain/validate'', ''proofs:read''),
     (''POST /pq/sign-sphincs'', ''pq:write''),
     (''POST /pq/verify-sphincs'', ''pq:read''),
     (''POST /pq/hybrid-sign'', ''pq:write''),
     (''POST /pq/hybrid-verify'', ''pq:read''),
     (''POST /v1/webhooks'', ''webhooks:write''),
     (''GET /v1/webhooks'', ''webhooks:read''),
     (''DELETE /v1/webhooks/{id}'', ''webhooks:write''),
     (''GET /v1/webhooks/dead-letters'', ''webhooks:read''),
     (''POST /v1/webhooks/dead-letters/{delivery_id}/replay'', ''webhooks:write''),
     (''GET /v1/admin/summary'', ''admin:read''),
     (''GET /v1/circuits'', ''zk:read''),
     (''GET /v1/circuits/{id}'', ''zk:read''),
     (''GET /v1/circuits/{id}/vk'', ''zk:read''),
     (''POST /v1/zk/prove'', ''zk:write''),
     (''POST /v1/zk/verify'', ''zk:read''),
     (''POST /v1/zk/anchor-verdict'', ''zk:write''),
     (''POST /v1/pq/keys'', ''pq:write''),
     (''POST /v1/pq/keys/{algo}/rotate'', ''pq:write''),
     (''GET /v1/pq/keys'', ''pq:read''),
     (''GET /v1/pq/keys/{id}'', ''pq:read''),
     (''POST /v1/pq/keys/sign'', ''pq:write''),
     (''POST /v1/pq/keys/verify'', ''pq:read''),
     (''POST /v1/pq/keys/migrate'', ''pq:write''),
     (''GET /v1/pq/keystore/info'', ''pq:read''),
     (''POST /v1/aggregation/fold'', ''aggregation:write''),
     (''POST /v1/aggregation/verify-fold'', ''aggregation:read''),
     (''POST /v1/decision/evaluate'', ''decision:write''),
     (''GET /v1/decision/pool'', ''decision:read''),
     (''GET /v1/hitl/tickets'', ''decision:read''),
     (''GET /v1/hitl/tickets/{id}'', ''decision:read''),
     (''POST /v1/hitl/tickets/{id}/resolve'', ''decision:write''),
     (''POST /v1/receipts/emit'', ''receipts:write''),
     (''GET /v1/receipts/{id}'', ''receipts:read''),
     (''GET /v1/receipts/{id}/lineage'', ''receipts:read''),
     (''GET /v1/receipts/{id}/w3c-vc'', ''receipts:read''),
     (''GET /v1/receipts/{id}/agent-receipt'', ''receipts:read'')]"

text \<open>The other registry, used by the gate around single handlers.\<close>

record APIKeyRecord =
  ak_TenantID :: gostring
  ak_Scopes :: "gostring list"

type_synonym ScopeRegistry = "gostring \<rightharpoonup> APIKeyRecord"

definition Scope_Set :: "gostring \<Rightarrow> APIKeyRecord \<Rightarrow> ScopeRegistry \<Rightarrow> ScopeRegistry" where
  "Scope_Set key rec r = r(key \<mapsto> rec)"

definition Scope_SetMany :: "ScopeRegistry \<Rightarrow> ScopeRegistry \<Rightarrow> ScopeRegistry" where
  "Scope_SetMany rows r = r ++ rows"

definition Scope_Lookup :: "ScopeRegistry \<Rightarrow> gostring \<Rightarrow> APIKeyRecord option" where
  "Scope_Lookup r key = r key"

definition Record_HasScope :: "APIKeyRecord \<Rightarrow> gostring \<Rightarrow> bool" where
  "Record_HasScope r want \<longleftrightarrow> list_ex (\<lambda>s. s = ''*'' \<or> s = want) (ak_Scopes r)"

definition scopeGate ::
  "ScopeRegistry option \<Rightarrow> gostring \<Rightarrow> (gostring \<Rightarrow> ('t, 's) handler) \<Rightarrow> ('t, 's) handler" where
  "scopeGate reg required next r h s =
     (case reg of
        None \<Rightarrow> next [] r h s
      | Some m \<Rightarrow>
          if rq_Method r = ''GET'' \<or> rq_Method r = ''HEAD'' \<or> rq_Method r = ''OPTIONS'' then next [] r h s
          else (case Scope_Lookup m (Get (rq_Header r) ''X-API-Key'') of
                  None \<Rightarrow> next [] r h s
                | Some rec \<Rightarrow>
                    if \<not> Record_HasScope rec required
                    then (jsonError h (''api key lacks required scope: '' @ required) 403, s)
                    else next (ak_TenantID rec) r h s))"

section \<open>Version negotiation\<close>

definition cpMediaType :: gostring where "cpMediaType = ''application/vnd.cp+json''"

definition servedVersions :: "gostring list" where "servedVersions = [''1'']"

definition trim_quotes :: "gostring \<Rightarrow> gostring" where
  "trim_quotes s = rev (dropWhile (\<lambda>c. c = CHR 0x22) (rev (dropWhile (\<lambda>c. c = CHR 0x22) s)))"

fun media_params :: "gostring list \<Rightarrow> (gostring \<rightharpoonup> gostring) \<Rightarrow> (gostring \<rightharpoonup> gostring)" where
  "media_params [] m = m"
| "media_params (g # gs) m =
     (let seg = TrimSpace g; k = takeWhile (\<lambda>c. c \<noteq> CHR ''='') seg in
      if k = [] \<or> length k = length seg then media_params gs m
      else media_params gs (m(ToLower (TrimSpace k) \<mapsto> trim_quotes (TrimSpace (drop (Suc (length k)) seg)))))"

definition parseMediaType :: "gostring \<Rightarrow> gostring \<times> (gostring \<rightharpoonup> gostring)" where
  "parseMediaType s = (let segs = Split CHR '';'' (TrimSpace s) in
     (ToLower (TrimSpace (hd segs)), media_params (tl segs) Map.empty))"

fun negotiate_parts :: "gostring list \<Rightarrow> bool \<Rightarrow> gostring \<times> bool" where
  "negotiate_parts [] unknown = (if unknown then ([], True) else (last servedVersions, False))"
| "negotiate_parts (p # ps) unknown =
     (let (media, params) = parseMediaType p in
      if media \<noteq> cpMediaType then negotiate_parts ps unknown
      else case params ''version'' of
        None \<Rightarrow> (last servedVersions, True)
      | Some v \<Rightarrow> if v \<in> set servedVersions then (v, True) else negotiate_parts ps True)"

definition negotiateVersion :: "gostring \<Rightarrow> gostring \<times> bool" where
  "negotiateVersion header =
     (if TrimSpace header = [] then (last servedVersions, False)
      else negotiate_parts (Split CHR '','' header) False)"

section \<open>Lemmas\<close>

lemma grants_iff: "grants g required \<longleftrightarrow> g = ''*'' \<or> g = required \<or> (\<exists>res rest. g = res @ '':*'' \<and> required = res @ '':'' @ rest)"
proof -
  have "TrimSuffix (res @ '':*'') '':*'' = res" for res
    by (simp add: TrimSuffix_def HasSuffix_def)
  then show ?thesis by (auto simp: grants_def HasSuffix_append HasPrefix_append)
qed

lemma hasScope_iff:
  "required \<noteq> [] \<Longrightarrow> hasScope gs required \<longleftrightarrow>
     ''*'' \<in> set gs \<or> required \<in> set gs \<or> (\<exists>res rest. res @ '':*'' \<in> set gs \<and> required = res @ '':'' @ rest)"
  by (auto simp: hasScope_def list_ex_iff grants_iff)

lemma hasScope_mono: "hasScope gs q \<Longrightarrow> set gs \<subseteq> set hs \<Longrightarrow> hasScope hs q"
  by (auto simp: hasScope_def list_ex_iff)

text \<open>The wildcard of a resource does not cover a scope without verb, the one of the verification endpoint.\<close>

lemma verify_wildcard_denied: "\<not> hasScope [''verify:*''] (the (routeScopes ''POST /verify''))"
  by (simp add: routeScopes_def hasScope_def grants_def HasSuffix_def HasPrefix_def TrimSuffix_def)

lemma routeScopes_nonempty: "routeScopes pat = Some q \<Longrightarrow> q \<noteq> []"
  unfolding routeScopes_def by (drule map_of_SomeD) auto

text \<open>A registry that was loaded holds, for every key of the file, the last entry with that key, and nothing else.\<close>

lemma load_keys_iff:
  "load_keys es m = Some r \<longleftrightarrow> list_all (\<lambda>e. sk_Key e \<noteq> []) es \<and> r = m ++ map_of (rev (map (\<lambda>e. (sk_Key e, e)) es))"
  by (induction es arbitrary: m) (auto simp: map_add_def fun_eq_iff split: option.splits)

text \<open>
  The limiter per address is the fixed window of the tenant store with a window one nanosecond
  longer than a minute, since the window ends only after its reset time.
\<close>

definition as_window :: "rlEntry \<Rightarrow> window" where
  "as_window e = \<lparr>win_start = rl_reset e - minute, win_count = rl_count e\<rparr>"

lemma rl_request_book:
  "rl_request now ip clients = (ok, clients') \<Longrightarrow>
     book (minute + 1) 60 now (map_option as_window (clients ip)) = (as_window (the (clients' ip)), ok) \<and>
     clients' ip \<noteq> None \<and> (\<forall>j. j \<noteq> ip \<longrightarrow> clients' j = clients j)"
  by (auto simp: rl_request_def book_def as_window_def Let_def split: option.splits if_splits)

text \<open>A history of requests with their addresses and times, and which of them pass the limiter.\<close>

fun run_rl :: "rateLimiter \<Rightarrow> (gostring \<times> int) list \<Rightarrow> bool list" where
  "run_rl m [] = []"
| "run_rl m ((ip, t) # rs) = (let (ok, m') = rl_request t ip m in ok # run_rl m' rs)"

definition of_ip :: "gostring \<Rightarrow> (gostring \<times> int) list \<Rightarrow> bool list \<Rightarrow> bool list" where
  "of_ip ip rs oks = map snd (filter (\<lambda>((j, t), ok). j = ip) (zip rs oks))"

definition times_of :: "gostring \<Rightarrow> (gostring \<times> int) list \<Rightarrow> int list" where
  "times_of ip rs = map snd (filter (\<lambda>(j, t). j = ip) rs)"

lemma run_rl_book:
  "of_ip ip rs (run_rl m rs) = run_book (minute + 1) 60 (map_option as_window (m ip)) (times_of ip rs)"
proof (induction rs arbitrary: m)
  case Nil
  show ?case by (simp add: of_ip_def times_of_def)
next
  case (Cons r rs)
  obtain j t where r: "r = (j, t)" by fastforce
  obtain ok m' where q: "rl_request t j m = (ok, m')" by fastforce
  note b = rl_request_book [OF q]
  show ?case
  proof (cases "j = ip")
    case True
    with b have "book (minute + 1) 60 t (map_option as_window (m ip)) = (as_window (the (m' ip)), ok)" "m' ip \<noteq> None" by auto
    then show ?thesis using Cons.IH [of m'] True q by (auto simp: r of_ip_def times_of_def)
  next
    case False
    with b have "m' ip = m ip" by simp
    then show ?thesis using Cons.IH [of m'] False by (simp add: r q of_ip_def times_of_def)
  qed
qed

lemma passed_wider: "b \<le> b' \<Longrightarrow> passed a b ts oks \<le> passed a b' ts oks"
proof (induction ts arbitrary: oks)
  case (Cons t ts)
  note IH = Cons.IH and le = Cons.prems
  show ?case
  proof (cases oks)
    case (Cons ok oks')
    with IH [OF le, of oks'] le show ?thesis by (auto simp: passed_Cons)
  qed (simp add: passed_def)
qed (simp add: passed_def)



text \<open>An accepted version is a served one; a request is refused only when it names versions that are not served.\<close>

lemma negotiate_parts_served: "fst (negotiate_parts ps u) \<in> insert [] (set servedVersions)"
  by (induction ps u rule: negotiate_parts.induct) (auto simp: servedVersions_def Let_def split: prod.splits option.splits)

end
