(* ===== verification/Idempotency.thy ===== *)
theory Idempotency
  imports Access
begin

text \<open>
  The replay store of mutating requests, \<^verbatim>\<open>engine/internal/api/idempotency.go\<close>. Lookup and insertion
  hold the lock on their own, so they are two steps; the middleware runs the handler between them. The
  clock readings and the order in which the map is ranged over are arguments.
\<close>

definition idempotencyHeader :: gostring where "idempotencyHeader = ''X-Idempotency-Key''"

definition idempotencyTTL :: int where "idempotencyTTL = 15 * minute"

definition idempotencyMax :: nat where "idempotencyMax = 4096"

record idempotencyEntry =
  ie_status :: int
  ie_body :: bytes
  ie_contentType :: gostring
  ie_requestHash :: gostring
  ie_expiresAt :: int

type_synonym idempotencyStore = "gostring \<rightharpoonup> idempotencyEntry"

definition isMutating :: "gostring \<Rightarrow> bool" where
  "isMutating m \<longleftrightarrow> m \<in> {''POST'', ''PUT'', ''PATCH'', ''DELETE''}"

definition hashReq :: "gostring \<Rightarrow> gostring \<Rightarrow> bytes \<Rightarrow> gostring" where
  "hashReq meth path body = hex_encode (sha256 (meth @ [byte 0] @ path @ [byte 0] @ body))"

definition sweepExpiredLocked :: "int \<Rightarrow> idempotencyStore \<Rightarrow> idempotencyStore" where
  "sweepExpiredLocked now m = (\<lambda>k. case m k of None \<Rightarrow> None | Some v \<Rightarrow> if now > ie_expiresAt v then None else Some v)"

fun oldest :: "gostring list \<Rightarrow> idempotencyStore \<Rightarrow> (gostring \<times> int) option \<Rightarrow> (gostring \<times> int) option" where
  "oldest [] m acc = acc"
| "oldest (k # ks) m acc =
     (case m k of
        None \<Rightarrow> oldest ks m acc
      | Some v \<Rightarrow> oldest ks m (case acc of None \<Rightarrow> Some (k, ie_expiresAt v)
                       | Some (k0, t) \<Rightarrow> if ie_expiresAt v < t then Some (k, ie_expiresAt v) else acc))"

definition evictOldestLocked :: "gostring list \<Rightarrow> idempotencyStore \<Rightarrow> idempotencyStore" where
  "evictOldestLocked ks m =
     (case oldest ks m None of None \<Rightarrow> m | Some (k, t) \<Rightarrow> if k \<noteq> [] then m(k := None) else m)"

text \<open>The first critical section: sweep and look up.\<close>

definition idem_begin :: "int \<Rightarrow> gostring \<Rightarrow> idempotencyStore \<Rightarrow> idempotencyEntry option \<times> idempotencyStore" where
  "idem_begin now key m = (let m' = sweepExpiredLocked now m in (m' key, m'))"

text \<open>The second one: make room and insert.\<close>

definition idem_commit :: "int \<Rightarrow> gostring list \<Rightarrow> gostring \<Rightarrow> gostring \<Rightarrow> http_response \<Rightarrow> idempotencyStore \<Rightarrow> idempotencyStore" where
  "idem_commit now ks key reqHash rs m =
     (let m' = (if card (dom m) \<ge> idempotencyMax then evictOldestLocked ks m else m)
      in m'(key \<mapsto> \<lparr>ie_status = rs_Status rs, ie_body = rs_Body rs, ie_contentType = Get (rs_Header rs) ''Content-Type'',
                     ie_requestHash = reqHash, ie_expiresAt = now + idempotencyTTL\<rparr>))"

definition replay_entry :: "idempotencyEntry \<Rightarrow> header \<Rightarrow> http_response" where
  "replay_entry e h =
     (let h' = (if ie_contentType e \<noteq> [] then h(''Content-Type'' \<mapsto> ie_contentType e) else h)
      in \<lparr>rs_Status = ie_status e, rs_Header = h'(''X-Idempotency-Replay'' \<mapsto> ''true''), rs_Body = ie_body e\<rparr>)"

section \<open>Lemmas\<close>

lemma expired_Some: "sweepExpiredLocked now m k = Some e \<longleftrightarrow> m k = Some e \<and> now \<le> ie_expiresAt e"
  by (auto simp: sweepExpiredLocked_def split: option.splits)

lemma sweep_le: "sweepExpiredLocked now m \<subseteq>\<^sub>m m"
  using expired_Some [of now m] by (auto simp: map_le_def dom_def)

text \<open>Method, path and body of a request can be read off what is hashed, when method and path hold no zero byte.\<close>

lemma hashReq_binding:
  assumes "hashReq m p b = hashReq m' p' b'" "byte 0 \<notin> set m" "byte 0 \<notin> set p" "byte 0 \<notin> set m'" "byte 0 \<notin> set p'"
  shows "(m = m' \<and> p = p' \<and> b = b') \<or> (\<exists>x y. sha256 x = sha256 y \<and> x \<noteq> y)"
proof (cases "m @ [byte 0] @ p @ [byte 0] @ b = m' @ [byte 0] @ p' @ [byte 0] @ b'")
  case True
  have split: "u @ byte 0 # v = u' @ byte 0 # v' \<Longrightarrow> byte 0 \<notin> set u \<Longrightarrow> byte 0 \<notin> set u' \<Longrightarrow> u = u' \<and> v = v'" for u v u' v'
    by (simp add: append_eq_Cons_conv append_eq_append_conv2) (metis append_Nil2 append_eq_Cons_conv append_same_eq in_set_conv_decomp list.inject self_append_conv)
  show ?thesis using True split [of m _ m'] split [of p b p' b'] assms(2-) by auto
next
  case False
  with assms(1) show ?thesis unfolding hashReq_def by auto
qed

lemma oldest_acc:
  "oldest ks m acc = Some (k, t) \<Longrightarrow> acc = Some (k, t) \<or> (k \<in> set ks \<and> (\<exists>e. m k = Some e \<and> ie_expiresAt e = t))"
proof (induction ks m acc rule: oldest.induct)
  case (2 k' ks m acc)
  then show ?case by (auto split: option.splits prod.splits if_splits)
qed simp

lemma oldest_min:
  "oldest ks m acc = Some (k, t) \<Longrightarrow>
     (\<forall>k' e. k' \<in> set ks \<longrightarrow> m k' = Some e \<longrightarrow> t \<le> ie_expiresAt e) \<and> (\<forall>k0 t0. acc = Some (k0, t0) \<longrightarrow> t \<le> t0)"
proof (induction ks m acc rule: oldest.induct)
  case (2 k' ks m acc)
  then show ?case by (fastforce split: option.splits prod.splits if_splits)
qed simp

lemma oldest_None: "oldest ks m acc = None \<longleftrightarrow> acc = None \<and> (\<forall>k\<in>set ks. m k = None)"
  by (induction ks m acc rule: oldest.induct) (auto split: option.splits prod.splits if_splits)

text \<open>Eviction drops one entry, and no other expires earlier.\<close>

lemma evict_oldest:
  assumes "ranges ks m" "m [] = None" "m \<noteq> Map.empty"
  shows "\<exists>k e. m k = Some e \<and> evictOldestLocked ks m = m(k := None) \<and> (\<forall>k' e'. m k' = Some e' \<longrightarrow> ie_expiresAt e \<le> ie_expiresAt e')"
proof -
  have ks: "k \<in> set ks \<longleftrightarrow> m k \<noteq> None" for k using assms(1) by (auto simp: ranges_def)
  from assms(3) have "oldest ks m None \<noteq> None" by (auto simp: oldest_None ks fun_eq_iff)
  then obtain k t where o: "oldest ks m None = Some (k, t)" by auto
  obtain e where e: "m k = Some e" "ie_expiresAt e = t" using oldest_acc [OF o] by auto
  with o oldest_min [OF o] assms(2) ks show ?thesis by (intro exI [of _ k] exI [of _ e]) (auto simp: evictOldestLocked_def)
qed

end
