(* ===== verification/Http_Pipeline.thy ===== *)
theory Http_Pipeline
  imports Idempotency
begin

text \<open>
  The chain of middlewares around every handler, as \<^verbatim>\<open>Server.Start\<close> of
  \<^verbatim>\<open>engine/internal/api/server.go\<close> composes it, with the version alias (\<^verbatim>\<open>versioning.go\<close>), the
  middleware of \<^verbatim>\<open>accept_version.go\<close> and the routing table. The state holds what the middlewares
  change and, as an arbitrary type, what the handlers change. Telemetry and request logging wrap
  the chain without changing a request and are left out. The lemmas show which requests reach a
  handler, and that a retried request does not reach it twice.
\<close>

section \<open>State and clock readings\<close>

record 'a hserver =
  hs_apiKey :: gostring
  hs_scopes :: "scopeRegistry option"
  hs_rl :: rateLimiter
  hs_keyRL :: perKeyLimiter
  hs_tenants :: "Store option"
  hs_idem :: idempotencyStore
  hs_app :: 'a

text \<open>
  The clock readings of one request, in the order in which the chain takes them, the rounding of
  the token bucket and the orders in which the two maps are ranged over.
\<close>

record arrival =
  ar_rl :: int
  ar_key :: int
  ar_rate :: int
  ar_log :: int
  ar_sweep :: int
  ar_store :: int
  ar_rnd :: "rat \<Rightarrow> float64"
  ar_tenants :: "gostring list"
  ar_idem :: "gostring list"

type_synonym request = "Tenant http_request"
type_synonym 'a mw = "(Tenant, 'a hserver) handler \<Rightarrow> (Tenant, 'a hserver) handler"

section \<open>Middlewares\<close>

definition v1SunsetDate :: gostring where "v1SunsetDate = ''2027-01-01''"

definition v1_path :: "gostring \<Rightarrow> gostring" where
  "v1_path p = (if HasPrefix p ''/v1/'' then (let q = drop 3 p in if q = [] then ''/'' else q) else p)"

definition v1AliasMiddleware :: "'a mw" where
  "v1AliasMiddleware next r h s =
     (let h = h(''X-CP-API-Version'' \<mapsto> ''v1'') in
      if HasPrefix (rq_Path r) ''/v1/'' then next (r\<lparr>rq_Path := v1_path (rq_Path r)\<rparr>) h s
      else if rq_Path r \<noteq> ''/health'' then
        next r (h(''X-CP-Deprecation'' \<mapsto> v1SunsetDate, ''Sunset'' \<mapsto> v1SunsetDate,
                  ''Link'' \<mapsto> ''</v1'' @ rq_Path r @ ''>; rel='' @ [CHR 0x22] @ ''successor-version'' @ [CHR 0x22])) s
      else next r h s)"

definition stamp_version :: "gostring \<Rightarrow> header \<Rightarrow> header" where
  "stamp_version v h0 =
     (let h = h0(''X-CP-API-Version'' \<mapsto> v); existing = Get h ''Vary'' in
      if existing = [] then h(''Vary'' \<mapsto> ''Accept'')
      else if \<not> Contains existing ''Accept'' then h(''Vary'' \<mapsto> existing @ '', Accept'') else h)"

definition acceptVersionMiddleware :: "'a mw" where
  "acceptVersionMiddleware next r h s =
     (let (v, explicit) = negotiateVersion (Get (rq_Header r) ''Accept'') in
      if v = [] then
        (jsonError (h(''Vary'' \<mapsto> ''Accept'')) (''unsupported api version '' @ em_dash @ '' supported: '' @ Join '', '' servedVersions) 406, s)
      else next r (stamp_version v h) s)"

definition rateLimitMiddleware :: "arrival \<Rightarrow> 'a mw" where
  "rateLimitMiddleware a next r h s =
     (let (ok, clients) = rl_request (ar_rl a) (client_ip (rq_RemoteAddr r)) (hs_rl s);
          s = s\<lparr>hs_rl := clients\<rparr>
      in if \<not> ok then (jsonError h ''too many requests'' 429, s)
         else next (if rq_Method r = ''POST'' then r\<lparr>rq_MaxBytes := Some (2 ^ 20)\<rparr> else r) h s)"

definition perKeyRateLimitMiddleware :: "arrival \<Rightarrow> 'a mw" where
  "perKeyRateLimitMiddleware a next r h s =
     (let key = Get (rq_Header r) ''X-API-Key'' in
      if key = [] then next r h s
      else let (ok, l) = key_allow (ar_rnd a) (ar_key a) key (hs_keyRL s); s = s\<lparr>hs_keyRL := l\<rparr>
           in if \<not> ok then (jsonError (h(''Retry-After'' \<mapsto> ''30'')) ''per-api-key rate limit exceeded'' 429, s)
              else next r h s)"

definition corsMiddleware :: "'a mw" where
  "corsMiddleware next r h s =
     (let h = h(''Access-Control-Allow-Origin'' \<mapsto> ''*'',
                ''Access-Control-Allow-Methods'' \<mapsto> ''GET, POST, PUT, DELETE, OPTIONS'',
                ''Access-Control-Allow-Headers'' \<mapsto> ''Content-Type, Authorization, X-Public-Key'')
      in if rq_Method r = ''OPTIONS'' then (\<lparr>rs_Status = 204, rs_Header = h, rs_Body = []\<rparr>, s) else next r h s)"

definition AuditRateBlocked :: AuditKind where "AuditRateBlocked = ''tenant.rate.blocked''"
definition AuditAuthAccepted :: AuditKind where "AuditAuthAccepted = ''tenant.auth.accepted''"
definition AuditAuthRejected :: AuditKind where "AuditAuthRejected = ''tenant.auth.rejected''"

definition audit_event :: "gostring \<Rightarrow> AuditKind \<Rightarrow> gostring \<Rightarrow> AuditEvent" where
  "audit_event i k d = \<lparr>ae_At = zero_time, ae_TenantID = i, ae_Kind = k, ae_Detail = d\<rparr>"

definition authMiddleware :: "arrival \<Rightarrow> 'a mw" where
  "authMiddleware a next r h s =
     (let read = (rq_Method r = ''GET'' \<or> rq_Method r = ''HEAD''); got = Get (rq_Header r) ''X-API-Key'' in
      case hs_tenants s of
        Some ts \<Rightarrow>
          if read then next r h s
          else (case Resolve (ar_tenants a) ts got of
            None \<Rightarrow>
              (jsonError h ''missing or invalid X-API-Key'' 401,
               s\<lparr>hs_tenants := Some (Log (ar_log a) (audit_event [] AuditAuthRejected (''path='' @ rq_Path r @ '' remote='' @ rq_RemoteAddr r)) ts)\<rparr>)
          | Some t \<Rightarrow>
              let (d, ts) = CheckRate (ar_rate a) ts (tn_ID t) in
              if \<not> Allowed d then
                (jsonError h (Reason d) 429,
                 s\<lparr>hs_tenants := Some (Log (ar_log a) (audit_event (tn_ID t) AuditRateBlocked (Reason d @ '' path='' @ rq_Path r)) ts)\<rparr>)
              else
                next (r\<lparr>rq_Tenant := Some t\<rparr>) h
                  (s\<lparr>hs_tenants := Some (Log (ar_log a) (audit_event (tn_ID t) AuditAuthAccepted (''method='' @ rq_Method r @ '' path='' @ rq_Path r)) ts)\<rparr>))
      | None \<Rightarrow>
          if hs_apiKey s = [] then next r h s
          else if read then next r h s
          else if got = [] \<or> got \<noteq> hs_apiKey s then (jsonError h ''missing or invalid X-API-Key'' 401, s)
          else next r h s)"

text \<open>Whether the scope check lets the request through, and the request with the tenant of the scoped key as a header.\<close>

definition enforceScope :: "'a hserver \<Rightarrow> request \<Rightarrow> gostring \<Rightarrow> bool \<times> request" where
  "enforceScope s r required =
     (case hs_scopes s of
        None \<Rightarrow> (True, r)
      | Some reg \<Rightarrow>
          (case lookup_scoped reg (TrimSpace (Get (rq_Header r) ''X-API-Key'')) of
             None \<Rightarrow> (True, r)
           | Some entry \<Rightarrow>
               if \<not> hasScope (sk_Scopes entry) required then (False, r)
               else (True, r\<lparr>rq_Header := (rq_Header r)(''X-CP-Tenant'' \<mapsto> sk_TenantID entry)\<rparr>)))"

definition scopeMiddleware :: "route list \<Rightarrow> 'a mw" where
  "scopeMiddleware routes next r h s =
     (if hs_scopes s = None then next r h s
      else let pat = TrimSpace (snd (mux_Handler routes (rq_Method r) (rq_Path r))) in
        if pat = [] then next r h s
        else (case routeScopes pat of
                None \<Rightarrow> next r h s
              | Some required \<Rightarrow>
                  if required = [] then next r h s
                  else let (ok, r') = enforceScope s r required in
                    if \<not> ok then (jsonError h (''forbidden: missing scope '' @ required) 403, s) else next r' h s))"

definition idempotencyMiddleware :: "arrival \<Rightarrow> 'a mw" where
  "idempotencyMiddleware a next r h s =
     (let key = Get (rq_Header r) idempotencyHeader in
      if \<not> isMutating (rq_Method r) then next r h s
      else if key = [] then next r h s
      else (case ReadAll r of
        None \<Rightarrow> (jsonError h ''read body'' 400, s)
      | Some body \<Rightarrow>
          let r = r\<lparr>rq_Body := Some body, rq_MaxBytes := None\<rparr>;
              reqHash = hashReq (rq_Method r) (rq_Path r) body;
              (entry, m) = idem_begin (ar_sweep a) key (hs_idem s);
              s = s\<lparr>hs_idem := m\<rparr>
          in (case entry of
                Some e \<Rightarrow>
                  if ie_requestHash e \<noteq> reqHash
                  then (jsonError h ''idempotency-key reused with different payload'' 409, s)
                  else (replay_entry e h, s)
              | None \<Rightarrow>
                  let (rs, s) = next r h s in
                  (rs, if rs_Status rs \<ge> 200 \<and> rs_Status rs < 300
                       then s\<lparr>hs_idem := idem_commit (ar_store a) (ar_idem a) key reqHash rs (hs_idem s)\<rparr> else s))))"

section \<open>Routes and chain\<close>

definition base_routes :: "gostring list" where
  "base_routes =
    [''GET /health'',
     ''GET /onchain.json'',
     ''GET /proofs'',
     ''GET /proofs/{id}'',
     ''POST /proofs'',
     ''POST /proofs/batch'',
     ''POST /verify'',
     ''POST /verify/batch'',
     ''POST /proofs/{id}/revoke'',
     ''GET /proofs/{id}/export'',
     ''GET /stats'',
     ''POST /kyc/check'',
     ''POST /kyc/grant'',
     ''GET /kyc/whitelist/{user}'',
     ''POST /inference/prove'',
     ''POST /inference/verify'',
     ''POST /inference/register-model'',
     ''GET /inference/model/{id}'',
     ''POST /inference/judge'',
     ''POST /aggregation/create-batch'',
     ''POST /aggregation/add-proof'',
     ''POST /aggregation/finalize'',
     ''GET /aggregation/batch/{id}'',
     ''GET /aggregation/verify-batch/{id}'',
     ''POST /zk/groth16-real/prove'',
     ''POST /zk/groth16-real/verify'',
     ''POST /zk/verify-groth16-sim'',
     ''POST /zk/batch-verify-sim'',
     ''POST /zk/verify-groth16'',
     ''POST /zk/batch-verify'',
     ''GET /v1/circuits'',
     ''GET /v1/circuits/{id}'',
     ''GET /v1/circuits/{id}/vk'',
     ''POST /v1/zk/prove'',
     ''POST /v1/zk/verify'',
     ''POST /v1/zk/anchor-verdict'',
     ''POST /zk/challenge'',
     ''GET /zk/challenge/{id}'',
     ''POST /proof-chain/validate'',
     ''POST /decisions/log'',
     ''GET /decisions/log'',
     ''GET /decisions/log/{id}'',
     ''GET /decisions/log/{id}/lineage'',
     ''POST /pq/sign-sphincs'',
     ''POST /pq/verify-sphincs'',
     ''POST /pq/hybrid-sign'',
     ''POST /pq/hybrid-verify'',
     ''POST /auth/siwe/challenge'',
     ''POST /auth/siwe/verify'']"

definition tenant_routes :: "gostring list" where
  "tenant_routes =
    [''GET /admin/tenants'',
     ''POST /admin/tenants'',
     ''POST /admin/tenants/{id}/keys'',
     ''POST /admin/tenants/{id}/keys/revoke'',
     ''GET /admin/tenants/{id}/audit'',
     ''GET /admin/tenants/audit'']"

definition keyring_routes :: "gostring list" where
  "keyring_routes =
    [''POST /v1/pq/keys'',
     ''POST /v1/pq/keys/{algo}/rotate'',
     ''GET /v1/pq/keys'',
     ''GET /v1/pq/keys/{id}'',
     ''POST /v1/pq/keys/sign'',
     ''POST /v1/pq/keys/verify'',
     ''POST /v1/pq/keys/migrate'',
     ''GET /v1/pq/keystore/info'']"

definition nova_routes :: "gostring list" where
  "nova_routes =
    [''POST /v1/aggregation/fold'',
     ''POST /v1/aggregation/verify-fold'']"

definition webhook_routes :: "gostring list" where
  "webhook_routes =
    [''POST /v1/webhooks'',
     ''GET /v1/webhooks'',
     ''DELETE /v1/webhooks/{id}'',
     ''GET /v1/webhooks/dead-letters'',
     ''POST /v1/webhooks/dead-letters/{delivery_id}/replay'']"

definition decision_routes :: "gostring list" where
  "decision_routes =
    [''POST /v1/decision/evaluate'',
     ''GET /v1/decision/pool'']"

definition receipt_routes :: "gostring list" where
  "receipt_routes =
    [''POST /v1/receipts/emit'',
     ''GET /v1/receipts/{id}'',
     ''GET /v1/receipts/{id}/lineage'',
     ''GET /v1/receipts/{id}/w3c-vc'',
     ''GET /v1/receipts/{id}/agent-receipt'']"

definition hitl_routes :: "gostring list" where
  "hitl_routes =
    [''GET /v1/hitl/tickets'',
     ''GET /v1/hitl/tickets/{id}'',
     ''POST /v1/hitl/tickets/{id}/resolve'']"

definition quorum_routes :: "gostring list" where
  "quorum_routes =
    [''POST /v1/quorum/signers'',
     ''GET /v1/quorum/signers'',
     ''POST /v1/quorum/signers/{id}/slash'',
     ''POST /v1/quorum/signers/{id}/retire'',
     ''POST /v1/quorum/verify'',
     ''GET /v1/quorum/threshold'']"

definition merkle_routes :: "gostring list" where
  "merkle_routes =
    [''POST /v1/aggregation/merkle-aggregate'',
     ''POST /v1/aggregation/merkle-inclusion'',
     ''POST /v1/aggregation/merkle-verify'']"

definition tail_routes :: "gostring list" where
  "tail_routes =
    [''GET /v1/openapi.json'',
     ''GET /v1/routes'',
     ''GET /v1/admin/summary'',
     ''GET /metrics'',
     ''GET /v1/metrics'']"

text \<open>The tenant routes are registered when a tenant store is configured.\<close>

definition server_routes :: "bool \<Rightarrow> route list" where
  "server_routes tenants = map parse_pattern (base_routes @ (if tenants then tenant_routes else []) @ keyring_routes @ nova_routes @ webhook_routes @
     decision_routes @ receipt_routes @ hitl_routes @ quorum_routes @ merkle_routes @ tail_routes)"

text \<open>
  \<open>app\<close> is the handler registered for a pattern, on the state of the handlers; \<open>own\<close> is what the
  router answers itself.
\<close>

type_synonym 'a app = "gostring \<Rightarrow> request \<Rightarrow> header \<Rightarrow> 'a \<Rightarrow> http_response \<times> 'a"
type_synonym own = "routed \<Rightarrow> request \<Rightarrow> header \<Rightarrow> http_response"

definition on_app :: "'a app \<Rightarrow> gostring \<Rightarrow> (Tenant, 'a hserver) handler" where
  "on_app app n r h s = (let (rs, x) = app n r h (hs_app s) in (rs, s\<lparr>hs_app := x\<rparr>))"

definition dispatch :: "own \<Rightarrow> 'a app \<Rightarrow> (Tenant, 'a hserver) handler" where
  "dispatch own app r h s = mux_ServeHTTP (server_routes (hs_tenants s \<noteq> None)) own (on_app app) r h s"

definition scopeMW :: "'a mw" where
  "scopeMW next r h s = (if hs_scopes s = None then next r h s
     else scopeMiddleware (server_routes (hs_tenants s \<noteq> None)) next r h s)"

definition serve :: "own \<Rightarrow> 'a app \<Rightarrow> arrival \<Rightarrow> request \<Rightarrow> 'a hserver \<Rightarrow> http_response \<times> 'a hserver" where
  "serve own app a r s =
     v1AliasMiddleware (acceptVersionMiddleware (rateLimitMiddleware a (perKeyRateLimitMiddleware a (corsMiddleware
       (authMiddleware a (scopeMW (idempotencyMiddleware a (dispatch own app)))))))) r Map.empty s"

section \<open>Guards\<close>

text \<open>
  A guard is a middleware that either answers a request itself, without touching the handlers' state
  or the replay store, or passes it on. \<open>adm\<close> is what it requires of the requests it passes on,
  \<open>fwd\<close> how it changes them.
\<close>

definition refused :: "'a mw \<Rightarrow> request \<Rightarrow> header \<Rightarrow> 'a hserver \<Rightarrow> bool" where
  "refused mw r h s \<longleftrightarrow> (\<exists>rs s'. (\<forall>next. mw next r h s = (rs, s')) \<and> rs_Status rs \<in> {204, 401, 403, 406, 429} \<and>
     (rs_Status rs = 204 \<longrightarrow> rq_Method r = ''OPTIONS'') \<and> hs_app s' = hs_app s \<and> hs_idem s' = hs_idem s)"

definition kept :: "request \<Rightarrow> 'a hserver \<Rightarrow> request \<Rightarrow> 'a hserver \<Rightarrow> bool" where
  "kept r s r' s' \<longleftrightarrow> rq_Method r' = rq_Method r \<and> rq_Path r' = rq_Path r \<and> rq_Body r' = rq_Body r \<and>
     (\<forall>n. n \<noteq> ''X-CP-Tenant'' \<longrightarrow> rq_Header r' n = rq_Header r n) \<and>
     hs_app s' = hs_app s \<and> hs_idem s' = hs_idem s \<and> hs_scopes s' = hs_scopes s \<and> hs_apiKey s' = hs_apiKey s \<and>
     (hs_tenants s' = None \<longleftrightarrow> hs_tenants s = None)"

definition passes :: "'a mw \<Rightarrow> (request \<Rightarrow> 'a hserver \<Rightarrow> bool) \<Rightarrow> (request \<Rightarrow> 'a hserver \<Rightarrow> request \<Rightarrow> 'a hserver \<Rightarrow> bool) \<Rightarrow>
    request \<Rightarrow> header \<Rightarrow> 'a hserver \<Rightarrow> bool" where
  "passes mw adm fwd r h s \<longleftrightarrow> (\<exists>r' h' s'. (\<forall>next. mw next r h s = next r' h' s') \<and> fwd r s r' s' \<and> adm r s)"

lemma passesI: "(\<And>next. mw next r h s = next r' h' s') \<Longrightarrow> fwd r s r' s' \<Longrightarrow> adm r s \<Longrightarrow> passes mw adm fwd r h s"
  unfolding passes_def by blast

lemma refusedI:
  "(\<And>next. mw next r h s = (rs, s')) \<Longrightarrow> rs_Status rs \<in> {401, 403, 406, 429} \<Longrightarrow> hs_app s' = hs_app s \<Longrightarrow> hs_idem s' = hs_idem s \<Longrightarrow>
     refused mw r h s"
  unfolding refused_def by (intro exI [of _ rs] exI [of _ s']) auto

lemma status_jsonError [simp]: "rs_Status (jsonError h msg code) = code"
  by (simp add: jsonError_def)

lemma kept_trans: "kept r s r' s' \<Longrightarrow> kept r' s' r'' s'' \<Longrightarrow> kept r s r'' s''"
  by (simp add: kept_def)

locale guard =
  fixes mw :: "'a mw"
    and adm :: "request \<Rightarrow> 'a hserver \<Rightarrow> bool"
    and fwd :: "request \<Rightarrow> 'a hserver \<Rightarrow> request \<Rightarrow> 'a hserver \<Rightarrow> bool"
  assumes guard_cases: "refused mw r h s \<or> passes mw adm fwd r h s"
    and guard_kept: "fwd r s r' s' \<Longrightarrow> kept r s r' s'"
begin

text \<open>Two guards in a row are a guard, when what the second requires can be read before the first.\<close>

lemma then_guard:
  assumes "guard mw2 adm2 fwd2" and stable: "\<And>r s r' s'. fwd r s r' s' \<Longrightarrow> adm2 r' s' \<Longrightarrow> adm2 r s"
  shows "guard (\<lambda>next. mw (mw2 next)) (\<lambda>r s. adm r s \<and> adm2 r s) (\<lambda>r s r'' s''. \<exists>r' s'. fwd r s r' s' \<and> fwd2 r' s' r'' s'')"
proof
  fix r h s
  let ?mw = "\<lambda>next. mw (mw2 next)"
  show "refused ?mw r h s \<or> passes ?mw (\<lambda>r s. adm r s \<and> adm2 r s) (\<lambda>r s r'' s''. \<exists>r' s'. fwd r s r' s' \<and> fwd2 r' s' r'' s'') r h s"
  proof (cases "refused mw r h s")
    case True
    then have "refused ?mw r h s" unfolding refused_def by blast
    then show ?thesis ..
  next
    case False
    with guard_cases obtain r' h' s' where 1: "\<And>next. mw next r h s = next r' h' s'" "fwd r s r' s'" "adm r s"
      unfolding passes_def by blast
    show ?thesis
    proof (cases "refused mw2 r' h' s'")
      case True
      then have "refused ?mw r h s" using guard_kept [OF 1(2)] by (simp add: refused_def 1(1) kept_def)
      then show ?thesis ..
    next
      case False
      with guard.guard_cases [OF assms(1)] obtain r'' h'' s'' where
        2: "\<And>next. mw2 next r' h' s' = next r'' h'' s''" "fwd2 r' s' r'' s''" "adm2 r' s'" unfolding passes_def by blast
      have "passes ?mw (\<lambda>r s. adm r s \<and> adm2 r s) (\<lambda>r s r'' s''. \<exists>r' s'. fwd r s r' s' \<and> fwd2 r' s' r'' s'') r h s"
        by (rule passesI [of _ _ _ _ r'' h'' s'']) (use 1 2 stable in auto)
      then show ?thesis ..
    qed
  qed
next
  fix r s r'' s''
  assume "\<exists>r' s'. fwd r s r' s' \<and> fwd2 r' s' r'' s''"
  then show "kept r s r'' s''" using guard_kept guard.guard_kept [OF assms(1)] kept_trans by blast
qed

end

text \<open>The requirements of the single guards.\<close>

definition api_key :: "request \<Rightarrow> gostring" where
  "api_key r = Get (rq_Header r) ''X-API-Key''"

definition within_ip_limit :: "arrival \<Rightarrow> request \<Rightarrow> 'a hserver \<Rightarrow> bool" where
  "within_ip_limit a r s \<longleftrightarrow> fst (rl_request (ar_rl a) (client_ip (rq_RemoteAddr r)) (hs_rl s))"

definition within_key_limit :: "arrival \<Rightarrow> request \<Rightarrow> 'a hserver \<Rightarrow> bool" where
  "within_key_limit a r s \<longleftrightarrow> api_key r = [] \<or> fst (key_allow (ar_rnd a) (ar_key a) (api_key r) (hs_keyRL s))"

definition authorised :: "arrival \<Rightarrow> request \<Rightarrow> 'a hserver \<Rightarrow> bool" where
  "authorised a r s \<longleftrightarrow> rq_Method r = ''GET'' \<or> rq_Method r = ''HEAD'' \<or>
     (case hs_tenants s of
        None \<Rightarrow> hs_apiKey s = [] \<or> api_key r = hs_apiKey s
      | Some ts \<Rightarrow> (case Resolve (ar_tenants a) ts (api_key r) of
                    None \<Rightarrow> False | Some t \<Rightarrow> Allowed (fst (CheckRate (ar_rate a) ts (tn_ID t)))))"

definition in_scope :: "request \<Rightarrow> 'a hserver \<Rightarrow> bool" where
  "in_scope r s \<longleftrightarrow>
     (\<forall>reg entry required. hs_scopes s = Some reg \<longrightarrow> lookup_scoped reg (TrimSpace (api_key r)) = Some entry \<longrightarrow>
        routeScopes (TrimSpace (snd (mux_Handler (server_routes (hs_tenants s \<noteq> None)) (rq_Method r) (rq_Path r)))) = Some required \<longrightarrow>
        hasScope (sk_Scopes entry) required)"

lemma guard_accept: "guard acceptVersionMiddleware (\<lambda>r s. True) (\<lambda>r s r' s'. r' = r \<and> s' = s)"
proof
  fix r :: request and h and s :: "'a hserver"
  show "refused acceptVersionMiddleware r h s \<or> passes acceptVersionMiddleware (\<lambda>r s. True) (\<lambda>r s r' s'. r' = r \<and> s' = s) r h s"
  proof (cases "fst (negotiateVersion (Get (rq_Header r) ''Accept'')) = []")
    case True
    then show ?thesis by (intro disjI1 refusedI) (auto simp: acceptVersionMiddleware_def split: prod.splits)
  next
    case False
    then show ?thesis
      by (intro disjI2 passesI [of _ r h s r "stamp_version (fst (negotiateVersion (Get (rq_Header r) ''Accept''))) h" s])
        (auto simp: acceptVersionMiddleware_def split: prod.splits)
  qed
qed (auto simp: kept_def)

lemma guard_rate:
  "guard (rateLimitMiddleware a) (within_ip_limit a) (\<lambda>r s r' s'. \<exists>n cl. r' = r\<lparr>rq_MaxBytes := n\<rparr> \<and> s' = s\<lparr>hs_rl := cl\<rparr>)"
proof
  fix r :: request and h and s :: "'a hserver"
  obtain ok cl where q: "rl_request (ar_rl a) (client_ip (rq_RemoteAddr r)) (hs_rl s) = (ok, cl)" by fastforce
  let ?r = "if rq_Method r = ''POST'' then r\<lparr>rq_MaxBytes := Some (2 ^ 20)\<rparr> else r"
  show "refused (rateLimitMiddleware a) r h s \<or>
      passes (rateLimitMiddleware a) (within_ip_limit a) (\<lambda>r s r' s'. \<exists>n cl. r' = r\<lparr>rq_MaxBytes := n\<rparr> \<and> s' = s\<lparr>hs_rl := cl\<rparr>) r h s"
  proof (cases ok)
    case True
    then show ?thesis using q
      by (intro disjI2 passesI [of _ r h s ?r h "s\<lparr>hs_rl := cl\<rparr>"] exI [of _ "rq_MaxBytes ?r"] exI [of _ cl] conjI refl)
        (auto simp: rateLimitMiddleware_def within_ip_limit_def)
  qed (use q in \<open>auto intro: refusedI simp: rateLimitMiddleware_def\<close>)
qed (auto simp: kept_def)

lemma guard_key:
  "guard (perKeyRateLimitMiddleware a) (within_key_limit a) (\<lambda>r s r' s'. \<exists>l. r' = r \<and> s' = s\<lparr>hs_keyRL := l\<rparr>)"
proof
  fix r :: request and h and s :: "'a hserver"
  obtain ok l where q: "key_allow (ar_rnd a) (ar_key a) (api_key r) (hs_keyRL s) = (ok, l)" by fastforce
  show "refused (perKeyRateLimitMiddleware a) r h s \<or>
      passes (perKeyRateLimitMiddleware a) (within_key_limit a) (\<lambda>r s r' s'. \<exists>l. r' = r \<and> s' = s\<lparr>hs_keyRL := l\<rparr>) r h s"
  proof (cases "api_key r = []")
    case True
    then show ?thesis
      by (intro disjI2 passesI [of _ r h s r h s] exI [of _ "hs_keyRL s"])
        (simp_all add: perKeyRateLimitMiddleware_def within_key_limit_def api_key_def)
  qed (use q in \<open>cases ok, auto intro: refusedI passesI simp: perKeyRateLimitMiddleware_def within_key_limit_def api_key_def\<close>)
qed (auto simp: kept_def)

lemma guard_cors: "guard corsMiddleware (\<lambda>r s. rq_Method r \<noteq> ''OPTIONS'') (\<lambda>r s r' s'. r' = r \<and> s' = s)"
proof
  fix r :: request and h and s :: "'a hserver"
  show "refused corsMiddleware r h s \<or> passes corsMiddleware (\<lambda>r s. rq_Method r \<noteq> ''OPTIONS'') (\<lambda>r s r' s'. r' = r \<and> s' = s) r h s"
    by (cases "rq_Method r = ''OPTIONS''") (auto intro: passesI simp: corsMiddleware_def refused_def)
qed (auto simp: kept_def)

lemma guard_auth:
  "guard (authMiddleware a) (authorised a) (\<lambda>r s r' s'. \<exists>t ts. r' = r\<lparr>rq_Tenant := t\<rparr> \<and> s' = s\<lparr>hs_tenants := ts\<rparr> \<and> (ts = None \<longleftrightarrow> hs_tenants s = None))"
  (is "guard ?mw ?adm ?fwd")
proof
  fix r :: request and h and s :: "'a hserver"
  have id: "?fwd r s r s" by (intro exI [of _ "rq_Tenant r"] exI [of _ "hs_tenants s"]) simp
  show "refused ?mw r h s \<or> passes ?mw ?adm ?fwd r h s"
  proof (cases "hs_tenants s")
    case None
    consider "?adm r s" | "\<not> ?adm r s" by blast
    then show ?thesis
    proof cases
      case 1
      then show ?thesis using None id
        by (intro disjI2 passesI [of _ r h s r h s]) (auto simp: authMiddleware_def authorised_def api_key_def Let_def)
    qed (use None in \<open>auto intro: refusedI simp: authMiddleware_def authorised_def api_key_def\<close>)
  next
    case (Some ts)
    consider "rq_Method r = ''GET'' \<or> rq_Method r = ''HEAD''" | "\<not> (rq_Method r = ''GET'' \<or> rq_Method r = ''HEAD'')" by blast
    then show ?thesis
    proof cases
      case 1
      then show ?thesis using id Some
        by (intro disjI2 passesI [of _ r h s r h s]) (auto simp: authMiddleware_def authorised_def)
    next
      case 2
      show ?thesis
      proof (cases "Resolve (ar_tenants a) ts (api_key r)")
        case None
        then show ?thesis using 2 Some by (auto intro: refusedI simp: authMiddleware_def api_key_def)
      next
        case t: (Some t)
        obtain d ts' where "CheckRate (ar_rate a) ts (tn_ID t) = (d, ts')" by fastforce
        note c = this t [unfolded api_key_def]
        let ?s = "s\<lparr>hs_tenants := Some (Log (ar_log a) (audit_event (tn_ID t) AuditAuthAccepted (''method='' @ rq_Method r @ '' path='' @ rq_Path r)) ts')\<rparr>"
        show ?thesis
        proof (cases "Allowed d")
          case True
          have "authMiddleware a next r h s = next (r\<lparr>rq_Tenant := Some t\<rparr>) h ?s" for "next" :: "(Tenant, 'a hserver) handler"
            using 2 Some c True by (simp add: authMiddleware_def)
          then show ?thesis
            by (intro disjI2 passesI [of _ r h s "r\<lparr>rq_Tenant := Some t\<rparr>" h ?s]) (use 2 Some c True t in \<open>auto simp: authorised_def\<close>)
        qed (use 2 Some c in \<open>auto intro: refusedI simp: authMiddleware_def\<close>)
      qed
    qed
  qed
qed (auto simp: kept_def)

lemma guard_scope:
  "guard scopeMW in_scope (\<lambda>r s r' s'. (\<exists>hd. r' = r\<lparr>rq_Header := hd\<rparr> \<and> (\<forall>n. n \<noteq> ''X-CP-Tenant'' \<longrightarrow> hd n = rq_Header r n)) \<and> s' = s)"
  (is "guard ?mw ?adm ?fwd")
proof
  fix r :: request and h and s :: "'a hserver"
  have id: "?fwd r s r s" by (simp, intro exI [of _ "rq_Header r"]) simp
  let ?pat = "TrimSpace (snd (mux_Handler (server_routes (hs_tenants s \<noteq> None)) (rq_Method r) (rq_Path r)))"
  show "refused ?mw r h s \<or> passes ?mw ?adm ?fwd r h s"
  proof (cases "hs_scopes s = None \<or> routeScopes ?pat = None")
    case True
    then show ?thesis using id
      by (intro disjI2 passesI [of _ r h s r h s]) (auto simp: scopeMW_def scopeMiddleware_def in_scope_def Let_def)
  next
    case False
    then have "hs_scopes s \<noteq> None" "routeScopes ?pat \<noteq> None" by simp_all
    then obtain reg q where q: "hs_scopes s = Some reg" "routeScopes ?pat = Some q" unfolding not_None_eq by blast
    have "routeScopes [] = None" by (simp add: routeScopes_def)
    with q(2) have ne: "?pat \<noteq> []" "q \<noteq> []" using routeScopes_nonempty by auto
    show ?thesis
    proof (cases "lookup_scoped reg (TrimSpace (api_key r))")
      case None
      then show ?thesis using id q ne
        by (intro disjI2 passesI [of _ r h s r h s])
          (auto simp: scopeMW_def scopeMiddleware_def in_scope_def enforceScope_def api_key_def Let_def)
    next
      case (Some entry)
      note e = q ne Some [unfolded api_key_def]
      show ?thesis
      proof (cases "hasScope (sk_Scopes entry) q")
        case True
        let ?r = "r\<lparr>rq_Header := (rq_Header r)(''X-CP-Tenant'' \<mapsto> sk_TenantID entry)\<rparr>"
        have "?fwd r s ?r s" by (simp, intro exI) auto
        then show ?thesis using e True
          by (intro disjI2 passesI [of _ r h s ?r h s])
            (auto simp: scopeMW_def scopeMiddleware_def in_scope_def enforceScope_def api_key_def Let_def)
      next
        case False
        then show ?thesis using e
          by (intro disjI1 refusedI [of _ r h s "jsonError h (''forbidden: missing scope '' @ q) 403" s])
            (auto simp: scopeMW_def scopeMiddleware_def enforceScope_def Let_def)
      qed
    qed
  qed
qed (auto simp: kept_def)

section \<open>Admission\<close>

definition guards :: "arrival \<Rightarrow> 'a mw" where
  "guards a next =
     acceptVersionMiddleware (rateLimitMiddleware a (perKeyRateLimitMiddleware a (corsMiddleware (authMiddleware a (scopeMW next)))))"

definition admitted :: "arrival \<Rightarrow> request \<Rightarrow> 'a hserver \<Rightarrow> bool" where
  "admitted a r s \<longleftrightarrow> rq_Method r \<noteq> ''OPTIONS'' \<and> within_ip_limit a r s \<and> within_key_limit a r s \<and> authorised a r s \<and> in_scope r s"

lemma guard_weaken:
  assumes "guard mw adm fwd" "\<And>r s. adm r s \<Longrightarrow> adm' r s"
  shows "guard mw adm' kept"
proof
  fix r h s
  show "refused mw r h s \<or> passes mw adm' kept r h s"
    using guard.guard_cases [OF assms(1), of r h s] guard.guard_kept [OF assms(1)] assms(2) unfolding passes_def by blast
qed

lemma guard_then:
  assumes "guard mw adm fwd" "guard mw2 adm2 kept" "\<And>r s r' s'. fwd r s r' s' \<Longrightarrow> adm2 r' s' \<Longrightarrow> adm2 r s"
  shows "guard (\<lambda>next. mw (mw2 next)) (\<lambda>r s. adm r s \<and> adm2 r s) kept"
  using guard_weaken [OF guard.then_guard [OF assms]] by simp

lemma guard_chain: "guard (guards a) (admitted a) kept"
proof -
  note requirement_defs = within_ip_limit_def within_key_limit_def authorised_def in_scope_def api_key_def
  note 1 = guard_weaken [OF guard_scope, of in_scope, simplified]
  have 2: "guard (\<lambda>n. authMiddleware a (scopeMW n)) (\<lambda>r s. authorised a r s \<and> in_scope r s) kept"
    by (rule guard_then [OF guard_auth 1]) (auto simp: requirement_defs split: option.splits)
  have 3: "guard (\<lambda>n. corsMiddleware (authMiddleware a (scopeMW n)))
      (\<lambda>r s. rq_Method r \<noteq> ''OPTIONS'' \<and> authorised a r s \<and> in_scope r s) kept"
    by (rule guard_then [OF guard_cors 2]) (auto simp: requirement_defs split: option.splits)
  have 4: "guard (\<lambda>n. perKeyRateLimitMiddleware a (corsMiddleware (authMiddleware a (scopeMW n))))
      (\<lambda>r s. within_key_limit a r s \<and> rq_Method r \<noteq> ''OPTIONS'' \<and> authorised a r s \<and> in_scope r s) kept"
    by (rule guard_then [OF guard_key 3]) (auto simp: requirement_defs split: option.splits)
  have 5: "guard (\<lambda>n. rateLimitMiddleware a (perKeyRateLimitMiddleware a (corsMiddleware (authMiddleware a (scopeMW n)))))
      (\<lambda>r s. within_ip_limit a r s \<and> within_key_limit a r s \<and> rq_Method r \<noteq> ''OPTIONS'' \<and> authorised a r s \<and> in_scope r s) kept"
    by (rule guard_then [OF guard_rate 4]) (auto simp: requirement_defs split: option.splits)
  show ?thesis
    unfolding guards_def [abs_def]
    by (rule guard_weaken, rule guard_then [OF guard_accept 5]) (auto simp: admitted_def)
qed

interpretation gates: guard "guards a" "admitted a" kept for a
  by (rule guard_chain)

text \<open>A request as it is routed.\<close>

definition routed_request :: "request \<Rightarrow> request" where
  "routed_request r = r\<lparr>rq_Path := v1_path (rq_Path r)\<rparr>"

lemma routed_request_simps [simp]:
  "api_key (r\<lparr>rq_Path := p\<rparr>) = api_key r" "within_ip_limit a (r\<lparr>rq_Path := p\<rparr>) s = within_ip_limit a r s"
  "within_key_limit a (r\<lparr>rq_Path := p\<rparr>) s = within_key_limit a r s" "authorised a (r\<lparr>rq_Path := p\<rparr>) s = authorised a r s"
  by (simp_all add: api_key_def within_ip_limit_def within_key_limit_def authorised_def cong: option.case_cong)

lemma serve_guards: "\<exists>h. serve own app a r s = guards a (idempotencyMiddleware a (dispatch own app)) (routed_request r) h s"
  unfolding serve_def v1AliasMiddleware_def guards_def routed_request_def Let_def by (simp add: v1_path_def) blast

lemma serve_cases:
  obtains rs s' where "serve own app a r s = (rs, s')" "rs_Status rs \<in> {204, 401, 403, 406, 429}"
      "rs_Status rs = 204 \<longrightarrow> rq_Method r = ''OPTIONS''" "hs_app s' = hs_app s" "hs_idem s' = hs_idem s"
  | r' h s1 where "serve own app a r s = idempotencyMiddleware a (dispatch own app) r' h s1"
      "kept (routed_request r) s r' s1" "admitted a (routed_request r) s"
proof -
  obtain h where h: "serve own app a r s = guards a (idempotencyMiddleware a (dispatch own app)) (routed_request r) h s"
    using serve_guards by blast
  from gates.guard_cases [of a "routed_request r" h s] show thesis
  proof
    assume "refused (guards a) (routed_request r) h s"
    then show thesis using that(1) by (auto simp: refused_def h routed_request_def)
  next
    assume "passes (guards a) (admitted a) kept (routed_request r) h s"
    then show thesis using that(2) by (auto simp: passes_def h)
  qed
qed

lemma dispatch_app:
  "dispatch own app r h s = (rs, s') \<Longrightarrow> s' = s\<lparr>hs_app := hs_app s'\<rparr> \<and>
     (hs_app s' \<noteq> hs_app s \<longrightarrow> (\<exists>n. fst (mux_Handler (server_routes (hs_tenants s \<noteq> None)) (rq_Method r) (rq_Path r)) = Serve n))"
  by (auto simp: dispatch_def mux_ServeHTTP_def on_app_def split: routed.splits prod.splits)

lemma idem_runs:
  assumes "idempotencyMiddleware a next r h s = (rs, s')" "hs_app s' \<noteq> hs_app s"
  shows "\<exists>r' s1. rq_Method r' = rq_Method r \<and> rq_Path r' = rq_Path r \<and> hs_tenants s1 = hs_tenants s \<and> hs_app s1 = hs_app s \<and>
    hs_app (snd (next r' h s1)) = hs_app s'"
proof (cases "\<not> isMutating (rq_Method r) \<or> Get (rq_Header r) idempotencyHeader = []")
  case True
  with assms show ?thesis by (intro exI [of _ r] exI [of _ s]) (auto simp: idempotencyMiddleware_def Let_def split: if_splits)
next
  case False
  with assms obtain body where b: "ReadAll r = Some body" by (cases "ReadAll r") (auto simp: idempotencyMiddleware_def)
  obtain entry m where m: "idem_begin (ar_sweep a) (Get (rq_Header r) idempotencyHeader) (hs_idem s) = (entry, m)" by fastforce
  show ?thesis using False assms b m
    by (intro exI [of _ "r\<lparr>rq_Body := Some body, rq_MaxBytes := None\<rparr>"] exI [of _ "s\<lparr>hs_idem := m\<rparr>"])
      (auto simp: idempotencyMiddleware_def Let_def split: option.splits prod.splits if_splits)
qed

text \<open>
  C11: a request changes the state of the handlers only when it is admitted: it is no preflight request, its
  address and its API key are within their rates, it only reads or carries the configured API key (in tenant
  mode, the key of a tenant that is within its rate), a scoped key holds the scope of the route, and the router
  knows the path.
\<close>

theorem admission:
  assumes "serve own app a r s = (rs, s')" "hs_app s' \<noteq> hs_app s"
  shows "rq_Method r \<noteq> ''OPTIONS'' \<and> within_ip_limit a r s \<and> within_key_limit a r s \<and> authorised a r s \<and>
    in_scope (r\<lparr>rq_Path := v1_path (rq_Path r)\<rparr>) s \<and>
    (\<exists>n. fst (mux_Handler (server_routes (hs_tenants s \<noteq> None)) (rq_Method r) (v1_path (rq_Path r))) = Serve n)"
proof (rule serve_cases [of own app a r s])
  fix r' h s1
  assume e: "serve own app a r s = idempotencyMiddleware a (dispatch own app) r' h s1"
    and k: "kept (routed_request r) s r' s1" and adm: "admitted a (routed_request r) s"
  have "hs_app s' \<noteq> hs_app s1" using assms(2) k by (simp add: kept_def)
  from idem_runs [OF e [symmetric, unfolded assms(1)] this] obtain r'' s2 where
    2: "rq_Method r'' = rq_Method r'" "rq_Path r'' = rq_Path r'" "hs_tenants s2 = hs_tenants s1" "hs_app s2 = hs_app s1"
      "hs_app (snd (dispatch own app r'' h s2)) = hs_app s'" by blast
  have "\<exists>n. fst (mux_Handler (server_routes (hs_tenants s2 \<noteq> None)) (rq_Method r'') (rq_Path r'')) = Serve n"
    using dispatch_app [of own app r'' h s2] 2(4,5) \<open>hs_app s' \<noteq> hs_app s1\<close> by (metis prod.collapse)
  moreover have "(hs_tenants s2 \<noteq> None) = (hs_tenants s \<noteq> None)" "rq_Method r'' = rq_Method r" "rq_Path r'' = v1_path (rq_Path r)"
    using k 2(1-3) by (simp_all add: kept_def routed_request_def)
  ultimately show ?thesis using adm by (simp only: admitted_def routed_request_def routed_request_simps simp_thms) simp
qed (use assms in simp_all)

section \<open>Routing under the version prefix\<close>

text \<open>
  The prefix is stripped before routing, while the newer routes are registered with it: they are not
  found under their own address, only under a doubled prefix.
\<close>

definition starts_with :: "gostring \<Rightarrow> segment list \<Rightarrow> bool" where
  "starts_with s ps = (case ps of [] \<Rightarrow> False | Lit l # _ \<Rightarrow> l = s | Wild # _ \<Rightarrow> True)"

lemma match_segments_nothing [simp]: "match_segments ss [] = None"
  by (induction ss) (simp_all add: List.map_filter_def)

lemma match_segments_None:
  assumes "list_all (\<lambda>(ps, n). \<not> starts_with s ps) rs"
  shows "match_segments (s # ss) rs = None"
proof -
  have "List.map_filter (\<lambda>(ps, n). case ps of Lit l # ps' \<Rightarrow> if l = s then Some (ps', n) else None | _ \<Rightarrow> None) rs = []"
    "List.map_filter (\<lambda>(ps, n). case ps of Wild # ps' \<Rightarrow> Some (ps', n) | _ \<Rightarrow> None) rs = []"
    using assms by (induction rs) (auto simp: List.map_filter_def starts_with_def split: list.splits segment.splits)
  then show ?thesis by simp
qed

lemma mux_match_None:
  assumes "list_all (\<lambda>r. \<not> starts_with s (rt_Segments r)) rs" "tl (Split CHR ''/'' p) = s # ss"
  shows "mux_match rs m p = None"
proof -
  have "match_method rs m' (s # ss) = None" for m'
    unfolding match_method_def by (rule match_segments_None) (use assms(1) in \<open>auto simp: list_all_iff\<close>)
  then show ?thesis by (simp add: mux_match_def assms(2))
qed

lemma v1_decision_not_found: "mux_Handler (server_routes False) m (v1_path ''/v1/decision/evaluate'') = (NotFound, [])"
proof -
  have "list_all (\<lambda>r. \<not> starts_with ''decision'' (rt_Segments r)) (server_routes False)" by code_simp
  moreover have "tl (Split CHR ''/'' ''/decision/evaluate'') = ''decision'' # [''evaluate'']" by simp
  ultimately have n: "mux_match (server_routes False) m' ''/decision/evaluate'' = None" for m' by (rule mux_match_None)
  have "v1_path ''/v1/decision/evaluate'' = ''/decision/evaluate''" "cleanPath ''/decision/evaluate'' = ''/decision/evaluate''"
    by code_simp+
  then show ?thesis by (simp add: mux_Handler_def n list_ex_iff)
qed

lemma v1_v1_decision_served:
  "mux_Handler (server_routes False) ''POST'' (v1_path ''/v1/v1/decision/evaluate'') = (Serve ''POST /v1/decision/evaluate'', ''POST /v1/decision/evaluate'')"
proof -
  have "v1_path ''/v1/v1/decision/evaluate'' = ''/v1/decision/evaluate''" "cleanPath ''/v1/decision/evaluate'' = ''/v1/decision/evaluate''"
    by code_simp+
  moreover have "mux_match (server_routes False) ''POST'' ''/v1/decision/evaluate'' = Some ''POST /v1/decision/evaluate''" by code_simp
  ultimately show ?thesis by (simp add: mux_Handler_def Let_def)
qed

lemma v1_proofs_served: "mux_Handler (server_routes False) ''POST'' (v1_path ''/v1/proofs'') = (Serve ''POST /proofs'', ''POST /proofs'')"
proof -
  have "v1_path ''/v1/proofs'' = ''/proofs''" "cleanPath ''/proofs'' = ''/proofs''"
    by code_simp+
  moreover have "mux_match (server_routes False) ''POST'' ''/proofs'' = Some ''POST /proofs''" by code_simp
  ultimately show ?thesis by (simp add: mux_Handler_def Let_def)
qed

text \<open>
  A key that is registered with scopes but is not the configured API key is refused on every request that
  writes, before its scopes are looked at.
\<close>

lemma scoped_key_cannot_write:
  assumes "hs_tenants s = None" "hs_apiKey s \<noteq> []" "api_key r \<noteq> hs_apiKey s" "rq_Method r \<noteq> ''GET''" "rq_Method r \<noteq> ''HEAD''"
  shows "authMiddleware a next r h s = (jsonError h ''missing or invalid X-API-Key'' 401, s)"
  using assms by (simp add: authMiddleware_def api_key_def)

text \<open>Routes without an entry in the table are open to every scoped key, the batch form of the verification among them.\<close>

lemma batch_verify_unscoped: "routeScopes ''POST /verify/batch'' = None" "routeScopes ''POST /v1/quorum/signers'' = None"
  by (simp_all add: routeScopes_def)

text \<open>
  A key without an entry is not reserved: a second request with the same key that arrives before the first one
  has been answered finds no entry either, and both run the handler.
\<close>

lemma concurrent_requests_both_run:
  assumes "idem_begin t k m = (None, m1)" "idem_begin t' k m1 = (e, m2)"
  shows "e = None"
  using assms by (auto simp: idem_begin_def sweepExpiredLocked_def Let_def split: option.splits if_splits)

section \<open>Retries\<close>

definition idem_key :: "request \<Rightarrow> gostring" where
  "idem_key r = Get (rq_Header r) idempotencyHeader"

lemma dispatch_idem: "hs_idem (snd (dispatch own app r h s)) = hs_idem s"
  using dispatch_app [of own app r h s "fst (dispatch own app r h s)" "snd (dispatch own app r h s)"]
  by (metis hserver.select_convs(6) hserver.surjective hserver.update_convs(7) prod.collapse)

text \<open>The cases of a request with a key: an unreadable body, a known key, and a new one.\<close>

lemma idem_unread:
  "isMutating (rq_Method r) \<Longrightarrow> idem_key r \<noteq> [] \<Longrightarrow> ReadAll r = None \<Longrightarrow>
     idempotencyMiddleware a next r h s = (jsonError h ''read body'' 400, s)"
  by (simp add: idempotencyMiddleware_def idem_key_def)

lemma idem_known:
  assumes "isMutating (rq_Method r)" "idem_key r \<noteq> []" "ReadAll r = Some b"
    and "hs_idem s (idem_key r) = Some e" "ar_sweep a \<le> ie_expiresAt e"
  shows "idempotencyMiddleware a next r h s =
    (if ie_requestHash e \<noteq> hashReq (rq_Method r) (rq_Path r) b
     then jsonError h ''idempotency-key reused with different payload'' 409 else replay_entry e h,
     s\<lparr>hs_idem := sweepExpiredLocked (ar_sweep a) (hs_idem s)\<rparr>)"
proof -
  have "sweepExpiredLocked (ar_sweep a) (hs_idem s) (idem_key r) = Some e" using assms(4,5) by (simp add: expired_Some)
  with assms(1-3) show ?thesis by (simp add: idempotencyMiddleware_def idem_begin_def idem_key_def Let_def)
qed

lemma idem_new:
  assumes "isMutating (rq_Method r)" "idem_key r \<noteq> []" "ReadAll r = Some b"
    and "sweepExpiredLocked (ar_sweep a) (hs_idem s) (idem_key r) = None"
    and "next (r\<lparr>rq_Body := Some b, rq_MaxBytes := None\<rparr>) h (s\<lparr>hs_idem := sweepExpiredLocked (ar_sweep a) (hs_idem s)\<rparr>) = (rs, s1)"
  shows "idempotencyMiddleware a next r h s =
    (rs, if 200 \<le> rs_Status rs \<and> rs_Status rs < 300
         then s1\<lparr>hs_idem := idem_commit (ar_store a) (ar_idem a) (idem_key r) (hashReq (rq_Method r) (rq_Path r) b) rs (hs_idem s1)\<rparr> else s1)"
  using assms by (simp add: idempotencyMiddleware_def idem_begin_def idem_key_def Let_def)

lemma dom_sweep: "finite (dom m) \<Longrightarrow> finite (dom (sweepExpiredLocked t m)) \<and> card (dom (sweepExpiredLocked t m)) \<le> card (dom m)"
  using map_le_implies_dom_le [OF sweep_le] finite_subset card_mono by metis

text \<open>An entry stays until it expires while the store is not full, and a request adds at most one entry.\<close>

definition holds_entry :: "nat \<Rightarrow> gostring \<Rightarrow> idempotencyEntry \<Rightarrow> 'a hserver \<Rightarrow> bool" where
  "holds_entry n k e s \<longleftrightarrow> hs_idem s k = Some e \<and> finite (dom (hs_idem s)) \<and> card (dom (hs_idem s)) \<le> n"

lemma holds_entry_sweep: "holds_entry n k e s \<Longrightarrow> t \<le> ie_expiresAt e \<Longrightarrow> holds_entry n k e (s\<lparr>hs_idem := sweepExpiredLocked t (hs_idem s)\<rparr>)"
  using dom_sweep [of "hs_idem s" t] by (auto simp: holds_entry_def expired_Some)

lemma holds_entry_commit:
  assumes "holds_entry n k e s" "n < idempotencyMax" "key \<noteq> k"
  shows "holds_entry (Suc n) k e (s\<lparr>hs_idem := idem_commit t ks key hash rs (hs_idem s)\<rparr>)"
  using assms by (auto simp: holds_entry_def idem_commit_def Let_def card_insert_if)

lemma holds_entry_idem:
  assumes "holds_entry n k e s" "n < idempotencyMax" "ar_sweep a \<le> ie_expiresAt e"
  shows "holds_entry (Suc n) k e (snd (idempotencyMiddleware a (dispatch own app) r h s))"
proof -
  let ?s = "s\<lparr>hs_idem := sweepExpiredLocked (ar_sweep a) (hs_idem s)\<rparr>"
  have sw: "holds_entry n k e ?s" by (rule holds_entry_sweep [OF assms(1,3)])
  have weak: "holds_entry n k e t \<Longrightarrow> holds_entry (Suc n) k e t" for t :: "'a hserver" by (simp add: holds_entry_def)
  show ?thesis
  proof (cases "isMutating (rq_Method r) \<and> idem_key r \<noteq> []")
    case False
    then have "idempotencyMiddleware a (dispatch own app) r h s = dispatch own app r h s"
      by (auto simp: idempotencyMiddleware_def idem_key_def Let_def)
    then show ?thesis using weak [OF assms(1)] by (simp add: holds_entry_def dispatch_idem)
  next
    case mutating: True
    show ?thesis
    proof (cases "ReadAll r")
      case None
      then show ?thesis using idem_unread mutating weak [OF assms(1)] by (metis snd_conv)
    next
      case (Some b)
      show ?thesis
      proof (cases "sweepExpiredLocked (ar_sweep a) (hs_idem s) (idem_key r)")
        case None
        obtain rs s1 where d: "dispatch own app (r\<lparr>rq_Body := Some b, rq_MaxBytes := None\<rparr>) h ?s = (rs, s1)" by fastforce
        have "hs_idem s1 = hs_idem ?s" by (metis dispatch_idem d snd_conv)
        then have s1: "holds_entry n k e s1" using sw by (simp only: holds_entry_def)
        have "idem_key r \<noteq> k" using None sw by (auto simp: holds_entry_def)
        with s1 weak [OF s1] holds_entry_commit [OF s1 assms(2)] idem_new [of r b a s "dispatch own app" h rs s1, OF _ _ Some None d] mutating show ?thesis by simp
      next
        case e': (Some e')
        then show ?thesis using idem_known [of r b s e' a] mutating Some weak [OF sw] by (simp add: expired_Some)
      qed
    qed
  qed
qed

lemma holds_entry_serve:
  assumes "holds_entry n k e s" "n < idempotencyMax" "ar_sweep a \<le> ie_expiresAt e"
  shows "holds_entry (Suc n) k e (snd (serve own app a r s))"
proof (rule serve_cases [of own app a r s])
  fix rs s' assume "serve own app a r s = (rs, s')" "hs_idem s' = hs_idem s"
  then show ?thesis using assms(1) by (simp add: holds_entry_def)
next
  fix r' h s1
  assume e: "serve own app a r s = idempotencyMiddleware a (dispatch own app) r' h s1" and "kept (routed_request r) s r' s1"
  then have "holds_entry n k e s1" using assms(1) by (simp add: holds_entry_def kept_def)
  then show ?thesis unfolding e by (rule holds_entry_idem [OF _ assms(2,3)])
qed

fun serve_all :: "own \<Rightarrow> 'a app \<Rightarrow> (arrival \<times> request) list \<Rightarrow> 'a hserver \<Rightarrow> 'a hserver" where
  "serve_all own app [] s = s"
| "serve_all own app ((a, r) # xs) s = serve_all own app xs (snd (serve own app a r s))"

lemma holds_entry_serve_all:
  "holds_entry n k e s \<Longrightarrow> n + length xs \<le> idempotencyMax \<Longrightarrow> list_all (\<lambda>(a, r). ar_sweep a \<le> ie_expiresAt e) xs \<Longrightarrow>
     holds_entry (n + length xs) k e (serve_all own app xs s)"
proof (induction xs arbitrary: n s)
  case (Cons x xs)
  obtain a r where x: "x = (a, r)" by fastforce
  have "holds_entry (Suc n) k e (snd (serve own app a r s))" by (rule holds_entry_serve) (use Cons.prems x in simp_all)
  with Cons x show ?case by fastforce
qed simp

lemma serve_stores:
  assumes "serve own app a r s = (rs, s1)" "isMutating (rq_Method r)" "idem_key r = k" "k \<noteq> []" "hs_idem s k = None"
    and "finite (dom (hs_idem s))" "card (dom (hs_idem s)) < n" "n \<le> idempotencyMax" "200 \<le> rs_Status rs" "rs_Status rs < 300"
  shows "\<exists>b e. rq_Body r = Some b \<and> holds_entry n k e s1 \<and> ie_status e = rs_Status rs \<and> ie_body e = rs_Body rs \<and>
    ie_expiresAt e = ar_store a + idempotencyTTL \<and> ie_requestHash e = hashReq (rq_Method r) (v1_path (rq_Path r)) b"
proof (rule serve_cases [of own app a r s])
  fix rs' s' assume "serve own app a r s = (rs', s')" "rs_Status rs' \<in> {204, 401, 403, 406, 429}" "rs_Status rs' = 204 \<longrightarrow> rq_Method r = ''OPTIONS''"
  then show ?thesis using assms(1,2,9,10) by (auto simp: isMutating_def)
next
  fix r' h s0
  assume e: "serve own app a r s = idempotencyMiddleware a (dispatch own app) r' h s0" and kept: "kept (routed_request r) s r' s0"
  then have r': "rq_Method r' = rq_Method r" "rq_Path r' = v1_path (rq_Path r)" "rq_Body r' = rq_Body r" "hs_idem s0 = hs_idem s"
    "rq_Header r' idempotencyHeader = rq_Header r idempotencyHeader"
    by (auto simp: kept_def routed_request_def idempotencyHeader_def)
  then have k: "idem_key r' = k" "isMutating (rq_Method r')" using assms(2,3) by (simp_all add: idem_key_def Get_def)
  obtain b where b: "ReadAll r' = Some b" "rq_Body r = Some b"
  proof (cases "ReadAll r'")
    case None
    then show thesis using idem_unread [of r' a "dispatch own app" h s0] e k assms(1,4,9,10) by simp
  next
    case (Some b)
    then show thesis using that r'(3) by (auto simp: ReadAll_def split: option.splits if_splits)
  qed
  let ?m = "sweepExpiredLocked (ar_sweep a) (hs_idem s0)"
  have new: "?m (idem_key r') = None" using assms(5) r'(4) k(1) by (simp add: sweepExpiredLocked_def)
  obtain rs2 s2 where d: "dispatch own app (r'\<lparr>rq_Body := Some b, rq_MaxBytes := None\<rparr>) h (s0\<lparr>hs_idem := ?m\<rparr>) = (rs2, s2)" by fastforce
  have s2: "hs_idem s2 = ?m" using dispatch_idem [of own app _ h "s0\<lparr>hs_idem := ?m\<rparr>"] d
    by (metis hserver.select_convs(6) hserver.surjective hserver.update_convs(6) snd_conv)
  have "idempotencyMiddleware a (dispatch own app) r' h s0 = (rs, s1)" using e assms(1) by simp
  then have "rs2 = rs" "s1 = s2\<lparr>hs_idem := idem_commit (ar_store a) (ar_idem a) k (hashReq (rq_Method r') (rq_Path r') b) rs ?m\<rparr>"
    using idem_new [of r' b a s0 "dispatch own app" h rs2 s2, OF k(2) _ b(1) new d] assms(4,9,10) k(1) s2 by auto
  moreover have "finite (dom ?m)" "card (dom ?m) < n" using dom_sweep [of "hs_idem s0" "ar_sweep a"] assms(6,7) r'(4) by simp_all
  ultimately show ?thesis using b(2) r' assms(8)
    by (intro exI [of _ b] exI conjI) (auto simp: holds_entry_def idem_commit_def Let_def card_insert_if)
qed


section \<open>A request on a concrete server\<close>

definition sample_app :: "nat app" where
  "sample_app n r h x = (\<lparr>rs_Status = 200, rs_Header = h, rs_Body = ''ok''\<rparr>, Suc x)"

definition sample_own :: own where
  "sample_own w r h = \<lparr>rs_Status = 404, rs_Header = h, rs_Body = []\<rparr>"

definition sample_hserver :: "nat hserver" where
  "sample_hserver = \<lparr>hs_apiKey = ''k'', hs_scopes = None, hs_rl = Map.empty, hs_keyRL = keyRL, hs_tenants = None, hs_idem = Map.empty, hs_app = 0\<rparr>"

definition sample_arrival :: arrival where
  "sample_arrival = \<lparr>ar_rl = 0, ar_key = 0, ar_rate = 0, ar_log = 0, ar_sweep = 0, ar_store = 0, ar_rnd = id, ar_tenants = [], ar_idem = []\<rparr>"

definition sample_request :: request where
  "sample_request = \<lparr>rq_Method = ''POST'', rq_Path = ''/v1/proofs'', rq_Query = [],
     rq_Header = [''X-API-Key'' \<mapsto> ''k'', ''X-Idempotency-Key'' \<mapsto> ''i''], rq_RemoteAddr = ''h:1'', rq_Body = Some ''b'',
     rq_MaxBytes = None, rq_Tenant = None\<rparr>"

lemma sample_first:
  "let (rs, s1) = serve sample_own sample_app sample_arrival sample_request sample_hserver in rs_Status rs = 200 \<and> hs_app s1 = 1"
proof -
  have "TrimSpace [] = []" "HasPrefix ''/v1/proofs'' ''/v1/''" by code_simp+
  moreover have "v1_path ''/v1/proofs'' = ''/proofs''" by code_simp
  moreover note v1_proofs_served [unfolded \<open>v1_path ''/v1/proofs'' = ''/proofs''\<close>]
  ultimately show ?thesis
    by (simp add: serve_def v1AliasMiddleware_def acceptVersionMiddleware_def negotiateVersion_def servedVersions_def Get_def
      rateLimitMiddleware_def rl_request_def perKeyRateLimitMiddleware_def key_allow_def keyRL_def newPerKeyLimiter_def
      corsMiddleware_def authMiddleware_def scopeMW_def idempotencyMiddleware_def isMutating_def idempotencyHeader_def ReadAll_def
      idem_begin_def sweepExpiredLocked_def dispatch_def mux_ServeHTTP_def on_app_def sample_app_def sample_hserver_def
      sample_arrival_def sample_request_def Let_def)
qed

theorem admission_witness:
  "hs_app (snd (serve sample_own sample_app sample_arrival sample_request sample_hserver)) \<noteq> hs_app sample_hserver \<and>
   authorised sample_arrival sample_request sample_hserver"
proof -
  obtain rs s1 where s1: "serve sample_own sample_app sample_arrival sample_request sample_hserver = (rs, s1)" by fastforce
  then have "hs_app s1 \<noteq> hs_app sample_hserver" using sample_first by (simp add: sample_hserver_def)
  with admission [OF s1 this] s1 show ?thesis by simp
qed


end
