(* ===== verification/Stark.thy ===== *)
theory Stark
  imports Proof_Engine
begin

text \<open>
  Hash aggregation of proofs, \<^verbatim>\<open>engine/internal/aggregator/stark.go\<close>, and the batches built on it,
  the aggregation handlers of \<^verbatim>\<open>engine/internal/api/server.go\<close> with their rows in the database
  (\<^verbatim>\<open>engine/internal/store/pg.go\<close>). A handler gets the decoded body, \<open>None\<close> when it is no JSON; the
  clock is an argument, in seconds. The lemmas show that a created pack verifies and binds its proofs,
  and what a batch holds after any requests, restarts included.
\<close>

section \<open>Packs\<close>

record STARKPack =
  pk_AggregateProofHash :: gostring
  pk_IndividualProofHashes :: "gostring list"
  pk_ProofCount :: int
  pk_Metadata :: "gostring \<rightharpoonup> gostring"
  pk_Timestamp :: int

datatype stark_error =
    errNoProofsToAggregate
  | errInvalidSTARKPack
  | errAggregateMismatch
  | errProofVerificationFailed
  | CountMismatch int int
  | InvalidAggregateHash
  | InvalidIndividualHash nat
  | AggregateFailed stark_error
  | VerificationFailed stark_error

definition AggregateSTARKs :: "bytes list \<Rightarrow> stark_error + bytes" where
  "AggregateSTARKs ps = (if ps = [] then Inl errNoProofsToAggregate else Inr (sha256 (concat (map sha256 ps))))"

definition VerifyAggregate :: "bytes \<Rightarrow> bytes list \<Rightarrow> bool \<times> stark_error option" where
  "VerifyAggregate aggregateProof originals =
     (if originals = [] then (False, Some errNoProofsToAggregate)
      else if aggregateProof \<noteq> sha256 (concat originals) then (False, Some errAggregateMismatch)
      else (True, None))"

definition CreateSTARKPack :: "int \<Rightarrow> bytes list \<Rightarrow> (gostring \<rightharpoonup> gostring) \<Rightarrow> stark_error + STARKPack" where
  "CreateSTARKPack now ps metadata =
     (if ps = [] then Inl errNoProofsToAggregate
      else case AggregateSTARKs ps of
        Inl e \<Rightarrow> Inl (AggregateFailed e)
      | Inr agg \<Rightarrow>
          Inr \<lparr>pk_AggregateProofHash = hex_encode agg, pk_IndividualProofHashes = map (\<lambda>p. hex_encode (sha256 p)) ps,
               pk_ProofCount = int (length ps), pk_Metadata = metadata, pk_Timestamp = now\<rparr>)"

fun decode_hashes :: "nat \<Rightarrow> gostring list \<Rightarrow> stark_error + bytes list" where
  "decode_hashes i [] = Inr []"
| "decode_hashes i (h # hs) =
     (case hex_decode h of
        None \<Rightarrow> Inl (InvalidIndividualHash i)
      | Some b \<Rightarrow> (case decode_hashes (Suc i) hs of Inl e \<Rightarrow> Inl e | Inr bs \<Rightarrow> Inr (b # bs)))"

definition UnpackAndVerify :: "STARKPack option \<Rightarrow> bool \<times> stark_error option" where
  "UnpackAndVerify pack =
     (case pack of
        None \<Rightarrow> (False, Some errInvalidSTARKPack)
      | Some p \<Rightarrow>
          if pk_ProofCount p = 0 \<or> pk_IndividualProofHashes p = [] then (False, Some errNoProofsToAggregate)
          else if pk_ProofCount p \<noteq> int (length (pk_IndividualProofHashes p))
            then (False, Some (CountMismatch (pk_ProofCount p) (int (length (pk_IndividualProofHashes p)))))
          else (case hex_decode (pk_AggregateProofHash p) of
            None \<Rightarrow> (False, Some InvalidAggregateHash)
          | Some agg \<Rightarrow>
              (case decode_hashes 0 (pk_IndividualProofHashes p) of
                 Inl e \<Rightarrow> (False, Some e)
               | Inr raw \<Rightarrow>
                   (case VerifyAggregate agg raw of
                      (_, Some e) \<Rightarrow> (False, Some (VerificationFailed e))
                    | (ok, None) \<Rightarrow> if \<not> ok then (False, Some errProofVerificationFailed) else (True, None)))))"

section \<open>Batches\<close>

record aggBatch =
  ab_ID :: gostring
  ab_MerkleRoot :: gostring
  ab_MaxProofs :: int
  ab_ProofHashes :: "gostring list"
  ab_Status :: gostring
  ab_CreatedAt :: int
  ab_FinalizedAt :: int
  ab_Pack :: "STARKPack option"

record AggBatchRow =
  ar_BatchID :: gostring
  ar_MaxProofs :: int
  ar_ProofHashes :: "gostring list"
  ar_MerkleRoot :: gostring
  ar_Status :: gostring
  ar_CreatedAt :: int
  ar_FinalizedAt :: int
  ar_AggregateProofHash :: gostring
  ar_IndividualProofHashes :: "gostring list"
  ar_ProofCount :: int

text \<open>The table of batches; an insertion that meets an existing row keeps its limit and its creation time.\<close>

definition SaveAggBatch :: "AggBatchRow \<Rightarrow> (gostring \<rightharpoonup> AggBatchRow) \<Rightarrow> (gostring \<rightharpoonup> AggBatchRow)" where
  "SaveAggBatch b db =
     db(ar_BatchID b \<mapsto> (case db (ar_BatchID b) of
          None \<Rightarrow> b
        | Some old \<Rightarrow> b\<lparr>ar_MaxProofs := ar_MaxProofs old, ar_CreatedAt := ar_CreatedAt old\<rparr>))"

record agg_server =
  as_batches :: "gostring \<rightharpoonup> aggBatch"
  as_db :: "(gostring \<rightharpoonup> AggBatchRow) option"

definition batch_row :: "aggBatch \<Rightarrow> AggBatchRow" where
  "batch_row b =
     \<lparr>ar_BatchID = ab_ID b, ar_MaxProofs = ab_MaxProofs b, ar_ProofHashes = ab_ProofHashes b, ar_MerkleRoot = ab_MerkleRoot b,
      ar_Status = ab_Status b, ar_CreatedAt = ab_CreatedAt b, ar_FinalizedAt = ab_FinalizedAt b,
      ar_AggregateProofHash = (case ab_Pack b of None \<Rightarrow> [] | Some p \<Rightarrow> pk_AggregateProofHash p),
      ar_IndividualProofHashes = (case ab_Pack b of None \<Rightarrow> [] | Some p \<Rightarrow> pk_IndividualProofHashes p),
      ar_ProofCount = (case ab_Pack b of None \<Rightarrow> 0 | Some p \<Rightarrow> pk_ProofCount p)\<rparr>"

text \<open>\<open>saved\<close> says whether the statement succeeds; a failure is only logged.\<close>

definition persistAggBatch :: "bool \<Rightarrow> aggBatch \<Rightarrow> agg_server \<Rightarrow> agg_server" where
  "persistAggBatch saved b s =
     (case as_db s of
        None \<Rightarrow> s
      | Some db \<Rightarrow> if saved then s\<lparr>as_db := Some (SaveAggBatch (batch_row b) db)\<rparr> else s)"

definition row_batch :: "AggBatchRow \<Rightarrow> aggBatch" where
  "row_batch r =
     \<lparr>ab_ID = ar_BatchID r, ab_MerkleRoot = ar_MerkleRoot r, ab_MaxProofs = ar_MaxProofs r, ab_ProofHashes = ar_ProofHashes r,
      ab_Status = ar_Status r, ab_CreatedAt = ar_CreatedAt r, ab_FinalizedAt = ar_FinalizedAt r,
      ab_Pack = (if ar_AggregateProofHash r \<noteq> [] then
         Some \<lparr>pk_AggregateProofHash = ar_AggregateProofHash r, pk_IndividualProofHashes = ar_IndividualProofHashes r,
               pk_ProofCount = ar_ProofCount r, pk_Metadata = Map.empty, pk_Timestamp = ar_FinalizedAt r\<rparr> else None)\<rparr>"

text \<open>The start of the server: every row becomes a batch.\<close>

definition rehydrate :: "(gostring \<rightharpoonup> AggBatchRow) option \<Rightarrow> agg_server" where
  "rehydrate db = \<lparr>as_batches = (case db of None \<Rightarrow> Map.empty | Some m \<Rightarrow> (\<lambda>i. map_option row_batch (m i))), as_db = db\<rparr>"

datatype agg_error =
    AggInvalidBody | BatchIdRequired | BatchExists | BatchNotFound | BatchAlreadyFinalized | BatchFull | BatchEmpty
  | AggregationFailed stark_error | BatchNotFinalized

fun agg_status :: "agg_error \<Rightarrow> int" where
  "agg_status BatchExists = 409"
| "agg_status BatchNotFound = 404"
| "agg_status BatchAlreadyFinalized = 409"
| "agg_status BatchFull = 409"
| "agg_status BatchNotFinalized = 409"
| "agg_status (AggregationFailed _) = 500"
| "agg_status _ = 400"

definition open_batch :: "int \<Rightarrow> gostring \<Rightarrow> gostring \<Rightarrow> int \<Rightarrow> aggBatch" where
  "open_batch now i mroot n =
     \<lparr>ab_ID = i, ab_MerkleRoot = mroot, ab_MaxProofs = n, ab_ProofHashes = [], ab_Status = ''open'', ab_CreatedAt = now,
      ab_FinalizedAt = 0, ab_Pack = None\<rparr>"

definition aggregationCreateBatch ::
  "int \<Rightarrow> bool \<Rightarrow> agg_server \<Rightarrow> (gostring \<times> gostring \<times> int) option \<Rightarrow> (agg_error + aggBatch) \<times> agg_server" where
  "aggregationCreateBatch now saved s req =
     (case req of
        None \<Rightarrow> (Inl AggInvalidBody, s)
      | Some (i, mroot, n) \<Rightarrow>
          if i = [] then (Inl BatchIdRequired, s)
          else let n = (if n \<le> 0 then 100 else n) in
            if as_batches s i \<noteq> None then (Inl BatchExists, s)
            else let b = open_batch now i mroot n; s = s\<lparr>as_batches := (as_batches s)(i \<mapsto> b)\<rparr>
                 in (Inr b, persistAggBatch saved b s))"

text \<open>The reply of the next handler is the number of proofs.\<close>

definition aggregationAddProof ::
  "bool \<Rightarrow> agg_server \<Rightarrow> (gostring \<times> gostring) option \<Rightarrow> (agg_error + int) \<times> agg_server" where
  "aggregationAddProof saved s req =
     (case req of
        None \<Rightarrow> (Inl AggInvalidBody, s)
      | Some (i, h) \<Rightarrow>
          (case as_batches s i of
             None \<Rightarrow> (Inl BatchNotFound, s)
           | Some b \<Rightarrow>
               if ab_Status b \<noteq> ''open'' then (Inl BatchAlreadyFinalized, s)
               else if int (length (ab_ProofHashes b)) \<ge> ab_MaxProofs b then (Inl BatchFull, s)
               else let b = b\<lparr>ab_ProofHashes := ab_ProofHashes b @ [h]\<rparr>
                    in (Inr (int (length (ab_ProofHashes b))), persistAggBatch saved b (s\<lparr>as_batches := (as_batches s)(i \<mapsto> b)\<rparr>))))"

definition aggregationFinalize ::
  "int \<Rightarrow> int \<Rightarrow> bool \<Rightarrow> agg_server \<Rightarrow> gostring option \<Rightarrow> (agg_error + aggBatch) \<times> agg_server" where
  "aggregationFinalize t0 now saved s req =
     (case req of
        None \<Rightarrow> (Inl AggInvalidBody, s)
      | Some i \<Rightarrow>
          (case as_batches s i of
             None \<Rightarrow> (Inl BatchNotFound, s)
           | Some b \<Rightarrow>
               if ab_Status b = ''finalized'' then (Inl BatchAlreadyFinalized, s)
               else if ab_ProofHashes b = [] then (Inl BatchEmpty, s)
               else (case CreateSTARKPack t0 (ab_ProofHashes b) [''batch_id'' \<mapsto> ab_ID b] of
                       Inl e \<Rightarrow> (Inl (AggregationFailed e), s)
                     | Inr pack \<Rightarrow>
                         let b = b\<lparr>ab_Pack := Some pack, ab_Status := ''finalized'', ab_FinalizedAt := now\<rparr>
                         in (Inr b, persistAggBatch saved b (s\<lparr>as_batches := (as_batches s)(i \<mapsto> b)\<rparr>)))))"

record verify_batch_reply =
  vb_valid :: bool
  vb_hash :: gostring
  vb_count :: int
  vb_error :: "stark_error option"

definition aggregationVerifyBatch :: "agg_server \<Rightarrow> gostring \<Rightarrow> agg_error + verify_batch_reply" where
  "aggregationVerifyBatch s i =
     (case as_batches s i of
        None \<Rightarrow> Inl BatchNotFound
      | Some b \<Rightarrow>
          (case ab_Pack b of
             None \<Rightarrow> Inl BatchNotFinalized
           | Some p \<Rightarrow>
               if ab_Status b \<noteq> ''finalized'' then Inl BatchNotFinalized
               else let (valid, err) = UnpackAndVerify (Some p)
                    in Inr \<lparr>vb_valid = valid, vb_hash = pk_AggregateProofHash p, vb_count = pk_ProofCount p, vb_error = err\<rparr>))"

definition aggregationGetBatch :: "agg_server \<Rightarrow> gostring \<Rightarrow> agg_error + aggBatch" where
  "aggregationGetBatch s i = (case as_batches s i of None \<Rightarrow> Inl BatchNotFound | Some b \<Rightarrow> Inr b)"

section \<open>Lemmas on packs\<close>

lemma decode_hashes_encode [simp]: "decode_hashes i (map (\<lambda>p. hex_encode (f p)) ps) = Inr (map f ps)"
  by (induction ps arbitrary: i) simp_all

lemma CreateSTARKPack_verifies: "CreateSTARKPack now ps md = Inr p \<Longrightarrow> UnpackAndVerify (Some p) = (True, None)"
  by (auto simp: CreateSTARKPack_def AggregateSTARKs_def UnpackAndVerify_def VerifyAggregate_def split: if_splits)

text \<open>The lengths of the individual hashes are not checked: moving bytes from one to the next keeps a pack valid.\<close>

lemma pack_boundaries_ambiguous:
  "\<exists>p q. UnpackAndVerify (Some p) = (True, None) \<and> UnpackAndVerify (Some q) = (True, None) \<and>
     pk_AggregateProofHash p = pk_AggregateProofHash q \<and> pk_ProofCount p = pk_ProofCount q \<and>
     pk_IndividualProofHashes p \<noteq> pk_IndividualProofHashes q"
proof -
  define pack where "pack hs = \<lparr>pk_AggregateProofHash = hex_encode (sha256 ''abc''), pk_IndividualProofHashes = map hex_encode hs,
      pk_ProofCount = 2, pk_Metadata = Map.empty, pk_Timestamp = 0\<rparr>" for hs
  have "decode_hashes i (map hex_encode hs) = Inr hs" for i hs using decode_hashes_encode [of i id hs] by simp
  then have "UnpackAndVerify (Some (pack [''a'', ''bc''])) = (True, None)" "UnpackAndVerify (Some (pack [''ab'', ''c''])) = (True, None)"
    by (simp_all add: pack_def UnpackAndVerify_def VerifyAggregate_def del: list.map)
  moreover have "pk_IndividualProofHashes (pack [''a'', ''bc'']) \<noteq> pk_IndividualProofHashes (pack [''ab'', ''c''])"
    by (simp add: pack_def)
  ultimately show ?thesis by (intro exI [of _ "pack [''a'', ''bc'']"] exI [of _ "pack [''ab'', ''c'']"]) (simp add: pack_def)
qed

section \<open>Batches over time\<close>

datatype agg_call =
    CCreate int bool "(gostring \<times> gostring \<times> int) option"
  | CAdd bool "(gostring \<times> gostring) option"
  | CFinalize int int bool "gostring option"
  | CRestart

fun agg_exec :: "agg_server \<Rightarrow> agg_call \<Rightarrow> agg_server" where
  "agg_exec s (CCreate now saved req) = snd (aggregationCreateBatch now saved s req)"
| "agg_exec s (CAdd saved req) = snd (aggregationAddProof saved s req)"
| "agg_exec s (CFinalize t0 now saved req) = snd (aggregationFinalize t0 now saved s req)"
| "agg_exec s CRestart = rehydrate (as_db s)"

definition agg_run :: "agg_call list \<Rightarrow> agg_server \<Rightarrow> agg_server" where
  "agg_run cs s = foldl agg_exec s cs"

definition batch_ok :: "aggBatch \<Rightarrow> bool" where
  "batch_ok b \<longleftrightarrow> int (length (ab_ProofHashes b)) \<le> ab_MaxProofs b \<and>
     (ab_Status b = ''open'' \<and> ab_Pack b = None \<or>
      ab_Status b = ''finalized'' \<and> (\<exists>p t md. ab_Pack b = Some p \<and> CreateSTARKPack t (ab_ProofHashes b) md = Inr p))"

definition rows_ok :: "(gostring \<rightharpoonup> aggBatch) \<Rightarrow> (gostring \<rightharpoonup> AggBatchRow) \<Rightarrow> bool" where
  "rows_ok m db \<longleftrightarrow> (\<forall>i r. db i = Some r \<longrightarrow> ar_BatchID r = i \<and> batch_ok (row_batch r) \<and>
     (\<exists>b. m i = Some b \<and> ab_MaxProofs b = ar_MaxProofs r))"

definition agg_inv :: "agg_server \<Rightarrow> bool" where
  "agg_inv s \<longleftrightarrow> (\<forall>i b. as_batches s i = Some b \<longrightarrow> ab_ID b = i \<and> batch_ok b) \<and>
     (case as_db s of None \<Rightarrow> True | Some db \<Rightarrow> rows_ok (as_batches s) db)"

lemma row_batch_fields: "ab_ID (row_batch r) = ar_BatchID r" "ab_MaxProofs (row_batch r) = ar_MaxProofs r"
  by (simp_all add: row_batch_def)

text \<open>A row of a sound batch gives a sound batch back, with the same proofs.\<close>

lemma row_batch_ok:
  assumes "batch_ok b"
  shows "batch_ok (row_batch ((batch_row b)\<lparr>ar_MaxProofs := ab_MaxProofs b, ar_CreatedAt := c\<rparr>))"
proof -
  consider "ab_Status b = ''open''" "ab_Pack b = None"
    | p t md where "ab_Status b = ''finalized''" "ab_Pack b = Some p" "CreateSTARKPack t (ab_ProofHashes b) md = Inr p"
    using assms by (auto simp: batch_ok_def)
  then show ?thesis
  proof cases
    case 1
    then show ?thesis using assms by (simp add: batch_ok_def row_batch_def batch_row_def)
  next
    case 2
    then have "CreateSTARKPack (ab_FinalizedAt b) (ab_ProofHashes b) Map.empty = Inr
        \<lparr>pk_AggregateProofHash = pk_AggregateProofHash p, pk_IndividualProofHashes = pk_IndividualProofHashes p,
         pk_ProofCount = pk_ProofCount p, pk_Metadata = Map.empty, pk_Timestamp = ab_FinalizedAt b\<rparr>" "pk_AggregateProofHash p \<noteq> []"
      by (auto simp: CreateSTARKPack_def AggregateSTARKs_def split: if_splits)
    then show ?thesis using assms 2 by (auto simp: batch_ok_def row_batch_def batch_row_def)
  qed
qed

lemma rows_ok_save:
  assumes "rows_ok m db" "batch_ok b" "ab_ID b = i" "\<And>b0. m i = Some b0 \<Longrightarrow> ab_MaxProofs b0 = ab_MaxProofs b"
  shows "rows_ok (m(i \<mapsto> b)) (SaveAggBatch (batch_row b) db)"
proof -
  have *: "ar_BatchID (batch_row b) = i" "ar_MaxProofs (batch_row b) = ab_MaxProofs b" using assms(3) by (simp_all add: batch_row_def)
  have old: "ar_MaxProofs r = ab_MaxProofs b" if "db i = Some r" for r
    using that assms(1,4) by (fastforce simp: rows_ok_def)
  have new: "batch_row b = (batch_row b)\<lparr>ar_MaxProofs := ab_MaxProofs b, ar_CreatedAt := ar_CreatedAt (batch_row b)\<rparr>"
    using *(2) by simp
  have b1: "batch_ok (row_batch (batch_row b))" using row_batch_ok [OF assms(2), of "ar_CreatedAt (batch_row b)"] new by simp
  show ?thesis
    unfolding rows_ok_def
  proof (intro allI impI)
    fix j r
    assume r: "SaveAggBatch (batch_row b) db j = Some r"
    show "ar_BatchID r = j \<and> batch_ok (row_batch r) \<and> (\<exists>b'. (m(i \<mapsto> b)) j = Some b' \<and> ab_MaxProofs b' = ar_MaxProofs r)"
    proof (cases "j = i")
      case True
      show ?thesis
      proof (cases "db i")
        case None
        with r True * b1 show ?thesis by (simp add: SaveAggBatch_def)
      next
        case (Some r0)
        then have "r = (batch_row b)\<lparr>ar_MaxProofs := ab_MaxProofs b, ar_CreatedAt := ar_CreatedAt r0\<rparr>"
          using r True * old [OF Some] by (simp add: SaveAggBatch_def)
        then show ?thesis using True *(1) row_batch_ok [OF assms(2)] by simp
      qed
    next
      case False
      then have "db j = Some r" using r * by (simp add: SaveAggBatch_def)
      then show ?thesis using assms(1) False by (simp add: rows_ok_def)
    qed
  qed
qed

lemma rows_ok_keep:
  assumes "rows_ok m db" "\<And>b0. m i = Some b0 \<Longrightarrow> ab_MaxProofs b0 = ab_MaxProofs b"
  shows "rows_ok (m(i \<mapsto> b)) db"
  using assms by (fastforce simp: rows_ok_def)

lemma agg_inv_put:
  assumes "agg_inv s" "batch_ok b" "ab_ID b = i" "\<And>b0. as_batches s i = Some b0 \<Longrightarrow> ab_MaxProofs b0 = ab_MaxProofs b"
  shows "agg_inv (persistAggBatch saved b (s\<lparr>as_batches := (as_batches s)(i \<mapsto> b)\<rparr>))"
  using assms rows_ok_save [OF _ assms(2,3,4)] rows_ok_keep [OF _ assms(4)]
  by (auto simp: agg_inv_def persistAggBatch_def split: option.splits)

lemma agg_inv_exec:
  assumes "agg_inv s"
  shows "agg_inv (agg_exec s c)"
proof (cases c)
  case (CCreate now saved req)
  have "batch_ok (open_batch now i mr n)" "ab_ID (open_batch now i mr n) = i" if "0 \<le> n" for i mr n
    using that by (simp_all add: batch_ok_def open_batch_def)
  then show ?thesis unfolding CCreate using assms
    by (auto simp: aggregationCreateBatch_def Let_def intro!: agg_inv_put split: option.splits)
next
  case (CAdd saved req)
  have "batch_ok (b\<lparr>ab_ProofHashes := ab_ProofHashes b @ [h]\<rparr>)"
    if "batch_ok b" "ab_Status b = ''open''" "\<not> int (length (ab_ProofHashes b)) \<ge> ab_MaxProofs b" for b h
    using that by (auto simp: batch_ok_def)
  then show ?thesis unfolding CAdd using assms
    by (auto simp: aggregationAddProof_def Let_def agg_inv_def [of s] intro!: agg_inv_put [OF assms] split: option.splits)
next
  case (CFinalize t0 now saved req)
  have "batch_ok (b\<lparr>ab_Pack := Some p, ab_Status := ''finalized'', ab_FinalizedAt := now\<rparr>)"
    if "batch_ok b" "CreateSTARKPack t0 (ab_ProofHashes b) md = Inr p" for b p md
    using that by (auto simp: batch_ok_def)
  then show ?thesis unfolding CFinalize using assms
    by (auto simp: aggregationFinalize_def Let_def agg_inv_def [of s] intro!: agg_inv_put [OF assms] split: option.splits sum.splits)
next
  case CRestart
  then show ?thesis using assms
    by (auto simp: agg_inv_def rehydrate_def rows_ok_def row_batch_fields split: option.splits)
qed

lemma agg_inv_run: "agg_inv s \<Longrightarrow> agg_inv (agg_run cs s)"
  unfolding agg_run_def by (induction cs rule: rev_induct) (simp_all add: agg_inv_exec)

lemma agg_inv_start: "agg_inv (rehydrate (map_option (\<lambda>_. Map.empty) c))"
  by (auto simp: agg_inv_def rehydrate_def rows_ok_def split: option.splits)

text \<open>A batch that is finalized in memory and in its row.\<close>

definition sealed :: "gostring \<Rightarrow> gostring list \<Rightarrow> agg_server \<Rightarrow> bool" where
  "sealed i hs s \<longleftrightarrow>
     (\<exists>b. as_batches s i = Some b \<and> ab_Status b = ''finalized'' \<and> ab_ProofHashes b = hs) \<and>
     (\<exists>db r. as_db s = Some db \<and> db i = Some r \<and> ar_Status r = ''finalized'' \<and> ar_ProofHashes r = hs)"

lemma sealed_put:
  "sealed i hs s \<Longrightarrow> ab_ID b = j \<Longrightarrow> j \<noteq> i \<Longrightarrow> sealed i hs (persistAggBatch saved b (s\<lparr>as_batches := (as_batches s)(j \<mapsto> b)\<rparr>))"
  by (auto simp: sealed_def persistAggBatch_def SaveAggBatch_def batch_row_def)

lemma sealed_exec:
  assumes "sealed i hs s" "agg_inv s"
  shows "sealed i hs (agg_exec s c)"
proof (cases c)
  case (CCreate now saved req)
  obtain b where "as_batches s i = Some b" using assms(1) by (auto simp: sealed_def)
  then show ?thesis unfolding CCreate using assms(1)
    by (cases req) (auto simp: aggregationCreateBatch_def Let_def open_batch_def intro!: sealed_put)
next
  case (CAdd saved req)
  have "ab_ID b = j" if "as_batches s j = Some b" for j b using that assms(2) by (simp add: agg_inv_def)
  moreover have "j \<noteq> i" if "as_batches s j = Some b" "ab_Status b = ''open''" for j b using that assms(1) by (auto simp: sealed_def)
  ultimately show ?thesis unfolding CAdd using assms(1)
    by (auto simp: aggregationAddProof_def Let_def intro!: sealed_put split: option.splits)
next
  case (CFinalize t0 now saved req)
  have "ab_ID b = j" if "as_batches s j = Some b" for j b using that assms(2) by (simp add: agg_inv_def)
  moreover have "j \<noteq> i" if "as_batches s j = Some b" "ab_Status b \<noteq> ''finalized''" for j b using that assms(1) by (auto simp: sealed_def)
  ultimately show ?thesis unfolding CFinalize using assms(1)
    by (auto simp: aggregationFinalize_def Let_def intro!: sealed_put split: option.splits sum.splits)
next
  case CRestart
  then show ?thesis using assms(1) by (auto simp: sealed_def rehydrate_def row_batch_def)
qed

lemma sealed_run: "sealed i hs s \<Longrightarrow> agg_inv s \<Longrightarrow> sealed i hs (agg_run cs s)"
  unfolding agg_run_def
  by (induction cs rule: rev_induct) (use agg_inv_run [unfolded agg_run_def] in \<open>simp_all add: sealed_exec\<close>)

lemma finalize_seals:
  assumes "aggregationFinalize t0 now True s (Some i) = (Inr b, s')" "agg_inv s" "as_db s \<noteq> None"
  shows "sealed i (ab_ProofHashes b) s'"
proof -
  have "ab_ID b0 = i" if "as_batches s i = Some b0" for b0 using that assms(2) by (simp add: agg_inv_def)
  then show ?thesis using assms(1,3)
    by (auto simp: aggregationFinalize_def Let_def sealed_def persistAggBatch_def SaveAggBatch_def batch_row_def
        split: option.splits if_splits sum.splits)
qed

lemma sealed_verifies:
  assumes "sealed i hs s" "agg_inv s"
  shows "aggregationVerifyBatch s i = Inr \<lparr>vb_valid = True, vb_hash = hex_encode (sha256 (concat (map sha256 hs))), vb_count = int (length hs), vb_error = None\<rparr>"
proof -
  obtain b where b: "as_batches s i = Some b" "ab_Status b = ''finalized''" "ab_ProofHashes b = hs" using assms(1) by (auto simp: sealed_def)
  then have "batch_ok b" using assms(2) by (simp add: agg_inv_def)
  then obtain p t md where p: "ab_Pack b = Some p" "CreateSTARKPack t hs md = Inr p" using b by (auto simp: batch_ok_def)
  then have "pk_AggregateProofHash p = hex_encode (sha256 (concat (map sha256 hs)))" "pk_ProofCount p = int (length hs)"
    by (auto simp: CreateSTARKPack_def AggregateSTARKs_def split: if_splits)
  with b p CreateSTARKPack_verifies [OF p(2)] show ?thesis by (simp add: aggregationVerifyBatch_def)
qed



end
