(* ===== verification/Proof_Api.thy ===== *)
theory Proof_Api
  imports Proof_Engine
begin

text \<open>
  The proof, KYC and inference endpoints of \<^verbatim>\<open>engine/internal/api/server.go\<close> over the proof engine,
  with the KYC demo (\<^verbatim>\<open>engine/internal/kyc/demo.go\<close>), the inference service
  (\<^verbatim>\<open>engine/internal/inference/service.go\<close>) and the tables they keep in the database
  (\<^verbatim>\<open>engine/internal/store/pg.go\<close>). A handler gets the decoded body, \<open>None\<close> when it is no JSON.
  Arguments are the clock, the duration of a generation, what the chain answers to a submission
  (\<open>None\<close> for an error) and whether a write to the database succeeds. The webhook events a handler
  emits are kept as a list.
\<close>

section \<open>State\<close>

record KYCResult =
  kr_ProofID :: gostring
  kr_Verified :: bool
  kr_TS :: int

record DeFiAccess =
  da_User :: gostring
  da_Whitelisted :: bool
  da_ProofID :: gostring

record ModelRegistryEntry =
  me_ModelID :: gostring
  me_ModelHash :: gostring
  me_VerifierContract :: gostring
  me_Metadata :: "gostring \<rightharpoonup> gostring"
  me_RegisteredAt :: int
  me_DeployHash :: gostring

record proof_db =
  db_proofs :: "gostring \<rightharpoonup> Proof"
  db_kyc :: "gostring \<rightharpoonup> gostring \<times> int"
  db_models :: "gostring \<rightharpoonup> ModelRegistryEntry"

datatype webhook_event =
    ProofAnchored gostring gostring gostring gostring
  | ProofVerified gostring gostring gostring
  | SlashExecuted gostring gostring
  | KYCGranted gostring gostring

record proof_server =
  pv_eng :: ProofEngine
  pv_whitelist :: "gostring \<rightharpoonup> DeFiAccess"
  pv_db :: "proof_db option"
  pv_events :: "webhook_event list"

text \<open>\<open>chain\<close> is \<open>None\<close> when no deployer key is configured.\<close>

record chain_config =
  cc_strict :: bool
  cc_chain :: "(Proof \<Rightarrow> gostring option) option"

section \<open>Tables\<close>

text \<open>The columns of a proof; two fields have none.\<close>

definition proof_row :: "Proof \<Rightarrow> Proof" where
  "proof_row p = p\<lparr>p_AnchorHash := [], p_AnchoringStatus := []\<rparr>"

definition PG_Save :: "Proof \<Rightarrow> proof_db \<Rightarrow> proof_db" where
  "PG_Save p d =
     d\<lparr>db_proofs := (db_proofs d)(p_ID p \<mapsto> (case db_proofs d (p_ID p) of
          None \<Rightarrow> proof_row p
        | Some old \<Rightarrow> old\<lparr>p_Valid := p_Valid p, p_Revoked := p_Revoked p, p_Deploy := p_Deploy p\<rparr>))\<rparr>"

definition PG_Update :: "Proof \<Rightarrow> proof_db \<Rightarrow> proof_db" where
  "PG_Update p d =
     (case db_proofs d (p_ID p) of
        None \<Rightarrow> d
      | Some old \<Rightarrow> d\<lparr>db_proofs := (db_proofs d)(p_ID p \<mapsto> old\<lparr>p_Valid := p_Valid p, p_Revoked := p_Revoked p, p_Deploy := p_Deploy p\<rparr>)\<rparr>)"

definition SaveKYC :: "gostring \<Rightarrow> gostring \<Rightarrow> int \<Rightarrow> proof_db \<Rightarrow> proof_db" where
  "SaveKYC user pid ts d = d\<lparr>db_kyc := (db_kyc d)(user \<mapsto> (pid, ts))\<rparr>"

definition SaveModelRegistryEntry :: "ModelRegistryEntry \<Rightarrow> proof_db \<Rightarrow> proof_db" where
  "SaveModelRegistryEntry e d =
     d\<lparr>db_models := (db_models d)(me_ModelID e \<mapsto> (case db_models d (me_ModelID e) of
          None \<Rightarrow> e
        | Some old \<Rightarrow> e\<lparr>me_RegisteredAt := me_RegisteredAt old\<rparr>))\<rparr>"

definition with_db :: "bool \<Rightarrow> (proof_db \<Rightarrow> proof_db) \<Rightarrow> proof_server \<Rightarrow> proof_server" where
  "with_db saved f s = (case pv_db s of None \<Rightarrow> s | Some d \<Rightarrow> if saved then s\<lparr>pv_db := Some (f d)\<rparr> else s)"

definition persist :: "bool \<Rightarrow> Proof \<Rightarrow> proof_server \<Rightarrow> proof_server" where
  "persist saved p s = with_db saved (PG_Save p) s"

definition persistUpdate :: "bool \<Rightarrow> Proof \<Rightarrow> proof_server \<Rightarrow> proof_server" where
  "persistUpdate saved p s = with_db saved (PG_Update p) s"

definition emitWebhookEvent :: "webhook_event \<Rightarrow> proof_server \<Rightarrow> proof_server" where
  "emitWebhookEvent ev s = s\<lparr>pv_events := pv_events s @ [ev]\<rparr>"

text \<open>The start: the rows in the order of the query, and the granted users.\<close>

definition PG_Load :: "Proof list \<Rightarrow> ProofEngine" where
  "PG_Load rows = foldl Restore Engine_New rows"

definition LoadKYC :: "proof_db \<Rightarrow> gostring \<rightharpoonup> DeFiAccess" where
  "LoadKYC d = (\<lambda>u. map_option (\<lambda>(pid, ts). \<lparr>da_User = u, da_Whitelisted = True, da_ProofID = pid\<rparr>) (db_kyc d u))"

definition restart :: "gostring list \<Rightarrow> proof_db \<Rightarrow> proof_server" where
  "restart ks d =
     \<lparr>pv_eng = PG_Load (sort_key p_TS (range_values ks (db_proofs d))), pv_whitelist = LoadKYC d, pv_db = Some d, pv_events = []\<rparr>"

section \<open>Generating proofs\<close>

datatype proof_api_error =
    InvalidBody | ProofIdRequired | NotFound | FieldsRequired | FieldTooLong | AnchoredUnavailable | SubmissionFailed
  | BatchSize | NotAuthorized | EngineError engine_error | KycFailed gostring | SaveFailed | ModelFieldsRequired | NoDatabase

fun proof_status :: "proof_api_error \<Rightarrow> int" where
  "proof_status NotFound = 404"
| "proof_status AnchoredUnavailable = 503"
| "proof_status SubmissionFailed = 502"
| "proof_status NotAuthorized = 403"
| "proof_status SaveFailed = 500"
| "proof_status NoDatabase = 404"
| "proof_status _ = 400"

record proof_request =
  pr_Agent :: gostring
  pr_Input :: gostring
  pr_Output :: gostring
  pr_Model :: gostring
  pr_UseCase :: gostring

text \<open>The engine returns the stored proof itself, so setting its deploy hash changes the engine.\<close>

definition set_deploy :: "Proof \<Rightarrow> gostring \<Rightarrow> proof_server \<Rightarrow> proof_server" where
  "set_deploy p d s = s\<lparr>pv_eng := (pv_eng s)\<lparr>proofs := (proofs (pv_eng s))(p_ID p \<mapsto> p\<lparr>p_Deploy := d\<rparr>)\<rparr>\<rparr>"

text \<open>One generation with its submission: \<open>None\<close> when strict mode refuses the failed submission.\<close>

definition generate_anchored ::
  "chain_config \<Rightarrow> int \<Rightarrow> int \<Rightarrow> bool \<Rightarrow> gostring \<Rightarrow> gostring \<Rightarrow> proof_request \<Rightarrow> proof_server \<Rightarrow> Proof option \<times> proof_server" where
  "generate_anchored c elapsed now saved pubKey mode req s =
     (let (e, p) = GenerateWithKey (pv_eng s) elapsed now (pr_Agent req) pubKey (pr_Input req) (pr_Output req) (pr_Model req) (pr_UseCase req) mode;
          s = s\<lparr>pv_eng := e\<rparr>;
          computed = HexHash (p_Root p @ p_ID p)
      in if mode = ''anchored'' then
           (case cc_chain c of
              None \<Rightarrow> let p' = p\<lparr>p_Deploy := computed\<rparr> in (Some p', persist saved p' (set_deploy p computed s))
            | Some submit \<Rightarrow>
                (case submit p of
                   Some dh \<Rightarrow> let p' = p\<lparr>p_Deploy := dh\<rparr> in (Some p', persist saved p' (set_deploy p dh s))
                 | None \<Rightarrow>
                     if cc_strict c then (None, s)
                     else let p' = p\<lparr>p_Deploy := computed\<rparr> in (Some p', persist saved p' (set_deploy p computed s))))
         else (Some p, persist saved p s))"

definition mode_of :: "gostring \<Rightarrow> gostring" where
  "mode_of m = (if m = [] then ''local'' else m)"

definition missing_field :: "proof_request \<Rightarrow> bool" where
  "missing_field r \<longleftrightarrow> pr_Agent r = [] \<or> pr_Input r = [] \<or> pr_Output r = [] \<or> pr_Model r = []"

definition submitProof ::
  "chain_config \<Rightarrow> int \<Rightarrow> int \<Rightarrow> bool \<Rightarrow> gostring \<Rightarrow> (proof_request \<times> gostring) option \<Rightarrow> proof_server \<Rightarrow> (proof_api_error + Proof) \<times> proof_server" where
  "submitProof c elapsed now saved pubKey req s =
     (case req of
        None \<Rightarrow> (Inl InvalidBody, s)
      | Some (r, m) \<Rightarrow>
          if missing_field r then (Inl FieldsRequired, s)
          else if length (pr_Agent r) > 128 \<or> length (pr_Input r) > 10240 \<or> length (pr_Output r) > 10240 \<or> length (pr_Model r) > 256
            then (Inl FieldTooLong, s)
          else let mode = mode_of m in
            if mode = ''anchored'' \<and> cc_strict c \<and> cc_chain c = None then (Inl AnchoredUnavailable, s)
            else (case generate_anchored c elapsed now saved pubKey mode r s of
                    (None, s) \<Rightarrow> (Inl SubmissionFailed, s)
                  | (Some p, s) \<Rightarrow>
                      (Inr p, if mode = ''anchored'' then emitWebhookEvent (ProofAnchored (p_ID p) (p_Agent p) (p_Deploy p) (pr_UseCase r)) s else s)))"

text \<open>The loop of a batch; each round has its own readings of the clock.\<close>

fun batch_loop ::
  "chain_config \<Rightarrow> (int \<times> int \<times> bool) list \<Rightarrow> gostring \<Rightarrow> gostring \<Rightarrow> proof_request list \<Rightarrow> proof_server \<Rightarrow> Proof list \<Rightarrow> (proof_api_error + Proof list) \<times> proof_server" where
  "batch_loop c (t # ts) pubKey mode (r # rs) s results =
     (if missing_field r then batch_loop c ts pubKey mode rs s results
      else case t of (elapsed, now, saved) \<Rightarrow>
        (case generate_anchored c elapsed now saved pubKey mode r s of
           (None, s) \<Rightarrow> (Inl SubmissionFailed, s)
         | (Some p, s) \<Rightarrow> batch_loop c ts pubKey mode rs s (results @ [p])))"
| "batch_loop c ts pubKey mode rs s results = (Inr results, s)"

definition batchProofs ::
  "chain_config \<Rightarrow> (int \<times> int \<times> bool) list \<Rightarrow> gostring \<Rightarrow> (proof_request list \<times> gostring) option \<Rightarrow> proof_server \<Rightarrow> (proof_api_error + Proof list) \<times> proof_server" where
  "batchProofs c ts pubKey req s =
     (case req of
        None \<Rightarrow> (Inl InvalidBody, s)
      | Some (rs, m) \<Rightarrow>
          if rs = [] \<or> length rs > 50 then (Inl BatchSize, s)
          else let mode = mode_of m in
            if mode = ''anchored'' \<and> cc_strict c \<and> cc_chain c = None then (Inl AnchoredUnavailable, s)
            else batch_loop c ts pubKey mode rs s [])"

section \<open>Reading and verifying\<close>

definition getProof :: "proof_server \<Rightarrow> gostring \<Rightarrow> proof_api_error + Proof" where
  "getProof s pid = (if pid = [] then Inl ProofIdRequired else case Engine_Get (pv_eng s) pid of None \<Rightarrow> Inl NotFound | Some p \<Rightarrow> Inr p)"

text \<open>\<open>page\<close> and \<open>limit\<close> are the numbers of the query, zero when they are no numbers.\<close>

definition listProofs :: "proof_server \<Rightarrow> gostring list \<Rightarrow> gostring \<Rightarrow> gostring \<Rightarrow> gostring \<Rightarrow> int \<Rightarrow> int \<Rightarrow> Proof list \<times> int" where
  "listProofs s ks agent pubKey mode page limit =
     (let limit = (if limit \<le> 0 \<or> limit > 100 then 20 else limit); page = (if page \<le> 0 then 1 else page)
      in ListFiltered (pv_eng s) ks \<lparr>f_Agent = agent, f_PubKey = pubKey, f_Mode = mode, f_Page = page, f_Limit = limit\<rparr>)"

record checks =
  ck_input :: bool
  ck_output :: bool
  ck_model :: bool
  ck_commit :: bool
  ck_merkle :: bool

record verify_reply =
  vr_proof_id :: gostring
  vr_valid :: bool
  vr_revoked :: bool
  vr_result :: "(verify_error option \<times> checks) option"

record verify_request =
  vq_ProofID :: gostring
  vq_Input :: gostring
  vq_Output :: gostring
  vq_Model :: gostring

definition has_data :: "verify_request \<Rightarrow> bool" where
  "has_data r \<longleftrightarrow> vq_Input r \<noteq> [] \<and> vq_Output r \<noteq> [] \<and> vq_Model r \<noteq> []"

definition proof_checks :: "Proof \<Rightarrow> verify_request \<Rightarrow> checks" where
  "proof_checks p r =
     \<lparr>ck_input = (HexHash (vq_Input r) = p_IH p), ck_output = (HexHash (vq_Output r) = p_OH p), ck_model = (HexHash (vq_Model r) = p_MH p),
      ck_commit = VerifyCommit (p_PH p) (vq_Input r) (vq_Output r) (vq_Model r),
      ck_merkle = VerifyPath (vq_Input r) (p_Path p) (p_Root p) (p_Idx p)\<rparr>"

definition verifyProof :: "verify_request option \<Rightarrow> proof_server \<Rightarrow> (proof_api_error + verify_reply) \<times> proof_server" where
  "verifyProof req s =
     (case req of
        None \<Rightarrow> (Inl InvalidBody, s)
      | Some r \<Rightarrow>
          if vq_ProofID r = [] then (Inl ProofIdRequired, s)
          else (case Engine_Get (pv_eng s) (vq_ProofID r) of
            None \<Rightarrow> (Inl NotFound, s)
          | Some p \<Rightarrow>
              if has_data r then
                let err = VerifyProof (Some p) (vq_Input r) (vq_Output r) (vq_Model r)
                in (Inr \<lparr>vr_proof_id = vq_ProofID r, vr_valid = p_Valid p, vr_revoked = p_Revoked p, vr_result = Some (err, proof_checks p r)\<rparr>,
                    if err = None then emitWebhookEvent (ProofVerified (vq_ProofID r) (p_Agent p) (vq_Model r)) s else s)
              else (Inr \<lparr>vr_proof_id = vq_ProofID r, vr_valid = p_Valid p, vr_revoked = p_Revoked p, vr_result = None\<rparr>, s)))"

text \<open>One item of a batch: its entry of the reply and whether it keeps the batch valid.\<close>

definition verify_item :: "proof_server \<Rightarrow> verify_request \<Rightarrow> (proof_api_error + verify_reply) \<times> bool" where
  "verify_item s r =
     (if vq_ProofID r = [] then (Inl ProofIdRequired, False)
      else case Engine_Get (pv_eng s) (vq_ProofID r) of
        None \<Rightarrow> (Inl NotFound, False)
      | Some p \<Rightarrow>
          if has_data r then
            let err = VerifyProof (Some p) (vq_Input r) (vq_Output r) (vq_Model r)
            in (Inr \<lparr>vr_proof_id = vq_ProofID r, vr_valid = p_Valid p, vr_revoked = p_Revoked p, vr_result = Some (err, proof_checks p r)\<rparr>, err = None)
          else (Inr \<lparr>vr_proof_id = vq_ProofID r, vr_valid = p_Valid p, vr_revoked = p_Revoked p, vr_result = None\<rparr>, p_Valid p \<and> \<not> p_Revoked p))"

fun verify_items :: "proof_server \<Rightarrow> verify_request list \<Rightarrow> (proof_api_error + verify_reply) list \<Rightarrow> bool \<Rightarrow> (proof_api_error + verify_reply) list \<times> bool" where
  "verify_items s [] results allValid = (results, allValid)"
| "verify_items s (r # rs) results allValid =
     (let (entry, ok) = verify_item s r in verify_items s rs (results @ [entry]) (if ok then allValid else False))"

definition verifyBatch :: "verify_request list option \<Rightarrow> proof_server \<Rightarrow> proof_api_error + (proof_api_error + verify_reply) list \<times> bool" where
  "verifyBatch req s =
     (case req of
        None \<Rightarrow> Inl InvalidBody
      | Some rs \<Rightarrow> if rs = [] \<or> length rs > 50 then Inl BatchSize else Inr (verify_items s rs [] True))"

section \<open>Revoking and granting\<close>

text \<open>\<open>None\<close> as the reason stands for a body that could not be decoded; the field is then empty.\<close>

definition revokeProof ::
  "bool \<Rightarrow> gostring \<Rightarrow> gostring \<Rightarrow> gostring option \<Rightarrow> proof_server \<Rightarrow> (proof_api_error + gostring) \<times> proof_server" where
  "revokeProof saved pubKey pid reason s =
     (if pubKey \<noteq> [] \<and> (case Engine_Get (pv_eng s) pid of None \<Rightarrow> False | Some p \<Rightarrow> p_PubKey p \<noteq> [] \<and> p_PubKey p \<noteq> pubKey)
      then (Inl NotAuthorized, s)
      else let why = (case reason of None \<Rightarrow> [] | Some w \<Rightarrow> w);
               (e, err) = Engine_Revoke (pv_eng s) pid why
           in (case err of
                 Some x \<Rightarrow> (Inl (EngineError x), s)
               | None \<Rightarrow>
                   let s = s\<lparr>pv_eng := e\<rparr>;
                       s = (case Engine_Get e pid of None \<Rightarrow> s | Some p \<Rightarrow> persistUpdate saved p s)
                   in (Inr pid, emitWebhookEvent (SlashExecuted pid why) s)))"

definition CheckKYC :: "int \<Rightarrow> proof_server \<Rightarrow> gostring \<Rightarrow> engine_error + KYCResult" where
  "CheckKYC now s pid =
     (case Engine_Verify (pv_eng s) pid of
        Inl e \<Rightarrow> Inl e
      | Inr valid \<Rightarrow> Inr \<lparr>kr_ProofID = pid, kr_Verified = valid, kr_TS = now\<rparr>)"

definition GrantAccess :: "int \<Rightarrow> proof_server \<Rightarrow> gostring \<Rightarrow> gostring \<Rightarrow> (proof_api_error + DeFiAccess) \<times> proof_server" where
  "GrantAccess now s user pid =
     (case CheckKYC now s pid of
        Inl e \<Rightarrow> (Inl (EngineError e), s)
      | Inr res \<Rightarrow>
          if \<not> kr_Verified res then (Inl (KycFailed pid), s)
          else let access = \<lparr>da_User = user, da_Whitelisted = True, da_ProofID = pid\<rparr>
               in (Inr access, s\<lparr>pv_whitelist := (pv_whitelist s)(user \<mapsto> access)\<rparr>))"

definition IsWhitelisted :: "proof_server \<Rightarrow> gostring \<Rightarrow> bool" where
  "IsWhitelisted s user = (case pv_whitelist s user of None \<Rightarrow> False | Some a \<Rightarrow> da_Whitelisted a)"

definition kycCheck :: "int \<Rightarrow> gostring option \<Rightarrow> proof_server \<Rightarrow> proof_api_error + KYCResult" where
  "kycCheck now req s =
     (case req of
        None \<Rightarrow> Inl InvalidBody
      | Some pid \<Rightarrow> (case CheckKYC now s pid of Inl e \<Rightarrow> Inl (EngineError e) | Inr r \<Rightarrow> Inr r))"

definition kycGrant :: "int \<Rightarrow> int \<Rightarrow> bool \<Rightarrow> (gostring \<times> gostring) option \<Rightarrow> proof_server \<Rightarrow> (proof_api_error + DeFiAccess) \<times> proof_server" where
  "kycGrant t0 now saved req s =
     (case req of
        None \<Rightarrow> (Inl InvalidBody, s)
      | Some (user, pid) \<Rightarrow>
          (case GrantAccess t0 s user pid of
             (Inl e, s) \<Rightarrow> (Inl e, s)
           | (Inr access, s) \<Rightarrow> (Inr access, emitWebhookEvent (KYCGranted user pid) (with_db saved (SaveKYC user pid now) s))))"

section \<open>Inference\<close>

definition GenerateInferenceProof ::
  "(Proof \<Rightarrow> gostring option) option \<Rightarrow> int \<Rightarrow> int \<Rightarrow> bool \<Rightarrow> gostring \<Rightarrow> gostring \<Rightarrow> gostring \<Rightarrow> gostring \<Rightarrow> gostring \<Rightarrow> gostring
     \<Rightarrow> proof_server \<Rightarrow> (proof_api_error + Proof) \<times> proof_server" where
  "GenerateInferenceProof chain elapsed now saved agent input output model uc pubKey s =
     (let (e, p) = GenerateWithKey (pv_eng s) elapsed now agent pubKey input output model uc ''inference'';
          s = s\<lparr>pv_eng := e\<rparr>;
          (p, s) = (case chain of
             None \<Rightarrow> (p, s)
           | Some submit \<Rightarrow>
               if pubKey = [] then (p, s)
               else (case submit p of None \<Rightarrow> (p, s) | Some dh \<Rightarrow> (p\<lparr>p_Deploy := dh\<rparr>, set_deploy p dh s)))
      in if pv_db s \<noteq> None \<and> \<not> saved then (Inl SaveFailed, s) else (Inr p, persist saved p s))"

definition inferenceProve ::
  "(Proof \<Rightarrow> gostring option) option \<Rightarrow> int \<Rightarrow> int \<Rightarrow> bool \<Rightarrow> (proof_request \<times> gostring) option \<Rightarrow> proof_server \<Rightarrow> (proof_api_error + Proof) \<times> proof_server" where
  "inferenceProve chain elapsed now saved req s =
     (case req of
        None \<Rightarrow> (Inl InvalidBody, s)
      | Some (r, pubKey) \<Rightarrow>
          GenerateInferenceProof chain elapsed now saved (if pr_Agent r = [] then ''api-client'' else pr_Agent r)
            (pr_Input r) (pr_Output r) (pr_Model r) (if pr_UseCase r = [] then ''inference'' else pr_UseCase r) pubKey s)"

definition VerifyInferenceProof :: "proof_server \<Rightarrow> gostring \<Rightarrow> engine_error + bool" where
  "VerifyInferenceProof s pid =
     (case Engine_Get (pv_eng s) pid of
        None \<Rightarrow> Inl (ProofNotFound pid)
      | Some p \<Rightarrow> Engine_Verify (pv_eng s) pid)"

definition RegisterModel ::
  "gostring option option \<Rightarrow> int \<Rightarrow> bool \<Rightarrow> bool \<Rightarrow> gostring \<Rightarrow> gostring \<Rightarrow> gostring \<Rightarrow> (gostring \<rightharpoonup> gostring) \<Rightarrow> proof_server
     \<Rightarrow> (proof_api_error + ModelRegistryEntry) \<times> proof_server" where
  "RegisterModel submitted now saved saved2 modelID modelHash verifierContract metadata s =
     (if modelID = [] \<or> modelHash = [] \<or> verifierContract = [] then (Inl ModelFieldsRequired, s)
      else let entry = \<lparr>me_ModelID = modelID, me_ModelHash = modelHash, me_VerifierContract = verifierContract, me_Metadata = metadata,
                        me_RegisteredAt = now, me_DeployHash = []\<rparr>
           in if pv_db s \<noteq> None \<and> \<not> saved then (Inl SaveFailed, s)
              else let s = with_db saved (SaveModelRegistryEntry entry) s
                   in (case submitted of
                         Some (Some dh) \<Rightarrow>
                           let entry = entry\<lparr>me_DeployHash := dh\<rparr> in (Inr entry, with_db saved2 (SaveModelRegistryEntry entry) s)
                       | _ \<Rightarrow> (Inr entry, s)))"

definition GetModelInfo :: "proof_server \<Rightarrow> gostring \<Rightarrow> proof_api_error + ModelRegistryEntry" where
  "GetModelInfo s modelID =
     (case pv_db s of
        None \<Rightarrow> Inl NoDatabase
      | Some d \<Rightarrow> (case db_models d modelID of None \<Rightarrow> Inl NotFound | Some e \<Rightarrow> Inr e))"

section \<open>Batches of verifications\<close>

lemma verify_items_map:
  "verify_items s rs results ok = (results @ map (\<lambda>r. fst (verify_item s r)) rs, ok \<and> list_all (\<lambda>r. snd (verify_item s r)) rs)"
  by (induction rs arbitrary: results ok) (auto simp: case_prod_beta)

text \<open>
  The batch endpoint is the single one, item by item. A batch of one to fifty items is answered with the replies
  of the single endpoint in the order of the request, and it is valid exactly when every item names a stored proof that
  verifies against the given data or, where no data is given, is valid and not revoked.
\<close>

theorem verifyBatch_single:
  assumes "rs \<noteq> []" "length rs \<le> 50"
  shows "verifyBatch (Some rs) s =
    Inr (map (\<lambda>r. fst (verifyProof (Some r) s)) rs,
         \<forall>r \<in> set rs. vq_ProofID r \<noteq> [] \<and> (\<exists>p. Engine_Get (pv_eng s) (vq_ProofID r) = Some p \<and>
           (if has_data r then VerifyProof (Some p) (vq_Input r) (vq_Output r) (vq_Model r) = None
            else Engine_Verify (pv_eng s) (vq_ProofID r) = Inr True)))"
proof -
  have "fst (verify_item s r) = fst (verifyProof (Some r) s)" for r
    by (auto simp: verify_item_def verifyProof_def Let_def split: option.splits)
  moreover have "snd (verify_item s r) \<longleftrightarrow> vq_ProofID r \<noteq> [] \<and> (\<exists>p. Engine_Get (pv_eng s) (vq_ProofID r) = Some p \<and>
      (if has_data r then VerifyProof (Some p) (vq_Input r) (vq_Output r) (vq_Model r) = None
       else Engine_Verify (pv_eng s) (vq_ProofID r) = Inr True))" for r
    by (auto simp: verify_item_def Engine_Get_def Engine_Verify_def Let_def split: option.splits)
  ultimately show ?thesis using assms by (simp add: verifyBatch_def verify_items_map list_all_iff)
qed

theorem verifyBatch_single_witness:
  "let s = \<lparr>pv_eng = Engine_New, pv_whitelist = Map.empty, pv_db = None, pv_events = []\<rparr>;
       r = \<lparr>vq_ProofID = ''P-1'', vq_Input = [], vq_Output = [], vq_Model = []\<rparr>
   in verifyBatch (Some [r]) s = Inr ([Inl NotFound], False)"
  by (simp add: verifyBatch_single) (simp add: verifyProof_def Engine_Get_def Engine_New_def)

section \<open>Sequences of requests and restarts\<close>

inductive api_step :: "proof_server \<Rightarrow> proof_server \<Rightarrow> bool" where
  submit: "seq (pv_eng s) < 2 ^ 63 - 1 \<Longrightarrow> api_step s (snd (submitProof c elapsed now saved pubKey req s))"
| batch: "seq (pv_eng s) + 50 < 2 ^ 63 \<Longrightarrow> api_step s (snd (batchProofs c ts pubKey breq s))"
| verify: "api_step s (snd (verifyProof vreq s))"
| revoke: "api_step s (snd (revokeProof saved pubKey pid reason s))"
| grant: "api_step s (snd (kycGrant t0 now saved greq s))"
| infer: "seq (pv_eng s) < 2 ^ 63 - 1 \<Longrightarrow> api_step s (snd (inferenceProve chain elapsed now saved req s))"
| register: "api_step s (snd (RegisterModel submitted now saved saved2 i h v m s))"
| restart: "pv_db s = Some d \<Longrightarrow> db_proofs d \<noteq> Map.empty \<Longrightarrow> ranges ks (db_proofs d) \<Longrightarrow> api_step s (restart ks d)"

abbreviation api_run :: "proof_server \<Rightarrow> proof_server \<Rightarrow> bool" where
  "api_run \<equiv> api_step\<^sup>*\<^sup>*"

definition fresh_server :: proof_server where
  "fresh_server = \<lparr>pv_eng = Engine_New, pv_whitelist = Map.empty,
     pv_db = Some \<lparr>db_proofs = Map.empty, db_kyc = Map.empty, db_models = Map.empty\<rparr>, pv_events = []\<rparr>"

text \<open>The rows carry their own identifiers, and the counter has passed every numbered one.\<close>

definition rows_inv :: "int \<Rightarrow> (gostring \<rightharpoonup> Proof) \<Rightarrow> bool" where
  "rows_inv n m \<longleftrightarrow> (\<forall>pid r. m pid = Some r \<longrightarrow> p_ID r = pid \<and> (\<forall>k. 0 \<le> k \<and> k < 2 ^ 63 \<and> pid = pid_of k \<longrightarrow> k \<le> n))"

definition api_inv :: "proof_server \<Rightarrow> bool" where
  "api_inv s \<longleftrightarrow> engine_inv (pv_eng s) \<and> (case pv_db s of None \<Rightarrow> True | Some d \<Rightarrow> rows_inv (seq (pv_eng s)) (db_proofs d))"

definition revoked_for_good :: "gostring \<Rightarrow> proof_server \<Rightarrow> bool" where
  "revoked_for_good pid s \<longleftrightarrow> (\<forall>p. proofs (pv_eng s) pid = Some p \<longrightarrow> p_Revoked p) \<and>
     (\<exists>d r. pv_db s = Some d \<and> db_proofs d pid = Some r \<and> p_Revoked r)"

text \<open>What a generating handler does to engine and table.\<close>

definition gen_effect :: "proof_server \<Rightarrow> proof_server \<Rightarrow> bool" where
  "gen_effect s s' \<longleftrightarrow> (\<exists>elapsed now agent pubKey input output model uc mode e p p'.
     GenerateWithKey (pv_eng s) elapsed now agent pubKey input output model uc mode = (e, p) \<and> p_ID p' = p_ID p \<and>
     proofs (pv_eng s') = (proofs e)(p_ID p \<mapsto> p') \<and> seq (pv_eng s') = seq e \<and>
     (pv_db s' = pv_db s \<or> (\<exists>d. pv_db s = Some d \<and> pv_db s' = Some (PG_Save p' d))))"

lemma gen_effectI:
  assumes "GenerateWithKey (pv_eng s) elapsed now agent pubKey input output model uc mode = (e, p)" "p_ID p' = p_ID p"
    and "proofs (pv_eng s') = (proofs e)(p_ID p \<mapsto> p')" "seq (pv_eng s') = seq e"
    and "pv_db s' = pv_db s \<or> (\<exists>d. pv_db s = Some d \<and> pv_db s' = Some (PG_Save p' d))"
  shows "gen_effect s s'"
  using assms unfolding gen_effect_def by blast

lemma GenerateWithKey_stores:
  "GenerateWithKey e elapsed now agent pubKey input output model uc mode = (e', p) \<Longrightarrow> (proofs e')(p_ID p \<mapsto> p) = proofs e'"
  by (auto simp: GenerateWithKey_def new_proof_def Let_def)

lemma persist_fields:
  "pv_eng (persist saved p s) = pv_eng s"
  "pv_db (persist saved p s) = pv_db s \<or> (\<exists>d. pv_db s = Some d \<and> pv_db (persist saved p s) = Some (PG_Save p d))"
  by (auto simp: persist_def with_db_def split: option.splits)

lemma set_deploy_fields:
  "proofs (pv_eng (set_deploy p d s)) = (proofs (pv_eng s))(p_ID p \<mapsto> p\<lparr>p_Deploy := d\<rparr>)"
  "seq (pv_eng (set_deploy p d s)) = seq (pv_eng s)" "pv_db (set_deploy p d s) = pv_db s"
  by (simp_all add: set_deploy_def)

lemma gen_effects:
  assumes g: "GenerateWithKey (pv_eng s) elapsed now agent pubKey input output model uc mode = (e, p)"
  shows "gen_effect s (s\<lparr>pv_eng := e\<rparr>)" "gen_effect s (persist saved p (s\<lparr>pv_eng := e\<rparr>))"
    and "gen_effect s (set_deploy p d (s\<lparr>pv_eng := e\<rparr>))"
    and "gen_effect s (persist saved (p\<lparr>p_Deploy := d\<rparr>) (set_deploy p d (s\<lparr>pv_eng := e\<rparr>)))"
proof -
  let ?s = "s\<lparr>pv_eng := e\<rparr>" and ?p = "p\<lparr>p_Deploy := d\<rparr>"
  note stored = GenerateWithKey_stores [OF g]
  show "gen_effect s ?s" by (rule gen_effectI [OF g HOL.refl]) (simp_all add: stored)
  show "gen_effect s (persist saved p ?s)"
    by (rule gen_effectI [OF g HOL.refl]) (use persist_fields [of saved p ?s] stored in simp_all)
  show "gen_effect s (set_deploy p d ?s)" by (rule gen_effectI [OF g, of ?p]) (simp_all add: set_deploy_fields)
  show "gen_effect s (persist saved ?p (set_deploy p d ?s))"
    by (rule gen_effectI [OF g, of ?p]) (use persist_fields [of saved ?p "set_deploy p d ?s"] in \<open>simp_all add: set_deploy_fields\<close>)
qed

lemma generate_anchored_effect: "gen_effect s (snd (generate_anchored c elapsed now saved pubKey mode req s))"
proof -
  obtain e p where g: "GenerateWithKey (pv_eng s) elapsed now (pr_Agent req) pubKey (pr_Input req) (pr_Output req) (pr_Model req) (pr_UseCase req) mode = (e, p)"
    by fastforce
  show ?thesis using g gen_effects [OF g] by (auto simp: generate_anchored_def Let_def split: option.splits)
qed

lemma inference_effect: "gen_effect s (snd (GenerateInferenceProof chain elapsed now saved agent input output model uc pubKey s))"
proof -
  obtain e p where g: "GenerateWithKey (pv_eng s) elapsed now agent pubKey input output model uc ''inference'' = (e, p)"
    by fastforce
  show ?thesis using g gen_effects [OF g] by (auto simp: GenerateInferenceProof_def Let_def split: option.splits)
qed

lemma GenerateWithKey_old:
  assumes "GenerateWithKey e elapsed now agent pubKey input output model uc mode = (e', p)" "q \<noteq> p_ID p" "proofs e' q = Some x"
  shows "proofs e q = Some x"
proof -
  define i where "i = pid_of (wrap64 (seq (evictIfNeeded e) + 1))"
  define p0 where "p0 = new_proof i elapsed now agent pubKey input output model uc mode"
  have "proofs e' = (proofs (evictIfNeeded e))(i \<mapsto> p0)" "p = p0"
    using assms(1) by (simp_all add: GenerateWithKey_def i_def p0_def Let_def split: prod.splits) auto
  moreover have "p_ID p0 = i" by (simp add: p0_def new_proof_def Let_def)
  ultimately show ?thesis using assms(2,3) evictIfNeeded_sub(1) [of e q x] by (simp split: if_splits)
qed

lemma rows_inv_mono: "rows_inv n m \<Longrightarrow> n \<le> n' \<Longrightarrow> rows_inv n' m"
  unfolding rows_inv_def by (blast intro: order_trans)

lemma rows_invD: "rows_inv n m \<Longrightarrow> m pid = Some r \<Longrightarrow> 0 \<le> k \<Longrightarrow> k < 2 ^ 63 \<Longrightarrow> pid = pid_of k \<Longrightarrow> k \<le> n"
  unfolding rows_inv_def by blast

lemma gen_effect_step:
  assumes "gen_effect s s'" "api_inv s" "seq (pv_eng s) < 2 ^ 63 - 1"
  shows "api_inv s'" "seq (pv_eng s') = seq (pv_eng s) + 1" "revoked_for_good pid s \<Longrightarrow> revoked_for_good pid s'"
proof -
  let ?n = "seq (pv_eng s)"
  from assms(1) obtain elapsed now agent pubKey inp out model uc mode e p p' where
    g: "GenerateWithKey (pv_eng s) elapsed now agent pubKey inp out model uc mode = (e, p)" and id: "p_ID p' = p_ID p"
    and e': "proofs (pv_eng s') = (proofs e)(p_ID p \<mapsto> p')" "seq (pv_eng s') = seq e"
    and db: "pv_db s' = pv_db s \<or> (\<exists>d. pv_db s = Some d \<and> pv_db s' = Some (PG_Save p' d))"
    unfolding gen_effect_def by blast
  have inv: "engine_inv (pv_eng s)" "0 \<le> ?n" using assms(2) by (simp_all add: api_inv_def engine_inv_def)
  have seq: "seq e = ?n + 1" and pid: "p_ID p = pid_of (?n + 1)"
    using GenerateWithKey_simps [OF g inv(2) assms(3)] by simp_all
  have old: "q \<noteq> p_ID p \<Longrightarrow> proofs e q = Some x \<Longrightarrow> proofs (pv_eng s) q = Some x" for q x
    using GenerateWithKey_old [OF g] by blast
  have "engine_inv e" using engine_inv_generate [OF inv(1) assms(3)] g by (metis fst_conv)
  then have "engine_inv (e\<lparr>proofs := (proofs e)(p_ID p \<mapsto> p'), seq := seq e\<rparr>)"
    by (rule engine_inv_insert) (use id pid inv(2) assms(3) in \<open>auto simp: seq pid_inject\<close>)
  then have "engine_inv (pv_eng s')" using e' by (metis ProofEngine.surjective ProofEngine.update_convs(1,2) old.unit.exhaust)
  moreover have rows: "rows_inv (?n + 1) (db_proofs (PG_Save p' d))" if "rows_inv ?n (db_proofs d)" for d
    using that id pid inv(2) assms(3) rows_inv_mono [OF that, of "?n + 1"]
    by (auto simp: rows_inv_def PG_Save_def proof_row_def pid_inject split: option.splits)
  ultimately show "api_inv s'" using assms(2) db rows_inv_mono [of ?n _ "?n + 1"] by (auto simp: api_inv_def e'(2) seq split: option.splits)
  show "seq (pv_eng s') = ?n + 1" using e'(2) seq by simp
  show "revoked_for_good pid s'" if good: "revoked_for_good pid s"
  proof -
    from good obtain d r where d: "pv_db s = Some d" "db_proofs d pid = Some r" "p_Revoked r" by (auto simp: revoked_for_good_def)
    then have "rows_inv ?n (db_proofs d)" using assms(2) by (simp add: api_inv_def)
    from rows_invD [OF this d(2), of "?n + 1"] have new: "pid \<noteq> p_ID p" using pid inv(2) assms(3) by auto
    then show ?thesis using good old e' db id d by (auto simp: revoked_for_good_def PG_Save_def)
  qed
qed

lemma batch_loop_step:
  assumes "api_inv s" "seq (pv_eng s) + int (length rs) < 2 ^ 63"
  shows "api_inv (snd (batch_loop c ts pubKey mode rs s results)) \<and>
    (revoked_for_good pid s \<longrightarrow> revoked_for_good pid (snd (batch_loop c ts pubKey mode rs s results)))"
  using assms
proof (induction c ts pubKey mode rs s results rule: batch_loop.induct)
  case (1 c t ts pubKey mode r rs s results)
  show ?case
  proof (cases "missing_field r")
    case True
    with 1 show ?thesis by auto
  next
    case False
    obtain elapsed now saved where t: "t = (elapsed, now, saved)" by (cases t)
    obtain q s1 where q: "generate_anchored c elapsed now saved pubKey mode r s = (q, s1)" by fastforce
    have "gen_effect s s1" using generate_anchored_effect [of s c elapsed now saved pubKey mode r] q by simp
    note step = gen_effect_step [OF this 1(3)]
    show ?thesis
    proof (cases q)
      case None
      then show ?thesis using step 1(4) False t q by simp
    next
      case (Some p)
      have "api_inv s1" "seq (pv_eng s1) + int (length rs) < 2 ^ 63" using step 1(4) by simp_all
      from 1(2) [OF False t [symmetric] HOL.refl q [symmetric] Some this] step 1(4) show ?thesis using False t q Some by simp
    qed
  qed
qed auto

text \<open>A step that leaves engine and proof rows as they are.\<close>

lemma same_step:
  assumes "pv_eng s' = pv_eng s" "map_option db_proofs (pv_db s') = map_option db_proofs (pv_db s)"
  shows "api_inv s \<Longrightarrow> api_inv s'" "revoked_for_good pid s \<Longrightarrow> revoked_for_good pid s'"
proof -
  have "pv_db s' = None \<and> pv_db s = None \<or> (\<exists>d d'. pv_db s = Some d \<and> pv_db s' = Some d' \<and> db_proofs d' = db_proofs d)"
    using assms(2) by (cases "pv_db s"; cases "pv_db s'") auto
  then show "api_inv s \<Longrightarrow> api_inv s'" "revoked_for_good pid s \<Longrightarrow> revoked_for_good pid s'"
    using assms(1) by (auto simp: api_inv_def revoked_for_good_def)
qed

lemma revoke_step:
  assumes "api_inv s"
  shows "api_inv (snd (revokeProof saved pubKey q reason s))"
    and "revoked_for_good pid s \<Longrightarrow> revoked_for_good pid (snd (revokeProof saved pubKey q reason s))"
proof -
  let ?s = "snd (revokeProof saved pubKey q reason s)"
  define why where "why = (case reason of None \<Rightarrow> [] | Some w \<Rightarrow> w)"
  obtain e err where r: "Engine_Revoke (pv_eng s) q why = (e, err)" by fastforce
  have shape: "?s = s \<or> err = None \<and> (\<exists>p. Engine_Get e q = Some p \<and> ?s = emitWebhookEvent (SlashExecuted q why) (persistUpdate saved p (s\<lparr>pv_eng := e\<rparr>)))"
  proof (cases err)
    case None
    then obtain p where "Engine_Get e q = Some p" using r by (auto simp: Engine_Revoke_def Engine_Get_def split: option.splits if_splits)
    then show ?thesis using r None by (simp add: revokeProof_def why_def [symmetric])
  qed (use r in \<open>simp add: revokeProof_def why_def [symmetric]\<close>)
  have inv: "engine_inv e" using engine_inv_revoke [of "pv_eng s" q why] r assms by (simp add: api_inv_def)
  have e: "seq e = seq (pv_eng s)" "i \<noteq> q \<Longrightarrow> proofs e i = proofs (pv_eng s) i"
    "err = None \<Longrightarrow> \<exists>p0. proofs (pv_eng s) q = Some p0 \<and> \<not> p_Revoked p0" for i
    using r by (auto simp: Engine_Revoke_def split: option.splits if_splits)
  have id: "p_ID p = q" if "Engine_Get e q = Some p" for p using inv that by (simp add: engine_inv_def Engine_Get_def)
  have effect: "api_inv (emitWebhookEvent ev (persistUpdate saved p (s\<lparr>pv_eng := e\<rparr>)))" if "Engine_Get e q = Some p" for ev p
    using assms inv e(1) id [OF that]
    by (auto simp: api_inv_def emitWebhookEvent_def persistUpdate_def with_db_def PG_Update_def rows_inv_def split: option.splits)
  then show "api_inv ?s" using shape assms by auto
  show "revoked_for_good pid ?s" if good: "revoked_for_good pid s"
  proof (cases "err = None")
    case True
    then have "pid \<noteq> q" using good e(3) by (auto simp: revoked_for_good_def)
    then have "revoked_for_good pid (emitWebhookEvent ev (persistUpdate saved p (s\<lparr>pv_eng := e\<rparr>)))" if "Engine_Get e q = Some p" for ev p
      using good e(2) id [OF that]
      by (auto simp: revoked_for_good_def emitWebhookEvent_def persistUpdate_def with_db_def PG_Update_def split: option.splits)
    then show ?thesis using shape good by auto
  qed (use shape good in auto)
qed

lemma proofs_Restore: "proofs (Restore e p) = (proofs e)(p_ID p \<mapsto> p)"
  by (simp add: Restore_def Let_def split: option.splits)

lemma load_proofs:
  "engine_inv e \<Longrightarrow> engine_inv (foldl Restore e rows)"
  "proofs (foldl Restore e rows) i = Some p \<Longrightarrow> p \<in> set rows \<and> p_ID p = i \<or> proofs e i = Some p"
  "r \<in> set rows \<Longrightarrow> p_ID r \<in> dom (proofs (foldl Restore e rows))"
proof (induction rows rule: rev_induct)
  case (snoc x rows)
  { case 1 then show ?case using snoc(1) by (simp add: engine_inv_restore)
  next case 2 then show ?case using snoc(2) by (auto simp: proofs_Restore split: if_splits)
  next case 3 then show ?case using snoc(3) by (auto simp: proofs_Restore) }
qed auto

lemma restart_step:
  assumes "api_inv s" "pv_db s = Some d" "ranges ks (db_proofs d)"
  shows "api_inv (restart ks d)" "revoked_for_good pid s \<Longrightarrow> revoked_for_good pid (restart ks d)"
proof -
  define rows where "rows = sort_key p_TS (range_values ks (db_proofs d))"
  have set: "set rows = ran (db_proofs d)" unfolding rows_def using set_range_values [OF assms(3)] by simp
  have ri: "rows_inv (seq (pv_eng s)) (db_proofs d)" using assms(1,2) by (simp add: api_inv_def)
  have start: "engine_inv Engine_New" "proofs Engine_New i = None" for i by (simp_all add: engine_inv_def Engine_New_def)
  note inv = load_proofs(1) [OF start(1), of rows]
  have "rows_inv (seq (PG_Load rows)) (db_proofs d)"
    unfolding rows_inv_def
  proof (intro allI impI conjI)
    fix i r assume i: "db_proofs d i = Some r"
    then show id: "p_ID r = i" using ri by (simp add: rows_inv_def)
    fix k :: int assume k: "0 \<le> k \<and> k < 2 ^ 63 \<and> i = pid_of k"
    have "r \<in> set rows" using i set by (auto simp: ran_def)
    from load_proofs(3) [OF this, of Engine_New] k id show "k \<le> seq (PG_Load rows)"
      unfolding PG_Load_def by (intro engine_invD [OF inv]) auto
  qed
  then show "api_inv (restart ks d)" using inv by (simp add: api_inv_def restart_def PG_Load_def rows_def)
  show "revoked_for_good pid (restart ks d)" if good: "revoked_for_good pid s"
  proof -
    obtain r where r: "db_proofs d pid = Some r" "p_Revoked r" using good assms(2) by (auto simp: revoked_for_good_def)
    have "p_Revoked p" if "proofs (PG_Load rows) pid = Some p" for p
    proof -
      have "p \<in> set rows" "p_ID p = pid" using load_proofs(2) [OF that [unfolded PG_Load_def]] start(2) by auto
      then obtain i where "db_proofs d i = Some p" using set by (auto simp: ran_def)
      then have "db_proofs d pid = Some p" using ri \<open>p_ID p = pid\<close> by (auto simp: rows_inv_def)
      with r show ?thesis by simp
    qed
    with r show ?thesis by (auto simp: revoked_for_good_def restart_def rows_def)
  qed
qed

lemma GrantAccess_fields:
  "pv_eng (snd (GrantAccess t s u i)) = pv_eng s" "pv_db (snd (GrantAccess t s u i)) = pv_db s"
  by (auto simp: GrantAccess_def Let_def split: sum.splits)

lemma api_step_inv:
  assumes "api_step s s'" "api_inv s"
  shows "api_inv s' \<and> (revoked_for_good pid s \<longrightarrow> revoked_for_good pid s')"
  using assms
proof cases
  case (submit c elapsed now saved pubKey req)
  have ev: "api_inv (emitWebhookEvent ev t) = api_inv t" "revoked_for_good pid (emitWebhookEvent ev t) = revoked_for_good pid t" for ev t
    by (simp_all add: api_inv_def revoked_for_good_def emitWebhookEvent_def cong: option.case_cong)
  have "api_inv (snd (generate_anchored c elapsed now saved pubKey m r s)) \<and>
      (revoked_for_good pid s \<longrightarrow> revoked_for_good pid (snd (generate_anchored c elapsed now saved pubKey m r s)))" for m r
    using gen_effect_step [OF generate_anchored_effect assms(2) submit(2)] by auto
  then show ?thesis unfolding submit(1) using assms(2) ev
    by (auto simp: submitProof_def Let_def split: option.splits prod.splits) (metis snd_conv)+
next
  case (batch c ts pubKey breq)
  have "api_inv (snd (batch_loop c ts pubKey m rs s [])) \<and> (revoked_for_good pid s \<longrightarrow> revoked_for_good pid (snd (batch_loop c ts pubKey m rs s [])))"
    if "length rs \<le> 50" for m rs
    using batch_loop_step [OF assms(2)] batch(2) that by simp
  then show ?thesis unfolding batch(1) using assms(2) by (auto simp: batchProofs_def Let_def split: option.splits)
next
  case (verify vreq)
  have "pv_eng s' = pv_eng s" "map_option db_proofs (pv_db s') = map_option db_proofs (pv_db s)"
    unfolding verify by (auto simp: verifyProof_def emitWebhookEvent_def Let_def split: option.splits)
  then show ?thesis using same_step assms(2) by blast
next
  case (revoke saved pubKey q reason)
  then show ?thesis using revoke_step [OF assms(2)] by blast
next
  case (grant t0 now saved greq)
  have "pv_eng s' = pv_eng s" "map_option db_proofs (pv_db s') = map_option db_proofs (pv_db s)"
    unfolding grant using GrantAccess_fields
    by (auto simp: kycGrant_def with_db_def SaveKYC_def emitWebhookEvent_def split: option.splits sum.splits prod.splits) (metis snd_conv option.simps)+
  then show ?thesis using same_step assms(2) by blast
next
  case (infer chain elapsed now saved req)
  have "api_inv t \<and> (revoked_for_good pid s \<longrightarrow> revoked_for_good pid t)" if "gen_effect s t" for t
    using gen_effect_step [OF that assms(2) infer(2)] by blast
  then show ?thesis unfolding infer(1) using assms(2) inference_effect by (auto simp: inferenceProve_def split: option.splits)
next
  case (register submitted now saved saved2 i h v m)
  have "pv_eng s' = pv_eng s" "map_option db_proofs (pv_db s') = map_option db_proofs (pv_db s)"
    unfolding register by (auto simp: RegisterModel_def with_db_def SaveModelRegistryEntry_def Let_def split: option.splits)
  then show ?thesis using same_step assms(2) by blast
next
  case (restart d ks)
  then show ?thesis using restart_step [OF assms(2)] by blast
qed

lemma api_run_inv: "api_run s s' \<Longrightarrow> api_inv s \<Longrightarrow> api_inv s' \<and> (revoked_for_good pid s \<longrightarrow> revoked_for_good pid s')"
  by (induction rule: rtranclp_induct) (auto dest: api_step_inv [where pid = pid])

lemma revoke_seals:
  assumes "revokeProof True pubKey pid reason s = (Inr x, s1)" "api_inv s" "pv_db s = Some d" "db_proofs d pid \<noteq> None"
  shows "revoked_for_good pid s1"
proof -
  define why where "why = (case reason of None \<Rightarrow> [] | Some w \<Rightarrow> w)"
  obtain e err where r: "Engine_Revoke (pv_eng s) pid why = (e, err)" by fastforce
  have none: "err = None" using assms(1) r by (auto simp: revokeProof_def why_def [symmetric] split: if_splits option.splits)
  then obtain p0 where p0: "proofs (pv_eng s) pid = Some p0" "proofs e pid = Some (p0\<lparr>p_Valid := False, p_Revoked := True\<rparr>)"
    using r by (auto simp: Engine_Revoke_def split: option.splits if_splits)
  then have id: "p_ID p0 = pid" using assms(2) by (simp add: api_inv_def engine_inv_def)
  obtain r0 where "db_proofs d pid = Some r0" using assms(4) by blast
  then show ?thesis using assms(1,3) r none p0 id
    by (auto simp: revokeProof_def why_def [symmetric] Engine_Get_def persistUpdate_def with_db_def PG_Update_def emitWebhookEvent_def
        revoked_for_good_def split: if_splits)
qed


definition sample_proof_request :: proof_request where
  "sample_proof_request = \<lparr>pr_Agent = ''a'', pr_Input = ''i'', pr_Output = ''o'', pr_Model = ''m'', pr_UseCase = []\<rparr>"

lemma new_proof_fields:
  "p_ID (new_proof i elapsed now agent pk input output model uc mode) = i"
  "p_PubKey (new_proof i elapsed now agent pk input output model uc mode) = pk"
  "p_Valid (new_proof i elapsed now agent pk input output model uc mode)"
  "\<not> p_Revoked (new_proof i elapsed now agent pk input output model uc mode)"
  by (simp_all add: new_proof_def Let_def)

lemma sample_submitted:
  "\<exists>p s. submitProof \<lparr>cc_strict = False, cc_chain = None\<rparr> 0 7 True ''pk'' (Some (sample_proof_request, [])) fresh_server = (Inr p, s) \<and>
     api_run fresh_server s \<and> proofs (pv_eng s) (pid_of 1) = Some p \<and> p_PubKey p = ''pk'' \<and> \<not> p_Revoked p \<and>
     (\<exists>d. pv_db s = Some d \<and> db_proofs d (pid_of 1) \<noteq> None)"
proof -
  let ?c = "\<lparr>cc_strict = False, cc_chain = None\<rparr>"
  define p where "p = new_proof (pid_of 1) 0 7 ''a'' ''pk'' ''i'' ''o'' ''m'' [] ''local''"
  obtain q s where q: "submitProof ?c 0 7 True ''pk'' (Some (sample_proof_request, [])) fresh_server = (q, s)" by fastforce
  have run: "api_step fresh_server s"
    using api_step.submit [of fresh_server ?c 0 7 True "''pk''" "Some (sample_proof_request, [])"] q by (simp add: fresh_server_def Engine_New_def)
  have "GenerateWithKey Engine_New 0 7 ''a'' ''pk'' ''i'' ''o'' ''m'' [] ''local'' = (\<lparr>proofs = [pid_of 1 \<mapsto> p], seq = 1\<rparr>, p)"
    by (simp add: GenerateWithKey_def evictIfNeeded_def Engine_New_def p_def wrap64_small MaxProofs_def Let_def)
  then have "q = Inr p" "pv_eng s = \<lparr>proofs = [pid_of 1 \<mapsto> p], seq = 1\<rparr>" "pv_db s = Some (PG_Save p (the (pv_db fresh_server)))"
    using q by (auto simp: submitProof_def missing_field_def sample_proof_request_def mode_of_def generate_anchored_def
        fresh_server_def persist_def with_db_def)
  moreover have "p_ID p = pid_of 1" "p_PubKey p = ''pk''" "\<not> p_Revoked p" by (simp_all add: p_def new_proof_fields)
  ultimately show ?thesis using q run by (intro exI [of _ p] exI [of _ s]) (simp add: PG_Save_def)
qed


text \<open>Without the header the endpoint revokes any proof, whoever owns it.\<close>

lemma revoke_without_key:
  assumes "proofs (pv_eng s) pid = Some p" "\<not> p_Revoked p"
  shows "fst (revokeProof saved [] pid reason s) = Inr pid"
  using assms by (simp add: revokeProof_def Engine_Revoke_def Let_def split: prod.splits)

text \<open>In strict mode a proof whose submission failed stays in the engine and verifies, although the request was refused.\<close>

lemma failed_submission_stays:
  assumes "\<not> missing_field r" "length (pr_Agent r) \<le> 128" "length (pr_Input r) \<le> 10240" "length (pr_Output r) \<le> 10240" "length (pr_Model r) \<le> 256"
  shows "submitProof \<lparr>cc_strict = True, cc_chain = Some (\<lambda>_. None)\<rparr> elapsed now saved pk (Some (r, ''anchored'')) s =
    (Inl SubmissionFailed, s\<lparr>pv_eng := fst (GenerateWithKey (pv_eng s) elapsed now (pr_Agent r) pk (pr_Input r) (pr_Output r) (pr_Model r) (pr_UseCase r) ''anchored'')\<rparr>)"
  using assms by (simp add: submitProof_def mode_of_def generate_anchored_def Let_def not_less split: prod.splits)

text \<open>A granted user stays on the list when the proof is revoked.\<close>

lemma whitelist_ignores_revocation: "IsWhitelisted (snd (revokeProof saved pk pid reason s)) u = IsWhitelisted s u"
proof -
  have "pv_whitelist (snd (revokeProof saved pk pid reason s)) = pv_whitelist s"
    by (auto simp: revokeProof_def persistUpdate_def with_db_def emitWebhookEvent_def Let_def split: option.splits prod.splits)
  then show ?thesis by (simp add: IsWhitelisted_def)
qed

end
