(* ===== verification/Webhooks.thy ===== *)
theory Webhooks
  imports Http_Pipeline "HOL-Library.Multiset"
begin

text \<open>
  Outbound event delivery, \<^verbatim>\<open>engine/internal/api/webhooks.go\<close>. The subscriptions live on a heap, since
  the worker keeps pointers to them while they may be unregistered; the events that the worker has taken
  off the queue are the list \<open>ws_pending\<close>. Every section under the lock is one operation, so that the
  worker's deliveries interleave with the requests. The receivers (a function of what is sent), the clock readings
  (\<open>clk i\<close> is the \<open>i\<close>-th one of an operation), the random source and the parser of HTTP dates are arguments;
  metrics are left out. The lemmas show that no event is lost, how often it is tried, and how far retries are apart.
\<close>

section \<open>Data\<close>

definition EventProofVerified :: gostring where "EventProofVerified = ''proof.verified''"
definition EventProofAnchored :: gostring where "EventProofAnchored = ''proof.anchored''"
definition EventSlashExecuted :: gostring where "EventSlashExecuted = ''slash.executed''"
definition EventGovernanceExecute :: gostring where "EventGovernanceExecute = ''governance.executed''"
definition EventKYCGranted :: gostring where "EventKYCGranted = ''kyc.granted''"
definition EventKYCRevoked :: gostring where "EventKYCRevoked = ''kyc.revoked''"

definition KnownWebhookEvents :: "gostring list" where
  "KnownWebhookEvents =
     [EventProofVerified, EventProofAnchored, EventSlashExecuted, EventGovernanceExecute, EventKYCGranted, EventKYCRevoked]"

record webhookSubscription =
  sb_ID :: gostring
  sb_URL :: gostring
  sb_Events :: "gostring list"
  sb_CreatedAt :: int
  sb_OwnerKey :: gostring
  sb_secret :: gostring
  sb_Attempts :: int
  sb_Deliveries :: int
  sb_Failures :: int
  sb_LastAttemptAt :: int
  sb_LastStatusCode :: int
  sb_LastError :: gostring
  sb_ConsecutiveFailures :: int
  sb_CircuitOpenUntil :: int
  sb_CircuitTrippedTotal :: int

record webhookEvent =
  we_SubID :: gostring
  we_Kind :: gostring
  we_Body :: bytes
  we_Attempts :: int
  we_NextTryAt :: int
  we_LastError :: gostring
  we_CreatedAt :: int

record deadLetter =
  dl_DeliveryID :: gostring
  dl_Event :: webhookEvent
  dl_FailedAt :: int
  dl_URL :: gostring
  dl_OwnerKey :: gostring
  dl_Replayed :: int

record webhookStore =
  ws_heap :: "nat \<rightharpoonup> webhookSubscription"
  ws_fresh :: nat
  ws_subs :: "gostring \<rightharpoonup> nat"
  ws_queue :: "webhookEvent list"
  ws_dead :: "deadLetter list"
  ws_pending :: "webhookEvent list"
  ws_copy :: "gostring \<rightharpoonup> nat"

definition seconds :: int where "seconds = 10 ^ 9"

definition webhookMaxAttempts :: int where "webhookMaxAttempts = 8"
definition webhookMaxBackoff :: int where "webhookMaxBackoff = 5 * 60 * seconds"
definition webhookInitialBackoff :: int where "webhookInitialBackoff = seconds"
definition webhookDeadLetterLimit :: nat where "webhookDeadLetterLimit = 1000"
definition webhookRetryAfterCeiling :: int where "webhookRetryAfterCeiling = 15 * 60 * seconds"
definition circuitBreakerThreshold :: int where "circuitBreakerThreshold = 20"
definition circuitBreakerCooldown :: int where "circuitBreakerCooldown = 2 * 60 * seconds"
definition webhookDeadLetterTTL :: int where "webhookDeadLetterTTL = 24 * 3600 * seconds"

definition newWebhookStore :: webhookStore where
  "newWebhookStore = \<lparr>ws_heap = Map.empty, ws_fresh = 0, ws_subs = Map.empty, ws_queue = [], ws_dead = [], ws_pending = [], ws_copy = Map.empty\<rparr>"

definition isKnownEvent :: "gostring \<Rightarrow> bool" where
  "isKnownEvent kind \<longleftrightarrow> list_ex (\<lambda>e. e = kind) KnownWebhookEvents"

definition subscribedTo :: "gostring list \<Rightarrow> gostring \<Rightarrow> bool" where
  "subscribedTo es kind \<longleftrightarrow> list_ex (\<lambda>e. e = kind \<or> e = ''*'') es"

section \<open>Subscriptions\<close>

text \<open>\<open>c\<close> is the value of the counter after its increment.\<close>

definition newWebhookID :: "int \<Rightarrow> nat \<Rightarrow> gostring" where
  "newWebhookID nanos c =
     (let b = map (\<lambda>i. nat ((nanos div 2 ^ (i * 8)) mod 256)) [0..<6];
          b = b[0 := (b ! 0) XOR (c mod 256)];
          b = b[1 := (b ! 1) XOR ((c div 256) mod 256)]
      in ''wh_'' @ hex_encode (map byte b))"

datatype webhook_error = BadURL | NoEvents | UnknownEvent gostring | WhNotFound | Unregistered

definition new_subscription :: "gostring \<Rightarrow> gostring \<Rightarrow> gostring list \<Rightarrow> int \<Rightarrow> gostring \<Rightarrow> gostring \<Rightarrow> webhookSubscription" where
  "new_subscription i url events now owner secret =
     \<lparr>sb_ID = i, sb_URL = url, sb_Events = events, sb_CreatedAt = now, sb_OwnerKey = owner, sb_secret = secret, sb_Attempts = 0,
      sb_Deliveries = 0, sb_Failures = 0, sb_LastAttemptAt = zero_time, sb_LastStatusCode = 0, sb_LastError = [],
      sb_ConsecutiveFailures = 0, sb_CircuitOpenUntil = zero_time, sb_CircuitTrippedTotal = 0\<rparr>"

definition register_hook ::
  "(nat \<Rightarrow> int) \<Rightarrow> nat \<Rightarrow> gostring \<Rightarrow> gostring \<Rightarrow> gostring \<Rightarrow> gostring list \<Rightarrow> webhookStore \<Rightarrow> (webhook_error + webhookSubscription) \<times> webhookStore" where
  "register_hook clk c owner url secret events s =
     (if \<not> HasPrefix url ''https://'' \<and> \<not> HasPrefix url ''http://'' then (Inl BadURL, s)
      else if events = [] then (Inl NoEvents, s)
      else case find (\<lambda>e. \<not> isKnownEvent e) events of
        Some e \<Rightarrow> (Inl (UnknownEvent e), s)
      | None \<Rightarrow>
          let i = newWebhookID (clk 0) c; sub = new_subscription i url events (clk 1) owner secret
          in (Inr sub, s\<lparr>ws_heap := (ws_heap s)(ws_fresh s \<mapsto> sub), ws_fresh := Suc (ws_fresh s), ws_subs := (ws_subs s)(i \<mapsto> ws_fresh s)\<rparr>))"

definition sub_of :: "webhookStore \<Rightarrow> gostring \<Rightarrow> webhookSubscription option" where
  "sub_of s i = (case ws_subs s i of None \<Rightarrow> None | Some a \<Rightarrow> ws_heap s a)"

definition unregister :: "gostring \<Rightarrow> gostring \<Rightarrow> webhookStore \<Rightarrow> webhook_error option \<times> webhookStore" where
  "unregister i owner s =
     (case sub_of s i of
        None \<Rightarrow> (Some WhNotFound, s)
      | Some sub \<Rightarrow> if sb_OwnerKey sub \<noteq> owner then (Some WhNotFound, s) else (None, s\<lparr>ws_subs := (ws_subs s)(i := None)\<rparr>))"

text \<open>The loop that sorts by creation time; the list is kept reversed.\<close>

fun place :: "webhookSubscription \<Rightarrow> webhookSubscription list \<Rightarrow> webhookSubscription list" where
  "place x [] = [x]"
| "place x (y # ys) = (if sb_CreatedAt x < sb_CreatedAt y then y # place x ys else x # y # ys)"

definition list_hooks :: "gostring list \<Rightarrow> gostring \<Rightarrow> webhookStore \<Rightarrow> webhookSubscription list" where
  "list_hooks ks owner s =
     (let own = filter (\<lambda>sub. sb_OwnerKey sub = owner) (List.map_filter (sub_of s) ks)
      in rev (foldl (\<lambda>acc x. place x acc) [] (map (\<lambda>sub. sub\<lparr>sb_secret := []\<rparr>) own)))"

section \<open>Signatures\<close>

definition hmac_pad :: "nat \<Rightarrow> bytes \<Rightarrow> bytes" where
  "hmac_pad x key =
     (let k = (if length key > 64 then sha256 key else key); k = k @ replicate (64 - length k) (byte 0)
      in map (\<lambda>c. byte (of_char c XOR x)) k)"

definition hmac_sha256 :: "bytes \<Rightarrow> bytes \<Rightarrow> bytes" where
  "hmac_sha256 key body = sha256 (hmac_pad 92 key @ sha256 (hmac_pad 54 key @ body))"

definition signWebhook :: "gostring \<Rightarrow> bytes \<Rightarrow> gostring" where
  "signWebhook secret body = (if secret = [] then [] else ''sha256='' @ hex_encode (hmac_sha256 secret body))"

definition VerifyWebhookSignature :: "gostring \<Rightarrow> bytes \<Rightarrow> gostring \<Rightarrow> bool" where
  "VerifyWebhookSignature secret body header =
     (if secret = [] \<or> header = [] then False else signWebhook secret body = header)"

section \<open>Queue and deliveries\<close>

definition new_event :: "int \<Rightarrow> gostring \<Rightarrow> bytes \<Rightarrow> gostring \<Rightarrow> webhookEvent" where
  "new_event now kind body i =
     \<lparr>we_SubID = i, we_Kind = kind, we_Body = body, we_Attempts = 0, we_NextTryAt = now, we_LastError = [], we_CreatedAt = now\<rparr>"

definition enqueue_hook :: "int \<Rightarrow> gostring list \<Rightarrow> gostring \<Rightarrow> bytes \<Rightarrow> webhookStore \<Rightarrow> nat \<times> webhookStore" where
  "enqueue_hook now ks kind body s =
     (let subs = filter (\<lambda>sub. subscribedTo (sb_Events sub) kind) (List.map_filter (sub_of s) ks)
      in (length subs, s\<lparr>ws_queue := ws_queue s @ map (\<lambda>sub. new_event now kind body (sb_ID sub)) subs\<rparr>))"

definition evictExpiredDeadLettersLocked :: "int \<Rightarrow> webhookStore \<Rightarrow> webhookStore" where
  "evictExpiredDeadLettersLocked now s =
     (if ws_dead s = [] then s else s\<lparr>ws_dead := filter (\<lambda>d. dl_FailedAt d > now - webhookDeadLetterTTL) (ws_dead s)\<rparr>)"

text \<open>The split of the queue: what stays, and what is due.\<close>

fun split_queue :: "int \<Rightarrow> webhookStore \<Rightarrow> webhookEvent list \<Rightarrow> webhookEvent list \<Rightarrow> webhookEvent list \<Rightarrow> webhookEvent list \<times> webhookEvent list" where
  "split_queue now s [] remaining pending = (remaining, pending)"
| "split_queue now s (ev # evs) remaining pending =
     (if we_NextTryAt ev > now then split_queue now s evs (remaining @ [ev]) pending
      else case sub_of s (we_SubID ev) of
        Some sub \<Rightarrow>
          if sb_CircuitOpenUntil sub > now then split_queue now s evs (remaining @ [ev\<lparr>we_NextTryAt := sb_CircuitOpenUntil sub\<rparr>]) pending
          else split_queue now s evs remaining (pending @ [ev])
      | None \<Rightarrow> split_queue now s evs remaining (pending @ [ev]))"

definition deliver_begin :: "int \<Rightarrow> webhookStore \<Rightarrow> webhookStore" where
  "deliver_begin now s0 =
     (let s = evictExpiredDeadLettersLocked now s0; (remaining, pending) = split_queue now s (ws_queue s) [] []
      in s\<lparr>ws_queue := remaining, ws_pending := pending, ws_copy := ws_subs s\<rparr>)"

definition idempotencyKey :: "gostring \<Rightarrow> int \<Rightarrow> bytes \<Rightarrow> gostring" where
  "idempotencyKey i attempt body = i @ ''-'' @ show_int attempt @ ''-'' @ hex_encode (take 4 (sha256 body))"

definition newDeadLetterID :: "gostring \<Rightarrow> int \<Rightarrow> gostring" where
  "newDeadLetterID i createdAt = ''dl_'' @ hex_encode (take 6 (sha256 (i @ ''|'' @ format_RFC3339Nano createdAt)))"

text \<open>\<open>r\<close> is the number drawn, reduced below the bound, \<open>None\<close> when the source fails.\<close>

definition jitteredBackoff :: "int option \<Rightarrow> int \<Rightarrow> int" where
  "jitteredBackoff r attempt0 =
     (let attempt = (if attempt0 < 1 then 1 else attempt0);
          c = wrap64 (webhookInitialBackoff * 2 ^ nat (attempt - 1));
          c = (if c > webhookMaxBackoff \<or> c < 0 then webhookMaxBackoff else c)
      in if c \<le> 0 then 0 else case r of None \<Rightarrow> c | Some n \<Rightarrow> n mod c)"

text \<open>\<^verbatim>\<open>Time.Sub\<close> saturates.\<close>

definition time_sub :: "int \<Rightarrow> int \<Rightarrow> int" where
  "time_sub t u = min (2 ^ 63 - 1) (max (- (2 ^ 63)) (t - u))"

definition parseRetryAfter :: "(gostring \<Rightarrow> int option) \<Rightarrow> gostring \<Rightarrow> int \<Rightarrow> int" where
  "parseRetryAfter ParseTime v0 now =
     (let v = TrimSpace v0 in
      if v = [] then 0
      else case Atoi v of
        Some secs \<Rightarrow> if secs < 0 then 0 else wrap64 (secs * seconds)
      | None \<Rightarrow> (case ParseTime v of Some t \<Rightarrow> let d = time_sub t now in if d < 0 then 0 else d | None \<Rightarrow> 0))"

definition recordSuccess :: "(nat \<Rightarrow> int) \<Rightarrow> nat \<Rightarrow> int \<Rightarrow> webhookStore \<Rightarrow> webhookStore" where
  "recordSuccess clk a code s =
     (case ws_heap s a of
        None \<Rightarrow> s
      | Some sub \<Rightarrow> s\<lparr>ws_heap := (ws_heap s)(a \<mapsto>
          sub\<lparr>sb_Attempts := sb_Attempts sub + 1, sb_Deliveries := sb_Deliveries sub + 1, sb_LastAttemptAt := clk 0,
              sb_LastStatusCode := code, sb_LastError := [], sb_ConsecutiveFailures := 0, sb_CircuitOpenUntil := zero_time\<rparr>)\<rparr>)"

definition failed_sub :: "(nat \<Rightarrow> int) \<Rightarrow> gostring \<Rightarrow> int \<Rightarrow> webhookSubscription \<Rightarrow> webhookSubscription" where
  "failed_sub clk msg code sub =
     (let sub = sub\<lparr>sb_Attempts := sb_Attempts sub + 1, sb_Failures := sb_Failures sub + 1, sb_LastAttemptAt := clk 0,
                   sb_LastStatusCode := code, sb_LastError := msg, sb_ConsecutiveFailures := sb_ConsecutiveFailures sub + 1\<rparr>
      in if sb_ConsecutiveFailures sub \<ge> circuitBreakerThreshold \<and> sb_CircuitOpenUntil sub < clk 1
         then sub\<lparr>sb_CircuitOpenUntil := clk 2 + circuitBreakerCooldown, sb_CircuitTrippedTotal := sb_CircuitTrippedTotal sub + 1\<rparr>
         else sub)"

definition keep_last :: "nat \<Rightarrow> 'a list \<Rightarrow> 'a list" where
  "keep_last n xs = (if length xs > n then drop (length xs - n) xs else xs)"

definition retry_delay :: "int option \<Rightarrow> int \<Rightarrow> int \<Rightarrow> int" where
  "retry_delay r attempts retryAfter =
     (let backoff = jitteredBackoff r attempts in
      if retryAfter > 0 then
        let ra = (if retryAfter > webhookRetryAfterCeiling then webhookRetryAfterCeiling else retryAfter)
        in if ra > backoff then ra else backoff
      else backoff)"

definition recordFailure ::
  "(nat \<Rightarrow> int) \<Rightarrow> int option \<Rightarrow> nat \<Rightarrow> webhookEvent \<Rightarrow> gostring \<Rightarrow> int \<Rightarrow> int \<Rightarrow> webhookStore \<Rightarrow> webhookStore" where
  "recordFailure clk r a ev0 msg code retryAfter s0 =
     (case ws_heap s0 a of
        None \<Rightarrow> s0
      | Some sub0 \<Rightarrow>
          let sub = failed_sub clk msg code sub0;
              s = s0\<lparr>ws_heap := (ws_heap s0)(a \<mapsto> sub)\<rparr>;
              ev = ev0\<lparr>we_Attempts := we_Attempts ev0 + 1, we_LastError := msg\<rparr>
          in if we_Attempts ev \<ge> webhookMaxAttempts then
               let dl = \<lparr>dl_DeliveryID = newDeadLetterID (sb_ID sub) (we_CreatedAt ev), dl_Event = ev, dl_FailedAt = clk 3,
                         dl_URL = sb_URL sub, dl_OwnerKey = sb_OwnerKey sub, dl_Replayed = 0\<rparr>
               in s\<lparr>ws_dead := keep_last webhookDeadLetterLimit (ws_dead s @ [dl])\<rparr>
             else s\<lparr>ws_queue := ws_queue s @ [ev\<lparr>we_NextTryAt := clk 3 + retry_delay r (we_Attempts ev) retryAfter\<rparr>]\<rparr>)"

text \<open>
  What is sent, and what comes back from the receiver: no request could be built or sent, or a status and the header.
\<close>

record hook_dispatch =
  dp_URL :: gostring
  dp_Header :: "(gostring \<times> gostring) list"
  dp_Body :: bytes

definition dispatch_of :: "int \<Rightarrow> webhookSubscription \<Rightarrow> webhookEvent \<Rightarrow> hook_dispatch" where
  "dispatch_of now sub ev =
     (let sig = signWebhook (sb_secret sub) (we_Body ev)
      in \<lparr>dp_URL = sb_URL sub,
          dp_Header =
            [(''Content-Type'', ''application/json''), (''X-CP-Event'', we_Kind ev),
             (''X-CP-Delivery'', sb_ID sub @ ''-'' @ show_int (we_Attempts ev + 1)),
             (''X-CP-Idempotency-Key'', idempotencyKey (sb_ID sub) (we_Attempts ev + 1) (we_Body ev)),
             (''X-CP-Timestamp'', format_RFC3339 now)] @ (if sig \<noteq> [] then [(''X-CP-Signature'', sig)] else []),
          dp_Body = we_Body ev\<rparr>)"

datatype hook_outcome = SendError gostring | Answered int gostring

definition deliverEvent ::
  "(gostring \<Rightarrow> int option) \<Rightarrow> (nat \<Rightarrow> int) \<Rightarrow> int option \<Rightarrow> (hook_dispatch \<Rightarrow> hook_outcome) \<Rightarrow> (nat \<Rightarrow> int) \<Rightarrow> nat \<Rightarrow> webhookEvent \<Rightarrow> webhookStore \<Rightarrow> webhookStore" where
  "deliverEvent ParseTime clk r send tr a ev s =
     (case ws_heap s a of
        None \<Rightarrow> s
      | Some sub \<Rightarrow>
          (case send (dispatch_of (tr 0) sub ev) of
             SendError msg \<Rightarrow> recordFailure clk r a ev msg 0 0 s
           | Answered code hdr \<Rightarrow>
               let retryAfter = parseRetryAfter ParseTime hdr (tr 1) in
               if code \<ge> 200 \<and> code < 300 then recordSuccess clk a code s
               else recordFailure clk r a ev (''http '' @ show_int code) code retryAfter s))"

text \<open>One round of the loop over the due events.\<close>

definition deliver_next ::
  "(gostring \<Rightarrow> int option) \<Rightarrow> (nat \<Rightarrow> int) \<Rightarrow> int option \<Rightarrow> (hook_dispatch \<Rightarrow> hook_outcome) \<Rightarrow> (nat \<Rightarrow> int) \<Rightarrow> webhookStore \<Rightarrow> webhookStore" where
  "deliver_next ParseTime clk r send tr s =
     (case ws_pending s of
        [] \<Rightarrow> s
      | ev # evs \<Rightarrow>
          let s = s\<lparr>ws_pending := evs\<rparr> in
          (case ws_copy s (we_SubID ev) of None \<Rightarrow> s | Some a \<Rightarrow> deliverEvent ParseTime clk r send tr a ev s))"

definition deadLetters :: "webhookStore \<Rightarrow> deadLetter list" where
  "deadLetters s = ws_dead s"

fun find_dead :: "gostring \<Rightarrow> deadLetter list \<Rightarrow> nat \<Rightarrow> nat option" where
  "find_dead i [] n = None"
| "find_dead i (d # ds) n = (if dl_DeliveryID d = i then Some n else find_dead i ds (Suc n))"

definition replay_dead :: "int \<Rightarrow> gostring \<Rightarrow> gostring \<Rightarrow> webhookStore \<Rightarrow> (webhook_error + gostring) \<times> webhookStore" where
  "replay_dead now i owner s =
     (case find_dead i (ws_dead s) 0 of
        None \<Rightarrow> (Inl WhNotFound, s)
      | Some idx \<Rightarrow>
          let dl = ws_dead s ! idx in
          if dl_OwnerKey dl \<noteq> owner then (Inl WhNotFound, s)
          else if ws_subs s (we_SubID (dl_Event dl)) = None then (Inl Unregistered, s)
          else let ev = (dl_Event dl)\<lparr>we_Attempts := 0, we_LastError := [], we_NextTryAt := now\<rparr>
               in (Inr (dl_DeliveryID dl),
                   s\<lparr>ws_queue := ws_queue s @ [ev], ws_dead := take idx (ws_dead s) @ drop (Suc idx) (ws_dead s)\<rparr>))"

section \<open>Handlers\<close>

text \<open>
  The handlers of \<^verbatim>\<open>webhooks_handlers.go\<close>. The subsystem is absent when \<open>hs_app\<close> is \<open>None\<close>; a body
  that does not decode is \<open>None\<close>. A scope check that fails has answered 403 itself.
\<close>

record webhookRegisterRequest =
  wr_URL :: gostring
  wr_Secret :: gostring
  wr_Events :: "gostring list"

datatype wh_refusal = Disabled | BadBody | Forbidden | Refused webhook_error

fun wh_status :: "wh_refusal \<Rightarrow> int" where
  "wh_status Disabled = 503"
| "wh_status BadBody = 400"
| "wh_status Forbidden = 403"
| "wh_status (Refused BadURL) = 400"
| "wh_status (Refused NoEvents) = 400"
| "wh_status (Refused (UnknownEvent e)) = 400"
| "wh_status (Refused WhNotFound) = 404"
| "wh_status (Refused Unregistered) = 409"

type_synonym wserver = "webhookStore option hserver"

definition callerHash :: "request \<Rightarrow> gostring" where
  "callerHash r =
     (let k = TrimSpace (Get (rq_Header r) ''X-API-Key''); k = (if k = [] then ''anon'' else k)
      in hex_encode (take 8 (sha256 (''cp-webhook-owner|'' @ k))))"

definition webhooksCreate ::
  "(nat \<Rightarrow> int) \<Rightarrow> nat \<Rightarrow> request \<Rightarrow> webhookRegisterRequest option \<Rightarrow> wserver \<Rightarrow> (wh_refusal + webhookSubscription) \<times> wserver" where
  "webhooksCreate clk c r body s =
     (case hs_app s of
        None \<Rightarrow> (Inl Disabled, s)
      | Some ws \<Rightarrow>
          (case body of
             None \<Rightarrow> (Inl BadBody, s)
           | Some q \<Rightarrow>
               let (ok, r) = enforceScope s r ''webhooks:write'' in
               if \<not> ok then (Inl Forbidden, s)
               else case register_hook clk c (callerHash r) (wr_URL q) (wr_Secret q) (wr_Events q) ws of
                 (Inl e, ws) \<Rightarrow> (Inl (Refused e), s\<lparr>hs_app := Some ws\<rparr>)
               | (Inr sub, ws) \<Rightarrow> (Inr (sub\<lparr>sb_secret := []\<rparr>), s\<lparr>hs_app := Some ws\<rparr>)))"

definition webhooksList :: "gostring list \<Rightarrow> request \<Rightarrow> wserver \<Rightarrow> wh_refusal + webhookSubscription list" where
  "webhooksList ks r s =
     (case hs_app s of
        None \<Rightarrow> Inl Disabled
      | Some ws \<Rightarrow>
          let (ok, r) = enforceScope s r ''webhooks:read'' in
          if \<not> ok then Inl Forbidden else Inr (list_hooks ks (callerHash r) ws))"

definition webhooksDelete :: "request \<Rightarrow> gostring \<Rightarrow> wserver \<Rightarrow> wh_refusal option \<times> wserver" where
  "webhooksDelete r i s =
     (case hs_app s of
        None \<Rightarrow> (Some Disabled, s)
      | Some ws \<Rightarrow>
          let (ok, r) = enforceScope s r ''webhooks:write'' in
          if \<not> ok then (Some Forbidden, s)
          else let (e, ws) = unregister i (callerHash r) ws in (map_option Refused e, s\<lparr>hs_app := Some ws\<rparr>))"

definition webhooksDeadLetters :: "gostring list \<Rightarrow> request \<Rightarrow> wserver \<Rightarrow> wh_refusal + deadLetter list" where
  "webhooksDeadLetters ks r s =
     (case hs_app s of
        None \<Rightarrow> Inl Disabled
      | Some ws \<Rightarrow>
          let (ok, r) = enforceScope s r ''webhooks:read'' in
          if \<not> ok then Inl Forbidden
          else let owned = map sb_ID (list_hooks ks (callerHash r) ws)
               in Inr (filter (\<lambda>dl. we_SubID (dl_Event dl) \<in> set owned) (deadLetters ws)))"

definition webhooksReplayDeadLetter :: "int \<Rightarrow> request \<Rightarrow> gostring \<Rightarrow> wserver \<Rightarrow> (wh_refusal + gostring) \<times> wserver" where
  "webhooksReplayDeadLetter now r i s =
     (case hs_app s of
        None \<Rightarrow> (Inl Disabled, s)
      | Some ws \<Rightarrow>
          let (ok, r) = enforceScope s r ''webhooks:write'' in
          if \<not> ok then (Inl Forbidden, s)
          else case replay_dead now i (callerHash r) ws of
            (Inl e, ws) \<Rightarrow> (Inl (Refused e), s\<lparr>hs_app := Some ws\<rparr>)
          | (Inr d, ws) \<Rightarrow> (Inr d, s\<lparr>hs_app := Some ws\<rparr>))"

section \<open>Runs of the subsystem\<close>

text \<open>
  The sections under the lock that requests and the worker execute, in any order. The worker is a single goroutine:
  it takes due events off the queue only after it is done with the last ones.
\<close>

datatype wh_call =
    Register "nat \<Rightarrow> int" nat gostring gostring gostring "gostring list"
  | Unregister gostring gostring
  | Enqueue int "gostring list" gostring bytes
  | DeliverBegin int
  | DeliverNext "gostring \<Rightarrow> int option" "nat \<Rightarrow> int" "int option" "hook_dispatch \<Rightarrow> hook_outcome" "nat \<Rightarrow> int"
  | Replay int gostring gostring

fun wh_exec :: "wh_call \<Rightarrow> webhookStore \<Rightarrow> webhookStore" where
  "wh_exec (Register clk c owner url secret events) s = snd (register_hook clk c owner url secret events s)"
| "wh_exec (Unregister i owner) s = snd (unregister i owner s)"
| "wh_exec (Enqueue now ks kind body) s = snd (enqueue_hook now ks kind body s)"
| "wh_exec (DeliverBegin now) s = (if ws_pending s = [] then deliver_begin now s else s)"
| "wh_exec (DeliverNext PT clk r send tr) s = deliver_next PT clk r send tr s"
| "wh_exec (Replay now i owner) s = snd (replay_dead now i owner s)"

text \<open>What identifies an event, and what has become of the ones no longer held.\<close>

type_synonym etag = "gostring \<times> gostring \<times> bytes \<times> int"

definition etag :: "webhookEvent \<Rightarrow> etag" where
  "etag ev = (we_SubID ev, we_Kind ev, we_Body ev, we_CreatedAt ev)"

datatype fate = Delivered | Unsubscribed | Evicted

fun accepted :: "hook_outcome \<Rightarrow> bool" where
  "accepted (SendError m) \<longleftrightarrow> False"
| "accepted (Answered code h) \<longleftrightarrow> 200 \<le> code \<and> code < 300"

definition answer :: "(hook_dispatch \<Rightarrow> hook_outcome) \<Rightarrow> int \<Rightarrow> webhookEvent \<Rightarrow> webhookStore \<Rightarrow> hook_outcome" where
  "answer send now ev s =
     (case ws_copy s (we_SubID ev) of
        None \<Rightarrow> SendError []
      | Some a \<Rightarrow> (case ws_heap s a of None \<Rightarrow> SendError [] | Some sub \<Rightarrow> send (dispatch_of now sub ev)))"

definition held :: "webhookStore \<Rightarrow> etag multiset" where
  "held s = mset (map etag (ws_queue s @ ws_pending s @ map dl_Event (ws_dead s)))"

fun added :: "wh_call \<Rightarrow> webhookStore \<Rightarrow> etag multiset" where
  "added (Enqueue now ks kind body) s = mset (map etag (drop (length (ws_queue s)) (ws_queue (snd (enqueue_hook now ks kind body s)))))"
| "added c s = {#}"

fun gone :: "wh_call \<Rightarrow> webhookStore \<Rightarrow> (fate \<times> etag) multiset" where
  "gone (DeliverBegin now) s =
     (if ws_pending s \<noteq> [] then {#}
      else mset (map (\<lambda>dl. (Evicted, etag (dl_Event dl))) (filter (\<lambda>d. \<not> dl_FailedAt d > now - webhookDeadLetterTTL) (ws_dead s))))"
| "gone (DeliverNext PT clk r send tr) s =
     (case ws_pending s of
        [] \<Rightarrow> {#}
      | ev # evs \<Rightarrow>
          if ws_copy s (we_SubID ev) = None then {#(Unsubscribed, etag ev)#}
          else if accepted (answer send (tr 0) ev s) then {#(Delivered, etag ev)#}
          else if we_Attempts ev + 1 < webhookMaxAttempts then {#}
          else mset (map (\<lambda>dl. (Evicted, etag (dl_Event dl))) (take (Suc (length (ws_dead s)) - webhookDeadLetterLimit) (ws_dead s))))"
| "gone c s = {#}"

type_synonym wh_book = "webhookStore \<times> etag multiset \<times> (fate \<times> etag) multiset"

fun wh_step :: "wh_call \<Rightarrow> wh_book \<Rightarrow> wh_book" where
  "wh_step c (s, enq, out) = (wh_exec c s, enq + added c s, out + gone c s)"

definition wh_run :: "wh_call list \<Rightarrow> wh_book" where
  "wh_run cs = fold wh_step cs (newWebhookStore, {#}, {#})"

section \<open>No event is lost\<close>

definition tries_left :: "webhookEvent \<Rightarrow> bool" where
  "tries_left ev \<longleftrightarrow> 0 \<le> we_Attempts ev \<and> we_Attempts ev < webhookMaxAttempts"

definition live_ptrs :: "(gostring \<rightharpoonup> nat) \<Rightarrow> webhookStore \<Rightarrow> bool" where
  "live_ptrs m s \<longleftrightarrow> ran m \<subseteq> dom (ws_heap s)"

definition wh_inv :: "webhookStore \<Rightarrow> bool" where
  "wh_inv s \<longleftrightarrow> live_ptrs (ws_subs s) s \<and> live_ptrs (ws_copy s) s \<and> length (ws_dead s) \<le> webhookDeadLetterLimit
     \<and> (\<forall>ev\<in>set (ws_queue s @ ws_pending s). tries_left ev)
     \<and> (\<forall>dl\<in>set (ws_dead s). we_Attempts (dl_Event dl) = webhookMaxAttempts)"

lemma wh_invI:
  "live_ptrs (ws_subs s) s \<Longrightarrow> live_ptrs (ws_copy s) s \<Longrightarrow> length (ws_dead s) \<le> webhookDeadLetterLimit \<Longrightarrow>
   \<forall>ev\<in>set (ws_queue s @ ws_pending s). tries_left ev \<Longrightarrow> \<forall>dl\<in>set (ws_dead s). we_Attempts (dl_Event dl) = webhookMaxAttempts \<Longrightarrow> wh_inv s"
  by (simp add: wh_inv_def)

lemma etag_update [simp]:
  "etag (ev\<lparr>we_NextTryAt := t\<rparr>) = etag ev" "etag (ev\<lparr>we_Attempts := n\<rparr>) = etag ev" "etag (ev\<lparr>we_LastError := e\<rparr>) = etag ev"
  by (simp_all add: etag_def)

text \<open>A pass takes exactly the events that are due and whose subscription is not paused.\<close>

definition due :: "int \<Rightarrow> webhookStore \<Rightarrow> webhookEvent \<Rightarrow> bool" where
  "due now s ev \<longleftrightarrow> we_NextTryAt ev \<le> now \<and> (case sub_of s (we_SubID ev) of None \<Rightarrow> True | Some sub \<Rightarrow> sb_CircuitOpenUntil sub \<le> now)"

definition postponed :: "int \<Rightarrow> webhookStore \<Rightarrow> webhookEvent \<Rightarrow> webhookEvent" where
  "postponed now s ev =
     (if we_NextTryAt ev > now then ev
      else case sub_of s (we_SubID ev) of None \<Rightarrow> ev | Some sub \<Rightarrow> ev\<lparr>we_NextTryAt := sb_CircuitOpenUntil sub\<rparr>)"

lemma split_queue_eq:
  "split_queue now s evs remaining pending =
     (remaining @ map (postponed now s) (filter (\<lambda>ev. \<not> due now s ev) evs), pending @ filter (due now s) evs)"
  by (induction evs arbitrary: remaining pending) (simp_all add: due_def postponed_def split: option.split)

lemma etag_postponed [simp]: "etag (postponed now s ev) = etag ev"
  by (simp add: postponed_def split: option.split)

lemma tries_left_postponed [simp]: "tries_left (postponed now s ev) = tries_left ev"
  by (simp add: postponed_def tries_left_def split: option.split)

lemma mset_split: "mset (map f (filter (\<lambda>x. \<not> P x) xs)) + mset (map f (filter P xs)) = mset (map f xs)"
  by (induction xs) simp_all

lemma find_dead_nth: "find_dead i ds n = Some k \<Longrightarrow> n \<le> k \<and> k < n + length ds \<and> dl_DeliveryID (ds ! (k - n)) = i"
proof (induction i ds n rule: find_dead.induct)
  case (2 i d ds n)
  show ?case
  proof (cases "dl_DeliveryID d = i")
    case False
    with 2 have "Suc n \<le> k \<and> k < Suc n + length ds \<and> dl_DeliveryID (ds ! (k - Suc n)) = i" by simp
    moreover from this have "k - n = Suc (k - Suc n)" by linarith
    ultimately show ?thesis by simp
  qed (use 2 in simp)
qed simp

lemma mset_remove_nth: "k < length xs \<Longrightarrow> mset xs = add_mset (xs ! k) (mset (take k xs @ drop (Suc k) xs))"
  by (subst id_take_nth_drop [of k xs]) simp_all

lemma mset_keep_last: "mset (take (length xs - n) xs) + mset (keep_last n xs) = mset xs"
  by (metis append_take_drop_id mset_append keep_last_def diff_is_0_eq not_less take0 append_Nil)

lemma keep_last_length: "length (keep_last n xs) \<le> n"
  by (simp add: keep_last_def)

lemma set_keep_last: "set (keep_last n xs) \<subseteq> set xs"
  by (simp add: keep_last_def set_drop_subset)

text \<open>What one failed attempt does to the store.\<close>

lemma recordFailure_cases:
  assumes "ws_heap s a = Some sub" "tries_left ev"
  shows "\<exists>sub' e'. etag e' = etag ev \<and> we_Attempts e' = we_Attempts ev + 1
    \<and> (we_Attempts ev + 1 < webhookMaxAttempts
         \<and> recordFailure clk r a ev msg code ra s = s\<lparr>ws_heap := (ws_heap s)(a \<mapsto> sub'), ws_queue := ws_queue s @ [e']\<rparr>
       \<or> we_Attempts ev + 1 = webhookMaxAttempts
         \<and> (\<exists>dl. dl_Event dl = e' \<and> dl_OwnerKey dl = sb_OwnerKey sub
              \<and> recordFailure clk r a ev msg code ra s
                  = s\<lparr>ws_heap := (ws_heap s)(a \<mapsto> sub'), ws_dead := keep_last webhookDeadLetterLimit (ws_dead s @ [dl])\<rparr>))"
proof -
  let ?sub = "failed_sub clk msg code sub" and ?e = "ev\<lparr>we_Attempts := we_Attempts ev + 1, we_LastError := msg\<rparr>"
  let ?dl = "\<lparr>dl_DeliveryID = newDeadLetterID (sb_ID ?sub) (we_CreatedAt ?e), dl_Event = ?e, dl_FailedAt = clk 3,
              dl_URL = sb_URL ?sub, dl_OwnerKey = sb_OwnerKey ?sub, dl_Replayed = 0\<rparr>"
  have owner: "sb_OwnerKey ?sub = sb_OwnerKey sub" by (simp add: failed_sub_def Let_def)
  show ?thesis
  proof (cases "we_Attempts ev + 1 < webhookMaxAttempts")
    case True
    let ?q = "?e\<lparr>we_NextTryAt := clk 3 + retry_delay r (we_Attempts ?e) ra\<rparr>"
    show ?thesis using True assms(1)
      by (intro exI [of _ ?sub] exI [of _ ?q]) (simp add: recordFailure_def Let_def)
  next
    case False
    then have "we_Attempts ev + 1 = webhookMaxAttempts" using assms(2) by (simp add: tries_left_def)
    then show ?thesis using assms(1) owner
      by (intro exI [of _ ?sub] exI [of _ ?e] conjI disjI2 exI [of _ ?dl]) (simp_all add: recordFailure_def Let_def)
  qed
qed

definition booked :: "wh_call \<Rightarrow> webhookStore \<Rightarrow> bool" where
  "booked c s \<longleftrightarrow> wh_inv (wh_exec c s) \<and> held (wh_exec c s) + image_mset snd (gone c s) = held s + added c s"

lemma live_ptrs_grow: "live_ptrs m s \<Longrightarrow> ws_heap s' = (ws_heap s)(a \<mapsto> sub) \<Longrightarrow> live_ptrs m s'"
  by (auto simp: live_ptrs_def)

lemma live_ptrs_lookup: "live_ptrs m s \<Longrightarrow> m i = Some a \<Longrightarrow> \<exists>sub. ws_heap s a = Some sub"
  by (auto simp: live_ptrs_def ran_def)

lemma booked_same: "wh_inv s \<Longrightarrow> wh_exec c s = s \<Longrightarrow> gone c s = {#} \<Longrightarrow> added c s = {#} \<Longrightarrow> booked c s"
  by (simp add: booked_def)

lemma booked_Register: "wh_inv s \<Longrightarrow> booked (Register clk c owner url secret events) s"
proof -
  assume s: "wh_inv s"
  have "ws_heap s' = (ws_heap s)(ws_fresh s \<mapsto> sub) \<Longrightarrow> ws_subs s' = (ws_subs s)(i \<mapsto> ws_fresh s) \<Longrightarrow> live_ptrs (ws_subs s') s'" for s' sub i
    using s by (auto simp: wh_inv_def live_ptrs_def ran_def)
  moreover have "ws_heap s' = (ws_heap s)(ws_fresh s \<mapsto> sub) \<Longrightarrow> live_ptrs (ws_copy s) s'" for s' sub
    using s by (auto simp: wh_inv_def intro: live_ptrs_grow)
  ultimately show ?thesis using s
    by (simp add: booked_def register_hook_def Let_def held_def wh_inv_def split: option.split)
qed

lemma booked_Unregister: "wh_inv s \<Longrightarrow> booked (Unregister i owner) s"
  by (auto simp: booked_def unregister_def held_def wh_inv_def live_ptrs_def ran_def split: option.split)

lemma booked_Enqueue: "wh_inv s \<Longrightarrow> booked (Enqueue now ks kind body) s"
  by (auto simp: booked_def enqueue_hook_def held_def wh_inv_def live_ptrs_def Let_def tries_left_def new_event_def webhookMaxAttempts_def)

lemma evict_fields [simp]:
  "ws_heap (evictExpiredDeadLettersLocked now s) = ws_heap s" "ws_subs (evictExpiredDeadLettersLocked now s) = ws_subs s"
  "ws_queue (evictExpiredDeadLettersLocked now s) = ws_queue s" "ws_pending (evictExpiredDeadLettersLocked now s) = ws_pending s"
  "ws_dead (evictExpiredDeadLettersLocked now s) = filter (\<lambda>d. dl_FailedAt d > now - webhookDeadLetterTTL) (ws_dead s)"
  by (simp_all add: evictExpiredDeadLettersLocked_def)

lemma booked_DeliverBegin:
  assumes s: "wh_inv s"
  shows "booked (DeliverBegin now) s"
proof (cases "ws_pending s = []")
  case True
  let ?e = "evictExpiredDeadLettersLocked now s" and ?fresh = "\<lambda>d. dl_FailedAt d > now - webhookDeadLetterTTL"
  have "length (filter ?fresh (ws_dead s)) \<le> webhookDeadLetterLimit"
    using s le_trans [OF length_filter_le] by (auto simp: wh_inv_def)
  then have "wh_inv (deliver_begin now s)"
    using s by (auto simp: wh_inv_def live_ptrs_def deliver_begin_def split_queue_eq Let_def)
  moreover have "held (deliver_begin now s) + image_mset snd (gone (DeliverBegin now) s)
      = mset (map etag (filter (\<lambda>ev. \<not> due now ?e ev) (ws_queue s))) + mset (map etag (filter (due now ?e) (ws_queue s)))
        + (mset (map (\<lambda>d. etag (dl_Event d)) (filter (\<lambda>d. \<not> ?fresh d) (ws_dead s))) + mset (map (\<lambda>d. etag (dl_Event d)) (filter ?fresh (ws_dead s))))"
    using True by (simp add: held_def deliver_begin_def split_queue_eq Let_def image_mset.compositionality comp_def)
  then have "held (deliver_begin now s) + image_mset snd (gone (DeliverBegin now) s) = held s"
    using True unfolding mset_split by (simp add: held_def image_mset.compositionality comp_def)
  ultimately show ?thesis using True by (simp add: booked_def)
qed (use s in \<open>auto intro: booked_same\<close>)

lemma requeue_ok:
  assumes "wh_inv s" "tries_left ev"
  shows "wh_inv (s\<lparr>ws_heap := (ws_heap s)(a \<mapsto> sub), ws_queue := ws_queue s @ [ev]\<rparr>)"
    and "held (s\<lparr>ws_heap := (ws_heap s)(a \<mapsto> sub), ws_queue := ws_queue s @ [ev]\<rparr>) = add_mset (etag ev) (held s)"
  using assms by (auto simp: wh_inv_def held_def intro: live_ptrs_grow)

lemma dead_letter_ok:
  fixes dl :: deadLetter and a :: nat and sub :: webhookSubscription
  assumes "wh_inv s" "we_Attempts (dl_Event dl) = webhookMaxAttempts"
  defines "s' \<equiv> s\<lparr>ws_heap := (ws_heap s)(a \<mapsto> sub), ws_dead := keep_last webhookDeadLetterLimit (ws_dead s @ [dl])\<rparr>"
  shows "wh_inv s'"
    and "held s' + mset (map (\<lambda>d. etag (dl_Event d)) (take (Suc (length (ws_dead s)) - webhookDeadLetterLimit) (ws_dead s)))
           = add_mset (etag (dl_Event dl)) (held s)"
proof -
  have "\<forall>d\<in>set (keep_last webhookDeadLetterLimit (ws_dead s @ [dl])). we_Attempts (dl_Event d) = webhookMaxAttempts"
    using assms(1,2) set_keep_last [of webhookDeadLetterLimit "ws_dead s @ [dl]"] by (auto simp: wh_inv_def)
  then show "wh_inv s'" using assms(1) by (auto simp: s'_def wh_inv_def keep_last_length intro: live_ptrs_grow)
  show "held s' + mset (map (\<lambda>d. etag (dl_Event d)) (take (Suc (length (ws_dead s)) - webhookDeadLetterLimit) (ws_dead s)))
          = add_mset (etag (dl_Event dl)) (held s)"
    using arg_cong [OF mset_keep_last [of "ws_dead s @ [dl]" webhookDeadLetterLimit], of "image_mset (\<lambda>d. etag (dl_Event d))"]
    by (simp add: s'_def held_def image_mset.compositionality comp_def webhookDeadLetterLimit_def ac_simps)
qed

lemma booked_DeliverNext:
  assumes s: "wh_inv s"
  shows "booked (DeliverNext PT clk r send tr) s"
proof (cases "ws_pending s")
  case Nil
  with s show ?thesis by (intro booked_same) (simp_all add: deliver_next_def)
next
  case (Cons ev evs)
  let ?s = "s\<lparr>ws_pending := evs\<rparr>"
  have ev: "tries_left ev" using s Cons by (simp add: wh_inv_def)
  have s': "wh_inv ?s" using s Cons by (simp add: wh_inv_def live_ptrs_def)
  have held: "held s = add_mset (etag ev) (held ?s)" using Cons by (simp add: held_def)
  show ?thesis
  proof (cases "ws_copy s (we_SubID ev)")
    case None
    with Cons s' held show ?thesis by (simp add: booked_def deliver_next_def Let_def)
  next
    case (Some a)
    then obtain sub where sub: "ws_heap ?s a = Some sub" using s Some live_ptrs_lookup [of "ws_copy s" s "we_SubID ev" a] by (auto simp: wh_inv_def)
    have ans: "answer send (tr 0) ev s = send (dispatch_of (tr 0) sub ev)" using Some sub by (simp add: answer_def)
    show ?thesis
    proof (cases "accepted (answer send (tr 0) ev s)")
      case True
      then obtain code h where out: "send (dispatch_of (tr 0) sub ev) = Answered code h" "200 \<le> code" "code < 300"
        unfolding ans by (cases "send (dispatch_of (tr 0) sub ev)") auto
      obtain sub' where "deliver_next PT clk r send tr s = ?s\<lparr>ws_heap := (ws_heap s)(a \<mapsto> sub')\<rparr>"
        using Cons Some sub out by (simp add: deliver_next_def deliverEvent_def recordSuccess_def Let_def)
      moreover have "wh_inv (?s\<lparr>ws_heap := (ws_heap s)(a \<mapsto> sub')\<rparr>)" for sub'
        using s' by (auto simp: wh_inv_def intro: live_ptrs_grow)
      ultimately show ?thesis using True Cons Some held by (simp add: booked_def) (simp add: held_def)
    next
      case False
      obtain msg code ra where "deliver_next PT clk r send tr s = recordFailure clk r a ev msg code ra ?s"
        using Cons Some sub False unfolding ans
        by (cases "send (dispatch_of (tr 0) sub ev)") (auto simp: deliver_next_def deliverEvent_def Let_def)
      with recordFailure_cases [OF sub ev, of clk r msg code ra] obtain sub' e' where e': "etag e' = etag ev" "we_Attempts e' = we_Attempts ev + 1"
        and c: "we_Attempts ev + 1 < webhookMaxAttempts \<and> deliver_next PT clk r send tr s = ?s\<lparr>ws_heap := (ws_heap ?s)(a \<mapsto> sub'), ws_queue := ws_queue ?s @ [e']\<rparr>
           \<or> we_Attempts ev + 1 = webhookMaxAttempts \<and> (\<exists>dl. dl_Event dl = e'
               \<and> deliver_next PT clk r send tr s = ?s\<lparr>ws_heap := (ws_heap ?s)(a \<mapsto> sub'), ws_dead := keep_last webhookDeadLetterLimit (ws_dead ?s @ [dl])\<rparr>)"
        by auto
      from c show ?thesis
      proof (elim disjE conjE exE)
        assume lt: "we_Attempts ev + 1 < webhookMaxAttempts"
          and eq: "deliver_next PT clk r send tr s = ?s\<lparr>ws_heap := (ws_heap ?s)(a \<mapsto> sub'), ws_queue := ws_queue ?s @ [e']\<rparr>"
        have "tries_left e'" using ev e' lt by (simp add: tries_left_def)
        from requeue_ok [OF s' this, of a sub'] show ?thesis
          using lt Cons Some False held e' unfolding booked_def wh_exec.simps eq by simp
      next
        fix dl
        assume last: "we_Attempts ev + 1 = webhookMaxAttempts" and dl: "dl_Event dl = e'"
          and eq: "deliver_next PT clk r send tr s = ?s\<lparr>ws_heap := (ws_heap ?s)(a \<mapsto> sub'), ws_dead := keep_last webhookDeadLetterLimit (ws_dead ?s @ [dl])\<rparr>"
        have "we_Attempts (dl_Event dl) = webhookMaxAttempts" using last dl e' by simp
        from dead_letter_ok [OF s' this, of a sub'] show ?thesis
          using last Cons Some False held dl e' unfolding booked_def wh_exec.simps eq by (simp add: image_mset.compositionality comp_def)
      qed
    qed
  qed
qed

lemma booked_Replay:
  assumes s: "wh_inv s"
  shows "booked (Replay now i owner) s"
proof (cases "replay_dead now i owner s")
  case (Pair res s')
  show ?thesis
  proof (cases res)
    case (Inl e)
    with Pair have "s' = s" by (auto simp: replay_dead_def Let_def split: option.splits if_splits)
    with Pair s show ?thesis by (intro booked_same) simp_all
  next
    case (Inr d)
    with Pair obtain k where k: "find_dead i (ws_dead s) 0 = Some k"
      and s': "s' = s\<lparr>ws_queue := ws_queue s @ [(dl_Event (ws_dead s ! k))\<lparr>we_Attempts := 0, we_LastError := [], we_NextTryAt := now\<rparr>],
                     ws_dead := take k (ws_dead s) @ drop (Suc k) (ws_dead s)\<rparr>"
      by (auto simp: replay_dead_def Let_def split: option.splits if_splits)
    have lt: "k < length (ws_dead s)" using find_dead_nth [OF k] by simp
    have "wh_inv s'" using s lt unfolding s'
      by (auto simp: wh_inv_def live_ptrs_def tries_left_def webhookMaxAttempts_def dest: in_set_takeD in_set_dropD)
    moreover have "held s' = held s" unfolding s'
      using arg_cong [OF mset_remove_nth [OF lt], of "image_mset (\<lambda>d. etag (dl_Event d))"]
      by (simp add: held_def image_mset.compositionality comp_def)
    ultimately show ?thesis using Pair by (simp add: booked_def)
  qed
qed

lemma booked_any: "wh_inv s \<Longrightarrow> booked c s"
  by (cases c) (simp_all add: booked_Register booked_Unregister booked_Enqueue booked_DeliverBegin booked_DeliverNext booked_Replay)

definition balanced :: "wh_book \<Rightarrow> bool" where
  "balanced b = (case b of (s, enq, out) \<Rightarrow> wh_inv s \<and> held s + image_mset snd out = enq)"

lemma balanced_step: "balanced b \<Longrightarrow> balanced (wh_step c b)"
  using booked_any [of "fst b" c]
  by (cases b) (auto simp: balanced_def booked_def ac_simps intro: arg_cong2 [of _ _ _ _ "(+)"])

lemma balanced_run: "balanced (wh_run cs)"
proof -
  have "balanced (fold wh_step cs b)" if "balanced b" for b
    using that by (induction cs arbitrary: b) (simp_all add: balanced_step)
  then show ?thesis
    by (simp add: wh_run_def balanced_def wh_inv_def live_ptrs_def held_def newWebhookStore_def)
qed

text \<open>
  C39: no event that was handed to a subscriber is ever lost. After any interleaving of requests and deliveries, the
  events enqueued so far are exactly the ones in the queue, the ones being delivered, the dead letters, and the ones that
  were accepted by their receiver with a 2xx status, belonged to a subscription that was gone at the time of delivery,
  or were evicted as dead letters by age or number. An event is tried less than eight times before it waits
  or is in flight, a dead letter was tried exactly eight times, and at most a thousand dead letters are kept.
\<close>

theorem events_accounted:
  assumes "wh_run cs = (s, enqueued, left)"
  shows "enqueued = mset (map etag (ws_queue s)) + mset (map etag (ws_pending s)) + mset (map (etag \<circ> dl_Event) (ws_dead s))
           + image_mset snd left
         \<and> (\<forall>ev\<in>set (ws_queue s @ ws_pending s). 0 \<le> we_Attempts ev \<and> we_Attempts ev < 8)
         \<and> (\<forall>dl\<in>set (ws_dead s). we_Attempts (dl_Event dl) = 8) \<and> length (ws_dead s) \<le> 1000"
proof -
  have "wh_inv s \<and> held s + image_mset snd left = enqueued" using balanced_run [of cs] assms by (simp add: balanced_def)
  then show ?thesis
    by (auto simp: wh_inv_def held_def tries_left_def webhookMaxAttempts_def webhookDeadLetterLimit_def image_mset.compositionality)
qed

text \<open>A subscription, an event that fails once and is then accepted, and one that is still waiting.\<close>

definition sample_calls :: "wh_call list" where
  "sample_calls =
     [Register (\<lambda>_. 0) 1 ''alice'' ''https://a'' ''k'' [''kyc.granted''],
      Enqueue 5 [newWebhookID 0 1] ''kyc.granted'' ''x'', DeliverBegin 6, DeliverNext (\<lambda>_. None) (\<lambda>_. 7) (Some 0) (\<lambda>_. Answered 503 ''1'') (\<lambda>_. 7),
      DeliverBegin (2 * 10 ^ 9), DeliverNext (\<lambda>_. None) (\<lambda>_. 8) (Some 0) (\<lambda>_. Answered 204 []) (\<lambda>_. 8),
      Enqueue 9 [newWebhookID 0 1] ''kyc.granted'' ''y'']"

lemma sample_events:
  "fst (snd (wh_run sample_calls)) = {#(''wh_010000000000'', ''kyc.granted'', ''x'', 5), (''wh_010000000000'', ''kyc.granted'', ''y'', 9)#}"
  "snd (snd (wh_run sample_calls)) = {#(Delivered, ''wh_010000000000'', ''kyc.granted'', ''x'', 5)#}"
  "map we_Body (ws_queue (fst (wh_run sample_calls))) = [''y'']"
  by code_simp+

theorem events_accounted_witness:
  "\<exists>s enqueued left. wh_run sample_calls = (s, enqueued, left) \<and> size enqueued = 2 \<and> size left = 1
     \<and> enqueued = mset (map etag (ws_queue s)) + mset (map etag (ws_pending s)) + mset (map (etag \<circ> dl_Event) (ws_dead s)) + image_mset snd left"
proof (cases "wh_run sample_calls")
  case (fields s enqueued left)
  then show ?thesis using events_accounted [OF fields] sample_events by (intro exI [of _ s] exI [of _ enqueued] exI [of _ left]) simp
qed

section \<open>Retries, signatures and owners\<close>

lemma jitteredBackoff_bounds:
  assumes "1 \<le> n" "n < webhookMaxAttempts"
  shows "0 \<le> jitteredBackoff r n \<and> jitteredBackoff r n \<le> webhookInitialBackoff * 2 ^ nat (n - 1)"
proof -
  have "n \<in> {1, 2, 3, 4, 5, 6, 7}" using assms by (auto simp: webhookMaxAttempts_def)
  moreover have "(0 :: int) < c \<Longrightarrow> 0 \<le> x mod c \<and> x mod c \<le> c" for x c
    by (simp add: less_imp_le)
  ultimately show ?thesis
    by (auto simp: jitteredBackoff_def webhookInitialBackoff_def webhookMaxBackoff_def seconds_def wrap64_def Let_def split: option.split)
qed

text \<open>
  The next try is never before the present, and at most fifteen minutes ahead whatever the receiver asks for;
  it respects the receiver's wish up to that ceiling.
\<close>

lemma retry_delay_bounds:
  assumes "1 \<le> n" "n < webhookMaxAttempts"
  shows "0 \<le> retry_delay r n ra" "retry_delay r n ra \<le> webhookRetryAfterCeiling" "min ra webhookRetryAfterCeiling \<le> retry_delay r n ra"
proof -
  have "nat (n - 1) \<le> 6" using assms by (simp add: webhookMaxAttempts_def)
  then have "(2 :: int) ^ nat (n - 1) \<le> 2 ^ 6" by (rule power_increasing) simp
  then have b: "0 \<le> jitteredBackoff r n" "jitteredBackoff r n \<le> webhookRetryAfterCeiling"
    using jitteredBackoff_bounds [OF assms, of r]
    by (simp_all add: webhookInitialBackoff_def webhookRetryAfterCeiling_def seconds_def)
  show "0 \<le> retry_delay r n ra" using b by (simp add: retry_delay_def Let_def)
  show "retry_delay r n ra \<le> webhookRetryAfterCeiling" using b by (simp add: retry_delay_def Let_def)
  show "min ra webhookRetryAfterCeiling \<le> retry_delay r n ra" using b by (simp add: retry_delay_def Let_def)
qed

lemma signature_roundtrip: "secret \<noteq> [] \<Longrightarrow> VerifyWebhookSignature secret body (signWebhook secret body)"
  by (simp add: VerifyWebhookSignature_def signWebhook_def)

lemma delivery_verifies:
  assumes "sb_secret sub \<noteq> []" "map_of (dp_Header (dispatch_of now sub ev)) ''X-CP-Signature'' = Some sig"
  shows "VerifyWebhookSignature (sb_secret sub) (dp_Body (dispatch_of now sub ev)) sig"
  using assms by (auto simp: dispatch_of_def Let_def signWebhook_def VerifyWebhookSignature_def split: if_splits)

lemma unsigned_refused: "\<not> VerifyWebhookSignature [] body header" "\<not> VerifyWebhookSignature secret body []"
  by (simp_all add: VerifyWebhookSignature_def)

text \<open>Callers reach only what they own.\<close>

lemma unregister_other_owner: "sub_of s i = Some sub \<Longrightarrow> sb_OwnerKey sub \<noteq> owner \<Longrightarrow> unregister i owner s = (Some WhNotFound, s)"
  by (simp add: unregister_def)

lemma set_place: "set (place x ys) = insert x (set ys)"
  by (induction ys) auto

lemma set_list_hooks: "set (list_hooks ks owner s) = (\<lambda>sub. sub\<lparr>sb_secret := []\<rparr>) ` {sub. sb_OwnerKey sub = owner \<and> (\<exists>k\<in>set ks. sub_of s k = Some sub)}"
proof -
  have "set (foldl (\<lambda>acc x. place x acc) acc xs) = set acc \<union> set xs" for acc xs
    by (induction xs arbitrary: acc) (auto simp: set_place)
  then show ?thesis by (auto simp: list_hooks_def Let_def map_filter_def image_iff) (metis option.sel)+
qed

lemma list_hooks_private: "sub \<in> set (list_hooks ks owner s) \<Longrightarrow> sb_OwnerKey sub = owner \<and> sb_secret sub = []"
  by (auto simp: set_list_hooks)

lemma sorted_place: "sorted_wrt (\<lambda>x y. sb_CreatedAt y \<le> sb_CreatedAt x) ys \<Longrightarrow> sorted_wrt (\<lambda>x y. sb_CreatedAt y \<le> sb_CreatedAt x) (place x ys)"
  by (induction ys) (auto simp: set_place)

lemma list_hooks_sorted: "sorted_wrt (\<lambda>x y. sb_CreatedAt x \<le> sb_CreatedAt y) (list_hooks ks owner s)"
proof -
  have "sorted_wrt (\<lambda>x y. sb_CreatedAt y \<le> sb_CreatedAt x) acc \<Longrightarrow>
        sorted_wrt (\<lambda>x y. sb_CreatedAt y \<le> sb_CreatedAt x) (foldl (\<lambda>acc x. place x acc) acc xs)" for acc xs
    by (induction xs arbitrary: acc) (simp_all add: sorted_place)
  then show ?thesis by (simp add: list_hooks_def Let_def sorted_wrt_rev)
qed

lemma replay_owner:
  assumes "replay_dead now i owner s = (Inr d, s')"
  shows "\<exists>dl\<in>set (ws_dead s). dl_DeliveryID dl = i \<and> dl_OwnerKey dl = owner"
proof -
  obtain k where k: "find_dead i (ws_dead s) 0 = Some k" "dl_OwnerKey (ws_dead s ! k) = owner"
    using assms by (auto simp: replay_dead_def Let_def split: option.splits if_splits)
  then show ?thesis using find_dead_nth [OF k(1)] by (auto intro: nth_mem)
qed

section \<open>Divergences\<close>

text \<open>
  The idempotency key is documented as what lets a receiver recognise a retried delivery, but it
  contains the number of the attempt, so that the key of the retry differs from the key of the delivery it repeats.
\<close>

lemma retry_changes_key: "idempotencyKey ''wh_1'' 1 body \<noteq> idempotencyKey ''wh_1'' 2 body"
proof -
  have "show_int 1 = ''1''" "show_int 2 = ''2''" by code_simp+
  then show ?thesis by (simp add: idempotencyKey_def)
qed

text \<open>The wildcard that \<^verbatim>\<open>subscribedTo\<close> honours cannot be registered.\<close>

lemma wildcard_unregistrable:
  "\<exists>e. fst (register_hook clk c owner url secret [''*''] s) = Inl e"
  by (simp add: register_hook_def isKnownEvent_def KnownWebhookEvents_def EventProofVerified_def EventProofAnchored_def
      EventSlashExecuted_def EventGovernanceExecute_def EventKYCGranted_def EventKYCRevoked_def)

text \<open>A large number of seconds in \<^verbatim>\<open>Retry-After\<close> wraps around to a negative delay, so that the request of the receiver is ignored.\<close>

lemma retry_after_wraps: "parseRetryAfter PT ''9223372037'' now < 0"
  by code_simp

text \<open>A \<^verbatim>\<open>Retry-After\<close> header is honoured on every failure, not only on 429 and 503.\<close>

lemma retry_after_any_status:
  "ws_heap s a = Some sub \<Longrightarrow> deliverEvent PT clk r (\<lambda>_. Answered 500 h) tr a ev s
     = recordFailure clk r a ev (''http '' @ show_int 500) 500 (parseRetryAfter PT h (tr 1)) s"
  by (simp add: deliverEvent_def)

text \<open>The counter of replays is written by no operation: a dead letter that is replayed is removed.\<close>

lemma replays_uncounted:
  assumes "wh_inv s" "\<forall>dl\<in>set (ws_dead s). dl_Replayed dl = 0"
  shows "\<forall>dl\<in>set (ws_dead (wh_exec (Replay now i owner) s)). dl_Replayed dl = 0"
  using assms by (auto simp: replay_dead_def Let_def split: option.splits dest: in_set_takeD in_set_dropD)

end
