(* ===== verification/Go_Json.thy ===== *)
theory Go_Json
  imports Go_Prelude
begin

text \<open>
  The texts that \<^verbatim>\<open>json.Marshal\<close> of \<^verbatim>\<open>encoding/json\<close> writes, and the split of a byte sequence into runes
  (\<^verbatim>\<open>unicode/utf8\<close>). A value is a document of strings, integers, booleans, arrays and objects, the members in the order
  in which the library writes them. The lemmas show that the text determines the document when its strings
  are valid UTF-8; the library writes every invalid byte as the same replacement.
\<close>

section \<open>Runes\<close>

abbreviation code :: "char \<Rightarrow> nat" where
  "code c \<equiv> of_char c"

definition in_code :: "nat \<Rightarrow> nat \<Rightarrow> char \<Rightarrow> bool" where
  "in_code lo hi c \<longleftrightarrow> lo \<le> code c \<and> code c \<le> hi"

text \<open>The number of bytes of the first rune, 0 when there is no valid one.\<close>

fun rune_size :: "bytes \<Rightarrow> nat" where
  "rune_size [] = 0"
| "rune_size (a # s) =
     (if code a < 128 then 1
      else if in_code 194 223 a then (case s of b # _ \<Rightarrow> if in_code 128 191 b then 2 else 0 | _ \<Rightarrow> 0)
      else if in_code 224 239 a then
        (case s of
           b # c # _ \<Rightarrow>
             if in_code (if code a = 224 then 160 else 128) (if code a = 237 then 159 else 191) b \<and> in_code 128 191 c then 3 else 0
         | _ \<Rightarrow> 0)
      else if in_code 240 244 a then
        (case s of
           b # c # d # _ \<Rightarrow>
             if in_code (if code a = 240 then 144 else 128) (if code a = 244 then 143 else 191) b \<and> in_code 128 191 c \<and> in_code 128 191 d
             then 4 else 0
         | _ \<Rightarrow> 0)
      else 0)"

text \<open>The units over which \<^verbatim>\<open>range\<close> and \<^verbatim>\<open>[]rune\<close> go: a rune, or one byte that begins none.\<close>

function split_runes :: "bytes \<Rightarrow> bytes list" where
  "split_runes s = (if s = [] then [] else let n = max 1 (rune_size s) in take n s # split_runes (drop n s))"
  by auto

termination by (relation "measure length") auto

declare split_runes.simps [simp del]

definition valid_rune :: "bytes \<Rightarrow> bool" where
  "valid_rune u \<longleftrightarrow> u \<noteq> [] \<and> rune_size u = length u"

definition valid_utf8 :: "bytes \<Rightarrow> bool" where
  "valid_utf8 s \<longleftrightarrow> list_all valid_rune (split_runes s)"

lemma split_runes_Nil [simp]: "split_runes [] = []"
  by (simp add: split_runes.simps)

lemma concat_split_runes [simp]: "concat (split_runes s) = s"
proof (induction s rule: split_runes.induct)
  case (1 s)
  then show ?case by (subst split_runes.simps) (simp add: Let_def)
qed

lemma rune_size_le: "rune_size s \<le> length s"
  by (cases s) (simp_all split: list.split)

lemma rune_size_append: "rune_size u = length u \<Longrightarrow> u \<noteq> [] \<Longrightarrow> rune_size (u @ x) = length u"
proof (cases u)
  case (Cons a s)
  assume u: "rune_size u = length u"
  show ?thesis
  proof (cases s)
    case Nil
    with Cons u show ?thesis by (simp split: if_splits)
  next
    case s: (Cons b t)
    show ?thesis
    proof (cases t)
      case Nil
      with Cons s u show ?thesis by (simp split: if_splits)
    next
      case t: (Cons c v)
      with Cons s u show ?thesis by (cases v) (simp_all split: if_splits)
    qed
  qed
qed simp

lemma valid_utf8_ascii: "\<forall>c\<in>set s. code c < 128 \<Longrightarrow> valid_utf8 s"
proof (induction s)
  case (Cons c s)
  then have "split_runes (c # s) = [c] # split_runes s" by (subst split_runes.simps) (simp add: Let_def)
  with Cons show ?case by (simp add: valid_utf8_def valid_rune_def)
qed (simp add: valid_utf8_def)

section \<open>Strings\<close>

definition backslash :: char where "backslash = CHR 0x5C"
definition dquote :: char where "dquote = CHR 0x22"

definition u_escape :: "nat \<Rightarrow> bytes" where
  "u_escape n = [backslash, CHR ''u'', hex_digit (n div 4096 mod 16), hex_digit (n div 256 mod 16), hex_digit (n div 16 mod 16), hex_digit (n mod 16)]"

definition json_ascii :: "char \<Rightarrow> bytes" where
  "json_ascii c =
     (if c = dquote \<or> c = backslash then [backslash, c]
      else if c = CHR 0x08 then [backslash, CHR ''b'']
      else if c = CHR 0x0C then [backslash, CHR ''f'']
      else if c = CHR 0x0A then [backslash, CHR ''n'']
      else if c = CHR 0x0D then [backslash, CHR ''r'']
      else if c = CHR 0x09 then [backslash, CHR ''t'']
      else if code c < 32 \<or> c = CHR ''<'' \<or> c = CHR ''>'' \<or> c = CHR ''&'' then u_escape (code c)
      else [c])"

definition line_sep :: bytes where "line_sep = map byte [226, 128, 168]"
definition para_sep :: bytes where "para_sep = map byte [226, 128, 169]"

definition json_unit :: "bytes \<Rightarrow> bytes" where
  "json_unit u =
     (if \<not> valid_rune u then u_escape 65533
      else if length u = 1 then json_ascii (hd u)
      else if u = line_sep then u_escape 8232
      else if u = para_sep then u_escape 8233
      else u)"

definition json_string :: "gostring \<Rightarrow> bytes" where
  "json_string s = dquote # concat (map json_unit (split_runes s)) @ [dquote]"

text \<open>The first unit of an escaped text, read back.\<close>

definition unescape :: "char \<Rightarrow> char" where
  "unescape e =
     (if e = CHR ''b'' then CHR 0x08 else if e = CHR ''f'' then CHR 0x0C else if e = CHR ''n'' then CHR 0x0A
      else if e = CHR ''r'' then CHR 0x0D else if e = CHR ''t'' then CHR 0x09 else e)"

definition unit_of :: "nat \<Rightarrow> bytes" where
  "unit_of v = (if v = 8232 then line_sep else if v = 8233 then para_sep else [char_of v])"

definition hex4 :: "char \<Rightarrow> char \<Rightarrow> char \<Rightarrow> char \<Rightarrow> nat" where
  "hex4 a b c d = ((the (unhex a) * 16 + the (unhex b)) * 16 + the (unhex c)) * 16 + the (unhex d)"

definition next_unit :: "bytes \<Rightarrow> bytes \<times> bytes" where
  "next_unit t =
     (if hd t \<noteq> backslash then (take (rune_size t) t, drop (rune_size t) t)
      else if t ! 1 \<noteq> CHR ''u'' then ([unescape (t ! 1)], drop 2 t)
      else (unit_of (hex4 (t ! 2) (t ! 3) (t ! 4) (t ! 5)), drop 6 t))"

lemma hex4_digits:
  assumes "n < 65536"
  shows "hex4 (hex_digit (n div 4096 mod 16)) (hex_digit (n div 256 mod 16)) (hex_digit (n div 16 mod 16)) (hex_digit (n mod 16)) = n"
proof -
  have "n div 4096 mod 16 = n div 16 div 16 div 16" "n div 256 = n div 16 div 16"
    using assms by (simp_all add: div_less_iff_less_mult flip: div_mult2_eq)
  then have "((n div 4096 mod 16 * 16 + n div 256 mod 16) * 16 + n div 16 mod 16) * 16 + n mod 16 = n" by simp
  then show ?thesis by (simp only: hex4_def unhex_hex_digit mod_less_divisor zero_less_numeral option.sel)
qed

lemma next_u_escape: "n < 65536 \<Longrightarrow> next_unit (u_escape n @ x) = (unit_of n, x)"
  using hex4_digits [of n] by (simp add: next_unit_def u_escape_def del: mod_less)

lemma unit_of_ascii: "code c < 128 \<Longrightarrow> unit_of (code c) = [c]"
  by (simp add: unit_of_def)

lemma next_ascii: "code c < 128 \<Longrightarrow> next_unit (json_ascii c @ x) = ([c], x)"
proof -
  assume c: "code c < 128"
  then have "next_unit (u_escape (code c) @ x) = ([c], x)" by (simp add: next_u_escape unit_of_ascii)
  moreover have "next_unit (c # x) = ([c], x)" if "c \<noteq> backslash" using c that by (simp add: next_unit_def)
  moreover have "next_unit (backslash # e # x) = ([unescape e], x)" if "e \<noteq> CHR ''u''" for e using that by (simp add: next_unit_def)
  ultimately show ?thesis by (auto simp: json_ascii_def unescape_def backslash_def dquote_def)
qed

lemma next_json_unit:
  assumes "valid_rune u"
  shows "next_unit (json_unit u @ x) = (u, x)"
proof (cases "length u = 1")
  case True
  then obtain c where u: "u = [c]" by (cases u) auto
  with assms have "code c < 128" by (auto simp: valid_rune_def split: if_splits)
  with u assms show ?thesis by (simp add: json_unit_def next_ascii)
next
  case False
  with assms have "hd u \<noteq> backslash" by (cases u) (auto simp: valid_rune_def backslash_def)
  moreover have "rune_size (u @ x) = length u" using assms by (simp add: valid_rune_def rune_size_append)
  moreover have "u \<noteq> []" using assms by (simp add: valid_rune_def)
  ultimately have "next_unit (u @ x) = (u, x)" by (simp add: next_unit_def)
  with False assms show ?thesis by (simp add: json_unit_def next_u_escape unit_of_def)
qed

lemma json_unit_start:
  assumes "valid_rune u"
  shows "json_unit u \<noteq> [] \<and> hd (json_unit u) \<noteq> dquote"
proof (cases "length u = 1")
  case True
  then obtain c where u: "u = [c]" by (cases u) auto
  with assms show ?thesis by (auto simp: json_unit_def json_ascii_def u_escape_def backslash_def dquote_def)
next
  case False
  with assms have "u \<noteq> []" "hd u \<noteq> dquote" by (cases u; auto simp: valid_rune_def dquote_def)+
  with False show ?thesis by (simp add: json_unit_def u_escape_def backslash_def dquote_def)
qed

lemma json_units_inject:
  "list_all valid_rune us \<Longrightarrow> list_all valid_rune vs \<Longrightarrow>
   concat (map json_unit us) @ dquote # x = concat (map json_unit vs) @ dquote # y \<Longrightarrow> us = vs \<and> x = y"
proof (induction us arbitrary: vs)
  case Nil
  then show ?case using json_unit_start [of "hd vs"] by (cases vs) (auto simp: Cons_eq_append_conv dest: sym)
next
  case (Cons u us)
  show ?case
  proof (cases vs)
    case Nil
    with Cons.prems json_unit_start [of u] show ?thesis by (auto simp: append_eq_Cons_conv)
  next
    case (Cons v ws)
    let ?x = "concat (map json_unit us) @ dquote # x" and ?y = "concat (map json_unit ws) @ dquote # y"
    have "json_unit u @ ?x = json_unit v @ ?y" "valid_rune u" "valid_rune v" using Cons.prems Cons by simp_all
    then have "(u, ?x) = (v, ?y)" using next_json_unit [of u ?x] next_json_unit [of v ?y] by argo
    with Cons.IH [of ws] Cons.prems Cons show ?thesis by simp
  qed
qed

lemma json_string_inject:
  "valid_utf8 s \<Longrightarrow> valid_utf8 t \<Longrightarrow> json_string s @ x = json_string t @ y \<Longrightarrow> s = t \<and> x = y"
  using json_units_inject [of "split_runes s" "split_runes t" x y]
  by (simp add: json_string_def valid_utf8_def) (metis concat_split_runes)

section \<open>Documents\<close>

datatype json = JStr gostring | JInt int | JBool bool | JArr "json list" | JObj "(gostring \<times> json) list"

fun commas :: "bytes list \<Rightarrow> bytes" where
  "commas [] = []"
| "commas [t] = t"
| "commas (t # ts) = t @ CHR '','' # commas ts"

lemma size_member [termination_simp]: "kv \<in> set kvs \<Longrightarrow> size (snd kv) < Suc (size_list (size_prod (\<lambda>_. 0) size) kvs)"
  by (induction kvs) (auto simp: size_prod_def split: prod.splits)

fun json_text :: "json \<Rightarrow> bytes" where
  "json_text (JStr s) = json_string s"
| "json_text (JInt n) = show_int n"
| "json_text (JBool b) = (if b then ''true'' else ''false'')"
| "json_text (JArr js) = ''['' @ commas (map json_text js) @ '']''"
| "json_text (JObj kvs) = ''{'' @ commas (map (\<lambda>kv. json_string (fst kv) @ '':'' @ json_text (snd kv)) kvs) @ ''}''"

fun json_ok :: "json \<Rightarrow> bool" where
  "json_ok (JStr s) = valid_utf8 s"
| "json_ok (JInt n) = True"
| "json_ok (JBool b) = True"
| "json_ok (JArr js) = list_all json_ok js"
| "json_ok (JObj kvs) = list_all (\<lambda>kv. valid_utf8 (fst kv) \<and> json_ok (snd kv)) kvs"

text \<open>What may follow a value: nothing, a comma or a closing bracket.\<close>

definition after_value :: "bytes \<Rightarrow> bool" where
  "after_value x \<longleftrightarrow> x = [] \<or> hd x \<in> {CHR '','', CHR '']'', CHR ''}''}"

text \<open>A way of writing elements that can be read back in front of such a text.\<close>

definition readable :: "('a \<Rightarrow> bytes) \<Rightarrow> 'a \<Rightarrow> 'a \<Rightarrow> bool" where
  "readable f a b \<longleftrightarrow> (\<forall>x y. after_value x \<longrightarrow> after_value y \<longrightarrow> f a @ x = f b @ y \<longrightarrow> a = b \<and> x = y)"

definition opens :: "bytes \<Rightarrow> bool" where
  "opens t \<longleftrightarrow> t \<noteq> [] \<and> hd t \<notin> {CHR '','', CHR '']'', CHR ''}''}"

lemma commas_Cons: "commas (t # ts) = t @ (if ts = [] then [] else CHR '','' # commas ts)"
  by (cases ts) simp_all

lemma commas_inject:
  assumes "\<And>a b. a \<in> set as \<Longrightarrow> b \<in> set bs \<Longrightarrow> readable f a b" "\<And>a. opens (f a)" "c \<in> {CHR '']'', CHR ''}''}"
    "commas (map f as) @ c # x = commas (map f bs) @ c # y"
  shows "as = bs \<and> x = y"
  using assms(1,4)
proof (induction as arbitrary: bs)
  case Nil
  then show ?case using assms(2) [of "hd bs"] assms(3)
    by (cases bs) (auto simp: commas_Cons opens_def Cons_eq_append_conv dest: sym)
next
  case (Cons a as)
  show ?case
  proof (cases bs)
    case Nil
    then show ?thesis using Cons.prems(2) assms(2) [of a] assms(3) by (auto simp: commas_Cons opens_def append_eq_Cons_conv)
  next
    case bs: (Cons b bs')
    let ?x = "(if as = [] then [] else CHR '','' # commas (map f as)) @ c # x"
    let ?y = "(if bs' = [] then [] else CHR '','' # commas (map f bs')) @ c # y"
    have "after_value ?x" "after_value ?y" using assms(3) by (auto simp: after_value_def)
    moreover have "f a @ ?x = f b @ ?y" using Cons.prems(2) bs by (simp add: commas_Cons)
    ultimately have ab: "a = b" and eq: "?x = ?y" using Cons.prems(1) [of a b] bs by (auto simp: readable_def)
    have "CHR '','' \<noteq> c" using assms(3) by auto
    then have "as = [] \<longleftrightarrow> bs' = []" using eq by (auto split: if_splits)
    then have "commas (map f as) @ c # x = commas (map f bs') @ c # y" using eq by (cases "as = []") auto
    then have "as = bs' \<and> x = y" using Cons.IH [of bs'] Cons.prems(1) bs by auto
    with ab bs show ?thesis by simp
  qed
qed

definition num_chars :: "char set" where
  "num_chars = set ''-0123456789''"

lemma show_int_chars: "set (show_int n) \<subseteq> num_chars"
proof -
  have "set (show_nat k) \<subseteq> num_chars" for k using set_show_nat [of k] by (rule order_trans) (auto simp: num_chars_def)
  moreover have "CHR ''-'' \<in> num_chars" by (simp add: num_chars_def)
  ultimately show ?thesis by (simp add: show_int_def)
qed

lemma show_int_start: "show_int n \<noteq> []" "hd (show_int n) \<in> num_chars"
proof -
  show "show_int n \<noteq> []" by (simp add: show_int_def)
  then show "hd (show_int n) \<in> num_chars" using show_int_chars [of n] hd_in_set by blast
qed

lemma show_int_inj: "show_int m = show_int n \<Longrightarrow> m = n"
proof -
  have sign: "(k < 0) = (CHR ''-'' \<in> set (show_int k))" for k
    using set_show_nat [of "nat k"] by (auto simp: show_int_def)
  assume *: "show_int m = show_int n"
  then have "(m < 0) = (n < 0)" using sign by simp
  with * have "show_nat (nat \<bar>m\<bar>) = show_nat (nat \<bar>n\<bar>)" by (auto simp: show_int_def abs_if split: if_splits)
  then have "nat \<bar>m\<bar> = nat \<bar>n\<bar>" by (rule show_nat_inj)
  with \<open>(m < 0) = (n < 0)\<close> show "m = n" by (cases "m < 0") auto
qed

lemma readable_int: "readable show_int m n"
  unfolding readable_def
proof (intro allI impI)
  fix x y
  assume xy: "after_value x" "after_value y" and eq: "show_int m @ x = show_int n @ y"
  have stop: "takeWhile (\<lambda>c. c \<in> num_chars) (show_int k @ z) = show_int k" if "after_value z" for k z
  proof -
    have "takeWhile (\<lambda>c. c \<in> num_chars) z = []" using that by (cases z) (auto simp: after_value_def num_chars_def)
    then show ?thesis using show_int_chars [of k] by (subst takeWhile_append2) auto
  qed
  have "show_int m = show_int n" using stop [OF xy(1), of m] stop [OF xy(2), of n] eq by metis
  with eq show "m = n \<and> x = y" using show_int_inj by auto
qed

text \<open>The first character tells the kind of a value.\<close>

fun kind :: "json \<Rightarrow> nat" where
  "kind (JStr s) = 0"
| "kind (JInt n) = 1"
| "kind (JBool b) = (if b then 2 else 3)"
| "kind (JArr js) = 4"
| "kind (JObj kvs) = 5"

definition char_kind :: "char \<Rightarrow> nat" where
  "char_kind c =
     (if c = dquote then 0 else if c \<in> num_chars then 1 else if c = CHR ''t'' then 2 else if c = CHR ''f'' then 3
      else if c = CHR ''['' then 4 else if c = CHR ''{'' then 5 else 6)"

lemma json_text_start: "json_text j \<noteq> []" "char_kind (hd (json_text j)) = kind j"
proof -
  show "json_text j \<noteq> []" by (cases j) (simp_all add: json_string_def show_int_start)
  have q: "dquote \<notin> num_chars" by (simp add: num_chars_def dquote_def)
  show "char_kind (hd (json_text j)) = kind j"
  proof (cases j)
    case (JInt n)
    moreover have "hd (show_int n) \<noteq> dquote" using show_int_start [of n] q by metis
    ultimately show ?thesis by (simp add: char_kind_def show_int_start)
  qed (simp_all add: char_kind_def json_string_def num_chars_def dquote_def)
qed

lemma json_opens: "opens (json_text j)"
proof -
  have "char_kind c = 6" if "c \<in> {CHR '','', CHR '']'', CHR ''}''}" for c
    using that by (auto simp: char_kind_def dquote_def num_chars_def)
  moreover have "kind j \<noteq> 6" by (cases j) simp_all
  ultimately show ?thesis using json_text_start [of j] unfolding opens_def by metis
qed

lemma same_kind: "json_text a @ x = json_text b @ y \<Longrightarrow> kind a = kind b"
  using json_text_start by (metis hd_append2)

text \<open>The text determines the document, also in front of further text.\<close>

lemma readableD: "readable f a b \<Longrightarrow> after_value x \<Longrightarrow> after_value y \<Longrightarrow> f a @ x = f b @ y \<Longrightarrow> a = b \<and> x = y"
  by (simp add: readable_def)

lemma readable_member:
  assumes "valid_utf8 (fst k)" "valid_utf8 (fst l)" "readable json_text (snd k) (snd l)"
  shows "readable (\<lambda>kv. json_string (fst kv) @ '':'' @ json_text (snd kv)) k l"
  unfolding readable_def
proof (intro allI impI)
  fix x y
  assume xy: "after_value x" "after_value y"
    and "(json_string (fst k) @ '':'' @ json_text (snd k)) @ x = (json_string (fst l) @ '':'' @ json_text (snd l)) @ y"
  then have "json_string (fst k) @ ('':'' @ json_text (snd k) @ x) = json_string (fst l) @ ('':'' @ json_text (snd l) @ y)" by simp
  from json_string_inject [OF assms(1,2) this] have "fst k = fst l" "json_text (snd k) @ x = json_text (snd l) @ y" by simp_all
  with readableD [OF assms(3) xy] show "k = l \<and> x = y" by (simp add: prod_eq_iff)
qed

lemma json_readable: "json_ok a \<Longrightarrow> json_ok b \<Longrightarrow> readable json_text a b"
proof (induction a arbitrary: b rule: json_text.induct)
  case (1 s)
  show ?case unfolding readable_def
  proof (intro allI impI)
    fix x y assume eq: "json_text (JStr s) @ x = json_text b @ y"
    obtain t where b: "b = JStr t" using same_kind [OF eq] by (cases b) (simp_all split: if_splits)
    have "json_string s @ x = json_string t @ y" using eq b by simp
    from json_string_inject [OF _ _ this] 1 b show "JStr s = b \<and> x = y" by simp
  qed
next
  case (2 n)
  show ?case unfolding readable_def
  proof (intro allI impI)
    fix x y assume xy: "after_value x" "after_value y" and eq: "json_text (JInt n) @ x = json_text b @ y"
    obtain m where "b = JInt m" using same_kind [OF eq] by (cases b) (simp_all split: if_splits)
    with readableD [OF readable_int xy] eq show "JInt n = b \<and> x = y" by simp
  qed
next
  case (3 v)
  show ?case unfolding readable_def
  proof (intro allI impI)
    fix x y assume eq: "json_text (JBool v) @ x = json_text b @ y"
    have "b = JBool v" using same_kind [OF eq] by (cases b) (simp_all split: if_splits)
    with eq show "JBool v = b \<and> x = y" by simp
  qed
next
  case (4 js)
  show ?case unfolding readable_def
  proof (intro allI impI)
    fix x y assume eq: "json_text (JArr js) @ x = json_text b @ y"
    obtain ks where b: "b = JArr ks" using same_kind [OF eq] by (cases b) (simp_all split: if_splits)
    have "js = ks \<and> x = y"
      by (rule commas_inject [of _ _ json_text "CHR '']''"]) (use 4 b eq json_opens in \<open>auto simp: list_all_iff\<close>)
    with b show "JArr js = b \<and> x = y" by simp
  qed
next
  case (5 kvs)
  let ?f = "\<lambda>kv. json_string (fst kv) @ '':'' @ json_text (snd kv)"
  show ?case unfolding readable_def
  proof (intro allI impI)
    fix x y assume eq: "json_text (JObj kvs) @ x = json_text b @ y"
    obtain lvs where b: "b = JObj lvs" using same_kind [OF eq] by (cases b) (simp_all split: if_splits)
    have r: "readable ?f k l" if "k \<in> set kvs" "l \<in> set lvs" for k l
      using 5 b that by (intro readable_member) (auto simp: list_all_iff)
    have o: "opens (?f k)" for k by (simp add: opens_def json_string_def dquote_def)
    have "kvs = lvs \<and> x = y"
      by (rule commas_inject [of _ _ ?f "CHR ''}''", OF r o]) (use b eq in auto)
    with b show "JObj kvs = b \<and> x = y" by simp
  qed
qed

lemma json_text_inject: "json_ok a \<Longrightarrow> json_ok b \<Longrightarrow> json_text a = json_text b \<Longrightarrow> a = b"
  using readableD [OF json_readable, of a b "[]" "[]"] by (simp add: after_value_def)

end
