(* ===== verification/Audit_Log.thy ===== *)
theory Audit_Log
  imports Go_Json Go_Time Http
begin

text \<open>
  The audit log of decisions: the records and their chain root (\<^verbatim>\<open>engine/internal/decision/audit.go\<close>), the bounded
  in-memory sink, and the endpoints of \<^verbatim>\<open>engine/internal/api/audit_handlers.go\<close>. Metadata is the list of entries of the Go map.
  The chain root is the hash of the JSON text of the record. The lemmas show
  that a record cannot be changed under its chain root, that the sink keeps exactly the latest records, and what a
  lineage query returns.
\<close>

section \<open>Records\<close>

record Record =
  au_ID :: gostring
  au_Timestamp :: int
  au_AgentID :: gostring
  au_ModelID :: gostring
  au_ModelVersion :: gostring
  au_RequestHash :: gostring
  au_ResponseHash :: gostring
  au_InputBytes :: int
  au_OutputBytes :: int
  au_Verdict :: gostring
  au_RiskTier :: gostring
  au_PolicyID :: gostring
  au_Metadata :: "(gostring \<times> gostring) list"
  au_TracePreview :: gostring
  au_PreviewOptIn :: bool
  au_ParentRecordID :: gostring
  au_ChainRootHash :: gostring

definition sha256Hex :: "bytes \<Rightarrow> gostring" where
  "sha256Hex b = hex_encode (sha256 b)"

text \<open>The replacement rune and the ellipsis, in UTF-8.\<close>

definition rune_error :: bytes where "rune_error = map byte [239, 191, 189]"
definition ellipsis :: bytes where "ellipsis = map byte [226, 128, 166]"

definition truncateRunes :: "gostring \<Rightarrow> nat \<Rightarrow> gostring" where
  "truncateRunes s n =
     (let r = split_runes s in
      if length r \<le> n then s else concat (map (\<lambda>u. if valid_rune u then u else rune_error) (take n r)) @ ellipsis)"

definition defaultRedactedKeys :: "gostring list" where
  "defaultRedactedKeys =
     [''api_key'', ''authorization'', ''cookie'', ''password'', ''secret'', ''token'', ''pii'', ''email'', ''phone'', ''ssn'']"

definition redacted_key :: "gostring \<Rightarrow> bool" where
  "redacted_key k \<longleftrightarrow> (let lk = ToLower k in lk \<in> set defaultRedactedKeys \<or> list_ex (\<lambda>w. Contains lk w) defaultRedactedKeys)"

definition redactMetadata :: "(gostring \<times> gostring) list \<Rightarrow> (gostring \<times> gostring) list" where
  "redactMetadata md =
     map (\<lambda>(k, v). (k, if redacted_key k then ''<redacted:sha256:'' @ take 16 (sha256Hex v) @ ''>'' else v)) md"

text \<open>
  The document that \<^verbatim>\<open>json.Marshal\<close> writes: the fields of the struct in order, empty optional ones left out, the
  entries of the map by key. A time outside the years 0 to 9999 is an error, which leaves no text.
\<close>

definition record_doc :: "Record \<Rightarrow> json" where
  "record_doc r = JObj
     ([(''id'', JStr (au_ID r)), (''timestamp'', JStr (format_RFC3339Nano (au_Timestamp r))), (''agent_id'', JStr (au_AgentID r)),
       (''model_id'', JStr (au_ModelID r)), (''model_version'', JStr (au_ModelVersion r)), (''request_hash'', JStr (au_RequestHash r)),
       (''response_hash'', JStr (au_ResponseHash r)), (''input_bytes'', JInt (au_InputBytes r)), (''output_bytes'', JInt (au_OutputBytes r)),
       (''verdict'', JStr (au_Verdict r)), (''risk_tier'', JStr (au_RiskTier r)), (''policy_id'', JStr (au_PolicyID r))] @
      (if au_Metadata r = [] then [] else [(''metadata'', JObj (map (\<lambda>(k, v). (k, JStr v)) (sort_key fst (au_Metadata r))))]) @
      (if au_TracePreview r = [] then [] else [(''trace_preview'', JStr (au_TracePreview r))]) @
      [(''preview_opt_in'', JBool (au_PreviewOptIn r))] @
      (if au_ParentRecordID r = [] then [] else [(''parent_record_id'', JStr (au_ParentRecordID r))]) @
      [(''chain_root_hash'', JStr (au_ChainRootHash r))])"

definition marshal_record :: "Record \<Rightarrow> bytes" where
  "marshal_record r = (if 0 \<le> civil_year (au_Timestamp r) \<and> civil_year (au_Timestamp r) \<le> 9999 then json_text (record_doc r) else [])"

definition chainRoot :: "Record \<Rightarrow> gostring" where
  "chainRoot r = sha256Hex (marshal_record (r\<lparr>au_ChainRootHash := []\<rparr>))"

definition VerifyRecord :: "Record \<Rightarrow> bool" where
  "VerifyRecord r \<longleftrightarrow> chainRoot r = au_ChainRootHash r"

definition BuildRecord ::
  "int \<Rightarrow> gostring \<Rightarrow> gostring \<Rightarrow> gostring \<Rightarrow> gostring \<Rightarrow> bytes \<Rightarrow> bytes \<Rightarrow> (gostring \<times> gostring) list \<Rightarrow>
   gostring \<Rightarrow> gostring \<Rightarrow> gostring \<Rightarrow> gostring \<Rightarrow> bool \<Rightarrow> Record" where
  "BuildRecord now i agent model modelVersion rawRequest rawResponse metadata verdict riskTier policyID parentID previewOptIn =
     (let rec = \<lparr>au_ID = i, au_Timestamp = now, au_AgentID = agent, au_ModelID = model, au_ModelVersion = modelVersion,
                 au_RequestHash = sha256Hex rawRequest, au_ResponseHash = sha256Hex rawResponse,
                 au_InputBytes = int (length rawRequest), au_OutputBytes = int (length rawResponse), au_Verdict = verdict,
                 au_RiskTier = riskTier, au_PolicyID = policyID, au_Metadata = redactMetadata metadata, au_TracePreview = [],
                 au_PreviewOptIn = previewOptIn, au_ParentRecordID = parentID, au_ChainRootHash = []\<rparr>;
          rec = (if previewOptIn then rec\<lparr>au_TracePreview := truncateRunes rawRequest 128\<rparr> else rec)
      in rec\<lparr>au_ChainRootHash := chainRoot rec\<rparr>)"

section \<open>The sink\<close>

record InMemorySink =
  si_records :: "gostring \<rightharpoonup> Record"
  si_order :: "gostring list"
  si_max :: int

definition NewInMemorySink :: "int \<Rightarrow> InMemorySink" where
  "NewInMemorySink m = \<lparr>si_records = Map.empty, si_order = [], si_max = (if m \<le> 0 then 4096 else m)\<rparr>"

definition Sink_Append :: "Record \<Rightarrow> InMemorySink \<Rightarrow> gostring option \<times> InMemorySink" where
  "Sink_Append rec s =
     (if si_records s (au_ID rec) \<noteq> None then (Some (''duplicate record id '' @ quote_string (au_ID rec)), s)
      else let s = s\<lparr>si_records := (si_records s)(au_ID rec \<mapsto> rec), si_order := si_order s @ [au_ID rec]\<rparr>
           in (None,
               if int (length (si_order s)) > si_max s
               then s\<lparr>si_order := tl (si_order s), si_records := (si_records s)(hd (si_order s) := None)\<rparr>
               else s))"

definition Sink_Get :: "InMemorySink \<Rightarrow> gostring \<Rightarrow> Record option" where
  "Sink_Get s i = si_records s i"

text \<open>The loop of \<^verbatim>\<open>Lineage\<close> with the number of rounds left.\<close>

fun lineage_loop :: "(gostring \<rightharpoonup> Record) \<Rightarrow> nat \<Rightarrow> gostring \<Rightarrow> Record list \<Rightarrow> Record list" where
  "lineage_loop m 0 cursor chain = chain"
| "lineage_loop m (Suc n) cursor chain =
     (if cursor = [] then chain
      else case m cursor of None \<Rightarrow> chain | Some r \<Rightarrow> lineage_loop m n (au_ParentRecordID r) (r # chain))"

definition Sink_Lineage :: "InMemorySink \<Rightarrow> gostring \<Rightarrow> int \<Rightarrow> Record list" where
  "Sink_Lineage s i maxDepth = lineage_loop (si_records s) (nat (if maxDepth \<le> 0 then 32 else maxDepth)) i []"

text \<open>A missing entry of the map reads as the zero record.\<close>

definition zero_record :: Record where
  "zero_record =
     \<lparr>au_ID = [], au_Timestamp = zero_time, au_AgentID = [], au_ModelID = [], au_ModelVersion = [], au_RequestHash = [],
      au_ResponseHash = [], au_InputBytes = 0, au_OutputBytes = 0, au_Verdict = [], au_RiskTier = [], au_PolicyID = [],
      au_Metadata = [], au_TracePreview = [], au_PreviewOptIn = False, au_ParentRecordID = [], au_ChainRootHash = []\<rparr>"

definition record_at :: "InMemorySink \<Rightarrow> gostring \<Rightarrow> Record" where
  "record_at s i = (case si_records s i of None \<Rightarrow> zero_record | Some r \<Rightarrow> r)"

definition Sink_Recent :: "InMemorySink \<Rightarrow> int \<Rightarrow> Record list" where
  "Sink_Recent s n =
     (let limit = (if n \<le> 0 \<or> n > int (length (si_order s)) then length (si_order s) else nat n)
      in map (record_at s) (take limit (rev (si_order s))))"

section \<open>Endpoints\<close>

text \<open>A body that does not decode is \<open>None\<close>; \<open>nanos\<close> and \<open>now\<close> are the two clock readings.\<close>

record logDecisionReq =
  lq_AgentID :: gostring
  lq_ModelID :: gostring
  lq_ModelVersion :: gostring
  lq_Request :: gostring
  lq_Response :: gostring
  lq_Metadata :: "(gostring \<times> gostring) list"
  lq_Verdict :: gostring
  lq_RiskTier :: gostring
  lq_PolicyID :: gostring
  lq_ParentID :: gostring
  lq_PreviewOptIn :: bool

datatype audit_error = AuditBadJson | AuditRequired | AuditSink gostring | AuditNotFound

fun audit_status :: "audit_error \<Rightarrow> int" where
  "audit_status AuditBadJson = 400"
| "audit_status AuditRequired = 400"
| "audit_status (AuditSink e) = 500"
| "audit_status AuditNotFound = 404"

definition decisionLog :: "int \<Rightarrow> int \<Rightarrow> logDecisionReq option \<Rightarrow> InMemorySink \<Rightarrow> (audit_error + Record) \<times> InMemorySink" where
  "decisionLog nanos now body s =
     (case body of
        None \<Rightarrow> (Inl AuditBadJson, s)
      | Some q \<Rightarrow>
          if lq_AgentID q = [] \<or> lq_ModelID q = [] \<or> lq_Verdict q = [] then (Inl AuditRequired, s)
          else let rec = BuildRecord now (''dec-'' @ show_int nanos) (lq_AgentID q) (lq_ModelID q) (lq_ModelVersion q)
                           (lq_Request q) (lq_Response q) (lq_Metadata q) (lq_Verdict q) (lq_RiskTier q) (lq_PolicyID q)
                           (lq_ParentID q) (lq_PreviewOptIn q)
               in (case Sink_Append rec s of (Some e, s) \<Rightarrow> (Inl (AuditSink e), s) | (None, s) \<Rightarrow> (Inr rec, s)))"

definition decisionGet :: "gostring \<Rightarrow> InMemorySink \<Rightarrow> audit_error + Record \<times> bool" where
  "decisionGet i s = (case Sink_Get s i of None \<Rightarrow> Inl AuditNotFound | Some rec \<Rightarrow> Inr (rec, VerifyRecord rec))"

definition query_number :: "int \<Rightarrow> gostring \<Rightarrow> int" where
  "query_number d q = (if q = [] then d else case Atoi q of Some n \<Rightarrow> if n > 0 then n else d | None \<Rightarrow> d)"

definition decisionLineage :: "gostring \<Rightarrow> gostring \<Rightarrow> InMemorySink \<Rightarrow> Record list" where
  "decisionLineage i q s = Sink_Lineage s i (query_number 32 q)"

definition decisionRecent :: "gostring \<Rightarrow> InMemorySink \<Rightarrow> Record list" where
  "decisionRecent q s = Sink_Recent s (query_number 100 q)"

section \<open>Chain roots\<close>

text \<open>Records as the endpoint makes them: strings decoded from JSON are valid UTF-8, and a map has each key once.\<close>

definition record_ok :: "Record \<Rightarrow> bool" where
  "record_ok r \<longleftrightarrow>
     list_all valid_utf8
       [au_ID r, au_AgentID r, au_ModelID r, au_ModelVersion r, au_RequestHash r, au_ResponseHash r, au_Verdict r, au_RiskTier r,
        au_PolicyID r, au_TracePreview r, au_ParentRecordID r]
     \<and> distinct (map fst (au_Metadata r)) \<and> list_all (\<lambda>(k, v). valid_utf8 k \<and> valid_utf8 v) (au_Metadata r)
     \<and> 0 \<le> civil_year (au_Timestamp r) \<and> civil_year (au_Timestamp r) \<le> 9999"

lemma valid_utf8_digits: "set s \<subseteq> set ''-0123456789:TZ.'' \<Longrightarrow> valid_utf8 s"
proof (rule valid_utf8_ascii)
  have "\<forall>c\<in>set ''-0123456789:TZ.''. code c < 128" by simp
  then show "set s \<subseteq> set ''-0123456789:TZ.'' \<Longrightarrow> \<forall>c\<in>set s. code c < 128" by blast
qed

lemma valid_utf8_time: "valid_utf8 (format_RFC3339Nano t)"
proof (rule valid_utf8_digits)
  let ?A = "set ''-0123456789:TZ.''"
  have f: "set (field w n) \<subseteq> ?A" for w n
  proof -
    have "set (show_nat (nat \<bar>n\<bar>)) \<subseteq> ?A" using set_show_nat by (rule order_trans) auto
    then show ?thesis by (auto simp: field_def pad_zero_def set_replicate_conv_if)
  qed
  have "set (date_text t) \<subseteq> ?A" using f by (simp add: date_text_def)
  moreover have "set (clock_text t) \<subseteq> ?A" using f by (simp add: clock_text_def Let_def)
  moreover have "set (dropWhile P (rev (field 9 n))) \<subseteq> ?A" for P n using f [of 9 n] set_dropWhileD by fastforce
  ultimately show "set (format_RFC3339Nano t) \<subseteq> ?A" unfolding format_RFC3339Nano_def Let_def by simp
qed

lemma valid_utf8_keys:
  "list_all valid_utf8 [''id'', ''timestamp'', ''agent_id'', ''model_id'', ''model_version'', ''request_hash'', ''response_hash'', ''input_bytes'',
     ''output_bytes'', ''verdict'', ''risk_tier'', ''policy_id'', ''metadata'', ''trace_preview'', ''preview_opt_in'', ''parent_record_id'', ''chain_root_hash'', []]"
  by (simp add: valid_utf8_ascii)

lemma json_ok_record: "record_ok r \<Longrightarrow> json_ok (record_doc (r\<lparr>au_ChainRootHash := []\<rparr>))"
  using valid_utf8_keys by (simp add: record_ok_def record_doc_def valid_utf8_time list_all_iff case_prod_unfold)

lemma map_JStr_inject:
  fixes xs ys :: "(gostring \<times> gostring) list"
  assumes "map (\<lambda>(k, v). (k, JStr v)) xs = map (\<lambda>(k, v). (k, JStr v)) ys"
  shows "xs = ys"
proof -
  have "inj (\<lambda>(k :: gostring, v). (k, JStr v))" by (auto simp: inj_def)
  from injD [OF inj_mapI [OF this] assms] show ?thesis .
qed

lemma sort_key_map_of:
  assumes "sort_key fst xs = sort_key fst ys" "distinct (map fst xs)" "distinct (map fst ys)"
  shows "map_of xs = map_of ys"
  using assms by (simp add: map_of_inject_set) (metis set_sort)

text \<open>The fields that the document fixes; the order of the metadata is not among them.\<close>

definition same_record :: "Record \<Rightarrow> Record \<Rightarrow> bool" where
  "same_record r r' \<longleftrightarrow> r' = r\<lparr>au_Metadata := au_Metadata r', au_ChainRootHash := au_ChainRootHash r'\<rparr> \<and> map_of (au_Metadata r) = map_of (au_Metadata r')"

lemma record_doc_inject:
  assumes "record_ok r" "record_ok r'" "record_doc (r\<lparr>au_ChainRootHash := []\<rparr>) = record_doc (r'\<lparr>au_ChainRootHash := []\<rparr>)"
  shows "same_record r r'"
proof -
  let ?md = "\<lambda>r. if au_Metadata r = [] then [] else [(''metadata'', JObj (map (\<lambda>(k, v). (k, JStr v)) (sort_key fst (au_Metadata r))))]"
  let ?tp = "\<lambda>r. if au_TracePreview r = [] then [] else [(''trace_preview'', JStr (au_TracePreview r))]"
  let ?pr = "\<lambda>r. if au_ParentRecordID r = [] then [] else [(''parent_record_id'', JStr (au_ParentRecordID r))]"
  let ?l = "\<lambda>r. [(''chain_root_hash'', JStr [])]"
  have eq: "?md r @ ?tp r @ (''preview_opt_in'', JBool (au_PreviewOptIn r)) # ?pr r @ ?l r
      = ?md r' @ ?tp r' @ (''preview_opt_in'', JBool (au_PreviewOptIn r')) # ?pr r' @ ?l r'"
    and fields: "au_ID r = au_ID r'" "format_RFC3339Nano (au_Timestamp r) = format_RFC3339Nano (au_Timestamp r')" "au_AgentID r = au_AgentID r'"
      "au_ModelID r = au_ModelID r'" "au_ModelVersion r = au_ModelVersion r'" "au_RequestHash r = au_RequestHash r'"
      "au_ResponseHash r = au_ResponseHash r'" "au_InputBytes r = au_InputBytes r'" "au_OutputBytes r = au_OutputBytes r'"
      "au_Verdict r = au_Verdict r'" "au_RiskTier r = au_RiskTier r'" "au_PolicyID r = au_PolicyID r'"
    using assms(3) unfolding record_doc_def by (simp_all cong: if_cong)
  have md: "?md r = ?md r'"
    using arg_cong [OF eq, of "filter (\<lambda>kv. fst kv = ''metadata'')"] by (simp split: if_splits)
  have tp: "?tp r = ?tp r'"
    using arg_cong [OF eq, of "filter (\<lambda>kv. fst kv = ''trace_preview'')"] by (simp split: if_splits)
  have pr: "?pr r = ?pr r'"
    using arg_cong [OF eq, of "filter (\<lambda>kv. fst kv = ''parent_record_id'')"] by (simp split: if_splits)
  have po: "au_PreviewOptIn r = au_PreviewOptIn r'"
    using arg_cong [OF eq, of "filter (\<lambda>kv. fst kv = ''preview_opt_in'')"] by (simp split: if_splits)
  have "sort_key fst (au_Metadata r) = sort_key fst (au_Metadata r')"
    using md by (auto dest: map_JStr_inject split: if_splits)
  then have "map_of (au_Metadata r) = map_of (au_Metadata r')"
    using assms(1,2) by (intro sort_key_map_of) (simp_all add: record_ok_def)
  moreover have "au_TracePreview r = au_TracePreview r'" "au_ParentRecordID r = au_ParentRecordID r'"
    using tp pr by (simp_all split: if_splits)
  ultimately show ?thesis using fields po unfolding format_RFC3339Nano_inject same_record_def by simp
qed

lemma marshal_record_inject:
  "record_ok r \<Longrightarrow> record_ok r' \<Longrightarrow> marshal_record (r\<lparr>au_ChainRootHash := []\<rparr>) = marshal_record (r'\<lparr>au_ChainRootHash := []\<rparr>) \<Longrightarrow> same_record r r'"
  by (intro record_doc_inject json_text_inject json_ok_record) (simp_all add: marshal_record_def record_ok_def)


section \<open>The window of records\<close>

text \<open>What the sink stands for: the list of the latest records, oldest first.\<close>

definition window_append :: "nat \<Rightarrow> Record \<Rightarrow> Record list \<Rightarrow> Record list" where
  "window_append m r xs = (if au_ID r \<in> au_ID ` set xs then xs else last_n m (xs @ [r]))"

definition with_id :: "Record list \<Rightarrow> gostring \<Rightarrow> Record option" where
  "with_id xs i = find (\<lambda>r. au_ID r = i) xs"

text \<open>A record and its ancestors, following the parents among the retained records.\<close>

fun ancestors :: "(gostring \<rightharpoonup> Record) \<Rightarrow> nat \<Rightarrow> gostring \<Rightarrow> Record list" where
  "ancestors m 0 i = []"
| "ancestors m (Suc n) i = (if i = [] then [] else case m i of None \<Rightarrow> [] | Some r \<Rightarrow> r # ancestors m n (au_ParentRecordID r))"

definition kept_window :: "InMemorySink \<Rightarrow> Record list" where
  "kept_window s = map (record_at s) (si_order s)"

definition sink_inv :: "InMemorySink \<Rightarrow> bool" where
  "sink_inv s \<longleftrightarrow> distinct (si_order s) \<and> dom (si_records s) = set (si_order s) \<and> 0 < si_max s \<and> int (length (si_order s)) \<le> si_max s
     \<and> (\<forall>i r. si_records s i = Some r \<longrightarrow> au_ID r = i)"

lemma window_ids: "sink_inv s \<Longrightarrow> map au_ID (kept_window s) = si_order s"
  by (rule nth_equalityI) (auto simp: kept_window_def record_at_def sink_inv_def set_eq_iff split: option.splits dest!: nth_mem)

lemma find_distinct: "distinct (map f xs) \<Longrightarrow> x \<in> set xs \<Longrightarrow> find (\<lambda>y. f y = f x) xs = Some x"
  by (induction xs) auto

lemma window_with_id:
  assumes s: "sink_inv s"
  shows "with_id (kept_window s) i = si_records s i"
proof (cases "si_records s i")
  case None
  have "au_ID ` set (kept_window s) = dom (si_records s)"
    using arg_cong [OF window_ids [OF s], of set] s by (simp add: sink_inv_def)
  with None have "i \<notin> au_ID ` set (kept_window s)" by auto
  then have "\<forall>x\<in>set (kept_window s). au_ID x \<noteq> i" by blast
  with None show ?thesis by (simp add: with_id_def find_None_iff)
next
  case (Some r)
  then have i: "i \<in> set (si_order s)" "au_ID r = i" "record_at s i = r" using s by (auto simp: sink_inv_def record_at_def)
  then have "r \<in> set (kept_window s)" unfolding kept_window_def by force
  moreover have "distinct (map au_ID (kept_window s))" using s by (simp add: window_ids) (simp add: sink_inv_def)
  ultimately show ?thesis using find_distinct [of au_ID "kept_window s" r] Some i by (simp add: with_id_def)
qed

lemma window_add:
  assumes s: "sink_inv s" and new: "si_records s (au_ID r) = None"
  defines "s' \<equiv> s\<lparr>si_records := (si_records s)(au_ID r \<mapsto> r), si_order := si_order s @ [au_ID r]\<rparr>"
  shows "kept_window s' = kept_window s @ [r]"
proof -
  have "au_ID r \<notin> set (si_order s)" using s new by (auto simp: sink_inv_def)
  then have "map (record_at s') (si_order s) = map (record_at s) (si_order s)"
    by (intro map_cong) (auto simp: record_at_def s'_def)
  then show ?thesis by (simp add: kept_window_def s'_def record_at_def)
qed

lemma window_drop:
  assumes "distinct (si_order s)" "si_order s \<noteq> []"
  shows "kept_window (s\<lparr>si_order := tl (si_order s), si_records := (si_records s)(hd (si_order s) := None)\<rparr>) = tl (kept_window s)"
proof -
  have "hd (si_order s) \<notin> set (tl (si_order s))" using assms by (cases "si_order s") auto
  then show ?thesis by (auto simp: kept_window_def record_at_def simp flip: map_tl intro!: map_cong)
qed

lemma Sink_Append_refines:
  assumes s: "sink_inv s"
  shows "sink_inv (snd (Sink_Append r s))" "si_max (snd (Sink_Append r s)) = si_max s"
    "kept_window (snd (Sink_Append r s)) = window_append (nat (si_max s)) r (kept_window s)"
proof -
  have ids: "au_ID ` set (kept_window s) = dom (si_records s)"
    using arg_cong [OF window_ids [OF s], of set] s by (simp add: sink_inv_def)
  let ?s = "s\<lparr>si_records := (si_records s)(au_ID r \<mapsto> r), si_order := si_order s @ [au_ID r]\<rparr>"
  let ?d = "?s\<lparr>si_order := tl (si_order ?s), si_records := (si_records ?s)(hd (si_order ?s) := None)\<rparr>"
  have len: "length (kept_window s) = length (si_order s)" by (simp add: kept_window_def)
  consider (dup) "si_records s (au_ID r) \<noteq> None" | (room) "si_records s (au_ID r) = None" "int (length (si_order s)) < si_max s"
    | (full) "si_records s (au_ID r) = None" "int (length (si_order s)) = si_max s"
    using s by (fastforce simp: sink_inv_def)
  then have "sink_inv (snd (Sink_Append r s)) \<and> si_max (snd (Sink_Append r s)) = si_max s
    \<and> kept_window (snd (Sink_Append r s)) = window_append (nat (si_max s)) r (kept_window s)"
  proof cases
    case dup
    then show ?thesis using s ids by (auto simp: Sink_Append_def window_append_def)
  next
    case room
    then have eq: "snd (Sink_Append r s) = ?s" by (simp add: Sink_Append_def)
    have "sink_inv ?s" using s room by (auto simp: sink_inv_def)
    moreover have "last_n (nat (si_max s)) (kept_window s @ [r]) = kept_window s @ [r]" using room len by (intro last_n_short) simp
    moreover have "au_ID r \<notin> au_ID ` set (kept_window s)" using room ids by auto
    ultimately show ?thesis unfolding eq window_add [OF s room(1)] by (simp add: window_append_def)
  next
    case full
    then have eq: "snd (Sink_Append r s) = ?d" by (simp add: Sink_Append_def Let_def)
    have ne: "si_order s \<noteq> []" using full s by (auto simp: sink_inv_def)
    have d: "distinct (si_order ?s)" using s full by (auto simp: sink_inv_def)
    have "sink_inv ?d" using s full ne by (cases "si_order s") (auto simp: sink_inv_def)
    moreover have "kept_window ?d = tl (kept_window s @ [r])"
      using window_drop [of ?s] d window_add [OF s full(1)] by simp
    moreover have "nat (si_max s) = length (kept_window s)" using full len by simp
    then have "last_n (nat (si_max s)) (kept_window s @ [r]) = tl (kept_window s @ [r])"
      using ne len by (cases "kept_window s") (simp_all add: last_n_def)
    moreover have "au_ID r \<notin> au_ID ` set (kept_window s)" using full ids by auto
    ultimately show ?thesis unfolding eq by (simp add: window_append_def)
  qed
  then show "sink_inv (snd (Sink_Append r s))" "si_max (snd (Sink_Append r s)) = si_max s"
    "kept_window (snd (Sink_Append r s)) = window_append (nat (si_max s)) r (kept_window s)" by simp_all
qed

lemma lineage_loop_ancestors: "lineage_loop m n i chain = rev (ancestors m n i) @ chain"
  by (induction m n i chain rule: lineage_loop.induct) (auto split: option.split)

text \<open>Such a chain follows the parents, begins at the record asked for, and ends early only where there is no parent left.\<close>

lemma ancestors_linked:
  "Suc k < length (ancestors m n i) \<Longrightarrow> m (au_ParentRecordID (ancestors m n i ! k)) = Some (ancestors m n i ! Suc k)"
proof (induction m n i arbitrary: k rule: ancestors.induct)
  case (2 m n i)
  then obtain r where r: "i \<noteq> []" "m i = Some r" by (auto split: if_splits option.splits)
  show ?case
  proof (cases k)
    case 0
    with 2 r show ?thesis by (cases n) (auto split: if_splits option.splits)
  qed (use 2 r in auto)
qed simp

lemma ancestors_bounds: "length (ancestors m n i) \<le> n" "ancestors m n i \<noteq> [] \<Longrightarrow> m i = Some (hd (ancestors m n i))"
  by (induction m n i rule: ancestors.induct) (auto split: option.splits)

lemma ancestors_complete:
  "length (ancestors m n i) < n \<Longrightarrow>
   (let j = (if ancestors m n i = [] then i else au_ParentRecordID (last (ancestors m n i))) in j = [] \<or> m j = None)"
  by (induction m n i rule: ancestors.induct) (auto simp: Let_def split: option.splits if_splits)

definition appended :: "int \<Rightarrow> Record list \<Rightarrow> InMemorySink" where
  "appended m rs = fold (\<lambda>r s. snd (Sink_Append r s)) rs (NewInMemorySink m)"

lemma appended_refines:
  fixes m :: int
  defines "k \<equiv> if m \<le> 0 then 4096 else nat m"
  shows "sink_inv (appended m rs) \<and> nat (si_max (appended m rs)) = k \<and> kept_window (appended m rs) = fold (window_append k) rs []"
proof (induction rs rule: rev_induct)
  case Nil
  then show ?case by (simp add: appended_def NewInMemorySink_def sink_inv_def kept_window_def k_def)
next
  case (snoc r rs)
  then show ?case using Sink_Append_refines [of "appended m rs" r] by (simp add: appended_def)
qed

text \<open>
  C19: the in-memory sink implements a window over the records appended to it: it refuses a record whose identifier is in
  the window and otherwise keeps the latest ones up to its size, and its queries (one record, the recent ones, a
  lineage) are answered from the window alone.
\<close>

theorem sink_refines_window:
  "let s = appended m rs; xs = fold (window_append (if m \<le> 0 then 4096 else nat m)) rs [] in
     Sink_Get s i = with_id xs i
     \<and> Sink_Recent s n = take (if n \<le> 0 then length xs else nat n) (rev xs)
     \<and> Sink_Lineage s i d = rev (ancestors (with_id xs) (if d \<le> 0 then 32 else nat d) i)
     \<and> (fst (Sink_Append r s) = None \<longleftrightarrow> au_ID r \<notin> au_ID ` set xs)"
proof -
  define s xs where "s = appended m rs" and "xs = fold (window_append (if m \<le> 0 then 4096 else nat m)) rs []"
  have inv: "sink_inv s" and w: "kept_window s = xs" using appended_refines [of m rs] by (simp_all add: s_def xs_def)
  have m: "with_id xs = si_records s" using window_with_id [OF inv] w by auto
  have ids: "au_ID ` set xs = dom (si_records s)"
    using arg_cong [OF window_ids [OF inv], of set] inv by (simp add: sink_inv_def w)
  have "Sink_Recent s n = take (if n \<le> 0 then length xs else nat n) (rev xs)"
    by (simp add: Sink_Recent_def kept_window_def Let_def take_map rev_map flip: w)
  moreover have "Sink_Lineage s i d = rev (ancestors (with_id xs) (if d \<le> 0 then 32 else nat d) i)"
    by (simp add: Sink_Lineage_def lineage_loop_ancestors m)
  moreover have "fst (Sink_Append r s) = None \<longleftrightarrow> au_ID r \<notin> au_ID ` set xs" using ids by (auto simp: Sink_Append_def Let_def)
  ultimately show ?thesis unfolding Let_def s_def [symmetric] xs_def [symmetric] m by (simp add: Sink_Get_def m)
qed

section \<open>Logged decisions\<close>

lemma BuildRecord_verifies: "VerifyRecord (BuildRecord now i agent model ver req resp md verdict tier policy parent opt)"
  by (simp add: BuildRecord_def VerifyRecord_def chainRoot_def Let_def)

lemma BuildRecord_fields:
  "au_ID (BuildRecord now i agent model ver req resp md verdict tier policy parent opt) = i"
  "au_RequestHash (BuildRecord now i agent model ver req resp md verdict tier policy parent opt) = sha256Hex req"
  "au_ResponseHash (BuildRecord now i agent model ver req resp md verdict tier policy parent opt) = sha256Hex resp"
  "au_Metadata (BuildRecord now i agent model ver req resp md verdict tier policy parent opt) = redactMetadata md"
  "au_TracePreview (BuildRecord now i agent model ver req resp md verdict tier policy parent opt) = (if opt then truncateRunes req 128 else [])"
  by (simp_all add: BuildRecord_def Let_def)

text \<open>A preview holds at most 128 runes of the request and the ellipsis.\<close>

lemma truncateRunes_bound: "length (split_runes s) \<le> n \<and> truncateRunes s n = s \<or> (\<exists>us. length us = n \<and> truncateRunes s n = concat us @ ellipsis)"
  by (auto simp: truncateRunes_def Let_def intro: exI [of _ "map (\<lambda>u. if valid_rune u then u else rune_error) (take n (split_runes s))"])

text \<open>What a request leaves of its texts when no preview was asked for: the hashes and lengths.\<close>

lemma BuildRecord_hides:
  "sha256 req = sha256 req' \<Longrightarrow> length req = length req' \<Longrightarrow> sha256 resp = sha256 resp' \<Longrightarrow> length resp = length resp' \<Longrightarrow>
   BuildRecord now i agent model ver req resp md verdict tier policy parent False
     = BuildRecord now i agent model ver req' resp' md verdict tier policy parent False"
  by (simp add: BuildRecord_def sha256Hex_def)

type_synonym log_call = "int \<times> int \<times> logDecisionReq option"

fun log_run :: "log_call list \<Rightarrow> InMemorySink \<Rightarrow> InMemorySink" where
  "log_run [] s = s"
| "log_run ((nanos, now, body) # cs) s = log_run cs (snd (decisionLog nanos now body s))"

lemma decisionLog_cases:
  "snd (decisionLog nanos now body s) = s \<or> (\<exists>r. snd (decisionLog nanos now body s) = snd (Sink_Append r s))"
proof (cases body)
  case (Some q)
  let ?r = "BuildRecord now (''dec-'' @ show_int nanos) (lq_AgentID q) (lq_ModelID q) (lq_ModelVersion q) (lq_Request q) (lq_Response q)
    (lq_Metadata q) (lq_Verdict q) (lq_RiskTier q) (lq_PolicyID q) (lq_ParentID q) (lq_PreviewOptIn q)"
  have "snd (decisionLog nanos now body s) = s \<or> snd (decisionLog nanos now body s) = snd (Sink_Append ?r s)"
    using Some by (cases "Sink_Append ?r s") (simp add: decisionLog_def Let_def split: option.split)
  then show ?thesis by blast
qed (simp add: decisionLog_def)

lemma decisionLog_done:
  assumes "decisionLog nanos now body s = (Inr rec, s')"
  obtains q where "body = Some q" "lq_AgentID q \<noteq> []" "lq_ModelID q \<noteq> []" "lq_Verdict q \<noteq> []"
    "rec = BuildRecord now (''dec-'' @ show_int nanos) (lq_AgentID q) (lq_ModelID q) (lq_ModelVersion q) (lq_Request q) (lq_Response q)
             (lq_Metadata q) (lq_Verdict q) (lq_RiskTier q) (lq_PolicyID q) (lq_ParentID q) (lq_PreviewOptIn q)"
    "Sink_Append rec s = (None, s')"
  using assms by (cases body) (auto simp: decisionLog_def Let_def split: if_splits prod.splits option.splits)

lemma log_run_inv: "sink_inv s \<Longrightarrow> sink_inv (log_run cs s) \<and> si_max (log_run cs s) = si_max s"
proof (induction cs s rule: log_run.induct)
  case (2 nanos now body cs s)
  have "sink_inv (snd (decisionLog nanos now body s)) \<and> si_max (snd (decisionLog nanos now body s)) = si_max s"
    using decisionLog_cases [of nanos now body s] Sink_Append_refines [OF 2(2)] 2(2) by auto
  with 2(1) show ?case by simp
qed simp

text \<open>A record with at most \<open>k\<close> later ones in the window.\<close>

definition retained :: "nat \<Rightarrow> Record \<Rightarrow> Record list \<Rightarrow> bool" where
  "retained k r xs \<longleftrightarrow> (\<exists>ys zs. xs = ys @ r # zs \<and> length zs \<le> k)"

lemma retainedI: "length zs \<le> k \<Longrightarrow> retained k r (ys @ r # zs)"
  unfolding retained_def by blast

lemma retained_mono: "retained k r xs \<Longrightarrow> k \<le> k' \<Longrightarrow> retained k' r xs"
  unfolding retained_def using order_trans by blast

lemma retained_append: "retained k r xs \<Longrightarrow> Suc k < m \<Longrightarrow> retained (Suc k) r (window_append m x xs)"
proof -
  assume r: "retained k r xs" and k: "Suc k < m"
  then obtain ys zs where xs: "xs = ys @ r # zs" "length zs \<le> k" by (auto simp: retained_def)
  show ?thesis
  proof (cases "au_ID x \<in> au_ID ` set xs")
    case True
    with r show ?thesis by (simp add: window_append_def retained_mono)
  next
    case False
    have "last_n m (ys @ r # zs @ [x]) = last_n (m - length (r # zs @ [x])) ys @ r # zs @ [x]"
      using xs(2) k by (simp add: last_n_def)
    with False xs have "window_append m x xs = last_n (m - length (r # zs @ [x])) ys @ r # (zs @ [x])" by (simp add: window_append_def)
    then show ?thesis using xs(2) by (simp only:) (rule retainedI, simp)
  qed
qed

lemma retained_run:
  "sink_inv s \<Longrightarrow> retained k r (kept_window s) \<Longrightarrow> k + length cs < nat (si_max s) \<Longrightarrow> retained (k + length cs) r (kept_window (log_run cs s))"
proof (induction cs arbitrary: k s)
  case (Cons c cs)
  obtain nanos now body where c: "c = (nanos, now, body)" by (cases c)
  let ?s = "snd (decisionLog nanos now body s)"
  have inv: "sink_inv ?s \<and> si_max ?s = si_max s" using log_run_inv [OF Cons.prems(1), of "[c]"] c by simp
  have "retained (Suc k) r (kept_window ?s)"
    using decisionLog_cases [of nanos now body s]
  proof (elim disjE exE)
    assume "?s = s"
    then show ?thesis using retained_mono [OF Cons.prems(2)] by simp
  next
    fix x assume "?s = snd (Sink_Append x s)"
    then show ?thesis using Sink_Append_refines(3) [OF Cons.prems(1)] retained_append [OF Cons.prems(2)] Cons.prems(3) by simp
  qed
  from Cons.IH [OF _ this] inv Cons.prems(3) show ?case using c by simp
qed simp

text \<open>
  A decision that was logged is served as it was logged, and its chain root verifies, until as many further requests
  as the sink has places have been made. The record holds the hashes of request and response, and no text of the request unless a preview was asked for.
\<close>

theorem logged_decision_served:
  assumes "decisionLog nanos now (Some q) (log_run before (NewInMemorySink 4096)) = (Inr rec, s)" "length later < 4096"
  shows "decisionGet (au_ID rec) (log_run later s) = Inr (rec, True)
    \<and> au_RequestHash rec = sha256Hex (lq_Request q) \<and> au_ResponseHash rec = sha256Hex (lq_Response q)
    \<and> au_Metadata rec = redactMetadata (lq_Metadata q) \<and> (lq_PreviewOptIn q \<or> au_TracePreview rec = [])"
proof -
  let ?b = "log_run before (NewInMemorySink 4096)"
  have "sink_inv (NewInMemorySink 4096)" by (simp add: NewInMemorySink_def sink_inv_def)
  then have b: "sink_inv ?b" "si_max ?b = 4096" using log_run_inv [of "NewInMemorySink 4096" before] by (simp_all add: NewInMemorySink_def)
  obtain q' where q': "Some q = Some q'" and rec: "rec = BuildRecord now (''dec-'' @ show_int nanos) (lq_AgentID q') (lq_ModelID q') (lq_ModelVersion q')
      (lq_Request q') (lq_Response q') (lq_Metadata q') (lq_Verdict q') (lq_RiskTier q') (lq_PolicyID q') (lq_ParentID q') (lq_PreviewOptIn q')"
    and app: "Sink_Append rec ?b = (None, s)"
    using decisionLog_done [OF assms(1)] by metis
  have s: "sink_inv s" "si_max s = 4096" and w: "kept_window s = window_append 4096 rec (kept_window ?b)"
    using Sink_Append_refines [OF b(1), of rec] app b(2) by simp_all
  have "au_ID rec \<notin> au_ID ` set (kept_window ?b)"
    using app arg_cong [OF window_ids [OF b(1)], of set] b(1) by (auto simp: Sink_Append_def sink_inv_def split: if_splits)
  then have "retained 0 rec (kept_window s)" unfolding w by (auto simp: window_append_def retained_def last_n_def)
  then have "retained (length later) rec (kept_window (log_run later s))" using retained_run [OF s(1), of 0 rec later] s(2) assms(2) by simp
  then have "rec \<in> set (kept_window (log_run later s))" by (auto simp: retained_def)
  moreover have inv: "sink_inv (log_run later s)" using log_run_inv [OF s(1)] by simp
  then have "distinct (map au_ID (kept_window (log_run later s)))" by (simp add: window_ids) (simp add: sink_inv_def)
  ultimately have "si_records (log_run later s) (au_ID rec) = Some rec"
    using find_distinct window_with_id [OF inv] by (metis with_id_def)
  moreover have "VerifyRecord rec" unfolding rec by (rule BuildRecord_verifies)
  ultimately show ?thesis using q' by (simp add: decisionGet_def Sink_Get_def) (simp add: rec BuildRecord_fields)
qed

text \<open>Two requests on an empty sink, and two records that differ in the order of their metadata only.\<close>

definition sample_request :: logDecisionReq where
  "sample_request =
     \<lparr>lq_AgentID = ''a'', lq_ModelID = ''m'', lq_ModelVersion = ''1'', lq_Request = ''transfer 5'', lq_Response = ''ok'', lq_Metadata = [(''Token'', ''t'')],
      lq_Verdict = ''allow'', lq_RiskTier = ''low'', lq_PolicyID = ''p'', lq_ParentID = [], lq_PreviewOptIn = False\<rparr>"

theorem logged_decision_served_witness:
  "\<exists>rec s. decisionLog 1 2 (Some sample_request) (log_run [] (NewInMemorySink 4096)) = (Inr rec, s)
     \<and> decisionGet (au_ID rec) (log_run [(3, 4, Some sample_request)] s) = Inr (rec, True) \<and> au_TracePreview rec = []"
proof -
  let ?rec = "BuildRecord 2 (''dec-'' @ show_int 1) (lq_AgentID sample_request) (lq_ModelID sample_request) (lq_ModelVersion sample_request)
    (lq_Request sample_request) (lq_Response sample_request) (lq_Metadata sample_request) (lq_Verdict sample_request)
    (lq_RiskTier sample_request) (lq_PolicyID sample_request) (lq_ParentID sample_request) (lq_PreviewOptIn sample_request)"
  have "decisionLog 1 2 (Some sample_request) (log_run [] (NewInMemorySink 4096)) = (Inr ?rec, snd (Sink_Append ?rec (NewInMemorySink 4096)))"
    by (simp add: decisionLog_def Sink_Append_def NewInMemorySink_def Let_def) (simp add: sample_request_def)
  from this logged_decision_served [OF this, of "[(3, 4, Some sample_request)]"] show ?thesis
    by (intro exI [of _ ?rec] exI [of _ "snd (Sink_Append ?rec (NewInMemorySink 4096))"]) (simp add: sample_request_def)
qed

definition sample_record :: "(gostring \<times> gostring) list \<Rightarrow> Record" where
  "sample_record md =
     (let r = \<lparr>au_ID = ''dec-1'', au_Timestamp = 0, au_AgentID = ''a'', au_ModelID = ''m'', au_ModelVersion = ''1'', au_RequestHash = ''ab'',
               au_ResponseHash = ''cd'', au_InputBytes = 1, au_OutputBytes = 1, au_Verdict = ''allow'', au_RiskTier = ''low'', au_PolicyID = ''p'',
               au_Metadata = md, au_TracePreview = [], au_PreviewOptIn = False, au_ParentRecordID = [], au_ChainRootHash = []\<rparr>
      in r\<lparr>au_ChainRootHash := chainRoot r\<rparr>)"

lemma sample_record_ok: "record_ok (sample_record [(''k'', ''v''), (''l'', ''w'')])" "record_ok (sample_record [(''l'', ''w''), (''k'', ''v'')])"
proof -
  have "civil_year 0 = 1970" by code_simp
  then show "record_ok (sample_record [(''k'', ''v''), (''l'', ''w'')])" "record_ok (sample_record [(''l'', ''w''), (''k'', ''v'')])"
    by (simp_all add: record_ok_def sample_record_def Let_def valid_utf8_ascii)
qed

lemma sample_record_verifies: "VerifyRecord (sample_record md)"
  by (simp add: VerifyRecord_def sample_record_def chainRoot_def Let_def)


section \<open>Divergences\<close>

text \<open>
  The verdict is not checked against the known ones: the endpoint logs any text as a verdict.
\<close>

lemma any_verdict_logged:
  "v \<noteq> [] \<Longrightarrow> \<exists>rec s. decisionLog 1 2 (Some (sample_request\<lparr>lq_Verdict := v\<rparr>)) (NewInMemorySink 4096) = (Inr rec, s)"
  by (simp add: decisionLog_def Sink_Append_def NewInMemorySink_def Let_def sample_request_def)

text \<open>
  Outside valid UTF-8 the chain root does not fix the texts: every invalid byte is written as the same replacement.
\<close>

lemma invalid_bytes_collide: "json_string [byte 255] = json_string [byte 254]"
proof -
  have "rune_size [byte 255] = 0" "rune_size [byte 254] = 0" by code_simp+
  then show ?thesis by (simp add: json_string_def split_runes.simps json_unit_def valid_rune_def del: rune_size.simps)
qed

end
