(* ===== verification/Model_Registry.thy ===== *)
theory Model_Registry
  imports Http
begin

text \<open>
  The registry of models, \<^verbatim>\<open>engine/internal/model/registry.go\<close>. The identifiers that \<^verbatim>\<open>genID\<close> draws are a list argument,
  of which the loop takes the first unused one; registration does not return when there is none. The clock
  readings and the orders in which the map is ranged over are arguments. The lemmas show that the hash index and the counters agree
  with the entries in every reachable registry and when an attestation is accepted.
\<close>

section \<open>Data\<close>

record ModelVersion =
  mv_Major :: int
  mv_Minor :: int
  mv_Patch :: int

definition version_String :: "ModelVersion \<Rightarrow> gostring" where
  "version_String v = show_int (mv_Major v) @ ''.'' @ show_int (mv_Minor v) @ ''.'' @ show_int (mv_Patch v)"

datatype ModelStatus = StatusActive | StatusDeprecated | StatusRevoked

record ModelEntry =
  me_ID :: gostring
  me_Name :: gostring
  me_Hash :: gostring
  me_Owner :: gostring
  me_Version :: ModelVersion
  me_IPFSCID :: gostring
  me_InputSchema :: gostring
  me_OutputSchema :: gostring
  me_RegisteredAt :: int
  me_UpdatedAt :: int
  me_Status :: ModelStatus
  me_AttestationCount :: int
  me_LastAttestationAt :: "int option"

record ModelAttestation =
  mt_ModelID :: gostring
  mt_AttesterID :: gostring
  mt_Hash :: gostring
  mt_Timestamp :: int
  mt_Valid :: bool
  mt_Evidence :: gostring

record ModelRegistry =
  mr_models :: "gostring \<rightharpoonup> ModelEntry"
  mr_attestations :: "gostring \<Rightarrow> ModelAttestation list"
  mr_byHash :: "gostring \<rightharpoonup> gostring"

datatype model_error = FieldsRequired | BadHash | NameTooLong | HashExists | ModelNotFound | ModelNotActive

definition New_Registry :: ModelRegistry where
  "New_Registry = \<lparr>mr_models = Map.empty, mr_attestations = (\<lambda>_. []), mr_byHash = Map.empty\<rparr>"

definition ComputeModelHash :: "bytes \<Rightarrow> bytes \<Rightarrow> bytes \<Rightarrow> gostring" where
  "ComputeModelHash architecture weights hyperparams = hex_encode (sha256 (architecture @ weights @ hyperparams))"

text \<open>The regular expression \<^verbatim>\<open>^[a-f0-9]{64}$\<close>.\<close>

definition hexHashRe :: "gostring \<Rightarrow> bool" where
  "hexHashRe h \<longleftrightarrow> length h = 64 \<and> list_all (\<lambda>c. c \<in> set ''abcdef0123456789'') h"

section \<open>Operations\<close>

definition Models_Register ::
  "gostring list \<Rightarrow> int \<Rightarrow> gostring \<Rightarrow> gostring \<Rightarrow> gostring \<Rightarrow> gostring \<Rightarrow> gostring list \<Rightarrow> ModelRegistry
   \<Rightarrow> ((model_error + ModelEntry) \<times> ModelRegistry) option" where
  "Models_Register ids now name owner hash ipfsCID schema r =
     (if name = [] \<or> owner = [] \<or> hash = [] then Some (Inl FieldsRequired, r)
      else if \<not> hexHashRe hash then Some (Inl BadHash, r)
      else if length name > 256 then Some (Inl NameTooLong, r)
      else if mr_byHash r hash \<noteq> None then Some (Inl HashExists, r)
      else case find (\<lambda>i. mr_models r i = None) ids of
        None \<Rightarrow> None
      | Some i \<Rightarrow>
          let m = \<lparr>me_ID = i, me_Name = name, me_Hash = hash, me_Owner = owner, me_Version = \<lparr>mv_Major = 0, mv_Minor = 0, mv_Patch = 0\<rparr>,
                   me_IPFSCID = ipfsCID, me_InputSchema = (if length schema > 0 then schema ! 0 else []),
                   me_OutputSchema = (if length schema > 1 then schema ! 1 else []), me_RegisteredAt = now, me_UpdatedAt = now,
                   me_Status = StatusActive, me_AttestationCount = 0, me_LastAttestationAt = None\<rparr>
          in Some (Inr m, r\<lparr>mr_models := (mr_models r)(i \<mapsto> m), mr_byHash := (mr_byHash r)(hash \<mapsto> i)\<rparr>))"

definition Models_Get :: "ModelRegistry \<Rightarrow> gostring \<Rightarrow> ModelEntry option" where
  "Models_Get r i = mr_models r i"

definition Registry_GetByHash :: "ModelRegistry \<Rightarrow> gostring \<Rightarrow> ModelEntry option" where
  "Registry_GetByHash r h = (case mr_byHash r h of None \<Rightarrow> None | Some i \<Rightarrow> mr_models r i)"

definition Registry_Attest :: "int \<Rightarrow> gostring \<Rightarrow> gostring \<Rightarrow> gostring \<Rightarrow> ModelRegistry \<Rightarrow> (model_error + ModelAttestation) \<times> ModelRegistry" where
  "Registry_Attest now modelID attesterID evidence r =
     (case mr_models r modelID of
        None \<Rightarrow> (Inl ModelNotFound, r)
      | Some m \<Rightarrow>
          if me_Status m \<noteq> StatusActive then (Inl ModelNotActive, r)
          else let a = \<lparr>mt_ModelID = modelID, mt_AttesterID = attesterID, mt_Hash = me_Hash m, mt_Timestamp = now, mt_Valid = True, mt_Evidence = evidence\<rparr>
               in (Inr a, r\<lparr>mr_attestations := (mr_attestations r)(modelID := mr_attestations r modelID @ [a]),
                           mr_models := (mr_models r)(modelID \<mapsto>
                             m\<lparr>me_AttestationCount := me_AttestationCount m + 1, me_LastAttestationAt := Some now, me_UpdatedAt := now\<rparr>)\<rparr>))"

definition ListAttestations :: "ModelRegistry \<Rightarrow> gostring \<Rightarrow> ModelAttestation list" where
  "ListAttestations r i = mr_attestations r i"

definition setStatus :: "int \<Rightarrow> gostring \<Rightarrow> ModelStatus \<Rightarrow> ModelRegistry \<Rightarrow> model_error option \<times> ModelRegistry" where
  "setStatus now modelID status r =
     (case mr_models r modelID of
        None \<Rightarrow> (Some ModelNotFound, r)
      | Some m \<Rightarrow> (None, r\<lparr>mr_models := (mr_models r)(modelID \<mapsto> m\<lparr>me_Status := status, me_UpdatedAt := now\<rparr>)\<rparr>))"

definition Deprecate :: "int \<Rightarrow> gostring \<Rightarrow> ModelRegistry \<Rightarrow> model_error option \<times> ModelRegistry" where
  "Deprecate now i r = setStatus now i StatusDeprecated r"

definition Registry_Revoke :: "int \<Rightarrow> gostring \<Rightarrow> ModelRegistry \<Rightarrow> model_error option \<times> ModelRegistry" where
  "Registry_Revoke now i r = setStatus now i StatusRevoked r"

definition VerifyIntegrity :: "ModelRegistry \<Rightarrow> gostring \<Rightarrow> gostring \<Rightarrow> bool" where
  "VerifyIntegrity r i candidateHash = (case mr_models r i of None \<Rightarrow> False | Some m \<Rightarrow> me_Hash m = candidateHash)"

definition ListByOwner :: "gostring list \<Rightarrow> ModelRegistry \<Rightarrow> gostring \<Rightarrow> ModelEntry list" where
  "ListByOwner ks r owner = filter (\<lambda>m. me_Owner m = owner) (range_values ks (mr_models r))"

definition Registry_Search :: "gostring list \<Rightarrow> ModelRegistry \<Rightarrow> gostring \<Rightarrow> ModelEntry list" where
  "Registry_Search ks r query =
     (let q = ToLower query
      in sort_key me_Name (filter (\<lambda>m. HasPrefix (ToLower (me_Name m)) q \<or> HasPrefix (me_Hash m) q) (range_values ks (mr_models r))))"

definition Registry_Stats :: "gostring list \<Rightarrow> gostring list \<Rightarrow> ModelRegistry \<Rightarrow> nat \<times> nat \<times> (ModelStatus \<Rightarrow> nat)" where
  "Registry_Stats ks as r =
     (length ks, sum_list (map (\<lambda>i. length (mr_attestations r i)) as),
      (\<lambda>st. length (filter (\<lambda>m. me_Status m = st) (range_values ks (mr_models r)))))"

section \<open>Reachable registries\<close>

inductive registry_step :: "ModelRegistry \<Rightarrow> ModelRegistry \<Rightarrow> bool" where
  registering: "Models_Register ids now name owner hash cid schema r = Some (res, r') \<Longrightarrow> registry_step r r'"
| attesting: "Registry_Attest now i attester evidence r = (res, r') \<Longrightarrow> registry_step r r'"
| deprecating: "Deprecate now i r = (res, r') \<Longrightarrow> registry_step r r'"
| revoking: "Registry_Revoke now i r = (res, r') \<Longrightarrow> registry_step r r'"

definition entry_ok :: "ModelRegistry \<Rightarrow> gostring \<Rightarrow> ModelEntry \<Rightarrow> bool" where
  "entry_ok r i m \<longleftrightarrow> me_ID m = i \<and> hexHashRe (me_Hash m) \<and> mr_byHash r (me_Hash m) = Some i
     \<and> me_AttestationCount m = int (length (mr_attestations r i))
     \<and> me_LastAttestationAt m = (if mr_attestations r i = [] then None else Some (mt_Timestamp (last (mr_attestations r i))))
     \<and> list_all (\<lambda>a. mt_ModelID a = i \<and> mt_Hash a = me_Hash m \<and> mt_Valid a) (mr_attestations r i)"

definition registry_inv :: "ModelRegistry \<Rightarrow> bool" where
  "registry_inv r \<longleftrightarrow> (\<forall>i m. mr_models r i = Some m \<longrightarrow> entry_ok r i m)
     \<and> (\<forall>h i. mr_byHash r h = Some i \<longrightarrow> (\<exists>m. mr_models r i = Some m \<and> me_Hash m = h))
     \<and> (\<forall>i. mr_models r i = None \<longrightarrow> mr_attestations r i = [])"

lemma registry_inv_entry: "registry_inv r \<Longrightarrow> mr_models r i = Some m \<Longrightarrow> entry_ok r i m"
  by (simp add: registry_inv_def)

lemma registry_inv_index: "registry_inv r \<Longrightarrow> mr_byHash r h = Some i \<Longrightarrow> mr_models r i = Some m \<Longrightarrow> me_Hash m = h"
  unfolding registry_inv_def by (metis option.inject)

lemma find_unused: "find (\<lambda>i. m i = None) ids = Some i \<Longrightarrow> m i = None"
  using find_SomeD by fast

lemma Register_cases:
  assumes "Models_Register ids now name owner hash cid schema r = Some (res, r')"
  obtains (refused) e where "res = Inl e" "r' = r"
  | (stored) i m where "res = Inr m" "mr_models r i = None" "mr_byHash r hash = None" "hexHashRe hash" "me_ID m = i" "me_Hash m = hash"
      "me_AttestationCount m = 0" "me_LastAttestationAt m = None" "r' = r\<lparr>mr_models := (mr_models r)(i \<mapsto> m), mr_byHash := (mr_byHash r)(hash \<mapsto> i)\<rparr>"
proof (cases "find (\<lambda>i. mr_models r i = None) ids")
  case None
  with assms show ?thesis by (intro refused [of "projl res"]) (auto simp: Models_Register_def split: if_splits)
next
  case (Some i)
  with assms find_unused [OF Some] show ?thesis
    by (cases res) (auto simp: Models_Register_def Let_def intro: refused stored split: if_splits)
qed

lemma Register_inv:
  assumes r: "registry_inv r" and reg: "Models_Register ids now name owner hash cid schema r = Some (res, r')"
  shows "registry_inv r'"
  using reg
proof (cases rule: Register_cases)
  case (stored i m)
  have old: "me_Hash m' \<noteq> hash" if "mr_models r j = Some m'" for j m'
    using registry_inv_entry [OF r that] stored by (auto simp: entry_ok_def)
  moreover have "mr_byHash r h \<noteq> Some i" for h using r stored(2) unfolding registry_inv_def by (metis option.distinct(1))
  ultimately show ?thesis using r stored(2-8) unfolding stored(9) registry_inv_def by (auto simp: entry_ok_def)
qed (use r in simp)

lemma entry_update_inv:
  assumes r: "registry_inv r" and m: "mr_models r i = Some m" and same: "me_ID m' = me_ID m" "me_Hash m' = me_Hash m"
    "me_AttestationCount m' = me_AttestationCount m + int (length as)"
    "me_LastAttestationAt m' = (if as = [] then me_LastAttestationAt m else Some (mt_Timestamp (last as)))"
    "list_all (\<lambda>a. mt_ModelID a = i \<and> mt_Hash a = me_Hash m \<and> mt_Valid a) as"
  shows "registry_inv (r\<lparr>mr_attestations := (mr_attestations r)(i := mr_attestations r i @ as), mr_models := (mr_models r)(i \<mapsto> m')\<rparr>)"
proof -
  have "entry_ok r i m" using r m by (rule registry_inv_entry)
  moreover have "h = me_Hash m" if "mr_byHash r h = Some i" for h using registry_inv_index [OF r that m] by simp
  ultimately show ?thesis using r m same unfolding registry_inv_def by (auto simp: entry_ok_def)
qed

lemma Attest_inv:
  assumes "registry_inv r" "Registry_Attest now i attester evidence r = (res, r')"
  shows "registry_inv r'"
proof (cases res)
  case (Inr a)
  then obtain m where m: "mr_models r i = Some m" and a: "mt_ModelID a = i" "mt_Hash a = me_Hash m" "mt_Valid a" "mt_Timestamp a = now"
    and r': "r' = r\<lparr>mr_attestations := (mr_attestations r)(i := mr_attestations r i @ [a]),
       mr_models := (mr_models r)(i \<mapsto> m\<lparr>me_AttestationCount := me_AttestationCount m + 1, me_LastAttestationAt := Some now, me_UpdatedAt := now\<rparr>)\<rparr>"
    using assms(2) by (auto simp: Registry_Attest_def Let_def split: option.splits if_splits)
  show ?thesis unfolding r' by (rule entry_update_inv [OF assms(1) m]) (use a in auto)
qed (use assms in \<open>auto simp: Registry_Attest_def Let_def split: option.splits if_splits\<close>)

lemma setStatus_inv:
  assumes "registry_inv r" "setStatus now i st r = (res, r')"
  shows "registry_inv r'"
proof (cases "mr_models r i")
  case (Some m)
  then have r': "r' = r\<lparr>mr_attestations := (mr_attestations r)(i := mr_attestations r i @ []), mr_models := (mr_models r)(i \<mapsto> m\<lparr>me_Status := st, me_UpdatedAt := now\<rparr>)\<rparr>"
    using assms(2) by (simp add: setStatus_def)
  show ?thesis unfolding r' by (rule entry_update_inv [OF assms(1) Some]) auto
qed (use assms in \<open>simp add: setStatus_def\<close>)

lemma registry_step_inv: "registry_step r r' \<Longrightarrow> registry_inv r \<Longrightarrow> registry_inv r'"
  by (induction rule: registry_step.induct) (auto simp: Deprecate_def Registry_Revoke_def intro: Register_inv Attest_inv setStatus_inv)

lemma registry_inv_New: "registry_inv New_Registry"
  by (simp add: registry_inv_def New_Registry_def)

lemma registry_reachable_inv: "registry_step\<^sup>*\<^sup>* New_Registry r \<Longrightarrow> registry_inv r"
  by (induction rule: rtranclp_induct) (auto intro: registry_step_inv registry_inv_New)

text \<open>
  C20: in every reachable registry the index by hash finds exactly the registered models, every model is stored under its own
  identifier with a SHA-256 hash that no other model has, and its attestation counter and last attestation time are those of
  its list of attestations, which are all valid and for its hash.
\<close>

theorem registry_consistent:
  assumes "registry_step\<^sup>*\<^sup>* New_Registry r"
  shows "(Registry_GetByHash r h = Some m \<longleftrightarrow> (\<exists>i. Models_Get r i = Some m) \<and> me_Hash m = h)
    \<and> (Models_Get r i = Some m \<longrightarrow>
         me_ID m = i \<and> length (me_Hash m) = 64 \<and> me_AttestationCount m = int (length (ListAttestations r i))
         \<and> me_LastAttestationAt m = (if ListAttestations r i = [] then None else Some (mt_Timestamp (last (ListAttestations r i))))
         \<and> (\<forall>a\<in>set (ListAttestations r i). mt_ModelID a = i \<and> VerifyIntegrity r i (mt_Hash a))
         \<and> (\<forall>j m'. Models_Get r j = Some m' \<and> me_Hash m' = me_Hash m \<longrightarrow> j = i))"
proof -
  have r: "registry_inv r" using assms by (rule registry_reachable_inv)
  have e: "entry_ok r j m'" if "mr_models r j = Some m'" for j m' using r that by (rule registry_inv_entry)
  have "Registry_GetByHash r h = Some m \<longleftrightarrow> (\<exists>i. Models_Get r i = Some m) \<and> me_Hash m = h"
  proof
    assume "Registry_GetByHash r h = Some m"
    then obtain j where j: "mr_byHash r h = Some j" "mr_models r j = Some m" by (auto simp: Registry_GetByHash_def split: option.splits)
    then show "(\<exists>i. Models_Get r i = Some m) \<and> me_Hash m = h" using registry_inv_index [OF r j] by (auto simp: Models_Get_def)
  next
    assume "(\<exists>i. Models_Get r i = Some m) \<and> me_Hash m = h"
    then show "Registry_GetByHash r h = Some m" using e by (auto simp: Models_Get_def Registry_GetByHash_def entry_ok_def)
  qed
  moreover have "j = i" if "mr_models r i = Some m" "mr_models r j = Some m'" "me_Hash m' = me_Hash m" for j m'
    using e [OF that(1)] e [OF that(2)] that(3) by (simp add: entry_ok_def)
  ultimately show ?thesis using e [of i m]
    by (auto simp: Models_Get_def ListAttestations_def VerifyIntegrity_def entry_ok_def hexHashRe_def list_all_iff)
qed

section \<open>Retired models\<close>

definition retired :: "gostring \<Rightarrow> ModelAttestation list \<Rightarrow> ModelRegistry \<Rightarrow> bool" where
  "retired i as r \<longleftrightarrow> (\<exists>m. mr_models r i = Some m \<and> me_Status m \<noteq> StatusActive) \<and> mr_attestations r i = as"

lemma retired_step: "registry_step r r' \<Longrightarrow> retired i as r \<Longrightarrow> retired i as r'"
proof (induction rule: registry_step.induct)
  case (registering ids now name owner hash cid schema r res r')
  from registering(1) show ?case using registering(2) by (cases rule: Register_cases) (auto simp: retired_def)
qed (auto simp: Registry_Attest_def Deprecate_def Registry_Revoke_def setStatus_def retired_def Let_def split: if_splits option.splits)

lemma retired_run: "registry_step\<^sup>*\<^sup>* r r' \<Longrightarrow> retired i as r \<Longrightarrow> retired i as r'"
  by (induction rule: rtranclp_induct) (auto intro: retired_step)

text \<open>
  A deprecated or revoked model stays out of use: whatever operations follow, it is never active again, every further
  attestation is refused, and the list of its attestations stays as it was.
\<close>

theorem retired_model_frozen:
  assumes "fst (setStatus now i st r) = None" "st \<noteq> StatusActive" "registry_step\<^sup>*\<^sup>* (snd (setStatus now i st r)) r'"
  shows "fst (Registry_Attest t i attester evidence r') = Inl ModelNotActive \<and> ListAttestations r' i = ListAttestations r i"
proof -
  have "retired i (mr_attestations r i) (snd (setStatus now i st r))"
    using assms(1,2) by (auto simp: setStatus_def retired_def split: option.splits)
  from retired_run [OF assms(3) this] show ?thesis
    by (auto simp: retired_def Registry_Attest_def ListAttestations_def)
qed

section \<open>Sample\<close>

definition sample_hash :: gostring where "sample_hash = replicate 64 CHR ''a''"

definition sample_registry :: ModelRegistry where
  "sample_registry = snd (the (Models_Register [''m1''] 7 ''resnet'' ''alice'' sample_hash [] [] New_Registry))"

lemma sample_hash_ok [simp]: "hexHashRe sample_hash" "sample_hash \<noteq> []"
  by (simp_all add: hexHashRe_def sample_hash_def list_all_iff)

lemma sample_registered:
  "Models_Register [''m1''] 7 ''resnet'' ''alice'' sample_hash [] [] New_Registry = Some (Inr (the (mr_models sample_registry ''m1'')), sample_registry)"
  "mr_models sample_registry ''m1'' \<noteq> None" "me_Hash (the (mr_models sample_registry ''m1'')) = sample_hash"
  by (simp_all add: sample_registry_def Models_Register_def New_Registry_def Let_def)

theorem registry_consistent_witness:
  "\<exists>r m. registry_step\<^sup>*\<^sup>* New_Registry r \<and> Models_Get r ''m1'' = Some m \<and> Registry_GetByHash r sample_hash = Some m
     \<and> me_AttestationCount m = 1 \<and> length (ListAttestations r ''m1'') = 1"
proof -
  let ?r = "snd (Registry_Attest 9 ''m1'' ''bob'' ''e'' sample_registry)"
  have "registry_step New_Registry sample_registry" using sample_registered(1) by (rule registry_step.registering)
  moreover have "registry_step sample_registry ?r" by (rule registry_step.attesting) (rule prod.collapse [symmetric])
  ultimately have run: "registry_step\<^sup>*\<^sup>* New_Registry ?r" by (meson rtranclp.rtrancl_into_rtrancl rtranclp.rtrancl_refl)
  obtain m where m: "Models_Get ?r ''m1'' = Some m" "me_Hash m = sample_hash" "me_AttestationCount m = 1"
    by (auto simp: Models_Get_def Registry_Attest_def sample_registry_def Models_Register_def New_Registry_def Let_def)
  with run registry_consistent [OF run, of sample_hash m "''m1''"] show ?thesis
    by (intro exI [of _ ?r] exI [of _ m]) auto
qed

theorem retired_model_frozen_witness:
  "fst (Registry_Attest 12 ''m1'' ''bob'' ''e'' (snd (Registry_Revoke 10 ''m1'' sample_registry))) = Inl ModelNotActive
     \<and> ListAttestations (snd (Registry_Revoke 10 ''m1'' sample_registry)) ''m1'' = ListAttestations sample_registry ''m1''"
proof -
  have "fst (setStatus 10 ''m1'' StatusRevoked sample_registry) = None" using sample_registered(2) by (auto simp: setStatus_def split: option.split)
  from retired_model_frozen [OF this, of "snd (setStatus 10 ''m1'' StatusRevoked sample_registry)"] show ?thesis
    by (simp add: Registry_Revoke_def)
qed

section \<open>Divergences\<close>

text \<open>A revoked model can be turned into a deprecated one: the final status is not kept.\<close>

lemma revoked_can_be_deprecated:
  "mr_models r i = Some m \<Longrightarrow>
   map_option me_Status (Models_Get (snd (Deprecate t' i (snd (Registry_Revoke t i r)))) i) = Some StatusDeprecated"
  by (simp add: Deprecate_def Registry_Revoke_def setStatus_def Models_Get_def)

end
