(* ===== verification/Llm_Providers.thy ===== *)
theory Llm_Providers
  imports Http Go_Time
begin

text \<open>
  The clients of remote language models, \<^verbatim>\<open>engine/internal/llm\<close>: the ring of API keys with cooldowns (\<^verbatim>\<open>keys.go\<close>), the errors
  (\<^verbatim>\<open>errors.go\<close>), and the three clients \<^verbatim>\<open>groq.go\<close>, \<^verbatim>\<open>openai_compat.go\<close> and \<^verbatim>\<open>gemini.go\<close>. The remote service is a function
  of what is sent, the decoder of its JSON reply a function of the bytes, and the clock readings are arguments. The lemmas show which
  key is used, and that a key that was refused rests for its cooldown.
\<close>

section \<open>Key rings\<close>

record LlmKeyRing =
  rg_keys :: "gostring list"
  rg_next :: nat
  rg_cooldown :: int
  rg_restingUntil :: "int list"

datatype key_error = ErrNoKeys | ErrAllKeysCooling | KeyIndexPanic

definition NewLlmKeyRing :: "gostring list \<Rightarrow> int \<Rightarrow> LlmKeyRing" where
  "NewLlmKeyRing keys cooldown =
     (let filtered = filter (\<lambda>k. k \<noteq> []) keys
      in \<lparr>rg_keys = filtered, rg_next = 0, rg_cooldown = cooldown, rg_restingUntil = replicate (length filtered) zero_time\<rparr>)"

definition ring_Len :: "LlmKeyRing \<Rightarrow> nat" where
  "ring_Len r = length (rg_keys r)"

text \<open>The cursor is an unsigned 64-bit counter; its conversion to \<^verbatim>\<open>int\<close> may become negative, and a negative index panics.\<close>

definition slot :: "LlmKeyRing \<Rightarrow> int" where
  "slot r = wrap64 (int (rg_next r)) smod int (length (rg_keys r))"

definition resting :: "int \<Rightarrow> LlmKeyRing \<Rightarrow> nat \<Rightarrow> bool" where
  "resting now r i \<longleftrightarrow> \<not> (rg_restingUntil r ! i = zero_time \<or> now > rg_restingUntil r ! i)"

fun next_loop :: "int \<Rightarrow> nat \<Rightarrow> LlmKeyRing \<Rightarrow> (key_error + gostring \<times> nat) \<times> LlmKeyRing" where
  "next_loop now 0 r = (Inl ErrAllKeysCooling, r)"
| "next_loop now (Suc n) r =
     (let idx = slot r; r' = r\<lparr>rg_next := (rg_next r + 1) mod 2 ^ 64\<rparr> in
      if idx < 0 then (Inl KeyIndexPanic, r')
      else if \<not> resting now r (nat idx) then (Inr (rg_keys r ! nat idx, nat idx), r')
      else next_loop now n r')"

definition ring_Next :: "int \<Rightarrow> LlmKeyRing \<Rightarrow> (key_error + gostring \<times> nat) \<times> LlmKeyRing" where
  "ring_Next now r = (if ring_Len r = 0 then (Inl ErrNoKeys, r) else next_loop now (length (rg_keys r)) r)"

definition ring_Rest :: "int \<Rightarrow> nat \<Rightarrow> LlmKeyRing \<Rightarrow> LlmKeyRing" where
  "ring_Rest now i r =
     (if rg_cooldown r = 0 \<or> i \<ge> length (rg_restingUntil r) then r
      else r\<lparr>rg_restingUntil := (rg_restingUntil r)[i := now + rg_cooldown r]\<rparr>)"

definition HealthSnapshot :: "int \<Rightarrow> LlmKeyRing \<Rightarrow> (nat \<times> bool \<times> int) list" where
  "HealthSnapshot now r =
     map (\<lambda>i. let u = rg_restingUntil r ! i; rest = (u \<noteq> zero_time \<and> now < u) in (i, rest, if rest then u else zero_time)) [0..<length (rg_keys r)]"

section \<open>Requests, replies and errors\<close>

datatype LlmRole = RoleSystem | RoleUser | RoleAssistant

fun role_text :: "LlmRole \<Rightarrow> gostring" where
  "role_text RoleSystem = ''system''"
| "role_text RoleUser = ''user''"
| "role_text RoleAssistant = ''assistant''"

record LlmRequest =
  lr_Messages :: "(LlmRole \<times> gostring) list"
  lr_ModelHint :: gostring
  lr_MaxTokens :: int
  lr_Temperature :: float64
  lr_JSONMode :: bool
  lr_Seed :: int

record LlmResponse =
  ls_Content :: gostring
  ls_Provider :: gostring
  ls_Model :: gostring
  ls_KeyIndex :: nat
  ls_LatencyMs :: int
  ls_PromptTokens :: int
  ls_CompletionTokens :: int
  ls_FinishReason :: gostring
  ls_Fixture :: bool
  ls_RawJSON :: bytes

record ProviderError =
  pe_Provider :: gostring
  pe_StatusCode :: int
  pe_Retryable :: bool
  pe_Body :: gostring
  pe_Cause :: "gostring option"

definition pe_Error :: "ProviderError \<Rightarrow> gostring" where
  "pe_Error e =
     (if pe_Cause e \<noteq> None \<and> pe_StatusCode e = 0 then pe_Provider e @ '': '' @ the (pe_Cause e)
      else if pe_StatusCode e > 0 then
        (if pe_Body e \<noteq> [] then pe_Provider e @ '': http '' @ show_int (pe_StatusCode e) @ '': '' @ pe_Body e
         else pe_Provider e @ '': http '' @ show_int (pe_StatusCode e))
      else pe_Provider e @ '': unknown error'')"

definition isRateLimitStatus :: "int \<Rightarrow> bool" where
  "isRateLimitStatus code \<longleftrightarrow> code = 429 \<or> code = 402"

definition isAuthFailure :: "int \<Rightarrow> bool" where
  "isAuthFailure code \<longleftrightarrow> code = 401 \<or> code = 403"

definition llm_parseRetryAfter :: "gostring \<Rightarrow> int" where
  "llm_parseRetryAfter v =
     (let v = TrimSpace v in
      if v = [] then 0
      else case Atoi v of None \<Rightarrow> 0 | Some secs \<Rightarrow> if secs \<le> 0 then 0 else (if secs > 300 then 300 else secs) * 10 ^ 9)"

definition truncateBody :: "bytes \<Rightarrow> gostring" where
  "truncateBody raw = (if length raw \<le> 512 then raw else take 512 raw @ ''...(truncated)'')"

fun key_error_text :: "key_error \<Rightarrow> gostring" where
  "key_error_text ErrNoKeys = ''llm: no keys configured''"
| "key_error_text ErrAllKeysCooling = ''llm: all keys are cooling''"
| "key_error_text KeyIndexPanic = ''panic''"

definition caused :: "gostring \<Rightarrow> gostring \<Rightarrow> bool \<Rightarrow> ProviderError" where
  "caused i cause retryable = \<lparr>pe_Provider = i, pe_StatusCode = 0, pe_Retryable = retryable, pe_Body = [], pe_Cause = Some cause\<rparr>"

definition refused_with :: "gostring \<Rightarrow> int \<Rightarrow> bool \<Rightarrow> bytes \<Rightarrow> ProviderError" where
  "refused_with i status retryable raw =
     \<lparr>pe_Provider = i, pe_StatusCode = status, pe_Retryable = retryable, pe_Body = truncateBody raw, pe_Cause = None\<rparr>"

section \<open>Clients\<close>

text \<open>What the transport makes of a request, and the parts of a decoded reply that are used.\<close>

datatype http_result = BuildFailed gostring | SendFailed gostring | ReadFailed gostring | HttpReply int bytes

record chatRequest =
  cr_Model :: gostring
  cr_Messages :: "(gostring \<times> gostring) list"
  cr_MaxTokens :: int
  cr_Temperature :: float64
  cr_Seed :: int
  cr_JsonObject :: bool

record chatReply =
  cp_Model :: gostring
  cp_Choices :: "(gostring \<times> gostring) list"
  cp_PromptTokens :: int
  cp_CompletionTokens :: int

definition groqMessagesFromRequest :: "LlmRequest \<Rightarrow> (gostring \<times> gostring) list" where
  "groqMessagesFromRequest req = map (\<lambda>(r, c). (role_text r, c)) (lr_Messages req)"

definition isGroqModelHint :: "gostring \<Rightarrow> bool" where
  "isGroqModelHint h =
     (let h = ToLower (TrimSpace h)
      in list_ex (HasPrefix h) [''llama'', ''mixtral'', ''gemma'', ''deepseek'', ''qwen''])"

definition chat_body :: "gostring \<Rightarrow> LlmRequest \<Rightarrow> chatRequest" where
  "chat_body model req =
     \<lparr>cr_Model = model, cr_Messages = groqMessagesFromRequest req, cr_MaxTokens = (if lr_MaxTokens req = 0 then 512 else lr_MaxTokens req),
      cr_Temperature = lr_Temperature req, cr_Seed = lr_Seed req, cr_JsonObject = lr_JSONMode req\<rparr>"

text \<open>The handling of a status of 400 and above, which is the same text in the three clients.\<close>

definition status_failure :: "gostring \<Rightarrow> int \<Rightarrow> int \<Rightarrow> bytes \<Rightarrow> nat \<Rightarrow> LlmKeyRing \<Rightarrow> ProviderError \<times> LlmKeyRing" where
  "status_failure i now status raw keyIdx r =
     (if isRateLimitStatus status then (refused_with i status True raw, ring_Rest now keyIdx r)
      else if isAuthFailure status then (refused_with i status False raw, ring_Rest now keyIdx r)
      else (refused_with i status (status \<ge> 500) raw, r))"

definition chat_call ::
  "(gostring \<Rightarrow> chatRequest \<Rightarrow> http_result) \<Rightarrow> (bytes \<Rightarrow> gostring + chatReply) \<Rightarrow> int \<Rightarrow> int \<Rightarrow> int \<Rightarrow> gostring \<Rightarrow> gostring \<Rightarrow> LlmRequest \<Rightarrow>
   LlmKeyRing \<Rightarrow> (ProviderError + LlmResponse) \<times> LlmKeyRing" where
  "chat_call send decode now now' latency i model req r =
     (if ring_Len r = 0 then (Inl (caused i (key_error_text ErrNoKeys) False), r)
      else case ring_Next now r of
        (Inl e, r) \<Rightarrow> (Inl (caused i (key_error_text e) False), r)
      | (Inr (key, keyIdx), r) \<Rightarrow>
          (case send key (chat_body model req) of
             BuildFailed m \<Rightarrow> (Inl (caused i (''build request: '' @ m) False), r)
           | SendFailed m \<Rightarrow> (Inl (caused i m True), r)
           | ReadFailed m \<Rightarrow> (Inl (caused i (''read: '' @ m) True), r)
           | HttpReply status raw \<Rightarrow>
               if status \<ge> 400 then (let (e, r) = status_failure i now' status raw keyIdx r in (Inl e, r))
               else (case decode raw of
                 Inl m \<Rightarrow> (Inl (caused i (''decode: '' @ m) False), r)
               | Inr p \<Rightarrow>
                   (case cp_Choices p of
                      [] \<Rightarrow> (Inl (caused i ''empty choices'' False), r)
                    | (content, finish) # _ \<Rightarrow>
                        (Inr \<lparr>ls_Content = content, ls_Provider = i, ls_Model = cp_Model p, ls_KeyIndex = keyIdx, ls_LatencyMs = latency,
                              ls_PromptTokens = cp_PromptTokens p, ls_CompletionTokens = cp_CompletionTokens p, ls_FinishReason = finish,
                              ls_Fixture = False, ls_RawJSON = raw\<rparr>, r)))))"

definition Groq_Complete where
  "Groq_Complete send decode now now' latency defaultModel req r =
     chat_call send decode now now' latency ''groq''
       (if lr_ModelHint req = [] \<or> \<not> isGroqModelHint (lr_ModelHint req) then defaultModel else lr_ModelHint req) req r"

definition Compat_Complete where
  "Compat_Complete send decode now now' latency i defaultModel req r =
     chat_call send decode now now' latency i (if lr_ModelHint req = [] then defaultModel else lr_ModelHint req) req r"

text \<open>Gemini takes the system texts apart from the turns, and the key in the address.\<close>

record geminiRequest =
  gr_Model :: gostring
  gr_Contents :: "(gostring \<times> gostring) list"
  gr_System :: "gostring option"
  gr_Config :: "(int \<times> float64 \<times> gostring) option"

fun gemini_turns :: "(LlmRole \<times> gostring) list \<Rightarrow> gostring \<Rightarrow> (gostring \<times> gostring) list \<Rightarrow> gostring \<times> (gostring \<times> gostring) list" where
  "gemini_turns [] sys contents = (sys, contents)"
| "gemini_turns ((r, c) # ms) sys contents =
     (case r of
        RoleSystem \<Rightarrow> gemini_turns ms ((if sys \<noteq> [] then sys @ [CHR 0x0A] else sys) @ c) contents
      | RoleUser \<Rightarrow> gemini_turns ms sys (contents @ [(''user'', c)])
      | RoleAssistant \<Rightarrow> gemini_turns ms sys (contents @ [(''model'', c)]))"

definition gemini_body :: "gostring \<Rightarrow> LlmRequest \<Rightarrow> geminiRequest" where
  "gemini_body model req =
     (let (sys, contents) = gemini_turns (lr_Messages req) [] []
      in \<lparr>gr_Model = model, gr_Contents = contents, gr_System = (if sys \<noteq> [] then Some sys else None),
          gr_Config = (if lr_MaxTokens req > 0 \<or> lr_Temperature req > 0 \<or> lr_JSONMode req
                       then Some (lr_MaxTokens req, lr_Temperature req, if lr_JSONMode req then ''application/json'' else []) else None)\<rparr>)"

record geminiReply =
  gp_Candidates :: "(gostring list \<times> gostring) list"
  gp_PromptTokens :: int
  gp_CompletionTokens :: int

definition Gemini_Complete ::
  "(gostring \<Rightarrow> geminiRequest \<Rightarrow> http_result) \<Rightarrow> (bytes \<Rightarrow> gostring + geminiReply) \<Rightarrow> int \<Rightarrow> int \<Rightarrow> int \<Rightarrow> gostring \<Rightarrow> LlmRequest \<Rightarrow>
   LlmKeyRing \<Rightarrow> (ProviderError + LlmResponse) \<times> LlmKeyRing" where
  "Gemini_Complete send decode now now' latency defaultModel req r =
     (let i = ''gemini''; model = (if lr_ModelHint req = [] \<or> \<not> HasPrefix (lr_ModelHint req) ''gemini'' then defaultModel else lr_ModelHint req) in
      if ring_Len r = 0 then (Inl (caused i (key_error_text ErrNoKeys) False), r)
      else case ring_Next now r of
        (Inl e, r) \<Rightarrow> (Inl (caused i (key_error_text e) False), r)
      | (Inr (key, keyIdx), r) \<Rightarrow>
          (case send key (gemini_body model req) of
             BuildFailed m \<Rightarrow> (Inl (caused i (''build request: '' @ m) False), r)
           | SendFailed m \<Rightarrow> (Inl (caused i m True), r)
           | ReadFailed m \<Rightarrow> (Inl (caused i (''read: '' @ m) True), r)
           | HttpReply status raw \<Rightarrow>
               if status \<ge> 400 then (let (e, r) = status_failure i now' status raw keyIdx r in (Inl e, r))
               else (case decode raw of
                 Inl m \<Rightarrow> (Inl (caused i (''decode: '' @ m) False), r)
               | Inr p \<Rightarrow>
                   if gp_Candidates p = [] \<or> fst (hd (gp_Candidates p)) = [] then (Inl (caused i ''empty candidates'' False), r)
                   else (Inr \<lparr>ls_Content = concat (fst (hd (gp_Candidates p))), ls_Provider = i, ls_Model = model, ls_KeyIndex = keyIdx,
                              ls_LatencyMs = latency, ls_PromptTokens = gp_PromptTokens p, ls_CompletionTokens = gp_CompletionTokens p,
                              ls_FinishReason = snd (hd (gp_Candidates p)), ls_Fixture = False, ls_RawJSON = raw\<rparr>, r))))"

section \<open>Which key is used\<close>

definition ring_ok :: "LlmKeyRing \<Rightarrow> bool" where
  "ring_ok r \<longleftrightarrow> rg_keys r \<noteq> [] \<and> length (rg_restingUntil r) = length (rg_keys r)"

lemma find_upt_Suc: "find P [0..<Suc n] = (if P 0 then Some 0 else map_option Suc (find (\<lambda>j. P (Suc j)) [0..<n]))"
proof -
  have "find P (map Suc xs) = map_option Suc (find (\<lambda>j. P (Suc j)) xs)" for xs by (induction xs) auto
  moreover have "[0..<Suc n] = 0 # map Suc [0..<n]" by (simp add: upt_conv_Cons map_Suc_upt del: upt_Suc)
  ultimately show ?thesis by (simp del: upt_Suc)
qed

lemma slot_small: "rg_keys r \<noteq> [] \<Longrightarrow> rg_next r < 2 ^ 63 \<Longrightarrow> slot r = int (rg_next r mod length (rg_keys r))"
  by (cases "rg_next r = 0") (simp_all add: slot_def wrap64_small smod_int_alt_def zmod_int)

text \<open>The loop takes the first slot from the cursor on that does not rest.\<close>

lemma next_loop_find:
  "rg_keys r \<noteq> [] \<Longrightarrow> rg_next r + n \<le> 2 ^ 63 \<Longrightarrow>
   next_loop now n r =
     (case find (\<lambda>j. \<not> resting now r ((rg_next r + j) mod length (rg_keys r))) [0..<n] of
        Some j \<Rightarrow> let i = (rg_next r + j) mod length (rg_keys r) in (Inr (rg_keys r ! i, i), r\<lparr>rg_next := rg_next r + j + 1\<rparr>)
      | None \<Rightarrow> (Inl ErrAllKeysCooling, r\<lparr>rg_next := rg_next r + n\<rparr>))"
proof (induction n arbitrary: r)
  case (Suc n)
  let ?r = "r\<lparr>rg_next := rg_next r + 1\<rparr>"
  have s: "slot r = int (rg_next r mod length (rg_keys r))" "(rg_next r + 1) mod 2 ^ 64 = rg_next r + 1"
    using Suc.prems by (simp_all add: slot_small)
  have "resting now ?r = resting now r" by (simp add: resting_def fun_eq_iff)
  then have IH: "next_loop now n ?r =
     (case find (\<lambda>j. \<not> resting now r ((rg_next r + Suc j) mod length (rg_keys r))) [0..<n] of
        Some j \<Rightarrow> let i = (rg_next r + Suc j) mod length (rg_keys r) in (Inr (rg_keys r ! i, i), r\<lparr>rg_next := rg_next r + Suc j + 1\<rparr>)
      | None \<Rightarrow> (Inl ErrAllKeysCooling, r\<lparr>rg_next := rg_next r + Suc n\<rparr>))"
    using Suc.IH [of ?r] Suc.prems by (simp cong: option.case_cong)
  show ?case
    unfolding find_upt_Suc next_loop.simps Let_def s using IH by (simp add: Let_def split: option.split)
qed simp

text \<open>
  As long as the cursor of a key ring has not run through half its range, a call gets a key exactly when some key is not
  cooling; it is then the first such key in turn, counted from the cursor, and the cursor moves past it.
\<close>

theorem ring_Next_round_robin:
  assumes "ring_ok r" "rg_next r + length (rg_keys r) \<le> 2 ^ 63"
  shows "case ring_Next now r of
      (Inr (key, i), r') \<Rightarrow> \<exists>j. i = (rg_next r + j) mod length (rg_keys r) \<and> key = rg_keys r ! i \<and> \<not> resting now r i
          \<and> (\<forall>l<j. resting now r ((rg_next r + l) mod length (rg_keys r))) \<and> r' = r\<lparr>rg_next := rg_next r + j + 1\<rparr>
    | (Inl e, r') \<Rightarrow> e = ErrAllKeysCooling \<and> (\<forall>i<length (rg_keys r). resting now r i)"
proof -
  let ?n = "length (rg_keys r)" and ?P = "\<lambda>j. \<not> resting now r ((rg_next r + j) mod length (rg_keys r))"
  have ne: "rg_keys r \<noteq> []" using assms(1) by (simp add: ring_ok_def)
  have eq: "ring_Next now r = next_loop now ?n r" using ne by (simp add: ring_Next_def ring_Len_def)
  show ?thesis
  proof (cases "find ?P [0..<?n]")
    case None
    then have "\<forall>j<?n. resting now r ((rg_next r + j) mod ?n)" by (auto simp: find_None_iff)
    moreover have "\<exists>j<?n. (rg_next r + j) mod ?n = i" if "i < ?n" for i
    proof -
      have lt: "rg_next r mod ?n < ?n" using ne by simp
      let ?j = "(i + (?n - rg_next r mod ?n)) mod ?n"
      have "(rg_next r + ?j) mod ?n = (rg_next r mod ?n + (i + (?n - rg_next r mod ?n))) mod ?n" by (simp add: mod_simps)
      also have "rg_next r mod ?n + (i + (?n - rg_next r mod ?n)) = i + ?n" using lt by linarith
      finally show ?thesis using that ne by (intro exI [of _ ?j]) simp
    qed
    ultimately have "\<forall>i<?n. resting now r i" by metis
    with None show ?thesis by (simp add: eq next_loop_find [OF ne assms(2)])
  next
    case (Some j)
    then have j: "j < ?n" "?P j" "\<forall>l<j. resting now r ((rg_next r + l) mod ?n)"
      by (auto simp: find_Some_iff nth_upt)
    with Some show ?thesis by (auto simp: eq next_loop_find [OF ne assms(2)] Let_def)
  qed
qed

section \<open>Rested keys\<close>

lemma next_loop_live: "next_loop now n r = (Inr (k, i), r') \<Longrightarrow> \<not> resting now r i"
  by (induction now n r rule: next_loop.induct) (auto simp: Let_def resting_def split: if_splits)

lemma next_loop_keeps: "rg_restingUntil (snd (next_loop now n r)) = rg_restingUntil r \<and> rg_cooldown (snd (next_loop now n r)) = rg_cooldown r"
  by (induction now n r rule: next_loop.induct) (auto simp: Let_def)

datatype ring_call = NextAt int | RestAt int nat

fun call_time :: "ring_call \<Rightarrow> int" where
  "call_time (NextAt t) = t"
| "call_time (RestAt t i) = t"

fun ring_exec :: "ring_call \<Rightarrow> LlmKeyRing \<Rightarrow> LlmKeyRing" where
  "ring_exec (NextAt t) r = snd (ring_Next t r)"
| "ring_exec (RestAt t i) r = ring_Rest t i r"

definition rests_until :: "int \<Rightarrow> nat \<Rightarrow> LlmKeyRing \<Rightarrow> bool" where
  "rests_until u i r \<longleftrightarrow> i < length (rg_restingUntil r) \<and> u \<le> rg_restingUntil r ! i"

lemma ring_exec_cooldown: "rg_cooldown (ring_exec c r) = rg_cooldown r"
  by (cases c) (simp_all add: ring_Next_def ring_Rest_def next_loop_keeps)

lemma rests_exec: "rests_until u i r \<Longrightarrow> u \<le> call_time c + rg_cooldown r \<Longrightarrow> rests_until u i (ring_exec c r)"
  by (cases c) (auto simp: rests_until_def ring_Next_def ring_Rest_def next_loop_keeps nth_list_update)

lemma rests_run: "rests_until (t + rg_cooldown r) i r \<Longrightarrow> \<forall>c\<in>set cs. t \<le> call_time c \<Longrightarrow> rests_until (t + rg_cooldown r) i (fold ring_exec cs r)"
proof (induction cs arbitrary: r)
  case (Cons c cs)
  then have "rests_until (t + rg_cooldown r) i (ring_exec c r)" by (auto intro: rests_exec)
  with Cons.IH [of "ring_exec c r"] Cons.prems(2) show ?case by (simp add: ring_exec_cooldown)
qed simp

text \<open>
  A key that a service refused at time \<open>t\<close> is not used again before its cooldown is over, whatever calls are made in between.
\<close>

theorem rested_key_unused:
  assumes "i < length (rg_restingUntil r)" "0 < rg_cooldown r" "0 \<le> t" "\<forall>c\<in>set cs. t \<le> call_time c" "now \<le> t + rg_cooldown r"
  shows "fst (ring_Next now (fold ring_exec cs (ring_Rest t i r))) \<noteq> Inr (key, i)"
proof
  let ?r = "fold ring_exec cs (ring_Rest t i r)"
  have "rests_until (t + rg_cooldown r) i (ring_Rest t i r)" using assms(1,2) by (simp add: rests_until_def ring_Rest_def)
  moreover have "rg_cooldown (ring_Rest t i r) = rg_cooldown r" by (simp add: ring_Rest_def)
  ultimately have "rests_until (t + rg_cooldown r) i ?r" using rests_run [of t "ring_Rest t i r" i cs] assms(4) by simp
  then have rest: "resting now ?r i"
    using assms(2,3,5) by (simp add: rests_until_def resting_def zero_time_def)
  assume "fst (ring_Next now ?r) = Inr (key, i)"
  then have "\<exists>r'. next_loop now (length (rg_keys ?r)) ?r = (Inr (key, i), r')"
    by (cases "next_loop now (length (rg_keys ?r)) ?r") (auto simp: ring_Next_def split: if_splits)
  with next_loop_live rest show False by blast
qed

text \<open>A client rests its key on the statuses 429, 402, 401 and 403 only.\<close>

lemma status_failure_rests:
  "snd (status_failure i now status raw k r) = (if status \<in> {429, 402, 401, 403} then ring_Rest now k r else r)"
  by (auto simp: status_failure_def isRateLimitStatus_def isAuthFailure_def)

definition sample_ring :: LlmKeyRing where
  "sample_ring = NewLlmKeyRing [''k0'', ''k1''] 30"

lemmas sample_defs = sample_ring_def NewLlmKeyRing_def ring_Next_def ring_Len_def slot_def wrap64_def resting_def smod_int_alt_def Let_def zero_time_def

theorem ring_Next_round_robin_witness:
  "ring_ok sample_ring \<and> fst (ring_Next 5 sample_ring) = Inr (''k0'', 0) \<and> fst (ring_Next 5 (snd (ring_Next 5 sample_ring))) = Inr (''k1'', 1)"
proof -
  have ok: "ring_ok sample_ring" by (simp add: sample_ring_def NewLlmKeyRing_def ring_ok_def)
  have "rg_next sample_ring + length (rg_keys sample_ring) \<le> 2 ^ 63" by (simp add: sample_ring_def NewLlmKeyRing_def)
  note n = ring_Next_round_robin [OF ok this, of 5]
  have "fst (ring_Next 5 sample_ring) = Inr (''k0'', 0)" "fst (ring_Next 5 (snd (ring_Next 5 sample_ring))) = Inr (''k1'', 1)"
    by (simp_all add: sample_defs)
  with n ok show ?thesis by simp
qed

theorem rested_key_unused_witness:
  "fst (ring_Next 20 (fold ring_exec [NextAt 12] (ring_Rest 10 0 sample_ring))) \<noteq> Inr (''k0'', 0)
   \<and> fst (ring_Next 20 (fold ring_exec [NextAt 12] (ring_Rest 10 0 sample_ring))) = Inr (''k1'', 1)"
proof -
  have "0 < length (rg_restingUntil sample_ring)" "rg_cooldown sample_ring = 30" by (simp_all add: sample_ring_def NewLlmKeyRing_def)
  then have "fst (ring_Next 20 (fold ring_exec [NextAt 12] (ring_Rest 10 0 sample_ring))) \<noteq> Inr (''k0'', 0)"
    by (intro rested_key_unused) simp_all
  moreover have "fst (ring_Next 20 (fold ring_exec [NextAt 12] (ring_Rest 10 0 sample_ring))) = Inr (''k1'', 1)"
    by (simp add: sample_defs ring_Rest_def)
  ultimately show ?thesis ..
qed

end
