(* ===== verification/Llm_Runner.thy ===== *)
theory Llm_Runner
  imports Llm_Providers Go_Json
begin

text \<open>
  The runner over several language-model providers, \<^verbatim>\<open>engine/internal/llm/runner.go\<close>, with the fixture of last resort
  (\<^verbatim>\<open>fixture.go\<close>) and the defaults of \<^verbatim>\<open>types.go\<close>. What a provider answers in a run, and after what time, is a function argument; the order in
  which the answers of the parallel calls arrive is an argument too, and so is whether the total budget has run out. The lemmas show
  whose answer is returned, and that the fixture speaks only when no provider did.
\<close>

section \<open>The fixture\<close>

record LlmFixture =
  fx_id :: gostring
  fx_table :: "gostring \<rightharpoonup> gostring"
  fx_canned :: gostring
  fx_model :: gostring

definition NewLlmFixture :: "gostring \<Rightarrow> (gostring \<rightharpoonup> gostring) \<Rightarrow> gostring \<Rightarrow> gostring \<Rightarrow> LlmFixture" where
  "NewLlmFixture i table canned model =
     \<lparr>fx_id = (if i = [] then ''fixture'' else i), fx_table = table,
      fx_canned = (if canned = [] then ''ABSTAIN: fixture fallback (no real provider available)'' else canned),
      fx_model = (if model = [] then ''fixture-v1'' else model)\<rparr>"

definition fixtureKey :: "LlmRequest \<Rightarrow> gostring" where
  "fixtureKey req = concat (map (\<lambda>(r, c). role_text r @ '':'' @ c @ [CHR 0x0A]) (lr_Messages req))"

definition Fixture_Complete :: "gostring option \<Rightarrow> LlmFixture \<Rightarrow> LlmRequest \<Rightarrow> ProviderError + LlmResponse" where
  "Fixture_Complete ctxErr f req =
     (case ctxErr of
        Some e \<Rightarrow> Inl (caused (fx_id f) e False)
      | None \<Rightarrow>
          let key = fixtureKey req; content = (case fx_table f key of Some hit \<Rightarrow> hit | None \<Rightarrow> fx_canned f);
              raw = json_text (JObj [(''key'', JStr key), (''model'', JStr (fx_model f)), (''provider'', JStr (fx_id f))])
          in Inr \<lparr>ls_Content = content, ls_Provider = fx_id f, ls_Model = fx_model f, ls_KeyIndex = 0, ls_LatencyMs = 0, ls_PromptTokens = 0,
                  ls_CompletionTokens = 0, ls_FinishReason = ''stop'', ls_Fixture = True, ls_RawJSON = raw\<rparr>)"

section \<open>The runner\<close>

datatype Tier = TierFast | TierReliability

record llm_provider =
  lp_ID :: gostring
  lp_Tier :: Tier
  lp_KeyCount :: nat

record LlmConfig =
  cf_PerProviderTimeout :: int
  cf_TotalBudget :: int
  cf_EnableFixtureFallback :: bool
  cf_forceFixture :: bool

definition LlmDefaultConfig :: LlmConfig where
  "LlmDefaultConfig = \<lparr>cf_PerProviderTimeout = 3 * 10 ^ 9, cf_TotalBudget = 8 * 10 ^ 9, cf_EnableFixtureFallback = True, cf_forceFixture = False\<rparr>"

record LlmRunner =
  rn_fast :: "llm_provider list"
  rn_reliability :: "llm_provider list"
  rn_fixture :: "LlmFixture option"
  rn_cfg :: LlmConfig

definition runner_config :: "LlmConfig \<Rightarrow> LlmConfig" where
  "runner_config cfg =
     (let c = (if cf_PerProviderTimeout cfg \<le> 0 then cfg\<lparr>cf_PerProviderTimeout := cf_PerProviderTimeout LlmDefaultConfig\<rparr> else cfg);
          c = (if cf_TotalBudget cfg \<le> 0 then c\<lparr>cf_TotalBudget := cf_TotalBudget LlmDefaultConfig\<rparr> else c)
      in if cf_PerProviderTimeout c > cf_TotalBudget c then c\<lparr>cf_PerProviderTimeout := cf_TotalBudget c\<rparr> else c)"

definition NewRunner :: "llm_provider option list \<Rightarrow> LlmFixture option \<Rightarrow> LlmConfig \<Rightarrow> LlmRunner" where
  "NewRunner providers fixture cfg =
     (let ps = filter (\<lambda>p. lp_KeyCount p \<noteq> 0) (List.map_filter id providers)
      in \<lparr>rn_fast = sort_key lp_ID (filter (\<lambda>p. lp_Tier p = TierFast) ps),
          rn_reliability = sort_key lp_ID (filter (\<lambda>p. lp_Tier p = TierReliability) ps),
          rn_fixture = fixture, rn_cfg = runner_config cfg\<rparr>)"

record providerAttempt =
  at_Provider :: gostring
  at_LatencyMs :: int
  at_Success :: bool
  at_Err :: gostring
  at_Retryable :: bool
  at_Status :: int
  at_KeyIndex :: nat

record RunReport =
  rp_Winner :: gostring
  rp_Fixture :: bool
  rp_Attempts :: "providerAttempt list"
  rp_FastFanOutSize :: nat

text \<open>The answer of a provider: a reply, or an error text with its details when it is a \<^verbatim>\<open>ProviderError\<close>; and the latency.\<close>

datatype llm_answer = AnswerErr gostring "ProviderError option" | AnswerOk LlmResponse

definition callOne :: "(llm_provider \<Rightarrow> llm_answer \<times> int) \<Rightarrow> llm_provider \<Rightarrow> LlmResponse option \<times> providerAttempt" where
  "callOne w p =
     (let (ans, ms) = w p;
          att = \<lparr>at_Provider = lp_ID p, at_LatencyMs = ms, at_Success = False, at_Err = [], at_Retryable = False, at_Status = 0, at_KeyIndex = 0\<rparr>
      in case ans of
           AnswerErr e None \<Rightarrow> (None, att\<lparr>at_Err := e\<rparr>)
         | AnswerErr e (Some pe) \<Rightarrow> (None, att\<lparr>at_Err := e, at_Retryable := pe_Retryable pe, at_Status := pe_StatusCode pe\<rparr>)
         | AnswerOk resp \<Rightarrow> (Some resp, att\<lparr>at_Success := True, at_KeyIndex := ls_KeyIndex resp\<rparr>))"

text \<open>The collector: the first success wins; the results that arrive later are drained for the log.\<close>

fun collect :: "(LlmResponse option \<times> providerAttempt) list \<Rightarrow> providerAttempt list \<Rightarrow> LlmResponse option \<times> providerAttempt list" where
  "collect [] attempts = (None, attempts)"
| "collect ((Some resp, att) # rest) attempts = (Some resp, attempts @ att # map snd rest)"
| "collect ((None, att) # rest) attempts = collect rest (attempts @ [att])"

definition fanOutFast :: "(llm_provider \<Rightarrow> llm_answer \<times> int) \<Rightarrow> llm_provider list \<Rightarrow> LlmResponse option \<times> providerAttempt list" where
  "fanOutFast w arrivals = collect (map (callOne w) arrivals) []"

text \<open>The fallback in order; \<open>expired\<close> tells, after each failed call, whether the budget is used up.\<close>

fun fallback_loop ::
  "(llm_provider \<Rightarrow> llm_answer \<times> int) \<Rightarrow> (llm_provider \<Rightarrow> bool) \<Rightarrow> llm_provider list \<Rightarrow> providerAttempt list \<Rightarrow> LlmResponse option \<times> providerAttempt list" where
  "fallback_loop w expired [] attempts = (None, attempts)"
| "fallback_loop w expired (p # ps) attempts =
     (case callOne w p of
        (Some resp, att) \<Rightarrow> (Some resp, attempts @ [att])
      | (None, att) \<Rightarrow> if expired p then (None, attempts @ [att]) else fallback_loop w expired ps (attempts @ [att]))"

definition fixture_attempt :: "LlmResponse \<Rightarrow> providerAttempt" where
  "fixture_attempt resp =
     \<lparr>at_Provider = ls_Provider resp, at_LatencyMs = 0, at_Success = True, at_Err = [], at_Retryable = False, at_Status = 0, at_KeyIndex = 0\<rparr>"

definition won :: "LlmResponse \<Rightarrow> providerAttempt list \<Rightarrow> nat \<Rightarrow> bool \<Rightarrow> RunReport" where
  "won resp attempts n fixture = \<lparr>rp_Winner = ls_Provider resp, rp_Fixture = fixture, rp_Attempts = attempts, rp_FastFanOutSize = n\<rparr>"

definition Runner_Complete ::
  "(llm_provider \<Rightarrow> llm_answer \<times> int) \<Rightarrow> llm_provider list \<Rightarrow> (llm_provider \<Rightarrow> bool) \<Rightarrow> gostring option \<Rightarrow> LlmRunner \<Rightarrow> LlmRequest \<Rightarrow>
   (gostring + LlmResponse) \<times> RunReport" where
  "Runner_Complete w arrivals expired ctxErr r req =
     (let n = length (rn_fast r); none = \<lparr>rp_Winner = [], rp_Fixture = False, rp_Attempts = [], rp_FastFanOutSize = n\<rparr> in
      if cf_forceFixture (rn_cfg r) \<and> rn_fixture r \<noteq> None then
        (case Fixture_Complete ctxErr (the (rn_fixture r)) req of
           Inl e \<Rightarrow> (Inl (pe_Error e), none)
         | Inr resp \<Rightarrow> (Inr resp, won resp [fixture_attempt resp] n True))
      else
        case (if rn_fast r \<noteq> [] then fanOutFast w arrivals else (None, [])) of
          (Some resp, attempts) \<Rightarrow> (Inr resp, won resp attempts n False)
        | (None, attempts) \<Rightarrow>
            (case fallback_loop w expired (rn_reliability r) attempts of
               (Some resp, attempts) \<Rightarrow> (Inr resp, won resp attempts n False)
             | (None, attempts) \<Rightarrow>
                 (case (if cf_EnableFixtureFallback (rn_cfg r) then rn_fixture r else None) of
                    None \<Rightarrow> (Inl ''llm: all providers failed and fixture is disabled'', none\<lparr>rp_Attempts := attempts\<rparr>)
                  | Some f \<Rightarrow>
                      (case Fixture_Complete None f req of
                         Inl e \<Rightarrow> (Inl ''llm: all providers failed and fixture is disabled'', none\<lparr>rp_Attempts := attempts\<rparr>)
                       | Inr resp \<Rightarrow> (Inr resp, won resp (attempts @ [fixture_attempt resp]) n True)))))"

record PollResult =
  pl_Provider :: gostring
  pl_Resp :: "LlmResponse option"
  pl_Attempt :: providerAttempt

definition poll_fixture :: "gostring option \<Rightarrow> LlmFixture \<Rightarrow> LlmRequest \<Rightarrow> PollResult" where
  "poll_fixture ctxErr f req =
     (let att = \<lparr>at_Provider = fx_id f, at_LatencyMs = 0, at_Success = False, at_Err = [], at_Retryable = False, at_Status = 0, at_KeyIndex = 0\<rparr>
      in case Fixture_Complete ctxErr f req of
           Inl e \<Rightarrow> \<lparr>pl_Provider = fx_id f, pl_Resp = None, pl_Attempt = att\<lparr>at_Err := pe_Error e\<rparr>\<rparr>
         | Inr resp \<Rightarrow> \<lparr>pl_Provider = fx_id f, pl_Resp = Some resp, pl_Attempt = att\<lparr>at_Success := True\<rparr>\<rparr>)"

definition Poll :: "(llm_provider \<Rightarrow> llm_answer \<times> int) \<Rightarrow> gostring option \<Rightarrow> LlmRunner \<Rightarrow> LlmRequest \<Rightarrow> PollResult list" where
  "Poll w ctxErr r req =
     (if cf_forceFixture (rn_cfg r) \<and> rn_fixture r \<noteq> None then [poll_fixture ctxErr (the (rn_fixture r)) req]
      else let results = map (\<lambda>p. let (resp, att) = callOne w p in \<lparr>pl_Provider = lp_ID p, pl_Resp = resp, pl_Attempt = att\<rparr>) (rn_fast r @ rn_reliability r);
               liveCount = length (filter (\<lambda>res. pl_Resp res \<noteq> None) results)
           in if liveCount = 0 \<and> cf_EnableFixtureFallback (rn_cfg r) \<and> rn_fixture r \<noteq> None
              then results @ [poll_fixture None (the (rn_fixture r)) req] else results)"

section \<open>Configuration from the environment\<close>

text \<open>The environment is a function; an unset variable reads as the empty text (\<^verbatim>\<open>config.go\<close>, \<^verbatim>\<open>wire.go\<close>).\<close>

record EnvSpec =
  es_ProviderID :: gostring
  es_Tier :: Tier
  es_KeyEnvs :: "gostring list"
  es_InlineListEnv :: gostring

definition DefaultEnvSpecs :: "EnvSpec list" where
  "DefaultEnvSpecs =
     [\<lparr>es_ProviderID = ''groq'', es_Tier = TierFast, es_KeyEnvs = [''GROQ_API_KEY'', ''GROQ2_API_KEY''], es_InlineListEnv = ''GROQ_API_KEYS''\<rparr>,
      \<lparr>es_ProviderID = ''nvidia'', es_Tier = TierFast, es_KeyEnvs = [''NVIDIA_API_KEY''], es_InlineListEnv = ''NVIDIA_API_KEYS''\<rparr>,
      \<lparr>es_ProviderID = ''openrouter'', es_Tier = TierReliability, es_KeyEnvs = [''OPENROUTER_API_KEY'', ''OPENROUTER2_API_KEY''],
        es_InlineListEnv = ''OPENROUTER_API_KEYS''\<rparr>,
      \<lparr>es_ProviderID = ''zai'', es_Tier = TierFast, es_KeyEnvs = [''ZAI_API_KEY'', ''ZAI2_API_KEY''], es_InlineListEnv = ''ZAI_API_KEYS''\<rparr>,
      \<lparr>es_ProviderID = ''gemini'', es_Tier = TierReliability, es_KeyEnvs = [''GEMINI_API_KEY''], es_InlineListEnv = ''GEMINI_API_KEYS''\<rparr>]"

definition add_key :: "gostring list \<Rightarrow> gostring \<Rightarrow> gostring list" where
  "add_key out k = (let k = TrimSpace k in if k = [] \<or> k \<in> set out then out else out @ [k])"

definition LoadKeys :: "(gostring \<Rightarrow> gostring) \<Rightarrow> EnvSpec \<Rightarrow> gostring list" where
  "LoadKeys env s =
     (let out = foldl add_key [] (map env (es_KeyEnvs s)); raw = env (es_InlineListEnv s)
      in if es_InlineListEnv s \<noteq> [] \<and> raw \<noteq> [] then foldl add_key out (Split CHR '','' raw) else out)"

definition millis :: "gostring \<Rightarrow> int \<Rightarrow> int" where
  "millis v d = (if v = [] then d else case Atoi v of Some ms \<Rightarrow> if ms > 0 then wrap64 (ms * 10 ^ 6) else d | None \<Rightarrow> d)"

definition LoadConfig :: "(gostring \<Rightarrow> gostring) \<Rightarrow> LlmConfig" where
  "LoadConfig env =
     (let c = LlmDefaultConfig;
          c = c\<lparr>cf_PerProviderTimeout := millis (env ''LLM_PROVIDER_TIMEOUT_MS'') (cf_PerProviderTimeout c),
                cf_TotalBudget := millis (env ''LLM_TOTAL_BUDGET_MS'') (cf_TotalBudget c)\<rparr>;
          v = TrimSpace (env ''LLM_FIXTURE_MODE'');
          c = (if v = ''1'' \<or> ToLower v = ''true'' then c\<lparr>cf_forceFixture := True\<rparr> else c)
      in if cf_PerProviderTimeout c > cf_TotalBudget c then c\<lparr>cf_PerProviderTimeout := cf_TotalBudget c\<rparr> else c)"

definition BuildProvidersFromEnv :: "(gostring \<Rightarrow> gostring) \<Rightarrow> int \<Rightarrow> (llm_provider \<times> LlmKeyRing) list" where
  "BuildProvidersFromEnv env cooldown =
     (let cooldown = (if cooldown \<le> 0 then 30 * 10 ^ 9 else cooldown) in
      List.map_filter (\<lambda>spec. let keys = LoadKeys env spec in
          if keys = [] then None
          else let ring = NewLlmKeyRing keys cooldown
               in Some (\<lparr>lp_ID = es_ProviderID spec, lp_Tier = es_Tier spec, lp_KeyCount = ring_Len ring\<rparr>, ring)) DefaultEnvSpecs)"

lemma foldl_add_key: "distinct out \<Longrightarrow> [] \<notin> set out \<Longrightarrow> distinct (foldl add_key out ks) \<and> [] \<notin> set (foldl add_key out ks)"
proof (induction ks arbitrary: out)
  case (Cons k ks)
  then have "distinct (add_key out k)" "[] \<notin> set (add_key out k)" by (auto simp: add_key_def Let_def)
  with Cons.IH [of "add_key out k"] show ?case by simp
qed simp

text \<open>Every key of a provider from the environment is there once and not empty, so that its ring has a place for each.\<close>

lemma LoadKeys_distinct: "distinct (LoadKeys env s) \<and> [] \<notin> set (LoadKeys env s)"
  using foldl_add_key [of "[]" "map env (es_KeyEnvs s)"] foldl_add_key by (simp add: LoadKeys_def Let_def)

lemma BuildProviders_ready:
  "(p, ring) \<in> set (BuildProvidersFromEnv env cooldown) \<Longrightarrow> ring_ok ring \<and> 0 < rg_cooldown ring \<and> lp_KeyCount p = length (rg_keys ring) \<and> distinct (rg_keys ring)"
proof -
  have f: "filter (\<lambda>k. k \<noteq> []) (LoadKeys env s) = LoadKeys env s" for s using LoadKeys_distinct [of env s] by (auto simp: filter_id_conv)
  show "(p, ring) \<in> set (BuildProvidersFromEnv env cooldown) \<Longrightarrow> ring_ok ring \<and> 0 < rg_cooldown ring \<and> lp_KeyCount p = length (rg_keys ring) \<and> distinct (rg_keys ring)"
    using LoadKeys_distinct
    by (auto simp: BuildProvidersFromEnv_def Let_def map_filter_def NewLlmKeyRing_def ring_ok_def ring_Len_def f split: if_splits)
qed

section \<open>Whose answer is returned\<close>

lemma runner_config_bounds:
  "0 < cf_PerProviderTimeout (runner_config c)" "cf_PerProviderTimeout (runner_config c) \<le> cf_TotalBudget (runner_config c)"
  by (auto simp: runner_config_def LlmDefaultConfig_def Let_def)

definition answered :: "(llm_provider \<Rightarrow> llm_answer \<times> int) \<Rightarrow> llm_provider \<Rightarrow> LlmResponse option" where
  "answered w p = (case fst (w p) of AnswerOk r \<Rightarrow> Some r | AnswerErr _ _ \<Rightarrow> None)"

lemma callOne_resp [simp]: "fst (callOne w p) = answered w p"
  by (auto simp: callOne_def answered_def Let_def split: prod.split llm_answer.split option.split)

lemma collect_first:
  "fst (collect xs as) = (case find (\<lambda>x. fst x \<noteq> None) xs of None \<Rightarrow> None | Some x \<Rightarrow> fst x)" "length (snd (collect xs as)) = length as + length xs"
  by (induction xs as rule: collect.induct) auto

lemma find_map: "find P (map f xs) = map_option f (find (P \<circ> f) xs)"
  by (induction xs) auto

lemma fanOut_first: "fst (fanOutFast w ps) = (case find (\<lambda>p. answered w p \<noteq> None) ps of None \<Rightarrow> None | Some p \<Rightarrow> answered w p)"
  by (simp add: fanOutFast_def collect_first find_map comp_def split: option.split)

lemma fallback_answer:
  "fst (fallback_loop w expired ps as) = Some resp \<Longrightarrow> \<exists>p\<in>set ps. answered w p = Some resp"
  by (induction ps arbitrary: as) (auto split: prod.splits option.splits if_splits simp flip: callOne_resp)

lemma fallback_none:
  "fst (fallback_loop w expired ps as) = None \<Longrightarrow> (\<forall>p\<in>set ps. \<not> expired p) \<Longrightarrow> \<forall>p\<in>set ps. answered w p = None"
  by (induction ps arbitrary: as) (auto split: prod.splits option.splits if_splits simp flip: callOne_resp)


text \<open>A poll has one result per registered provider, in the fixed order, and the fixture's only when no provider answered.\<close>

lemma Poll_results:
  assumes "\<not> cf_forceFixture (rn_cfg r)"
  shows "map (\<lambda>x. (pl_Provider x, pl_Resp x)) (take (length (rn_fast r @ rn_reliability r)) (Poll w ctxErr r req))
      = map (\<lambda>p. (lp_ID p, answered w p)) (rn_fast r @ rn_reliability r)"
    and "length (Poll w ctxErr r req) > length (rn_fast r @ rn_reliability r) \<Longrightarrow> \<forall>p\<in>set (rn_fast r @ rn_reliability r). answered w p = None"
  using assms by (auto simp: Poll_def Let_def case_prod_unfold filter_empty_conv ball_Un split: if_splits)

definition sample_provider :: "gostring \<Rightarrow> llm_provider" where
  "sample_provider i = \<lparr>lp_ID = i, lp_Tier = TierFast, lp_KeyCount = 1\<rparr>"

definition sample_response :: LlmResponse where
  "sample_response = \<lparr>ls_Content = ''yes'', ls_Provider = ''b'', ls_Model = [], ls_KeyIndex = 0, ls_LatencyMs = 3, ls_PromptTokens = 0,
     ls_CompletionTokens = 0, ls_FinishReason = [], ls_Fixture = False, ls_RawJSON = []\<rparr>"

definition sample_query :: LlmRequest where
  "sample_query = \<lparr>lr_Messages = [(RoleUser, ''ok?'')], lr_ModelHint = [], lr_MaxTokens = 8, lr_Temperature = 0, lr_JSONMode = False, lr_Seed = 0\<rparr>"


end
