(* ===== verification/Facet_Judge.thy ===== *)
theory Facet_Judge
  imports Llm_Runner
begin

text \<open>
  The facet judge, \<^verbatim>\<open>engine/internal/judge\<close>: votes of several language models on each facet of a task and their aggregation
  (\<^verbatim>\<open>facet_judge.go\<close>, \<^verbatim>\<open>types.go\<close>), the evidence of a disagreement (\<^verbatim>\<open>equivocation/proof.go\<close>) and of an escalation (\<^verbatim>\<open>hitl/hitl.go\<close>) without
  their digests, and the endpoint \<^verbatim>\<open>api/judge_handler.go\<close>. The lower-case mapping of the standard library (\<open>lower\<close>), the rounding of the float division (\<open>rnd\<close>), the
  order in which the tally is ranged over and the polls of the runner are arguments. The lemmas show what each verdict
  means in terms of the answers.
\<close>

section \<open>Data\<close>

record Facet =
  ft_ID :: gostring
  ft_Prompt :: gostring
  ft_AllowedValues :: "gostring list"
  ft_Weight :: float64

record JTask =
  tk_ID :: gostring
  tk_Input :: gostring
  tk_SystemMsg :: gostring
  tk_Facets :: "Facet list"
  tk_MinProviders :: int
  tk_AgreementThreshold :: float64

datatype JVerdict = JAgree | JDisagree | JAbstain

record ProviderVote =
  vo_ProviderID :: gostring
  vo_Value :: gostring
  vo_Raw :: gostring
  vo_Latency :: int
  vo_Err :: gostring

record FacetResult =
  fr_FacetID :: gostring
  fr_Verdict :: JVerdict
  fr_Winner :: gostring
  fr_Votes :: "ProviderVote list"
  fr_LiveCount :: nat
  fr_AgreementFraction :: float64

record JTaskResult =
  tr_TaskID :: gostring
  tr_OverallVerdict :: JVerdict
  tr_Facets :: "gostring \<rightharpoonup> FacetResult"
  tr_StartedAt :: int
  tr_CompletedAt :: int

section \<open>One facet\<close>

definition newline :: gostring where "newline = [CHR 0x0A]"

definition buildFacetSystemPrompt :: "gostring \<Rightarrow> Facet \<Rightarrow> gostring" where
  "buildFacetSystemPrompt userSys facet =
     (if TrimSpace userSys \<noteq> [] then userSys @ newline @ newline else []) @
     ''You are a strict classification oracle. '' @ ''You will be asked one question about the input. '' @
     ''Reply with EXACTLY ONE of these values and nothing else: '' @ Join '', '' (ft_AllowedValues facet) @ ''.'' @ newline @
     ''Do not explain. Do not add punctuation. Do not repeat the question. '' @
     ''If the input is ambiguous, still choose the single best-fit value.''"

definition buildFacetUserPrompt :: "gostring \<Rightarrow> Facet \<Rightarrow> gostring" where
  "buildFacetUserPrompt input facet = ''Input:'' @ newline @ input @ newline @ newline @ ''Question: '' @ ft_Prompt facet"

definition buildFacetMessages :: "gostring \<Rightarrow> gostring \<Rightarrow> (LlmRole \<times> gostring) list" where
  "buildFacetMessages sys user = [(RoleSystem, sys), (RoleUser, user)]"

text \<open>\<^verbatim>\<open>strings.Trim\<close> with a set of ASCII characters.\<close>

definition trim_set :: "char set \<Rightarrow> gostring \<Rightarrow> gostring" where
  "trim_set cs s = rev (dropWhile (\<lambda>c. c \<in> cs) (rev (dropWhile (\<lambda>c. c \<in> cs) s)))"

definition vote_cutset :: "char set" where
  "vote_cutset = set (''.!?'' @ [CHR 0x22, CHR 0x27, CHR 0x60])"

definition normalizeVote :: "(gostring \<Rightarrow> gostring) \<Rightarrow> gostring \<Rightarrow> gostring list \<Rightarrow> gostring" where
  "normalizeVote lower raw allowed =
     (if allowed = [] then TrimSpace raw
      else let stripped = lower (trim_set vote_cutset (TrimSpace raw)) in
        case find (\<lambda>v. lower v = stripped) allowed of
          Some v \<Rightarrow> v
        | None \<Rightarrow>
            let lowerRaw = '' '' @ lower raw @ '' '' in
            (case find (\<lambda>v. Contains lowerRaw ('' '' @ lower v @ '' '')) allowed of Some v \<Rightarrow> v | None \<Rightarrow> []))"

definition vote_of :: "(gostring \<Rightarrow> gostring) \<Rightarrow> Facet \<Rightarrow> PollResult \<Rightarrow> ProviderVote" where
  "vote_of lower facet p =
     (let v = \<lparr>vo_ProviderID = pl_Provider p, vo_Value = [], vo_Raw = [], vo_Latency = wrap64 (at_LatencyMs (pl_Attempt p) * 10 ^ 6), vo_Err = []\<rparr>
      in case pl_Resp p of
           None \<Rightarrow> v\<lparr>vo_Err := (if at_Err (pl_Attempt p) = [] then ''provider returned no response'' else at_Err (pl_Attempt p))\<rparr>
         | Some resp \<Rightarrow> v\<lparr>vo_Raw := ls_Content resp, vo_Value := normalizeVote lower (ls_Content resp) (ft_AllowedValues facet)\<rparr>)"

definition live_polls :: "PollResult list \<Rightarrow> PollResult list" where
  "live_polls polls = filter (\<lambda>p. pl_Resp p \<noteq> None) polls"

text \<open>The values of the answers that name one, and the tally over them.\<close>

definition named_values :: "(gostring \<Rightarrow> gostring) \<Rightarrow> Facet \<Rightarrow> PollResult list \<Rightarrow> gostring list" where
  "named_values lower facet polls = filter (\<lambda>v. v \<noteq> []) (map (\<lambda>p. vo_Value (vote_of lower facet p)) (live_polls polls))"

definition tally :: "(gostring \<Rightarrow> gostring) \<Rightarrow> Facet \<Rightarrow> PollResult list \<Rightarrow> gostring \<Rightarrow> nat" where
  "tally lower facet polls v = count_list (named_values lower facet polls) v"

fun top_loop :: "(gostring \<Rightarrow> nat) \<Rightarrow> gostring list \<Rightarrow> gostring \<Rightarrow> nat \<Rightarrow> gostring \<times> nat" where
  "top_loop cnt [] best bestCount = (best, bestCount)"
| "top_loop cnt (v # vs) best bestCount = (if cnt v > bestCount then top_loop cnt vs v (cnt v) else top_loop cnt vs best bestCount)"

definition facet_request :: "JTask \<Rightarrow> Facet \<Rightarrow> LlmRequest" where
  "facet_request task facet =
     \<lparr>lr_Messages = buildFacetMessages (buildFacetSystemPrompt (tk_SystemMsg task) facet) (buildFacetUserPrompt (tk_Input task) facet),
      lr_ModelHint = [], lr_MaxTokens = 64, lr_Temperature = 0, lr_JSONMode = False, lr_Seed = 0\<rparr>"

definition decideFacet ::
  "(gostring \<Rightarrow> gostring) \<Rightarrow> (rat \<Rightarrow> rat) \<Rightarrow> (Facet \<Rightarrow> gostring list) \<Rightarrow> (LlmRequest \<Rightarrow> PollResult list) \<Rightarrow> JTask \<Rightarrow> Facet \<Rightarrow> int \<Rightarrow> float64 \<Rightarrow> FacetResult" where
  "decideFacet lower rnd ks poll task facet minProviders threshold =
     (let polls = poll (facet_request task facet); live = length (live_polls polls);
          fr = \<lparr>fr_FacetID = ft_ID facet, fr_Verdict = JAbstain, fr_Winner = [], fr_Votes = map (vote_of lower facet) polls, fr_LiveCount = live, fr_AgreementFraction = 0\<rparr>
      in if int live < minProviders then fr
         else let (best, bestCount) = top_loop (tally lower facet polls) (ks facet) [] 0 in
           if bestCount = 0 then fr\<lparr>fr_Verdict := JDisagree\<rparr>
           else let fraction = rnd (of_nat bestCount / of_nat live); fr = fr\<lparr>fr_AgreementFraction := fraction\<rparr> in
             if fraction \<ge> threshold then fr\<lparr>fr_Verdict := JAgree, fr_Winner := best\<rparr> else fr\<lparr>fr_Verdict := JDisagree\<rparr>)"

section \<open>The task\<close>

definition aggregateOverall :: "JVerdict list \<Rightarrow> JVerdict" where
  "aggregateOverall vs = (if JDisagree \<in> set vs then JDisagree else if JAbstain \<in> set vs then JAbstain else JAgree)"

datatype facet_error = TaskNil | ZeroFacets | RunnerNil

definition min_of :: "JTask \<Rightarrow> int" where
  "min_of task = (if tk_MinProviders task \<le> 0 then 2 else tk_MinProviders task)"

text \<open>The default threshold, the float nearest to 0.66.\<close>

definition default_threshold :: float64 where
  "default_threshold = 5944751508129055 / 2 ^ 53"

definition threshold_of :: "JTask \<Rightarrow> float64" where
  "threshold_of task = (if tk_AgreementThreshold task \<le> 0 then default_threshold else tk_AgreementThreshold task)"

text \<open>The loop over the facets fills a map, a later facet with the same identifier replacing an earlier one.\<close>

definition facet_map :: "(Facet \<Rightarrow> FacetResult) \<Rightarrow> Facet list \<Rightarrow> gostring \<rightharpoonup> FacetResult" where
  "facet_map f fs = foldl (\<lambda>m facet. m(ft_ID facet \<mapsto> f facet)) Map.empty fs"

definition Judge_Decide ::
  "(gostring \<Rightarrow> gostring) \<Rightarrow> (rat \<Rightarrow> rat) \<Rightarrow> (Facet \<Rightarrow> gostring list) \<Rightarrow> (LlmRequest \<Rightarrow> PollResult list) option \<Rightarrow> int \<Rightarrow> int \<Rightarrow> JTask option \<Rightarrow> facet_error + JTaskResult" where
  "Judge_Decide lower rnd ks runner started completed task =
     (case task of
        None \<Rightarrow> Inl TaskNil
      | Some task \<Rightarrow>
          if tk_Facets task = [] then Inl ZeroFacets
          else case runner of
            None \<Rightarrow> Inl RunnerNil
          | Some poll \<Rightarrow>
              let m = facet_map (\<lambda>facet. decideFacet lower rnd ks poll task facet (min_of task) (threshold_of task)) (tk_Facets task)
              in Inr \<lparr>tr_TaskID = tk_ID task, tr_OverallVerdict = aggregateOverall (map fr_Verdict (range_values (remdups (map ft_ID (tk_Facets task))) m)),
                      tr_Facets = m, tr_StartedAt = started, tr_CompletedAt = completed\<rparr>)"

section \<open>Evidence\<close>

record EvidenceVote =
  ev_ProviderID :: gostring
  ev_Value :: gostring
  ev_Raw :: gostring
  ev_LatencyMs :: int
  ev_Err :: gostring

record FacetEvidence =
  fe_FacetID :: gostring
  fe_Verdict :: JVerdict
  fe_Winner :: gostring
  fe_LiveCount :: nat
  fe_AgreementFraction :: float64
  fe_Votes :: "EvidenceVote list"

record EquivocationProof =
  ep_Version :: int
  ep_TaskID :: gostring
  ep_Input :: gostring
  ep_SystemMsg :: gostring
  ep_Facets :: "FacetEvidence list"
  ep_StartedAt :: gostring
  ep_CompletedAt :: gostring
  ep_OverallVerdict :: JVerdict

definition formatTime :: "int \<Rightarrow> gostring" where
  "formatTime t = (if t = zero_time then [] else format_RFC3339Nano t)"

definition evidence_vote :: "ProviderVote \<Rightarrow> EvidenceVote" where
  "evidence_vote v = \<lparr>ev_ProviderID = vo_ProviderID v, ev_Value = vo_Value v, ev_Raw = vo_Raw v, ev_LatencyMs = vo_Latency v sdiv 10 ^ 6, ev_Err = vo_Err v\<rparr>"

definition facet_evidence :: "FacetResult \<Rightarrow> FacetEvidence" where
  "facet_evidence fr =
     \<lparr>fe_FacetID = fr_FacetID fr, fe_Verdict = fr_Verdict fr, fe_Winner = fr_Winner fr, fe_LiveCount = fr_LiveCount fr,
      fe_AgreementFraction = fr_AgreementFraction fr, fe_Votes = sort_key ev_ProviderID (map evidence_vote (fr_Votes fr))\<rparr>"

text \<open>\<open>ks\<close> are the keys of the map of results, in any order. The votes are ordered by provider, whose names are distinct in a configuration.\<close>

definition FromTaskResult :: "gostring list \<Rightarrow> JTask \<Rightarrow> JTaskResult \<Rightarrow> EquivocationProof option" where
  "FromTaskResult ks task result =
     (if tr_OverallVerdict result \<noteq> JDisagree then None
      else Some \<lparr>ep_Version = 1, ep_TaskID = tk_ID task, ep_Input = tk_Input task, ep_SystemMsg = tk_SystemMsg task,
                 ep_Facets = map facet_evidence (range_values (sort ks) (tr_Facets result)),
                 ep_StartedAt = formatTime (tr_StartedAt result), ep_CompletedAt = formatTime (tr_CompletedAt result),
                 ep_OverallVerdict = tr_OverallVerdict result\<rparr>)"

datatype Severity = SeverityLow | SeverityMedium | SeverityHigh | SeverityCritical

definition classifySeverity :: "nat \<Rightarrow> nat \<Rightarrow> nat \<Rightarrow> Severity" where
  "classifySeverity agree abstain disagree =
     (let total = agree + abstain + disagree in
      if total = 0 then SeverityLow else if disagree * 2 > total then SeverityCritical
      else if disagree > 0 then SeverityHigh else if abstain > 1 then SeverityMedium else SeverityLow)"

definition buildReason :: "nat \<Rightarrow> nat \<Rightarrow> nat \<Rightarrow> gostring" where
  "buildReason agree abstain disagree =
     ''human review required: '' @ show_nat agree @ '' AGREE, '' @ show_nat abstain @ '' ABSTAIN, '' @ show_nat disagree @ '' DISAGREE facets '' @
     em_dash @ '' no dominant verdict''"

record FacetSummary =
  su_FacetID :: gostring
  su_Prompt :: gostring
  su_AllowedValues :: "gostring list"
  su_Verdict :: JVerdict
  su_Winner :: gostring
  su_LiveCount :: nat
  su_AgreementFraction :: float64
  su_Votes :: "(gostring \<times> gostring \<times> int \<times> gostring) list"
  su_VoteHistogram :: "gostring \<Rightarrow> nat"

record EscalationEvent =
  ee_Version :: gostring
  ee_Timestamp :: int
  ee_TaskID :: gostring
  ee_Input :: gostring
  ee_SystemMsg :: gostring
  ee_Overall :: JVerdict
  ee_Severity :: Severity
  ee_Reason :: gostring
  ee_Facets :: "FacetSummary list"

definition facet_summary :: "(gostring \<rightharpoonup> FacetResult) \<Rightarrow> Facet \<Rightarrow> FacetSummary" where
  "facet_summary m f =
     (case m (ft_ID f) of
        None \<Rightarrow>
          \<lparr>su_FacetID = ft_ID f, su_Prompt = ft_Prompt f, su_AllowedValues = ft_AllowedValues f, su_Verdict = JAbstain, su_Winner = [], su_LiveCount = 0,
           su_AgreementFraction = 0, su_Votes = [], su_VoteHistogram = (\<lambda>_. 0)\<rparr>
      | Some fr \<Rightarrow>
          \<lparr>su_FacetID = ft_ID f, su_Prompt = ft_Prompt f, su_AllowedValues = ft_AllowedValues f, su_Verdict = fr_Verdict fr, su_Winner = fr_Winner fr,
           su_LiveCount = fr_LiveCount fr, su_AgreementFraction = fr_AgreementFraction fr,
           su_Votes = sort_key fst (map (\<lambda>v. (vo_ProviderID v, vo_Value v, vo_Latency v sdiv 10 ^ 6, vo_Err v)) (fr_Votes fr)),
           su_VoteHistogram = (\<lambda>x. count_list (map vo_Value (filter (\<lambda>v. vo_Err v = []) (fr_Votes fr))) x)\<rparr>)"

definition BuildEvent :: "int \<Rightarrow> JTask \<Rightarrow> JTaskResult \<Rightarrow> EscalationEvent option" where
  "BuildEvent now task tr =
     (if tr_OverallVerdict tr \<noteq> JAbstain then None
      else let facets = map (facet_summary (tr_Facets tr)) (tk_Facets task);
               cnt = (\<lambda>v. count_list (map su_Verdict facets) v)
           in Some \<lparr>ee_Version = ''hitl.v1'', ee_Timestamp = now, ee_TaskID = tk_ID task, ee_Input = tk_Input task, ee_SystemMsg = tk_SystemMsg task,
                    ee_Overall = tr_OverallVerdict tr,
                    ee_Severity = classifySeverity (cnt JAgree) (cnt JAbstain) (cnt JDisagree),
                    ee_Reason = buildReason (cnt JAgree) (cnt JAbstain) (cnt JDisagree), ee_Facets = sort_key su_FacetID facets\<rparr>)"

section \<open>The endpoint\<close>

record judgeReqFacet =
  jf_ID :: gostring
  jf_Prompt :: gostring
  jf_AllowedValues :: "gostring list"
  jf_Weight :: float64

record judgeRequest =
  jr_TaskID :: gostring
  jr_Input :: gostring
  jr_SystemMsg :: gostring
  jr_Facets :: "judgeReqFacet list"
  jr_MinProviders :: int
  jr_AgreementThreshold :: float64

datatype judge_refusal =
    JudgeNotConfigured | InvalidJson | InputRequired | FacetRequired | TooManyFacets nat | FacetIdRequired | DuplicateFacet gostring
  | PromptRequired gostring | TwoValuesRequired gostring | JudgeFailed facet_error | EvidenceFailed

fun judge_status :: "judge_refusal \<Rightarrow> int" where
  "judge_status JudgeNotConfigured = 503"
| "judge_status (JudgeFailed e) = 502"
| "judge_status EvidenceFailed = 500"
| "judge_status _ = 400"

fun facet_loop :: "judgeReqFacet list \<Rightarrow> gostring list \<Rightarrow> Facet list \<Rightarrow> judge_refusal + Facet list" where
  "facet_loop [] seen facets = Inr facets"
| "facet_loop (rf # rfs) seen facets =
     (let i = TrimSpace (jf_ID rf) in
      if i = [] then Inl FacetIdRequired
      else if i \<in> set seen then Inl (DuplicateFacet i)
      else if TrimSpace (jf_Prompt rf) = [] then Inl (PromptRequired i)
      else if length (jf_AllowedValues rf) < 2 then Inl (TwoValuesRequired i)
      else facet_loop rfs (i # seen)
             (facets @ [\<lparr>ft_ID = i, ft_Prompt = jf_Prompt rf, ft_AllowedValues = jf_AllowedValues rf, ft_Weight = (if jf_Weight rf = 0 then 1 else jf_Weight rf)\<rparr>]))"

definition buildJudgeTask :: "judgeRequest \<Rightarrow> judge_refusal + JTask" where
  "buildJudgeTask req =
     (if TrimSpace (jr_Input req) = [] then Inl InputRequired
      else if jr_Facets req = [] then Inl FacetRequired
      else if length (jr_Facets req) > 32 then Inl (TooManyFacets (length (jr_Facets req)))
      else case facet_loop (jr_Facets req) [] [] of
        Inl e \<Rightarrow> Inl e
      | Inr facets \<Rightarrow>
          Inr \<lparr>tk_ID = jr_TaskID req, tk_Input = jr_Input req, tk_SystemMsg = jr_SystemMsg req, tk_Facets = facets,
               tk_MinProviders = jr_MinProviders req, tk_AgreementThreshold = jr_AgreementThreshold req\<rparr>)"

record judgeRespFacet =
  jp_ID :: gostring
  jp_Verdict :: JVerdict
  jp_Winner :: gostring
  jp_LiveCount :: nat
  jp_AgreementFraction :: float64

record judgeResponse =
  jo_TaskID :: gostring
  jo_Overall :: JVerdict
  jo_Facets :: "judgeRespFacet list"
  jo_Equivocated :: "EquivocationProof option"
  jo_Escalation :: "EscalationEvent option"

definition resp_facet :: "(gostring \<rightharpoonup> FacetResult) \<Rightarrow> Facet \<Rightarrow> judgeRespFacet" where
  "resp_facet m f =
     (case m (ft_ID f) of
        None \<Rightarrow> \<lparr>jp_ID = ft_ID f, jp_Verdict = JAbstain, jp_Winner = [], jp_LiveCount = 0, jp_AgreementFraction = 0\<rparr>
      | Some fr \<Rightarrow> \<lparr>jp_ID = fr_FacetID fr, jp_Verdict = fr_Verdict fr, jp_Winner = fr_Winner fr, jp_LiveCount = fr_LiveCount fr,
                    jp_AgreementFraction = fr_AgreementFraction fr\<rparr>)"

text \<open>
  The handler. \<open>judge\<close> is the service that was set, or \<open>None\<close>. The delivery of an escalation to the sink does not change the answer;
  the events delivered are the second result.
\<close>

definition judgeHandler ::
  "(JTask \<Rightarrow> facet_error + JTaskResult) option \<Rightarrow> int \<Rightarrow> bool \<Rightarrow> judgeRequest option \<Rightarrow> (judge_refusal + judgeResponse) \<times> EscalationEvent list" where
  "judgeHandler judge now sink body =
     (case judge of
        None \<Rightarrow> (Inl JudgeNotConfigured, [])
      | Some decide \<Rightarrow>
          (case body of
             None \<Rightarrow> (Inl InvalidJson, [])
           | Some req \<Rightarrow>
               (case buildJudgeTask req of
                  Inl e \<Rightarrow> (Inl e, [])
                | Inr task \<Rightarrow>
                    (case decide task of
                       Inl e \<Rightarrow> (Inl (JudgeFailed e), [])
                     | Inr tr \<Rightarrow>
                         let resp = \<lparr>jo_TaskID = tr_TaskID tr, jo_Overall = tr_OverallVerdict tr, jo_Facets = map (resp_facet (tr_Facets tr)) (tk_Facets task),
                                     jo_Equivocated = None, jo_Escalation = None\<rparr>
                         in (case tr_OverallVerdict tr of
                               JDisagree \<Rightarrow>
                                 (case FromTaskResult (remdups (map ft_ID (tk_Facets task))) task tr of
                                    None \<Rightarrow> (Inl EvidenceFailed, [])
                                  | Some p \<Rightarrow> (Inr (resp\<lparr>jo_Equivocated := Some p\<rparr>), []))
                             | JAbstain \<Rightarrow>
                                 (case BuildEvent now task tr of
                                    None \<Rightarrow> (Inl EvidenceFailed, [])
                                  | Some ev \<Rightarrow> (Inr (resp\<lparr>jo_Escalation := Some ev\<rparr>), if sink then [ev] else []))
                             | JAgree \<Rightarrow> (Inr resp, []))))))"

section \<open>What a facet verdict means\<close>

lemma top_loop_best:
  "top_loop cnt vs b c = (b', c') \<Longrightarrow> c \<le> c' \<and> (\<forall>v\<in>set vs. cnt v \<le> c') \<and> (b' = b \<and> c' = c \<or> b' \<in> set vs \<and> c' = cnt b')"
  by (induction cnt vs b c rule: top_loop.induct) (fastforce split: if_splits)+

lemma normalizeVote_allowed: "allowed \<noteq> [] \<Longrightarrow> normalizeVote lower raw allowed \<noteq> [] \<Longrightarrow> normalizeVote lower raw allowed \<in> set allowed"
  by (auto simp: normalizeVote_def Let_def split: option.splits dest: find_SomeD)

lemma named_values_allowed: "ft_AllowedValues f \<noteq> [] \<Longrightarrow> set (named_values lower f polls) \<subseteq> set (ft_AllowedValues f)"
  using normalizeVote_allowed by (fastforce simp: named_values_def live_polls_def vote_of_def Let_def split: option.splits)

lemma tally_pos: "0 < tally lower f polls v \<longleftrightarrow> v \<in> set (named_values lower f polls)"
  using count_list_0_iff [of "named_values lower f polls" v] by (auto simp: tally_def)

text \<open>Enough answers name the value \<open>v\<close>.\<close>

definition reaches :: "(gostring \<Rightarrow> gostring) \<Rightarrow> (rat \<Rightarrow> rat) \<Rightarrow> Facet \<Rightarrow> PollResult list \<Rightarrow> float64 \<Rightarrow> gostring \<Rightarrow> bool" where
  "reaches lower rnd f polls threshold v \<longleftrightarrow>
     v \<in> set (named_values lower f polls) \<and> threshold \<le> rnd (of_nat (tally lower f polls v) / of_nat (length (live_polls polls)))"

lemma decideFacet_verdict:
  fixes poll task facet lower rnd ks minP threshold
  defines "polls \<equiv> poll (facet_request task facet)"
  defines "fr \<equiv> decideFacet lower rnd ks poll task facet minP threshold"
  assumes rnd: "mono rnd" and ks: "set (ks facet) = set (named_values lower facet polls)"
  shows "fr_Verdict fr = JAbstain \<longleftrightarrow> int (length (live_polls polls)) < minP"
    and "fr_Verdict fr = JAgree \<longleftrightarrow> minP \<le> int (length (live_polls polls)) \<and> (\<exists>v. reaches lower rnd facet polls threshold v)"
    and "fr_Verdict fr = JAgree \<Longrightarrow> reaches lower rnd facet polls threshold (fr_Winner fr)
           \<and> (\<forall>v. tally lower facet polls v \<le> tally lower facet polls (fr_Winner fr))"
proof -
  let ?cnt = "tally lower facet polls" and ?live = "length (live_polls polls)"
  obtain b c where t: "top_loop ?cnt (ks facet) [] 0 = (b, c)" by fastforce
  from top_loop_best [OF t] have le: "\<forall>v\<in>set (ks facet). ?cnt v \<le> c" and bc: "c = 0 \<or> b \<in> set (ks facet) \<and> c = ?cnt b" by auto
  have le': "?cnt v \<le> c" for v using le ks tally_pos [of lower facet polls v] by (cases "?cnt v = 0") auto
  have fr: "fr_Verdict fr = (if int ?live < minP then JAbstain else if c = 0 then JDisagree
      else if threshold \<le> rnd (of_nat c / of_nat ?live) then JAgree else JDisagree)"
    using t by (simp add: fr_def decideFacet_def polls_def Let_def)
  have w: "fr_Winner fr = b" if "fr_Verdict fr = JAgree"
  proof -
    from that have "\<not> int ?live < minP" "c \<noteq> 0" "threshold \<le> rnd (of_nat c / of_nat ?live)" by (simp_all add: fr split: if_splits)
    with t show ?thesis by (simp add: fr_def decideFacet_def polls_def Let_def)
  qed
  have none: "c = 0 \<Longrightarrow> \<not> reaches lower rnd facet polls threshold v" for v
    using le' [of v] tally_pos [of lower facet polls v] by (auto simp: reaches_def)
  have best: "threshold \<le> rnd (of_nat c / of_nat ?live)" if "reaches lower rnd facet polls threshold v" for v
  proof -
    have "(of_nat (?cnt v) :: rat) / of_nat ?live \<le> of_nat c / of_nat ?live" using le' [of v] by (intro divide_right_mono) simp_all
    from monoD [OF rnd this] that show ?thesis by (simp add: reaches_def)
  qed
  have some: "reaches lower rnd facet polls threshold b" if "c \<noteq> 0" "threshold \<le> rnd (of_nat c / of_nat ?live)"
    using that bc ks by (auto simp: reaches_def)
  show "fr_Verdict fr = JAbstain \<longleftrightarrow> int ?live < minP" by (simp add: fr)
  show "fr_Verdict fr = JAgree \<longleftrightarrow> minP \<le> int ?live \<and> (\<exists>v. reaches lower rnd facet polls threshold v)"
    using none best some by (auto simp: fr)
  assume ag: "fr_Verdict fr = JAgree"
  then have "c \<noteq> 0" "threshold \<le> rnd (of_nat c / of_nat ?live)" by (auto simp: fr split: if_splits)
  then show "reaches lower rnd facet polls threshold (fr_Winner fr) \<and> (\<forall>v. ?cnt v \<le> ?cnt (fr_Winner fr))"
    using some le' bc w [OF ag] by auto
qed

section \<open>What the endpoint answers\<close>

lemma facet_loop_done:
  "facet_loop rfs seen fs = Inr fs' \<Longrightarrow> distinct (map ft_ID fs) \<Longrightarrow> set seen = ft_ID ` set fs \<Longrightarrow> \<forall>f\<in>set fs. 2 \<le> length (ft_AllowedValues f) \<Longrightarrow>
   distinct (map ft_ID fs') \<and> (\<forall>f\<in>set fs'. 2 \<le> length (ft_AllowedValues f)) \<and> length fs' = length fs + length rfs"
  by (induction rfs seen fs rule: facet_loop.induct) (auto simp: Let_def split: if_splits)

lemma buildJudgeTask_done:
  assumes "buildJudgeTask req = Inr task"
  shows "distinct (map ft_ID (tk_Facets task))" "f \<in> set (tk_Facets task) \<Longrightarrow> ft_AllowedValues f \<noteq> []" "tk_Facets task \<noteq> []"
proof -
  obtain fs where fs: "facet_loop (jr_Facets req) [] [] = Inr fs" "tk_Facets task = fs" "jr_Facets req \<noteq> []"
    using assms by (auto simp: buildJudgeTask_def split: if_splits sum.splits)
  from facet_loop_done [OF fs(1)] fs(2,3) show "distinct (map ft_ID (tk_Facets task))" "f \<in> set (tk_Facets task) \<Longrightarrow> ft_AllowedValues f \<noteq> []"
    "tk_Facets task \<noteq> []" by auto
qed

lemma facet_map_snoc: "facet_map g (fs @ [f]) = (facet_map g fs)(ft_ID f \<mapsto> g f)"
  by (simp add: facet_map_def)

lemma facet_map_at: "distinct (map ft_ID fs) \<Longrightarrow> f \<in> set fs \<Longrightarrow> facet_map g fs (ft_ID f) = Some (g f)"
  by (induction fs rule: rev_induct) (auto simp: facet_map_snoc image_iff)

lemma facet_map_values: "distinct (map ft_ID fs) \<Longrightarrow> range_values (map ft_ID fs) (facet_map g fs) = map g fs"
proof -
  assume d: "distinct (map ft_ID fs)"
  then show ?thesis by (auto simp: range_values_def facet_map_at)
qed

text \<open>
  The verdict of a task over its facets, in terms of the polls.
\<close>

definition silent :: "(LlmRequest \<Rightarrow> PollResult list) \<Rightarrow> JTask \<Rightarrow> Facet \<Rightarrow> bool" where
  "silent poll task f \<longleftrightarrow> int (length (live_polls (poll (facet_request task f)))) < min_of task"

definition agreed :: "(gostring \<Rightarrow> gostring) \<Rightarrow> (rat \<Rightarrow> rat) \<Rightarrow> (LlmRequest \<Rightarrow> PollResult list) \<Rightarrow> JTask \<Rightarrow> Facet \<Rightarrow> bool" where
  "agreed lower rnd poll task f \<longleftrightarrow> (\<exists>v\<in>set (ft_AllowedValues f). reaches lower rnd f (poll (facet_request task f)) (threshold_of task) v)"

lemma aggregateOverall_iff:
  "aggregateOverall vs = JDisagree \<longleftrightarrow> JDisagree \<in> set vs"
  "aggregateOverall vs = JAgree \<longleftrightarrow> (\<forall>v\<in>set vs. v = JAgree)"
  by (auto simp: aggregateOverall_def) (metis JVerdict.exhaust)

lemma Decide_overall:
  assumes "buildJudgeTask req = Inr task" "mono rnd"
    and ks: "\<And>f. f \<in> set (tk_Facets task) \<Longrightarrow> set (ks f) = set (named_values lower f (poll (facet_request task f)))"
    and tr: "Judge_Decide lower rnd ks (Some poll) t t' (Some task) = Inr tr"
  shows "tr_OverallVerdict tr = JAgree \<longleftrightarrow> (\<forall>f\<in>set (tk_Facets task). \<not> silent poll task f \<and> agreed lower rnd poll task f)"
    and "tr_OverallVerdict tr = JDisagree \<longleftrightarrow> (\<exists>f\<in>set (tk_Facets task). \<not> silent poll task f \<and> \<not> agreed lower rnd poll task f)"
    and "f \<in> set (tk_Facets task) \<Longrightarrow> tr_Facets tr (ft_ID f) = Some (decideFacet lower rnd ks poll task f (min_of task) (threshold_of task))"
proof -
  let ?g = "\<lambda>f. decideFacet lower rnd ks poll task f (min_of task) (threshold_of task)"
  note d = buildJudgeTask_done(1) [OF assms(1)]
  have eq: "tr_OverallVerdict tr = aggregateOverall (map (fr_Verdict \<circ> ?g) (tk_Facets task))" "tr_Facets tr = facet_map ?g (tk_Facets task)"
    using tr buildJudgeTask_done(3) [OF assms(1)] facet_map_values [OF d, of ?g]
    by (auto simp: Judge_Decide_def Let_def distinct_remdups_id [OF d])
  have a: "(\<exists>v. reaches lower rnd f (poll (facet_request task f)) (threshold_of task) v) \<longleftrightarrow> agreed lower rnd poll task f" if "f \<in> set (tk_Facets task)" for f
    using named_values_allowed [OF buildJudgeTask_done(2) [OF assms(1) that], of lower "poll (facet_request task f)"] by (auto simp: agreed_def reaches_def)
  have v: "fr_Verdict (?g f) = JAbstain \<longleftrightarrow> silent poll task f" "fr_Verdict (?g f) = JAgree \<longleftrightarrow> \<not> silent poll task f \<and> agreed lower rnd poll task f"
    if "f \<in> set (tk_Facets task)" for f
    using decideFacet_verdict(1,2) [OF assms(2), of ks f lower poll task "min_of task" "threshold_of task"] ks [OF that] a [OF that]
    by (auto simp: silent_def not_less)
  have w: "fr_Verdict (?g f) = JDisagree \<longleftrightarrow> \<not> silent poll task f \<and> \<not> agreed lower rnd poll task f" if "f \<in> set (tk_Facets task)" for f
    using v [OF that] by (cases "fr_Verdict (?g f)") auto
  show "tr_OverallVerdict tr = JAgree \<longleftrightarrow> (\<forall>f\<in>set (tk_Facets task). \<not> silent poll task f \<and> agreed lower rnd poll task f)"
    unfolding eq(1) aggregateOverall_iff(2) using v(2) by simp
  show "tr_OverallVerdict tr = JDisagree \<longleftrightarrow> (\<exists>f\<in>set (tk_Facets task). \<not> silent poll task f \<and> \<not> agreed lower rnd poll task f)"
    unfolding eq(1) aggregateOverall_iff(1) using w by (force simp: image_iff)
  show "f \<in> set (tk_Facets task) \<Longrightarrow> tr_Facets tr (ft_ID f) = Some (?g f)" unfolding eq(2) using d by (rule facet_map_at)
qed

text \<open>Everything the endpoint answers to an acceptable request, by the verdict of the judge.\<close>

definition overall_of :: "(gostring \<Rightarrow> gostring) \<Rightarrow> (rat \<Rightarrow> rat) \<Rightarrow> (LlmRequest \<Rightarrow> PollResult list) \<Rightarrow> JTask \<Rightarrow> JVerdict" where
  "overall_of lower rnd poll task =
     (if \<exists>f\<in>set (tk_Facets task). \<not> silent poll task f \<and> \<not> agreed lower rnd poll task f then JDisagree
      else if \<exists>f\<in>set (tk_Facets task). silent poll task f then JAbstain else JAgree)"

lemma overall_of_eq:
  assumes "buildJudgeTask req = Inr task" "mono rnd"
    and "\<And>f. f \<in> set (tk_Facets task) \<Longrightarrow> set (ks f) = set (named_values lower f (poll (facet_request task f)))"
    and "Judge_Decide lower rnd ks (Some poll) t t' (Some task) = Inr tr"
  shows "tr_OverallVerdict tr = overall_of lower rnd poll task"
proof (cases "tr_OverallVerdict tr")
  case JAgree
  with Decide_overall(1) [OF assms] show ?thesis by (auto simp: overall_of_def)
next
  case JDisagree
  with Decide_overall(2) [OF assms] show ?thesis by (auto simp: overall_of_def)
next
  case JAbstain
  with Decide_overall(1,2) [OF assms] show ?thesis by (auto simp: overall_of_def)
qed

text \<open>In an escalation no facet has the verdict DISAGREE, so that its severity is low or medium.\<close>

lemma BuildEvent_severity:
  assumes "BuildEvent now task tr = Some ev" and "\<forall>f\<in>set (tk_Facets task). \<forall>fr. tr_Facets tr (ft_ID f) = Some fr \<longrightarrow> fr_Verdict fr \<noteq> JDisagree"
  shows "ee_Severity ev \<in> {SeverityLow, SeverityMedium}"
proof -
  let ?vs = "map su_Verdict (map (facet_summary (tr_Facets tr)) (tk_Facets task))"
  have "JDisagree \<notin> set ?vs" using assms(2) by (auto simp: facet_summary_def split: option.splits)
  then have z: "count_list ?vs JDisagree = 0" by (rule count_notin)
  from assms(1) have ev: "ee_Severity ev = classifySeverity (count_list ?vs JAgree) (count_list ?vs JAbstain) (count_list ?vs JDisagree)"
    by (auto simp: BuildEvent_def Let_def split: if_splits)
  show ?thesis unfolding ev z by (auto simp: classifySeverity_def Let_def)
qed

text \<open>What the reply says of one facet.\<close>

definition facet_reply_ok :: "(gostring \<Rightarrow> gostring) \<Rightarrow> (rat \<Rightarrow> rat) \<Rightarrow> (LlmRequest \<Rightarrow> PollResult list) \<Rightarrow> JTask \<Rightarrow> Facet \<Rightarrow> judgeRespFacet \<Rightarrow> bool" where
  "facet_reply_ok lower rnd poll task f r \<longleftrightarrow>
     jp_ID r = ft_ID f \<and> (jp_Verdict r = JAbstain \<longleftrightarrow> silent poll task f) \<and>
     (jp_Verdict r = JAgree \<longleftrightarrow> \<not> silent poll task f \<and> agreed lower rnd poll task f) \<and>
     (jp_Verdict r = JAgree \<longrightarrow> jp_Winner r \<in> set (ft_AllowedValues f) \<and>
        reaches lower rnd f (poll (facet_request task f)) (threshold_of task) (jp_Winner r) \<and>
        (\<forall>v. tally lower f (poll (facet_request task f)) v \<le> tally lower f (poll (facet_request task f)) (jp_Winner r)))"

lemma decideFacet_ID [simp]: "fr_FacetID (decideFacet lower rnd ks poll task f m th) = ft_ID f"
  by (simp add: decideFacet_def Let_def split: prod.splits)

lemma resp_facet_ok:
  assumes b: "buildJudgeTask req = Inr task" and "mono rnd" and f: "f \<in> set (tk_Facets task)"
    and ks: "set (ks f) = set (named_values lower f (poll (facet_request task f)))"
    and m: "m (ft_ID f) = Some (decideFacet lower rnd ks poll task f (min_of task) (threshold_of task))"
  shows "facet_reply_ok lower rnd poll task f (resp_facet m f)"
proof -
  let ?r = "reaches lower rnd f (poll (facet_request task f)) (threshold_of task)"
  note v = decideFacet_verdict [where rnd = rnd and ks = ks and facet = f and poll = poll and task = task and lower = lower, OF assms(2) ks,
      of "min_of task" "threshold_of task"]
  have al: "v \<in> set (ft_AllowedValues f)" if "?r v" for v
    using that named_values_allowed [OF buildJudgeTask_done(2) [OF b f], of lower "poll (facet_request task f)"] by (auto simp: reaches_def)
  then have "agreed lower rnd poll task f \<longleftrightarrow> (\<exists>v. ?r v)" by (auto simp: agreed_def)
  with v al show ?thesis by (auto simp: facet_reply_ok_def resp_facet_def m silent_def not_less)
qed

lemma Judge_Decide_done: "tk_Facets task \<noteq> [] \<Longrightarrow> \<exists>tr. Judge_Decide lower rnd ks (Some poll) t t' (Some task) = Inr tr"
  by (simp add: Judge_Decide_def Let_def)


definition sample_poll :: "gostring \<Rightarrow> gostring \<Rightarrow> PollResult" where
  "sample_poll who answer = \<lparr>pl_Provider = who, pl_Resp = Some (sample_response\<lparr>ls_Content := answer\<rparr>),
     pl_Attempt = \<lparr>at_Provider = who, at_LatencyMs = 3, at_Success = True, at_Err = [], at_Retryable = False, at_Status = 200, at_KeyIndex = 0\<rparr>\<rparr>"

definition sample_polls :: "LlmRequest \<Rightarrow> PollResult list" where
  "sample_polls req = [sample_poll ''a'' ''yes.'', sample_poll ''b'' ''no'', sample_poll ''c'' '' yes'']"

definition sample_judge_request :: judgeRequest where
  "sample_judge_request = \<lparr>jr_TaskID = ''t'', jr_Input = ''text'', jr_SystemMsg = [],
     jr_Facets = [\<lparr>jf_ID = '' f '', jf_Prompt = ''ok?'', jf_AllowedValues = [''yes'', ''no''], jf_Weight = 0\<rparr>], jr_MinProviders = 0, jr_AgreementThreshold = 0\<rparr>"

definition sample_judge_task :: JTask where
  "sample_judge_task = \<lparr>tk_ID = ''t'', tk_Input = ''text'', tk_SystemMsg = [],
     tk_Facets = [\<lparr>ft_ID = ''f'', ft_Prompt = ''ok?'', ft_AllowedValues = [''yes'', ''no''], ft_Weight = 1\<rparr>], tk_MinProviders = 0, tk_AgreementThreshold = 0\<rparr>"

lemma sample_judge_build: "buildJudgeTask sample_judge_request = Inr sample_judge_task"
  by code_simp

lemma sample_judge_named: "\<forall>f\<in>set (tk_Facets sample_judge_task).
   set ((\<lambda>_. [''no'', ''yes'']) f) = set (named_values id f (sample_polls (facet_request sample_judge_task f)))"
  by code_simp

lemma sample_judge_overall: "overall_of id id sample_polls sample_judge_task = JAgree"
  by code_simp

lemma id_rounding_mono: "mono (id :: rat \<Rightarrow> rat)"
  by (simp add: mono_def)


section \<open>Behaviours worth knowing\<close>

text \<open>The weight of a facet has no part in its verdict.\<close>

lemma weight_ignored: "ks (f\<lparr>ft_Weight := w\<rparr>) = ks f \<Longrightarrow> decideFacet lower rnd ks poll task (f\<lparr>ft_Weight := w\<rparr>) m th = decideFacet lower rnd ks poll task f m th"
proof -
  have "vote_of lower (f\<lparr>ft_Weight := w\<rparr>) = vote_of lower f" by (simp add: vote_of_def fun_eq_iff Let_def split: option.splits)
  then have "tally lower (f\<lparr>ft_Weight := w\<rparr>) = tally lower f" by (simp add: tally_def named_values_def fun_eq_iff)
  moreover have "facet_request task (f\<lparr>ft_Weight := w\<rparr>) = facet_request task f"
    by (simp add: facet_request_def buildFacetSystemPrompt_def buildFacetUserPrompt_def)
  moreover assume "ks (f\<lparr>ft_Weight := w\<rparr>) = ks f"
  ultimately show ?thesis using \<open>vote_of lower (f\<lparr>ft_Weight := w\<rparr>) = vote_of lower f\<close> by (simp add: decideFacet_def Let_def cong: if_cong)
qed

text \<open>An answer outside the menu is the empty value, not \<^verbatim>\<open>unknown\<close>; of two allowed words in an answer the first of the menu wins.\<close>

lemma off_menu_empty: "normalizeVote id ''maybe'' [''yes'', ''no''] = []"
  by code_simp

lemma first_of_menu_wins: "normalizeVote id ''rather no than yes I think'' [''yes'', ''no''] = ''yes''"
  by code_simp

text \<open>
  With every provider down, the canned text of the fixture counts as an answer: a task that asks for one provider is decided DISAGREE and
  would be charged with equivocation.
\<close>

lemma fixture_becomes_evidence:
  "let r = NewRunner [Some (sample_provider ''a'')] (Some (NewLlmFixture [] Map.empty [] [])) LlmDefaultConfig;
       poll = Poll (\<lambda>_. (AnswerErr ''down'' None, 1)) None r;
       decided = Judge_Decide id id (\<lambda>_. []) (Some poll) 5 6 (Some (sample_judge_task\<lparr>tk_MinProviders := 1\<rparr>))
   in (case decided of Inl e \<Rightarrow> False | Inr tr \<Rightarrow> tr_OverallVerdict tr = JDisagree)"
  by code_simp

end
