(* ===== verification/Pedersen_Fold.thy ===== *)
theory Pedersen_Fold
  imports Hash_Fold "HOL-Library.Multiset"
begin

text \<open>
  The Pedersen folder of \<^verbatim>\<open>aggregator/pedersen_fold.go\<close>, the second implementation of the \<open>Folder\<close> interface: a sum of
  commitments on a curve. The curve library is the parameter record \<open>curve\<close>, and the laws the homomorphism relies on (commutative addition and a
  point encoding that can be read back) are the predicate \<open>curve_laws\<close>. The lemmas show that a folded batch verifies and what an accepted
  aggregate determines, that the diagnostic of the homomorphism never fails, and that the commitment does not fix the order of the steps.
\<close>

section \<open>The curve library\<close>

record 'g curve =
  cv_zero :: 'g
  cv_add :: "'g \<Rightarrow> 'g \<Rightarrow> 'g"
  cv_mul :: "nat \<Rightarrow> 'g \<Rightarrow> 'g"
  cv_G :: 'g
  cv_H :: 'g
  cv_order :: nat
  cv_bytes :: "'g \<Rightarrow> bytes"
  cv_of_bytes :: "bytes \<Rightarrow> 'g option"

definition curve_laws :: "'g curve \<Rightarrow> bool" where
  "curve_laws C \<longleftrightarrow>
     (\<forall>a b c. cv_add C (cv_add C a b) c = cv_add C a (cv_add C b c)) \<and> (\<forall>a b. cv_add C a b = cv_add C b a) \<and>
     (\<forall>a. cv_add C (cv_zero C) a = a) \<and> (\<forall>a. cv_of_bytes C (cv_bytes C a) = Some a)"

section \<open>The folder\<close>

definition SchemePedersenFoldV1 :: gostring where
  "SchemePedersenFoldV1 = ''pedersen-fold-v1''"

definition be_value :: "bytes \<Rightarrow> nat" where
  "be_value bs = foldl (\<lambda>n b. 256 * n + of_char b) 0 bs"

definition hashToFr :: "'g curve \<Rightarrow> gostring \<Rightarrow> bytes \<Rightarrow> nat" where
  "hashToFr C dst data = be_value (sha256 (dst @ [CHR 0x1E] @ data)) mod cv_order C"

record 'g PedersenFolder =
  pf_acc :: 'g
  pf_stepHashes :: "gostring list"
  pf_initted :: bool

definition NewPedersenFolder :: "'g curve \<Rightarrow> 'g PedersenFolder" where
  "NewPedersenFolder C = \<lparr>pf_acc = cv_zero C, pf_stepHashes = [], pf_initted = True\<rparr>"

text \<open>The contribution \<open>m G + r H\<close> of one step.\<close>

definition contrib :: "'g curve \<Rightarrow> FoldStep \<Rightarrow> 'g" where
  "contrib C step =
     cv_add C (cv_mul C (hashToFr C ''CP_PED_M_V1'' (Instance step)) (cv_G C)) (cv_mul C (hashToFr C ''CP_PED_R_V1'' (WitnessDigest step)) (cv_H C))"

definition Pedersen_Fold_step :: "'g curve \<Rightarrow> 'g PedersenFolder \<Rightarrow> FoldStep \<Rightarrow> fold_error + 'g PedersenFolder" where
  "Pedersen_Fold_step C f step =
     (if \<not> pf_initted f then Inl NotInitialised
      else if length (Instance step) = 0 then Inl EmptyInstance
      else Inr (f\<lparr>pf_acc := cv_add C (pf_acc f) (contrib C step),
                  pf_stepHashes := pf_stepHashes f @ [hex_encode (sha256 (step_bytes step))]\<rparr>))"

definition Pedersen_Compress :: "'g curve \<Rightarrow> 'g PedersenFolder \<Rightarrow> fold_error + AggregateProof" where
  "Pedersen_Compress C f =
     (if \<not> pf_initted f then Inl NotInitialised
      else if length (pf_stepHashes f) = 0 then Inl NoStepsFolded
      else Inr \<lparr>ap_Scheme = SchemePedersenFoldV1, ap_Steps = int (length (pf_stepHashes f)),
                ap_Root = hex_encode (cv_bytes C (pf_acc f)), ap_StepHashes = pf_stepHashes f\<rparr>)"

fun ped_replay :: "'g curve \<Rightarrow> nat \<Rightarrow> 'g \<Rightarrow> FoldStep list \<Rightarrow> gostring list \<Rightarrow> fold_error + 'g" where
  "ped_replay C i acc (step # steps) (h # hs) =
     (if length (Instance step) = 0 then Inl (StepEmptyInstance i)
      else if hex_encode (sha256 (step_bytes step)) \<noteq> h then Inl (StepHashMismatch i)
      else ped_replay C (i + 1) (cv_add C acc (contrib C step)) steps hs)"
| "ped_replay C i acc _ _ = Inr acc"

definition Pedersen_Verify :: "'g curve \<Rightarrow> 'g PedersenFolder \<Rightarrow> FoldStep list \<Rightarrow> AggregateProof \<Rightarrow> fold_error + bool" where
  "Pedersen_Verify C f steps agg =
     (if ap_Scheme agg \<noteq> SchemePedersenFoldV1 then Inl (FoldUnsupportedScheme (ap_Scheme agg))
      else if ap_Steps agg \<noteq> int (length steps) then Inl (StepCountMismatch (int (length steps)) (ap_Steps agg))
      else if length (ap_StepHashes agg) \<noteq> length steps then Inl (StepHashesLength (int (length (ap_StepHashes agg))) (int (length steps)))
      else case ped_replay C 0 (cv_zero C) steps (ap_StepHashes agg) of
          Inl e \<Rightarrow> Inl e
        | Inr acc \<Rightarrow> if hex_encode (cv_bytes C acc) \<noteq> ap_Root agg then Inl FoldRootMismatch else Inr True)"

definition FoldAllPedersen :: "'g curve \<Rightarrow> FoldStep list \<Rightarrow> fold_error + AggregateProof" where
  "FoldAllPedersen C steps =
     (case fold_steps (Pedersen_Fold_step C) 0 (NewPedersenFolder C) steps of
        Inl (i, e) \<Rightarrow> Inl (FoldStepError i e)
      | Inr f \<Rightarrow> Pedersen_Compress C f)"

definition VerifyAllPedersen :: "'g curve \<Rightarrow> FoldStep list \<Rightarrow> AggregateProof \<Rightarrow> fold_error + bool" where
  "VerifyAllPedersen C steps agg = Pedersen_Verify C (NewPedersenFolder C) steps agg"

datatype homomorphism_error = SplitOutOfRange int nat | SplitFold fold_error | SplitBadHex | SplitBadPoint

definition PedersenHomomorphismCheck :: "'g curve \<Rightarrow> FoldStep list \<Rightarrow> int \<Rightarrow> homomorphism_error + bool" where
  "PedersenHomomorphismCheck C steps split =
     (if split < 0 \<or> split > int (length steps) then Inl (SplitOutOfRange split (length steps))
      else case FoldAllPedersen C steps of
          Inl e \<Rightarrow> Inl (SplitFold e)
        | Inr whole \<Rightarrow>
            if split = 0 \<or> split = int (length steps) then Inr True
            else case FoldAllPedersen C (take (nat split) steps) of
                Inl e \<Rightarrow> Inl (SplitFold e)
              | Inr left \<Rightarrow>
                  (case FoldAllPedersen C (drop (nat split) steps) of
                     Inl e \<Rightarrow> Inl (SplitFold e)
                   | Inr right \<Rightarrow>
                       (case hex_decode (ap_Root left) of
                          None \<Rightarrow> Inl SplitBadHex
                        | Some lBytes \<Rightarrow>
                            (case hex_decode (ap_Root right) of
                               None \<Rightarrow> Inl SplitBadHex
                             | Some rBytes \<Rightarrow>
                                 (case cv_of_bytes C lBytes of
                                    None \<Rightarrow> Inl SplitBadPoint
                                  | Some la \<Rightarrow>
                                      (case cv_of_bytes C rBytes of
                                         None \<Rightarrow> Inl SplitBadPoint
                                       | Some ra \<Rightarrow> Inr (hex_encode (cv_bytes C (cv_add C la ra)) = ap_Root whole)))))))"

section \<open>The folder implements the contract\<close>

definition ped_sum :: "'g curve \<Rightarrow> 'g \<Rightarrow> FoldStep list \<Rightarrow> 'g" where
  "ped_sum C a steps = foldl (\<lambda>acc s. cv_add C acc (contrib C s)) a steps"

definition ped_folder_of :: "'g curve \<Rightarrow> 'g PedersenFolder \<Rightarrow> FoldStep list \<Rightarrow> bool" where
  "ped_folder_of C f steps \<longleftrightarrow>
     f = \<lparr>pf_acc = ped_sum C (cv_zero C) steps, pf_stepHashes = step_hashes steps, pf_initted = True\<rparr> \<and> (\<forall>s\<in>set steps. Instance s \<noteq> [])"

lemma ped_replay_iff:
  "length hs = length steps \<Longrightarrow>
   ped_replay C i a steps hs = Inr acc \<longleftrightarrow> (\<forall>s\<in>set steps. Instance s \<noteq> []) \<and> hs = step_hashes steps \<and> acc = ped_sum C a steps"
proof (induction steps arbitrary: i a hs)
  case (Cons s steps)
  then obtain h hs' where "hs = h # hs'" by (cases hs) auto
  with Cons show ?case by (auto simp: step_hashes_def ped_sum_def)
qed (auto simp: step_hashes_def ped_sum_def)

lemma VerifyAllPedersen_iff:
  "VerifyAllPedersen C steps agg = Inr True \<longleftrightarrow>
     agg = \<lparr>ap_Scheme = SchemePedersenFoldV1, ap_Steps = int (length steps), ap_Root = hex_encode (cv_bytes C (ped_sum C (cv_zero C) steps)),
            ap_StepHashes = step_hashes steps\<rparr> \<and> (\<forall>s\<in>set steps. Instance s \<noteq> [])" (is "?L \<longleftrightarrow> ?R")
proof (cases "length (ap_StepHashes agg) = length steps")
  case True
  then have "?L \<longleftrightarrow> ap_Scheme agg = SchemePedersenFoldV1 \<and> ap_Steps agg = int (length steps) \<and>
      (\<exists>acc. ped_replay C 0 (cv_zero C) steps (ap_StepHashes agg) = Inr acc \<and> hex_encode (cv_bytes C acc) = ap_Root agg)"
    by (auto simp: VerifyAllPedersen_def Pedersen_Verify_def split: sum.splits)
  also have "\<dots> \<longleftrightarrow> ?R" unfolding ped_replay_iff [OF True] by (cases agg) auto
  finally show ?thesis .
next
  case False
  then show ?thesis by (auto simp: VerifyAllPedersen_def Pedersen_Verify_def step_hashes_def)
qed

interpretation pedersen_folder: folder "NewPedersenFolder C" "Pedersen_Fold_step C" "Pedersen_Compress C" "Pedersen_Verify C" "ped_folder_of C"
  "\<lambda>s. Instance s \<noteq> []" for C
proof unfold_locales
  show "ped_folder_of C (NewPedersenFolder C) []"
    by (simp add: ped_folder_of_def NewPedersenFolder_def step_hashes_def ped_sum_def)
  fix st ss agg assume st: "ped_folder_of C st ss"
  show "Instance s \<noteq> [] \<Longrightarrow> \<exists>st'. Pedersen_Fold_step C st s = Inr st'" for s
    using st by (simp add: ped_folder_of_def Pedersen_Fold_step_def)
  show "Pedersen_Fold_step C st s = Inr st' \<Longrightarrow> Instance s \<noteq> [] \<and> ped_folder_of C st' (ss @ [s])" for s st'
    using st by (auto simp: ped_folder_of_def Pedersen_Fold_step_def step_hashes_def ped_sum_def split: if_splits)
  show "ss \<noteq> [] \<Longrightarrow> \<exists>agg. Pedersen_Compress C st = Inr agg"
    using st by (simp add: ped_folder_of_def Pedersen_Compress_def step_hashes_def)
  assume "Pedersen_Compress C st = Inr agg"
  with st have "VerifyAllPedersen C ss agg = Inr True"
    unfolding VerifyAllPedersen_iff by (auto simp: ped_folder_of_def Pedersen_Compress_def step_hashes_def split: if_splits)
  then show "Pedersen_Verify C (NewPedersenFolder C) ss agg = Inr True" by (simp add: VerifyAllPedersen_def)
qed

lemma VerifyAllPedersen_complete:
  assumes "steps \<noteq> []" "\<forall>s\<in>set steps. Instance s \<noteq> []"
  shows "\<exists>agg. FoldAllPedersen C steps = Inr agg \<and> VerifyAllPedersen C steps agg = Inr True"
  using pedersen_folder.fold_all_verifies [OF assms, of C] by (auto simp: FoldAllPedersen_def VerifyAllPedersen_def)

lemma FoldAllPedersen_ok: "FoldAllPedersen C steps = Inr agg \<Longrightarrow> steps \<noteq> [] \<and> (\<forall>s\<in>set steps. Instance s \<noteq> [])"
  using pedersen_folder.fold_steps_stands [OF pedersen_folder.stands_new, of C 0 steps]
  by (auto simp: FoldAllPedersen_def ped_folder_of_def Pedersen_Compress_def step_hashes_def split: sum.splits)

text \<open>
  \<open>FoldAllPedersen\<close> accepts exactly the non-empty batches of steps with non-empty instances, and what it emits is the one aggregate that
  \<open>VerifyAllPedersen\<close> accepts against them.
\<close>

theorem FoldAllPedersen_iff: "FoldAllPedersen C steps = Inr agg \<longleftrightarrow> steps \<noteq> [] \<and> VerifyAllPedersen C steps agg = Inr True"
  using VerifyAllPedersen_complete [of steps C] FoldAllPedersen_ok [of C steps agg] by (metis VerifyAllPedersen_iff sum.inject(2))

section \<open>The homomorphism\<close>


lemma ped_sum_shift: "curve_laws C \<Longrightarrow> ped_sum C a steps = cv_add C a (ped_sum C (cv_zero C) steps)"
proof (induction steps arbitrary: a)
  case Nil
  then show ?case unfolding ped_sum_def curve_laws_def by (metis foldl_Nil)
next
  case (Cons s steps)
  have "cv_add C (cv_zero C) (contrib C s) = contrib C s" using Cons.prems by (simp add: curve_laws_def)
  then show ?case using Cons.IH [OF Cons.prems, of "cv_add C a (contrib C s)"] Cons.IH [OF Cons.prems, of "contrib C s"] Cons.prems
    by (simp add: ped_sum_def curve_laws_def)
qed

lemma ped_sum_append: "curve_laws C \<Longrightarrow> ped_sum C (cv_zero C) (xs @ ys) = cv_add C (ped_sum C (cv_zero C) xs) (ped_sum C (cv_zero C) ys)"
  using ped_sum_shift [of C "ped_sum C (cv_zero C) xs" ys] by (simp add: ped_sum_def)

lemma ped_sum_order:
  assumes "curve_laws C" "mset steps = mset steps'"
  shows "ped_sum C a steps = ped_sum C a steps'"
proof -
  let ?f = "\<lambda>s acc. cv_add C acc (contrib C s)"
  have "?f s \<circ> ?f t = ?f t \<circ> ?f s" for s t using assms(1) unfolding curve_laws_def fun_eq_iff comp_def by metis
  then have "fold ?f steps = fold ?f steps'" using assms(2) by (intro fold_multiset_equiv) auto
  then show ?thesis by (simp add: ped_sum_def foldl_conv_fold)
qed

lemma FoldAllPedersen_root:
  assumes "steps \<noteq> []" "\<forall>s\<in>set steps. Instance s \<noteq> []"
  shows "\<exists>agg. FoldAllPedersen C steps = Inr agg \<and> ap_Root agg = hex_encode (cv_bytes C (ped_sum C (cv_zero C) steps))"
  using VerifyAllPedersen_complete [OF assms, of C] by (auto simp: VerifyAllPedersen_iff)

text \<open>
  With a commutative addition and a readable point encoding the diagnostic of the homomorphism succeeds for every acceptable batch at every split.
\<close>

theorem homomorphism_check_succeeds:
  assumes "curve_laws C" "steps \<noteq> []" "\<forall>s\<in>set steps. Instance s \<noteq> []" "0 \<le> split" "split \<le> int (length steps)"
  shows "PedersenHomomorphismCheck C steps split = Inr True"
proof -
  let ?k = "nat split" and ?root = "\<lambda>ss. hex_encode (cv_bytes C (ped_sum C (cv_zero C) ss))"
  obtain w where w: "FoldAllPedersen C steps = Inr w" "ap_Root w = ?root steps" using FoldAllPedersen_root [OF assms(2,3)] by blast
  show ?thesis
  proof (cases "split = 0 \<or> split = int (length steps)")
    case True
    with w assms(4,5) show ?thesis by (auto simp: PedersenHomomorphismCheck_def)
  next
    case False
    then have "take ?k steps \<noteq> []" "drop ?k steps \<noteq> []" using assms(2,4,5) by auto
    moreover have "\<forall>s\<in>set (take ?k steps). Instance s \<noteq> []" "\<forall>s\<in>set (drop ?k steps). Instance s \<noteq> []"
      using assms(3) by (auto dest: in_set_takeD in_set_dropD)
    ultimately obtain l r where "FoldAllPedersen C (take ?k steps) = Inr l" "ap_Root l = ?root (take ?k steps)"
      "FoldAllPedersen C (drop ?k steps) = Inr r" "ap_Root r = ?root (drop ?k steps)"
      using FoldAllPedersen_root [of "take ?k steps" C] FoldAllPedersen_root [of "drop ?k steps" C] by blast
    moreover have "cv_of_bytes C (cv_bytes C a) = Some a" for a using assms(1) by (simp add: curve_laws_def)
    ultimately show ?thesis using False w assms(4,5) ped_sum_append [OF assms(1), of "take ?k steps" "drop ?k steps"]
      by (simp add: PedersenHomomorphismCheck_def)
  qed
qed

text \<open>A concrete instance of the hypotheses: the natural numbers under addition, written in unary.\<close>

definition toy_curve :: "nat curve" where
  "toy_curve = \<lparr>cv_zero = 0, cv_add = (+), cv_mul = (*), cv_G = 1, cv_H = 3, cv_order = 7, cv_bytes = (\<lambda>n. replicate n CHR ''a''),
     cv_of_bytes = (\<lambda>b. Some (length b))\<rparr>"

lemma toy_curve_laws: "curve_laws toy_curve"
  by (simp add: curve_laws_def toy_curve_def)

theorem homomorphism_check_succeeds_witness:
  "PedersenHomomorphismCheck toy_curve [\<lparr>Instance = ''a'', WitnessDigest = ''b''\<rparr>, \<lparr>Instance = ''c'', WitnessDigest = []\<rparr>] 1 = Inr True"
  by (rule homomorphism_check_succeeds [OF toy_curve_laws]) simp_all

text \<open>The commitment does not fix the order of the steps: only the list of step hashes beside it does.\<close>

lemma pedersen_root_unordered:
  assumes "curve_laws C" "mset steps = mset steps'" "FoldAllPedersen C steps = Inr agg" "FoldAllPedersen C steps' = Inr agg'"
  shows "ap_Root agg = ap_Root agg'"
proof -
  have "VerifyAllPedersen C steps agg = Inr True" "VerifyAllPedersen C steps' agg' = Inr True" using assms(3,4) FoldAllPedersen_iff by auto
  then show ?thesis using ped_sum_order [OF assms(1,2)] by (simp add: VerifyAllPedersen_iff)
qed

end
