(* ===== verification/Aggregation_Api.thy ===== *)
theory Aggregation_Api
  imports Pedersen_Fold Merkle_Recursion
begin

text \<open>
  The aggregation endpoints, \<^verbatim>\<open>api/nova_handlers.go\<close> (folding under either scheme) and \<^verbatim>\<open>api/merkle_recursion_handlers.go\<close>. A body that does not
  decode is \<open>None\<close>; the fixed disclosure texts of the replies are left out. The lemmas show that the verifying endpoints accept exactly what the
  aggregating ones answer.
\<close>

section \<open>Folding\<close>

record foldStepDTO =
  ds_Instance :: gostring
  ds_InstanceUTF8 :: bool
  ds_WitnessDigest :: gostring

datatype agg_refusal = AggBadRequest gostring | AggFoldFailed fold_error | AggMerkleRefused merkle_error | AggMerkleFailed merkle_error

fun agg_refusal_status :: "agg_refusal \<Rightarrow> int" where
  "agg_refusal_status (AggBadRequest _) = 400"
| "agg_refusal_status (AggFoldFailed _) = 500"
| "agg_refusal_status (AggMerkleRefused _) = 400"
| "agg_refusal_status (AggMerkleFailed _) = 500"

definition decodeFoldStep :: "foldStepDTO \<Rightarrow> gostring + FoldStep" where
  "decodeFoldStep d =
     (if ds_Instance d = [] then Inl ''instance is required''
      else if ds_WitnessDigest d = [] then Inl ''witness_digest is required (hex)''
      else case (if ds_InstanceUTF8 d then Some (ds_Instance d) else hex_decode (ds_Instance d)) of
          None \<Rightarrow> Inl ''instance must be hex-encoded (or set instance_utf8=true)''
        | Some inst \<Rightarrow>
            (case hex_decode (ds_WitnessDigest d) of
               None \<Rightarrow> Inl ''witness_digest must be hex-encoded''
             | Some wit \<Rightarrow> Inr \<lparr>Instance = inst, WitnessDigest = wit\<rparr>))"

text \<open>The decimal text of an index, with the loop of the source.\<close>

fun itoa_loop :: "nat \<Rightarrow> gostring \<Rightarrow> gostring" where
  "itoa_loop n acc = (if n = 0 then acc else itoa_loop (n div 10) (dec_digit (n mod 10) # acc))"

declare itoa_loop.simps [simp del]

definition itoa :: "int \<Rightarrow> gostring" where
  "itoa i =
     (if i = 0 then ''0''
      else let neg = i < 0; j = (if neg then wrap64 (- i) else i); digits = itoa_loop (nat j) [] in if neg then CHR ''-'' # digits else digits)"

fun decode_steps :: "nat \<Rightarrow> foldStepDTO list \<Rightarrow> gostring + FoldStep list" where
  "decode_steps i [] = Inr []"
| "decode_steps i (d # ds) =
     (case decodeFoldStep d of
        Inl e \<Rightarrow> Inl (''step '' @ itoa (int i) @ '': '' @ e)
      | Inr s \<Rightarrow> (case decode_steps (i + 1) ds of Inl e \<Rightarrow> Inl e | Inr ss \<Rightarrow> Inr (s # ss)))"

definition novaFold :: "'g curve \<Rightarrow> (gostring \<times> foldStepDTO list) option \<Rightarrow> agg_refusal + AggregateProof" where
  "novaFold C body =
     (case body of
        None \<Rightarrow> Inl (AggBadRequest ''invalid request'')
      | Some (scheme0, dtos) \<Rightarrow>
          if dtos = [] then Inl (AggBadRequest ''steps must be non-empty'')
          else case decode_steps 0 dtos of
              Inl e \<Rightarrow> Inl (AggBadRequest e)
            | Inr steps \<Rightarrow>
                let scheme = (if scheme0 = [] then SchemeHashFoldV1 else scheme0) in
                if scheme = SchemeHashFoldV1 then (case FoldAll steps of Inl e \<Rightarrow> Inl (AggFoldFailed e) | Inr agg \<Rightarrow> Inr agg)
                else if scheme = SchemePedersenFoldV1 then (case FoldAllPedersen C steps of Inl e \<Rightarrow> Inl (AggFoldFailed e) | Inr agg \<Rightarrow> Inr agg)
                else Inl (AggBadRequest (''unsupported scheme: '' @ scheme @ '' (want hash-fold-v1 or pedersen-fold-v1)'')))"

record fold_verdict =
  vf_valid :: bool
  vf_scheme :: gostring
  vf_error :: "fold_error option"

definition fold_reply :: "gostring \<Rightarrow> fold_error + bool \<Rightarrow> fold_verdict" where
  "fold_reply scheme r = (case r of Inl e \<Rightarrow> \<lparr>vf_valid = False, vf_scheme = scheme, vf_error = Some e\<rparr> | Inr b \<Rightarrow> \<lparr>vf_valid = b, vf_scheme = scheme, vf_error = None\<rparr>)"

definition novaVerifyFold :: "'g curve \<Rightarrow> (foldStepDTO list \<times> AggregateProof) option \<Rightarrow> agg_refusal + fold_verdict" where
  "novaVerifyFold C body =
     (case body of
        None \<Rightarrow> Inl (AggBadRequest ''invalid request'')
      | Some (dtos, agg) \<Rightarrow>
          if dtos = [] then Inl (AggBadRequest ''steps must be non-empty'')
          else case decode_steps 0 dtos of
              Inl e \<Rightarrow> Inl (AggBadRequest e)
            | Inr steps \<Rightarrow>
                if ap_Scheme agg = SchemePedersenFoldV1 then Inr (fold_reply (ap_Scheme agg) (VerifyAllPedersen C steps agg))
                else if ap_Scheme agg = SchemeHashFoldV1 \<or> ap_Scheme agg = []
                then Inr (fold_reply SchemeHashFoldV1 (VerifyAll steps (agg\<lparr>ap_Scheme := SchemeHashFoldV1\<rparr>)))
                else Inl (AggBadRequest (''unsupported scheme: '' @ ap_Scheme agg)))"

section \<open>Merkle aggregates\<close>

fun decode_leaves_loop :: "nat \<Rightarrow> gostring list \<Rightarrow> gostring + bytes list" where
  "decode_leaves_loop i [] = Inr []"
| "decode_leaves_loop i (h # hs) =
     (case hex_decode h of
        None \<Rightarrow> Inl (''leaves_hex['' @ itoa (int i) @ ''] is not valid hex'')
      | Some b \<Rightarrow>
          if length b = 0 then Inl (''leaves_hex['' @ itoa (int i) @ ''] is empty'')
          else (case decode_leaves_loop (i + 1) hs of Inl e \<Rightarrow> Inl e | Inr bs \<Rightarrow> Inr (b # bs)))"

definition decodeLeaves :: "gostring list \<Rightarrow> gostring + bytes list" where
  "decodeLeaves hexes =
     (if hexes = [] then Inl ''leaves_hex is required and must be non-empty'' else decode_leaves_loop 0 hexes)"

definition merkleAggregate :: "gostring list option \<Rightarrow> agg_refusal + MerkleRecursionProof" where
  "merkleAggregate body =
     (case body of
        None \<Rightarrow> Inl (AggBadRequest ''invalid request'')
      | Some hexes \<Rightarrow>
          (case decodeLeaves hexes of
             Inl e \<Rightarrow> Inl (AggBadRequest e)
           | Inr leaves \<Rightarrow> (case AggregateMerkleRecursion leaves of Inl e \<Rightarrow> Inl (AggMerkleFailed e) | Inr agg \<Rightarrow> Inr agg)))"

definition merkleInclusion :: "(gostring list \<times> int) option \<Rightarrow> agg_refusal + MerkleInclusionProof" where
  "merkleInclusion body =
     (case body of
        None \<Rightarrow> Inl (AggBadRequest ''invalid request'')
      | Some (hexes, i) \<Rightarrow>
          (case decodeLeaves hexes of
             Inl e \<Rightarrow> Inl (AggBadRequest e)
           | Inr leaves \<Rightarrow> (case BuildInclusionProof leaves i of Inl e \<Rightarrow> Inl (AggMerkleRefused e) | Inr pf \<Rightarrow> Inr pf)))"

record merkle_verdict =
  vm_valid :: bool
  vm_scheme :: gostring
  vm_error :: "merkle_error option"

definition merkleVerify :: "(MerkleRecursionProof \<times> MerkleInclusionProof) option \<Rightarrow> agg_refusal + merkle_verdict" where
  "merkleVerify body =
     (case body of
        None \<Rightarrow> Inl (AggBadRequest ''invalid request'')
      | Some (agg, pf) \<Rightarrow>
          Inr (case VerifyMerkleInclusion agg pf of
                 Inl e \<Rightarrow> \<lparr>vm_valid = False, vm_scheme = mr_Scheme agg, vm_error = Some e\<rparr>
               | Inr b \<Rightarrow> \<lparr>vm_valid = b, vm_scheme = mr_Scheme agg, vm_error = None\<rparr>))"

section \<open>The text of an index\<close>

lemma itoa_loop_show: "0 < n \<Longrightarrow> itoa_loop n acc = show_nat n @ acc"
proof (induction n arbitrary: acc rule: less_induct)
  case (less n)
  show ?case
  proof (cases "n < 10")
    case True
    with less.prems show ?thesis by (simp add: itoa_loop.simps [of n] itoa_loop.simps [of 0] show_nat.simps [of n])
  next
    case False
    with less.prems less.IH [of "n div 10"] show ?thesis by (simp add: itoa_loop.simps [of n] show_nat.simps [of n])
  qed
qed

lemma itoa_correct:
  assumes "- (2 ^ 63) < i" "i < 2 ^ 63"
  shows "itoa i = show_int i"
proof -
  have "i < 0 \<Longrightarrow> wrap64 (- i) = - i" using assms by (intro wrap64_id) simp_all
  then show ?thesis by (auto simp: itoa_def show_int_def itoa_loop_show Let_def show_nat.simps [of 0] dec_digit_def)
qed

section \<open>The verifying endpoints accept what the others answer\<close>

lemma decode_steps_some: "decode_steps i ds = Inr ss \<Longrightarrow> length ss = length ds"
  by (induction i ds arbitrary: ss rule: decode_steps.induct) (auto split: sum.splits)

lemma FoldAll_scheme: "FoldAll steps = Inr agg \<Longrightarrow> ap_Scheme agg = SchemeHashFoldV1"
  using FoldAll_iff_VerifyAll [of steps agg] VerifyAll_iff [of steps agg] by simp

lemma FoldAllPedersen_scheme: "FoldAllPedersen C steps = Inr agg \<Longrightarrow> ap_Scheme agg = SchemePedersenFoldV1"
  using FoldAllPedersen_iff [of C steps agg] VerifyAllPedersen_iff [of C steps agg] by simp

lemma schemes_differ: "SchemeHashFoldV1 \<noteq> SchemePedersenFoldV1" "SchemePedersenFoldV1 \<noteq> []" "SchemeHashFoldV1 \<noteq> []"
  by (simp_all add: SchemeHashFoldV1_def SchemePedersenFoldV1_def)

text \<open>An aggregate whose scheme is omitted is taken for a hash fold.\<close>

definition named_scheme :: "AggregateProof \<Rightarrow> AggregateProof" where
  "named_scheme agg = (if ap_Scheme agg = [] then agg\<lparr>ap_Scheme := SchemeHashFoldV1\<rparr> else agg)"

text \<open>
  C38: the verify-fold endpoint answers that an aggregate is valid exactly when it is, apart from an omitted scheme name, what the fold
  endpoint answers for the same steps and scheme; so every change of count, root or of a step hash is noticed, for both schemes.
\<close>

theorem verify_fold_iff:
  "(\<exists>v. novaVerifyFold C (Some (dtos, agg)) = Inr v \<and> vf_valid v) \<longleftrightarrow> novaFold C (Some (ap_Scheme agg, dtos)) = Inr (named_scheme agg)"
proof (cases "dtos = [] \<or> (\<exists>e. decode_steps 0 dtos = Inl e)")
  case True
  then show ?thesis by (auto simp: novaVerifyFold_def novaFold_def)
next
  case False
  then obtain steps where st: "dtos \<noteq> []" "decode_steps 0 dtos = Inr steps" by (cases "decode_steps 0 dtos") auto
  then have "steps \<noteq> []" using decode_steps_some [OF st(2)] by auto
  have valid: "vf_valid (fold_reply s r) \<longleftrightarrow> r = Inr True" for s r by (auto simp: fold_reply_def split: sum.splits)
  have hash: "(case FoldAll steps of Inl e \<Rightarrow> Inl (AggFoldFailed e) | Inr a \<Rightarrow> Inr a) = Inr a \<longleftrightarrow> VerifyAll steps a = Inr True" for a
    using FoldAll_iff_VerifyAll [of steps a] \<open>steps \<noteq> []\<close> by (auto split: sum.splits)
  have ped: "(case FoldAllPedersen C steps of Inl e \<Rightarrow> Inl (AggFoldFailed e) | Inr a \<Rightarrow> Inr a) = Inr a \<longleftrightarrow> VerifyAllPedersen C steps a = Inr True" for a
    using FoldAllPedersen_iff [of C steps a] \<open>steps \<noteq> []\<close> by (auto split: sum.splits)
  have same: "ap_Scheme agg = SchemeHashFoldV1 \<Longrightarrow> agg\<lparr>ap_Scheme := SchemeHashFoldV1\<rparr> = agg" by (cases agg) simp
  consider "ap_Scheme agg = SchemePedersenFoldV1" | "ap_Scheme agg = SchemeHashFoldV1" | "ap_Scheme agg = []"
    | "ap_Scheme agg \<noteq> SchemePedersenFoldV1" "ap_Scheme agg \<noteq> SchemeHashFoldV1" "ap_Scheme agg \<noteq> []" by blast
  then show ?thesis
    by cases (simp_all add: st novaVerifyFold_def novaFold_def named_scheme_def valid hash ped same schemes_differ schemes_differ [symmetric])
qed

lemma decode_leaves_loop_some: "decode_leaves_loop i hs = Inr bs \<Longrightarrow> length bs = length hs \<and> [] \<notin> set bs"
  by (induction i hs arbitrary: bs rule: decode_leaves_loop.induct) (auto split: option.splits sum.splits if_splits)

lemma aggregate_succeeds: "leaves \<noteq> [] \<Longrightarrow> [] \<notin> set leaves \<Longrightarrow> \<exists>agg. AggregateMerkleRecursion leaves = Inr agg"
  by (simp add: AggregateMerkleRecursion_def hash_leaves_ok case_prod_beta Let_def)

text \<open>
  Leaves that decode are always aggregated, and for every position of the list the inclusion endpoint answers with a proof that the
  verifying endpoint accepts against that aggregate.
\<close>

theorem merkle_replies_verify:
  assumes "decodeLeaves hexes = Inr leaves" "0 \<le> i" "i < int (length hexes)"
  shows "\<exists>agg pf. merkleAggregate (Some hexes) = Inr agg \<and> merkleInclusion (Some (hexes, i)) = Inr pf \<and>
           merkleVerify (Some (agg, pf)) = Inr \<lparr>vm_valid = True, vm_scheme = SchemeMerkleRecursionV1, vm_error = None\<rparr>"
proof -
  from assms(1) have l: "length leaves = length hexes" "[] \<notin> set leaves" "leaves \<noteq> []"
    using decode_leaves_loop_some [of 0 hexes leaves] by (auto simp: decodeLeaves_def split: if_splits)
  obtain agg where agg: "AggregateMerkleRecursion leaves = Inr agg" using aggregate_succeeds [OF l(3,2)] by blast
  with inclusion_complete [OF this, of i] assms(2,3) l(1) obtain pf
    where "BuildInclusionProof leaves i = Inr pf" "VerifyMerkleInclusion agg pf = Inr True" by auto
  moreover from this(2) have "mr_Scheme agg = SchemeMerkleRecursionV1" unfolding VerifyMerkleInclusion_accepts_iff by blast
  ultimately show ?thesis using agg assms(1) by (simp add: merkleAggregate_def merkleInclusion_def merkleVerify_def)
qed

theorem merkle_replies_verify_witness:
  "\<exists>agg pf. merkleAggregate (Some [''61'', ''6263'', ''64'']) = Inr agg \<and> merkleInclusion (Some ([''61'', ''6263'', ''64''], 2)) = Inr pf \<and>
     merkleVerify (Some (agg, pf)) = Inr \<lparr>vm_valid = True, vm_scheme = SchemeMerkleRecursionV1, vm_error = None\<rparr>"
proof (rule merkle_replies_verify)
  show "decodeLeaves [''61'', ''6263'', ''64''] = Inr [''a'', ''bc'', ''d'']" by code_simp
qed simp_all

end
