(* ===== verification/Quorum_Api.thy ===== *)
theory Quorum_Api
  imports Quorum
begin

text \<open>
  The committee endpoints, \<^verbatim>\<open>api/quorum_handlers.go\<close>, with the decoders of keys and signatures of \<^verbatim>\<open>quorum/bls.go\<close>. The point decoders
  of the curve library are the parameter \<open>points\<close>; a body that does not decode is \<open>None\<close>, and the registry is \<open>None\<close> when the service is
  off; the time of registration is kept as an instant where the code formats it. The lemmas show what a witness served by the verifying endpoint says about the requests made before.
\<close>

section \<open>Keys and signatures\<close>

record ('g1, 'g2) points =
  pt_g1 :: "bytes \<Rightarrow> 'g1 option"
  pt_g2 :: "bytes \<Rightarrow> 'g2 option"

definition UnmarshalPubKey :: "('g1, 'g2) points \<Rightarrow> bytes \<Rightarrow> quorum_error + 'g2" where
  "UnmarshalPubKey D b =
     (if length b = 0 then Inl ErrEmptyPubKey else case pt_g2 D b of None \<Rightarrow> Inl (ErrInvalidPubKey []) | Some p \<Rightarrow> Inr p)"

definition UnmarshalSignature :: "('g1, 'g2) points \<Rightarrow> bytes \<Rightarrow> quorum_error + 'g1" where
  "UnmarshalSignature D b =
     (if length b = 0 then Inl ErrInvalidSignature else case pt_g1 D b of None \<Rightarrow> Inl ErrInvalidSignature | Some p \<Rightarrow> Inr p)"

definition PubKeyFromHex :: "('g1, 'g2) points \<Rightarrow> gostring \<Rightarrow> quorum_error + 'g2" where
  "PubKeyFromHex D s =
     (if s = [] then Inl ErrEmptyPubKey else case hex_decode s of None \<Rightarrow> Inl (ErrInvalidPubKey []) | Some b \<Rightarrow> UnmarshalPubKey D b)"

definition SigFromHex :: "('g1, 'g2) points \<Rightarrow> gostring \<Rightarrow> quorum_error + 'g1" where
  "SigFromHex D s =
     (if s = [] then Inl ErrInvalidSignature else case hex_decode s of None \<Rightarrow> Inl ErrInvalidSignature | Some b \<Rightarrow> UnmarshalSignature D b)"

section \<open>Requests and replies\<close>

record quorumRegisterRequest =
  qr_ID :: gostring
  qr_PubKey :: gostring
  qr_Bond :: "64 word"

record quorumSignerWire =
  qs_ID :: gostring
  qs_PubKey :: gostring
  qs_Status :: gostring
  qs_Bond :: "64 word"
  qs_RegisteredAt :: int
  qs_SlashReason :: gostring

record quorumListResponse =
  ql_Signers :: "quorumSignerWire list"
  ql_Total :: nat
  ql_ActiveCount :: int

record quorumVerifyRequest =
  qv_EvidenceRootHex :: gostring
  qv_SignerBitset :: "gostring list"
  qv_AggregateSigHex :: gostring
  qv_Threshold :: int

record quorumThresholdResponse =
  qt_ActiveCount :: int
  qt_Threshold :: int

fun status_text :: "SignerStatus \<Rightarrow> gostring" where
  "status_text StatusActive = ''active''"
| "status_text StatusSlashed = ''slashed''"
| "status_text StatusRemoved = ''removed''"

definition signerWireFromRec :: "'g2 SignerRecord option \<Rightarrow> quorumSignerWire" where
  "signerWireFromRec r =
     (case r of
        None \<Rightarrow> \<lparr>qs_ID = [], qs_PubKey = [], qs_Status = [], qs_Bond = 0, qs_RegisteredAt = 0, qs_SlashReason = []\<rparr>
      | Some rec \<Rightarrow>
          \<lparr>qs_ID = sr_ID rec, qs_PubKey = sr_PublicKeyHex rec, qs_Status = status_text (sr_Status rec), qs_Bond = sr_Bond rec,
           qs_RegisteredAt = sr_RegisteredAt rec, qs_SlashReason = sr_SlashReason rec\<rparr>)"

datatype quorum_refusal = QuorumDisabled | QuorumBadJson | QuorumMissingId | QuorumBadHex | QuorumNoBitset | QuorumRefused int quorum_error

fun quorum_status :: "quorum_refusal \<Rightarrow> int" where
  "quorum_status QuorumDisabled = 503"
| "quorum_status (QuorumRefused code e) = code"
| "quorum_status _ = 400"

section \<open>Handlers\<close>

definition quorumRegisterSigner ::
  "('g1, 'g2) bls \<Rightarrow> ('g1, 'g2) points \<Rightarrow> int \<Rightarrow> quorumRegisterRequest option \<Rightarrow> 'g2 Registry option \<Rightarrow>
   (quorum_refusal + quorumSignerWire) \<times> 'g2 Registry option" where
  "quorumRegisterSigner B D now body s =
     (case s of
        None \<Rightarrow> (Inl QuorumDisabled, s)
      | Some reg \<Rightarrow>
          (case body of
             None \<Rightarrow> (Inl QuorumBadJson, s)
           | Some req \<Rightarrow>
               if qr_ID req = [] then (Inl QuorumMissingId, s)
               else case PubKeyFromHex D (qr_PubKey req) of
                   Inl e \<Rightarrow> (Inl (QuorumRefused 400 e), s)
                 | Inr pk \<Rightarrow>
                     (case Registry_Register B now reg (qr_ID req) (Some pk) (qr_Bond req) of
                        Inl e \<Rightarrow> (Inl (QuorumRefused (if Registry_Get reg (qr_ID req) \<noteq> None then 409 else 400) e), s)
                      | Inr reg' \<Rightarrow> (Inr (signerWireFromRec (Registry_Get reg' (qr_ID req))), Some reg'))))"

text \<open>The query parameter is compared with the status texts; \<open>ks\<close> is the order in which the map is ranged over.\<close>

definition quorumListSigners :: "gostring list \<Rightarrow> gostring \<Rightarrow> 'g2 Registry option \<Rightarrow> quorum_refusal + quorumListResponse" where
  "quorumListSigners ks filt s =
     (case s of
        None \<Rightarrow> Inl QuorumDisabled
      | Some reg \<Rightarrow>
          let recs = sort_key sr_ID (filter (\<lambda>rec. filt = [] \<or> status_text (sr_Status rec) = filt) (range_values ks reg));
              out = map (\<lambda>rec. signerWireFromRec (Some rec)) recs
          in Inr \<lparr>ql_Signers = out, ql_Total = length out, ql_ActiveCount = ActiveCount ks reg\<rparr>)"

text \<open>The body of a slash request is optional; the reason is empty when it does not decode.\<close>

definition quorumSlashSigner :: "int \<Rightarrow> gostring \<Rightarrow> gostring \<Rightarrow> 'g2 Registry option \<Rightarrow> (quorum_refusal + quorumSignerWire) \<times> 'g2 Registry option" where
  "quorumSlashSigner now i reason s =
     (case s of
        None \<Rightarrow> (Inl QuorumDisabled, s)
      | Some reg \<Rightarrow>
          if i = [] then (Inl QuorumMissingId, s)
          else case Registry_Slash now reg i reason of
              Inl e \<Rightarrow> (Inl (QuorumRefused (case e of ErrUnknownSigner _ \<Rightarrow> 404 | _ \<Rightarrow> 400) e), s)
            | Inr reg' \<Rightarrow> (Inr (signerWireFromRec (Registry_Get reg' i)), Some reg'))"

definition quorumRetireSigner :: "gostring \<Rightarrow> 'g2 Registry option \<Rightarrow> (quorum_refusal + quorumSignerWire) \<times> 'g2 Registry option" where
  "quorumRetireSigner i s =
     (case s of
        None \<Rightarrow> (Inl QuorumDisabled, s)
      | Some reg \<Rightarrow>
          if i = [] then (Inl QuorumMissingId, s)
          else case Registry_Retire reg i of
              Inl e \<Rightarrow> (Inl (QuorumRefused (case e of ErrUnknownSigner _ \<Rightarrow> 404 | _ \<Rightarrow> 400) e), s)
            | Inr reg' \<Rightarrow> (Inr (signerWireFromRec (Registry_Get reg' i)), Some reg'))"

fun verify_status :: "quorum_error \<Rightarrow> int" where
  "verify_status ErrPairingCheckFail = 422"
| "verify_status (ErrThresholdNotMet _ _ _) = 403"
| "verify_status (ErrDuplicateSigner _) = 403"
| "verify_status (ErrInactiveSigner _) = 403"
| "verify_status (ErrUnknownSigner _) = 404"
| "verify_status _ = 400"

definition quorumVerify ::
  "('g1, 'g2) bls \<Rightarrow> ('g1, 'g2) points \<Rightarrow> gostring list \<Rightarrow> int \<Rightarrow> quorumVerifyRequest option \<Rightarrow> 'g2 Registry option \<Rightarrow> quorum_refusal + QuorumWitness" where
  "quorumVerify B D ks now body s =
     (case s of
        None \<Rightarrow> Inl QuorumDisabled
      | Some reg \<Rightarrow>
          (case body of
             None \<Rightarrow> Inl QuorumBadJson
           | Some req \<Rightarrow>
               (case hex_decode (qv_EvidenceRootHex req) of
                  None \<Rightarrow> Inl QuorumBadHex
                | Some ev \<Rightarrow>
                    if qv_SignerBitset req = [] then Inl QuorumNoBitset
                    else case SigFromHex D (qv_AggregateSigHex req) of
                        Inl e \<Rightarrow> Inl (QuorumRefused 400 e)
                      | Inr sig \<Rightarrow>
                          (case VerifyQuorum B ks now reg ev (qv_SignerBitset req) (Some sig) (qv_Threshold req) of
                             Inl e \<Rightarrow> Inl (QuorumRefused (verify_status e) e)
                           | Inr w \<Rightarrow> Inr w))))"

definition quorumThreshold :: "gostring list \<Rightarrow> 'g2 Registry option \<Rightarrow> quorum_refusal + quorumThresholdResponse" where
  "quorumThreshold ks s =
     (case s of
        None \<Rightarrow> Inl QuorumDisabled
      | Some reg \<Rightarrow> let n = ActiveCount ks reg in Inr \<lparr>qt_ActiveCount = n, qt_Threshold = ByzantineThreshold n\<rparr>)"

section \<open>Histories of requests\<close>

datatype quorum_call = RegisterCall int "quorumRegisterRequest option" | SlashCall int gostring gostring | RetireCall gostring

fun quorum_exec :: "('g1, 'g2) bls \<Rightarrow> ('g1, 'g2) points \<Rightarrow> quorum_call \<Rightarrow> 'g2 Registry option \<Rightarrow> 'g2 Registry option" where
  "quorum_exec B D (RegisterCall now body) s = snd (quorumRegisterSigner B D now body s)"
| "quorum_exec B D (SlashCall now i reason) s = snd (quorumSlashSigner now i reason s)"
| "quorum_exec B D (RetireCall i) s = snd (quorumRetireSigner i s)"

definition quorum_run :: "('g1, 'g2) bls \<Rightarrow> ('g1, 'g2) points \<Rightarrow> quorum_call list \<Rightarrow> 'g2 Registry option" where
  "quorum_run B D cs = foldl (\<lambda>s c. quorum_exec B D c s) (Some Map.empty) cs"

lemma quorum_run_simps [simp]: "quorum_run B D [] = Some Map.empty" "quorum_run B D (cs @ [c]) = quorum_exec B D c (quorum_run B D cs)"
  by (simp_all add: quorum_run_def)

fun ends_signer :: "gostring \<Rightarrow> quorum_call \<Rightarrow> bool" where
  "ends_signer i (SlashCall now j reason) \<longleftrightarrow> j = i"
| "ends_signer i (RetireCall j) \<longleftrightarrow> j = i"
| "ends_signer i (RegisterCall now body) \<longleftrightarrow> False"

text \<open>The signer was registered with the key \<open>p\<close>, and no later request slashes or retires it.\<close>

definition standing :: "('g1, 'g2) points \<Rightarrow> quorum_call list \<Rightarrow> gostring \<Rightarrow> 'g2 \<Rightarrow> bool" where
  "standing D cs i p \<longleftrightarrow>
     (\<exists>us now req vs. cs = us @ RegisterCall now (Some req) # vs \<and> qr_ID req = i \<and> PubKeyFromHex D (qr_PubKey req) = Inr p \<and> \<not> (\<exists>c\<in>set vs. ends_signer i c))"

lemma standing_snoc: "standing D cs i p \<Longrightarrow> \<not> ends_signer i c \<Longrightarrow> standing D (cs @ [c]) i p"
  unfolding standing_def
  by (elim exE conjE, rename_tac us now req vs, rule_tac x = us in exI, rule_tac x = now in exI, rule_tac x = req in exI, rule_tac x = "vs @ [c]" in exI) auto

lemma standing_new: "PubKeyFromHex D (qr_PubKey req) = Inr p \<Longrightarrow> standing D (cs @ [RegisterCall now (Some req)]) (qr_ID req) p"
  unfolding standing_def by force

lemma exec_some: "s \<noteq> None \<Longrightarrow> quorum_exec B D c s \<noteq> None"
  by (cases c) (auto simp: quorumRegisterSigner_def quorumSlashSigner_def quorumRetireSigner_def split: option.splits sum.splits)

lemma exec_keys:
  assumes "quorum_exec B D c (Some reg) = Some reg'" "reg [] = None" "active_key reg' i = Some p"
  shows "reg' [] = None \<and> (active_key reg i = Some p \<and> \<not> ends_signer i c
    \<or> (\<exists>now req. c = RegisterCall now (Some req) \<and> qr_ID req = i \<and> PubKeyFromHex D (qr_PubKey req) = Inr p))"
proof (cases c)
  case (RegisterCall now body)
  with assms show ?thesis
    by (auto simp: quorumRegisterSigner_def Registry_Register_def active_key_def split: option.splits sum.splits if_splits)
next
  case (SlashCall now j reason)
  with assms show ?thesis
    by (auto simp: quorumSlashSigner_def Registry_Slash_def active_key_def split: option.splits sum.splits if_splits)
next
  case (RetireCall j)
  with assms show ?thesis
    by (auto simp: quorumRetireSigner_def Registry_Retire_def active_key_def split: option.splits sum.splits if_splits)
qed

lemma exec_nameless: "quorum_exec B D c (Some reg) = Some reg' \<Longrightarrow> reg [] = None \<Longrightarrow> reg' [] = None"
  by (cases c) (auto simp: quorumRegisterSigner_def Registry_Register_def quorumSlashSigner_def Registry_Slash_def quorumRetireSigner_def Registry_Retire_def
      split: option.splits sum.splits if_splits)

lemma run_keys: "\<exists>reg. quorum_run B D cs = Some reg \<and> reg [] = None \<and> (\<forall>i p. active_key reg i = Some p \<longrightarrow> standing D cs i p)"
proof (induction cs rule: rev_induct)
  case Nil
  show ?case by (simp add: active_key_def)
next
  case (snoc c cs)
  then obtain reg where reg: "quorum_run B D cs = Some reg" "reg [] = None" "\<forall>i p. active_key reg i = Some p \<longrightarrow> standing D cs i p" by blast
  obtain reg' where reg': "quorum_exec B D c (Some reg) = Some reg'" using exec_some [of "Some reg" B D c] by auto
  have "standing D (cs @ [c]) i p" if "active_key reg' i = Some p" for i p
    using exec_keys [OF reg' reg(2) that] reg(3) standing_snoc standing_new by metis
  with reg(1) reg' exec_nameless [OF reg' reg(2)] show ?case by auto
qed

text \<open>
  C5: what a served witness says about the requests made before. After any sequence of registrations, slashings and retirements, a
  witness that the verifying endpoint returns lists at least the threshold of distinct signers, each was registered by a request with the key that is
  part of the aggregate and was neither slashed nor retired by any later request, and the signature verifies on the evidence root under
  the sum of exactly these keys.
\<close>

theorem served_witness_standing:
  assumes "quorumVerify B D ks now (Some req) (quorum_run B D cs) = Inr w"
  shows "\<exists>ev sig ps. hex_decode (qv_EvidenceRootHex req) = Some ev \<and> SigFromHex D (qv_AggregateSigHex req) = Inr sig
           \<and> mset (qw_SignerBitset w) = mset (qv_SignerBitset req) \<and> distinct (qw_SignerBitset w)
           \<and> 1 \<le> qw_Threshold w \<and> qw_Threshold w \<le> int (length (qw_SignerBitset w))
           \<and> list_all2 (standing D cs) (qw_SignerBitset w) ps
           \<and> Bls_Verify B (foldl (g2_add B) (g2_zero B) ps) ev sig = Inr ()"
proof -
  obtain reg where reg: "quorum_run B D cs = Some reg" "\<forall>i p. active_key reg i = Some p \<longrightarrow> standing D cs i p" using run_keys [of B D cs] by blast
  from assms obtain ev sig where ev: "hex_decode (qv_EvidenceRootHex req) = Some ev" "SigFromHex D (qv_AggregateSigHex req) = Inr sig"
    and v: "VerifyQuorum B ks now reg ev (qv_SignerBitset req) (Some sig) (qv_Threshold req) = Inr w"
    by (auto simp: quorumVerify_def reg(1) split: option.splits sum.splits if_splits)
  from v obtain ps where ps: "map (active_key reg) (sort (qv_SignerBitset req)) = map Some ps" "qw_SignerBitset w = sort (qv_SignerBitset req)"
    "distinct (qv_SignerBitset req)" "Bls_Verify B (foldl (g2_add B) (g2_zero B) ps) ev sig = Inr ()" "1 \<le> qw_Threshold w"
    "qw_Threshold w \<le> int (length (qv_SignerBitset req))"
    by (rule VerifyQuorum_InrE) auto
  have "list_all2 (standing D cs) (qw_SignerBitset w) ps"
  proof (rule list_all2_all_nthI)
    show "length (qw_SignerBitset w) = length ps" using ps(1,2) by (metis length_map)
    fix n assume "n < length (qw_SignerBitset w)"
    then have "active_key reg (qw_SignerBitset w ! n) = Some (ps ! n)" using ps(1,2) by (metis length_map nth_map)
    then show "standing D cs (qw_SignerBitset w ! n) (ps ! n)" using reg(2) by blast
  qed
  with ev ps show ?thesis by auto
qed

text \<open>A history over the integers: two registrations, one of the signers retired again.\<close>

definition int_points :: "(int, int) points" where
  "int_points = \<lparr>pt_g1 = (\<lambda>b. Some (int (length b))), pt_g2 = (\<lambda>b. Some (int (length b)))\<rparr>"

definition sample_calls :: "quorum_call list" where
  "sample_calls = [RegisterCall 1 (Some \<lparr>qr_ID = ''s'', qr_PubKey = ''0a0b'', qr_Bond = 5\<rparr>),
     RegisterCall 2 (Some \<lparr>qr_ID = ''t'', qr_PubKey = ''0c'', qr_Bond = 5\<rparr>), RetireCall ''t'']"

definition sample_verify :: quorumVerifyRequest where
  "sample_verify = \<lparr>qv_EvidenceRootHex = ''6576'', qv_SignerBitset = [''s''], qv_AggregateSigHex = ''01020304'', qv_Threshold = 0\<rparr>"

lemma sample_hex: "hex_decode ''0a0b'' = Some [byte 10, byte 11]" "hex_decode ''0c'' = Some [byte 12]" "hex_decode ''6576'' = Some ''ev''"
  "hex_decode ''01020304'' = Some [byte 1, byte 2, byte 3, byte 4]"
  by code_simp+

lemma sample_keys: "PubKeyFromHex int_points ''0a0b'' = Inr 2" "PubKeyFromHex int_points ''0c'' = Inr 1" "SigFromHex int_points ''01020304'' = Inr 4"
  by (simp_all add: PubKeyFromHex_def SigFromHex_def UnmarshalPubKey_def UnmarshalSignature_def int_points_def sample_hex del: hex_decode.simps)

definition sample_committee :: "int Registry" where
  "sample_committee =
     [''s'' \<mapsto> \<lparr>sr_ID = ''s'', sr_PublicKeyHex = hex_encode ''2'', sr_Bond = 5, sr_Status = StatusActive, sr_RegisteredAt = 1, sr_SlashedAt = None,
                sr_SlashReason = [], sr_pk = Some 2\<rparr>,
      ''t'' \<mapsto> \<lparr>sr_ID = ''t'', sr_PublicKeyHex = hex_encode ''2'', sr_Bond = 5, sr_Status = StatusRemoved, sr_RegisteredAt = 2, sr_SlashedAt = None,
                sr_SlashReason = [], sr_pk = Some 1\<rparr>]"

lemma sample_run: "quorum_run int_bls int_points sample_calls = Some sample_committee"
proof -
  have b: "g2_bytes int_bls x = ''2''" for x by (simp add: int_bls_def)
  show ?thesis
    by (simp add: quorum_run_def sample_calls_def quorumRegisterSigner_def quorumRetireSigner_def sample_keys Registry_Register_def Registry_Retire_def b
        sample_committee_def fun_eq_iff)
qed

lemma sample_quorum_served: "\<exists>w. quorumVerify int_bls int_points [''s'', ''t''] 9 (Some sample_verify) (quorum_run int_bls int_points sample_calls) = Inr w"
  unfolding sample_run
  by (simp add: quorumVerify_def sample_verify_def sample_hex sample_keys VerifyQuorum_def sample_committee_def ActiveCount_def range_values_def
      ByzantineThreshold_def SortSignerIDs_def activePubKeys_def AggregatePubKeys_def Bls_Verify_def int_bls_def Let_def del: hex_decode.simps)

theorem served_witness_standing_witness:
  "\<exists>w ps. quorumVerify int_bls int_points [''s'', ''t''] 9 (Some sample_verify) (quorum_run int_bls int_points sample_calls) = Inr w
     \<and> list_all2 (standing int_points sample_calls) (qw_SignerBitset w) ps \<and> 1 \<le> qw_Threshold w"
  using sample_quorum_served served_witness_standing [of int_bls int_points "[''s'', ''t'']" 9 sample_verify sample_calls] by blast

end
