(* ===== verification/Account_Api.thy ===== *)
theory Account_Api
  imports Tenant_Store Siwe
begin

text \<open>
  The endpoints of the tenant administration, \<^verbatim>\<open>api/tenant_handlers.go\<close>, and of the sign-in, \<^verbatim>\<open>api/siwe_handlers.go\<close>. A body that does not
  decode is \<open>None\<close>; the administration token of the environment, the token of the header and the clock readings are arguments. The handler that
  creates a tenant hands its pointer to the store and clears the key hashes of the same object afterwards; the model writes that out. The lemmas show
  that a key opens a tenant only when an administrator gave it to that tenant, that the keys a tenant is created with can never be
  revoked, and that a sign-in is answered with success at most once per challenge issued.
\<close>

section \<open>Tenant administration\<close>

definition AuditAdminRejected :: AuditKind where "AuditAdminRejected = ''tenant.auth.rejected''"

datatype tenant_refusal = TenantsDisabled | AdminDisabled | AdminForbidden | TenantBadJson | TenantFields | TenantEmptyKey | TenantIdMissing | KeyMissing
  | TenantConflict tenant_error | TenantUnknown tenant_error

fun tenant_status :: "tenant_refusal \<Rightarrow> int" where
  "tenant_status TenantsDisabled = 404"
| "tenant_status AdminDisabled = 403"
| "tenant_status AdminForbidden = 403"
| "tenant_status (TenantConflict e) = 409"
| "tenant_status (TenantUnknown e) = 404"
| "tenant_status _ = 400"

record admin_ctx =
  ad_env :: gostring
  ad_now :: int
  ad_token :: gostring
  ad_path :: gostring

definition requireTenantAdmin :: "admin_ctx \<Rightarrow> Store option \<Rightarrow> (tenant_refusal + Store) \<times> Store option" where
  "requireTenantAdmin x s =
     (case s of
        None \<Rightarrow> (Inl TenantsDisabled, s)
      | Some st \<Rightarrow>
          let want = TrimSpace (ad_env x); got = TrimSpace (ad_token x) in
          if want = [] then (Inl AdminDisabled, s)
          else if got = [] \<or> got \<noteq> want
          then (Inl AdminForbidden,
                Some (Log (ad_now x) \<lparr>ae_At = zero_time, ae_TenantID = [], ae_Kind = AuditAdminRejected, ae_Detail = ''admin token mismatch on '' @ ad_path x\<rparr> st))
          else (Inr st, s))"

definition tenantList :: "admin_ctx \<Rightarrow> gostring list \<Rightarrow> Store option \<Rightarrow> (tenant_refusal + Tenant list) \<times> Store option" where
  "tenantList x ks s =
     (case requireTenantAdmin x s of (Inl e, s') \<Rightarrow> (Inl e, s') | (Inr st, s') \<Rightarrow> (Inr (List_tenants ks st), s'))"

record tenantCreateReq =
  tq_ID :: gostring
  tq_DisplayName :: gostring
  tq_Namespace :: gostring
  tq_Keys :: "gostring list"
  tq_RatePerSecond :: int
  tq_RatePerMinute :: int
  tq_MonthlyProofQuota :: int

definition new_tenant :: "tenantCreateReq \<Rightarrow> Tenant" where
  "new_tenant req =
     \<lparr>tn_ID = tq_ID req, tn_DisplayName = tq_DisplayName req, tn_Namespace = tq_Namespace req, tn_CreatedAt = zero_time,
      tn_KeyHashes = map HashKey (tq_Keys req), tn_RatePerSecond = tq_RatePerSecond req, tn_RatePerMinute = tq_RatePerMinute req,
      tn_MonthlyProofQuota = tq_MonthlyProofQuota req\<rparr>"

text \<open>\<^verbatim>\<open>tn.KeyHashes = nil\<close>, on the object that the store holds.\<close>

definition strip_hashes :: "gostring \<Rightarrow> Store \<Rightarrow> Store" where
  "strip_hashes i st = (case st_tenants st i of None \<Rightarrow> st | Some t \<Rightarrow> st\<lparr>st_tenants := (st_tenants st)(i \<mapsto> t\<lparr>tn_KeyHashes := []\<rparr>)\<rparr>)"

definition tenantCreate :: "admin_ctx \<Rightarrow> tenantCreateReq option \<Rightarrow> Store option \<Rightarrow> (tenant_refusal + Tenant) \<times> Store option" where
  "tenantCreate x body s =
     (case requireTenantAdmin x s of
        (Inl e, s') \<Rightarrow> (Inl e, s')
      | (Inr st, s') \<Rightarrow>
          (case body of
             None \<Rightarrow> (Inl TenantBadJson, s')
           | Some req \<Rightarrow>
               if tq_ID req = [] \<or> length (tq_Keys req) = 0 then (Inl TenantFields, s')
               else if [] \<in> set (tq_Keys req) then (Inl TenantEmptyKey, s')
               else case Add (ad_now x) st (Some (new_tenant req)) of
                   Inl e \<Rightarrow> (Inl (TenantConflict e), s')
                 | Inr st' \<Rightarrow> let st'' = strip_hashes (tq_ID req) st' in (Inr (the (st_tenants st'' (tq_ID req))), Some st'')))"

definition tenantAddKey :: "admin_ctx \<Rightarrow> gostring \<Rightarrow> gostring option \<Rightarrow> Store option \<Rightarrow> (tenant_refusal + gostring) \<times> Store option" where
  "tenantAddKey x i body s =
     (case requireTenantAdmin x s of
        (Inl e, s') \<Rightarrow> (Inl e, s')
      | (Inr st, s') \<Rightarrow>
          if i = [] then (Inl TenantIdMissing, s')
          else case body of
              None \<Rightarrow> (Inl TenantBadJson, s')
            | Some key \<Rightarrow>
                if key = [] then (Inl KeyMissing, s')
                else (case RotateAddKey (ad_now x) st i key of Inl e \<Rightarrow> (Inl (TenantConflict e), s') | Inr st' \<Rightarrow> (Inr ''added'', Some st')))"

definition tenantRevokeKeys :: "admin_ctx \<Rightarrow> gostring \<Rightarrow> int option \<Rightarrow> Store option \<Rightarrow> (tenant_refusal + gostring \<times> int) \<times> Store option" where
  "tenantRevokeKeys x i body s =
     (case requireTenantAdmin x s of
        (Inl e, s') \<Rightarrow> (Inl e, s')
      | (Inr st, s') \<Rightarrow>
          if i = [] then (Inl TenantIdMissing, s')
          else case body of
              None \<Rightarrow> (Inl TenantBadJson, s')
            | Some keepLast0 \<Rightarrow>
                let keepLast = (if keepLast0 < 1 then 1 else keepLast0) in
                (case RotateRevokeOldKeys (ad_now x) st i keepLast of
                   Inl e \<Rightarrow> (Inl (TenantUnknown e), s')
                 | Inr st' \<Rightarrow> (Inr (''revoked'', keepLast), Some st')))"

definition tenantAudit :: "admin_ctx \<Rightarrow> gostring \<Rightarrow> Store option \<Rightarrow> (tenant_refusal + AuditEvent list) \<times> Store option" where
  "tenantAudit x i s =
     (case requireTenantAdmin x s of (Inl e, s') \<Rightarrow> (Inl e, s') | (Inr st, s') \<Rightarrow> (Inr (Audit st i), s'))"

section \<open>Sign-in\<close>

datatype siwe_refusal = SiweBadJson | SiweBadPubkey | SiweBadSignature | SiweNoMessage | SiweRefused siwe_error

fun challenge_status :: "siwe_refusal \<Rightarrow> int" where
  "challenge_status (SiweRefused ErrInvalidInput) = 400"
| "challenge_status (SiweRefused ErrCapacityExceeded) = 503"
| "challenge_status (SiweRefused _) = 500"
| "challenge_status _ = 400"

fun sign_in_status :: "siwe_refusal \<Rightarrow> int" where
  "sign_in_status (SiweRefused ErrExpired) = 401"
| "sign_in_status (SiweRefused ErrPurposeMismatch) = 401"
| "sign_in_status (SiweRefused ErrPubkeyMismatch) = 401"
| "sign_in_status (SiweRefused ErrSignatureInvalid) = 401"
| "sign_in_status (SiweRefused ErrInvalidInput) = 400"
| "sign_in_status (SiweRefused _) = 500"
| "sign_in_status _ = 400"

record siweChallengeResp =
  sc_Message :: gostring
  sc_Nonce :: gostring
  sc_Purpose :: gostring
  sc_Pubkey :: gostring
  sc_TTLSecs :: int

record siweVerifyReq =
  sv_Pubkey :: gostring
  sv_Purpose :: gostring
  sv_Message :: gostring
  sv_Signature :: gostring

definition siweChallenge ::
  "int \<Rightarrow> int \<Rightarrow> bytes option \<Rightarrow> (gostring \<times> gostring) option \<Rightarrow> SiweStore \<Rightarrow> (siwe_refusal + siweChallengeResp) \<times> SiweStore" where
  "siweChallenge t0 now nonce body s =
     (case body of
        None \<Rightarrow> (Inl SiweBadJson, s)
      | Some (pubkey, purpose) \<Rightarrow>
          (case ParsePubkeyHex pubkey of
             Inl e \<Rightarrow> (Inl SiweBadPubkey, s)
           | Inr pub \<Rightarrow>
               (case Issue t0 now nonce s pub purpose of
                  (s', Inl e) \<Rightarrow> (Inl (SiweRefused e), s')
                | (s', Inr (msg, nonceHex)) \<Rightarrow>
                    (Inr \<lparr>sc_Message = msg, sc_Nonce = nonceHex, sc_Purpose = purpose, sc_Pubkey = pubkey, sc_TTLSecs = DefaultTTL div 10 ^ 9\<rparr>, s'))))"

definition siweVerify ::
  "('sk, 'pk) sig_lib \<Rightarrow> int \<Rightarrow> int \<Rightarrow> siweVerifyReq option \<Rightarrow> SiweStore \<Rightarrow> (siwe_refusal + gostring \<times> gostring) \<times> SiweStore" where
  "siweVerify L t0 now body s =
     (case body of
        None \<Rightarrow> (Inl SiweBadJson, s)
      | Some req \<Rightarrow>
          (case ParsePubkeyHex (sv_Pubkey req) of
             Inl e \<Rightarrow> (Inl SiweBadPubkey, s)
           | Inr pub \<Rightarrow>
               (case ParseSignatureHex (sv_Signature req) of
                  Inl e \<Rightarrow> (Inl SiweBadSignature, s)
                | Inr sig \<Rightarrow>
                    if sv_Message req = [] then (Inl SiweNoMessage, s)
                    else (case Siwe_Verify L t0 now s pub (sv_Purpose req) (sv_Message req) sig of
                            (s', Some e) \<Rightarrow> (Inl (SiweRefused e), s')
                          | (s', None) \<Rightarrow> (Inr (sv_Purpose req, sv_Pubkey req), s')))))"

section \<open>Who can open a tenant\<close>

datatype admin_call = CreateCall admin_ctx "tenantCreateReq option" | AddKeyCall admin_ctx gostring "gostring option" | RevokeCall admin_ctx gostring "int option"
  | ListCall admin_ctx "gostring list" | AuditCall admin_ctx gostring

fun admin_exec :: "admin_call \<Rightarrow> Store option \<Rightarrow> Store option" where
  "admin_exec (CreateCall x body) s = snd (tenantCreate x body s)"
| "admin_exec (AddKeyCall x i body) s = snd (tenantAddKey x i body s)"
| "admin_exec (RevokeCall x i body) s = snd (tenantRevokeKeys x i body s)"
| "admin_exec (ListCall x ks) s = snd (tenantList x ks s)"
| "admin_exec (AuditCall x i) s = snd (tenantAudit x i s)"

definition admin_run :: "admin_call list \<Rightarrow> Store option" where
  "admin_run cs = foldl (\<lambda>s c. admin_exec c s) (Some NewStore) cs"

lemma admin_run_simps [simp]: "admin_run [] = Some NewStore" "admin_run (cs @ [c]) = admin_exec c (admin_run cs)"
  by (simp_all add: admin_run_def)

definition authorized :: "admin_ctx \<Rightarrow> bool" where
  "authorized x \<longleftrightarrow> TrimSpace (ad_env x) \<noteq> [] \<and> TrimSpace (ad_token x) = TrimSpace (ad_env x)"

text \<open>An authorised request that gives the hash \<open>h\<close> to the tenant \<open>i\<close>.\<close>

fun gives_key :: "gostring \<Rightarrow> gostring \<Rightarrow> admin_call \<Rightarrow> bool" where
  "gives_key i h (CreateCall x (Some req)) \<longleftrightarrow> authorized x \<and> tq_ID req = i \<and> h \<in> HashKey ` set (tq_Keys req)"
| "gives_key i h (AddKeyCall x j (Some key)) \<longleftrightarrow> authorized x \<and> j = i \<and> h = HashKey key"
| "gives_key i h _ \<longleftrightarrow> False"

text \<open>A store whose tenants and key index are those of another.\<close>

definition same_keys :: "Store \<Rightarrow> Store \<Rightarrow> bool" where
  "same_keys st st' \<longleftrightarrow> st_tenants st' = st_tenants st \<and> st_byKey st' = st_byKey st"

lemma requireTenantAdmin_some:
  "requireTenantAdmin x (Some st) =
     (if authorized x then (Inr st, Some st)
      else if TrimSpace (ad_env x) = [] then (Inl AdminDisabled, Some st)
      else (Inl AdminForbidden,
        Some (Log (ad_now x) \<lparr>ae_At = zero_time, ae_TenantID = [], ae_Kind = AuditAdminRejected, ae_Detail = ''admin token mismatch on '' @ ad_path x\<rparr> st)))"
  by (auto simp: requireTenantAdmin_def authorized_def Let_def)

lemma Log_same [simp]: "st_tenants (Log now ev st) = st_tenants st" "st_byKey (Log now ev st) = st_byKey st"
  by (simp_all add: Log_def)

lemma strip_byKey [simp]: "st_byKey (strip_hashes i st) = st_byKey st"
  by (simp add: strip_hashes_def split: option.splits)

lemma admin_exec_cases:
  obtains (same) st' where "admin_exec c (Some st) = Some st'" "same_keys st st'"
  | (created) x req st' where "c = CreateCall x (Some req)" "authorized x" "Add (ad_now x) st (Some (new_tenant req)) = Inr st'"
      "admin_exec c (Some st) = Some (strip_hashes (tq_ID req) st')"
  | (added) x i key st' where "c = AddKeyCall x i (Some key)" "authorized x" "RotateAddKey (ad_now x) st i key = Inr st'" "admin_exec c (Some st) = Some st'"
  | (revoked) x i n st' where "c = RevokeCall x i (Some n)" "authorized x" "RotateRevokeOldKeys (ad_now x) st i (max 1 n) = Inr st'"
      "admin_exec c (Some st) = Some st'"
proof (cases c)
  case (CreateCall x body)
  show ?thesis
  proof (cases "authorized x \<and> (\<exists>req st'. body = Some req \<and> tq_ID req \<noteq> [] \<and> tq_Keys req \<noteq> [] \<and> [] \<notin> set (tq_Keys req)
      \<and> Add (ad_now x) st (Some (new_tenant req)) = Inr st')")
    case True
    then show ?thesis using CreateCall by (auto simp: tenantCreate_def requireTenantAdmin_some Let_def intro!: created)
  next
    case False
    then show ?thesis using CreateCall
      by (intro same [of "the (admin_exec c (Some st))"])
        (auto simp: tenantCreate_def requireTenantAdmin_some same_keys_def Let_def split: option.splits sum.splits)
  qed
next
  case (AddKeyCall x i body)
  show ?thesis
  proof (cases "authorized x \<and> i \<noteq> [] \<and> (\<exists>key st'. body = Some key \<and> key \<noteq> [] \<and> RotateAddKey (ad_now x) st i key = Inr st')")
    case True
    then show ?thesis using AddKeyCall by (auto simp: tenantAddKey_def requireTenantAdmin_some intro!: added)
  next
    case False
    then show ?thesis using AddKeyCall
      by (intro same [of "the (admin_exec c (Some st))"])
        (auto simp: tenantAddKey_def requireTenantAdmin_some same_keys_def split: option.splits sum.splits)
  qed
next
  case (RevokeCall x i body)
  have mx: "(if n < 1 then 1 else n) = max 1 n" for n :: int by simp
  show ?thesis
  proof (cases "authorized x \<and> i \<noteq> [] \<and> (\<exists>n st'. body = Some n \<and> RotateRevokeOldKeys (ad_now x) st i (max 1 n) = Inr st')")
    case True
    then obtain n st' where n: "authorized x" "i \<noteq> []" "body = Some n" "RotateRevokeOldKeys (ad_now x) st i (max 1 n) = Inr st'" by blast
    then have "admin_exec c (Some st) = Some st'" using RevokeCall by (simp only: admin_exec.simps tenantRevokeKeys_def requireTenantAdmin_some mx Let_def) simp
    with n RevokeCall show ?thesis by (intro revoked) auto
  next
    case False
    then show ?thesis using RevokeCall
      by (intro same [of "the (admin_exec c (Some st))"])
        (simp_all only: admin_exec.simps tenantRevokeKeys_def requireTenantAdmin_some mx Let_def, auto simp: same_keys_def split: option.splits sum.splits)
  qed
next
  case (ListCall x ks)
  then show ?thesis
    by (intro same [of "the (admin_exec c (Some st))"]) (auto simp: tenantList_def requireTenantAdmin_some same_keys_def)
next
  case (AuditCall x i)
  then show ?thesis
    by (intro same [of "the (admin_exec c (Some st))"]) (auto simp: tenantAudit_def requireTenantAdmin_some same_keys_def)
qed

definition index_ok :: "admin_call list \<Rightarrow> Store \<Rightarrow> bool" where
  "index_ok cs st \<longleftrightarrow>
     (\<forall>h i. st_byKey st h = Some i \<longrightarrow> st_tenants st i \<noteq> None \<and> (\<exists>c\<in>set cs. gives_key i h c)) \<and>
     (\<forall>i t. st_tenants st i = Some t \<longrightarrow> tn_ID t = i \<and> distinct (tn_KeyHashes t) \<and> (\<forall>h\<in>set (tn_KeyHashes t). st_byKey st h = Some i))"

text \<open>The store after each effective request.\<close>

lemma created_fields:
  assumes "Add now st (Some (new_tenant req)) = Inr st'"
  shows "st_tenants st (tq_ID req) = None" "\<exists>t. st_tenants (strip_hashes (tq_ID req) st') = (st_tenants st)(tq_ID req \<mapsto> t) \<and> tn_ID t = tq_ID req \<and> tn_KeyHashes t = []"
    "st_byKey st' h = (if h \<in> HashKey ` set (tq_Keys req) then Some (tq_ID req) else st_byKey st h)"
    "h \<in> HashKey ` set (tq_Keys req) \<Longrightarrow> st_byKey st h = None"
proof -
  from assms obtain t ns where t: "new_tenant req = t" "st_tenants st (tn_ID t) = None" "\<forall>h\<in>set (tn_KeyHashes t). st_byKey st h = None"
    "st_tenants st' = (st_tenants st)(tn_ID t \<mapsto> t\<lparr>tn_Namespace := ns\<rparr>)" "st_byKey st' = claim_keys (tn_ID t) (tn_KeyHashes t) (st_byKey st)"
    by (elim Add_InrE) auto
  have i: "tn_ID t = tq_ID req" and k: "tn_KeyHashes t = map HashKey (tq_Keys req)" using t(1) by (auto simp: new_tenant_def)
  show "st_tenants st (tq_ID req) = None" using t(2) i by simp
  show "\<exists>t. st_tenants (strip_hashes (tq_ID req) st') = (st_tenants st)(tq_ID req \<mapsto> t) \<and> tn_ID t = tq_ID req \<and> tn_KeyHashes t = []"
    using t(4) i by (intro exI [of _ "t\<lparr>tn_Namespace := ns, tn_KeyHashes := []\<rparr>"]) (simp add: strip_hashes_def)
  show "st_byKey st' h = (if h \<in> HashKey ` set (tq_Keys req) then Some (tq_ID req) else st_byKey st h)" using t(5) i k by (simp add: claim_keys_lookup)
  show "h \<in> HashKey ` set (tq_Keys req) \<Longrightarrow> st_byKey st h = None" using t(3) k by auto
qed

lemma revoked_fields:
  assumes "RotateRevokeOldKeys now st i k = Inr st'"
  obtains t n where "st_tenants st i = Some t" "st_tenants st' = (st_tenants st)(i \<mapsto> t\<lparr>tn_KeyHashes := drop n (tn_KeyHashes t)\<rparr>)"
    "\<And>h. st_byKey st' h = (if h \<in> set (take n (tn_KeyHashes t)) then None else st_byKey st h)"
  using assms
proof (cases rule: RotateRevokeOldKeys_InrE)
  case (1 t n)
  then show ?thesis by (intro that [of t n]) (simp_all add: release_keys_lookup)
qed

lemma index_ok_exec:
  assumes "index_ok cs st" "admin_exec c (Some st) = Some st'"
  shows "index_ok (cs @ [c]) st'"
proof (cases rule: admin_exec_cases [of c st])
  case (same s2)
  with assms show ?thesis by (auto simp: index_ok_def same_keys_def)
next
  case (created x req s2)
  note F = created_fields [OF created(3)]
  have s': "st' = strip_hashes (tq_ID req) s2" using created(4) assms(2) by simp
  obtain t where t: "st_tenants st' = (st_tenants st)(tq_ID req \<mapsto> t)" "tn_ID t = tq_ID req" "tn_KeyHashes t = []" using F(2) s' by auto
  have "st_byKey st' h = (if h \<in> HashKey ` set (tq_Keys req) then Some (tq_ID req) else st_byKey st h)" for h using F(3) s' by simp
  moreover have "st_byKey st (HashKey k) = None" if "k \<in> set (tq_Keys req)" for k using F(4) that by blast
  ultimately show ?thesis using assms(1) t F(1) created(1,2) by (auto simp: index_ok_def split: if_splits) force
next
  case (added x i key s2)
  then have "st' = s2" using assms(2) by simp
  from RotateAddKey_InrE [OF added(3)] obtain t where "st_tenants st i = Some t" "st_byKey st (HashKey key) = None"
    "st_tenants st' = (st_tenants st)(i \<mapsto> t\<lparr>tn_KeyHashes := tn_KeyHashes t @ [HashKey key]\<rparr>)" "st_byKey st' = (st_byKey st)(HashKey key \<mapsto> i)"
    using \<open>st' = s2\<close> by metis
  with assms(1) added(1,2) show ?thesis by (auto simp: index_ok_def split: if_splits)
next
  case (revoked x i n s2)
  then have "st' = s2" using assms(2) by simp
  from revoked_fields [OF revoked(3)] obtain t m where F: "st_tenants st i = Some t" "st_tenants st' = (st_tenants st)(i \<mapsto> t\<lparr>tn_KeyHashes := drop m (tn_KeyHashes t)\<rparr>)"
    "\<And>h. st_byKey st' h = (if h \<in> set (take m (tn_KeyHashes t)) then None else st_byKey st h)" using \<open>st' = s2\<close> by metis
  have d: "distinct (tn_KeyHashes t)" and own: "\<And>h. h \<in> set (tn_KeyHashes t) \<Longrightarrow> st_byKey st h = Some i" using assms(1) F(1) by (auto simp: index_ok_def)
  have disj: "h \<notin> set (take m (tn_KeyHashes t))" if "h \<in> set (drop m (tn_KeyHashes t))" for h
    using set_take_disj_set_drop_if_distinct [OF d, of m m] that by auto
  have other: "h \<notin> set (take m (tn_KeyHashes t))" if "st_byKey st h = Some j" "j \<noteq> i" for h j
  proof
    assume "h \<in> set (take m (tn_KeyHashes t))"
    then have "st_byKey st h = Some i" by (intro own) (rule in_set_takeD)
    with that show False by simp
  qed
  show ?thesis using assms(1) d disj other F by (auto simp: index_ok_def split: if_splits dest: in_set_takeD in_set_dropD)
qed

lemma admin_exec_some: "\<exists>st'. admin_exec c (Some st) = Some st'"
  by (cases rule: admin_exec_cases [of c st]) auto

lemma admin_run_ok: "\<exists>st. admin_run cs = Some st \<and> index_ok cs st"
proof (induction cs rule: rev_induct)
  case Nil
  show ?case by (simp add: index_ok_def NewStore_def)
next
  case (snoc c cs)
  then obtain st where "admin_run cs = Some st" "index_ok cs st" by blast
  with admin_exec_some [of c st] index_ok_exec [of cs st c] show ?case by auto
qed


definition sample_admin :: "gostring \<Rightarrow> admin_ctx" where
  "sample_admin tok = \<lparr>ad_env = ''adm'', ad_now = 7, ad_token = tok, ad_path = ''/admin/tenants''\<rparr>"

definition sample_create :: tenantCreateReq where
  "sample_create = \<lparr>tq_ID = ''a'', tq_DisplayName = [], tq_Namespace = [], tq_Keys = [''k''], tq_RatePerSecond = 0, tq_RatePerMinute = 0, tq_MonthlyProofQuota = 0\<rparr>"

lemma sample_admin_auth: "authorized (sample_admin ''adm'')"
  by code_simp

lemma sample_bare: "\<not> ContainsAny ''a'' (map byte [32, 9, 10, 47, 92])"
  by code_simp

lemma sample_admin_run: "\<exists>st t. admin_run [CreateCall (sample_admin ''adm'') (Some sample_create)] = Some st \<and> Resolve [''a''] st ''k'' = Some t \<and> tn_ID t = ''a''"
  by (simp add: admin_run_def tenantCreate_def requireTenantAdmin_some sample_admin_auth)
    (simp add: sample_create_def new_tenant_def Add_def sample_bare [simplified] NewStore_def strip_hashes_def Resolve_def Let_def)


section \<open>The keys of the creation stay for ever\<close>

definition unlisted :: "gostring \<Rightarrow> gostring \<Rightarrow> Store \<Rightarrow> bool" where
  "unlisted i h st \<longleftrightarrow> st_byKey st h = Some i \<and> (\<exists>t. st_tenants st i = Some t \<and> h \<notin> set (tn_KeyHashes t))"

lemma unlisted_exec:
  assumes "index_ok cs st" "unlisted i h st" "admin_exec c (Some st) = Some st'"
  shows "unlisted i h st'"
proof (cases rule: admin_exec_cases [of c st])
  case (same s2)
  with assms show ?thesis by (auto simp: unlisted_def same_keys_def)
next
  case (created x req s2)
  note F = created_fields [OF created(3)]
  have s': "st' = strip_hashes (tq_ID req) s2" using created(4) assms(3) by simp
  have "st_byKey st' h = (if h \<in> HashKey ` set (tq_Keys req) then Some (tq_ID req) else st_byKey st h)" using F(3) s' by simp
  with assms(2) F(1,2,4) s' show ?thesis by (auto simp: unlisted_def)
next
  case (added x j key s2)
  then have "st' = s2" using assms(3) by simp
  show ?thesis using added(3) assms(2) unfolding \<open>st' = s2\<close> by (elim RotateAddKey_InrE) (auto simp: unlisted_def)
next
  case (revoked x j n s2)
  then have "st' = s2" using assms(3) by simp
  from revoked_fields [OF revoked(3)] obtain t m where F: "st_tenants st j = Some t" "st_tenants st' = (st_tenants st)(j \<mapsto> t\<lparr>tn_KeyHashes := drop m (tn_KeyHashes t)\<rparr>)"
    "\<And>h. st_byKey st' h = (if h \<in> set (take m (tn_KeyHashes t)) then None else st_byKey st h)" using \<open>st' = s2\<close> by metis
  have "h \<notin> set (tn_KeyHashes t)" using assms(1,2) F(1) by (cases "j = i") (auto simp: unlisted_def index_ok_def)
  with assms(2) F show ?thesis by (auto simp: unlisted_def dest: in_set_takeD in_set_dropD)
qed

text \<open>
  A key listed in an accepted creation opens its tenant after every further sequence of administration requests: no revocation takes it back,
  because the handler has cleared the list from which revocations work.
\<close>

theorem created_keys_irrevocable:
  assumes "tenantCreate x (Some req) (admin_run cs) = (Inr t, s')" "k \<in> set (tq_Keys req)"
  shows "\<exists>st. admin_run (cs @ CreateCall x (Some req) # ds) = Some st \<and> st_byKey st (HashKey k) = Some (tq_ID req) \<and> st_tenants st (tq_ID req) \<noteq> None"
proof -
  obtain st0 where st0: "admin_run cs = Some st0" "index_ok cs st0" using admin_run_ok by blast
  from assms(1) obtain s2 where s2: "Add (ad_now x) st0 (Some (new_tenant req)) = Inr s2" "s' = Some (strip_hashes (tq_ID req) s2)"
    by (auto simp: st0(1) tenantCreate_def requireTenantAdmin_some Let_def split: if_splits sum.splits)
  have one: "admin_run (cs @ [CreateCall x (Some req)]) = s'" using assms(1) by simp
  have "unlisted (tq_ID req) (HashKey k) (strip_hashes (tq_ID req) s2)"
    using created_fields [OF s2(1)] assms(2) by (auto simp: unlisted_def)
  have "\<exists>st. admin_run (cs @ CreateCall x (Some req) # ds) = Some st \<and> unlisted (tq_ID req) (HashKey k) st"
  proof (induction ds rule: rev_induct)
    case Nil
    with one s2(2) \<open>unlisted _ _ _\<close> show ?case by simp
  next
    case (snoc d ds)
    then obtain st where st: "admin_run (cs @ CreateCall x (Some req) # ds) = Some st" "unlisted (tq_ID req) (HashKey k) st" by blast
    then have "index_ok (cs @ CreateCall x (Some req) # ds) st" using admin_run_ok by (metis option.inject)
    with st admin_exec_some [of d st] unlisted_exec show ?case
      using admin_run_simps(2) [of "cs @ CreateCall x (Some req) # ds" d] by auto
  qed
  then show ?thesis by (auto simp: unlisted_def)
qed

section \<open>Sign-in over HTTP\<close>

datatype siwe_request = ChallengeReq int int "bytes option" "(gostring \<times> gostring) option" | SignInReq int int "siweVerifyReq option"

datatype siwe_answer = ChallengeAns "siwe_refusal + siweChallengeResp" | SignInAns "siwe_refusal + gostring \<times> gostring"

fun siwe_serve :: "('sk, 'pk) sig_lib \<Rightarrow> siwe_request \<Rightarrow> SiweStore \<Rightarrow> siwe_answer \<times> SiweStore" where
  "siwe_serve L (ChallengeReq t0 now nonce body) s = map_prod ChallengeAns id (siweChallenge t0 now nonce body s)"
| "siwe_serve L (SignInReq t0 now body) s = map_prod SignInAns id (siweVerify L t0 now body s)"

definition siwe_http :: "('sk, 'pk) sig_lib \<Rightarrow> int \<Rightarrow> siwe_request list \<Rightarrow> SiweStore \<times> (siwe_request \<times> siwe_answer) list" where
  "siwe_http L ttl rs = foldl (\<lambda>(s, lg) r. let (a, s') = siwe_serve L r s in (s', lg @ [(r, a)])) (NewSiweStore ttl, []) rs"

fun challenged :: "gostring \<Rightarrow> siwe_request \<times> siwe_answer \<Rightarrow> bool" where
  "challenged m (r, ChallengeAns (Inr c)) \<longleftrightarrow> sc_Message c = m"
| "challenged m _ \<longleftrightarrow> False"

fun signed_in :: "gostring \<Rightarrow> siwe_request \<times> siwe_answer \<Rightarrow> bool" where
  "signed_in m (SignInReq t0 now (Some req), SignInAns (Inr ok)) \<longleftrightarrow> sv_Message req = m"
| "signed_in m _ \<longleftrightarrow> False"

text \<open>A request is one call of the store, or none when it is refused before.\<close>

lemma siwe_serve_call:
  assumes "siwe_serve L r s = (a, s')"
  shows "s' = s \<and> (\<forall>m. \<not> challenged m (r, a) \<and> \<not> signed_in m (r, a))
    \<or> (\<exists>c x. siwe_exec L s c = (s', x) \<and> (\<forall>m. challenged m (r, a) = issues m (c, x) \<and> signed_in m (r, a) = consumes m (c, x)))"
proof (cases r)
  case (ChallengeReq t0 now nonce body)
  show ?thesis
  proof (cases "\<exists>pubkey purpose pub. body = Some (pubkey, purpose) \<and> ParsePubkeyHex pubkey = Inr pub")
    case True
    then obtain pubkey purpose pub where b: "body = Some (pubkey, purpose)" "ParsePubkeyHex pubkey = Inr pub" by blast
    show ?thesis
      by (rule disjI2, rule exI [of _ "CIssue t0 now nonce pub purpose"], rule exI [of _ "RIssue (snd (Issue t0 now nonce s pub purpose))"])
        (use assms ChallengeReq b in \<open>auto simp: siweChallenge_def split: prod.splits sum.splits\<close>)
  next
    case False
    with assms ChallengeReq show ?thesis by (auto simp: siweChallenge_def split: option.splits sum.splits)
  qed
next
  case (SignInReq t0 now body)
  show ?thesis
  proof (cases "\<exists>req pub sig. body = Some req \<and> ParsePubkeyHex (sv_Pubkey req) = Inr pub \<and> ParseSignatureHex (sv_Signature req) = Inr sig \<and> sv_Message req \<noteq> []")
    case True
    then obtain req pub sig where b: "body = Some req" "ParsePubkeyHex (sv_Pubkey req) = Inr pub" "ParseSignatureHex (sv_Signature req) = Inr sig" "sv_Message req \<noteq> []"
      by blast
    show ?thesis
      by (rule disjI2, rule exI [of _ "CVerify t0 now pub (sv_Purpose req) (sv_Message req) sig"],
          rule exI [of _ "RVerify (snd (Siwe_Verify L t0 now s pub (sv_Purpose req) (sv_Message req) sig))"])
        (use assms SignInReq b in \<open>auto simp: siweVerify_def split: prod.splits option.splits\<close>)
  next
    case False
    with assms SignInReq show ?thesis by (auto simp: siweVerify_def split: option.splits sum.splits if_splits)
  qed
qed

lemma siwe_http_simulates:
  "\<exists>cs lg'. siwe_hist L ttl cs = (fst (siwe_http L ttl rs), lg')
     \<and> (\<forall>m. issued m lg' = length (filter (challenged m) (snd (siwe_http L ttl rs))) \<and> verified m lg' = length (filter (signed_in m) (snd (siwe_http L ttl rs))))"
proof (induction rs rule: rev_induct)
  case Nil
  show ?case by (rule exI [of _ "[]"]) (simp add: siwe_hist_def siwe_http_def issued_def verified_def)
next
  case (snoc r rs)
  obtain s lg where h: "siwe_http L ttl rs = (s, lg)" by fastforce
  obtain a s' where a: "siwe_serve L r s = (a, s')" by fastforce
  have h': "siwe_http L ttl (rs @ [r]) = (s', lg @ [(r, a)])" using h a by (simp add: siwe_http_def)
  from snoc h obtain cs lg' where sim: "siwe_hist L ttl cs = (s, lg')"
    "\<And>m. issued m lg' = length (filter (challenged m) lg)" "\<And>m. verified m lg' = length (filter (signed_in m) lg)" by auto
  from siwe_serve_call [OF a] show ?case
  proof
    assume "s' = s \<and> (\<forall>m. \<not> challenged m (r, a) \<and> \<not> signed_in m (r, a))"
    with sim h' show ?thesis by (intro exI [of _ cs] exI [of _ lg']) simp
  next
    assume "\<exists>c x. siwe_exec L s c = (s', x) \<and> (\<forall>m. challenged m (r, a) = issues m (c, x) \<and> signed_in m (r, a) = consumes m (c, x))"
    then obtain c x where "siwe_exec L s c = (s', x)" "\<And>m. challenged m (r, a) = issues m (c, x)" "\<And>m. signed_in m (r, a) = consumes m (c, x)" by blast
    with sim h' show ?thesis by (intro exI [of _ "cs @ [c]"] exI [of _ "lg' @ [(c, x)]"]) (simp add: siwe_hist_snoc)
  qed
qed

text \<open>
  Whatever requests arrive, a message is accepted by the sign-in endpoint at most as often as the challenge endpoint has issued it.
\<close>

theorem sign_in_once:
  "length (filter (signed_in m) (snd (siwe_http L ttl rs))) \<le> length (filter (challenged m) (snd (siwe_http L ttl rs)))"
proof -
  obtain cs lg' where "siwe_hist L ttl cs = (fst (siwe_http L ttl rs), lg')" "issued m lg' = length (filter (challenged m) (snd (siwe_http L ttl rs)))"
    "verified m lg' = length (filter (signed_in m) (snd (siwe_http L ttl rs)))"
    using siwe_http_simulates [of L ttl rs] by blast
  moreover from siwe_hist_inv [OF this(1)] have "verified m lg' \<le> issued m lg'" by (simp add: siwe_inv_def)
  ultimately show ?thesis by simp
qed

end
