(* ===== verification/Spec2Isabelle.thy ===== *)
theory Spec2Isabelle
  imports Incremental Complexity Merkle_Recursion Hash_Fold Proof_Dag Byzantine Conformal Decision_Api Decision_Demo
    Quorum Circuit Worker_Pool Receipt_Shapes Siwe Http_Pipeline Stark Proof_Api Webhooks Audit_Log Model_Registry
    Facet_Judge Aggregation_Api Quorum_Api Account_Api
begin

text \<open>
  Verification of the CasperProver engine: a Go service that registers proofs of model inference,
  judges agent decisions through a pool of providers, keeps signed receipts of them, and serves all
  of this over HTTP to scoped tenants. The definitions follow the source under
  \<^verbatim>\<open>src/engine/internal\<close> (written \<open>internal\<close> below) one by one; the properties of each component stand
  in its own theory, and this root theory imports them all.

  \<^bold>\<open>The parts and how they interact.\<close>
  \<^item> \<^emph>\<open>Standard library.\<close> \<open>Sha256\<close> is an executable SHA-256; \<open>Go_Prelude\<close> holds the types of the model (byte
    strings are lists of characters, \<^verbatim>\<open>int64\<close> is \<open>int\<close> with \<open>wrap64\<close> where the code can overflow), hexadecimal and
    decimal text, \<^verbatim>\<open>strings.TrimSpace\<close>, iteration over maps and the stable sorts; \<open>Go_Float\<close> the bits of a
    \<^verbatim>\<open>float64\<close>; \<open>Go_Time\<close> the calendar and the layouts of \<^verbatim>\<open>time\<close>; \<open>Go_Encoding\<close> base64 and length-prefixed fields;
    \<open>Go_Json\<close> the texts of \<^verbatim>\<open>encoding/json\<close>.
  \<^item> \<^emph>\<open>Commitments.\<close> \<open>Merkle_Core\<close> is the reference tree (a locale over the hashing of two children);
    \<open>Merkle\<close> (\<^verbatim>\<open>prover/merkle.go\<close>, \<^verbatim>\<open>hasher\<close>), \<open>Incremental\<close> (\<^verbatim>\<open>prover/incremental.go\<close>), \<open>Merkle_Recursion\<close>
    (\<^verbatim>\<open>aggregator/merkle_recursion.go\<close>), \<open>Hash_Fold\<close> (\<^verbatim>\<open>aggregator/nova.go\<close>) and \<open>Stark\<close> (\<^verbatim>\<open>aggregator/stark.go\<close>, with the batch
    endpoints) build on it; \<open>Pedersen_Fold\<close> (\<^verbatim>\<open>aggregator/pedersen_fold.go\<close>) is the second folder, and \<open>Aggregation_Api\<close> holds the
    endpoints of the folders and of the Merkle aggregates.
  \<^item> \<^emph>\<open>Proofs.\<close> \<open>Proof_Engine\<close> (\<^verbatim>\<open>prover/proof.go\<close>, \<^verbatim>\<open>verifier\<close>, the software attestation), \<open>Complexity\<close>
    (\<^verbatim>\<open>prover/complexity.go\<close>), \<open>Proof_Dag\<close> (\<^verbatim>\<open>pkg/phase2\<close>), \<open>Worker_Pool\<close> (\<^verbatim>\<open>worker/distributed.go\<close>), \<open>Circuit\<close>
    (\<^verbatim>\<open>submitter/resilience.go\<close>) and \<open>Proof_Api\<close> (the proof, KYC and inference endpoints of \<^verbatim>\<open>api/server.go\<close>
    with the tables of \<^verbatim>\<open>store/pg.go\<close>, so that restarts are steps of its runs).
  \<^item> \<^emph>\<open>Decisions.\<close> \<open>Decision\<close> (\<^verbatim>\<open>decision/attest/decision.go\<close>, \<^verbatim>\<open>gate.go\<close>), \<open>Decision_Judge\<close> (providers, equivocation
    ledger, injection filter), \<open>Judge_Pool\<close> (\<^verbatim>\<open>pool.go\<close>), \<open>Http_Adapter\<close> (\<^verbatim>\<open>adapter.go\<close>), \<open>Byzantine\<close>, \<open>Conformal\<close>,
    \<open>Hitl\<close> (\<^verbatim>\<open>hitl/hitl.go\<close>), \<open>Decision_Api\<close> (\<^verbatim>\<open>api/decision_handlers.go\<close>, which composes them), \<open>Decision_Demo\<close>
    and \<open>Quorum\<close> with \<open>Quorum_Api\<close> (\<^verbatim>\<open>quorum\<close> and its endpoints).
  \<^item> \<^emph>\<open>Keys and receipts.\<close> \<open>Pq\<close> and \<open>Keyring\<close> (\<^verbatim>\<open>crypto\<close>), \<open>Receipts\<close> and \<open>Receipt_Shapes\<close> (\<^verbatim>\<open>receipts\<close>), \<open>Siwe\<close>
    (\<^verbatim>\<open>api/siwe\<close>).
  \<^item> \<^emph>\<open>The server.\<close> \<open>Http\<close> (requests and the router), \<open>Tenant_Store\<close> (\<^verbatim>\<open>api/tenant\<close>), \<open>Access\<close> (rate limits, scopes,
    versions), \<open>Idempotency\<close>, \<open>Http_Pipeline\<close> (the chain of middlewares around every handler) and \<open>Webhooks\<close>
    (\<^verbatim>\<open>api/webhooks.go\<close> and its endpoints), \<open>Account_Api\<close> (the endpoints of tenants and of the sign-in).
  \<^item> \<^emph>\<open>Models and their judgement.\<close> \<open>Model_Registry\<close> (\<^verbatim>\<open>model/registry.go\<close>), \<open>Llm_Providers\<close> (key rings, error classes and calls of
    the clients in \<^verbatim>\<open>llm\<close>), \<open>Llm_Runner\<close> (\<^verbatim>\<open>llm/runner.go\<close>, \<^verbatim>\<open>fixture.go\<close>, \<^verbatim>\<open>config.go\<close>, \<^verbatim>\<open>wire.go\<close>), \<open>Facet_Judge\<close> (\<^verbatim>\<open>judge\<close> with its
    evidence and \<^verbatim>\<open>api/judge_handler.go\<close>) and \<open>Audit_Log\<close> (\<^verbatim>\<open>decision/audit.go\<close>, \<^verbatim>\<open>api/audit_handlers.go\<close>, over the JSON text of \<open>Go_Json\<close>).

  \<^bold>\<open>How state and operations correspond to the code.\<close> A Go struct is a record with one field per field of the
  struct that its operations read or write, a Go function the definition of the same name (a prefix or suffix keeps names apart), and a
  method that changes its receiver returns the new state. Errors are values of a datatype, so that every early return is a
  branch. A section under a lock is one step; components whose callers interleave (\<open>Proof_Engine\<close>,
  \<open>Circuit\<close>, \<open>Worker_Pool\<close>, \<open>Hitl\<close>, \<open>Quorum\<close>, \<open>Keyring\<close>, \<open>Siwe\<close>, \<open>Webhooks\<close> and the endpoints) have a step relation or
  a fold over calls, and their invariants hold after any sequence of steps. Pointers that are shared and
  changed through several owners are modelled by an explicit heap (\<open>Webhooks\<close>).

  \<^bold>\<open>What the lemmas show.\<close> Merkle paths and receipts verify and bind what they commit to, up to a SHA-256
  collision that the statement exhibits; optimised routines compute what the reference definitions do;
  proof identifiers are fresh and a revocation stands, across restarts; a critical rejection vetoes a decision, an
  approval needs the votes it claims, and a missing answer escalates; a quorum witness is sound, two quorums share an
  honest signer, and enough signatures are accepted; rotation keeps old signatures valid and the snapshots of the key ring round-trip;
  challenges are single-use; requests reach a handler only when all gates admit them, and retries run once; queued
  tasks and outbound events are never lost; a logged decision is tamper-evident and served from the window of kept records; the model
  registry stays consistent; the runner returns the answer its order of providers prescribes, and the judge's verdict is the one the answers
  call for. Lemmas on where the code departs from its documentation stand beside them.

  \<^bold>\<open>Interfaces.\<close> Each interface of the code on which clients rely is a locale (node hashing, folders, providers, ticket stores,
  middlewares, signature schemes), interpreted on the definitions of the component that provides it.

  \<^bold>\<open>Bounds, fuel and parameters.\<close> Loops are structural recursion or have a termination proof; the lineage search of
  receipts is a \<^theory_text>\<open>partial_function\<close> proved to return on every finite store. No function uses fuel. Floats are
  rationals with an explicit rounding \<open>rnd\<close> where the result depends on it; \<^verbatim>\<open>sort.Slice\<close> is modelled by a stable sort, and
  theorems that would depend on the order of equal elements are stated up to it. Parameters of the definitions are: the
  clock readings, random bytes and random draws; the orders in which maps are ranged over; the signature libraries (their laws are the
  hypothesis \<open>lib_ok\<close>, and those of the pairing library in \<open>Quorum\<close>), each instantiated concretely in a witness;
  the remote providers and receivers; whether a database write or a chain submission succeeded; and the answers of
  the library router to unmatched requests.

  \<^bold>\<open>Not modelled, and why.\<close> The zero-knowledge verifier, range proofs, and verifiable random functions are calls of
  curve and circuit libraries. Deploy construction, remote key stores and the delivery of escalations to chat services are network clients; of the
  language-model clients the HTTP exchange is an argument. The digests of equivocation and escalation evidence need the decimal text of
  floats and are left out, their content is modelled. Metrics, tracing and logging have no effect on results. The SQL text and the OpenAPI document are data. The
  command-line entry points and the SDK client wrap the endpoints that are modelled. The component list of the manifest gives each of these.
\<close>

end
